(* ===== verification/Panda_Prelude.thy ===== *)
theory Panda_Prelude
  imports Main "HOL-Library.Word"
begin

text \<open>
  Shared vocabulary of the development: the machine integers of the server, the error values of
  \<^verbatim>\<open>error.h\<close>, the chaining of fallible calls with the C operator \<^verbatim>\<open>?:\<close>, and the type of
  the parsing functions, which take a pointer into a NUL-terminated string and leave it advanced
  also when they fail.
\<close>

unbundle bit_operations_syntax

type_synonym u8 = "8 word"
type_synonym u16 = "16 word"
type_synonym u32 = "32 word"
type_synonym u64 = "64 word"

section \<open>Errors\<close>

text \<open>
  An \<^verbatim>\<open>error__t\<close> is either \<^verbatim>\<open>ERROR_OK\<close> or a stack of messages.  A fallible function of the
  model returns \<open>Inl\<close> with the messages (the format strings of the source) or \<open>Inr\<close>.
\<close>

type_synonym error = "string list"
type_synonym 'a result = "error + 'a"

definition fail :: "string \<Rightarrow> 'a result" where
  "fail msg = Inl [msg]"

definition test_ok :: "bool \<Rightarrow> string \<Rightarrow> unit result" where
  "test_ok c msg = (if c then Inr () else fail msg)"

definition and_then :: "'a result \<Rightarrow> ('a \<Rightarrow> 'b result) \<Rightarrow> 'b result" where
  "and_then r f = (case r of Inl e \<Rightarrow> Inl e | Inr x \<Rightarrow> f x)"

definition is_ok :: "'a result \<Rightarrow> bool" where
  "is_ok r = (case r of Inl _ \<Rightarrow> False | Inr _ \<Rightarrow> True)"

named_theorems result_simps \<open>evaluation of fallible computations\<close>

lemma and_then_Inl [simp]: "and_then (Inl e) f = Inl e"
  by (simp add: and_then_def)

lemma and_then_Inr [simp]: "and_then (Inr x) f = f x"
  by (simp add: and_then_def)

lemma and_then_fail [simp]: "and_then (fail m) f = fail m"
  by (simp add: fail_def)

lemma and_then_eq_Inr:
  "and_then r f = Inr y \<longleftrightarrow> (\<exists>x. r = Inr x \<and> f x = Inr y)"
  by (cases r) auto

lemma test_ok_simps [simp]: "test_ok True m = Inr ()" "test_ok False m = fail m"
  by (simp_all add: test_ok_def)

lemma test_ok_eq_Inr [simp]: "test_ok c m = Inr u \<longleftrightarrow> c"
  by (simp add: test_ok_def fail_def)

lemma fail_neq_Inr [simp]: "fail m \<noteq> Inr x" "Inr x \<noteq> fail m"
  by (simp_all add: fail_def)

lemma fail_eq_fail [simp]: "fail m = fail n \<longleftrightarrow> m = n"
  by (simp add: fail_def)

lemma is_ok_simps [simp]: "is_ok (Inl e) = False" "is_ok (Inr x) = True" "is_ok (fail m) = False"
  by (simp_all add: is_ok_def fail_def)

lemmas [result_simps] = and_then_def test_ok_def fail_def

section \<open>Parsing functions\<close>

text \<open>
  \<^verbatim>\<open>error__t parse_x(const char **string, X *result)\<close> is a function from the remaining input to
  the outcome and the input that remains.  The end of the list is the terminating NUL.
\<close>

type_synonym 'a parser = "string \<Rightarrow> 'a result \<times> string"

definition p_return :: "'a \<Rightarrow> 'a parser" where
  "p_return x s = (Inr x, s)"

definition p_then :: "'a parser \<Rightarrow> ('a \<Rightarrow> 'b parser) \<Rightarrow> 'b parser" where
  "p_then p f s = (case p s of (Inl e, s') \<Rightarrow> (Inl e, s') | (Inr x, s') \<Rightarrow> f x s')"

definition p_lift :: "'a result \<Rightarrow> 'a parser" where
  "p_lift r s = (r, s)"

definition p_if :: "bool \<Rightarrow> 'a parser \<Rightarrow> 'a \<Rightarrow> 'a parser" where
  "p_if c p dflt = (if c then p else p_return dflt)"

lemma p_return_simp [simp]: "p_return x s = (Inr x, s)"
  by (simp add: p_return_def)

lemma p_lift_simp [simp]: "p_lift r s = (r, s)"
  by (simp add: p_lift_def)

lemma p_then_eq_Inr:
  "p_then p f s = (Inr y, t) \<longleftrightarrow> (\<exists>x u. p s = (Inr x, u) \<and> f x u = (Inr y, t))"
  by (auto simp: p_then_def split: prod.splits sum.splits)

lemma p_then_Inr: "p s = (Inr x, u) \<Longrightarrow> p_then p f s = f x u"
  by (simp add: p_then_def)

lemma p_then_Inl: "p s = (Inl e, u) \<Longrightarrow> p_then p f s = (Inl e, u)"
  by (simp add: p_then_def)

section \<open>Characters and bytes\<close>

text \<open>The byte of a character, and the character under a string pointer (NUL at the end).\<close>

definition byte_of :: "char \<Rightarrow> u8" where
  "byte_of c = of_char c"

definition char_of_byte :: "u8 \<Rightarrow> char" where
  "char_of_byte b = char_of (unat b)"

definition nul :: char where
  "nul = CHR 0x00"

definition peek :: "string \<Rightarrow> char" where
  "peek s = (case s of [] \<Rightarrow> nul | c # _ \<Rightarrow> c)"

lemma peek_simps [simp]: "peek [] = nul" "peek (c # s) = c"
  by (simp_all add: peek_def)

lemma unat_of_char: "unat (of_char c :: u8) = of_char c"
proof -
  have "(of_char c :: u8) = word_of_nat (of_char c)"
    by (rule of_nat_of_char [symmetric])
  moreover have "(of_char c :: nat) < 2 ^ LENGTH(8)"
    by simp
  ultimately show ?thesis
    by (simp add: unsigned_of_nat take_bit_nat_eq_self del: of_nat_of_char)
qed

lemma char_of_byte_of [simp]: "char_of_byte (byte_of c) = c"
  by (simp add: char_of_byte_def byte_of_def unat_of_char)

lemma byte_of_char_of [simp]: "byte_of (char_of_byte b) = b"
proof -
  have "unat b < 256" using unsigned_less [of b, where ?'a = nat] by simp
  then have "(of_char (char_of (unat b) :: char) :: nat) = unat b"
    by simp
  then have "unat (byte_of (char_of_byte b)) = unat b"
    by (simp add: char_of_byte_def byte_of_def unat_of_char)
  then show ?thesis by (simp add: word_unat_eq_iff)
qed

lemma byte_of_inject [simp]: "byte_of c = byte_of d \<longleftrightarrow> c = d"
  using char_of_byte_of by metis

section \<open>Octets bit by bit\<close>

lemma less_8_cases: "n < (8 :: nat) \<Longrightarrow> n = 0 \<or> n = 1 \<or> n = 2 \<or> n = 3 \<or> n = 4 \<or> n = 5 \<or> n = 6 \<or> n = 7"
  by arith

lemma u8_eq_iff_bits:
  fixes x y :: u8
  shows "x = y \<longleftrightarrow>
    bit x 0 = bit y 0 \<and> bit x 1 = bit y 1 \<and> bit x 2 = bit y 2 \<and> bit x 3 = bit y 3 \<and>
    bit x 4 = bit y 4 \<and> bit x 5 = bit y 5 \<and> bit x 6 = bit y 6 \<and> bit x 7 = bit y 7"
  (is "_ = ?bits")
proof
  assume b: ?bits
  show "x = y"
  proof (rule bit_word_eqI)
    fix n assume "n < LENGTH(8)"
    then have "n < 8" by simp
    then consider "n = 0" | "n = 1" | "n = 2" | "n = 3" | "n = 4" | "n = 5" | "n = 6" | "n = 7"
      using less_8_cases by blast
    then show "bit x n = bit y n" by cases (use b in simp_all)
  qed
qed simp

lemma unat_u8_less [simp]: "unat (x :: u8) < 256"
  using unsigned_less [of x, where ?'a = nat] by simp

lemma word_high_bit_clear:
  fixes x :: "'w::len word"
  assumes "unat x < 2 ^ k" "k \<le> n"
  shows "\<not> bit x n"
proof -
  have "unat x < 2 ^ n"
    using assms by (meson less_le_trans one_le_numeral power_increasing)
  then have "\<not> bit (unat x) n" by (simp add: bit_iff_odd)
  then show ?thesis by (simp add: bit_unsigned_iff)
qed

lemma uint_bounds_32: "0 \<le> uint (x :: u32)" "uint (x :: u32) < 2 ^ 32"
  using uint_bounded [of x] by simp_all

lemma uint_ucast_64: "uint (ucast (x :: u32) :: u64) = uint x"
  using uint_bounds_32 [of x] by (simp add: unsigned_ucast_eq take_bit_int_eq_self)

section \<open>Lists\<close>

lemma nth_eq_takeD:
  "xs = ys @ zs \<Longrightarrow> take (length ys) xs = ys"
  by simp

lemma length_filter_update:
  assumes "i < length xs"
  shows "length (filter P (xs[i := x])) + (if P (xs ! i) then 1 else 0) =
    length (filter P xs) + (if P x then 1 else 0)"
proof -
  have "filter P xs = filter P (take i xs @ xs ! i # drop (Suc i) xs)"
    using assms by (simp flip: id_take_nth_drop)
  then show ?thesis using assms by (simp add: upd_conv_take_nth_drop)
qed

lemma length_filter_remove:
  assumes "i < length xs"
  shows "length (filter P (take i xs @ drop (Suc i) xs)) + (if P (xs ! i) then 1 else 0) = length (filter P xs)"
proof -
  have "filter P xs = filter P (take i xs @ xs ! i # drop (Suc i) xs)"
    using assms by (simp flip: id_take_nth_drop)
  then show ?thesis by simp
qed

lemma list_update_map_upt:
  "i < n \<Longrightarrow> (map f [0..<n])[i := x] = map (f(i := x)) [0..<n]"
  by (auto intro!: nth_equalityI simp: nth_list_update)

end
