(* ===== verification/Panda_Base64.thy ===== *)
theory Panda_Base64
  imports Panda_Prelude
begin

text \<open>
  Model of \<^verbatim>\<open>panda-server/server/base64.c\<close>: the encoder, the decode table built at start-up, and
  the decoder with its overrun check.  Octets are 8-bit words, text is a HOL string.
\<close>

section \<open>Encoding\<close>

definition encode :: string where
  "encode = ''ABCDEFGHIJKLMNOPQRSTUVWXYZabcdefghijklmnopqrstuvwxyz0123456789+/''"

text \<open>The array access \<^verbatim>\<open>encode[x]\<close>.\<close>

definition encode_at :: "u8 \<Rightarrow> char" where
  "encode_at x = encode ! unat x"

text \<open>
  The loop over groups of three octets and the switch on the remaining length.  The C code
  computes in \<^verbatim>\<open>int\<close> and masks with \<^verbatim>\<open>0x3F\<close>, which only keeps bits that the 8-bit
  computation has too.
\<close>

fun encode_groups :: "u8 list \<Rightarrow> string" where
  "encode_groups (a # b # c # data) =
     encode_at (drop_bit 2 a) #
     encode_at ((push_bit 4 a OR drop_bit 4 b) AND 0x3F) #
     encode_at ((push_bit 2 b OR drop_bit 6 c) AND 0x3F) #
     encode_at (c AND 0x3F) # encode_groups data"
| "encode_groups [a, b] =
     [encode_at (drop_bit 2 a),
      encode_at ((push_bit 4 a OR drop_bit 4 b) AND 0x3F),
      encode_at (push_bit 2 b AND 0x3F),
      CHR ''='']"
| "encode_groups [a] =
     [encode_at (drop_bit 2 a), encode_at (push_bit 4 a AND 0x3F), CHR ''='', CHR ''='']"
| "encode_groups [] = []"

text \<open>The text written and the number of characters written, the terminating NUL included.\<close>

definition base64_encode :: "u8 list \<Rightarrow> string \<times> nat" where
  "base64_encode data = (encode_groups data, length (encode_groups data) + 1)"

text \<open>The macro \<^verbatim>\<open>BASE64_ENCODE_LENGTH\<close> of the header.\<close>

definition BASE64_ENCODE_LENGTH :: "nat \<Rightarrow> nat" where
  "BASE64_ENCODE_LENGTH n = (4 * n + 2) div 3"

section \<open>Decoding\<close>

datatype base64_status = BASE64_STATUS_OK | BASE64_STATUS_MALFORMED | BASE64_STATUS_OVERRUN

definition initialise_base64 :: "u8 list" where
  "initialise_base64 =
     fold (\<lambda>i decode. decode[unat (byte_of (encode ! i)) := word_of_nat i])
       [0..<length encode] (replicate 256 0xff)"

text \<open>The static table after initialisation, and the access \<^verbatim>\<open>decode[(unsigned char) ch]\<close>.\<close>

definition decode_at :: "char \<Rightarrow> u8" where
  "decode_at ch = initialise_base64 ! unat (byte_of ch)"

text \<open>
  The conversion loop over the first \<^verbatim>\<open>in_length\<close> characters.  The octets written so far are
  returned also when the input is malformed.
\<close>

fun decode_groups :: "string \<Rightarrow> base64_status \<times> u8 list" where
  "decode_groups (s0 # s1 # s2 # s3 # string) =
     (let a = decode_at s0; b = decode_at s1; c = decode_at s2; d = decode_at s3
      in if (a OR b OR c OR d) = 0xff then (BASE64_STATUS_MALFORMED, [])
         else (case decode_groups string of (status, out) \<Rightarrow>
           (status,
            (push_bit 2 a OR drop_bit 4 b) # (push_bit 4 b OR drop_bit 2 c) #
            (push_bit 6 c OR d) # out)))"
| "decode_groups [s0, s1, s2] =
     (let a = decode_at s0; b = decode_at s1; c = decode_at s2
      in if (a OR b OR c) = 0xff then (BASE64_STATUS_MALFORMED, [])
         else (BASE64_STATUS_OK,
           [push_bit 2 a OR drop_bit 4 b, push_bit 4 b OR drop_bit 2 c]))"
| "decode_groups [s0, s1] =
     (let a = decode_at s0; b = decode_at s1
      in if (a OR b) = 0xff then (BASE64_STATUS_MALFORMED, [])
         else (BASE64_STATUS_OK, [push_bit 2 a OR drop_bit 4 b]))"
| "decode_groups [s0] = (BASE64_STATUS_MALFORMED, [])"
| "decode_groups [] = (BASE64_STATUS_OK, [])"

text \<open>
  \<^verbatim>\<open>string[in_length - 1]\<close>.  For the empty string the index wraps around and the read is out of
  bounds, which is the value \<open>None\<close>.
\<close>

definition last_char :: "string \<Rightarrow> nat \<Rightarrow> char option" where
  "last_char s n = (if 0 < n \<and> n \<le> length s then Some (s ! (n - 1)) else None)"

definition trim_one :: "string \<Rightarrow> nat \<Rightarrow> nat option" where
  "trim_one s n = (case last_char s n of
     None \<Rightarrow> None | Some c \<Rightarrow> Some (if c = CHR ''='' then n - 1 else n))"

definition trimmed_length :: "string \<Rightarrow> nat option" where
  "trimmed_length s =
     (if length s mod 4 = 0
      then (case trim_one s (length s) of None \<Rightarrow> None | Some n \<Rightarrow> trim_one s n)
      else Some (length s))"

definition converted_length :: "nat \<Rightarrow> nat" where
  "converted_length n = 3 * (n div 4) + (if n mod 4 > 0 then n mod 4 - 1 else 0)"

text \<open>Status, octets written and \<^verbatim>\<open>*converted\<close>; \<open>None\<close> where the code reads out of bounds.\<close>

definition base64_decode :: "string \<Rightarrow> nat \<Rightarrow> (base64_status \<times> u8 list \<times> nat) option" where
  "base64_decode s max_length =
     (case trimmed_length s of
        None \<Rightarrow> None
      | Some in_length \<Rightarrow>
          let converted = converted_length in_length
          in if converted > max_length then Some (BASE64_STATUS_OVERRUN, [], converted)
             else (case decode_groups (take in_length s) of
                     (status, out) \<Rightarrow> Some (status, out, converted)))"

definition base64_error_string :: "base64_status \<Rightarrow> string" where
  "base64_error_string status = (case status of
     BASE64_STATUS_OK \<Rightarrow> ''OK''
   | BASE64_STATUS_MALFORMED \<Rightarrow> ''Malformed base64 string''
   | BASE64_STATUS_OVERRUN \<Rightarrow> ''Input string too long for output buffer'')"

section \<open>The decode table inverts the encode table\<close>

lemma length_encode [simp]: "length encode = 64"
  by (simp add: encode_def)

lemma decode_encode_table:
  "list_all (\<lambda>i. initialise_base64 ! unat (byte_of (encode ! i)) = word_of_nat i) [0..<64]"
  by code_simp

lemma decode_at_encode_at [simp]:
  assumes "x < 64"
  shows "decode_at (encode_at x) = x"
proof -
  have "unat x < 64" using assms by (simp add: word_less_nat_alt)
  with decode_encode_table have "initialise_base64 ! unat (byte_of (encode ! unat x)) = word_of_nat (unat x)"
    by (simp add: list_all_iff)
  then show ?thesis by (simp add: decode_at_def encode_at_def)
qed


lemma sextet_bounds [simp]:
  fixes a :: u8
  shows "drop_bit 2 a < 64" "a AND 63 < 64"
proof -
  have "a AND 63 \<le> 63" by (rule word_and_le1)
  also have "(63 :: u8) < 64" by simp
  finally show "a AND 63 < 64" .
  have "unat (drop_bit 2 a) = unat a div 4"
    by (simp only: unsigned_drop_bit_eq) (simp add: drop_bit_eq_div take_bit_nat_eq_self)
  also have "\<dots> < 64" using unat_u8_less [of a] by linarith
  finally show "drop_bit 2 a < 64" by (simp only: word_less_nat_alt) simp
qed

text \<open>No sextet is the marker \<open>0xff\<close>, and a disjunction of sextets is not either.\<close>

lemma sextet_bit:
  assumes "(x :: u8) < 64"
  shows "\<not> bit x 7" "\<not> bit x 6"
  using assms word_high_bit_clear [of x 6] by (simp_all add: word_less_nat_alt)

lemma sextets_not_ff:
  fixes a b c d :: u8
  assumes "a < 64" "b < 64"
  shows "(a OR b) \<noteq> 0xff" "c < 64 \<Longrightarrow> (a OR b OR c) \<noteq> 0xff"
    "c < 64 \<Longrightarrow> d < 64 \<Longrightarrow> (a OR b OR c OR d) \<noteq> 0xff"
  using assms by (auto simp: u8_eq_iff_bits bit_simps sextet_bit)

text \<open>Reassembling the octets from the sextets.\<close>

lemma octets:
  fixes a b c :: u8
  shows first_octet: "push_bit 2 (drop_bit 2 a) OR drop_bit 4 ((push_bit 4 a OR drop_bit 4 b) AND 63) = a"
    and first_octet': "push_bit 2 (drop_bit 2 a) OR drop_bit 4 (push_bit 4 a AND 63) = a"
    and second_octet: "push_bit 4 ((push_bit 4 a OR drop_bit 4 b) AND 63) OR
      drop_bit 2 ((push_bit 2 b OR drop_bit 6 c) AND 63) = b"
    and second_octet': "push_bit 4 ((push_bit 4 a OR drop_bit 4 b) AND 63) OR
      drop_bit 2 (push_bit 2 b AND 63) = b"
    and third_octet: "push_bit 6 ((push_bit 2 b OR drop_bit 6 c) AND 63) OR (c AND 63) = c"
  by (simp_all add: u8_eq_iff_bits bit_simps)

lemma decode_groups_encode3:
  "decode_groups (encode_groups (a # b # c # data)) =
     (case decode_groups (encode_groups data) of (status, out) \<Rightarrow> (status, a # b # c # out))"
  by (simp only: encode_groups.simps decode_groups.simps Let_def decode_at_encode_at sextet_bounds
      sextets_not_ff octets if_False)

section \<open>Lengths and padding\<close>

definition pad_count :: "nat \<Rightarrow> nat" where
  "pad_count n = (if n mod 3 = 0 then 0 else 3 - n mod 3)"

lemma length_encode_groups: "length (encode_groups data) = 4 * ((length data + 2) div 3)"
proof (induction data rule: encode_groups.induct)
  case (1 a b c data)
  moreover have "(length data + 3 + 2) div 3 = Suc ((length data + 2) div 3)" by presburger
  ultimately show ?case by simp
qed auto

lemma length_encode_mod_4 [simp]: "length (encode_groups data) mod 4 = 0"
  by (simp add: length_encode_groups)

lemma encode_at_neq_pad [simp]: "x < 64 \<Longrightarrow> encode_at x \<noteq> CHR ''=''"
proof -
  assume "x < 64"
  then have "unat x < length encode" by (simp add: word_less_nat_alt)
  then have "encode_at x \<in> set encode" by (simp add: encode_at_def)
  then show "encode_at x \<noteq> CHR ''=''" by (auto simp: encode_def)
qed

text \<open>The text is the sextets of the data followed by up to two padding characters.\<close>

lemma encode_groups_pad:
  "\<exists>body. encode_groups data = body @ replicate (pad_count (length data)) CHR ''='' \<and>
     CHR ''='' \<notin> set body \<and> decode_groups body = (BASE64_STATUS_OK, data)"
proof (induction data rule: encode_groups.induct)
  case (1 a b c data)
  then obtain body where body: "encode_groups data = body @ replicate (pad_count (length data)) CHR ''=''"
    "CHR ''='' \<notin> set body" "decode_groups body = (BASE64_STATUS_OK, data)"
    by auto
  let ?q = "[encode_at (drop_bit 2 a), encode_at ((push_bit 4 a OR drop_bit 4 b) AND 0x3F),
     encode_at ((push_bit 2 b OR drop_bit 6 c) AND 0x3F), encode_at (c AND 0x3F)]"
  have "decode_groups (?q @ body) = (BASE64_STATUS_OK, a # b # c # data)"
    by (simp only: append.simps decode_groups.simps Let_def decode_at_encode_at sextet_bounds
        sextets_not_ff octets if_False body prod.case)
  moreover have "pad_count (length (a # b # c # data)) = pad_count (length data)"
    by (simp add: pad_count_def)
  moreover have "CHR ''='' \<notin> set (?q @ body)"
    using body(2) encode_at_neq_pad [symmetric] sextet_bounds by (simp only: set_append) auto
  moreover have "encode_groups (a # b # c # data) =
      (?q @ body) @ replicate (pad_count (length data)) CHR ''=''"
    using body(1) by (simp only: encode_groups.simps append.simps)
  ultimately show ?case by metis
next
  case (2 a b)
  let ?q = "[encode_at (drop_bit 2 a), encode_at ((push_bit 4 a OR drop_bit 4 b) AND 0x3F),
     encode_at (push_bit 2 b AND 0x3F)]"
  have "decode_groups ?q = (BASE64_STATUS_OK, [a, b])"
    by (simp only: decode_groups.simps Let_def decode_at_encode_at sextet_bounds
        sextets_not_ff octets if_False)
  moreover have "CHR ''='' \<notin> set ?q"
    using encode_at_neq_pad [symmetric] sextet_bounds by auto
  moreover have "encode_groups [a, b] = ?q @ replicate (pad_count (length [a, b])) CHR ''=''"
    by (simp add: pad_count_def)
  ultimately show ?case by blast
next
  case (3 a)
  let ?q = "[encode_at (drop_bit 2 a), encode_at (push_bit 4 a AND 0x3F)]"
  have "decode_groups ?q = (BASE64_STATUS_OK, [a])"
    by (simp only: decode_groups.simps Let_def decode_at_encode_at sextet_bounds
        sextets_not_ff octets if_False)
  moreover have "CHR ''='' \<notin> set ?q"
    using encode_at_neq_pad [symmetric] sextet_bounds by auto
  moreover have "encode_groups [a] = ?q @ replicate (pad_count (length [a])) CHR ''=''"
    by (simp add: pad_count_def numeral_2_eq_2)
  ultimately show ?case by blast
next
  case 4
  show ?case by (simp add: pad_count_def)
qed

lemma converted_length_add_4: "converted_length (n + 4) = converted_length n + 3"
proof -
  have "(n + 4) div 4 = n div 4 + 1" "(n + 4) mod 4 = n mod 4" by presburger+
  then show ?thesis by (simp only: converted_length_def) simp
qed

lemma converted_length_4: "r < 4 \<Longrightarrow> converted_length (4 * q + r) = 3 * q + (r - 1)"
proof -
  assume "r < 4"
  then have "(4 * q + r) div 4 = q" "(4 * q + r) mod 4 = r" by presburger+
  then show ?thesis by (simp only: converted_length_def) simp
qed

lemma pad_count_bounds:
  "pad_count n \<le> 2" "0 < n \<Longrightarrow> pad_count n + 2 \<le> 4 * ((n + 2) div 3)"
  "converted_length (4 * ((n + 2) div 3) - pad_count n) = n"
proof -
  have m: "n mod 3 = 0 \<or> n mod 3 = 1 \<or> n mod 3 = 2" by presburger
  have d: "n = 3 * (n div 3) + n mod 3" by simp
  define q where "q = n div 3"
  show le2: "pad_count n \<le> 2"
    by (auto simp: pad_count_def)
  show "pad_count n + 2 \<le> 4 * ((n + 2) div 3)" if "0 < n"
  proof -
    have "1 \<le> (n + 2) div 3" using that by presburger
    with le2 show ?thesis by linarith
  qed
  from m consider "n = 3 * q" | "n = 3 * q + 1" | "n = 3 * q + 2"
    unfolding q_def using d by linarith
  then show "converted_length (4 * ((n + 2) div 3) - pad_count n) = n"
  proof cases
    case 1
    then show ?thesis by (simp add: converted_length_def pad_count_def)
  next
    case 2
    then have "(n + 2) div 3 = q + 1" "n mod 3 = 1" by presburger+
    then have "(n + 2) div 3 = q + 1" "pad_count n = 2" by (simp_all add: pad_count_def)
    then have "4 * ((n + 2) div 3) - pad_count n = 4 * q + 2" by simp
    with 2 converted_length_4 [of 2 q] show ?thesis by simp
  next
    case 3
    then have "(n + 2) div 3 = q + 1" "n mod 3 = 2" by presburger+
    then have "(n + 2) div 3 = q + 1" "pad_count n = 1" by (simp_all add: pad_count_def)
    then have "4 * ((n + 2) div 3) - pad_count n = 4 * q + 3" by simp
    with 3 converted_length_4 [of 3 q] show ?thesis by simp
  qed
qed

lemma trim_padding:
  assumes "CHR ''='' \<notin> set body" "p \<le> 2" "2 \<le> length body"
    and "length (body @ replicate p CHR ''='') mod 4 = 0"
  shows "trimmed_length (body @ replicate p CHR ''='') = Some (length body)"
proof -
  have last: "body ! (length body - 1) \<noteq> CHR ''=''"
  proof -
    have "body ! (length body - 1) \<in> set body" using assms(3) by (intro nth_mem) simp
    then show ?thesis using assms(1) by metis
  qed
  from assms(2) consider "p = 0" | "p = 1" | "p = 2" by linarith
  then show ?thesis
  proof cases
    case 1
    then show ?thesis
      using assms last by (auto simp: trimmed_length_def trim_one_def last_char_def split: option.splits)
  next
    case 2
    then show ?thesis
      using assms last by (auto simp: trimmed_length_def trim_one_def last_char_def nth_append split: option.splits)
  next
    case 3
    then show ?thesis
      using assms by (auto simp: trimmed_length_def trim_one_def last_char_def nth_append numeral_2_eq_2
          split: option.splits)
  qed
qed

lemma decode_groups_length:
  "decode_groups s = (status, out) \<Longrightarrow>
     length out \<le> converted_length (length s) \<and>
     (status = BASE64_STATUS_OK \<longrightarrow> length out = converted_length (length s))"
proof (induction s arbitrary: status out rule: decode_groups.induct)
  case (1 s0 s1 s2 s3 s)
  have "length (s0 # s1 # s2 # s3 # s) = length s + 4" by simp
  then have "converted_length (length (s0 # s1 # s2 # s3 # s)) = converted_length (length s) + 3"
    by (simp only: converted_length_add_4)
  with 1 show ?case
    by (auto simp: Let_def split: if_splits prod.splits)
qed (auto simp: Let_def converted_length_def split: if_splits)

section \<open>Which strings are accepted\<close>

lemma fold_update_other:
  "j \<notin> f ` set is \<Longrightarrow> fold (\<lambda>i d. d[f i := g i]) is d ! j = d ! j"
  by (induction "is" arbitrary: d) auto

lemma decode_at_other: "c \<notin> set encode \<Longrightarrow> decode_at c = 0xff"
proof -
  assume c: "c \<notin> set encode"
  have "unat (byte_of c) \<notin> (\<lambda>i. unat (byte_of (encode ! i))) ` set [0..<length encode]"
    using c by (auto simp flip: word_unat_eq_iff simp del: length_encode)
  then have "initialise_base64 ! unat (byte_of c) = replicate 256 0xff ! unat (byte_of c)"
    unfolding initialise_base64_def by (rule fold_update_other)
  then show ?thesis by (simp add: decode_at_def)
qed

lemma decode_at_cases:
  "decode_at c = 0xff \<and> c \<notin> set encode \<or> decode_at c < 64 \<and> c \<in> set encode"
proof (cases "c \<in> set encode")
  case True
  then obtain i where i: "i < 64" "c = encode ! i"
    by (metis in_set_conv_nth length_encode)
  then have "unat (word_of_nat i :: u8) = i" by (simp add: unsigned_of_nat take_bit_nat_eq_self)
  then have "c = encode_at (word_of_nat i)" "(word_of_nat i :: u8) < 64"
    using i by (simp_all add: encode_at_def word_less_nat_alt)
  with True show ?thesis by simp
next
  case False
  then show ?thesis by (simp add: decode_at_other)
qed

lemma or_ff [simp]: "(0xff :: u8) OR x = 0xff" "x OR (0xff :: u8) = 0xff"
  by (simp_all add: u8_eq_iff_bits bit_simps)

lemma or_ff_iff:
  "(decode_at p OR decode_at q) = 0xff \<longleftrightarrow> p \<notin> set encode \<or> q \<notin> set encode"
  "(decode_at p OR decode_at q OR decode_at r) = 0xff \<longleftrightarrow>
     p \<notin> set encode \<or> q \<notin> set encode \<or> r \<notin> set encode"
  "(decode_at p OR decode_at q OR decode_at r OR decode_at s) = 0xff \<longleftrightarrow>
     p \<notin> set encode \<or> q \<notin> set encode \<or> r \<notin> set encode \<or> s \<notin> set encode"
  using decode_at_cases [of p] decode_at_cases [of q] decode_at_cases [of r] decode_at_cases [of s]
  by (auto simp: sextets_not_ff)

lemma decode_groups_accepts:
  "fst (decode_groups s) = BASE64_STATUS_OK \<longleftrightarrow> set s \<subseteq> set encode \<and> length s mod 4 \<noteq> 1"
proof (induction s rule: decode_groups.induct)
  case (1 s0 s1 s2 s3 s)
  show ?case
  proof (cases "{s0, s1, s2, s3} \<subseteq> set encode")
    case True
    moreover from True have "(decode_at s0 OR decode_at s1 OR decode_at s2 OR decode_at s3) \<noteq> 0xff"
      by (simp add: or_ff_iff)
    ultimately show ?thesis
      using "1.IH" [OF refl refl refl refl] by (cases "decode_groups s") (simp add: Let_def)
  next
    case False
    then have "(decode_at s0 OR decode_at s1 OR decode_at s2 OR decode_at s3) = 0xff"
      by (auto simp: or_ff_iff)
    with False show ?thesis by (auto simp: Let_def)
  qed
qed (auto simp: Let_def or_ff_iff)

lemma base64_decode_encode:
  assumes "data \<noteq> []" "length data \<le> max_length"
  shows "base64_decode (fst (base64_encode data)) max_length =
    Some (BASE64_STATUS_OK, data, length data)"
proof -
  obtain body where body: "encode_groups data = body @ replicate (pad_count (length data)) CHR ''=''"
    "CHR ''='' \<notin> set body" "decode_groups body = (BASE64_STATUS_OK, data)"
    using encode_groups_pad by blast
  have "length (encode_groups data) = length body + pad_count (length data)"
    by (simp add: body(1))
  then have len: "length body = 4 * ((length data + 2) div 3) - pad_count (length data)"
    by (simp add: length_encode_groups)
  have "2 \<le> length body"
    using pad_count_bounds(2) [of "length data"] assms(1) len by auto
  then have "trimmed_length (encode_groups data) = Some (length body)"
    unfolding body(1) using body pad_count_bounds(1)
    by (intro trim_padding) (auto simp flip: body(1))
  moreover have "converted_length (length body) = length data"
    unfolding len by (rule pad_count_bounds(3))
  moreover have "take (length body) (encode_groups data) = body"
    by (simp add: body(1))
  ultimately show ?thesis
    using body(3) assms(2) by (simp add: base64_decode_def base64_encode_def Let_def)
qed

text \<open>
  C29: decoding the text that the encoder produces for a non-empty block of octets gives back
  exactly these octets, with status OK and the right count, whenever the output area is large
  enough.
\<close>

theorem base64_roundtrip:
  assumes "data \<noteq> []" "length data \<le> max_length"
  shows "base64_decode (fst (base64_encode data)) max_length =
    Some (BASE64_STATUS_OK, data, length data)"
  using assms by (rule base64_decode_encode)

theorem base64_roundtrip_witness:
  "base64_decode (fst (base64_encode [77, 97, 110, 255])) 8 =
    Some (BASE64_STATUS_OK, [77, 97, 110, 255], 4)"
  using base64_roundtrip [of "[77, 97, 110, 255]" 8] by simp

lemma base64_decode_limits:
  assumes "base64_decode s max_length = Some (status, out, converted)"
  shows "length out \<le> max_length \<and>
    (status = BASE64_STATUS_OK \<longrightarrow> length out = converted \<and> converted \<le> max_length)"
  using assms decode_groups_length
  by (fastforce simp: base64_decode_def Let_def trimmed_length_def trim_one_def last_char_def
      split: option.splits if_splits prod.splits)

text \<open>
  Whatever the input, the decoder writes at most \<open>max_length\<close> octets, and when it reports
  success it has written exactly the number of octets it reports as converted.
\<close>

theorem base64_decode_bounded:
  assumes "base64_decode s max_length = Some (status, out, converted)"
  shows "length out \<le> max_length \<and>
    (status = BASE64_STATUS_OK \<longrightarrow> length out = converted \<and> converted \<le> max_length)"
  using assms by (rule base64_decode_limits)

theorem base64_decode_bounded_witness:
  "base64_decode ''TWE='' 2 = Some (BASE64_STATUS_OK, [77, 97], 2) \<and> length [77 :: u8, 97] \<le> 2"
proof -
  have run: "base64_decode ''TWE='' 2 = Some (BASE64_STATUS_OK, [77, 97], 2)"
    by code_simp
  show ?thesis using run base64_decode_bounded [OF run] by simp
qed

text \<open>
  The number of characters the encoder writes, the terminating NUL included: four for every
  started group of three octets, plus one.  The bound that the header promises to be enough
  (\<^verbatim>\<open>ceiling(4/3*length)+1\<close>, the macro plus one) is exceeded exactly when the length is not a
  multiple of three.
\<close>

theorem base64_encode_size:
  "snd (base64_encode data) = 4 * ((length data + 2) div 3) + 1 \<and>
   (snd (base64_encode data) > BASE64_ENCODE_LENGTH (length data) + 1 \<longleftrightarrow> length data mod 3 \<noteq> 0)"
proof -
  have "4 * ((n + 2) div 3) > (4 * n + 2) div 3 \<longleftrightarrow> n mod 3 \<noteq> 0" for n :: nat
    by presburger
  then show ?thesis
    by (simp add: base64_encode_def length_encode_groups BASE64_ENCODE_LENGTH_def)
qed

text \<open>
  What the decoder accepts.  The empty string is read out of bounds (the code looks at
  \<^verbatim>\<open>string[in_length - 1]\<close>); any other string is reported OK exactly when the converted data
  fits, every character before the trimmed padding is one of the 64 code characters, and the
  trimmed length is not one more than a multiple of four.
\<close>

theorem base64_decode_accepts:
  "case trimmed_length s of
     None \<Rightarrow> s = [] \<and> base64_decode s max_length = None
   | Some n \<Rightarrow> s \<noteq> [] \<and>
       ((\<exists>out. base64_decode s max_length = Some (BASE64_STATUS_OK, out, converted_length n)) \<longleftrightarrow>
        converted_length n \<le> max_length \<and> set (take n s) \<subseteq> set encode \<and> n mod 4 \<noteq> 1)"
proof (cases "trimmed_length s")
  case None
  then show ?thesis
    by (auto simp: base64_decode_def trimmed_length_def trim_one_def last_char_def
        split: option.splits if_splits dest: dvd_imp_le)
next
  case (Some n)
  then have "s \<noteq> []" "n \<le> length s"
    by (auto simp: trimmed_length_def trim_one_def last_char_def split: option.splits if_splits)
  with Some decode_groups_accepts [of "take n s"] show ?thesis
    by (cases "decode_groups (take n s)") (auto simp: base64_decode_def Let_def min_def)
qed

end
