(* ===== verification/Panda_Probe.thy ===== *)
theory Panda_Probe
  imports Panda_Prelude
begin

text \<open>
  The probe sequence of the hash table (\<^verbatim>\<open>hashtable.c\<close>, function \<open>lookup\<close>): the slot index
  is advanced by \<^verbatim>\<open>ix = 1 + 5*ix + perturb\<close> after \<^verbatim>\<open>perturb >>= 5\<close>.  Once the perturbation has been
  shifted out the sequence is the congruential generator \<open>x \<mapsto> 5 x + 1\<close>, which visits every
  residue modulo a power of two.  Hence every slot of a table whose size is a power of two is
  probed, whatever the hash value.
\<close>

section \<open>The generator modulo a power of two\<close>

fun geo :: "nat \<Rightarrow> nat" where
  "geo 0 = 0"
| "geo (Suc n) = 5 * geo n + 1"

lemma geo_closed: "5 ^ n = 4 * geo n + 1"
  by (induction n) auto

lemma geo_add: "geo (m + n) = 5 ^ m * geo n + geo m"
  by (induction m) (auto simp: algebra_simps)

lemma geo_odd: "odd (geo n) \<longleftrightarrow> odd n"
  by (induction n) auto

lemma geo_double: "geo (2 * m) = geo m * (2 * (2 * geo m + 1))"
  using geo_add [of m m] by (simp add: geo_closed mult_2 [symmetric] algebra_simps)

lemma power2_dvd_mult_odd:
  fixes a b :: nat
  assumes "2 ^ k dvd a * b" "odd b"
  shows "2 ^ k dvd a"
proof -
  from assms(2) have "coprime (2 ^ k) b" by simp
  with assms(1) show ?thesis by (simp add: coprime_dvd_mult_left_iff)
qed

lemma power2_dvd_geo: "2 ^ k dvd geo n \<Longrightarrow> 2 ^ k dvd n"
proof (induction k arbitrary: n)
  case 0
  then show ?case by simp
next
  case (Suc k)
  then have "even (geo n)" by (metis dvd_mult_left power_Suc)
  then have "even n" using geo_odd by blast
  then obtain m where m: "n = 2 * m" by blast
  have "geo n = 2 * (geo m * (2 * geo m + 1))"
    unfolding m geo_double by (simp add: algebra_simps)
  with Suc.prems have "2 * 2 ^ k dvd 2 * (geo m * (2 * geo m + 1))" by (simp only: power_Suc)
  then have "2 ^ k dvd geo m * (2 * geo m + 1)"
    using dvd_times_left_cancel_iff [of 2 "2 ^ k" "geo m * (2 * geo m + 1)"] by simp
  then have "2 ^ k dvd geo m" by (rule power2_dvd_mult_odd) simp
  then have "2 ^ k dvd m" by (rule Suc.IH)
  then show ?case by (simp add: m)
qed

definition lcg :: "nat \<Rightarrow> nat \<Rightarrow> nat" where
  "lcg x n = 5 ^ n * x + geo n"

lemma lcg_diff:
  assumes "i \<le> j"
  shows "lcg x j = lcg x i + 5 ^ i * (geo (j - i) * (4 * x + 1))"
proof -
  obtain d where d: "j = i + d" using assms le_Suc_ex by blast
  have "5 ^ (i + d) * x = 5 ^ i * x + 5 ^ i * (4 * geo d * x)"
    by (simp add: power_add geo_closed [of d] algebra_simps)
  moreover have "geo (i + d) = 5 ^ i * geo d + geo i" by (rule geo_add)
  ultimately show ?thesis
    by (simp add: lcg_def d algebra_simps)
qed

lemma lcg_inj:
  assumes "i < j" "j < 2 ^ k"
  shows "lcg x i mod 2 ^ k \<noteq> lcg x j mod 2 ^ k"
proof
  assume eq: "lcg x i mod 2 ^ k = lcg x j mod 2 ^ k"
  define d where "d = (geo (j - i) * (4 * x + 1)) * 5 ^ i"
  have j: "lcg x j = lcg x i + d"
    using lcg_diff [of i j x] assms unfolding d_def by (simp only: mult.commute less_imp_le)
  have "2 ^ k dvd lcg x j - lcg x i"
    using eq by (intro mod_eq_dvd_iff_nat [THEN iffD1]) (simp_all add: j)
  then have "2 ^ k dvd (geo (j - i) * (4 * x + 1)) * 5 ^ i"
    by (simp add: j d_def)
  then have "2 ^ k dvd geo (j - i) * (4 * x + 1)" by (rule power2_dvd_mult_odd) simp
  then have "2 ^ k dvd geo (j - i)" by (rule power2_dvd_mult_odd) simp
  then have "2 ^ k dvd j - i" by (rule power2_dvd_geo)
  with assms have "2 ^ k \<le> j - i" by (simp add: dvd_imp_le)
  with assms show False by simp
qed

lemma lcg_surj:
  assumes "r < 2 ^ k"
  shows "\<exists>n < 2 ^ k. lcg x n mod 2 ^ k = r"
proof -
  let ?f = "\<lambda>n. lcg x n mod 2 ^ k"
  have "inj_on ?f {..<2 ^ k}"
    using lcg_inj by (intro inj_onI) (metis lessThan_iff linorder_neqE_nat)
  moreover have "?f ` {..<2 ^ k} \<subseteq> {..<2 ^ k}" by auto
  ultimately have "?f ` {..<2 ^ k} = {..<2 ^ k}" by (simp add: endo_inj_surj)
  with assms have "r \<in> ?f ` {..<2 ^ k}" by simp
  then show ?thesis by auto
qed

section \<open>The probe sequence\<close>

definition probe_step :: "'w::len word \<times> 'w word \<Rightarrow> 'w word \<times> 'w word" where
  "probe_step s = (let perturb = drop_bit 5 (snd s) in (1 + 5 * fst s + perturb, perturb))"

definition probe_state :: "'w::len word \<Rightarrow> nat \<Rightarrow> 'w word \<times> 'w word" where
  "probe_state h n = (probe_step ^^ n) (h, h)"

definition probe :: "'w::len word \<Rightarrow> 'w word \<Rightarrow> nat \<Rightarrow> nat" where
  "probe m h n = unat (fst (probe_state h n) AND m)"

lemma probe_state_0 [simp]: "probe_state h 0 = (h, h)"
  by (simp add: probe_state_def)

lemma probe_state_Suc: "probe_state h (Suc n) = probe_step (probe_state h n)"
  by (simp add: probe_state_def)

lemma snd_probe_state: "snd (probe_state h n) = drop_bit (5 * n) h"
  by (induction n) (simp_all add: probe_state_Suc probe_step_def Let_def algebra_simps)

lemma perturb_zero:
  fixes h :: "'w::len word"
  assumes "LENGTH('w) \<le> n"
  shows "snd (probe_state h n) = 0"
  by (rule bit_word_eqI) (use assms in \<open>auto simp: snd_probe_state bit_simps dest: bit_imp_le_length\<close>)

lemma fst_probe_state_late:
  fixes h :: "'w::len word"
  assumes "LENGTH('w) \<le> n"
  shows "fst (probe_state h (Suc n)) = 5 * fst (probe_state h n) + 1"
proof -
  have "snd (probe_state h (Suc n)) = 0" using assms by (simp add: perturb_zero)
  then show ?thesis by (simp add: probe_state_Suc probe_step_def Let_def)
qed

lemma probe_mask:
  fixes x :: "'w::len word"
  assumes "k \<le> LENGTH('w)"
  shows "unat (x AND mask k) = unat x mod 2 ^ k"
  by (simp only: take_bit_eq_mask [symmetric] unsigned_take_bit_eq) (rule take_bit_eq_mod)

lemma unat_step_mod:
  fixes x :: "'w::len word"
  assumes "k \<le> LENGTH('w)"
  shows "unat (5 * x + 1) mod 2 ^ k = (5 * unat x + 1) mod 2 ^ k"
proof -
  have "unat (5 * x + 1) = (5 * unat x + 1) mod 2 ^ LENGTH('w)"
  proof -
    have "5 * x + 1 = word_of_nat (5 * unat x + 1)" by simp
    then show ?thesis by (simp only: unsigned_of_nat take_bit_eq_mod of_nat_id)
  qed
  with assms show ?thesis by (simp add: mod_mod_cancel le_imp_power_dvd)
qed

lemma probe_late:
  fixes h :: "'w::len word"
  assumes "k \<le> LENGTH('w)"
  shows "unat (fst (probe_state h (LENGTH('w) + n))) mod 2 ^ k =
    lcg (unat (fst (probe_state h (LENGTH('w))))) n mod 2 ^ k"
proof (induction n)
  case 0
  then show ?case by (simp add: lcg_def)
next
  case (Suc n)
  have "unat (fst (probe_state h (LENGTH('w) + Suc n))) mod 2 ^ k =
      (5 * (unat (fst (probe_state h (LENGTH('w) + n))) mod 2 ^ k) + 1) mod 2 ^ k"
  proof -
    have "fst (probe_state h (LENGTH('w) + Suc n)) = 5 * fst (probe_state h (LENGTH('w) + n)) + 1"
      using fst_probe_state_late [of "LENGTH('w) + n" h] by simp
    then have "unat (fst (probe_state h (LENGTH('w) + Suc n))) mod 2 ^ k =
        (5 * unat (fst (probe_state h (LENGTH('w) + n))) + 1) mod 2 ^ k"
      using unat_step_mod [OF assms] by (simp only:)
    then show ?thesis by (metis mod_add_left_eq mod_mult_right_eq)
  qed
  also have "\<dots> = (5 * lcg (unat (fst (probe_state h (LENGTH('w))))) n + 1) mod 2 ^ k"
    unfolding Suc.IH by (metis mod_add_left_eq mod_mult_right_eq)
  finally show ?case by (simp add: lcg_def algebra_simps)
qed

text \<open>Every slot is probed.\<close>

lemma probe_reaches:
  fixes h :: "'w::len word"
  assumes "k \<le> LENGTH('w)" "i < 2 ^ k"
  shows "\<exists>n < LENGTH('w) + 2 ^ k. probe (mask k) h n = i"
proof -
  obtain n where n: "n < 2 ^ k" "lcg (unat (fst (probe_state h (LENGTH('w))))) n mod 2 ^ k = i"
    using lcg_surj [OF assms(2)] by blast
  then have "probe (mask k) h (LENGTH('w) + n) = i"
    using assms(1) by (simp add: probe_def probe_mask probe_late)
  with n(1) show ?thesis by (intro exI [of _ "LENGTH('w) + n"]) simp
qed

lemma probe_less:
  fixes h :: "'w::len word"
  assumes "k \<le> LENGTH('w)"
  shows "probe (mask k) h n < 2 ^ k"
  using assms by (simp add: probe_def probe_mask)

end
