(* ===== verification/Panda_Assoc.thy ===== *)
theory Panda_Assoc
  imports Panda_Prelude
begin

text \<open>
  The interface between the hash table and the components that keep one (enumerations, table
  sub-fields, attribute maps): what a lookup returns after insertions and deletions, stated over
  an abstraction to partial maps, with the lemmas that the clients share.
\<close>

section \<open>Loops over the interface\<close>

text \<open>
  A loop that inserts a sequence of new entries and asserts for each that no old value was
  displaced: \<open>None\<close> when an insertion does not return or an assertion fails.
\<close>

fun insert_seq :: "('t \<Rightarrow> 'k \<Rightarrow> 'v::zero \<Rightarrow> ('t \<times> 'v) option) \<Rightarrow> ('k \<times> 'v) list \<Rightarrow> 't \<Rightarrow> 't option" where
  "insert_seq ins [] t = Some t"
| "insert_seq ins ((k, v) # kvs) t =
     (case ins t k v of
        None \<Rightarrow> None
      | Some (t', old) \<Rightarrow> if old = 0 then insert_seq ins kvs t' else None)"

section \<open>The interface\<close>

locale assoc_table =
  fixes insert :: "'t \<Rightarrow> 'k \<Rightarrow> 'v::zero \<Rightarrow> ('t \<times> 'v) option"
    and lookup :: "'t \<Rightarrow> 'k \<Rightarrow> 'v option"
    and lookup_bool :: "'t \<Rightarrow> 'k \<Rightarrow> ('v \<times> bool) option"
    and invar :: "'t \<Rightarrow> bool"
    and room :: "nat \<Rightarrow> 't \<Rightarrow> bool"
    and abs :: "'t \<Rightarrow> 'k \<Rightarrow> 'v option"
  assumes insert: "invar t \<Longrightarrow> room (Suc n) t \<Longrightarrow>
      \<exists>t'. insert t k v = Some (t', case abs t k of None \<Rightarrow> 0 | Some v \<Rightarrow> v) \<and>
        invar t' \<and> room n t' \<and> abs t' = (abs t)(k \<mapsto> v)"
    and lookup: "invar t \<Longrightarrow> lookup t k = Some (case abs t k of None \<Rightarrow> 0 | Some v \<Rightarrow> v)"
    and lookup_bool: "invar t \<Longrightarrow>
      lookup_bool t k = Some (case abs t k of None \<Rightarrow> (0, False) | Some v \<Rightarrow> (v, True))"
begin

lemma insert_new:
  assumes "invar t" "room (Suc n) t" "abs t k = None"
  obtains t' where "insert t k v = Some (t', 0)" "invar t'" "room n t'" "abs t' = (abs t)(k \<mapsto> v)"
  using insert [OF assms(1,2), of k v] assms(3) by auto

lemma lookup_bool_found:
  assumes "invar t" "abs t k = Some v"
  shows "lookup_bool t k = Some (v, True)"
  using assms lookup_bool by simp

lemma lookup_bool_missing:
  assumes "invar t" "abs t k = None"
  shows "lookup_bool t k = Some (0, False)"
  using assms lookup_bool by simp

lemma insert_seq_map:
  assumes "invar t" "room (length kvs + n) t" "distinct (map fst kvs)"
    and "\<forall>k \<in> fst ` set kvs. abs t k = None"
  shows "\<exists>t'. insert_seq insert kvs t = Some t' \<and> invar t' \<and> room n t' \<and> abs t' = abs t ++ map_of kvs"
  using assms
proof (induction kvs arbitrary: t)
  case Nil
  then show ?case by simp
next
  case (Cons kv kvs)
  obtain k v where kv: "kv = (k, v)" by fastforce
  obtain t1 where t1: "insert t k v = Some (t1, 0)" "invar t1" "room (length kvs + n) t1"
    "abs t1 = (abs t)(k \<mapsto> v)"
    using Cons.prems insert_new [of t "length kvs + n" k v] by (auto simp: kv)
  have "\<forall>k' \<in> fst ` set kvs. abs t1 k' = None"
    using Cons.prems(3,4) by (auto simp: t1(4) kv)
  with Cons.IH [of t1] t1(2,3) Cons.prems(3) obtain t2 where
    t2: "insert_seq insert kvs t1 = Some t2" "invar t2" "room n t2" "abs t2 = abs t1 ++ map_of kvs"
    by (auto simp: kv)
  have "k \<notin> dom (map_of kvs)" using Cons.prems(3) by (auto simp: kv dom_map_of_conv_image_fst)
  with t1 t2 show ?case by (simp add: kv map_add_upd_left del: fun_upd_apply)
qed

end

text \<open>Tables from which keys can also be removed.\<close>

locale assoc_table_delete = assoc_table insert lookup lookup_bool invar room abs
  for insert :: "'t \<Rightarrow> 'k \<Rightarrow> 'v::zero \<Rightarrow> ('t \<times> 'v) option" and lookup lookup_bool invar room abs +
  fixes delete :: "'t \<Rightarrow> 'k \<Rightarrow> ('t \<times> 'v) option"
  assumes delete: "invar t \<Longrightarrow>
      \<exists>t'. delete t k = Some (t', case abs t k of None \<Rightarrow> 0 | Some v \<Rightarrow> v) \<and>
        invar t' \<and> (room n t \<longrightarrow> room n t') \<and> abs t' = (abs t)(k := None)"

section \<open>Programs over a table\<close>

text \<open>
  A client's sequence of calls, run on the table and on a partial map; each call returns a
  value (\<open>0\<close> is \<^verbatim>\<open>NULL\<close>).
\<close>

datatype ('k, 'v) table_call = Insert 'k 'v | Delete 'k | Lookup 'k

fun run_map :: "('k \<Rightarrow> 'v::zero option) \<Rightarrow> ('k, 'v) table_call list \<Rightarrow> 'v list" where
  "run_map m [] = []"
| "run_map m (c # cs) = (case c of
     Insert k v \<Rightarrow> (case m k of None \<Rightarrow> 0 | Some old \<Rightarrow> old) # run_map (m(k \<mapsto> v)) cs
   | Delete k \<Rightarrow> (case m k of None \<Rightarrow> 0 | Some old \<Rightarrow> old) # run_map (m(k := None)) cs
   | Lookup k \<Rightarrow> (case m k of None \<Rightarrow> 0 | Some v \<Rightarrow> v) # run_map m cs)"

fun run_table ::
    "('t \<Rightarrow> 'k \<Rightarrow> 'v::zero \<Rightarrow> ('t \<times> 'v) option) \<Rightarrow> ('t \<Rightarrow> 'k \<Rightarrow> 'v option) \<Rightarrow>
     ('t \<Rightarrow> 'k \<Rightarrow> ('t \<times> 'v) option) \<Rightarrow> 't \<Rightarrow> ('k, 'v) table_call list \<Rightarrow> 'v list option" where
  "run_table ins lkp del t [] = Some []"
| "run_table ins lkp del t (c # cs) = (case c of
     Insert k v \<Rightarrow> (case ins t k v of None \<Rightarrow> None
       | Some (t', r) \<Rightarrow> map_option (\<lambda>rs. r # rs) (run_table ins lkp del t' cs))
   | Delete k \<Rightarrow> (case del t k of None \<Rightarrow> None
       | Some (t', r) \<Rightarrow> map_option (\<lambda>rs. r # rs) (run_table ins lkp del t' cs))
   | Lookup k \<Rightarrow> (case lkp t k of None \<Rightarrow> None
       | Some r \<Rightarrow> map_option (\<lambda>rs. r # rs) (run_table ins lkp del t cs)))"

definition insert_calls :: "('k, 'v) table_call list \<Rightarrow> nat" where
  "insert_calls cs = length (filter (\<lambda>c. case c of Insert _ _ \<Rightarrow> True | _ \<Rightarrow> False) cs)"

context assoc_table_delete
begin

lemma run_table_map:
  "invar t \<Longrightarrow> room (insert_calls cs) t \<Longrightarrow>
   run_table insert lookup delete t cs = Some (run_map (abs t) cs)"
proof (induction cs arbitrary: t)
  case Nil
  then show ?case by simp
next
  case (Cons c cs)
  show ?case
  proof (cases c)
    case (Insert k v)
    with Cons.prems insert [of t "insert_calls cs" k v] Cons.IH show ?thesis
      by (auto simp: insert_calls_def simp del: fun_upd_apply)
  next
    case (Delete k)
    with Cons.prems delete [of t k "insert_calls cs"] Cons.IH show ?thesis
      by (auto simp: insert_calls_def simp del: fun_upd_apply)
  next
    case (Lookup k)
    with Cons.prems lookup [of t k] Cons.IH show ?thesis
      by (auto simp: insert_calls_def)
  qed
qed

end

end
