(* ===== verification/Panda_Hashtable.thy ===== *)
theory Panda_Hashtable
  imports Panda_Probe Panda_Assoc
begin

text \<open>
  Model of \<^verbatim>\<open>panda-server/server/hashtable.c\<close>: open addressing with tombstones.  Hash values, slot
  indices and the mask have the width \<open>'w\<close> of \<^verbatim>\<open>unsigned long\<close> and \<^verbatim>\<open>size_t\<close> (32 or 64).  Keys are
  modelled by value: \<^verbatim>\<open>strcmp(a, b) == 0\<close> and pointer equality are equality of keys.  A \<^verbatim>\<open>void *\<close>
  value is an element of a type with a zero, which is \<^verbatim>\<open>NULL\<close>.
\<close>

section \<open>Data\<close>

definition EMPTY_HASH :: "'w::len word" where
  "EMPTY_HASH = 0"

definition DELETED_HASH :: "'w::len word" where
  "DELETED_HASH = -1"

definition INITIAL_SIZE :: nat where
  "INITIAL_SIZE = 8"

record (overloaded) ('w, 'k, 'v) table_entry =
  te_hash :: "'w::len word"
  te_key :: "'k option"
  te_value :: 'v

text \<open>\<^verbatim>\<open>copies_keys\<close> tells whether the operations table has a \<^verbatim>\<open>copy_key\<close> method.\<close>

record (overloaded) ('w, 'k) hash_table_ops =
  key_hash :: "'k \<Rightarrow> 'w::len word"
  copies_keys :: bool

record (overloaded) ('w, 'k, 'v) hash_table =
  key_ops :: "('w::len, 'k) hash_table_ops"
  entries :: nat
  deleted :: nat
  size_mask :: "'w word"
  table :: "('w, 'k, 'v) table_entry list"

definition null_entry :: "('w::len, 'k, 'v::zero) table_entry" where
  "null_entry = \<lparr>te_hash = 0, te_key = None, te_value = 0\<rparr>"

section \<open>Hashing\<close>

text \<open>
  \<open>cast\<close> converts a \<^verbatim>\<open>char\<close> to \<^verbatim>\<open>hash_t\<close>: zero extension where \<^verbatim>\<open>char\<close> is unsigned (ARM), sign
  extension elsewhere.
\<close>

definition hash_memory_area :: "(u8 \<Rightarrow> 'w::len word) \<Rightarrow> u8 list \<Rightarrow> 'w word" where
  "hash_memory_area cast s = (case s of
     [] \<Rightarrow> 0
   | c # cs \<Rightarrow>
       foldl (\<lambda>hash c. (1000003 * hash) XOR cast c) (push_bit 7 (cast c)) cs
         XOR word_of_nat (length s))"

definition hash_string :: "(u8 \<Rightarrow> 'w::len word) \<Rightarrow> string \<Rightarrow> 'w word" where
  "hash_string cast s = hash_memory_area cast (map byte_of s)"

definition compute_hash :: "('w::len, 'k) hash_table_ops \<Rightarrow> 'k \<Rightarrow> 'w word" where
  "compute_hash ops key =
     (let hash = key_hash ops key
      in if hash = EMPTY_HASH \<or> hash = DELETED_HASH then -2 else hash)"

definition empty_entry :: "('w::len, 'k, 'v) table_entry \<Rightarrow> bool" where
  "empty_entry e \<longleftrightarrow> te_hash e = EMPTY_HASH \<or> te_hash e = DELETED_HASH"

section \<open>Operations\<close>

definition hash_table_create_generic ::
    "('w::len, 'k) hash_table_ops \<Rightarrow> ('w, 'k, 'v::zero) hash_table" where
  "hash_table_create_generic ops =
     \<lparr>key_ops = ops, entries = 0, deleted = 0, size_mask = word_of_nat (INITIAL_SIZE - 1),
      table = replicate INITIAL_SIZE null_entry\<rparr>"

definition hash_table_create ::
    "(u8 \<Rightarrow> 'w::len word) \<Rightarrow> bool \<Rightarrow> ('w, string, 'v::zero) hash_table" where
  "hash_table_create cast copy_keys =
     hash_table_create_generic \<lparr>key_hash = hash_string cast, copies_keys = copy_keys\<rparr>"

text \<open>
  The loop of \<open>lookup\<close>: the slot found and whether it holds the key.  \<open>None\<close> is the loop that
  never ends.
\<close>

partial_function (option) lookup_from ::
    "('w::len, 'k, 'v) table_entry list \<Rightarrow> 'w word \<Rightarrow> 'k \<Rightarrow> 'w word \<Rightarrow> 'w word \<Rightarrow> 'w word \<Rightarrow>
      nat option \<Rightarrow> (nat \<times> bool) option" where
  "lookup_from tab m key hash ix perturb deleted_entry =
     (let i = unat (ix AND m); entry = tab ! i
      in if te_hash entry = hash \<and> te_key entry = Some key then Some (i, True)
         else if te_hash entry = EMPTY_HASH
         then Some (case deleted_entry of Some d \<Rightarrow> d | None \<Rightarrow> i, False)
         else lookup_from tab m key hash (1 + 5 * ix + drop_bit 5 perturb) (drop_bit 5 perturb)
           (if te_hash entry = DELETED_HASH \<and> deleted_entry = None then Some i else deleted_entry))"

definition lookup ::
    "('w::len, 'k, 'v) hash_table \<Rightarrow> 'k \<Rightarrow> 'w word \<Rightarrow> (nat \<times> bool) option" where
  "lookup t key hash = lookup_from (table t) (size_mask t) key hash hash hash None"

definition hash_table_lookup :: "('w::len, 'k, 'v) hash_table \<Rightarrow> 'k \<Rightarrow> 'v option" where
  "hash_table_lookup t key =
     map_option (\<lambda>(i, found). te_value (table t ! i)) (lookup t key (compute_hash (key_ops t) key))"

definition hash_table_lookup_bool ::
    "('w::len, 'k, 'v) hash_table \<Rightarrow> 'k \<Rightarrow> ('v \<times> bool) option" where
  "hash_table_lookup_bool t key =
     map_option (\<lambda>(i, found). (te_value (table t ! i), found))
       (lookup t key (compute_hash (key_ops t) key))"

text \<open>\<^verbatim>\<open>while (new_size < min_size) new_size <<= 1\<close>.\<close>

function grow_size :: "nat \<Rightarrow> nat \<Rightarrow> nat" where
  "grow_size min_size new_size =
     (if new_size < min_size \<and> 0 < new_size then grow_size min_size (2 * new_size) else new_size)"
  by pat_completeness auto
termination
  by (relation "measure (\<lambda>(min_size, new_size). min_size - new_size)") auto

declare grow_size.simps [simp del]

text \<open>The copying loop of \<open>resize_table\<close> over the entries of the old table.\<close>

fun copy_entries ::
    "('w::len, 'k, 'v) table_entry list \<Rightarrow> ('w, 'k, 'v) hash_table \<Rightarrow>
      ('w, 'k, 'v) hash_table option" where
  "copy_entries [] new_table = Some new_table"
| "copy_entries (entry # es) new_table =
     (if empty_entry entry then copy_entries es new_table
      else (case lookup new_table (the (te_key entry)) (te_hash entry) of
              None \<Rightarrow> None
            | Some (i, _) \<Rightarrow>
                copy_entries es (new_table\<lparr>table := (table new_table)[i := entry]\<rparr>)))"

definition resize_table ::
    "('w::len, 'k, 'v::zero) hash_table \<Rightarrow> nat \<Rightarrow> ('w, 'k, 'v) hash_table option" where
  "resize_table t min_size =
     (let live = entries t - deleted t;
          min_size = (if min_size < 2 * live then 2 * live else min_size);
          new_size = grow_size min_size INITIAL_SIZE
      in copy_entries (table t)
           \<lparr>key_ops = key_ops t, entries = live, deleted = 0,
            size_mask = word_of_nat (new_size - 1), table = replicate new_size null_entry\<rparr>)"

text \<open>The new table and the old value (\<^verbatim>\<open>NULL\<close> if there was none).\<close>

definition store_entry ::
    "('w::len, 'k, 'v) hash_table \<Rightarrow> 'k \<Rightarrow> 'w word \<Rightarrow> 'v \<Rightarrow> nat \<Rightarrow> bool \<Rightarrow> ('w, 'k, 'v) hash_table" where
  "store_entry t key hash v i found =
     (let entry = table t ! i;
          t1 = (if te_hash entry = EMPTY_HASH then t\<lparr>entries := entries t + 1\<rparr>
                else if te_hash entry = DELETED_HASH then t\<lparr>deleted := deleted t - 1\<rparr>
                else t);
          entry1 = (if \<not> found then entry\<lparr>te_hash := hash, te_key := Some key\<rparr>
                    else if \<not> copies_keys (key_ops t) then entry\<lparr>te_key := Some key\<rparr>
                    else entry)
      in t1\<lparr>table := (table t1)[i := entry1\<lparr>te_value := v\<rparr>]\<rparr>)"

definition hash_table_insert ::
    "('w::len, 'k, 'v::zero) hash_table \<Rightarrow> 'k \<Rightarrow> 'v \<Rightarrow> (('w, 'k, 'v) hash_table \<times> 'v) option" where
  "hash_table_insert t key v =
     (let hash = compute_hash (key_ops t) key
      in case lookup t key hash of
           None \<Rightarrow> None
         | Some (i, found) \<Rightarrow>
             let old_value = te_value (table t ! i);
                 t2 = store_entry t key hash v i found
             in if 3 * entries t2 \<ge> 2 * unat (size_mask t2)
                then map_option (\<lambda>t3. (t3, old_value)) (resize_table t2 0)
                else Some (t2, old_value))"

definition hash_table_delete ::
    "('w::len, 'k, 'v::zero) hash_table \<Rightarrow> 'k \<Rightarrow> (('w, 'k, 'v) hash_table \<times> 'v) option" where
  "hash_table_delete t key =
     (case lookup t key (compute_hash (key_ops t) key) of
        None \<Rightarrow> None
      | Some (i, found) \<Rightarrow>
          Some (if found
                then t\<lparr>table := (table t)[i := \<lparr>te_hash = DELETED_HASH, te_key = None, te_value = 0\<rparr>],
                       deleted := deleted t + 1\<rparr>
                else t,
                te_value (table t ! i)))"

definition hash_table_count :: "('w::len, 'k, 'v) hash_table \<Rightarrow> nat" where
  "hash_table_count t = entries t - deleted t"

definition hash_table_resize ::
    "('w::len, 'k, 'v::zero) hash_table \<Rightarrow> nat \<Rightarrow> ('w, 'k, 'v) hash_table option" where
  "hash_table_resize t min_size = resize_table t min_size"

text \<open>The iterator: the entry returned, if any, and the new position.\<close>

function hash_table_walk ::
    "('w::len, 'k, 'v) hash_table \<Rightarrow> nat \<Rightarrow> ('k \<times> 'v) option \<times> nat" where
  "hash_table_walk t ix =
     (if ix \<le> unat (size_mask t)
      then (let entry = table t ! ix
            in if \<not> empty_entry entry then (Some (the (te_key entry), te_value entry), ix + 1)
               else hash_table_walk t (ix + 1))
      else (None, ix))"
  by pat_completeness auto
termination
  by (relation "measure (\<lambda>(t, ix). Suc (unat (size_mask t)) - ix)") auto

declare hash_table_walk.simps [simp del]


section \<open>The probe loop\<close>

lemma compute_hash_live:
  fixes ops :: "('w::len, 'k) hash_table_ops"
  assumes "2 \<le> LENGTH('w)"
  shows "compute_hash ops key \<noteq> EMPTY_HASH" "compute_hash ops key \<noteq> DELETED_HASH"
proof -
  have "(-2 :: 'w word) \<noteq> -1" by simp
  moreover have "(-2 :: 'w word) \<noteq> 0"
  proof
    assume "(-2 :: 'w word) = 0"
    then have "(2 :: 'w word) = 0" by simp
    then have "bit (2 :: 'w word) 1 = bit (0 :: 'w word) 1" by (simp only:)
    with assms show False by (simp add: bit_2_iff)
  qed
  ultimately show "compute_hash ops key \<noteq> EMPTY_HASH" "compute_hash ops key \<noteq> DELETED_HASH"
    by (auto simp: compute_hash_def Let_def EMPTY_HASH_def DELETED_HASH_def)
qed

definition holds_key :: "('w::len, 'k, 'v) table_entry \<Rightarrow> 'w word \<Rightarrow> 'k \<Rightarrow> bool" where
  "holds_key e h key \<longleftrightarrow> te_hash e = h \<and> te_key e = Some key"

definition stops :: "('w::len, 'k, 'v) table_entry \<Rightarrow> 'w word \<Rightarrow> 'k \<Rightarrow> bool" where
  "stops e h key \<longleftrightarrow> holds_key e h key \<or> te_hash e = EMPTY_HASH"

lemma lookup_from_run:
  assumes "\<And>j. j < d \<Longrightarrow> \<not> stops (tab ! probe m h (n + j)) h key"
    and "stops (tab ! probe m h (n + d)) h key"
    and "\<And>r. del = Some r \<Longrightarrow> \<exists>j < n. r = probe m h j \<and> te_hash (tab ! r) = DELETED_HASH"
  shows "\<exists>r f. lookup_from tab m key h (fst (probe_state h n)) (snd (probe_state h n)) del = Some (r, f) \<and>
    (f \<longrightarrow> r = probe m h (n + d) \<and> holds_key (tab ! r) h key) \<and>
    (\<not> f \<longrightarrow> \<not> holds_key (tab ! probe m h (n + d)) h key \<and>
      (\<exists>j \<le> n + d. r = probe m h j \<and> empty_entry (tab ! r)))"
  using assms
proof (induction d arbitrary: n del)
  case 0
  let ?e = "tab ! probe m h n"
  have step: "lookup_from tab m key h (fst (probe_state h n)) (snd (probe_state h n)) del =
      (if holds_key ?e h key then Some (probe m h n, True)
       else Some (case del of Some d \<Rightarrow> d | None \<Rightarrow> probe m h n, False))"
    using "0.prems"(2) by (subst lookup_from.simps) (auto simp: probe_def Let_def holds_key_def stops_def split: option.split)
  show ?case
  proof (cases "holds_key ?e h key")
    case True
    then show ?thesis by (auto simp: step)
  next
    case False
    with "0.prems"(2) have "te_hash ?e = EMPTY_HASH" by (simp add: stops_def)
    then have e: "empty_entry ?e" by (simp add: empty_entry_def)
    show ?thesis
    proof (cases del)
      case None
      with False e step show ?thesis
        by (intro exI [of _ "probe m h n"] exI [of _ False]) auto
    next
      case (Some r)
      then obtain j where "j < n" "r = probe m h j" "te_hash (tab ! r) = DELETED_HASH"
        using "0.prems"(3) by blast
      with False Some step show ?thesis
        by (intro exI [of _ r] exI [of _ False]) (auto simp: empty_entry_def intro: less_imp_le)
    qed
  qed
next
  case (Suc d)
  let ?e = "tab ! probe m h n"
  define del' where "del' = (if te_hash ?e = DELETED_HASH \<and> del = None then Some (probe m h n) else del)"
  have "\<not> stops ?e h key" using Suc.prems(1) [of 0] by simp
  then have go: "\<not> (te_hash ?e = h \<and> te_key ?e = Some key)" "te_hash ?e \<noteq> EMPTY_HASH"
    by (auto simp: stops_def holds_key_def)
  have step: "lookup_from tab m key h (fst (probe_state h n)) (snd (probe_state h n)) del =
      lookup_from tab m key h (fst (probe_state h (Suc n))) (snd (probe_state h (Suc n))) del'"
    unfolding lookup_from.simps [of tab m key h "fst (probe_state h n)"] Let_def
      probe_def [symmetric] del'_def
    by (simp only: go if_False probe_state_Suc probe_step_def Let_def fst_conv snd_conv)
  have "\<exists>j < Suc n. r = probe m h j \<and> te_hash (tab ! r) = DELETED_HASH" if "del' = Some r" for r
    using that Suc.prems(3) unfolding del'_def by (auto split: if_splits intro: less_SucI)
  moreover have "\<not> stops (tab ! probe m h (Suc n + j)) h key" if "j < d" for j
    using Suc.prems(1) [of "Suc j"] that by simp
  moreover have "stops (tab ! probe m h (Suc n + d)) h key"
    using Suc.prems(2) by simp
  ultimately show ?case
    using Suc.IH [of "Suc n" del'] unfolding step by simp
qed

section \<open>The table invariant\<close>

text \<open>
  A slot is on the chain of a hash value when the probe sequence reaches it before any slot that
  was never used.
\<close>

definition chain :: "('w::len, 'k, 'v) table_entry list \<Rightarrow> 'w word \<Rightarrow> 'w word \<Rightarrow> nat \<Rightarrow> bool" where
  "chain tab m h i \<longleftrightarrow>
     (\<exists>n. probe m h n = i \<and> (\<forall>j < n. te_hash (tab ! probe m h j) \<noteq> EMPTY_HASH))"

definition size_ok :: "('w::len, 'k, 'v) table_entry list \<Rightarrow> 'w word \<Rightarrow> bool" where
  "size_ok tab m \<longleftrightarrow> (\<exists>k. 3 \<le> k \<and> k < LENGTH('w) \<and> length tab = 2 ^ k \<and> m = mask k)"

definition tab_inv ::
    "('w::len, 'k) hash_table_ops \<Rightarrow> 'w word \<Rightarrow> ('w, 'k, 'v::zero) table_entry list \<Rightarrow> bool" where
  "tab_inv ops m tab \<longleftrightarrow> size_ok tab m \<and>
     (\<forall>i < length tab. empty_entry (tab ! i) \<longrightarrow> te_key (tab ! i) = None \<and> te_value (tab ! i) = 0) \<and>
     (\<forall>i < length tab. \<not> empty_entry (tab ! i) \<longrightarrow>
        (\<exists>key. te_key (tab ! i) = Some key \<and> te_hash (tab ! i) = compute_hash ops key \<and>
           chain tab m (compute_hash ops key) i)) \<and>
     (\<forall>i < length tab. \<forall>j < length tab. \<forall>key.
        te_key (tab ! i) = Some key \<longrightarrow> te_key (tab ! j) = Some key \<longrightarrow> i = j)"

definition used :: "('w::len, 'k, 'v) table_entry list \<Rightarrow> nat" where
  "used tab = length (filter (\<lambda>e. te_hash e \<noteq> EMPTY_HASH) tab)"

definition dead :: "('w::len, 'k, 'v) table_entry list \<Rightarrow> nat" where
  "dead tab = length (filter (\<lambda>e. te_hash e = DELETED_HASH) tab)"

definition ht_inv :: "('w::len, 'k, 'v::zero) hash_table \<Rightarrow> bool" where
  "ht_inv t \<longleftrightarrow> tab_inv (key_ops t) (size_mask t) (table t) \<and>
     entries t = used (table t) \<and> deleted t = dead (table t) \<and>
     3 * entries t < 2 * unat (size_mask t)"

text \<open>The finite map a table stands for.\<close>

definition live_pairs :: "('w::len, 'k, 'v) table_entry list \<Rightarrow> ('k \<times> 'v) list" where
  "live_pairs tab = map (\<lambda>e. (the (te_key e), te_value e)) (filter (\<lambda>e. \<not> empty_entry e) tab)"

definition ht_map :: "('w::len, 'k, 'v) hash_table \<Rightarrow> 'k \<Rightarrow> 'v option" where
  "ht_map t = map_of (live_pairs (table t))"

lemma size_okE:
  fixes m :: "'w::len word"
  assumes "size_ok tab m"
  obtains k where "3 \<le> k" "k < LENGTH('w)" "length tab = 2 ^ k" "m = mask k"
  using assms unfolding size_ok_def by blast

lemma size_ok_probe:
  assumes "size_ok tab m"
  shows "probe m h n < length tab" "i < length tab \<Longrightarrow> \<exists>n. probe m h n = i"
  using assms probe_less probe_reaches by (metis size_okE less_imp_le)+

lemma size_ok_hash_live:
  fixes ops :: "('w::len, 'k) hash_table_ops" and m :: "'w word"
  assumes "size_ok tab m"
  shows "compute_hash ops key \<noteq> EMPTY_HASH" "compute_hash ops key \<noteq> DELETED_HASH"
proof -
  from assms have "2 \<le> LENGTH('w)" by (elim size_okE) linarith
  then show "compute_hash ops key \<noteq> EMPTY_HASH" "compute_hash ops key \<noteq> DELETED_HASH"
    by (fact compute_hash_live)+
qed

lemma tab_inv_size: "tab_inv ops m tab \<Longrightarrow> size_ok tab m"
  by (simp add: tab_inv_def)

lemma tab_inv_key:
  assumes "tab_inv ops m tab" "i < length tab"
  shows "te_key (tab ! i) = Some key \<Longrightarrow>
      \<not> empty_entry (tab ! i) \<and> te_hash (tab ! i) = compute_hash ops key \<and>
      chain tab m (compute_hash ops key) i"
    and "\<not> empty_entry (tab ! i) \<Longrightarrow> \<exists>key. te_key (tab ! i) = Some key"
    and "empty_entry (tab ! i) \<Longrightarrow> te_key (tab ! i) = None \<and> te_value (tab ! i) = 0"
  using assms by (fastforce simp: tab_inv_def)+

lemma tab_inv_unique:
  "tab_inv ops m tab \<Longrightarrow> i < length tab \<Longrightarrow> j < length tab \<Longrightarrow>
   te_key (tab ! i) = Some key \<Longrightarrow> te_key (tab ! j) = Some key \<Longrightarrow> i = j"
  by (simp add: tab_inv_def)

lemma live_pairs_iff:
  assumes "tab_inv ops m tab"
  shows "map_of (live_pairs tab) key = Some v \<longleftrightarrow>
    (\<exists>i < length tab. te_key (tab ! i) = Some key \<and> te_value (tab ! i) = v)"
proof -
  have mem: "(key, v) \<in> set (live_pairs tab) \<longleftrightarrow>
      (\<exists>i < length tab. te_key (tab ! i) = Some key \<and> te_value (tab ! i) = v)" for v
  proof
    assume "(key, v) \<in> set (live_pairs tab)"
    then obtain i where "i < length tab" "\<not> empty_entry (tab ! i)"
      "key = the (te_key (tab ! i))" "v = te_value (tab ! i)"
      by (auto simp: live_pairs_def in_set_conv_nth)
    then show "\<exists>i < length tab. te_key (tab ! i) = Some key \<and> te_value (tab ! i) = v"
      using tab_inv_key(2) [OF assms] by (metis option.sel)
  next
    assume "\<exists>i < length tab. te_key (tab ! i) = Some key \<and> te_value (tab ! i) = v"
    then show "(key, v) \<in> set (live_pairs tab)"
      using tab_inv_key(1) [OF assms] unfolding live_pairs_def by (force intro!: image_eqI)
  qed
  show ?thesis
    using mem tab_inv_unique [OF assms] by (metis map_of_SomeD weak_map_of_SomeI)
qed

lemma live_pairs_None:
  assumes "tab_inv ops m tab"
  shows "map_of (live_pairs tab) key = None \<longleftrightarrow> (\<forall>i < length tab. te_key (tab ! i) \<noteq> Some key)"
  using live_pairs_iff [OF assms] by (metis not_None_eq)

section \<open>Lookup\<close>

lemma lookup_tab:
  assumes inv: "tab_inv ops m tab" and free: "\<exists>i < length tab. te_hash (tab ! i) = EMPTY_HASH"
    and h: "h = compute_hash ops key"
  shows "\<exists>r f. lookup_from tab m key h h h None = Some (r, f) \<and> r < length tab \<and>
    (f \<longrightarrow> te_key (tab ! r) = Some key) \<and>
    (\<not> f \<longrightarrow> (\<forall>i < length tab. te_key (tab ! i) \<noteq> Some key) \<and> empty_entry (tab ! r) \<and> chain tab m h r)"
proof -
  note size = tab_inv_size [OF inv]
  define N where "N = (LEAST n. stops (tab ! probe m h n) h key)"
  have "\<exists>n. stops (tab ! probe m h n) h key"
    using free size_ok_probe(2) [OF size] unfolding stops_def by metis
  then have N: "stops (tab ! probe m h N) h key" and min: "\<And>j. j < N \<Longrightarrow> \<not> stops (tab ! probe m h j) h key"
    unfolding N_def by (auto intro: LeastI_ex dest: not_less_Least)
  obtain r f where run: "lookup_from tab m key h h h None = Some (r, f)"
    and found: "f \<longrightarrow> r = probe m h N \<and> holds_key (tab ! r) h key"
    and missing: "\<not> f \<longrightarrow> \<not> holds_key (tab ! probe m h N) h key \<and>
      (\<exists>j \<le> N. r = probe m h j \<and> empty_entry (tab ! r))"
    using lookup_from_run [of N tab m h 0 key None] N min by auto
  have absent: "te_key (tab ! i) \<noteq> Some key" if f: "\<not> f" and i: "i < length tab" for i
  proof
    assume k: "te_key (tab ! i) = Some key"
    then obtain n where n: "probe m h n = i" "\<forall>j < n. te_hash (tab ! probe m h j) \<noteq> EMPTY_HASH"
      using tab_inv_key(1) [OF inv i] h unfolding chain_def by auto
    have "holds_key (tab ! probe m h n) h key"
      using k n(1) tab_inv_key(1) [OF inv i] h by (simp add: holds_key_def)
    then have "N \<le> n" using min unfolding stops_def by (meson not_less)
    with n(2) N missing f \<open>holds_key (tab ! probe m h n) h key\<close> show False
      unfolding stops_def by (metis le_neq_implies_less)
  qed
  have "chain tab m h r" if "\<not> f"
    using missing that min unfolding chain_def stops_def by (metis order_less_le_trans)
  moreover have "r < length tab"
    using found missing size_ok_probe(1) [OF size] by (cases f) auto
  ultimately show ?thesis
    using run found missing absent by (auto simp: holds_key_def)
qed


section \<open>Changing one slot\<close>

lemma chain_mono:
  assumes "size_ok tab m" "chain tab m h i" "length tab' = length tab"
    and "\<And>j. j < length tab \<Longrightarrow> te_hash (tab ! j) \<noteq> EMPTY_HASH \<Longrightarrow> te_hash (tab' ! j) \<noteq> EMPTY_HASH"
  shows "chain tab' m h i"
  using assms size_ok_probe(1) [OF assms(1)] unfolding chain_def by metis

lemma tab_inv_store:
  assumes inv: "tab_inv ops m tab" and r: "r < length tab"
    and e: "te_key e = Some key" "te_hash e = compute_hash ops key"
    and slot: "te_key (tab ! r) = Some key \<or>
      (\<forall>i < length tab. te_key (tab ! i) \<noteq> Some key) \<and> chain tab m (compute_hash ops key) r"
  shows "tab_inv ops m (tab[r := e])"
proof -
  note size = tab_inv_size [OF inv]
  have live: "\<not> empty_entry e"
    using e(2) size_ok_hash_live [OF size, of ops key] by (simp add: empty_entry_def)
  have mono: "chain tab m h i \<Longrightarrow> chain (tab[r := e]) m h i" for h i
    by (rule chain_mono [OF size]) (use live r in \<open>auto simp: nth_list_update empty_entry_def\<close>)
  have chain_r: "chain tab m (compute_hash ops key) r"
    using slot tab_inv_key(1) [OF inv r] by blast
  have other: "te_key (tab ! i) = Some key \<Longrightarrow> i = r" if "i < length tab" for i
    using slot that r tab_inv_unique [OF inv] by blast
  show ?thesis
    unfolding tab_inv_def
  proof (intro conjI allI impI)
    show "size_ok (tab[r := e]) m" using size by (simp add: size_ok_def)
  next
    fix i assume "i < length (tab[r := e])" "empty_entry (tab[r := e] ! i)"
    then show "te_key (tab[r := e] ! i) = None" "te_value (tab[r := e] ! i) = 0"
      using live r tab_inv_key(3) [OF inv] by (auto simp: nth_list_update split: if_splits)
  next
    fix i assume "i < length (tab[r := e])" "\<not> empty_entry (tab[r := e] ! i)"
    then show "\<exists>key. te_key (tab[r := e] ! i) = Some key \<and> te_hash (tab[r := e] ! i) = compute_hash ops key \<and>
        chain (tab[r := e]) m (compute_hash ops key) i"
      using e mono [OF chain_r] r by (cases "i = r") (simp_all, metis mono tab_inv_key(1,2) [OF inv])
  next
    fix i j k assume "i < length (tab[r := e])" "j < length (tab[r := e])"
      "te_key (tab[r := e] ! i) = Some k" "te_key (tab[r := e] ! j) = Some k"
    then show "i = j"
      using e(1) r other tab_inv_unique [OF inv] by (auto simp: nth_list_update split: if_splits)
  qed
qed

lemma map_store:
  assumes inv: "tab_inv ops m tab" and inv': "tab_inv ops m (tab[r := e])" and r: "r < length tab"
    and e: "te_key e = Some key"
    and slot: "te_key (tab ! r) = Some key \<or>
      (\<forall>i < length tab. te_key (tab ! i) \<noteq> Some key) \<and> te_key (tab ! r) = None"
  shows "map_of (live_pairs (tab[r := e])) = (map_of (live_pairs tab))(key \<mapsto> te_value e)"
proof
  fix k
  show "map_of (live_pairs (tab[r := e])) k = ((map_of (live_pairs tab))(key \<mapsto> te_value e)) k"
  proof (cases "k = key")
    case True
    have "map_of (live_pairs (tab[r := e])) key = Some (te_value e)"
      using r e by (subst live_pairs_iff [OF inv']) auto
    with True show ?thesis by simp
  next
    case False
    have "map_of (live_pairs (tab[r := e])) k = Some v \<longleftrightarrow> map_of (live_pairs tab) k = Some v" for v
      using False e slot r unfolding live_pairs_iff [OF inv] live_pairs_iff [OF inv']
      by (auto simp: nth_list_update split: if_splits) (metis option.inject option.distinct(1))+
    then have "map_of (live_pairs (tab[r := e])) k = map_of (live_pairs tab) k"
      by (metis not_Some_eq)
    with False show ?thesis by simp
  qed
qed

definition tombstone :: "('w::len, 'k, 'v::zero) table_entry" where
  "tombstone = \<lparr>te_hash = DELETED_HASH, te_key = None, te_value = 0\<rparr>"

lemma empty_not_deleted [simp]: "EMPTY_HASH \<noteq> DELETED_HASH" "DELETED_HASH \<noteq> EMPTY_HASH"
  by (simp_all add: EMPTY_HASH_def DELETED_HASH_def)

lemma tab_inv_delete:
  assumes inv: "tab_inv ops m tab" and r: "r < length tab" and k: "te_key (tab ! r) = Some key"
  shows "tab_inv ops m (tab[r := tombstone])"
    "map_of (live_pairs (tab[r := tombstone])) = (map_of (live_pairs tab))(key := None)"
proof -
  note size = tab_inv_size [OF inv]
  have mono: "chain tab m h i \<Longrightarrow> chain (tab[r := tombstone]) m h i" for h i
    by (rule chain_mono [OF size]) (use r in \<open>auto simp: nth_list_update tombstone_def\<close>)
  show inv': "tab_inv ops m (tab[r := tombstone])"
    unfolding tab_inv_def
  proof (intro conjI allI impI)
    show "size_ok (tab[r := tombstone]) m" using size by (simp add: size_ok_def)
  next
    fix i assume "i < length (tab[r := tombstone])" "empty_entry (tab[r := tombstone] ! i)"
    then show "te_key (tab[r := tombstone] ! i) = None" "te_value (tab[r := tombstone] ! i) = 0"
      using r tab_inv_key(3) [OF inv] by (auto simp: nth_list_update tombstone_def split: if_splits)
  next
    fix i assume "i < length (tab[r := tombstone])" "\<not> empty_entry (tab[r := tombstone] ! i)"
    then show "\<exists>key. te_key (tab[r := tombstone] ! i) = Some key \<and>
        te_hash (tab[r := tombstone] ! i) = compute_hash ops key \<and>
        chain (tab[r := tombstone]) m (compute_hash ops key) i"
    proof (cases "i = r")
      case True
      with \<open>\<not> empty_entry (tab[r := tombstone] ! i)\<close> r show ?thesis
        by (simp add: tombstone_def empty_entry_def)
    next
      case False
      with \<open>\<not> empty_entry (tab[r := tombstone] ! i)\<close> \<open>i < length (tab[r := tombstone])\<close>
      show ?thesis using mono tab_inv_key(1,2) [OF inv] by simp metis
    qed
  next
    fix i j k assume "i < length (tab[r := tombstone])" "j < length (tab[r := tombstone])"
      "te_key (tab[r := tombstone] ! i) = Some k" "te_key (tab[r := tombstone] ! j) = Some k"
    then show "i = j"
      using r tab_inv_unique [OF inv] by (auto simp: nth_list_update tombstone_def split: if_splits)
  qed
  show "map_of (live_pairs (tab[r := tombstone])) = (map_of (live_pairs tab))(key := None)"
  proof
    fix k'
    have "map_of (live_pairs (tab[r := tombstone])) k' = Some v \<longleftrightarrow>
        k' \<noteq> key \<and> map_of (live_pairs tab) k' = Some v" for v
      using k r tab_inv_unique [OF inv]
      unfolding live_pairs_iff [OF inv] live_pairs_iff [OF inv']
      by (auto simp: nth_list_update tombstone_def split: if_splits) (metis option.inject)+
    then show "map_of (live_pairs (tab[r := tombstone])) k' = ((map_of (live_pairs tab))(key := None)) k'"
      by (metis fun_upd_apply not_Some_eq)
  qed
qed


section \<open>Growing the table\<close>

lemma grow_size_ge: "0 < n \<Longrightarrow> min_size \<le> grow_size min_size n"
  by (induction min_size n rule: grow_size.induct) (subst grow_size.simps, auto)

lemma grow_size_power:
  "\<exists>b \<ge> a. grow_size min_size (2 ^ a) = 2 ^ b \<and> (b = a \<or> 2 ^ b < 2 * min_size)"
proof (induction "min_size - 2 ^ a" arbitrary: a rule: less_induct)
  case less
  show ?case
  proof (cases "(2 :: nat) ^ a < min_size")
    case True
    then have step: "grow_size min_size (2 ^ a) = grow_size min_size (2 ^ Suc a)"
      by (subst grow_size.simps) simp
    have "min_size - 2 ^ Suc a < min_size - 2 ^ a" using True by (intro diff_less_mono2) simp_all
    from less [OF this] obtain b where b: "Suc a \<le> b" "grow_size min_size (2 ^ Suc a) = 2 ^ b"
      "b = Suc a \<or> 2 ^ b < 2 * min_size" by blast
    with True step show ?thesis by (intro exI [of _ b]) auto
  next
    case False
    then have "grow_size min_size (2 ^ a) = 2 ^ a" by (subst grow_size.simps) simp
    then show ?thesis by blast
  qed
qed

lemma mask_word_of_nat: "(word_of_nat (2 ^ k - 1) :: 'w::len word) = mask k"
  by (simp add: mask_eq_exp_minus_1 of_nat_diff)

lemma unat_mask_less: "k < LENGTH('w) \<Longrightarrow> unat (mask k :: 'w::len word) = 2 ^ k - 1"
  by (simp only: mask_word_of_nat [symmetric] unsigned_of_nat of_nat_id take_bit_nat_eq_self_iff [THEN iffD2])
    (rule take_bit_nat_eq_self, simp add: less_imp_diff_less)

lemma fresh_table_inv:
  assumes "3 \<le> k" "k < LENGTH('w)"
  shows "tab_inv ops (mask k) (replicate (2 ^ k) (null_entry :: ('w::len, 'k, 'v::zero) table_entry))"
  using assms by (auto simp: tab_inv_def size_ok_def null_entry_def empty_entry_def EMPTY_HASH_def)

lemma fresh_table_counts [simp]:
  "used (replicate n null_entry) = 0" "dead (replicate n null_entry) = 0"
  "live_pairs (replicate n null_entry) = []"
  by (simp_all add: used_def dead_def live_pairs_def null_entry_def empty_entry_def EMPTY_HASH_def
      DELETED_HASH_def)

lemma used_less_free:
  assumes "used tab < length tab"
  shows "\<exists>i < length tab. te_hash (tab ! i) = EMPTY_HASH"
proof (rule ccontr)
  assume "\<not> ?thesis"
  then have "filter (\<lambda>e. te_hash e \<noteq> EMPTY_HASH) tab = tab"
    by (auto simp: filter_id_conv in_set_conv_nth)
  with assms show False by (simp add: used_def)
qed

definition live_count :: "('w::len, 'k, 'v) table_entry list \<Rightarrow> nat" where
  "live_count tab = length (filter (\<lambda>e. \<not> empty_entry e) tab)"

lemma used_live_dead: "used tab = live_count tab + dead tab"
  unfolding used_def live_count_def dead_def by (induction tab) (auto simp: empty_entry_def)

lemma used_update:
  assumes "i < length tab" "\<not> empty_entry e"
  shows "te_hash (tab ! i) = EMPTY_HASH \<Longrightarrow> used (tab[i := e]) = used tab + 1"
    "te_hash (tab ! i) \<noteq> EMPTY_HASH \<Longrightarrow> used (tab[i := e]) = used tab"
    "te_hash (tab ! i) = DELETED_HASH \<Longrightarrow> dead (tab[i := e]) + 1 = dead tab"
    "te_hash (tab ! i) \<noteq> DELETED_HASH \<Longrightarrow> dead (tab[i := e]) = dead tab"
  using assms length_filter_update [OF assms(1), of "\<lambda>e. te_hash e \<noteq> EMPTY_HASH" e]
    length_filter_update [OF assms(1), of "\<lambda>e. te_hash e = DELETED_HASH" e]
  by (simp_all add: used_def dead_def empty_entry_def)

text \<open>Copying the live entries of a well-formed table into a table that does not hold their keys.\<close>

definition well_keyed :: "('w::len, 'k) hash_table_ops \<Rightarrow> ('w, 'k, 'v) table_entry list \<Rightarrow> bool" where
  "well_keyed ops es \<longleftrightarrow>
     (\<forall>e \<in> set es. \<not> empty_entry e \<longrightarrow> (\<exists>key. te_key e = Some key \<and> te_hash e = compute_hash ops key)) \<and>
     distinct (map te_key (filter (\<lambda>e. \<not> empty_entry e) es))"

lemma copy_entries_spec:
  assumes "tab_inv (key_ops nt) (size_mask nt) (table nt)"
    and "well_keyed (key_ops nt) es"
    and "\<forall>e \<in> set es. \<not> empty_entry e \<longrightarrow> map_of (live_pairs (table nt)) (the (te_key e)) = None"
    and "dead (table nt) = 0"
    and "used (table nt) + live_count es < length (table nt)"
  shows "\<exists>nt'. copy_entries es nt = Some nt' \<and>
    tab_inv (key_ops nt) (size_mask nt) (table nt') \<and>
    nt' = nt\<lparr>table := table nt'\<rparr> \<and> length (table nt') = length (table nt) \<and>
    dead (table nt') = 0 \<and> used (table nt') = used (table nt) + live_count es \<and>
    ht_map nt' = ht_map nt ++ map_of (live_pairs es)"
  using assms
proof (induction es arbitrary: nt)
  case Nil
  then show ?case by (simp add: live_pairs_def live_count_def)
next
  case (Cons e es)
  show ?case
  proof (cases "empty_entry e")
    case True
    with Cons.prems Cons.IH [of nt] show ?thesis
      by (simp add: live_pairs_def live_count_def well_keyed_def)
  next
    case False
    then obtain key where key: "te_key e = Some key" "te_hash e = compute_hash (key_ops nt) key"
      using Cons.prems(2) by (auto simp: well_keyed_def)
    note inv = Cons.prems(1)
    have absent: "\<forall>i < length (table nt). te_key (table nt ! i) \<noteq> Some key"
      using Cons.prems(3) False key live_pairs_None [OF inv] by simp
    have "\<exists>i < length (table nt). te_hash (table nt ! i) = EMPTY_HASH"
      using Cons.prems(5) by (intro used_less_free) simp
    from lookup_tab [OF inv this key(2)] absent obtain r where
      run: "lookup nt key (te_hash e) = Some (r, False)" and r: "r < length (table nt)"
        "empty_entry (table nt ! r)" "chain (table nt) (size_mask nt) (te_hash e) r"
      unfolding lookup_def by metis
    let ?nt = "nt\<lparr>table := (table nt)[r := e]\<rparr>"
    have inv': "tab_inv (key_ops ?nt) (size_mask ?nt) (table ?nt)"
      using tab_inv_store [OF inv r(1) key] absent r(3) key(2) by simp
    have "te_hash (table nt ! r) \<noteq> DELETED_HASH"
      using Cons.prems(4) r(1) by (auto simp: dead_def filter_empty_conv)
    then have empty: "te_hash (table nt ! r) = EMPTY_HASH" using r(2) by (simp add: empty_entry_def)
    have counts: "used (table ?nt) = used (table nt) + 1" "dead (table ?nt) = 0"
      using used_update [OF r(1) False] empty Cons.prems(4) by simp_all
    have map: "map_of (live_pairs (table ?nt)) = (map_of (live_pairs (table nt)))(key \<mapsto> te_value e)"
      using map_store [OF inv _ r(1) key(1)] inv' absent tab_inv_key(3) [OF inv r(1,2)] by simp
    have "\<forall>e' \<in> set es. \<not> empty_entry e' \<longrightarrow> map_of (live_pairs (table ?nt)) (the (te_key e')) = None"
    proof (intro ballI impI)
      fix e' assume e': "e' \<in> set es" "\<not> empty_entry e'"
      then obtain key' where k': "te_key e' = Some key'"
        using Cons.prems(2) by (auto simp: well_keyed_def)
      with e' key(1) False Cons.prems(2) have "key' \<noteq> key"
        by (force simp: well_keyed_def image_iff)
      moreover have "map_of (live_pairs (table nt)) key' = None"
        using e' k' Cons.prems(3) by force
      ultimately show "map_of (live_pairs (table ?nt)) (the (te_key e')) = None"
        unfolding map using k' by simp
    qed
    with Cons.IH [of ?nt] inv' counts Cons.prems(2,5) False obtain nt' where nt':
      "copy_entries es ?nt = Some nt'" "tab_inv (key_ops nt) (size_mask nt) (table nt')"
      "nt' = ?nt\<lparr>table := table nt'\<rparr>" "length (table nt') = length (table nt)"
      "dead (table nt') = 0" "used (table nt') = used (table nt) + live_count (e # es)"
      "ht_map nt' = ht_map ?nt ++ map_of (live_pairs es)"
      by (auto simp: live_count_def well_keyed_def)
    have "ht_map nt' = ht_map nt ++ map_of (live_pairs (e # es))"
    proof -
      have "key \<notin> dom (map_of (live_pairs es))"
      proof
        assume "key \<in> dom (map_of (live_pairs es))"
        then obtain e' where "e' \<in> set es" "\<not> empty_entry e'" "the (te_key e') = key"
          by (auto simp: live_pairs_def dest!: map_of_SomeD)
        with key(1) False Cons.prems(2) show False
          by (force simp: well_keyed_def image_iff)
      qed
      moreover have "live_pairs (e # es) = (key, te_value e) # live_pairs es"
        using False key(1) by (simp add: live_pairs_def)
      moreover have "ht_map ?nt = (ht_map nt)(key \<mapsto> te_value e)"
        using map by (simp add: ht_map_def)
      ultimately show ?thesis
        unfolding nt'(7) by (simp add: map_add_upd_left)
    qed
    moreover have "copy_entries (e # es) nt = Some nt'"
      using False run key(1) nt'(1) by simp
    moreover have "nt' = nt\<lparr>table := table nt'\<rparr>" using nt'(3) by simp
    ultimately show ?thesis using nt' by blast
  qed
qed


section \<open>The operations keep the invariant and implement the map\<close>

lemma distinct_map_filter:
  assumes "\<And>i j. i < length xs \<Longrightarrow> j < length xs \<Longrightarrow> i \<noteq> j \<Longrightarrow> P (xs ! i) \<Longrightarrow> P (xs ! j) \<Longrightarrow>
      f (xs ! i) \<noteq> f (xs ! j)"
  shows "distinct (map f (filter P xs))"
  using assms
proof (induction xs)
  case (Cons x xs)
  have "distinct (map f (filter P xs))"
  proof (rule Cons.IH)
    fix i j assume "i < length xs" "j < length xs" "i \<noteq> j" "P (xs ! i)" "P (xs ! j)"
    then show "f (xs ! i) \<noteq> f (xs ! j)" using Cons.prems [of "Suc i" "Suc j"] by simp
  qed
  moreover have "f x \<noteq> f y" if x: "P x" and y: "y \<in> set xs" "P y" for y
  proof -
    obtain j where "j < length xs" "y = xs ! j" using y(1) unfolding in_set_conv_nth by blast
    then show ?thesis using x y(2) Cons.prems [of 0 "Suc j"] by simp
  qed
  ultimately show ?case by auto
qed simp

lemma tab_inv_well_keyed:
  assumes inv: "tab_inv ops m tab"
  shows "well_keyed ops tab"
proof -
  have "distinct (map te_key (filter (\<lambda>e. \<not> empty_entry e) tab))"
  proof (rule distinct_map_filter)
    fix i j assume ij: "i < length tab" "j < length tab" "i \<noteq> j" "\<not> empty_entry (tab ! i)"
    then obtain key where "te_key (tab ! i) = Some key" using tab_inv_key(2) [OF inv] by blast
    with ij show "te_key (tab ! i) \<noteq> te_key (tab ! j)" using tab_inv_unique [OF inv ij(1,2)] by metis
  qed
  moreover have "\<exists>key. te_key e = Some key \<and> te_hash e = compute_hash ops key"
    if e: "e \<in> set tab" and live: "\<not> empty_entry e" for e
  proof -
    obtain i where "i < length tab" "e = tab ! i" using e unfolding in_set_conv_nth by blast
    with live tab_inv_key(1,2) [OF inv, of i] show ?thesis by blast
  qed
  ultimately show ?thesis by (simp add: well_keyed_def)
qed

lemma resize_table_spec:
  fixes t :: "('w::len, 'k, 'v::zero) hash_table"
  assumes inv: "tab_inv (key_ops t) (size_mask t) (table t)"
    and counts: "entries t = used (table t)" "deleted t = dead (table t)"
    and fits: "2 * max min_size (2 * live_count (table t)) \<le> 2 ^ LENGTH('w)"
    and w: "3 < LENGTH('w)"
  shows "\<exists>t'. resize_table t min_size = Some t' \<and> ht_inv t' \<and> ht_map t' = ht_map t \<and>
    key_ops t' = key_ops t \<and> deleted t' = 0 \<and> entries t' = live_count (table t) \<and>
    (length (table t') = 8 \<or> length (table t') < 2 * max min_size (2 * live_count (table t)))"
proof -
  define live where "live = live_count (table t)"
  have live: "entries t - deleted t = live"
    unfolding live_def counts by (simp add: used_live_dead)
  define ms where "ms = max min_size (2 * live)"
  obtain b where b: "3 \<le> b" "grow_size ms (2 ^ 3) = 2 ^ b" "b = 3 \<or> 2 ^ b < 2 * ms"
    using grow_size_power [of 3 ms] by blast
  have ge: "ms \<le> 2 ^ b" using grow_size_ge [of "2 ^ 3" ms] b(2) by simp
  have bw: "b < LENGTH('w)"
  proof (cases "b = 3")
    case False
    with b(3) fits have "(2 :: nat) ^ b < 2 ^ LENGTH('w)"
      unfolding ms_def live_def by linarith
    then show ?thesis by (rule power_less_imp_less_exp [rotated]) simp
  qed (use w in simp)
  let ?nt = "\<lparr>key_ops = key_ops t, entries = live, deleted = 0,
    size_mask = mask b, table = replicate (2 ^ b) null_entry\<rparr> :: ('w, 'k, 'v) hash_table"
  have nt: "resize_table t min_size = copy_entries (table t) ?nt"
  proof -
    have "(if min_size < 2 * live then 2 * live else min_size) = ms" by (simp add: ms_def max_def)
    then show ?thesis
      using b(2) unfolding resize_table_def live Let_def INITIAL_SIZE_def
      by (simp add: mask_eq_exp_minus_1)
  qed
  have "live < 2 ^ b"
    using ge b(1) by (cases "live = 0") (auto simp: ms_def)
  then obtain t' where t': "copy_entries (table t) ?nt = Some t'"
    "tab_inv (key_ops t) (mask b) (table t')" "t' = ?nt\<lparr>table := table t'\<rparr>"
    "length (table t') = 2 ^ b" "dead (table t') = 0" "used (table t') = live"
    "ht_map t' = ht_map ?nt ++ map_of (live_pairs (table t))"
    using copy_entries_spec [of ?nt "table t"] fresh_table_inv [OF b(1) bw, of "key_ops t"]
      tab_inv_well_keyed [OF inv] by (auto simp: live_def)
  have "3 * live < 2 * (2 ^ b - 1)"
  proof -
    have "(2 :: nat) ^ 3 \<le> 2 ^ b" using b(1) by (rule power_increasing) simp
    moreover have "2 * live \<le> 2 ^ b" using ge by (simp add: ms_def)
    moreover have "3 * live < 2 * (B - 1)" if "8 \<le> B" "2 * live \<le> B" for B :: nat
      using that by arith
    ultimately show ?thesis by simp
  qed
  moreover have fields: "key_ops t' = key_ops t" "size_mask t' = mask b" "entries t' = live" "deleted t' = 0"
    by (subst t'(3), simp)+
  ultimately have "ht_inv t'"
    using t'(2,5,6) bw by (simp add: ht_inv_def unat_mask_less)
  moreover have "ht_map t' = ht_map t"
    unfolding t'(7) by (simp add: ht_map_def)
  ultimately show ?thesis
    using t'(1,4) nt fields b(3) by (auto simp: live_def ms_def)
qed

lemma ht_invD:
  fixes t :: "('w::len, 'k, 'v::zero) hash_table"
  assumes "ht_inv t"
  shows "tab_inv (key_ops t) (size_mask t) (table t)"
    "\<exists>i < length (table t). te_hash (table t ! i) = EMPTY_HASH"
    "3 * used (table t) < 2 * (length (table t) - 1)"
    "unat (size_mask t) = length (table t) - 1"
proof -
  show inv: "tab_inv (key_ops t) (size_mask t) (table t)" using assms by (simp add: ht_inv_def)
  from tab_inv_size [OF inv] obtain k where "k < LENGTH('w)" "length (table t) = 2 ^ k" "size_mask t = mask k"
    by (rule size_okE)
  then show mask: "unat (size_mask t) = length (table t) - 1" by (simp add: unat_mask_less)
  with assms show "3 * used (table t) < 2 * (length (table t) - 1)" by (simp add: ht_inv_def)
  then show "\<exists>i < length (table t). te_hash (table t ! i) = EMPTY_HASH"
    by (intro used_less_free) linarith
qed

definition lookup_ok :: "('w::len, 'k, 'v::zero) hash_table \<Rightarrow> 'k \<Rightarrow> nat \<Rightarrow> bool \<Rightarrow> bool" where
  "lookup_ok t key r f \<longleftrightarrow> r < length (table t) \<and>
     (f \<longrightarrow> te_key (table t ! r) = Some key \<and> ht_map t key = Some (te_value (table t ! r))) \<and>
     (\<not> f \<longrightarrow> ht_map t key = None \<and> empty_entry (table t ! r) \<and> te_value (table t ! r) = 0 \<and>
        te_key (table t ! r) = None \<and> (\<forall>i < length (table t). te_key (table t ! i) \<noteq> Some key) \<and>
        chain (table t) (size_mask t) (compute_hash (key_ops t) key) r)"

lemma lookup_spec:
  assumes inv: "ht_inv t"
  shows "\<exists>r f. lookup t key (compute_hash (key_ops t) key) = Some (r, f) \<and> lookup_ok t key r f"
proof -
  note ti = ht_invD(1) [OF inv]
  obtain r f where *: "lookup t key (compute_hash (key_ops t) key) = Some (r, f)" "r < length (table t)"
    "f \<longrightarrow> te_key (table t ! r) = Some key"
    "\<not> f \<longrightarrow> (\<forall>i < length (table t). te_key (table t ! i) \<noteq> Some key) \<and> empty_entry (table t ! r) \<and>
      chain (table t) (size_mask t) (compute_hash (key_ops t) key) r"
    using lookup_tab [OF ti ht_invD(2) [OF inv] refl, of key] unfolding lookup_def by blast
  have "f \<longrightarrow> ht_map t key = Some (te_value (table t ! r))"
    using * unfolding ht_map_def live_pairs_iff [OF ti] by blast
  moreover have "\<not> f \<longrightarrow> ht_map t key = None \<and> te_value (table t ! r) = 0 \<and> te_key (table t ! r) = None"
    using * tab_inv_key(3) [OF ti] unfolding ht_map_def live_pairs_None [OF ti] by blast
  ultimately show ?thesis using * by (auto simp: lookup_ok_def)
qed

text \<open>
  Room for \<open>n\<close> more insertions: the table, and any table that \<open>n\<close> insertions can make it grow to,
  has a size that \<^verbatim>\<open>size_t\<close> can hold.
\<close>

definition ht_room :: "nat \<Rightarrow> ('w::len, 'k, 'v) hash_table \<Rightarrow> bool" where
  "ht_room n t \<longleftrightarrow> 4 * length (table t) \<le> 2 ^ LENGTH('w) \<and> 16 * (live_count (table t) + n) \<le> 2 ^ LENGTH('w)"

lemma hash_table_lookup_spec:
  assumes "ht_inv t"
  shows "hash_table_lookup t key = Some (case ht_map t key of None \<Rightarrow> 0 | Some v \<Rightarrow> v)"
    "hash_table_lookup_bool t key =
      Some (case ht_map t key of None \<Rightarrow> (0, False) | Some v \<Rightarrow> (v, True))"
  using lookup_spec [OF assms, of key]
  by (auto simp: hash_table_lookup_def hash_table_lookup_bool_def lookup_ok_def split: option.splits)

lemma hash_table_delete_spec:
  assumes inv: "ht_inv t"
  shows "\<exists>t'. hash_table_delete t key = Some (t', case ht_map t key of None \<Rightarrow> 0 | Some v \<Rightarrow> v) \<and>
    ht_inv t' \<and> ht_map t' = (ht_map t)(key := None) \<and> key_ops t' = key_ops t \<and>
    (ht_room n t \<longrightarrow> ht_room n t')"
proof -
  note ti = ht_invD(1) [OF inv]
  obtain r f where run: "lookup t key (compute_hash (key_ops t) key) = Some (r, f)"
    and ok: "lookup_ok t key r f"
    using lookup_spec [OF inv] by blast
  then have r: "r < length (table t)" by (simp add: lookup_ok_def)
  show ?thesis
  proof (cases f)
    case False
    with run ok inv show ?thesis
      by (auto simp: hash_table_delete_def lookup_ok_def fun_upd_idem_iff)
  next
    case True
    with ok have k: "te_key (table t ! r) = Some key"
      "ht_map t key = Some (te_value (table t ! r))" by (simp_all add: lookup_ok_def)
    let ?t = "t\<lparr>table := (table t)[r := tombstone], deleted := deleted t + 1\<rparr>"
    have live: "\<not> empty_entry (table t ! r)" using tab_inv_key(1) [OF ti r k(1)] by simp
    have counts: "used ((table t)[r := tombstone]) = used (table t)"
      "dead ((table t)[r := tombstone]) = dead (table t) + 1"
      using live length_filter_update [OF r, of "\<lambda>e. te_hash e \<noteq> EMPTY_HASH" tombstone]
        length_filter_update [OF r, of "\<lambda>e. te_hash e = DELETED_HASH" tombstone]
      by (simp_all add: used_def dead_def tombstone_def empty_entry_def)
    have "ht_inv ?t"
      using counts inv tab_inv_delete(1) [OF ti r k(1)] by (simp add: ht_inv_def)
    moreover have "ht_map ?t = (ht_map t)(key := None)"
      using tab_inv_delete(2) [OF ti r k(1)] by (simp add: ht_map_def)
    moreover have "ht_room n t \<longrightarrow> ht_room n ?t"
      using counts used_live_dead [of "table t"] used_live_dead [of "table ?t"] by (simp add: ht_room_def)
    ultimately show ?thesis
      using True run k(2) by (simp add: hash_table_delete_def tombstone_def)
  qed
qed


lemma store_entry_spec:
  fixes t :: "('w::len, 'k, 'v::zero) hash_table" and v :: 'v
  assumes inv: "ht_inv t" and ok: "lookup_ok t key r f"
  defines "t2 \<equiv> store_entry t key (compute_hash (key_ops t) key) v r f"
  shows "tab_inv (key_ops t) (size_mask t) (table t2)" "entries t2 = used (table t2)"
    "deleted t2 = dead (table t2)" "ht_map t2 = (ht_map t)(key \<mapsto> v)"
    "key_ops t2 = key_ops t" "size_mask t2 = size_mask t" "length (table t2) = length (table t)"
    "live_count (table t2) \<le> live_count (table t) + 1"
proof -
  note ti = ht_invD(1) [OF inv]
  let ?h = "compute_hash (key_ops t) key"
  have r: "r < length (table t)" using ok by (simp add: lookup_ok_def)
  define e where "e = \<lparr>te_hash = ?h, te_key = Some key, te_value = v\<rparr>"
  have kept: "te_hash (table t ! r) = ?h" if f
    using that ok tab_inv_key(1) [OF ti r] by (simp add: lookup_ok_def)
  have tab: "table t2 = (table t)[r := e]"
    unfolding t2_def store_entry_def Let_def e_def using ok kept
    by (cases f) (auto simp: lookup_ok_def intro!: arg_cong [where f = "list_update (table t) r"])
  have e: "te_key e = Some key" "te_hash e = ?h" "te_value e = v" by (simp_all add: e_def)
  have live: "\<not> empty_entry e"
    using e(2) size_ok_hash_live [OF tab_inv_size [OF ti], of "key_ops t" key] by (simp add: empty_entry_def)
  show ti2: "tab_inv (key_ops t) (size_mask t) (table t2)"
    unfolding tab using ok by (intro tab_inv_store [OF ti r e(1,2)]) (auto simp: lookup_ok_def)
  show "ht_map t2 = (ht_map t)(key \<mapsto> v)"
    using map_store [OF ti _ r e(1)] ti2 ok e(3) unfolding tab ht_map_def by (auto simp: lookup_ok_def)
  show "entries t2 = used (table t2)" "deleted t2 = dead (table t2)"
    using inv used_update [OF r live] unfolding tab
    by (auto simp: t2_def store_entry_def Let_def ht_inv_def)
  show "live_count (table t2) \<le> live_count (table t) + 1"
    using length_filter_update [OF r, of "\<lambda>e. \<not> empty_entry e" e] live unfolding tab live_count_def
    by (simp split: if_splits)
  show "key_ops t2 = key_ops t" "size_mask t2 = size_mask t" "length (table t2) = length (table t)"
    by (auto simp: t2_def store_entry_def Let_def)
qed

lemma hash_table_insert_spec:
  fixes t :: "('w::len, 'k, 'v::zero) hash_table"
  assumes inv: "ht_inv t" and room: "ht_room (Suc n) t"
  shows "\<exists>t'. hash_table_insert t key v = Some (t', case ht_map t key of None \<Rightarrow> 0 | Some v \<Rightarrow> v) \<and>
    ht_inv t' \<and> ht_map t' = (ht_map t)(key \<mapsto> v) \<and> key_ops t' = key_ops t \<and> ht_room n t'"
proof -
  obtain r f where run: "lookup t key (compute_hash (key_ops t) key) = Some (r, f)"
    and ok: "lookup_ok t key r f"
    using lookup_spec [OF inv] by blast
  define t2 where "t2 = store_entry t key (compute_hash (key_ops t) key) v r f"
  note t2 = store_entry_spec [OF inv ok, of v, folded t2_def]
  have old: "te_value (table t ! r) = (case ht_map t key of None \<Rightarrow> 0 | Some v \<Rightarrow> v)"
    using ok by (auto simp: lookup_ok_def split: option.splits)
  have ins: "hash_table_insert t key v =
      (if 3 * entries t2 \<ge> 2 * unat (size_mask t2)
       then map_option (\<lambda>t3. (t3, te_value (table t ! r))) (resize_table t2 0)
       else Some (t2, te_value (table t ! r)))"
    by (simp add: hash_table_insert_def run Let_def t2_def)
  show ?thesis
  proof (cases "3 * entries t2 \<ge> 2 * unat (size_mask t2)")
    case False
    then have "ht_inv t2" using t2 by (simp add: ht_inv_def)
    moreover have "ht_room n t2" using room t2(7,8) by (simp add: ht_room_def)
    ultimately show ?thesis using False ins old t2 by simp
  next
    case True
    have w: "3 < LENGTH('w)" using tab_inv_size [OF ht_invD(1) [OF inv]] by (elim size_okE) simp
    have live: "16 * (live_count (table t2) + n) \<le> 2 ^ LENGTH('w)"
      using room t2(8) by (simp add: ht_room_def)
    then have fits: "2 * max 0 (2 * live_count (table t2)) \<le> 2 ^ LENGTH('w)" by simp
    have "\<exists>t3. resize_table t2 0 = Some t3 \<and> ht_inv t3 \<and> ht_map t3 = ht_map t2 \<and>
        key_ops t3 = key_ops t2 \<and> deleted t3 = 0 \<and> entries t3 = live_count (table t2) \<and>
        (length (table t3) = 8 \<or> length (table t3) < 2 * max 0 (2 * live_count (table t2)))"
      using t2(1) by (intro resize_table_spec t2(2,3) fits w) (simp add: t2)
    then obtain t3 where t3: "resize_table t2 0 = Some t3" "ht_inv t3" "ht_map t3 = ht_map t2"
      "key_ops t3 = key_ops t2" "deleted t3 = 0" "entries t3 = live_count (table t2)"
      "length (table t3) = 8 \<or> length (table t3) < 4 * live_count (table t2)" by auto
    have "live_count (table t3) = live_count (table t2)"
      using t3(2,5,6) used_live_dead [of "table t3"] by (simp add: ht_inv_def)
    moreover have "8 \<le> length (table t)"
    proof -
      from tab_inv_size [OF ht_invD(1) [OF inv]] obtain k where k: "3 \<le> k" "length (table t) = 2 ^ k"
        by (rule size_okE)
      have "(2 :: nat) ^ 3 \<le> 2 ^ k" using k(1) by (rule power_increasing) simp
      with k(2) show ?thesis by simp
    qed
    ultimately have "ht_room n t3"
      using t3(7) room live by (auto simp: ht_room_def)
    with True ins old t2 t3 show ?thesis by auto
  qed
qed

lemma hash_table_create_spec:
  fixes ops :: "('w::len, 'k) hash_table_ops"
  assumes "3 < LENGTH('w)"
  shows "ht_inv (hash_table_create_generic ops :: ('w, 'k, 'v::zero) hash_table)"
    "ht_map (hash_table_create_generic ops :: ('w, 'k, 'v) hash_table) = Map.empty"
proof -
  have 8: "(8 :: nat) = 2 ^ 3" by simp
  have mask: "(word_of_nat (INITIAL_SIZE - 1) :: 'w word) = mask 3"
    unfolding INITIAL_SIZE_def 8 by (rule mask_word_of_nat)
  show "ht_inv (hash_table_create_generic ops :: ('w, 'k, 'v) hash_table)"
    using fresh_table_inv [of 3, OF _ assms, of ops] unat_mask_less [OF assms]
    unfolding ht_inv_def hash_table_create_generic_def mask by (simp add: INITIAL_SIZE_def)
  show "ht_map (hash_table_create_generic ops :: ('w, 'k, 'v) hash_table) = Map.empty"
    by (simp add: ht_map_def hash_table_create_generic_def)
qed


lemma hash_table_create_room:
  fixes ops :: "('w::len, 'k) hash_table_ops"
  assumes "16 * (n + 2) \<le> 2 ^ LENGTH('w)"
  shows "ht_room n (hash_table_create_generic ops :: ('w, 'k, 'v::zero) hash_table)"
  using assms
  by (simp add: ht_room_def hash_table_create_generic_def live_count_def INITIAL_SIZE_def
      null_entry_def empty_entry_def EMPTY_HASH_def)

interpretation ht: assoc_table_delete hash_table_insert hash_table_lookup hash_table_lookup_bool
  ht_inv ht_room ht_map hash_table_delete
proof
  fix t :: "('w::len, 'k, 'v::zero) hash_table" and n k v
  assume inv: "ht_inv t"
  show "hash_table_lookup t k = Some (case ht_map t k of None \<Rightarrow> 0 | Some v \<Rightarrow> v)"
    "hash_table_lookup_bool t k = Some (case ht_map t k of None \<Rightarrow> (0, False) | Some v \<Rightarrow> (v, True))"
    by (fact hash_table_lookup_spec [OF inv])+
  show "\<exists>t'. hash_table_delete t k = Some (t', case ht_map t k of None \<Rightarrow> 0 | Some v \<Rightarrow> v) \<and>
      ht_inv t' \<and> (ht_room n t \<longrightarrow> ht_room n t') \<and> ht_map t' = (ht_map t)(k := None)"
    using hash_table_delete_spec [OF inv] by blast
  show "\<exists>t'. hash_table_insert t k v = Some (t', case ht_map t k of None \<Rightarrow> 0 | Some v \<Rightarrow> v) \<and>
      ht_inv t' \<and> ht_room n t' \<and> ht_map t' = (ht_map t)(k \<mapsto> v)" if "ht_room (Suc n) t"
    using hash_table_insert_spec [OF inv that] by blast
qed

section \<open>Walking the table\<close>

lemma hash_table_walk_live:
  assumes "unat (size_mask t) = length (table t) - 1" "table t \<noteq> []" "ix \<le> length (table t)"
  shows "case hash_table_walk t ix of
      (None, ix') \<Rightarrow> live_pairs (drop ix (table t)) = []
    | (Some kv, ix') \<Rightarrow> ix < ix' \<and> ix' \<le> length (table t) \<and>
        live_pairs (drop ix (table t)) = kv # live_pairs (drop ix' (table t))"
  using assms
proof (induction t ix rule: hash_table_walk.induct)
  case (1 t ix)
  show ?case
  proof (cases "ix < length (table t)")
    case False
    then have "\<not> ix \<le> unat (size_mask t)" using "1.prems" by (cases "table t") auto
    with False show ?thesis
      by (subst hash_table_walk.simps) (simp add: live_pairs_def)
  next
    case True
    then have le: "ix \<le> unat (size_mask t)" using "1.prems" by linarith
    have drop: "drop ix (table t) = table t ! ix # drop (ix + 1) (table t)"
      using True by (simp add: Cons_nth_drop_Suc)
    show ?thesis
    proof (cases "empty_entry (table t ! ix)")
      case live: False
      then have "hash_table_walk t ix = (Some (the (te_key (table t ! ix)), te_value (table t ! ix)), ix + 1)"
        using le by (subst hash_table_walk.simps) (simp add: Let_def)
      with live drop True show ?thesis by (simp add: live_pairs_def)
    next
      case empty: True
      then have step: "hash_table_walk t ix = hash_table_walk t (ix + 1)"
        using le by (subst hash_table_walk.simps) (simp add: Let_def)
      have "live_pairs (drop ix (table t)) = live_pairs (drop (ix + 1) (table t))"
        using drop empty by (simp add: live_pairs_def)
      with "1.IH" [OF le refl] empty "1.prems" True step show ?thesis
        by (auto split: prod.splits option.splits)
    qed
  qed
qed

text \<open>A client's loop \<^verbatim>\<open>while (hash_table_walk(table, &ix, &key, &value))\<close>, with its calls bounded.\<close>

fun walk_all :: "nat \<Rightarrow> ('w::len, 'k, 'v) hash_table \<Rightarrow> nat \<Rightarrow> ('k \<times> 'v) list option" where
  "walk_all 0 t ix = None"
| "walk_all (Suc fuel) t ix =
     (case hash_table_walk t ix of
        (None, _) \<Rightarrow> Some []
      | (Some kv, ix') \<Rightarrow> map_option (\<lambda>kvs. kv # kvs) (walk_all fuel t ix'))"

lemma walk_all_live:
  assumes "unat (size_mask t) = length (table t) - 1" "table t \<noteq> []" "ix \<le> length (table t)"
    and "length (table t) - ix < fuel"
  shows "walk_all fuel t ix = Some (live_pairs (drop ix (table t)))"
  using assms(3,4)
proof (induction fuel arbitrary: ix)
  case 0
  then show ?case by simp
next
  case (Suc fuel)
  note walk = hash_table_walk_live [OF assms(1,2) Suc.prems(1)]
  show ?case
  proof (cases "hash_table_walk t ix")
    case (Pair r ix')
    with walk Suc.prems(2) Suc.IH [of ix'] show ?thesis by (cases r) auto
  qed
qed

section \<open>Main results\<close>

text \<open>A fresh table with copied string keys on a 32-bit target, for the concrete instances.\<close>

abbreviation fresh32 :: "(32, string, nat) hash_table" where
  "fresh32 \<equiv> hash_table_create ucast True"

lemma fresh32_spec: "ht_inv fresh32" "ht_map fresh32 = Map.empty"
  by (simp_all add: hash_table_create_def hash_table_create_spec)

text \<open>
  C30: on every table in a consistent state the probe loop of \<open>lookup\<close> ends and returns the value
  stored under the key, or \<^verbatim>\<open>NULL\<close> and \<^verbatim>\<open>found == false\<close> when the key is absent.
\<close>

theorem hash_table_lookup_correct:
  assumes "ht_inv t"
  shows "hash_table_lookup_bool t key =
    Some (case ht_map t key of None \<Rightarrow> (0, False) | Some v \<Rightarrow> (v, True))"
  using assms by (rule ht.lookup_bool)

theorem hash_table_lookup_correct_witness:
  "hash_table_lookup_bool fresh32 ''PCAP'' = Some (0, False)"
  using hash_table_lookup_correct [OF fresh32_spec(1), of "''PCAP''"] by (simp add: fresh32_spec(2))

text \<open>
  C28: any sequence of insertions, deletions and lookups on a fresh table returns exactly the
  values that the same sequence returns on a finite map, as long as sixteen times the number of
  insertions (plus two) is representable in \<^verbatim>\<open>size_t\<close>; in particular every call returns.
\<close>

theorem hash_table_refines_map:
  fixes ops :: "('w::len, 'k) hash_table_ops" and cs :: "('k, 'v::zero) table_call list"
  assumes "16 * (insert_calls cs + 2) \<le> 2 ^ LENGTH('w)"
  shows "run_table hash_table_insert hash_table_lookup hash_table_delete
    (hash_table_create_generic ops) cs = Some (run_map Map.empty cs)"
proof -
  have w: "3 < LENGTH('w)"
  proof (rule ccontr)
    assume "\<not> 3 < LENGTH('w)"
    then have "(2 :: nat) ^ LENGTH('w) \<le> 2 ^ 3" by (intro power_increasing) simp_all
    with assms show False by simp
  qed
  show ?thesis
    using ht.run_table_map [OF hash_table_create_spec(1) [OF w] hash_table_create_room [OF assms]]
    by (simp add: hash_table_create_spec(2) [OF w])
qed

theorem hash_table_refines_map_witness:
  "run_table hash_table_insert hash_table_lookup hash_table_delete fresh32
    [Insert ''TTLIN1'' 5, Insert ''SEQ1'' 7, Insert ''TTLIN1'' 9, Delete ''SEQ1'', Lookup ''SEQ1'', Lookup ''TTLIN1'']
    = Some [0, 0, 5, 7, 0, 9]"
  unfolding hash_table_create_def
  by (subst hash_table_refines_map) (simp_all add: insert_calls_def)

text \<open>
  Resizing a consistent table to any minimum size whose double is representable returns,
  keeps every association, removes all tombstones and leaves a consistent table whose count is
  unchanged.
\<close>

theorem hash_table_resize_correct:
  fixes t :: "('w::len, 'k, 'v::zero) hash_table"
  assumes "ht_inv t" "2 * max min_size (2 * hash_table_count t) \<le> 2 ^ LENGTH('w)"
  shows "\<exists>t'. hash_table_resize t min_size = Some t' \<and> ht_inv t' \<and> ht_map t' = ht_map t \<and>
    deleted t' = 0 \<and> hash_table_count t' = hash_table_count t"
proof -
  have count: "hash_table_count t = live_count (table t)"
    using assms(1) used_live_dead [of "table t"] by (simp add: hash_table_count_def ht_inv_def)
  have "3 < LENGTH('w)"
    using tab_inv_size [OF ht_invD(1) [OF assms(1)]] by (elim size_okE) simp
  then have "\<exists>t'. resize_table t min_size = Some t' \<and> ht_inv t' \<and> ht_map t' = ht_map t \<and>
      key_ops t' = key_ops t \<and> deleted t' = 0 \<and> entries t' = live_count (table t) \<and>
      (length (table t') = 8 \<or> length (table t') < 2 * max min_size (2 * live_count (table t)))"
    using assms count by (intro resize_table_spec) (auto simp: ht_inv_def)
  then show ?thesis
    unfolding hash_table_resize_def count by (auto simp: hash_table_count_def)
qed

theorem hash_table_resize_correct_witness:
  "\<exists>t'. hash_table_resize fresh32 100 = Some t' \<and> ht_inv t' \<and> ht_map t' = Map.empty \<and> deleted t' = 0 \<and>
    hash_table_count t' = hash_table_count fresh32"
proof -
  have "hash_table_count fresh32 = 0"
    by (simp add: hash_table_create_def hash_table_create_generic_def hash_table_count_def)
  then show ?thesis
    using hash_table_resize_correct [OF fresh32_spec(1), of 100] by (simp add: fresh32_spec(2))
qed

text \<open>
  Walking a consistent table from position zero visits every association of the table, each
  exactly once, and then ends.
\<close>

theorem hash_table_walk_complete:
  assumes "ht_inv t"
  shows "\<exists>kvs. walk_all (length (table t) + 1) t 0 = Some kvs \<and>
    distinct (map fst kvs) \<and> map_of kvs = ht_map t"
proof -
  note ti = ht_invD(1) [OF assms]
  have "table t \<noteq> []"
    using tab_inv_size [OF ti] by (auto elim: size_okE)
  then have "walk_all (length (table t) + 1) t 0 = Some (live_pairs (table t))"
    using walk_all_live [of t 0 "length (table t) + 1"] ht_invD(4) [OF assms] by (simp del: walk_all.simps)
  moreover have "distinct (map fst (live_pairs (table t)))"
  proof -
    have "distinct (map (\<lambda>e. the (te_key e)) (filter (\<lambda>e. \<not> empty_entry e) (table t)))"
    proof (rule distinct_map_filter)
      fix i j assume ij: "i < length (table t)" "j < length (table t)" "i \<noteq> j"
        "\<not> empty_entry (table t ! i)" "\<not> empty_entry (table t ! j)"
      with tab_inv_key(2) [OF ti] obtain k k' where "te_key (table t ! i) = Some k" "te_key (table t ! j) = Some k'"
        by blast
      with ij tab_inv_unique [OF ti ij(1,2)] show "the (te_key (table t ! i)) \<noteq> the (te_key (table t ! j))"
        by auto
    qed
    then show ?thesis by (simp add: live_pairs_def comp_def)
  qed
  ultimately show ?thesis by (simp add: ht_map_def)
qed

theorem hash_table_walk_complete_witness:
  "\<exists>kvs. walk_all (length (table fresh32) + 1) fresh32 0 = Some kvs \<and> map_of kvs = Map.empty"
  using hash_table_walk_complete [OF fresh32_spec(1)] fresh32_spec(2) by metis

end
