(* ===== verification/Panda_Utf8.thy ===== *)
theory Panda_Utf8
  imports Panda_Prelude
begin

text \<open>
  \<^verbatim>\<open>utf8_check.c\<close>: the scan for the first malformed octet sequence, and its agreement with the
  standard encoding of code points.
\<close>

section \<open>The validator\<close>

definition byte_at :: "u8 list \<Rightarrow> nat \<Rightarrow> u8" where
  "byte_at s i = (if i < length s then s ! i else 0)"

text \<open>
  One turn of the loop of \<^verbatim>\<open>utf8_check\<close>: the number of octets of a well-formed character, or 0
  where the loop breaks.
\<close>

definition utf8_char :: "u8 list \<Rightarrow> nat" where
  "utf8_char s =
     (if byte_at s 0 < 0x80 then 1
      else if byte_at s 0 AND 0xe0 = 0xc0 then
        (if byte_at s 1 AND 0xc0 \<noteq> 0x80 \<or> byte_at s 0 AND 0xfe = 0xc0 then 0 else 2)
      else if byte_at s 0 AND 0xf0 = 0xe0 then
        (if byte_at s 1 AND 0xc0 \<noteq> 0x80 \<or> byte_at s 2 AND 0xc0 \<noteq> 0x80 \<or>
            (byte_at s 0 = 0xe0 \<and> byte_at s 1 AND 0xe0 = 0x80) \<or>
            (byte_at s 0 = 0xed \<and> byte_at s 1 AND 0xe0 = 0xa0) \<or>
            (byte_at s 0 = 0xef \<and> byte_at s 1 = 0xbf \<and> byte_at s 2 AND 0xfe = 0xbe)
         then 0 else 3)
      else if byte_at s 0 AND 0xf8 = 0xf0 then
        (if byte_at s 1 AND 0xc0 \<noteq> 0x80 \<or> byte_at s 2 AND 0xc0 \<noteq> 0x80 \<or>
            byte_at s 3 AND 0xc0 \<noteq> 0x80 \<or>
            (byte_at s 0 = 0xf0 \<and> byte_at s 1 AND 0xf0 = 0x80) \<or>
            (byte_at s 0 = 0xf4 \<and> byte_at s 1 > 0x8f) \<or> byte_at s 0 > 0xf4
         then 0 else 4)
      else 0)"

function utf8_check :: "u8 list \<Rightarrow> u8 list" where
  "utf8_check s =
     (if byte_at s 0 = 0 \<or> utf8_char s = 0 then s else utf8_check (drop (utf8_char s) s))"
  by auto
termination
  by (relation "measure length") (auto simp: byte_at_def split: if_splits)

declare utf8_check.simps [simp del]

section \<open>Which octet strings are UTF-8\<close>

text \<open>The standard encoding, and the code points that the validator lets through.\<close>

definition utf8_encode :: "nat \<Rightarrow> u8 list" where
  "utf8_encode cp =
     map word_of_nat
      (if cp < 0x80 then [cp]
       else if cp < 0x800 then [0xc0 + cp div 64, 0x80 + cp mod 64]
       else if cp < 0x10000 then [0xe0 + cp div 4096, 0x80 + cp div 64 mod 64, 0x80 + cp mod 64]
       else [0xf0 + cp div 262144, 0x80 + cp div 4096 mod 64, 0x80 + cp div 64 mod 64, 0x80 + cp mod 64])"

definition valid_code_point :: "nat \<Rightarrow> bool" where
  "valid_code_point cp =
     (0 < cp \<and> cp < 0x110000 \<and> \<not> (0xd800 \<le> cp \<and> cp < 0xe000) \<and> cp \<noteq> 0xfffe \<and> cp \<noteq> 0xffff)"

lemma u8_allI:
  assumes "list_all (\<lambda>n. P (word_of_nat n :: u8)) [0..<256]"
  shows "P x"
proof -
  have "unat x \<in> set [0..<256]" by simp
  with assms have "P (word_of_nat (unat x))" by (metis list_all_iff)
  then show ?thesis by simp
qed

lemma and_e0_c0: "(x :: u8) AND 0xe0 = 0xc0 \<longleftrightarrow> 0xc0 \<le> unat x \<and> unat x < 0xe0"
  by (rule u8_allI [where x = x]) code_simp

lemma and_f0_e0: "(x :: u8) AND 0xf0 = 0xe0 \<longleftrightarrow> 0xe0 \<le> unat x \<and> unat x < 0xf0"
  by (rule u8_allI [where x = x]) code_simp

lemma and_f8_f0: "(x :: u8) AND 0xf8 = 0xf0 \<longleftrightarrow> 0xf0 \<le> unat x \<and> unat x < 0xf8"
  by (rule u8_allI [where x = x]) code_simp

lemma and_c0_80: "(x :: u8) AND 0xc0 = 0x80 \<longleftrightarrow> 0x80 \<le> unat x \<and> unat x < 0xc0"
  by (rule u8_allI [where x = x]) code_simp

lemma and_fe_c0: "(x :: u8) AND 0xfe = 0xc0 \<longleftrightarrow> 0xc0 \<le> unat x \<and> unat x < 0xc2"
  by (rule u8_allI [where x = x]) code_simp

lemma and_e0_80: "(x :: u8) AND 0xe0 = 0x80 \<longleftrightarrow> 0x80 \<le> unat x \<and> unat x < 0xa0"
  by (rule u8_allI [where x = x]) code_simp

lemma and_e0_a0: "(x :: u8) AND 0xe0 = 0xa0 \<longleftrightarrow> 0xa0 \<le> unat x \<and> unat x < 0xc0"
  by (rule u8_allI [where x = x]) code_simp

lemma and_fe_be: "(x :: u8) AND 0xfe = 0xbe \<longleftrightarrow> 0xbe \<le> unat x \<and> unat x < 0xc0"
  by (rule u8_allI [where x = x]) code_simp

lemma and_f0_80: "(x :: u8) AND 0xf0 = 0x80 \<longleftrightarrow> 0x80 \<le> unat x \<and> unat x < 0x90"
  by (rule u8_allI [where x = x]) code_simp

lemma u8_eq_unat: "(x :: u8) = y \<longleftrightarrow> unat x = unat y"
  by (simp add: word_unat_eq_iff)

lemma unat_u8_numeral: "unat (numeral k :: u8) = numeral k mod 256"
  by (simp add: unsigned_numeral take_bit_eq_mod)

lemmas octet_tests = and_e0_c0 and_f0_e0 and_f8_f0 and_c0_80 and_fe_c0 and_e0_80 and_e0_a0 and_fe_be
  and_f0_80

lemma utf8_char_nat:
  assumes "a = unat (byte_at s 0)" "b = unat (byte_at s 1)" "c = unat (byte_at s 2)"
    "d = unat (byte_at s 3)"
  shows "utf8_char s =
     (if a < 0x80 then 1
      else if 0xc2 \<le> a \<and> a < 0xe0 \<and> 0x80 \<le> b \<and> b < 0xc0 then 2
      else if 0xe0 \<le> a \<and> a < 0xf0 \<and> 0x80 \<le> b \<and> b < 0xc0 \<and> 0x80 \<le> c \<and> c < 0xc0 \<and>
        \<not> (a = 0xe0 \<and> b < 0xa0) \<and> \<not> (a = 0xed \<and> 0xa0 \<le> b) \<and> \<not> (a = 0xef \<and> b = 0xbf \<and> 0xbe \<le> c)
      then 3
      else if 0xf0 \<le> a \<and> a \<le> 0xf4 \<and> 0x80 \<le> b \<and> b < 0xc0 \<and> 0x80 \<le> c \<and> c < 0xc0 \<and>
        0x80 \<le> d \<and> d < 0xc0 \<and> \<not> (a = 0xf0 \<and> b < 0x90) \<and> \<not> (a = 0xf4 \<and> b > 0x8f)
      then 4 else 0)"
  unfolding utf8_char_def octet_tests assms
  by (simp add: u8_eq_unat word_less_nat_alt) arith?

lemma if_member: "x \<in> A \<Longrightarrow> y \<in> A \<Longrightarrow> (if c then x else y) \<in> A"
  by simp

lemma utf8_char_le: "utf8_char s \<in> {0, 1, 2, 3, 4}"
  unfolding utf8_char_def by (intro if_member) simp_all

lemma utf8_char_cases [consumes 2, case_names 1 2 3 4]:
  assumes "byte_at s 0 \<noteq> 0" "utf8_char s \<noteq> 0"
  obtains a where "utf8_char s = 1" "unat (byte_at s 0) = a" "0 < a" "a < 0x80"
  | a b where "utf8_char s = 2" "unat (byte_at s 0) = 0xc0 + a" "unat (byte_at s 1) = 0x80 + b"
      "2 \<le> a" "a < 32" "b < 64"
  | a b c where "utf8_char s = 3" "unat (byte_at s 0) = 0xe0 + a" "unat (byte_at s 1) = 0x80 + b"
      "unat (byte_at s 2) = 0x80 + c" "a < 16" "b < 64" "c < 64" "a = 0 \<longrightarrow> 32 \<le> b" "a = 13 \<longrightarrow> b < 32"
      "a = 15 \<and> b = 63 \<longrightarrow> c < 62"
  | a b c d where "utf8_char s = 4" "unat (byte_at s 0) = 0xf0 + a" "unat (byte_at s 1) = 0x80 + b"
      "unat (byte_at s 2) = 0x80 + c" "unat (byte_at s 3) = 0x80 + d"
      "a < 5" "b < 64" "c < 64" "d < 64" "a = 0 \<longrightarrow> 16 \<le> b" "a = 4 \<longrightarrow> b < 16"
proof -
  define a b c d where abcd: "a = unat (byte_at s 0)" "b = unat (byte_at s 1)"
    "c = unat (byte_at s 2)" "d = unat (byte_at s 3)"
  have a0: "0 < a" using assms(1) by (simp add: abcd u8_eq_unat)
  note char = utf8_char_nat [OF abcd]
  have "utf8_char s = 1 \<or> utf8_char s = 2 \<or> utf8_char s = 3 \<or> utf8_char s = 4"
    using assms(2) utf8_char_le [of s] by simp
  then consider "utf8_char s = 1" | "utf8_char s = 2" | "utf8_char s = 3" | "utf8_char s = 4"
    by blast
  then show thesis
  proof cases
    case 1
    then have "a < 0x80" by (simp add: char split: if_splits)
    with 1 a0 show thesis using that(1) abcd(1) by simp
  next
    case 2
    then have "0xc2 \<le> a \<and> a < 0xe0 \<and> 0x80 \<le> b \<and> b < 0xc0"
      by (simp add: char split: if_splits)
    with 2 show thesis by (intro that(2) [of "a - 0xc0" "b - 0x80"]) (auto simp: abcd [symmetric, unfolded One_nat_def])
  next
    case 3
    then have "0xe0 \<le> a \<and> a < 0xf0 \<and> 0x80 \<le> b \<and> b < 0xc0 \<and> 0x80 \<le> c \<and> c < 0xc0 \<and>
        \<not> (a = 0xe0 \<and> b < 0xa0) \<and> \<not> (a = 0xed \<and> 0xa0 \<le> b) \<and> \<not> (a = 0xef \<and> b = 0xbf \<and> 0xbe \<le> c)"
      by (simp add: char split: if_splits)
    with 3 show thesis
      by (intro that(3) [of "a - 0xe0" "b - 0x80" "c - 0x80"]) (auto simp: abcd [symmetric, unfolded One_nat_def])
  next
    case 4
    then have "0xf0 \<le> a \<and> a \<le> 0xf4 \<and> 0x80 \<le> b \<and> b < 0xc0 \<and> 0x80 \<le> c \<and> c < 0xc0 \<and>
        0x80 \<le> d \<and> d < 0xc0 \<and> \<not> (a = 0xf0 \<and> b < 0x90) \<and> \<not> (a = 0xf4 \<and> b > 0x8f)"
      by (simp add: char split: if_splits)
    with 4 show thesis
      by (intro that(4) [of "a - 0xf0" "b - 0x80" "c - 0x80" "d - 0x80"]) (auto simp: abcd [symmetric, unfolded One_nat_def])
  qed
qed

lemma unat_word_of_nat_u8: "n < 256 \<Longrightarrow> unat (word_of_nat n :: u8) = n"
  by (simp add: unsigned_of_nat take_bit_nat_eq_self)

lemma byte_at_length: "byte_at s i \<noteq> 0 \<Longrightarrow> i < length s"
  by (simp add: byte_at_def split: if_splits)

lemma take_byte_at:
  "byte_at s (n - 1) \<noteq> 0 \<Longrightarrow> take n s = map (\<lambda>i. word_of_nat (unat (byte_at s i))) [0..<n]"
  using byte_at_length [of s "n - 1"] by (auto intro!: nth_equalityI simp: byte_at_def)

lemma upt_4: "[0..<1] = [0 :: nat]" "[0..<2] = [0, 1 :: nat]" "[0..<3] = [0, 1, 2 :: nat]"
  "[0..<4] = [0, 1, 2, 3 :: nat]"
  by (simp_all add: upt_rec)

lemma div_mod_64:
  "b < 64 \<Longrightarrow> (64 * a + b) div 64 = (a :: nat)" "b < 64 \<Longrightarrow> (64 * a + b) mod 64 = (b :: nat)"
  "n div 4096 = n div 64 div (64 :: nat)" "n div 262144 = n div 64 div 64 div (64 :: nat)"
  by (simp_all add: div_mult2_eq [symmetric])

lemma utf8_encode_digits:
  "a < 0x80 \<Longrightarrow> utf8_encode a = map word_of_nat [a]"
  "2 \<le> a \<Longrightarrow> a < 32 \<Longrightarrow> b < 64 \<Longrightarrow> utf8_encode (64 * a + b) = map word_of_nat [0xc0 + a, 0x80 + b]"
  "a < 16 \<Longrightarrow> b < 64 \<Longrightarrow> c < 64 \<Longrightarrow> a = 0 \<longrightarrow> 32 \<le> b \<Longrightarrow>
     utf8_encode (64 * (64 * a + b) + c) = map word_of_nat [0xe0 + a, 0x80 + b, 0x80 + c]"
  "b < 64 \<Longrightarrow> c < 64 \<Longrightarrow> d < 64 \<Longrightarrow> a = 0 \<longrightarrow> 16 \<le> b \<Longrightarrow>
     utf8_encode (64 * (64 * (64 * a + b) + c) + d) =
     map word_of_nat [0xf0 + a, 0x80 + b, 0x80 + c, 0x80 + d]"
proof -
  show "utf8_encode a = map word_of_nat [a]" if "a < 0x80"
    using that by (simp add: utf8_encode_def)
  show "utf8_encode (64 * a + b) = map word_of_nat [0xc0 + a, 0x80 + b]"
    if "2 \<le> a" "a < 32" "b < 64"
  proof -
    have "(64 * a + b) div 64 = a" "(64 * a + b) mod 64 = b" "\<not> 64 * a + b < 0x80" "64 * a + b < 0x800"
      using that by simp_all
    then show ?thesis unfolding utf8_encode_def by (simp only: if_True if_False)
  qed
  show "utf8_encode (64 * (64 * a + b) + c) = map word_of_nat [0xe0 + a, 0x80 + b, 0x80 + c]"
    if "a < 16" "b < 64" "c < 64" "a = 0 \<longrightarrow> 32 \<le> b"
  proof -
    let ?cp = "64 * (64 * a + b) + c"
    have "?cp div 4096 = a" "?cp div 64 mod 64 = b" "?cp mod 64 = c"
      using that by (simp_all only: div_mod_64)
    moreover have "\<not> ?cp < 0x80" "\<not> ?cp < 0x800" "?cp < 0x10000"
      using that by (cases "a = 0"; simp)+
    ultimately show ?thesis unfolding utf8_encode_def by (simp only: if_True if_False)
  qed
  show "utf8_encode (64 * (64 * (64 * a + b) + c) + d) =
     map word_of_nat [0xf0 + a, 0x80 + b, 0x80 + c, 0x80 + d]"
    if "b < 64" "c < 64" "d < 64" "a = 0 \<longrightarrow> 16 \<le> b"
  proof -
    let ?cp = "64 * (64 * (64 * a + b) + c) + d"
    have "?cp div 262144 = a" "?cp div 4096 mod 64 = b" "?cp div 64 mod 64 = c" "?cp mod 64 = d"
      using that by (simp_all only: div_mod_64)
    moreover have "\<not> ?cp < 0x80" "\<not> ?cp < 0x800" "\<not> ?cp < 0x10000"
      using that by (cases "a = 0"; simp)+
    ultimately show ?thesis unfolding utf8_encode_def by (simp only: if_True if_False)
  qed
qed

lemma utf8_char_sound:
  assumes "byte_at s 0 \<noteq> 0" "utf8_char s \<noteq> 0"
  shows "\<exists>cp. take (utf8_char s) s = utf8_encode cp \<and> valid_code_point cp"
  using assms
proof (cases rule: utf8_char_cases)
  case (1 a)
  then have "take 1 s = utf8_encode a"
    by (subst take_byte_at) (auto simp: utf8_encode_digits u8_eq_unat)
  with 1 show ?thesis by (auto simp: valid_code_point_def)
next
  case (2 a b)
  then have "take 2 s = map word_of_nat [0xc0 + a, 0x80 + b]"
    by (subst take_byte_at) (simp_all add: u8_eq_unat upt_4 unat_word_of_nat_u8 del: of_nat_add)
  also have "\<dots> = utf8_encode (64 * a + b)"
    using 2 by (simp only: utf8_encode_digits)
  finally have "take 2 s = utf8_encode (64 * a + b)" .
  with 2 show ?thesis by (intro exI [of _ "64 * a + b"]) (auto simp: valid_code_point_def)
next
  case (3 a b c)
  then have "take 3 s = map word_of_nat [0xe0 + a, 0x80 + b, 0x80 + c]"
    by (subst take_byte_at) (simp_all add: u8_eq_unat upt_4 unat_word_of_nat_u8 del: of_nat_add)
  also have "\<dots> = utf8_encode (64 * (64 * a + b) + c)"
    using 3 by (simp only: utf8_encode_digits)
  finally have "take 3 s = utf8_encode (64 * (64 * a + b) + c)" .
  moreover have "valid_code_point (64 * (64 * a + b) + c)"
  proof -
    let ?x = "64 * (64 * a + b) + c"
    have "0 < ?x" using 3(8) by (cases "a = 0") simp_all
    moreover have "?x < 0xd800 \<or> 0xe000 \<le> ?x"
    proof -
      consider "a < 13" | "a = 13" | "13 < a" by linarith
      then show ?thesis using 3(6,7,9) by cases simp_all
    qed
    moreover have "?x < 0xfffe"
    proof -
      consider "a < 15" | "a = 15" "b < 63" | "a = 15" "b = 63" "c < 62" using 3(5,6,10) by linarith
      then show ?thesis using 3(6,7) by cases simp_all
    qed
    ultimately show ?thesis unfolding valid_code_point_def by linarith
  qed
  ultimately show ?thesis using 3(1) by auto
next
  case (4 a b c d)
  then have "take 4 s = map word_of_nat [0xf0 + a, 0x80 + b, 0x80 + c, 0x80 + d]"
    by (subst take_byte_at) (simp_all add: u8_eq_unat upt_4 unat_word_of_nat_u8 del: of_nat_add)
  also have "\<dots> = utf8_encode (64 * (64 * (64 * a + b) + c) + d)"
    using 4 by (simp only: utf8_encode_digits)
  finally have "take 4 s = utf8_encode (64 * (64 * (64 * a + b) + c) + d)" .
  moreover have "valid_code_point (64 * (64 * (64 * a + b) + c) + d)"
  proof -
    let ?x = "64 * (64 * (64 * a + b) + c) + d"
    have "0x10000 \<le> ?x" using 4(10) by (cases "a = 0") simp_all
    moreover have "?x < 0x110000"
    proof -
      consider "a < 4" | "a = 4" "b < 16" using 4(6,11) by linarith
      then show ?thesis using 4(7-9) by cases simp_all
    qed
    ultimately show ?thesis unfolding valid_code_point_def by linarith
  qed
  ultimately show ?thesis using 4(1) by auto
qed

lemma utf8_char_complete:
  assumes "valid_code_point cp"
  shows "utf8_char (utf8_encode cp @ t) = length (utf8_encode cp)"
    and "byte_at (utf8_encode cp @ t) 0 \<noteq> 0"
proof -
  consider (1) "cp < 0x80" | (2) "0x80 \<le> cp" "cp < 0x800" | (3) "0x800 \<le> cp" "cp < 0x10000" | (4) "0x10000 \<le> cp"
    by linarith
  then have "utf8_char (utf8_encode cp @ t) = length (utf8_encode cp) \<and> byte_at (utf8_encode cp @ t) 0 \<noteq> 0"
  proof cases
    case 1
    with assms show ?thesis
      by (simp add: utf8_encode_digits utf8_char_nat [OF refl refl refl refl] byte_at_def
        unat_word_of_nat_u8 valid_code_point_def u8_eq_unat)
  next
    case 2
    define a b where ab: "a = cp div 64" "b = cp mod 64"
    have cp: "cp = 64 * a + b" and r: "2 \<le> a" "a < 32" "b < 64" using 2 by (simp_all add: ab)
    have "utf8_encode cp = map word_of_nat [0xc0 + a, 0x80 + b]"
      unfolding cp using r by (simp only: utf8_encode_digits)
    with r show ?thesis
      by (simp add: utf8_char_nat [OF refl refl refl refl] byte_at_def unat_word_of_nat_u8 u8_eq_unat
        del: of_nat_add)
  next
    case 3
    define a b c where abc: "a = cp div 64 div 64" "b = cp div 64 mod 64" "c = cp mod 64"
    have cp: "cp = 64 * (64 * a + b) + c" and r: "a < 16" "b < 64" "c < 64" using 3 by (simp_all add: abc)
    have v: "a = 0 \<longrightarrow> 32 \<le> b" "\<not> (a = 13 \<and> 32 \<le> b)" "\<not> (a = 15 \<and> b = 63 \<and> 62 \<le> c)"
      using assms 3 r unfolding valid_code_point_def cp by auto
    have "utf8_encode cp = map word_of_nat [0xe0 + a, 0x80 + b, 0x80 + c]"
      unfolding cp using r v by (simp only: utf8_encode_digits)
    with r v show ?thesis
      by (auto simp: utf8_char_nat [OF refl refl refl refl] byte_at_def unat_word_of_nat_u8 u8_eq_unat
        simp del: of_nat_add)
  next
    case 4
    define a b c d where abcd: "a = cp div 64 div 64 div 64" "b = cp div 64 div 64 mod 64"
      "c = cp div 64 mod 64" "d = cp mod 64"
    have cp: "cp = 64 * (64 * (64 * a + b) + c) + d" and r: "b < 64" "c < 64" "d < 64"
      by (simp_all add: abcd)
    have v: "a < 5" "a = 0 \<longrightarrow> 16 \<le> b" "\<not> (a = 4 \<and> 16 \<le> b)"
      using assms 4 r unfolding valid_code_point_def cp by auto
    have "utf8_encode cp = map word_of_nat [0xf0 + a, 0x80 + b, 0x80 + c, 0x80 + d]"
      unfolding cp using r v by (simp only: utf8_encode_digits)
    with r v show ?thesis
      by (auto simp: utf8_char_nat [OF refl refl refl refl] byte_at_def unat_word_of_nat_u8 u8_eq_unat
        simp del: of_nat_add)
  qed
  then show "utf8_char (utf8_encode cp @ t) = length (utf8_encode cp)"
    "byte_at (utf8_encode cp @ t) 0 \<noteq> 0" by blast+
qed

lemma utf8_check_suffix:
  "\<exists>cps. list_all valid_code_point cps \<and> s = concat (map utf8_encode cps) @ utf8_check s"
proof (induction s rule: utf8_check.induct)
  case (1 s)
  show ?case
  proof (cases "byte_at s 0 = 0 \<or> utf8_char s = 0")
    case True
    then show ?thesis by (intro exI [of _ "[]"]) (simp add: utf8_check.simps [of s])
  next
    case False
    with 1 obtain cps where cps: "list_all valid_code_point cps"
      "drop (utf8_char s) s = concat (map utf8_encode cps) @ utf8_check (drop (utf8_char s) s)" by blast
    from False utf8_char_sound obtain cp where cp: "take (utf8_char s) s = utf8_encode cp"
      "valid_code_point cp" by blast
    have "s = utf8_encode cp @ drop (utf8_char s) s" by (metis append_take_drop_id cp(1))
    moreover have "utf8_check s = utf8_check (drop (utf8_char s) s)"
      using False by (simp add: utf8_check.simps [of s])
    ultimately show ?thesis using cps cp(2) by (intro exI [of _ "cp # cps"]) (auto simp flip: cps(2))
  qed
qed

lemma utf8_encode_nonempty: "utf8_encode cp \<noteq> []"
  by (simp add: utf8_encode_def)

lemma utf8_check_encoded:
  "list_all valid_code_point cps \<Longrightarrow> utf8_check (concat (map utf8_encode cps) @ t) = utf8_check t"
proof (induction cps)
  case (Cons cp cps)
  then show ?case
    using utf8_char_complete [of cp "concat (map utf8_encode cps) @ t"]
    by (simp add: utf8_check.simps [of "utf8_encode cp @ _"] utf8_encode_nonempty)
qed simp

text \<open>
  C39: the validator reaches the end of a string exactly when the string is the UTF-8 encoding of
  a sequence of code points between U+0001 and U+10FFFF, surrogates and the two non-characters
  U+FFFE and U+FFFF excepted.
\<close>

theorem utf8_check_correct:
  "utf8_check s = [] \<longleftrightarrow> (\<exists>cps. list_all valid_code_point cps \<and> s = concat (map utf8_encode cps))"
proof
  assume "utf8_check s = []"
  then show "\<exists>cps. list_all valid_code_point cps \<and> s = concat (map utf8_encode cps)"
    using utf8_check_suffix [of s] by simp
next
  assume "\<exists>cps. list_all valid_code_point cps \<and> s = concat (map utf8_encode cps)"
  then obtain cps where "list_all valid_code_point cps" "s = concat (map utf8_encode cps)" by blast
  then show "utf8_check s = []"
    using utf8_check_encoded [of cps "[]"] by (simp add: utf8_check.simps [of "[]"] byte_at_def)
qed

end
