(* ===== verification/Panda_Parse.thy ===== *)
theory Panda_Parse
  imports Panda_Utf8
begin

text \<open>
  \<^verbatim>\<open>parse.c\<close>: the string scanners that every command and database line goes
  through, the C library's integer conversions they rest on, and the parser of
  indented files.
\<close>

section \<open>Character classes of the C locale\<close>

definition is_ascii :: "char \<Rightarrow> bool" where
  "is_ascii c = ((of_char c :: nat) < 128)"

definition is_digit :: "char \<Rightarrow> bool" where
  "is_digit c = (48 \<le> (of_char c :: nat) \<and> (of_char c :: nat) \<le> 57)"

definition is_upper :: "char \<Rightarrow> bool" where
  "is_upper c = (65 \<le> (of_char c :: nat) \<and> (of_char c :: nat) \<le> 90)"

definition is_lower :: "char \<Rightarrow> bool" where
  "is_lower c = (97 \<le> (of_char c :: nat) \<and> (of_char c :: nat) \<le> 122)"

definition is_alpha :: "char \<Rightarrow> bool" where
  "is_alpha c = (is_upper c \<or> is_lower c)"

definition is_space :: "char \<Rightarrow> bool" where
  "is_space c = ((of_char c :: nat) = 32 \<or> 9 \<le> (of_char c :: nat) \<and> (of_char c :: nat) \<le> 13)"

section \<open>Whitespace and names\<close>

fun skip_whitespace :: "string \<Rightarrow> string" where
  "skip_whitespace [] = []"
| "skip_whitespace (c # s) =
     (if c = CHR '' '' \<or> c = CHR 0x09 then skip_whitespace s else c # s)"

definition parse_whitespace :: "unit parser" where
  "parse_whitespace s = (test_ok (length (skip_whitespace s) < length s) ''Whitespace expected'',
     skip_whitespace s)"

definition valid_name_char :: "char \<Rightarrow> bool" where
  "valid_name_char ch = (is_ascii ch \<and> (is_alpha ch \<or> ch = CHR ''_''))"

definition valid_alphanum_char :: "char \<Rightarrow> bool" where
  "valid_alphanum_char ch = (is_ascii ch \<and> (is_alpha ch \<or> ch = CHR ''_'' \<or> is_digit ch))"

text \<open>The copying loop of \<^verbatim>\<open>parse_filtered_name\<close>: the characters copied and what is left.\<close>

fun copy_filtered :: "(char \<Rightarrow> bool) \<Rightarrow> nat \<Rightarrow> string \<Rightarrow> string \<times> string" where
  "copy_filtered filter_char 0 s = ([], s)"
| "copy_filtered filter_char (Suc n) [] = ([], [])"
| "copy_filtered filter_char (Suc n) (c # s) =
     (if filter_char c then (let (name, rest) = copy_filtered filter_char n s in (c # name, rest))
      else ([], c # s))"

definition parse_filtered_name :: "(char \<Rightarrow> bool) \<Rightarrow> nat \<Rightarrow> string parser" where
  "parse_filtered_name filter_char max_length s =
     (let (name, rest) = copy_filtered filter_char max_length s in
      (and_then (test_ok (length name > 0) ''No name found'')
        (\<lambda>_. and_then (test_ok (length name < max_length) ''Name too long'') (\<lambda>_. Inr name)),
       rest))"

definition parse_name :: "nat \<Rightarrow> string parser" where
  "parse_name max_length = parse_filtered_name valid_name_char max_length"

definition parse_alphanum_name :: "nat \<Rightarrow> string parser" where
  "parse_alphanum_name max_length s =
     (if valid_name_char (peek s) then parse_filtered_name valid_alphanum_char max_length s
      else (fail ''No name found'', s))"

text \<open>
  The loop of \<^verbatim>\<open>parse_block_name\<close> that steps back over trailing digits, on the reversed name
  and the rest of the input.  The first character of a name is no digit, so the loop ends inside
  the name.
\<close>

fun strip_digits :: "string \<Rightarrow> string \<Rightarrow> string \<times> string" where
  "strip_digits [] rest = ([], rest)"
| "strip_digits (c # name) rest =
     (if is_digit c then strip_digits name (c # rest) else (rev (c # name), rest))"

definition parse_block_name :: "nat \<Rightarrow> string parser" where
  "parse_block_name max_length s =
     (case parse_alphanum_name max_length s of
        (Inl e, rest) \<Rightarrow> (Inl e, rest)
      | (Inr name, rest) \<Rightarrow> (let (name', rest') = strip_digits (rev name) rest in (Inr name', rest')))"

definition read_char :: "char \<Rightarrow> string \<Rightarrow> bool \<times> string" where
  "read_char ch s = (if s \<noteq> [] \<and> hd s = ch then (True, tl s) else (False, s))"

definition read_string :: "string \<Rightarrow> string \<Rightarrow> bool \<times> string" where
  "read_string expected s =
     (if take (length expected) s = expected then (True, drop (length expected) s) else (False, s))"

definition parse_char :: "char \<Rightarrow> unit parser" where
  "parse_char ch s = (case read_char ch s of (ok, s') \<Rightarrow> (test_ok ok ''Character expected'', s'))"

section \<open>Numbers\<close>

text \<open>
  The conversions \<^verbatim>\<open>strtol\<close>, \<^verbatim>\<open>strtoul\<close> and \<^verbatim>\<open>strtoull\<close> of the C library with base 0.  The
  parameter \<open>lw\<close> is the width of \<^verbatim>\<open>long\<close>: 32 on the target, 64 on the host that runs the
  simulation.
\<close>

definition digit_val :: "char \<Rightarrow> nat option" where
  "digit_val c =
     (if is_digit c then Some (of_char c - 48)
      else if is_upper c then Some (of_char c - 55)
      else if is_lower c then Some (of_char c - 87)
      else None)"

definition is_digit_of :: "nat \<Rightarrow> char \<Rightarrow> bool" where
  "is_digit_of b c = (case digit_val c of None \<Rightarrow> False | Some d \<Rightarrow> d < b)"

fun scan_digits :: "nat \<Rightarrow> nat \<Rightarrow> string \<Rightarrow> nat \<times> string" where
  "scan_digits b acc [] = (acc, [])"
| "scan_digits b acc (c # s) =
     (if is_digit_of b c then scan_digits b (b * acc + the (digit_val c)) s else (acc, c # s))"

fun skip_space :: "string \<Rightarrow> string" where
  "skip_space [] = []"
| "skip_space (c # s) = (if is_space c then skip_space s else c # s)"

definition read_sign :: "string \<Rightarrow> bool \<times> string" where
  "read_sign s = (case s of
     [] \<Rightarrow> (False, s)
   | c # t \<Rightarrow> if c = CHR ''-'' then (True, t) else if c = CHR ''+'' then (False, t) else (False, s))"

text \<open>The digits after an optional prefix: the magnitude and the rest, \<open>None\<close> without a digit.\<close>

definition read_magnitude :: "string \<Rightarrow> (nat \<times> string) option" where
  "read_magnitude s =
     (if peek s = CHR ''0'' then
        (if (peek (drop 1 s) = CHR ''x'' \<or> peek (drop 1 s) = CHR ''X'') \<and>
            is_digit_of 16 (peek (drop 2 s))
         then Some (scan_digits 16 0 (drop 2 s))
         else Some (scan_digits 8 0 s))
      else if is_digit_of 10 (peek s) then Some (scan_digits 10 0 s)
      else None)"

text \<open>
  Result, whether \<^verbatim>\<open>errno\<close> is set to \<^verbatim>\<open>ERANGE\<close>, and the end pointer; with nothing converted the
  end is the start.
\<close>

definition strtoul :: "nat \<Rightarrow> string \<Rightarrow> nat \<times> bool \<times> string" where
  "strtoul lw s =
     (let (neg, t) = read_sign (skip_space s) in
      case read_magnitude t of
        None \<Rightarrow> (0, False, s)
      | Some (m, rest) \<Rightarrow>
          if m \<ge> 2 ^ lw then (2 ^ lw - 1, True, rest)
          else (if neg then (2 ^ lw - m) mod 2 ^ lw else m, False, rest))"

definition strtol :: "nat \<Rightarrow> string \<Rightarrow> int \<times> bool \<times> string" where
  "strtol lw s =
     (let (neg, t) = read_sign (skip_space s) in
      case read_magnitude t of
        None \<Rightarrow> (0, False, s)
      | Some (m, rest) \<Rightarrow>
          if neg then (if m > 2 ^ (lw - 1) then (- (2 ^ (lw - 1)), True, rest) else (- int m, False, rest))
          else (if m \<ge> 2 ^ (lw - 1) then (2 ^ (lw - 1) - 1, True, rest) else (int m, False, rest)))"

definition check_number :: "string \<Rightarrow> string \<Rightarrow> bool \<Rightarrow> unit result" where
  "check_number start end' erange =
     and_then (test_ok (length end' < length start) ''Number missing'')
       (\<lambda>_. test_ok (\<not> erange) ''Error converting number'')"

text \<open>The macro \<^verbatim>\<open>DEFINE_PARSE_NUM\<close>: convert, move the pointer, check.\<close>

definition parse_num :: "(string \<Rightarrow> 'n \<times> bool \<times> string) \<Rightarrow> ('n \<Rightarrow> 'a) \<Rightarrow> 'a parser" where
  "parse_num conv cast s =
     (let (v, erange, end') = conv s in
      (and_then (check_number s end' erange) (\<lambda>_. Inr (cast v)), end'))"

definition parse_int :: "nat \<Rightarrow> u32 parser" where
  "parse_int lw = parse_num (strtol lw) word_of_int"

definition parse_uint :: "nat \<Rightarrow> u32 parser" where
  "parse_uint lw = parse_num (strtoul lw) word_of_nat"

definition parse_uint32 :: "nat \<Rightarrow> u32 parser" where
  "parse_uint32 lw = parse_num (strtoul lw) word_of_nat"

definition parse_uint64 :: "u64 parser" where
  "parse_uint64 = parse_num (strtoul 64) word_of_nat"

definition parse_bit :: "bool parser" where
  "parse_bit s =
     (if peek s = CHR ''0'' \<or> peek s = CHR ''1'' then (Inr (peek s = CHR ''1''), tl s)
      else (fail ''Invalid bit value'', s))"

definition parse_eos :: "unit parser" where
  "parse_eos s = (test_ok (s = []) ''Unexpected character after input'', s)"

fun parse_uint_items :: "nat \<Rightarrow> nat \<Rightarrow> nat \<Rightarrow> u32 list parser" where
  "parse_uint_items lw i 0 s = (Inr [], s)"
| "parse_uint_items lw i (Suc n) s =
     p_then (p_if (i > 0) parse_whitespace ())
       (\<lambda>_. p_then (parse_uint lw)
         (\<lambda>x. p_then (parse_uint_items lw (i + 1) n) (\<lambda>xs. p_return (x # xs)))) s"

definition parse_uint_array :: "nat \<Rightarrow> nat \<Rightarrow> u32 list parser" where
  "parse_uint_array lw len = parse_uint_items lw 0 len"

section \<open>UTF-8 strings\<close>

definition parse_utf8_string :: "string parser" where
  "parse_utf8_string s =
     (let rest = map char_of_byte (utf8_check (map byte_of s)) in
      (and_then (test_ok (rest = []) ''Malformed UTF-8 encoding'') (\<lambda>_. Inr s), rest))"

section \<open>Indented files\<close>

text \<open>
  A handler \<^verbatim>\<open>parse_line\<close> or \<^verbatim>\<open>end\<close> is a code pointer: here a value of a type of names, run by
  the record \<open>indent_methods\<close> on the context and the state \<open>'s\<close> of the client.  \<^verbatim>\<open>parse_line\<close>
  finds \<open>empty_parser\<close> in its last argument and leaves the parser of the sub-lines there.
\<close>

record ('c, 'l, 'e) indent_parser =
  ctxt :: "'c option"
  parse_line :: "'l option"
  end_method :: "'e option"

definition empty_parser :: "('c, 'l, 'e) indent_parser" where
  "empty_parser = \<lparr>ctxt = None, parse_line = None, end_method = None\<rparr>"

record ('c, 'l, 'e, 's) indent_methods =
  call_line :: "'l \<Rightarrow> 'c option \<Rightarrow> string \<Rightarrow> 's \<Rightarrow>
    (unit result \<times> string) \<times> ('c, 'l, 'e) indent_parser \<times> 's"
  call_end :: "'e \<Rightarrow> 'c option \<Rightarrow> 's \<Rightarrow> unit result \<times> 's"

definition MAX_LINE_LENGTH :: nat where "MAX_LINE_LENGTH = 256"

definition MAX_INDENT :: nat where "MAX_INDENT = 10"

text \<open>
  An entry of the indentation stack: its two members, \<open>None\<close> before they are first assigned.
  The operations return \<open>None\<close> where the code would read an unassigned member or leave the array.
\<close>

record ('c, 'l, 'e) indent_state =
  indent :: "nat option"
  parser :: "('c, 'l, 'e) indent_parser option"

type_synonym ('c, 'l, 'e) indent_stack = "('c, 'l, 'e) indent_state list"

definition stack_indent :: "('c, 'l, 'e) indent_stack \<Rightarrow> nat \<Rightarrow> nat option" where
  "stack_indent stack i = (if i < length stack then indent (stack ! i) else None)"

definition stack_parser :: "('c, 'l, 'e) indent_stack \<Rightarrow> nat \<Rightarrow> ('c, 'l, 'e) indent_parser option" where
  "stack_parser stack i = (if i < length stack then parser (stack ! i) else None)"

definition open_indent ::
    "('c, 'l, 'e) indent_stack \<Rightarrow> nat \<Rightarrow> nat \<Rightarrow>
     (unit result \<times> ('c, 'l, 'e) indent_stack \<times> nat) option" where
  "open_indent stack sp ind =
     (if sp < MAX_INDENT then
        (if sp + 1 < length stack
         then Some (Inr (), stack[sp + 1 := (stack ! (sp + 1)) \<lparr>indent := Some ind\<rparr>], sp + 1)
         else None)
      else Some (fail ''Too much indentation'', stack, sp))"

fun close_indents ::
    "('c, 'l, 'e, 's) indent_methods \<Rightarrow> ('c, 'l, 'e) indent_stack \<Rightarrow> nat \<Rightarrow> nat \<Rightarrow> 's \<Rightarrow>
     (unit result \<times> nat \<times> 's) option" where
  "close_indents m stack sp ind s =
     (case stack_parser stack (sp + 1) of
        None \<Rightarrow> None
      | Some p \<Rightarrow>
          (case (case end_method p of None \<Rightarrow> (Inr (), s) | Some e \<Rightarrow> call_end m e (ctxt p) s) of
             (error, s') \<Rightarrow>
               (case stack_indent stack sp of
                  None \<Rightarrow> None
                | Some cur \<Rightarrow>
                    if ind < cur then
                      (case sp of
                         0 \<Rightarrow> None
                       | Suc sp' \<Rightarrow> if is_ok error then close_indents m stack sp' ind s'
                                   else Some (error, sp', s'))
                    else Some (and_then error (\<lambda>_. test_ok (ind = cur) ''Invalid indentation on line''),
                           sp, s'))))"

declare close_indents.simps [simp del]

definition run_parse_line ::
    "('c, 'l, 'e, 's) indent_methods \<Rightarrow> string \<Rightarrow> ('c, 'l, 'e) indent_stack \<Rightarrow> nat \<Rightarrow> 's \<Rightarrow>
     (unit result \<times> string \<times> ('c, 'l, 'e) indent_stack \<times> nat \<times> 's) option" where
  "run_parse_line m line stack sp s =
     (case stack_parser stack sp of
        None \<Rightarrow> None
      | Some p \<Rightarrow>
          if sp + 1 < length stack then
            (case parse_line p of
               None \<Rightarrow> Some (fail ''Cannot parse this indentation'', line,
                 stack[sp + 1 := (stack ! (sp + 1)) \<lparr>parser := Some empty_parser\<rparr>], sp, s)
             | Some l \<Rightarrow>
                 (case call_line m l (ctxt p) line s of
                    ((r, rest), next_parser, s') \<Rightarrow>
                      Some (and_then r (\<lambda>_. fst (parse_eos rest)), rest,
                        stack[sp + 1 := (stack ! (sp + 1)) \<lparr>parser := Some next_parser\<rparr>], sp, s')))
          else None)"

definition parse_one_line ::
    "('c, 'l, 'e, 's) indent_methods \<Rightarrow> string \<Rightarrow> ('c, 'l, 'e) indent_stack \<Rightarrow> nat \<Rightarrow> 's \<Rightarrow>
     (unit result \<times> string \<times> ('c, 'l, 'e) indent_stack \<times> nat \<times> 's) option" where
  "parse_one_line m line_in stack sp s =
     (let line = skip_whitespace line_in; ind = length line_in - length line in
      if peek line \<noteq> CHR ''#'' \<and> line \<noteq> [] then
        (case stack_indent stack sp of
           None \<Rightarrow> None
         | Some cur \<Rightarrow>
             if ind > cur then
               (case open_indent stack sp ind of
                  None \<Rightarrow> None
                | Some (Inl e, stack', sp') \<Rightarrow> Some (Inl e, line, stack', sp', s)
                | Some (Inr _, stack', sp') \<Rightarrow> run_parse_line m line stack' sp' s)
             else
               (case close_indents m stack sp ind s of
                  None \<Rightarrow> None
                | Some (Inl e, sp', s') \<Rightarrow> Some (Inl e, line, stack, sp', s')
                | Some (Inr _, sp', s') \<Rightarrow> run_parse_line m line stack sp' s'))
      else Some (Inr (), line, stack, sp, s))"

text \<open>The reading loop, over the successive results of \<^verbatim>\<open>fgets\<close>.\<close>

fun parse_lines ::
    "('c, 'l, 'e, 's) indent_methods \<Rightarrow> nat \<Rightarrow> string list \<Rightarrow>
     ('c, 'l, 'e) indent_stack \<Rightarrow> nat \<Rightarrow> 's \<Rightarrow> (unit result \<times> nat \<times> nat \<times> nat \<times> 's) option" where
  "parse_lines m line_no [] stack sp s = Some (Inr (), line_no, 0, sp, s)"
| "parse_lines m line_no (line # lines) stack sp s =
     (case parse_one_line m line stack sp s of
        None \<Rightarrow> None
      | Some (Inl e, rest, stack', sp', s') \<Rightarrow>
          Some (Inl e, line_no + 1, length line - length rest + 1, sp', s')
      | Some (Inr _, rest, stack', sp', s') \<Rightarrow> parse_lines m (line_no + 1) lines stack' sp' s')"

text \<open>\<^verbatim>\<open>fgets\<close>: at most \<open>n\<close> characters, up to and including a newline.\<close>

fun fgets :: "nat \<Rightarrow> string \<Rightarrow> string \<times> string" where
  "fgets 0 s = ([], s)"
| "fgets (Suc n) [] = ([], [])"
| "fgets (Suc n) (c # s) =
     (if c = CHR 0x0A then ([c], s) else (let (l, rest) = fgets n s in (c # l, rest)))"

lemma fgets_append: "fgets n s = (l, rest) \<Longrightarrow> s = l @ rest"
  by (induction n s arbitrary: l rule: fgets.induct) (auto split: if_splits prod.splits)

lemma fgets_progress:
  assumes "0 < n" "s \<noteq> []"
  shows "length (snd (fgets n s)) < length s"
proof -
  obtain l rest where e: "fgets n s = (l, rest)" by fastforce
  obtain m c t where "n = Suc m" "s = c # t" using assms by (metis Suc_pred list.exhaust)
  with e have "l \<noteq> []" by (auto split: if_splits prod.splits)
  with fgets_append [OF e] e show ?thesis by simp
qed

definition strip_newline :: "string \<Rightarrow> string" where
  "strip_newline line = takeWhile (\<lambda>c. c \<noteq> CHR 0x0A) line"

function file_lines :: "string \<Rightarrow> string list" where
  "file_lines s =
     (if s = [] then []
      else strip_newline (fst (fgets (MAX_LINE_LENGTH - 1) s)) #
        file_lines (snd (fgets (MAX_LINE_LENGTH - 1) s)))"
  by auto
termination
  by (relation "measure length") (simp_all add: fgets_progress MAX_LINE_LENGTH_def)

declare file_lines.simps [simp del]

definition initial_stack :: "('c, 'l, 'e) indent_parser \<Rightarrow> ('c, 'l, 'e) indent_stack" where
  "initial_stack p =
     \<lparr>indent = Some 0, parser = Some p\<rparr> # \<lparr>indent = Some 0, parser = Some empty_parser\<rparr> #
     replicate MAX_INDENT \<lparr>indent = None, parser = None\<rparr>"

text \<open>The contents of the file are \<open>None\<close> when it cannot be opened.\<close>

definition parse_indented_file ::
    "('c, 'l, 'e, 's) indent_methods \<Rightarrow> string option \<Rightarrow> ('c, 'l, 'e) indent_parser \<Rightarrow> 's \<Rightarrow>
     (unit result \<times> nat \<times> nat \<times> 's) option" where
  "parse_indented_file m contents p s =
     (case contents of
        None \<Rightarrow> Some (fail ''Unable to open file'', 0, 0, s)
      | Some content \<Rightarrow>
          (case parse_lines m 0 (file_lines content) (initial_stack p) 0 s of
             None \<Rightarrow> None
           | Some (Inl e, line_no, column, sp, s') \<Rightarrow>
               Some (Inl (''Parsing line %d of \"%s\" at column %zd'' # e), line_no, column, s')
           | Some (Inr _, line_no, column, sp, s') \<Rightarrow>
               Some (Inr (), line_no, column,
                 case end_method p of
                   None \<Rightarrow> s'
                 | Some e \<Rightarrow> snd (call_end m e (ctxt p) s'))))"

section \<open>Names\<close>

lemma copy_filtered_spec:
  "copy_filtered f n s = (name, rest) \<Longrightarrow>
     s = name @ rest \<and> list_all f name \<and> length name \<le> n \<and>
     (length name < n \<longrightarrow> rest = [] \<or> \<not> f (hd rest))"
  by (induction f n s arbitrary: name rule: copy_filtered.induct) (auto split: if_splits prod.splits)

lemma strip_digits_spec:
  "strip_digits rname rest = (name', rest') \<Longrightarrow>
     \<exists>ds. rev rname @ rest = name' @ rest' \<and> rev rname = name' @ ds \<and> list_all is_digit ds \<and>
       rest' = ds @ rest \<and> (name' = [] \<or> \<not> is_digit (last name'))"
proof (induction rname rest rule: strip_digits.induct)
  case (2 c name rest)
  then show ?case by (cases "is_digit c") fastforce+
qed auto

lemma valid_name_not_digit: "valid_name_char c \<Longrightarrow> \<not> is_digit c"
  by (auto simp: valid_name_char_def is_alpha_def is_upper_def is_lower_def is_digit_def)

text \<open>
  A successful parse of a block name splits the input into the name and the rest; the name is
  not empty, fits the result array with its terminator, starts with a letter or underscore, has
  only letters, digits and underscores, and does not end in a digit, the digits being left for the
  block number.
\<close>

theorem parse_block_name_correct:
  assumes "parse_block_name max_length s = (Inr name, rest)"
  shows "s = name @ rest \<and> 0 < length name \<and> length name < max_length \<and>
    valid_name_char (hd name) \<and> list_all valid_alphanum_char name \<and> \<not> is_digit (last name) \<and>
    (\<exists>ds t. rest = ds @ t \<and> list_all is_digit ds \<and> (t = [] \<or> \<not> valid_alphanum_char (hd t)))"
proof -
  from assms obtain name0 rest0 where p: "parse_alphanum_name max_length s = (Inr name0, rest0)"
    and st: "strip_digits (rev name0) rest0 = (name, rest)"
    by (auto simp: parse_block_name_def split: prod.splits sum.splits)
  from p have v: "valid_name_char (peek s)" and c: "copy_filtered valid_alphanum_char max_length s = (name0, rest0)"
    and l: "0 < length name0" "length name0 < max_length"
    by (auto simp: parse_alphanum_name_def parse_filtered_name_def and_then_eq_Inr fail_def
      split: if_splits prod.splits)
  note cs = copy_filtered_spec [OF c]
  obtain ds where ds: "name0 = name @ ds" "list_all is_digit ds" "rest = ds @ rest0"
    "name = [] \<or> \<not> is_digit (last name)"
    using strip_digits_spec [OF st] by auto
  have "name \<noteq> []"
  proof
    assume "name = []"
    with ds l have "is_digit (hd name0)" by (cases ds) auto
    with v cs l show False using valid_name_not_digit by (cases name0) auto
  qed
  with v cs l ds show ?thesis by (cases name) auto
qed

theorem parse_block_name_correct_witness:
  "parse_block_name 10 ''TTLIN12.VAL'' = (Inr ''TTLIN'', ''12.VAL'') \<and> ''TTLIN12.VAL'' = ''TTLIN'' @ ''12.VAL''"
proof -
  have e: "parse_block_name 10 ''TTLIN12.VAL'' = (Inr ''TTLIN'', ''12.VAL'')"
    by code_simp
  with parse_block_name_correct [OF e] show ?thesis by blast
qed

section \<open>Printing and reading numbers\<close>

text \<open>The conversions \<^verbatim>\<open>%u\<close> and \<^verbatim>\<open>%x\<close> of \<^verbatim>\<open>printf\<close>.\<close>

definition digit_char :: "nat \<Rightarrow> char" where
  "digit_char d = (if d < 10 then char_of (48 + d) else char_of (87 + d))"

fun show_base :: "nat \<Rightarrow> nat \<Rightarrow> string" where
  "show_base b n =
     (if n < b \<or> b < 2 then [digit_char n] else show_base b (n div b) @ [digit_char (n mod b)])"

declare show_base.simps [simp del]

lemma digit_val_char: "d < 36 \<Longrightarrow> digit_val (digit_char d) = Some d"
  by (auto simp: digit_val_def digit_char_def is_digit_def is_upper_def is_lower_def)

lemma scan_show:
  assumes "2 \<le> b" "b \<le> 36"
  shows "scan_digits b 0 (show_base b n @ t) = scan_digits b n t"
  using assms
proof (induction b n arbitrary: t rule: show_base.induct)
  case (1 b n)
  show ?case
  proof (cases "n < b")
    case True
    with 1 show ?thesis
      by (auto simp: show_base.simps [of b n] is_digit_of_def digit_val_char)
  next
    case False
    have "n mod b < b" "n mod b < 36" using 1 by (simp_all add: less_le_trans [of _ b])
    then have "is_digit_of b (digit_char (n mod b))" "digit_val (digit_char (n mod b)) = Some (n mod b)"
      by (auto simp: is_digit_of_def digit_val_char)
    with False 1 show ?thesis by (auto simp: show_base.simps [of b n])
  qed
qed

lemma scan_stop: "s = [] \<or> \<not> is_digit_of b (hd s) \<Longrightarrow> scan_digits b acc s = (acc, s)"
  by (cases s) auto

lemma show_base_hd:
  assumes "2 \<le> b"
  shows "\<exists>d ds. show_base b n = digit_char d # ds \<and> d < b \<and> (0 < n \<longrightarrow> 0 < d) \<and> (n = 0 \<longrightarrow> ds = [])"
  using assms
proof (induction b n rule: show_base.induct)
  case (1 b n)
  show ?case
  proof (cases "n < b")
    case True
    with 1 show ?thesis by (auto simp: show_base.simps [of b n])
  next
    case False
    with 1 obtain d ds where d: "show_base b (n div b) = digit_char d # ds" "d < b" "0 < n div b \<longrightarrow> 0 < d"
      by auto
    have "0 < n div b" using False 1 by (simp add: div_greater_zero_iff)
    with d False 1 show ?thesis by (auto simp: show_base.simps [of b n])
  qed
qed

definition is_alnum :: "char \<Rightarrow> bool" where
  "is_alnum c = (is_alpha c \<or> is_digit c)"

lemma not_alnum_not_digit: "\<not> is_alnum c \<Longrightarrow> \<not> is_digit_of b c"
  by (simp add: is_alnum_def is_digit_of_def digit_val_def is_alpha_def)

lemma char_of_48: "char_of (48 :: nat) = CHR ''0''"
  by code_simp

lemma of_char_digit_char: "d < 10 \<Longrightarrow> (of_char (digit_char d) :: nat) = 48 + d"
  by (simp add: digit_char_def)

lemma digit_char_class:
  assumes "d < 10"
  shows "is_digit_of 10 (digit_char d)" "\<not> is_space (digit_char d)"
    "digit_char d \<noteq> CHR ''-''" "digit_char d \<noteq> CHR ''+''" "digit_char d = CHR ''0'' \<longleftrightarrow> d = 0"
proof -
  show "is_digit_of 10 (digit_char d)" using assms by (simp add: is_digit_of_def digit_val_char)
  show "\<not> is_space (digit_char d)" using assms by (simp add: is_space_def of_char_digit_char)
  show "digit_char d \<noteq> CHR ''-''" "digit_char d \<noteq> CHR ''+''" "digit_char d = CHR ''0'' \<longleftrightarrow> d = 0"
    using of_char_digit_char [OF assms] by (auto simp: digit_char_def char_of_48)
qed

definition ends_token :: "string \<Rightarrow> bool" where
  "ends_token t = (t = [] \<or> \<not> is_alnum (hd t))"

lemma read_magnitude_show:
  assumes "ends_token t"
  shows "read_magnitude (show_base 10 n @ t) = Some (n, t)"
proof -
  obtain d ds where d: "show_base 10 n = digit_char d # ds" "d < 10" "0 < n \<longrightarrow> 0 < d" "n = 0 \<longrightarrow> ds = []"
    using show_base_hd [of 10 n] by auto
  have stop: "scan_digits b acc t = (acc, t)" for b acc
    using assms not_alnum_not_digit by (intro scan_stop) (auto simp: ends_token_def)
  show ?thesis
  proof (cases "n = 0")
    case True
    have nx: "peek t \<noteq> CHR ''x'' \<and> peek t \<noteq> CHR ''X''"
      using assms by (cases t) (auto simp: ends_token_def is_alnum_def is_alpha_def is_lower_def is_upper_def nul_def)
    have z: "show_base 10 n = ''0''" unfolding show_base.simps [of 10 n] using True by (simp add: digit_char_def char_of_48)
    have "is_digit_of 8 CHR ''0''" "digit_val CHR ''0'' = Some 0" by code_simp+
    with True nx stop z show ?thesis by (simp add: read_magnitude_def)
  next
    case False
    with d have "digit_char d \<noteq> CHR ''0''" by (simp add: digit_char_class)
    moreover have "scan_digits 10 0 (show_base 10 n @ t) = (n, t)"
      using scan_show [of 10 n t] stop by simp
    ultimately show ?thesis using d by (simp add: read_magnitude_def digit_char_class)
  qed
qed

lemma show_base_start:
  "skip_space (show_base 10 n @ t) = show_base 10 n @ t"
  "read_sign (show_base 10 n @ t) = (False, show_base 10 n @ t)"
  "show_base 10 n \<noteq> []"
  using show_base_hd [of 10 n] by (auto simp: digit_char_class read_sign_def)

lemma strtoul_show:
  "ends_token t \<Longrightarrow> n < 2 ^ lw \<Longrightarrow> strtoul lw (show_base 10 n @ t) = (n, False, t)"
  by (simp add: strtoul_def show_base_start read_magnitude_show)

lemma strtoul_overflow:
  "ends_token t \<Longrightarrow> n \<ge> 2 ^ lw \<Longrightarrow> strtoul lw (show_base 10 n @ t) = (2 ^ lw - 1, True, t)"
  by (simp add: strtoul_def show_base_start read_magnitude_show)

lemma parse_num_strtoul_show:
  assumes "ends_token t"
  shows "parse_num (strtoul lw) cast (show_base 10 n @ t) =
    (if n < 2 ^ lw then Inr (cast n) else fail ''Error converting number'', t)"
  using assms
  by (simp add: parse_num_def check_number_def strtoul_show strtoul_overflow show_base_start)

text \<open>
  A number printed with \<^verbatim>\<open>%u\<close> and followed by a character that cannot continue it is read
  back by \<^verbatim>\<open>parse_uint\<close>, whatever the width of \<^verbatim>\<open>long\<close>.  A number of 32 bits or more is an error
  on a target with 32 bit \<^verbatim>\<open>long\<close>, and is silently reduced modulo \<open>2 ^ 32\<close> with a 64 bit one
  up to \<open>2 ^ 64\<close>.
\<close>

theorem parse_uint_show:
  assumes "ends_token t"
  shows "parse_uint 32 (show_base 10 n @ t) =
      (if n < 2 ^ 32 then Inr (word_of_nat n) else fail ''Error converting number'', t) \<and>
    parse_uint 64 (show_base 10 n @ t) =
      (if n < 2 ^ 64 then Inr (word_of_nat (n mod 2 ^ 32)) else fail ''Error converting number'', t)"
proof -
  have "(word_of_nat (n mod 2 ^ 32) :: u32) = word_of_nat n"
    by (simp add: word_unat_eq_iff unsigned_of_nat take_bit_eq_mod)
  then show ?thesis
    by (simp only: parse_uint_def parse_num_strtoul_show [OF assms])
qed

theorem parse_uint_show_witness:
  "parse_uint 64 (show_base 10 (2 ^ 32 + 7) @ '' 8'') = (Inr 7, '' 8'') \<and>
   parse_uint 32 (show_base 10 (2 ^ 32 + 7) @ '' 8'') = (fail ''Error converting number'', '' 8'')"
proof -
  have "ends_token '' 8''" by code_simp
  from parse_uint_show [OF this, of "2 ^ 32 + 7"] show ?thesis by simp
qed

section \<open>The indentation stack\<close>

text \<open>
  Every level up to the current one has its indentation and its parser, the next level has a
  parser, and the indentations increase strictly from 0.
\<close>

definition indents_ok :: "('c, 'l, 'e) indent_stack \<Rightarrow> nat \<Rightarrow> bool" where
  "indents_ok stack sp =
     (length stack = MAX_INDENT + 2 \<and> sp \<le> MAX_INDENT \<and> stack_indent stack 0 = Some 0 \<and>
      (\<forall>i \<le> sp. stack_indent stack i \<noteq> None) \<and> (\<forall>i \<le> sp + 1. stack_parser stack i \<noteq> None) \<and>
      (\<forall>i < sp. the (stack_indent stack i) < the (stack_indent stack (i + 1))))"

lemma stack_indent_update:
  "stack_indent (stack[i := e]) j =
     (if i = j \<and> i < length stack then indent e else stack_indent stack j)"
  by (simp add: stack_indent_def nth_list_update)

lemma stack_parser_update:
  "stack_parser (stack[i := e]) j =
     (if i = j \<and> i < length stack then parser e else stack_parser stack j)"
  by (simp add: stack_parser_def nth_list_update)

lemma open_indent_ok:
  assumes "indents_ok stack sp" "ind > the (stack_indent stack sp)"
  obtains "sp = MAX_INDENT" "open_indent stack sp ind = Some (fail ''Too much indentation'', stack, sp)"
  | stack' where "open_indent stack sp ind = Some (Inr (), stack', sp + 1)" "sp < MAX_INDENT"
    "stack' = stack[sp + 1 := (stack ! (sp + 1)) \<lparr>indent := Some ind\<rparr>]"
    "stack_parser stack' (sp + 1) \<noteq> None" "length stack' = MAX_INDENT + 2"
    "\<forall>i \<le> sp + 1. stack_indent stack' i \<noteq> None" "\<forall>i \<le> sp + 1. stack_parser stack' i \<noteq> None"
    "\<forall>i < sp + 1. the (stack_indent stack' i) < the (stack_indent stack' (i + 1))"
    "stack_indent stack' 0 = Some 0"
proof (cases "sp < MAX_INDENT")
  case False
  with assms show thesis by (intro that(1)) (auto simp: open_indent_def indents_ok_def)
next
  case True
  let ?stack' = "stack[sp + 1 := (stack ! (sp + 1)) \<lparr>indent := Some ind\<rparr>]"
  have p: "stack_parser ?stack' i = stack_parser stack i" for i
    by (cases "i = sp + 1") (simp_all add: stack_parser_def)
  have "\<forall>i \<le> sp + 1. stack_indent ?stack' i \<noteq> None"
    using assms True by (auto simp: indents_ok_def stack_indent_update le_Suc_eq)
  moreover have "\<forall>i < sp + 1. the (stack_indent ?stack' i) < the (stack_indent ?stack' (i + 1))"
    using assms True by (auto simp: indents_ok_def stack_indent_update less_Suc_eq)
  ultimately show thesis
    using assms True
    by (intro that(2) [of ?stack']) (simp_all add: open_indent_def indents_ok_def p [simplified] stack_indent_update)
qed

lemma close_indents_ok:
  "indents_ok stack sp \<Longrightarrow>
     \<exists>r sp' s'. close_indents m stack sp ind s = Some (r, sp', s') \<and> indents_ok stack sp' \<and> sp' \<le> sp"
proof (induction m stack sp ind s rule: close_indents.induct)
  case (1 m stack sp ind s)
  obtain p where p: "stack_parser stack (sp + 1) = Some p" using 1(2) by (auto simp: indents_ok_def)
  obtain error s' where e:
    "(case end_method p of None \<Rightarrow> (Inr (), s) | Some e \<Rightarrow> call_end m e (ctxt p) s) = (error, s')"
    by (metis surj_pair)
  obtain cur where cur: "stack_indent stack sp = Some cur" using 1(2) by (auto simp: indents_ok_def)
  show ?case
  proof (cases "ind < cur")
    case False
    with p e cur 1(2) show ?thesis by (simp add: close_indents.simps [of m stack sp])
  next
    case True
    then obtain sp' where sp: "sp = Suc sp'" using 1(2) cur by (cases sp) (auto simp: indents_ok_def)
    have ok: "indents_ok stack sp'" using 1(2) by (simp add: indents_ok_def sp)
    show ?thesis
    proof (cases "is_ok error")
      case False
      with True p e cur ok show ?thesis
        by (simp add: close_indents.simps [of m stack "Suc sp'"] sp)
    next
      case t: True
      from 1(1) [OF p e [symmetric] cur True sp t ok] obtain r sp2 s2 where
        "close_indents m stack sp' ind s' = Some (r, sp2, s2)" "indents_ok stack sp2" "sp2 \<le> sp'"
        by blast
      with True t p e cur show ?thesis
        by (auto simp: close_indents.simps [of m stack "Suc sp'"] sp)
    qed
  qed
qed

lemma run_parse_line_ok:
  assumes "length stack = MAX_INDENT + 2" "sp \<le> MAX_INDENT" "stack_indent stack 0 = Some 0"
    "\<forall>i \<le> sp. stack_indent stack i \<noteq> None" "\<forall>i \<le> sp. stack_parser stack i \<noteq> None"
    "\<forall>i < sp. the (stack_indent stack i) < the (stack_indent stack (i + 1))"
  shows "\<exists>r line' stack' s'. run_parse_line m line stack sp s = Some (r, line', stack', sp, s') \<and>
    indents_ok stack' sp"
proof -
  obtain p where p: "stack_parser stack sp = Some p" using assms(5) by auto
  have ok: "indents_ok (stack[sp + 1 := (stack ! (sp + 1)) \<lparr>parser := Some q\<rparr>]) sp" for q
    using assms by (auto simp: indents_ok_def stack_indent_update stack_parser_update stack_indent_def)
  show ?thesis
    using p assms(1,2) ok
    by (auto simp: run_parse_line_def split: option.split prod.split)
qed

lemma parse_one_line_ok:
  assumes "indents_ok stack sp"
  shows "\<exists>r line' stack' sp' s'. parse_one_line m line stack sp s = Some (r, line', stack', sp', s') \<and>
    indents_ok stack' sp'"
proof -
  obtain cur where cur: "stack_indent stack sp = Some cur" using assms by (auto simp: indents_ok_def)
  let ?ind = "length line - length (skip_whitespace line)"
  consider (blank) "\<not> (peek (skip_whitespace line) \<noteq> CHR ''#'' \<and> skip_whitespace line \<noteq> [])"
    | (opens) "peek (skip_whitespace line) \<noteq> CHR ''#'' \<and> skip_whitespace line \<noteq> []" "?ind > cur"
    | (closes) "peek (skip_whitespace line) \<noteq> CHR ''#'' \<and> skip_whitespace line \<noteq> []" "\<not> ?ind > cur"
    by blast
  then show ?thesis
  proof cases
    case blank
    with assms show ?thesis by (auto simp: parse_one_line_def Let_def)
  next
    case opens
    from assms have "?ind > the (stack_indent stack sp)" using opens cur by simp
    from assms this show ?thesis
    proof (cases rule: open_indent_ok)
      case 1
      with opens cur assms show ?thesis by (auto simp: parse_one_line_def Let_def fail_def)
    next
      case (2 stack')
      from run_parse_line_ok [of stack' "sp + 1" m "skip_whitespace line" s] 2
      obtain r line' stack2 s' where
        "run_parse_line m (skip_whitespace line) stack' (sp + 1) s = Some (r, line', stack2, sp + 1, s')"
        "indents_ok stack2 (sp + 1)" by auto
      with opens cur 2(1) show ?thesis by (auto simp: parse_one_line_def Let_def)
    qed
  next
    case closes
    from close_indents_ok [OF assms] obtain r sp' s' where
      c: "close_indents m stack sp ?ind s = Some (r, sp', s')" and ok: "indents_ok stack sp'" by metis
    show ?thesis
    proof (cases r)
      case (Inl e)
      with closes cur c ok show ?thesis by (auto simp: parse_one_line_def Let_def)
    next
      case (Inr u)
      from run_parse_line_ok [of stack sp' m "skip_whitespace line" s'] ok
      obtain r2 line' stack2 s2 where
        "run_parse_line m (skip_whitespace line) stack sp' s' = Some (r2, line', stack2, sp', s2)"
        "indents_ok stack2 sp'" by (auto simp: indents_ok_def)
      with closes cur c Inr show ?thesis by (auto simp: parse_one_line_def Let_def)
    qed
  qed
qed

lemma parse_lines_ok:
  "indents_ok stack sp \<Longrightarrow>
     \<exists>r n c sp' s'. parse_lines m line_no lines stack sp s = Some (r, n, c, sp', s') \<and> sp' \<le> MAX_INDENT"
proof (induction lines arbitrary: line_no stack sp s)
  case Nil
  then show ?case by (simp add: indents_ok_def)
next
  case (Cons line lines)
  from parse_one_line_ok [OF Cons.prems] obtain r line' stack' sp' s' where
    one: "parse_one_line m line stack sp s = Some (r, line', stack', sp', s')" "indents_ok stack' sp'"
    by metis
  show ?case
  proof (cases r)
    case (Inl e)
    with one show ?thesis by (simp add: indents_ok_def)
  next
    case (Inr u)
    with one Cons.IH [OF one(2)] show ?thesis by simp
  qed
qed

lemma initial_stack_ok: "indents_ok (initial_stack p) 0"
  by (simp add: indents_ok_def initial_stack_def stack_indent_def stack_parser_def le_Suc_eq)

text \<open>
  Whatever the file contains and whatever the handlers do, the indented file parser never
  leaves its stack of twelve entries and never reads an entry before it was assigned: it returns.
\<close>

theorem parse_indented_file_safe:
  "parse_indented_file m contents p s \<noteq> None"
proof (cases contents)
  case None
  then show ?thesis by (simp add: parse_indented_file_def)
next
  case (Some content)
  from parse_lines_ok [OF initial_stack_ok] obtain r n c sp' s' where
    "parse_lines m 0 (file_lines content) (initial_stack p) 0 s = Some (r, n, c, sp', s')" by metis
  then show ?thesis using Some by (simp add: parse_indented_file_def split: sum.split)
qed

section \<open>Files as forests\<close>

text \<open>
  A file written as a forest: each line two blanks deeper than its parent.  The reference reading
  runs the handler of a level on each of its lines and the parser that it returns on the lines
  below it.
\<close>

datatype line_tree = Line string "line_tree list"

fun print_forest :: "nat \<Rightarrow> line_tree list \<Rightarrow> string list" where
  "print_forest d [] = []"
| "print_forest d (Line text kids # ts) =
     (replicate (2 * d) CHR '' '' @ text) # print_forest (d + 1) kids @ print_forest d ts"

fun forest_depth :: "line_tree list \<Rightarrow> nat" where
  "forest_depth [] = 0"
| "forest_depth (Line text kids # ts) = max (Suc (forest_depth kids)) (forest_depth ts)"

fun forest_texts :: "line_tree list \<Rightarrow> string list" where
  "forest_texts [] = []"
| "forest_texts (Line text kids # ts) = text # forest_texts kids @ forest_texts ts"

definition run_text ::
    "('c, 'l, 'e, 's) indent_methods \<Rightarrow> ('c, 'l, 'e) indent_parser \<Rightarrow> string \<Rightarrow> 's \<Rightarrow>
     unit result \<times> ('c, 'l, 'e) indent_parser \<times> 's" where
  "run_text m p text s =
     (case parse_line p of
        None \<Rightarrow> (fail ''Cannot parse this indentation'', empty_parser, s)
      | Some l \<Rightarrow> (case call_line m l (ctxt p) text s of
          ((r, rest), q, s') \<Rightarrow> (and_then r (\<lambda>_. fst (parse_eos rest)), q, s')))"

fun run_forest ::
    "('c, 'l, 'e, 's) indent_methods \<Rightarrow> ('c, 'l, 'e) indent_parser \<Rightarrow> line_tree list \<Rightarrow> 's \<Rightarrow>
     unit result \<times> 's" where
  "run_forest m p [] s = (Inr (), s)"
| "run_forest m p (Line text kids # ts) s =
     (case run_text m p text s of
        (Inl e, q, s') \<Rightarrow> (Inl e, s')
      | (Inr _, q, s') \<Rightarrow>
          (case run_forest m q kids s' of
             (Inl e, s2) \<Rightarrow> (Inl e, s2)
           | (Inr _, s2) \<Rightarrow> run_forest m p ts s2))"

definition level_ok :: "('c, 'l, 'e) indent_stack \<Rightarrow> nat \<Rightarrow> nat \<Rightarrow> ('c, 'l, 'e) indent_parser \<Rightarrow> bool" where
  "level_ok stack sp d p =
     (indents_ok stack sp \<and> d \<le> sp + 1 \<and> stack_parser stack d = Some p \<and>
      (\<forall>i \<le> sp. stack_indent stack i = Some (2 * i)) \<and>
      (\<forall>i \<le> sp + 1. 0 < i \<longrightarrow> end_method (the (stack_parser stack i)) = None))"

definition plain_text :: "string \<Rightarrow> bool" where
  "plain_text t = (t \<noteq> [] \<and> hd t \<noteq> CHR '' '' \<and> hd t \<noteq> CHR 0x09 \<and> hd t \<noteq> CHR ''#'')"

lemma skip_plain: "plain_text t \<Longrightarrow> skip_whitespace (replicate n CHR '' '' @ t) = t"
  by (induction n) (cases t, auto simp: plain_text_def)

lemma close_indents_level:
  assumes "indents_ok stack sp" "\<forall>i \<le> sp. stack_indent stack i = Some (2 * i)"
    "\<forall>i \<le> sp + 1. 0 < i \<longrightarrow> end_method (the (stack_parser stack i)) = None" "d \<le> sp"
  shows "close_indents m stack sp (2 * d) s = Some (Inr (), d, s)"
  using assms
proof (induction sp)
  case 0
  then show ?case
    by (auto simp: close_indents.simps [of m stack 0] indents_ok_def split: option.split)
next
  case (Suc sp)
  have "stack_parser stack (Suc (Suc sp)) \<noteq> None" using Suc.prems(1) by (simp add: indents_ok_def)
  moreover have "end_method (the (stack_parser stack (Suc (Suc sp)))) = None" using Suc.prems(3) by simp
  ultimately obtain q where q: "stack_parser stack (Suc (Suc sp)) = Some q" "end_method q = None"
    by auto
  have ind: "stack_indent stack (Suc sp) = Some (2 * Suc sp)" using Suc.prems by blast
  show ?case
  proof (cases "d = Suc sp")
    case True
    with q ind show ?thesis by (simp add: close_indents.simps [of m stack "Suc sp"])
  next
    case False
    have "indents_ok stack sp" using Suc.prems(1) by (auto simp: indents_ok_def)
    with Suc False have "close_indents m stack sp (2 * d) s = Some (Inr (), d, s)" by simp
    with False q ind Suc.prems(4) show ?thesis by (simp add: close_indents.simps [of m stack "Suc sp"])
  qed
qed

definition no_ends :: "('c, 'l, 'e, 's) indent_methods \<Rightarrow> bool" where
  "no_ends m = (\<forall>l c x s. end_method (fst (snd (call_line m l c x s))) = None)"

lemma run_text_line:
  assumes "stack_parser stack d = Some p" "d + 1 < length stack"
  shows "\<exists>rest. run_parse_line m text stack d s =
    (case run_text m p text s of (r, q, s') \<Rightarrow>
      Some (r, rest, stack[d + 1 := (stack ! (d + 1)) \<lparr>parser := Some q\<rparr>], d, s'))"
  using assms by (auto simp: run_parse_line_def run_text_def split: option.split prod.split)

lemma run_text_end: "no_ends m \<Longrightarrow> end_method (fst (snd (run_text m p text s))) = None"
  by (auto simp: run_text_def no_ends_def empty_parser_def split: option.split prod.split)
     (metis fst_conv snd_conv)

lemma level_after_line:
  assumes "length stack = MAX_INDENT + 2" "d \<le> MAX_INDENT" "\<forall>i \<le> d. stack_parser stack i \<noteq> None"
    "\<forall>i \<le> d. stack_indent stack i = Some (2 * i)"
    "\<forall>i \<le> d. 0 < i \<longrightarrow> end_method (the (stack_parser stack i)) = None"
    "stack_parser stack d = Some p" "end_method q = None"
  defines "stack' \<equiv> stack[d + 1 := (stack ! (d + 1)) \<lparr>parser := Some q\<rparr>]"
  shows "level_ok stack' d d p" "level_ok stack' d (d + 1) q"
    "\<forall>i < d. stack_parser stack' i = stack_parser stack i"
proof -
  have len: "d + 1 < length stack" using assms(1,2) by simp
  have ind: "stack_indent stack' i = stack_indent stack i" for i
    by (cases "i = d + 1") (simp_all add: stack_indent_def stack'_def)
  have par: "stack_parser stack' i = (if i = d + 1 then Some q else stack_parser stack i)" for i
    using len by (simp add: stack'_def stack_parser_update)
  have ok: "indents_ok stack' d"
    using assms(1-4) by (simp add: indents_ok_def ind par le_Suc_eq) (simp add: stack'_def)
  from ok assms(4-7) show "level_ok stack' d d p" "level_ok stack' d (d + 1) q"
    by (simp_all add: level_ok_def ind par)
  show "\<forall>i < d. stack_parser stack' i = stack_parser stack i" by (simp add: par)
qed

lemma parse_one_line_level:
  assumes lev: "level_ok stack sp d p" and d: "d \<le> MAX_INDENT" and pt: "plain_text text" and m: "no_ends m"
  obtains rest stack' where
    "parse_one_line m (replicate (2 * d) CHR '' '' @ text) stack sp s =
       Some (fst (run_text m p text s), rest, stack', d, snd (snd (run_text m p text s)))"
    "level_ok stack' d d p" "level_ok stack' d (d + 1) (fst (snd (run_text m p text s)))"
    "\<forall>i < d. stack_parser stack' i = stack_parser stack i"
proof -
  let ?line = "replicate (2 * d) CHR '' '' @ text"
  obtain r q s' where rt: "run_text m p text s = (r, q, s')" by (metis surj_pair)
  have q: "end_method q = None" using run_text_end [OF m, of p "text" s] rt by simp
  have sk: "skip_whitespace ?line = text" using pt by (rule skip_plain)
  have pl: "peek text \<noteq> CHR ''#'' \<and> text \<noteq> []" using pt by (cases "text") (auto simp: plain_text_def)
  have cur: "stack_indent stack sp = Some (2 * sp)" and ok: "indents_ok stack sp"
    and p: "stack_parser stack d = Some p"
    using lev by (auto simp: level_ok_def)
  show thesis
  proof (cases "d \<le> sp")
    case True
    have ok': "indents_ok stack d" using ok True by (auto simp: indents_ok_def)
    then have len: "d + 1 < length stack" by (simp add: indents_ok_def)
    have cl: "close_indents m stack sp (2 * d) s = Some (Inr (), d, s)"
      using lev True by (intro close_indents_level) (auto simp: level_ok_def)
    obtain rest where "run_parse_line m text stack d s =
        Some (r, rest, stack[d + 1 := (stack ! (d + 1)) \<lparr>parser := Some q\<rparr>], d, s')"
      using run_text_line [OF p len, of m "text" s] rt by auto
    then have "parse_one_line m ?line stack sp s =
        Some (r, rest, stack[d + 1 := (stack ! (d + 1)) \<lparr>parser := Some q\<rparr>], d, s')"
      using True by (simp add: parse_one_line_def Let_def sk pl cur cl)
    moreover have "\<forall>i \<le> d. stack_parser stack i \<noteq> None" "\<forall>i \<le> d. stack_indent stack i = Some (2 * i)"
      "\<forall>i \<le> d. 0 < i \<longrightarrow> end_method (the (stack_parser stack i)) = None" "length stack = MAX_INDENT + 2"
      using ok' lev True by (simp_all add: level_ok_def indents_ok_def)
    note level_after_line [OF this(4) d this(1-3) p q]
    ultimately show thesis using rt by (intro that) simp_all
  next
    case False
    then have sp: "d = sp + 1" using lev by (simp add: level_ok_def)
    let ?st = "stack[d := (stack ! d) \<lparr>indent := Some (2 * d)\<rparr>]"
    have gt: "2 * d > the (stack_indent stack sp)" using cur sp by simp
    have op: "open_indent stack sp (2 * d) = Some (Inr (), ?st, d)"
      using ok d sp by (simp add: open_indent_def indents_ok_def)
    have par: "stack_parser ?st i = stack_parser stack i" for i
      by (cases "i = d") (simp_all add: stack_parser_def)
    have len: "d + 1 < length ?st" using ok d by (simp add: indents_ok_def)
    have ind: "stack_indent ?st i = (if i = d then Some (2 * d) else stack_indent stack i)" for i
      using len by (simp add: stack_indent_update)
    from run_text_line [of ?st d p m "text" s] p len rt par obtain rest where
      "run_parse_line m text ?st d s =
        Some (r, rest, ?st[d + 1 := (?st ! (d + 1)) \<lparr>parser := Some q\<rparr>], d, s')"
      by auto
    then have one: "parse_one_line m ?line stack sp s =
        Some (r, rest, ?st[d + 1 := (?st ! (d + 1)) \<lparr>parser := Some q\<rparr>], d, s')"
      using gt by (simp add: parse_one_line_def Let_def sk pl cur op)
    have "\<forall>i \<le> d. stack_parser ?st i \<noteq> None" "\<forall>i \<le> d. stack_indent ?st i = Some (2 * i)"
      "\<forall>i \<le> d. 0 < i \<longrightarrow> end_method (the (stack_parser ?st i)) = None" "stack_parser ?st d = Some p"
      using lev ok sp p unfolding par ind by (auto simp: level_ok_def indents_ok_def)
    note level_after_line [OF _ d this q]
    with one rt ok show thesis
      using par by (intro that) (auto simp: indents_ok_def)
  qed
qed

lemma parse_lines_forest:
  assumes "level_ok stack sp d p" "d + forest_depth ts \<le> MAX_INDENT + 1"
    "list_all plain_text (forest_texts ts)" "no_ends m"
  shows "case run_forest m p ts s of
      (Inl e, s') \<Rightarrow> \<exists>n c sp'. parse_lines m no (print_forest d ts @ others) stack sp s = Some (Inl e, n, c, sp', s')
    | (Inr _, s') \<Rightarrow> \<exists>stack' sp' no'. level_ok stack' sp' d p \<and>
        (\<forall>i < d. stack_parser stack' i = stack_parser stack i) \<and>
        parse_lines m no (print_forest d ts @ others) stack sp s = parse_lines m no' others stack' sp' s'"
  using assms
proof (induction m p ts s arbitrary: d stack sp no others rule: run_forest.induct)
  case (1 m p s)
  then show ?case by auto
next
  case (2 m p body kids ts s)
  have d: "d \<le> MAX_INDENT" and pt: "plain_text body" using 2(4,5) by auto
  obtain r q s' where rt: "run_text m p body s = (r, q, s')" by (metis surj_pair)
  from parse_one_line_level [OF 2(3) d pt 2(6), of s] rt obtain rest stack1 where
    one: "parse_one_line m (replicate (2 * d) CHR '' '' @ body) stack sp s = Some (r, rest, stack1, d, s')"
    and l1: "level_ok stack1 d d p" "level_ok stack1 d (d + 1) q"
    and same1: "\<forall>i < d. stack_parser stack1 i = stack_parser stack i" by auto
  show ?case
  proof (cases r)
    case (Inl e)
    with rt one show ?thesis by simp
  next
    case r: (Inr u)
    let ?others = "print_forest d ts @ others"
    have k: "d + 1 + forest_depth kids \<le> MAX_INDENT + 1" "list_all plain_text (forest_texts kids)"
      "d + forest_depth ts \<le> MAX_INDENT + 1" "list_all plain_text (forest_texts ts)"
      using 2(4,5) by auto
    note IH1 = 2(1) [OF rt [symmetric] r refl l1(2) k(1,2) 2(6), of "no + 1" ?others]
    show ?thesis
    proof (cases "run_forest m q kids s'")
      case (Pair r2 s2)
      show ?thesis
      proof (cases r2)
        case (Inl e)
        with IH1 Pair rt one r show ?thesis by auto
      next
        case r2: (Inr u2)
        with IH1 Pair obtain stack2 sp2 no2 where l2: "level_ok stack2 sp2 (d + 1) q"
          and same2: "\<forall>i < d + 1. stack_parser stack2 i = stack_parser stack1 i"
          and run2: "parse_lines m (no + 1) (print_forest (d + 1) kids @ ?others) stack1 d s' =
            parse_lines m no2 ?others stack2 sp2 s2" by auto
        have "level_ok stack2 sp2 d p"
          using l1(1) l2 same2 by (simp add: level_ok_def)
        from 2(2) [OF rt [symmetric] r refl Pair [symmetric] r2 this k(3,4) 2(6), of no2 others] same1 same2
        show ?thesis
          using rt r Pair r2 one run2
          by (cases "run_forest m p ts s2"; cases "fst (run_forest m p ts s2)") fastforce+
      qed
    qed
  qed
qed

lemma fgets_line:
  "CHR 0x0A \<notin> set l \<Longrightarrow> length l < n \<Longrightarrow> fgets n (l @ CHR 0x0A # rest) = (l @ [CHR 0x0A], rest)"
proof (induction l arbitrary: n)
  case Nil
  then show ?case by (cases n) auto
next
  case (Cons c l)
  then show ?case by (cases n) auto
qed

lemma file_lines_print:
  "list_all (\<lambda>l. CHR 0x0A \<notin> set l \<and> length l < MAX_LINE_LENGTH - 1) ls \<Longrightarrow>
   file_lines (concat (map (\<lambda>l. l @ [CHR 0x0A]) ls)) = ls"
proof (induction ls)
  case Nil
  then show ?case by (simp add: file_lines.simps)
next
  case (Cons l ls)
  have "strip_newline (l @ [CHR 0x0A]) = l"
    using Cons.prems by (auto simp: strip_newline_def takeWhile_append)
  with Cons fgets_line [of l "MAX_LINE_LENGTH - 1" "concat (map (\<lambda>l. l @ [CHR 0x0A]) ls)"] show ?case
    by (simp add: file_lines.simps [of "l @ CHR 0x0A # _"])
qed

lemma initial_level: "level_ok (initial_stack p) 0 0 p"
  using initial_stack_ok [of p]
  by (auto simp: level_ok_def initial_stack_def stack_indent_def stack_parser_def le_Suc_eq empty_parser_def)

text \<open>
  C40: a file that lists a forest of lines in order, each line indented below its parent and no
  deeper than the stack allows, is read as the forest: every line goes to the parser that its
  parent line returned, in order, up to the first error, and the client's state and success are
  those of the recursive reading.
\<close>

theorem parse_indented_file_forest:
  assumes "content = concat (map (\<lambda>l. l @ [CHR 0x0A]) (print_forest 0 ts))"
    and "list_all (\<lambda>l. CHR 0x0A \<notin> set l \<and> length l < MAX_LINE_LENGTH - 1) (print_forest 0 ts)"
    and "list_all plain_text (forest_texts ts)" "forest_depth ts \<le> MAX_INDENT + 1"
    and "no_ends m" "end_method p = None"
  shows "\<exists>r line_no column. parse_indented_file m (Some content) p s =
      Some (r, line_no, column, snd (run_forest m p ts s)) \<and> is_ok r = is_ok (fst (run_forest m p ts s))"
proof -
  have fl: "file_lines content = print_forest 0 ts @ []" using assms(1,2) file_lines_print by simp
  obtain r s' where rf: "run_forest m p ts s = (r, s')" by fastforce
  have "0 + forest_depth ts \<le> MAX_INDENT + 1" using assms(4) by simp
  from parse_lines_forest [OF initial_level this assms(3,5), where s = s and no = 0 and others = "[]" and p = p] assms(6) rf show ?thesis
    by (cases r) (auto simp: parse_indented_file_def fl)
qed

definition log_methods :: "(unit, unit, unit, string list) indent_methods" where
  "log_methods = \<lparr>
     call_line = (\<lambda>_ _ line log. ((Inr (), []), \<lparr>ctxt = None, parse_line = Some (), end_method = None\<rparr>, line # log)),
     call_end = (\<lambda>_ _ log. (Inr (), log))\<rparr>"

theorem parse_indented_file_forest_witness:
  "\<exists>r line_no column. parse_indented_file log_methods
      (Some (concat (map (\<lambda>l. l @ [CHR 0x0A]) (print_forest 0 [Line ''A[4]'' [Line ''B'' []], Line ''C'' []]))))
      \<lparr>ctxt = None, parse_line = Some (), end_method = None\<rparr> [] =
    Some (r, line_no, column, [''C'', ''B'', ''A[4]'']) \<and> is_ok r"
  using parse_indented_file_forest [OF refl, of "[Line ''A[4]'' [Line ''B'' []], Line ''C'' []]" log_methods
      "\<lparr>ctxt = None, parse_line = Some (), end_method = None\<rparr>" "[]"]
  by (simp add: log_methods_def no_ends_def plain_text_def MAX_INDENT_def MAX_LINE_LENGTH_def run_text_def
    parse_eos_def)

end
