(* ===== verification/Panda_Enums.thy ===== *)
theory Panda_Enums
  imports Panda_Hashtable Panda_Parse "HOL-Library.Multiset"
begin

text \<open>
  \<^verbatim>\<open>enums.c\<close>: enumerations as arrays of entries sorted by value, searched by bisection, with a
  hash table from names to values once there are more than four entries.  The hash table is used
  through the interface \<open>assoc_table\<close>.
\<close>

section \<open>Data and operations\<close>

definition HASH_TABLE_THRESHOLD :: nat where "HASH_TABLE_THRESHOLD = 4"

definition INITIAL_CAPACITY :: nat where "INITIAL_CAPACITY = 4"

record enum_entry =
  ee_value :: u32
  ee_name :: "string option"

text \<open>
  The array \<^verbatim>\<open>enums\<close> with its \<^verbatim>\<open>count\<close> is a list; a static enumeration has \<^verbatim>\<open>set_capacity\<close> 0.
\<close>

type_synonym enum_set = "enum_entry list"

record (overloaded) 'w enumeration =
  set_capacity :: nat
  enum_set :: enum_set
  name_map :: "('w::len, string, u32) hash_table option"

function bisect :: "enum_set \<Rightarrow> nat \<Rightarrow> nat \<Rightarrow> nat \<Rightarrow> nat" where
  "bisect es v left right =
     (if left < right then
        (let centre = (left + right) div 2 in
         if v \<le> unat (ee_value (es ! centre)) then bisect es v left centre
         else bisect es v (centre + 1) right)
      else left)"
  by auto
termination
  by (relation "measure (\<lambda>(es, v, left, right). right - left)") auto

declare bisect.simps [simp del]

definition binary_search :: "enum_set \<Rightarrow> nat \<Rightarrow> nat" where
  "binary_search es v = bisect es v 0 (length es)"

definition enum_index_to_name :: "'w::len enumeration \<Rightarrow> u32 \<Rightarrow> string option" where
  "enum_index_to_name en v =
     (let ix = binary_search (enum_set en) (unat v) in
      if ix < length (enum_set en) \<and> ee_value (enum_set en ! ix) = v then ee_name (enum_set en ! ix)
      else None)"

fun linear_search :: "enum_set \<Rightarrow> string \<Rightarrow> u32 option" where
  "linear_search [] name = None"
| "linear_search (e # es) name =
     (if ee_name e = Some name then Some (ee_value e) else linear_search es name)"

text \<open>The value found, if any; the outer option is the termination of the hash table's lookup.\<close>

definition enum_name_to_index :: "'w::len enumeration \<Rightarrow> string \<Rightarrow> u32 option option" where
  "enum_name_to_index en name =
     (case name_map en of
        None \<Rightarrow> Some (linear_search (enum_set en) name)
      | Some t \<Rightarrow> map_option (\<lambda>(v, found). if found then Some v else None)
          (hash_table_lookup_bool t name))"

fun sorted_from :: "u32 \<Rightarrow> enum_set \<Rightarrow> bool" where
  "sorted_from v [] = True"
| "sorted_from v (e # es) = (if ee_value e \<le> v then False else sorted_from (ee_value e) es)"

definition check_sorted_enum_set :: "enum_set \<Rightarrow> bool" where
  "check_sorted_enum_set es = (case es of [] \<Rightarrow> True | e # es' \<Rightarrow> sorted_from (ee_value e) es')"

text \<open>
  From here on \<open>None\<close> is an assertion that fails, a NULL name that is hashed, or a write outside
  the array.  \<open>cast\<close> is the conversion of \<^verbatim>\<open>char\<close> in the hash of a string.
\<close>

definition create_hash_table ::
    "(u8 \<Rightarrow> 'w::len word) \<Rightarrow> 'w enumeration \<Rightarrow> 'w enumeration option" where
  "create_hash_table cast en =
     (if list_all (\<lambda>e. ee_name e \<noteq> None) (enum_set en) then
        map_option (\<lambda>t. en\<lparr>name_map := Some t\<rparr>)
          (insert_seq hash_table_insert (map (\<lambda>e. (the (ee_name e), ee_value e)) (enum_set en))
            (hash_table_create cast False))
      else None)"

definition create_static_enumeration ::
    "(u8 \<Rightarrow> 'w::len word) \<Rightarrow> enum_set \<Rightarrow> 'w enumeration option" where
  "create_static_enumeration cast es =
     (if check_sorted_enum_set es then
        (let en = \<lparr>set_capacity = 0, enum_set = es, name_map = None\<rparr> in
         if length es > HASH_TABLE_THRESHOLD then create_hash_table cast en else Some en)
      else None)"

definition create_dynamic_enumeration :: "'w::len enumeration" where
  "create_dynamic_enumeration = \<lparr>set_capacity = INITIAL_CAPACITY, enum_set = [], name_map = None\<rparr>"

definition insert_new_enum ::
    "'w::len enumeration \<Rightarrow> string \<Rightarrow> u32 \<Rightarrow> nat \<Rightarrow> 'w enumeration option" where
  "insert_new_enum en name v ix =
     (if length (enum_set en) < set_capacity en then
        (let en' = en\<lparr>enum_set := take ix (enum_set en) @
               \<lparr>ee_value = v, ee_name = Some name\<rparr> # drop ix (enum_set en)\<rparr> in
         case name_map en of
           None \<Rightarrow> Some en'
         | Some t \<Rightarrow> (case hash_table_insert t name v of
               None \<Rightarrow> None
             | Some (t', old) \<Rightarrow> if old = 0 then Some (en'\<lparr>name_map := Some t'\<rparr>) else None))
      else None)"

definition grow_enumeration :: "'w::len enumeration \<Rightarrow> 'w enumeration" where
  "grow_enumeration en =
     (if length (enum_set en) \<ge> set_capacity en then en\<lparr>set_capacity := 2 * set_capacity en\<rparr> else en)"

definition ensure_hash_table ::
    "(u8 \<Rightarrow> 'w::len word) \<Rightarrow> 'w enumeration \<Rightarrow> 'w enumeration option" where
  "ensure_hash_table cast en =
     (if name_map en = None \<and> length (enum_set en) \<ge> HASH_TABLE_THRESHOLD
      then create_hash_table cast en else Some en)"

definition add_enumeration ::
    "(u8 \<Rightarrow> 'w::len word) \<Rightarrow> 'w enumeration \<Rightarrow> string \<Rightarrow> u32 \<Rightarrow> (unit result \<times> 'w enumeration) option" where
  "add_enumeration cast en string v =
     (if set_capacity en > 0 then
        (case ensure_hash_table cast (grow_enumeration en) of
           None \<Rightarrow> None
         | Some en1 \<Rightarrow>
             (let ix = binary_search (enum_set en1) (unat v) in
              if length (enum_set en1) - ix = 0 \<or> v < ee_value (enum_set en1 ! ix) then
                (case enum_name_to_index en1 string of
                   None \<Rightarrow> None
                 | Some (Some _) \<Rightarrow> Some (fail ''Repeated enumeration name'', en1)
                 | Some None \<Rightarrow> map_option (\<lambda>en2. (Inr (), en2)) (insert_new_enum en1 string v ix))
              else Some (fail ''Repeated enumeration index'', en1)))
      else None)"

definition write_enum_labels :: "'w::len enumeration \<Rightarrow> string option list" where
  "write_enum_labels en = map ee_name (enum_set en)"

section \<open>The enumeration type\<close>

text \<open>\<^verbatim>\<open>format_string\<close> of \<^verbatim>\<open>config_server.c\<close>, with the text already converted.\<close>

definition format_string :: "nat \<Rightarrow> string \<Rightarrow> string result" where
  "format_string len s = (if length s < len then Inr s else fail ''Result too long'')"

definition enum_add_label ::
    "(u8 \<Rightarrow> 'w::len word) \<Rightarrow> nat \<Rightarrow> 'w enumeration \<Rightarrow> string \<Rightarrow>
     ((unit result \<times> string) \<times> 'w enumeration) option" where
  "enum_add_label cast lw en line =
     (case p_then (parse_uint lw)
             (\<lambda>ix. p_then parse_whitespace (\<lambda>_. p_then parse_utf8_string (\<lambda>s. p_return (ix, s)))) line of
        (Inl e, rest) \<Rightarrow> Some ((Inl e, rest), en)
      | (Inr (ix, enum_string), rest) \<Rightarrow>
          map_option (\<lambda>(r, en'). ((r, rest), en')) (add_enumeration cast en enum_string ix))"

definition enum_parse :: "'w::len enumeration \<Rightarrow> string \<Rightarrow> (u32 result \<times> string) option" where
  "enum_parse en s =
     map_option (\<lambda>r. case r of
         None \<Rightarrow> (fail ''Invalid enumeration value'', s)
       | Some v \<Rightarrow> (Inr v, []))
       (enum_name_to_index en s)"

definition format_enumeration :: "'w::len enumeration \<Rightarrow> u32 \<Rightarrow> nat \<Rightarrow> string result" where
  "format_enumeration en v len =
     (case enum_index_to_name en v of
        None \<Rightarrow> fail ''No label for value''
      | Some label \<Rightarrow> format_string len label)"

definition enum_format :: "'w::len enumeration \<Rightarrow> u32 \<Rightarrow> nat \<Rightarrow> string result" where
  "enum_format en v len = format_enumeration en v len"

section \<open>Searching\<close>

definition enum_sorted :: "enum_set \<Rightarrow> bool" where
  "enum_sorted es = sorted_wrt (\<lambda>a b. ee_value a < ee_value b) es"

lemma enum_sortedD:
  "enum_sorted es \<Longrightarrow> i < j \<Longrightarrow> j < length es \<Longrightarrow> unat (ee_value (es ! i)) < unat (ee_value (es ! j))"
  by (simp add: enum_sorted_def sorted_wrt_iff_nth_less word_less_nat_alt)

lemma sorted_from_iff:
  "sorted_from v es \<longleftrightarrow> (\<forall>e \<in> set es. v < ee_value e) \<and> enum_sorted es"
proof (induction es arbitrary: v)
  case (Cons e es)
  then show ?case by (auto simp: enum_sorted_def not_le intro: less_trans)
qed (simp add: enum_sorted_def)

lemma check_sorted_iff: "check_sorted_enum_set es = enum_sorted es"
  by (cases es) (auto simp: check_sorted_enum_set_def sorted_from_iff enum_sorted_def)

lemma bisect_partition:
  assumes "enum_sorted es" "left \<le> right" "right \<le> length es"
    and "\<forall>i < left. unat (ee_value (es ! i)) < v"
    and "\<forall>i. right \<le> i \<and> i < length es \<longrightarrow> v \<le> unat (ee_value (es ! i))"
  shows "bisect es v left right \<le> length es \<and>
    (\<forall>i < bisect es v left right. unat (ee_value (es ! i)) < v) \<and>
    (\<forall>i. bisect es v left right \<le> i \<and> i < length es \<longrightarrow> v \<le> unat (ee_value (es ! i)))"
  using assms
proof (induction es v left right rule: bisect.induct)
  case (1 es v left right)
  show ?case
  proof (cases "left < right")
    case False
    with "1.prems" have "left = right" by simp
    with "1.prems" show ?thesis by (simp add: bisect.simps [of es v right right])
  next
    case True
    define centre where "centre = (left + right) div 2"
    have c: "left \<le> centre" "centre < right" using True by (auto simp: centre_def)
    show ?thesis
    proof (cases "v \<le> unat (ee_value (es ! centre))")
      case le: True
      have "\<forall>i. centre \<le> i \<and> i < length es \<longrightarrow> v \<le> unat (ee_value (es ! i))"
        using le enum_sortedD [OF "1.prems"(1), of centre] by (metis le_less le_trans less_imp_le_nat)
      with "1.IH"(1) [OF True centre_def le] "1.prems" c True le show ?thesis
        by (simp add: bisect.simps [of es v left right] centre_def [symmetric] Let_def)
    next
      case False
      have "\<forall>i < centre + 1. unat (ee_value (es ! i)) < v"
        using False enum_sortedD [OF "1.prems"(1), of _ centre] c "1.prems"(3)
        by (auto simp: less_Suc_eq not_le intro: less_trans)
      with "1.IH"(2) [OF True centre_def False] "1.prems" c True False show ?thesis
        by (simp add: bisect.simps [of es v left right] centre_def [symmetric] Let_def)
    qed
  qed
qed

lemma binary_search_partition:
  assumes "enum_sorted es"
  shows "binary_search es v \<le> length es"
    "i < binary_search es v \<Longrightarrow> unat (ee_value (es ! i)) < v"
    "binary_search es v \<le> i \<Longrightarrow> i < length es \<Longrightarrow> v \<le> unat (ee_value (es ! i))"
  using bisect_partition [OF assms, of 0 "length es" v] by (auto simp: binary_search_def)

lemma enum_sorted_distinct: "enum_sorted es \<Longrightarrow> distinct (map ee_value es)"
  unfolding enum_sorted_def
  by (induction es) (auto)

lemma enum_index_to_name_iff:
  assumes "enum_sorted (enum_set en)"
  shows "enum_index_to_name en v = Some s \<longleftrightarrow>
    (\<exists>e \<in> set (enum_set en). ee_value e = v \<and> ee_name e = Some s)"
proof -
  let ?es = "enum_set en"
  let ?ix = "binary_search ?es (unat v)"
  note part = binary_search_partition [OF assms, where v = "unat v"]
  show ?thesis
  proof
    assume "enum_index_to_name en v = Some s"
    then show "\<exists>e \<in> set ?es. ee_value e = v \<and> ee_name e = Some s"
      by (auto simp: enum_index_to_name_def Let_def split: if_splits)
  next
    assume "\<exists>e \<in> set ?es. ee_value e = v \<and> ee_name e = Some s"
    then obtain i where i: "i < length ?es" "ee_value (?es ! i) = v" "ee_name (?es ! i) = Some s"
      by (auto simp: in_set_conv_nth)
    have "?ix = i"
    proof (rule ccontr)
      assume "?ix \<noteq> i"
      then consider "i < ?ix" | "?ix < i" by linarith
      then show False
      proof cases
        case 1 then show False using part(2) [of i] i by simp
      next
        case 2 then show False
          using part(3) [of ?ix] enum_sortedD [OF assms 2] i by simp
      qed
    qed
    with i show "enum_index_to_name en v = Some s" by (simp add: enum_index_to_name_def)
  qed
qed

lemma linear_search_map_of:
  "list_all (\<lambda>e. ee_name e \<noteq> None) es \<Longrightarrow>
   linear_search es name = map_of (map (\<lambda>e. (the (ee_name e), ee_value e)) es) name"
  by (induction es) auto

section \<open>Consistent enumerations\<close>

definition name_pairs :: "enum_set \<Rightarrow> (string \<times> u32) list" where
  "name_pairs es = map (\<lambda>e. (the (ee_name e), ee_value e)) es"

definition named :: "enum_set \<Rightarrow> bool" where
  "named es = (list_all (\<lambda>e. ee_name e \<noteq> None) es \<and> distinct (map ee_name es))"

definition enum_inv :: "'w::len enumeration \<Rightarrow> bool" where
  "enum_inv en =
     (enum_sorted (enum_set en) \<and> named (enum_set en) \<and>
      (0 < set_capacity en \<longrightarrow> length (enum_set en) \<le> set_capacity en) \<and>
      (case name_map en of None \<Rightarrow> True
       | Some t \<Rightarrow> ht_inv t \<and> ht_map t = map_of (name_pairs (enum_set en))))"

text \<open>Whether \<open>n\<close> more names fit a hash table whose size \<^verbatim>\<open>size_t\<close> can hold.\<close>

definition enum_room :: "nat \<Rightarrow> 'w::len enumeration \<Rightarrow> bool" where
  "enum_room n en =
     (case name_map en of None \<Rightarrow> 16 * (length (enum_set en) + n + 2) \<le> 2 ^ LENGTH('w)
      | Some t \<Rightarrow> ht_room n t)"

definition enum_map :: "'w::len enumeration \<Rightarrow> u32 \<Rightarrow> string option" where
  "enum_map en = map_of (map (\<lambda>e. (ee_value e, the (ee_name e))) (enum_set en))"

lemma named_pairs_distinct: "named es \<Longrightarrow> distinct (map fst (name_pairs es))"
proof (induction es)
  case (Cons e es)
  then show ?case
    by (fastforce simp: named_def name_pairs_def list_all_iff)
qed (simp add: name_pairs_def)

lemma enum_name_to_index_inv:
  assumes "enum_inv en"
  shows "enum_name_to_index en s = Some (map_of (name_pairs (enum_set en)) s)"
proof (cases "name_map en")
  case None
  with assms show ?thesis
    by (simp add: enum_name_to_index_def enum_inv_def named_def linear_search_map_of name_pairs_def)
next
  case (Some t)
  with assms have t: "ht_inv t" "ht_map t = map_of (name_pairs (enum_set en))"
    by (auto simp: enum_inv_def)
  show ?thesis
    using ht.lookup_bool [OF t(1), of s] Some t(2)
    by (auto simp: enum_name_to_index_def split: option.splits)
qed

lemma map_of_name_pairs_iff:
  assumes "named es"
  shows "map_of (name_pairs es) s = Some v \<longleftrightarrow> (\<exists>e \<in> set es. ee_value e = v \<and> ee_name e = Some s)"
proof -
  have "map_of (name_pairs es) s = Some v \<longleftrightarrow> (s, v) \<in> set (name_pairs es)"
    using named_pairs_distinct [OF assms] by (rule map_of_eq_Some_iff)
  then show ?thesis using assms by (force simp: name_pairs_def named_def list_all_iff)
qed

lemma enum_map_iff:
  assumes "enum_sorted (enum_set en)" "named (enum_set en)"
  shows "enum_map en v = Some s \<longleftrightarrow> (\<exists>e \<in> set (enum_set en). ee_value e = v \<and> ee_name e = Some s)"
proof -
  have "distinct (map fst (map (\<lambda>e. (ee_value e, the (ee_name e))) (enum_set en)))"
    using enum_sorted_distinct [OF assms(1)] by (simp add: comp_def)
  from map_of_eq_Some_iff [OF this, of v s] show ?thesis
    using assms(2) by (force simp: enum_map_def named_def list_all_iff)
qed

lemma enum_search_iff:
  assumes "enum_inv en"
  shows "enum_name_to_index en s = Some (Some v) \<longleftrightarrow> enum_index_to_name en v = Some s"
  using assms
  by (simp add: enum_name_to_index_inv map_of_name_pairs_iff enum_index_to_name_iff enum_inv_def)

text \<open>
  On a consistent enumeration the two searches are inverse to each other: a name has the value
  \<open>v\<close> exactly when the value \<open>v\<close> has that name, whether the names are searched linearly or in the
  hash table.
\<close>

theorem enum_searches_inverse:
  assumes "enum_inv en"
  shows "enum_name_to_index en s = Some (Some v) \<longleftrightarrow> enum_index_to_name en v = Some s"
  using assms by (rule enum_search_iff)

definition trigger_enum :: "32 enumeration" where
  "trigger_enum = \<lparr>set_capacity = 4,
     enum_set = [\<lparr>ee_value = 0, ee_name = Some ''Rising''\<rparr>, \<lparr>ee_value = 5, ee_name = Some ''Falling''\<rparr>],
     name_map = None\<rparr>"

lemma trigger_enum_inv: "enum_inv trigger_enum" "0 < set_capacity trigger_enum" "enum_room (Suc 0) trigger_enum"
  by (simp_all add: trigger_enum_def enum_inv_def enum_sorted_def named_def enum_room_def)

theorem enum_searches_inverse_witness:
  "enum_name_to_index trigger_enum ''Falling'' = Some (Some 5) \<and> enum_index_to_name trigger_enum 5 = Some ''Falling''"
proof -
  have "enum_name_to_index trigger_enum ''Falling'' = Some (Some 5)"
    by (simp add: trigger_enum_def enum_name_to_index_def)
  with enum_searches_inverse [OF trigger_enum_inv(1), of "''Falling''" 5] show ?thesis by simp
qed

lemma word_length_4:
  assumes "16 * (n + 2) \<le> (2 :: nat) ^ LENGTH('w::len)"
  shows "3 < LENGTH('w)"
proof (rule ccontr)
  assume "\<not> 3 < LENGTH('w)"
  then have "(2 :: nat) ^ LENGTH('w) \<le> 2 ^ 3" by (intro power_increasing) simp_all
  with assms show False by simp
qed

lemma create_hash_table_ok:
  fixes en :: "'w::len enumeration"
  assumes "enum_inv en" "name_map en = None" "enum_room n en"
  shows "\<exists>t. create_hash_table cast en = Some (en\<lparr>name_map := Some t\<rparr>) \<and>
    enum_inv (en\<lparr>name_map := Some t\<rparr>) \<and> enum_room n (en\<lparr>name_map := Some t\<rparr>)"
proof -
  have room: "16 * (length (name_pairs (enum_set en)) + n + 2) \<le> (2 :: nat) ^ LENGTH('w)"
    using assms(2,3) by (simp add: enum_room_def name_pairs_def)
  let ?t0 = "hash_table_create cast False :: ('w, string, u32) hash_table"
  have t0: "ht_inv ?t0" "ht_map ?t0 = Map.empty" "ht_room (length (name_pairs (enum_set en)) + n) ?t0"
    using hash_table_create_spec [OF word_length_4 [OF room]] hash_table_create_room [OF room]
    by (simp_all add: hash_table_create_def)
  from ht.insert_seq_map [OF t0(1,3)] obtain t where
    "insert_seq hash_table_insert (name_pairs (enum_set en)) ?t0 = Some t" "ht_inv t" "ht_room n t"
    "ht_map t = map_of (name_pairs (enum_set en))"
    using named_pairs_distinct assms(1) t0(2) by (auto simp: enum_inv_def)
  with assms(1) show ?thesis
    by (auto simp: create_hash_table_def name_pairs_def enum_inv_def named_def enum_room_def)
qed

lemma ensure_hash_table_ok:
  fixes en :: "'w::len enumeration"
  assumes "enum_inv en" "enum_room n en"
  shows "\<exists>en'. ensure_hash_table cast en = Some en' \<and> enum_inv en' \<and> enum_room n en' \<and>
    enum_set en' = enum_set en \<and> set_capacity en' = set_capacity en"
  using create_hash_table_ok [OF assms(1) _ assms(2), of cast] assms
  by (auto simp: ensure_hash_table_def)

lemma grow_enumeration_ok:
  assumes "enum_inv en" "0 < set_capacity en"
  shows "enum_inv (grow_enumeration en)" "length (enum_set en) < set_capacity (grow_enumeration en)"
    "enum_room n (grow_enumeration en) = enum_room n en"
    "enum_set (grow_enumeration en) = enum_set en"
  using assms by (auto simp: grow_enumeration_def enum_inv_def enum_room_def split: option.splits)

lemma enum_sorted_insert:
  assumes "enum_sorted es" "ix \<le> length es" "\<forall>i < ix. ee_value (es ! i) < ee_value e"
    "\<forall>i. ix \<le> i \<and> i < length es \<longrightarrow> ee_value e < ee_value (es ! i)"
  shows "enum_sorted (take ix es @ e # drop ix es)"
proof -
  have "sorted_wrt (\<lambda>a b. ee_value a < ee_value b) (take ix es @ drop ix es)"
    using assms(1) by (simp add: enum_sorted_def)
  moreover have "\<forall>a \<in> set (take ix es). ee_value a < ee_value e"
    using assms(2,3) by (auto simp: in_set_conv_nth)
  moreover have "\<forall>b \<in> set (drop ix es). ee_value e < ee_value b"
    using assms(4) by (auto simp: in_set_conv_nth)
  ultimately show ?thesis
    unfolding enum_sorted_def sorted_wrt_append by (auto intro: less_trans)
qed

lemma insert_new_enum_ok:
  fixes en :: "'w::len enumeration" and v :: u32
  assumes inv: "enum_inv en" and cap: "length (enum_set en) < set_capacity en" and room: "enum_room (Suc n) en"
    and new: "v \<notin> dom (enum_map en)" "map_of (name_pairs (enum_set en)) s = None"
  defines "ix \<equiv> binary_search (enum_set en) (unat v)"
  shows "\<exists>en'. insert_new_enum en s v ix = Some en' \<and> enum_inv en' \<and> enum_room n en' \<and>
    0 < set_capacity en' \<and> enum_map en' = (enum_map en)(v \<mapsto> s)"
proof -
  let ?e = "\<lparr>ee_value = v, ee_name = Some s\<rparr>" and ?es = "enum_set en"
  define es' where "es' = take ix ?es @ ?e # drop ix ?es"
  have srt: "enum_sorted ?es" and nm: "named ?es" using inv by (auto simp: enum_inv_def)
  note part = binary_search_partition [OF srt, where v = "unat v", folded ix_def]
  have vnew: "ee_value e \<noteq> v" if "e \<in> set ?es" for e
  proof
    assume v: "ee_value e = v"
    from that nm obtain s' where "ee_name e = Some s'" by (auto simp: named_def list_all_iff)
    with that v have "enum_map en v = Some s'" using enum_map_iff [OF srt nm] by blast
    with new(1) show False by auto
  qed
  have snew: "ee_name e \<noteq> Some s" if "e \<in> set ?es" for e
    using that new(2) map_of_name_pairs_iff [OF nm, of s "ee_value e"] by auto
  have srt': "enum_sorted es'"
  unfolding es'_def
  proof (rule enum_sorted_insert [OF srt part(1)])
    show "\<forall>i < ix. ee_value (?es ! i) < ee_value ?e"
      using part(2) by (simp add: word_less_nat_alt)
    show "\<forall>i. ix \<le> i \<and> i < length ?es \<longrightarrow> ee_value ?e < ee_value (?es ! i)"
    proof (intro allI impI)
      fix i assume i: "ix \<le> i \<and> i < length ?es"
      then have "v \<le> ee_value (?es ! i)" using part(3) by (simp add: word_le_nat_alt)
      moreover have "ee_value (?es ! i) \<noteq> v" using vnew i by simp
      ultimately show "ee_value ?e < ee_value (?es ! i)" by simp
    qed
  qed
  have set': "set es' = insert ?e (set ?es)"
    unfolding es'_def by (metis (no_types) append_take_drop_id list.simps(15) set_append Un_insert_right)
  have mset': "mset es' = add_mset ?e (mset ?es)"
    unfolding es'_def by (metis append_take_drop_id mset.simps(2) mset_append union_mset_add_mset_right)
  have len': "length es' = Suc (length ?es)" unfolding es'_def by simp
  have nm': "named es'"
  proof -
    have "distinct (map ee_name (?e # ?es))" using nm snew by (force simp: named_def)
    moreover have "mset (map ee_name es') = mset (map ee_name (?e # ?es))"
      unfolding mset_map mset' by simp
    ultimately have "distinct (map ee_name es')" by (metis mset_eq_imp_distinct_iff)
    with nm set' show ?thesis by (simp add: named_def list_all_iff)
  qed
  have emap: "enum_map (en\<lparr>enum_set := es', name_map := mp\<rparr>) = (enum_map en)(v \<mapsto> s)" for mp
  proof
    fix w
    have "enum_map (en\<lparr>enum_set := es', name_map := mp\<rparr>) w = Some x \<longleftrightarrow> ((enum_map en)(v \<mapsto> s)) w = Some x" for x
      using enum_map_iff [of "en\<lparr>enum_set := es', name_map := mp\<rparr>" w x] srt' nm' set'
        enum_map_iff [OF srt nm, of w x] vnew by auto
    then show "enum_map (en\<lparr>enum_set := es', name_map := mp\<rparr>) w = ((enum_map en)(v \<mapsto> s)) w"
      by (metis not_None_eq)
  qed
  have pairs: "map_of (name_pairs es') = (map_of (name_pairs ?es))(s \<mapsto> v)"
  proof
    fix w
    have "map_of (name_pairs es') w = Some x \<longleftrightarrow> ((map_of (name_pairs ?es))(s \<mapsto> v)) w = Some x" for x
      using map_of_name_pairs_iff [OF nm', of w x] set' map_of_name_pairs_iff [OF nm, of w x] snew by auto
    then show "map_of (name_pairs es') w = ((map_of (name_pairs ?es))(s \<mapsto> v)) w"
      by (metis not_None_eq)
  qed
  show ?thesis
  proof (cases "name_map en")
    case None
    have "en\<lparr>enum_set := es'\<rparr> = en\<lparr>enum_set := es', name_map := None\<rparr>" using None by simp
    with emap [of None] srt' nm' cap room None show ?thesis
      by (auto simp: insert_new_enum_def es'_def [symmetric] len' enum_inv_def enum_room_def)
  next
    case (Some t)
    with inv room have t: "ht_inv t" "ht_map t = map_of (name_pairs ?es)" "ht_room (Suc n) t"
      by (auto simp: enum_inv_def enum_room_def)
    obtain t' where "hash_table_insert t s v = Some (t', 0)" "ht_inv t'" "ht_room n t'"
      "ht_map t' = (ht_map t)(s \<mapsto> v)"
      using ht.insert_new [OF t(1,3), of s v] new(2) t(2) by auto
    with emap [of "Some t'"] srt' nm' cap Some t(2) pairs show ?thesis
      by (auto simp: insert_new_enum_def es'_def [symmetric] len' enum_inv_def enum_room_def simp del: fun_upd_apply)
  qed
qed

lemma enum_room_mono: "enum_room (Suc n) en \<Longrightarrow> enum_room n en"
  by (auto simp: enum_room_def ht_room_def split: option.splits)

lemma dom_enum_map_search:
  fixes en :: "'w::len enumeration" and v :: u32
  assumes "enum_inv en"
  defines "ix \<equiv> binary_search (enum_set en) (unat v)"
  shows "v \<notin> dom (enum_map en) \<longleftrightarrow> length (enum_set en) - ix = 0 \<or> v < ee_value (enum_set en ! ix)"
proof -
  have srt: "enum_sorted (enum_set en)" and nm: "named (enum_set en)" using assms(1) by (auto simp: enum_inv_def)
  have "enum_map en v = Some s \<longleftrightarrow> enum_index_to_name en v = Some s" for s
    by (simp add: enum_map_iff [OF srt nm] enum_index_to_name_iff [OF srt])
  then have "enum_map en v = enum_index_to_name en v" by (metis not_None_eq)
  moreover have "ix < length (enum_set en) \<Longrightarrow> ee_name (enum_set en ! ix) \<noteq> None"
    using nm by (simp add: named_def list_all_length)
  moreover have "ix < length (enum_set en) \<Longrightarrow> v \<le> ee_value (enum_set en ! ix)"
    using binary_search_partition(3) [OF srt, where v = "unat v", of ix]
    by (simp add: ix_def word_le_nat_alt)
  ultimately show ?thesis
    by (cases "ix < length (enum_set en)")
      (auto simp: domIff enum_index_to_name_def ix_def [symmetric] Let_def split: if_splits)
qed

lemma ran_enum_map_search:
  assumes "enum_inv en"
  shows "s \<in> ran (enum_map en) \<longleftrightarrow> map_of (name_pairs (enum_set en)) s \<noteq> None"
proof -
  have srt: "enum_sorted (enum_set en)" and nm: "named (enum_set en)" using assms by (auto simp: enum_inv_def)
  show ?thesis
    unfolding ran_def using enum_map_iff [OF srt nm] map_of_name_pairs_iff [OF nm] by auto
qed

lemma add_enumeration_map:
  fixes en :: "'w::len enumeration"
  assumes "enum_inv en" "0 < set_capacity en" "enum_room (Suc n) en"
  shows "\<exists>en'. add_enumeration cast en s v =
      Some (if v \<in> dom (enum_map en) then fail ''Repeated enumeration index''
            else if s \<in> ran (enum_map en) then fail ''Repeated enumeration name'' else Inr (), en') \<and>
    enum_inv en' \<and> 0 < set_capacity en' \<and> enum_room n en' \<and>
    enum_map en' = (if v \<in> dom (enum_map en) \<or> s \<in> ran (enum_map en) then enum_map en
                    else (enum_map en)(v \<mapsto> s))"
proof -
  note g = grow_enumeration_ok [OF assms(1,2)]
  obtain en1 where en1: "ensure_hash_table cast (grow_enumeration en) = Some en1" "enum_inv en1"
    "enum_room (Suc n) en1" "enum_set en1 = enum_set en" "set_capacity en1 = set_capacity (grow_enumeration en)"
    using ensure_hash_table_ok [OF g(1), of "Suc n" cast] assms(3) g(3,4) by auto
  have cap: "length (enum_set en1) < set_capacity en1" using en1 g(2) by simp
  have same: "enum_map en1 = enum_map en" by (simp add: enum_map_def en1)
  note dm = dom_enum_map_search [OF en1(2), of v]
  note rn = ran_enum_map_search [OF en1(2), of s]
  note nx = enum_name_to_index_inv [OF en1(2), of s]
  consider (dup) "v \<in> dom (enum_map en1)" | (name) "v \<notin> dom (enum_map en1)" "s \<in> ran (enum_map en1)"
    | (new) "v \<notin> dom (enum_map en1)" "s \<notin> ran (enum_map en1)" by blast
  then show ?thesis
  proof cases
    case dup
    with dm have "add_enumeration cast en s v = Some (fail ''Repeated enumeration index'', en1)"
      using assms(2) en1(1) by (simp add: add_enumeration_def Let_def)
    with dup en1 cap same enum_room_mono show ?thesis by auto
  next
    case name
    with dm rn nx have "add_enumeration cast en s v = Some (fail ''Repeated enumeration name'', en1)"
      using assms(2) en1(1) by (auto simp: add_enumeration_def Let_def)
    with name en1 cap same enum_room_mono show ?thesis by auto
  next
    case new
    then have none: "map_of (name_pairs (enum_set en1)) s = None" using rn by blast
    from insert_new_enum_ok [OF en1(2) cap en1(3) new(1) none] obtain en2 where
      en2: "insert_new_enum en1 s v (binary_search (enum_set en1) (unat v)) = Some en2"
      "enum_inv en2" "enum_room n en2" "0 < set_capacity en2" "enum_map en2 = (enum_map en1)(v \<mapsto> s)"
      by blast
    have "add_enumeration cast en s v = Some (Inr (), en2)"
      using assms(2) en1(1) new(1) dm nx none en2(1) by (simp add: add_enumeration_def Let_def)
    with new en2 same show ?thesis by auto
  qed
qed

text \<open>
  C31: adding a label to a consistent dynamic enumeration refines an update of the map from
  values to names: a value in use and a name in use are refused, in this order and without
  changing the map; otherwise the value is bound to the name.  The enumeration stays consistent,
  and no assertion fails and no write leaves the array on the way, through the growth of the array
  and the creation of the hash table at the fifth entry.
\<close>

theorem add_enumeration_correct:
  fixes en :: "'w::len enumeration"
  assumes "enum_inv en" "0 < set_capacity en" "enum_room (Suc n) en"
  shows "\<exists>en'. add_enumeration cast en s v =
      Some (if v \<in> dom (enum_map en) then fail ''Repeated enumeration index''
            else if s \<in> ran (enum_map en) then fail ''Repeated enumeration name'' else Inr (), en') \<and>
    enum_inv en' \<and> 0 < set_capacity en' \<and> enum_room n en' \<and>
    enum_map en' = (if v \<in> dom (enum_map en) \<or> s \<in> ran (enum_map en) then enum_map en
                    else (enum_map en)(v \<mapsto> s))"
  by (rule add_enumeration_map [OF assms])

theorem add_enumeration_correct_witness:
  "\<exists>en'. add_enumeration ucast trigger_enum ''Either'' 3 = Some (Inr (), en') \<and>
    enum_map en' = [0 \<mapsto> ''Rising'', 5 \<mapsto> ''Falling'', 3 \<mapsto> ''Either'']"
proof -
  have m: "enum_map trigger_enum = [0 \<mapsto> ''Rising'', 5 \<mapsto> ''Falling'']"
    by (auto simp: enum_map_def trigger_enum_def)
  have "(3 :: u32) \<notin> dom (enum_map trigger_enum)" "''Either'' \<notin> ran (enum_map trigger_enum)"
    unfolding m by (auto simp: ran_def split: if_splits)
  with add_enumeration_correct [OF trigger_enum_inv, of ucast "''Either''" 3] show ?thesis
    unfolding m by (simp del: fun_upd_apply) blast
qed

text \<open>
  A static table of distinctly named entries is accepted exactly when its values are strictly
  ascending, and then makes a consistent enumeration with these entries, hashed or not; an
  unsorted table fails the assertion.
\<close>

theorem create_static_enumeration_correct:
  fixes es :: enum_set
  assumes "named es" "16 * (length es + 2) \<le> 2 ^ LENGTH('w::len)"
  shows "if enum_sorted es
    then \<exists>en :: 'w enumeration. create_static_enumeration cast es = Some en \<and> enum_inv en \<and>
      enum_set en = es \<and> (name_map en \<noteq> None \<longleftrightarrow> length es > HASH_TABLE_THRESHOLD)
    else create_static_enumeration cast es = (None :: 'w enumeration option)"
proof (cases "enum_sorted es")
  case False
  then show ?thesis by (simp add: create_static_enumeration_def check_sorted_iff)
next
  case True
  let ?en = "\<lparr>set_capacity = 0, enum_set = es, name_map = None\<rparr> :: 'w enumeration"
  have "enum_inv ?en" "enum_room 0 ?en" using True assms by (simp_all add: enum_inv_def enum_room_def)
  with create_hash_table_ok [of ?en 0 cast] True show ?thesis
    by (auto simp: create_static_enumeration_def check_sorted_iff Let_def)
qed

theorem create_static_enumeration_correct_witness:
  "\<exists>en :: 32 enumeration. create_static_enumeration ucast
      [\<lparr>ee_value = 1, ee_name = Some ''A''\<rparr>, \<lparr>ee_value = 2, ee_name = Some ''B''\<rparr>,
       \<lparr>ee_value = 4, ee_name = Some ''C''\<rparr>, \<lparr>ee_value = 8, ee_name = Some ''D''\<rparr>,
       \<lparr>ee_value = 9, ee_name = Some ''E''\<rparr>] = Some en \<and> enum_inv en \<and> name_map en \<noteq> None"
  using create_static_enumeration_correct [where 'w = 32 and cast = ucast and es =
      "[\<lparr>ee_value = 1, ee_name = Some ''A''\<rparr>, \<lparr>ee_value = 2, ee_name = Some ''B''\<rparr>,
       \<lparr>ee_value = 4, ee_name = Some ''C''\<rparr>, \<lparr>ee_value = 8, ee_name = Some ''D''\<rparr>,
       \<lparr>ee_value = 9, ee_name = Some ''E''\<rparr>]"]
  by (auto simp: named_def enum_sorted_def HASH_TABLE_THRESHOLD_def)

section \<open>What users of an enumeration rely on\<close>

text \<open>Labels added one after the other until one is refused.\<close>

fun add_labels :: "('e \<Rightarrow> string \<Rightarrow> u32 \<Rightarrow> (unit result \<times> 'e) option) \<Rightarrow> (string \<times> u32) list \<Rightarrow> 'e \<Rightarrow> (unit result \<times> 'e) option" where
  "add_labels add [] en = Some (Inr (), en)"
| "add_labels add ((s, v) # labels) en =
     (case add en s v of
        None \<Rightarrow> None
      | Some (Inl e, en) \<Rightarrow> Some (Inl e, en)
      | Some (Inr _, en) \<Rightarrow> add_labels add labels en)"

definition label_map_of :: "(string \<times> u32) list \<Rightarrow> u32 \<Rightarrow> string option" where
  "label_map_of labels = map_of (map (\<lambda>(s, v). (v, s)) labels)"

locale label_map =
  fixes add :: "'e \<Rightarrow> string \<Rightarrow> u32 \<Rightarrow> (unit result \<times> 'e) option"
    and name_to_index :: "'e \<Rightarrow> string \<Rightarrow> u32 option option"
    and kept :: "'e \<Rightarrow> bool" and room :: "nat \<Rightarrow> 'e \<Rightarrow> bool" and label :: "'e \<Rightarrow> u32 \<Rightarrow> string option"
  assumes add_law: "kept en \<Longrightarrow> room (Suc n) en \<Longrightarrow>
      \<exists>en' r. add en s v = Some (r, en') \<and> kept en' \<and> room n en' \<and> is_ok r = (v \<notin> dom (label en) \<and> s \<notin> ran (label en)) \<and>
        label en' = (if is_ok r then (label en)(v \<mapsto> s) else label en)"
    and search_law: "kept en \<Longrightarrow> \<exists>r. name_to_index en s = Some r \<and> (\<forall>v. r = Some v \<longleftrightarrow> label en v = Some s)"
begin

lemma add_labels_accepted:
  assumes "kept en" "room (length ls) en"
  shows "\<exists>r en'. add_labels add ls en = Some (r, en') \<and> kept en' \<and>
    (is_ok r \<longrightarrow> distinct (map snd ls) \<and> snd ` set ls \<inter> dom (label en) = {} \<and> label en' = label en ++ label_map_of ls)"
  using assms
proof (induction ls arbitrary: en)
  case Nil
  then show ?case by (simp add: label_map_of_def)
next
  case (Cons l ls)
  obtain s v where l: "l = (s, v)" by (cases l)
  have rm: "room (Suc (length ls)) en" using Cons.prems(2) by simp
  from add_law [OF Cons.prems(1) rm, of s v] obtain r1 en1 where
    1: "add en s v = Some (r1, en1)" "kept en1" "room (length ls) en1" "is_ok r1 = (v \<notin> dom (label en) \<and> s \<notin> ran (label en))"
      "label en1 = (if is_ok r1 then (label en)(v \<mapsto> s) else label en)" by blast
  show ?case
  proof (cases r1)
    case (Inl e)
    with 1 l show ?thesis by simp
  next
    case (Inr u)
    with 1 have fresh: "v \<notin> dom (label en)" and lab: "label en1 = (label en)(v \<mapsto> s)" by auto
    from Cons.IH [OF 1(2,3)] obtain r en' where 2: "add_labels add ls en1 = Some (r, en')" "kept en'"
      "is_ok r \<longrightarrow> distinct (map snd ls) \<and> snd ` set ls \<inter> dom (label en1) = {} \<and> label en' = label en1 ++ label_map_of ls" by blast
    have "label en1 ++ label_map_of ls = label en ++ label_map_of ((s, v) # ls)" if "snd ` set ls \<inter> dom (label en1) = {}"
    proof -
      have "v \<notin> snd ` set ls" using that lab by auto
      then have "label_map_of ls v = None" by (force simp: label_map_of_def map_of_eq_None_iff)
      then show ?thesis unfolding lab by (auto simp: label_map_of_def map_add_def fun_eq_iff split: option.splits)
    qed
    with 2 fresh Inr 1(1) l lab show ?thesis by auto
  qed
qed

lemma add_labels_distinct:
  assumes "kept en" "room (length ls) en" "distinct (map fst ls)" "distinct (map snd ls)"
    "snd ` set ls \<inter> dom (label en) = {}" "fst ` set ls \<inter> ran (label en) = {}"
  shows "\<exists>en'. add_labels add ls en = Some (Inr (), en') \<and> kept en' \<and> label en' = label en ++ label_map_of ls"
proof -
  have "\<exists>en'. add_labels add ls en = Some (Inr (), en')"
    using assms
  proof (induction ls arbitrary: en)
    case (Cons l ls)
    obtain s v where l: "l = (s, v)" by (cases l)
    have rm: "room (Suc (length ls)) en" using Cons.prems(2) by simp
    from add_law [OF Cons.prems(1) rm, of s v] obtain r1 en1 where
      1: "add en s v = Some (r1, en1)" "kept en1" "room (length ls) en1" "is_ok r1 = (v \<notin> dom (label en) \<and> s \<notin> ran (label en))"
        "label en1 = (if is_ok r1 then (label en)(v \<mapsto> s) else label en)" by blast
    have ok: "is_ok r1" using 1(4) Cons.prems(5,6) l by auto
    have sub: "ran (label en1) \<subseteq> insert s (ran (label en))" and dm: "dom (label en1) = insert v (dom (label en))"
      using 1(5) ok by (auto simp: ran_def split: if_splits)
    have "fst ` set ls \<inter> insert s (ran (label en)) = {}" using Cons.prems(3,6) l by auto
    then have "fst ` set ls \<inter> ran (label en1) = {}" using sub by blast
    moreover have "snd ` set ls \<inter> dom (label en1) = {}" using Cons.prems(4,5) l dm by auto
    moreover have "distinct (map fst ls)" "distinct (map snd ls)" using Cons.prems(3,4) by simp_all
    ultimately have "\<exists>en'. add_labels add ls en1 = Some (Inr (), en')" by (intro Cons.IH [OF 1(2,3)])
    then show ?case using 1(1) ok l by (cases r1) auto
  qed simp
  with add_labels_accepted [OF assms(1,2)] show ?thesis by auto
qed

lemma search_label: "kept en \<Longrightarrow> label en v = Some s \<Longrightarrow> name_to_index en s = Some (Some v)"
  using search_law [of en s] by auto

lemma search_found: "kept en \<Longrightarrow> name_to_index en s = Some (Some v) \<Longrightarrow> label en v = Some s"
  using search_law [of en s] by auto

end

interpretation enums: label_map "add_enumeration cast" enum_name_to_index "\<lambda>en. enum_inv en \<and> 0 < set_capacity en" enum_room enum_map
  for cast :: "u8 \<Rightarrow> 'w::len word"
proof
  fix en :: "'w enumeration" and n s v
  assume a: "enum_inv en \<and> 0 < set_capacity en" "enum_room (Suc n) en"
  let ?r = "if v \<in> dom (enum_map en) then fail ''Repeated enumeration index''
    else if s \<in> ran (enum_map en) then fail ''Repeated enumeration name'' else Inr ()"
  obtain en' where "add_enumeration cast en s v = Some (?r, en')" "enum_inv en'" "0 < set_capacity en'" "enum_room n en'"
    "enum_map en' = (if v \<in> dom (enum_map en) \<or> s \<in> ran (enum_map en) then enum_map en else (enum_map en)(v \<mapsto> s))"
    using add_enumeration_map [OF conjunct1 [OF a(1)] conjunct2 [OF a(1)] a(2), of cast s v] by (elim exE conjE) (rule that)
  then show "\<exists>en' r. add_enumeration cast en s v = Some (r, en') \<and> (enum_inv en' \<and> 0 < set_capacity en') \<and> enum_room n en' \<and>
      is_ok r = (v \<notin> dom (enum_map en) \<and> s \<notin> ran (enum_map en)) \<and>
      enum_map en' = (if is_ok r then (enum_map en)(v \<mapsto> s) else enum_map en)"
    by (intro exI [of _ en'] exI [of _ ?r]) (cases "v \<in> dom (enum_map en)"; simp)
next
  fix en :: "'w enumeration" and s
  assume "enum_inv en \<and> 0 < set_capacity en"
  then have inv: "enum_inv en" and srt: "enum_sorted (enum_set en)" "named (enum_set en)" by (auto simp: enum_inv_def)
  show "\<exists>r. enum_name_to_index en s = Some r \<and> (\<forall>v. r = Some v \<longleftrightarrow> enum_map en v = Some s)"
    using enum_map_iff [OF srt] map_of_name_pairs_iff [OF srt(2)]
    by (auto simp: enum_name_to_index_inv [OF inv])
qed

lemma create_dynamic_enumeration_kept:
  "enum_inv (create_dynamic_enumeration :: 'w::len enumeration)" "0 < set_capacity (create_dynamic_enumeration :: 'w::len enumeration)"
  "enum_map (create_dynamic_enumeration :: 'w::len enumeration) = Map.empty"
  by (simp_all add: create_dynamic_enumeration_def enum_inv_def enum_sorted_def named_def INITIAL_CAPACITY_def enum_map_def)

lemma create_dynamic_enumeration_room:
  "16 * (n + 2) \<le> 2 ^ LENGTH('w) \<Longrightarrow> enum_room n (create_dynamic_enumeration :: 'w::len enumeration)"
  by (simp add: enum_room_def create_dynamic_enumeration_def)

end
