(* ===== verification/Panda_Buffer.thy ===== *)
theory Panda_Buffer
  imports Panda_Prelude
begin

text \<open>
  \<^verbatim>\<open>buffer.c\<close>: the circular buffer between the one thread that captures data and the threads that
  send it to their clients.  Each body under \<^verbatim>\<open>WITH_MUTEX\<close> is one atomic step on the buffer; where
  a function waits on the condition variable, the states of the buffer at its wake-ups are an
  argument of the model.  Cycle counters are \<^verbatim>\<open>unsigned int\<close> and wrap.
\<close>

section \<open>Data\<close>

datatype buffer_state = STATE_IDLE | STATE_ACTIVE | STATE_CLEARING

datatype reader_status = READER_STATUS_ALL_READ | READER_STATUS_CLOSED | READER_STATUS_OVERRUN

text \<open>The memory is a list of \<^verbatim>\<open>block_count\<close> blocks, so a block address is its index.\<close>

record capture_buffer =
  block_size :: nat
  block_count :: nat
  released_once :: bool
  blocks :: "u8 list list"
  cb_capture_cycle :: u32
  cb_buffer_cycle :: u32
  shutdown :: bool
  state :: buffer_state
  reader_count :: u32
  active_count :: u32
  in_ptr :: nat
  lost_bytes :: u64
  written :: "nat list"

record reader_state =
  rs_capture_cycle :: u32
  rs_buffer_cycle :: u32
  out_ptr :: nat
  status :: reader_status

section \<open>Writer\<close>

definition start_write :: "capture_buffer \<Rightarrow> capture_buffer" where
  "start_write b = b\<lparr>cb_buffer_cycle := 0, active_count := reader_count b, state := STATE_ACTIVE,
     in_ptr := 0, lost_bytes := 0, released_once := False, written := replicate (block_count b) 0\<rparr>"

definition get_write_block :: "capture_buffer \<Rightarrow> nat" where
  "get_write_block b = in_ptr b"

definition release_write_block :: "capture_buffer \<Rightarrow> nat \<Rightarrow> capture_buffer" where
  "release_write_block b count =
     (let b = b\<lparr>released_once := True,
            lost_bytes := lost_bytes b + word_of_nat (written b ! in_ptr b),
            written := (written b)[in_ptr b := count],
            in_ptr := in_ptr b + 1\<rparr> in
      if in_ptr b \<ge> block_count b then b\<lparr>in_ptr := 0, cb_buffer_cycle := cb_buffer_cycle b + 1\<rparr>
      else b)"

definition advance_capture :: "capture_buffer \<Rightarrow> capture_buffer" where
  "advance_capture b = b\<lparr>state := STATE_IDLE, cb_capture_cycle := cb_capture_cycle b + 1\<rparr>"

definition end_write :: "capture_buffer \<Rightarrow> capture_buffer" where
  "end_write b = (if active_count b > 0 then b\<lparr>state := STATE_CLEARING\<rparr> else advance_capture b)"

definition complete_capture :: "capture_buffer \<Rightarrow> capture_buffer" where
  "complete_capture b =
     (let b = b\<lparr>active_count := active_count b - 1\<rparr> in
      if active_count b = 0 \<and> state b = STATE_CLEARING then advance_capture b else b)"

definition add_reader :: "capture_buffer \<Rightarrow> u32 \<times> capture_buffer" where
  "add_reader b =
     (let b' = b\<lparr>reader_count := reader_count b + 1\<rparr> in
      (cb_capture_cycle b,
       if state b \<noteq> STATE_IDLE then b'\<lparr>active_count := active_count b + 1\<rparr> else b'))"

definition remove_reader :: "capture_buffer \<Rightarrow> u32 \<Rightarrow> capture_buffer" where
  "remove_reader b cycle =
     (let b = b\<lparr>reader_count := reader_count b - 1\<rparr> in
      if state b \<noteq> STATE_IDLE \<and> cb_capture_cycle b = cycle then complete_capture b else b)"

definition shutdown_buffer :: "capture_buffer \<Rightarrow> capture_buffer" where
  "shutdown_buffer b = b\<lparr>shutdown := True\<rparr>"

definition read_buffer_status :: "capture_buffer \<Rightarrow> bool \<times> u32 \<times> u32" where
  "read_buffer_status b = (state b \<noteq> STATE_IDLE, reader_count b, active_count b)"

section \<open>Readers\<close>

definition create_reader :: "capture_buffer \<Rightarrow> reader_state \<times> capture_buffer" where
  "create_reader b =
     (let (cycle, b') = add_reader b in
      (\<lparr>rs_capture_cycle = cycle, rs_buffer_cycle = 0, out_ptr = 0, status = READER_STATUS_ALL_READ\<rparr>, b'))"

definition destroy_reader :: "reader_state \<Rightarrow> capture_buffer \<Rightarrow> capture_buffer" where
  "destroy_reader r b = remove_reader b (rs_capture_cycle r)"

text \<open>The loop runs forever when \<^verbatim>\<open>out_ptr\<close> is no index of the buffer.\<close>

partial_function (option) count_lost_from :: "capture_buffer \<Rightarrow> nat \<Rightarrow> nat \<Rightarrow> u64 \<Rightarrow> u64 option" where
  "count_lost_from b ix out lost =
     (if ix = out then Some lost
      else count_lost_from b (if ix + 1 \<ge> block_count b then 0 else ix + 1) out
        (lost + word_of_nat (written b ! ix)))"

definition count_lost_bytes :: "capture_buffer \<Rightarrow> nat \<Rightarrow> u64 option" where
  "count_lost_bytes b out = count_lost_from b (in_ptr b) out (lost_bytes b)"

definition compute_reader_start ::
    "reader_state \<Rightarrow> capture_buffer \<Rightarrow> nat \<Rightarrow> (reader_state \<times> u64) option" where
  "compute_reader_start r b read_margin =
     (if cb_buffer_cycle b = 0 \<and> in_ptr b + read_margin + 1 < block_count b then
        Some (r\<lparr>rs_buffer_cycle := 0, out_ptr := 0\<rparr>, 0)
      else
        (let out = in_ptr b + read_margin + 1;
             r = (if out \<ge> block_count b
                  then r\<lparr>rs_buffer_cycle := cb_buffer_cycle b, out_ptr := out - block_count b\<rparr>
                  else r\<lparr>rs_buffer_cycle := cb_buffer_cycle b - 1, out_ptr := out\<rparr>) in
         map_option (\<lambda>lost. (r, lost)) (count_lost_bytes b (out_ptr r))))"

text \<open>A wait ends by a signal, with the buffer as it is then, or by the deadline.\<close>

datatype wakeup = Signalled capture_buffer | Deadline

text \<open>\<open>None\<close>: the thread is still waiting when the given wake-ups are used up.\<close>

fun wait_for_buffer_ready ::
    "reader_state \<Rightarrow> capture_buffer \<Rightarrow> wakeup list \<Rightarrow> (bool \<times> capture_buffer) option" where
  "wait_for_buffer_ready r b wakeups =
     (if shutdown b then Some (False, b)
      else if state b \<noteq> STATE_IDLE \<and> cb_capture_cycle b = rs_capture_cycle r then Some (released_once b, b)
      else (case wakeups of
          [] \<Rightarrow> None
        | Deadline # _ \<Rightarrow> Some (False, b)
        | Signalled b' # ws \<Rightarrow> wait_for_buffer_ready r b' ws))"

declare wait_for_buffer_ready.simps [simp del]

definition open_reader ::
    "reader_state \<Rightarrow> capture_buffer \<Rightarrow> nat \<Rightarrow> wakeup list \<Rightarrow>
     ((reader_state \<times> u64) option \<times> capture_buffer) option" where
  "open_reader r b read_margin wakeups =
     (case wait_for_buffer_ready r b wakeups of
        None \<Rightarrow> None
      | Some (False, b') \<Rightarrow> Some (None, b')
      | Some (True, b') \<Rightarrow>
          map_option (\<lambda>(r', lost). (Some (r'\<lparr>status := READER_STATUS_CLOSED\<rparr>, lost), b'))
            (compute_reader_start (r\<lparr>rs_capture_cycle := cb_capture_cycle b'\<rparr>) b' read_margin))"

definition close_reader ::
    "reader_state \<Rightarrow> capture_buffer \<Rightarrow> reader_status \<times> reader_state \<times> capture_buffer" where
  "close_reader r b =
     (status r, r\<lparr>rs_capture_cycle := rs_capture_cycle r + 1\<rparr>, complete_capture b)"

definition check_overrun_ok :: "u32 \<Rightarrow> u32 \<Rightarrow> nat \<Rightarrow> nat \<Rightarrow> bool" where
  "check_overrun_ok buffer_cycle reader_buffer_cycle inp outp =
     (if inp = outp then False
      else if inp > outp then buffer_cycle = reader_buffer_cycle
      else buffer_cycle = reader_buffer_cycle + 1)"

definition check_block_status ::
    "reader_state \<Rightarrow> capture_buffer \<Rightarrow> u32 \<Rightarrow> nat \<Rightarrow> bool \<times> reader_state" where
  "check_block_status r b reader_buffer_cycle outp =
     (let ok = check_overrun_ok (cb_buffer_cycle b) reader_buffer_cycle (in_ptr b) outp in
      (ok, if ok then r else r\<lparr>status := READER_STATUS_OVERRUN\<rparr>))"

definition check_read_block :: "reader_state \<Rightarrow> capture_buffer \<Rightarrow> bool \<times> reader_state" where
  "check_read_block r b =
     (if out_ptr r > 0 then check_block_status r b (rs_buffer_cycle r) (out_ptr r - 1)
      else check_block_status r b (rs_buffer_cycle r - 1) (block_count b - 1))"

text \<open>The results \<^verbatim>\<open>all_read\<close> and \<^verbatim>\<open>timeout_occurred\<close>, and the buffer when the wait is over.\<close>

fun wait_for_block_ready ::
    "reader_state \<Rightarrow> capture_buffer \<Rightarrow> wakeup list \<Rightarrow> (bool \<times> bool \<times> capture_buffer) option" where
  "wait_for_block_ready r b wakeups =
     (if shutdown b then Some (False, False, b)
      else if \<not> (cb_buffer_cycle b = rs_buffer_cycle r \<and> in_ptr b = out_ptr r) then Some (False, False, b)
      else if state b = STATE_CLEARING then Some (True, False, b)
      else (case wakeups of
          [] \<Rightarrow> None
        | Deadline # _ \<Rightarrow> Some (False, True, b)
        | Signalled b' # ws \<Rightarrow> wait_for_block_ready r b' ws))"

declare wait_for_block_ready.simps [simp del]

text \<open>What \<^verbatim>\<open>get_read_block\<close> returns: \<^verbatim>\<open>NULL\<close>, the empty dummy block, or a block and its length.\<close>

datatype read_block = NullBlock | DummyBlock | Block nat nat

definition next_block :: "reader_state \<Rightarrow> nat \<Rightarrow> reader_state" where
  "next_block r count =
     (if out_ptr r + 1 \<ge> count then r\<lparr>out_ptr := 0, rs_buffer_cycle := rs_buffer_cycle r + 1\<rparr>
      else r\<lparr>out_ptr := out_ptr r + 1\<rparr>)"

text \<open>
  The mutex is released between the wait, the check of the block and the reading of its length:
  \<open>b1\<close> and \<open>b2\<close> are the buffer at the last two.
\<close>

definition get_read_block ::
    "reader_state \<Rightarrow> capture_buffer \<Rightarrow> wakeup list \<Rightarrow> capture_buffer \<Rightarrow> capture_buffer \<Rightarrow>
     (read_block \<times> reader_state) option" where
  "get_read_block r b wakeups b1 b2 =
     (if status r \<noteq> READER_STATUS_CLOSED then Some (NullBlock, r)
      else
        (case wait_for_block_ready r b wakeups of
           None \<Rightarrow> None
         | Some (all_read, timeout_occurred, _) \<Rightarrow>
             if timeout_occurred then Some (DummyBlock, r)
             else if all_read then Some (NullBlock, r\<lparr>status := READER_STATUS_ALL_READ\<rparr>)
             else
               (case check_block_status (next_block r (block_count b)) b1 (rs_buffer_cycle r) (out_ptr r) of
                  (ok, r') \<Rightarrow> Some (if ok then Block (out_ptr r) (written b2 ! out_ptr r) else NullBlock, r'))))"

text \<open>The array \<^verbatim>\<open>written\<close> and the memory are not initialised here.\<close>

definition create_buffer :: "nat \<Rightarrow> nat \<Rightarrow> u8 list list \<Rightarrow> nat list \<Rightarrow> capture_buffer" where
  "create_buffer bsize count memory garbage =
     \<lparr>block_size = bsize, block_count = count, released_once = False, blocks = memory,
      cb_capture_cycle = 0, cb_buffer_cycle = 0, shutdown = False, state = STATE_IDLE,
      reader_count = 0, active_count = 0, in_ptr = 0, lost_bytes = 0, written = garbage\<rparr>"

section \<open>Positions\<close>

text \<open>
  Counting blocks from the start of a capture, the writer is at block \<open>n\<close> and a reader wants block
  \<open>k\<close>.  The slot of block \<open>n\<close> is being written, so block \<open>k\<close> is intact exactly when
  \<open>k < n < k + block_count\<close>.
\<close>

definition cycle_of :: "nat \<Rightarrow> nat \<Rightarrow> u32" where
  "cycle_of count n = word_of_nat (n div count)"

definition slot_of :: "nat \<Rightarrow> nat \<Rightarrow> nat" where
  "slot_of count n = n mod count"

lemma word_of_nat_eq_near:
  assumes "a \<le> b" "b - a < 2 ^ LENGTH('w)"
  shows "(word_of_nat b :: 'w::len word) = word_of_nat a \<longleftrightarrow> b = a"
proof
  assume e: "(word_of_nat b :: 'w word) = word_of_nat a"
  have "(word_of_nat b :: 'w word) = word_of_nat (b - a) + word_of_nat a"
    using assms(1) by (simp flip: of_nat_add)
  with e have "(word_of_nat (b - a) :: 'w word) = 0" by (metis add_cancel_left_left)
  then have "unat (word_of_nat (b - a) :: 'w word) = 0" by simp
  then have "b - a = 0" using assms(2) by (simp add: unsigned_of_nat take_bit_nat_eq_self)
  then show "b = a" using assms(1) by simp
qed simp

lemma div_le_diff:
  assumes "k \<le> n" "0 < (c :: nat)"
  shows "n div c - k div c \<le> (n - k) div c + 1"
proof -
  have "k mod c + (n - k) mod c < 2 * c"
    unfolding mult_2 using mod_less_divisor [OF assms(2)] by (intro add_strict_mono) auto
  then have "(k mod c + (n - k) mod c) div c < 2" by (rule less_mult_imp_div_less)
  moreover have "n div c = k div c + (n - k) div c + (k mod c + (n - k) mod c) div c"
    using div_add1_eq [of k "n - k" c] assms(1) by simp
  ultimately show ?thesis by simp
qed

lemma check_overrun_positions:
  assumes c: "0 < c" and le: "k \<le> n" and near: "n - k < c * (2 ^ 32 - 1)"
  shows "check_overrun_ok (cycle_of c n) (cycle_of c k) (slot_of c n) (slot_of c k) \<longleftrightarrow> k < n \<and> n < k + c"
proof -
  define qn rn qk rk where q: "qn = n div c" "rn = n mod c" "qk = k div c" "rk = k mod c"
  have n: "n = c * qn + rn" and k: "k = c * qk + rk" and r: "rn < c" "rk < c"
    using c by (simp_all add: q)
  have qle: "qk \<le> qn" using le by (simp add: q div_le_mono)
  have "(n - k) div c < 2 ^ 32 - 1" using near c by (metis less_mult_imp_div_less mult.commute)
  then have qnear: "qn - qk < 2 ^ LENGTH(32)"
    using div_le_diff [OF le c] by (simp add: q)
  have eq: "(word_of_nat qn :: u32) = word_of_nat qk \<longleftrightarrow> qn = qk"
    by (rule word_of_nat_eq_near [OF qle qnear])
  have eq1: "(word_of_nat qn :: u32) = word_of_nat qk + 1 \<longleftrightarrow> qn = qk + 1"
  proof (cases "qn = qk")
    case True
    then show ?thesis by simp
  next
    case False
    then have "(word_of_nat qn :: u32) = word_of_nat (qk + 1) \<longleftrightarrow> qn = qk + 1"
      using qle qnear by (intro word_of_nat_eq_near) auto
    then show ?thesis by (simp add: add.commute)
  qed
  have ok: "check_overrun_ok (cycle_of c n) (cycle_of c k) (slot_of c n) (slot_of c k) \<longleftrightarrow>
      (rn \<noteq> rk \<and> (if rn > rk then qn = qk else qn = qk + 1))"
    by (simp add: check_overrun_ok_def cycle_of_def slot_of_def q [symmetric] eq eq1)
  consider "qn = qk" | "qn = qk + 1" | d where "qn = qk + 2 + d"
  proof -
    consider "qn = qk" | "qn = qk + 1" | "qk + 2 \<le> qn" using qle by linarith
    then show thesis
    proof cases
      case 3
      then show thesis using that(3) [of "qn - (qk + 2)"] by simp
    qed (use that in auto)
  qed
  then show ?thesis
  proof cases
    case 1
    then have "n = c * qk + rn" using n by simp
    with 1 r show ?thesis unfolding ok using k by auto
  next
    case 2
    then have "n = c * qk + c + rn" using n by simp
    with 2 r show ?thesis unfolding ok using k by auto
  next
    case (3 d)
    then have "n = c * qk + 2 * c + c * d + rn" using n by (simp add: algebra_simps)
    with r have "k + c \<le> n" unfolding k by simp
    with 3 show ?thesis unfolding ok by simp
  qed
qed

section \<open>The captured data\<close>

text \<open>
  \<open>hist\<close> lists the blocks released since \<^verbatim>\<open>start_write\<close>.  The slots hold the last
  \<open>block_count\<close> of them, apart from the slot that is being written.
\<close>

definition data_inv :: "capture_buffer \<Rightarrow> u8 list list \<Rightarrow> bool" where
  "data_inv b hist =
     (let c = block_count b; n = length hist in
      0 < c \<and> length (written b) = c \<and> length (blocks b) = c \<and>
      in_ptr b = slot_of c n \<and> cb_buffer_cycle b = cycle_of c n \<and> (released_once b \<longleftrightarrow> 0 < n) \<and>
      (\<forall>j < n. n \<le> j + c \<longrightarrow> written b ! slot_of c j = length (hist ! j)) \<and>
      (\<forall>i < c. n \<le> i \<longrightarrow> written b ! i = 0) \<and>
      (\<forall>j < n. n < j + c \<longrightarrow> take (length (hist ! j)) (blocks b ! slot_of c j) = hist ! j) \<and>
      lost_bytes b = word_of_nat (sum_list (map length (take (n - c) hist))))"

lemma start_write_data: "0 < block_count b \<Longrightarrow> length (blocks b) = block_count b \<Longrightarrow> data_inv (start_write b) []"
  by (simp add: data_inv_def start_write_def Let_def slot_of_def cycle_of_def)

definition fill_block :: "capture_buffer \<Rightarrow> u8 list \<Rightarrow> capture_buffer" where
  "fill_block b data = b\<lparr>blocks := (blocks b)[get_write_block b := data]\<rparr>"

lemma slot_of_less [simp]: "0 < c \<Longrightarrow> slot_of c n < c"
  by (simp add: slot_of_def)

lemma slot_of_neq:
  assumes "j < n" "n < j + c"
  shows "slot_of c j \<noteq> slot_of c n"
proof
  assume "slot_of c j = slot_of c n"
  then have "c dvd n - j" using assms(1) by (simp add: slot_of_def mod_eq_dvd_iff_nat [of j n c, symmetric] less_imp_le)
  with assms show False by (auto dest: dvd_imp_le)
qed

lemma fill_block_data: "data_inv b hist \<Longrightarrow> data_inv (fill_block b data) hist"
  by (auto simp: data_inv_def fill_block_def get_write_block_def Let_def slot_of_neq [symmetric])

lemma slot_cycle_Suc:
  assumes "0 < c"
  shows "slot_of c (Suc n) = (if Suc (slot_of c n) \<ge> c then 0 else Suc (slot_of c n))"
    "cycle_of c (Suc n) = (if Suc (slot_of c n) \<ge> c then cycle_of c n + 1 else cycle_of c n)"
proof -
  have "n mod c < c" using assms by simp
  then have e: "Suc (n mod c) \<ge> c \<longleftrightarrow> Suc (n mod c) = c" by auto
  show "slot_of c (Suc n) = (if Suc (slot_of c n) \<ge> c then 0 else Suc (slot_of c n))"
    unfolding slot_of_def e by (simp add: mod_Suc)
  show "cycle_of c (Suc n) = (if Suc (slot_of c n) \<ge> c then cycle_of c n + 1 else cycle_of c n)"
    unfolding slot_of_def cycle_of_def e by (simp add: div_Suc mod_Suc)
qed

lemma release_write_block_fields:
  "block_count (release_write_block b n) = block_count b"
  "blocks (release_write_block b n) = blocks b"
  "written (release_write_block b n) = (written b)[in_ptr b := n]"
  "lost_bytes (release_write_block b n) = lost_bytes b + word_of_nat (written b ! in_ptr b)"
  "released_once (release_write_block b n) = True"
  "in_ptr (release_write_block b n) = (if Suc (in_ptr b) \<ge> block_count b then 0 else Suc (in_ptr b))"
  "cb_buffer_cycle (release_write_block b n) =
     (if Suc (in_ptr b) \<ge> block_count b then cb_buffer_cycle b + 1 else cb_buffer_cycle b)"
  "state (release_write_block b n) = state b" "reader_count (release_write_block b n) = reader_count b"
  "active_count (release_write_block b n) = active_count b"
  "cb_capture_cycle (release_write_block b n) = cb_capture_cycle b"
  "block_size (release_write_block b n) = block_size b" "shutdown (release_write_block b n) = shutdown b"
  by (simp_all add: release_write_block_def Let_def)

lemma written_next:
  assumes "data_inv b hist"
  shows "written b ! slot_of (block_count b) (length hist) =
    (if length hist < block_count b then 0 else length (hist ! (length hist - block_count b)))"
proof -
  let ?c = "block_count b" and ?n = "length hist"
  have c: "0 < ?c" using assms by (simp add: data_inv_def Let_def)
  show ?thesis
  proof (cases "?n < ?c")
    case True
    then have "slot_of ?c ?n = ?n" by (simp add: slot_of_def)
    with True assms show ?thesis by (simp add: data_inv_def Let_def)
  next
    case False
    then have "slot_of ?c ?n = slot_of ?c (?n - ?c)" by (simp add: slot_of_def le_mod_geq)
    moreover have "written b ! slot_of ?c (?n - ?c) = length (hist ! (?n - ?c))"
      using assms False c by (simp add: data_inv_def Let_def)
    ultimately show ?thesis using False by simp
  qed
qed

lemma release_write_block_data:
  assumes inv: "data_inv b hist" and n: "n \<le> length (blocks b ! get_write_block b)"
  shows "data_inv (release_write_block b n) (hist @ [take n (blocks b ! get_write_block b)])"
proof -
  let ?c = "block_count b" and ?n = "length hist" and ?x = "take n (blocks b ! get_write_block b)"
  have c: "0 < ?c" and ip: "in_ptr b = slot_of ?c ?n" using inv by (simp_all add: data_inv_def Let_def)
  have len: "length ?x = n" using n by simp
  have wr: "(written b)[in_ptr b := n] ! slot_of ?c j = length ((hist @ [?x]) ! j)"
    if "j < Suc ?n" "Suc ?n \<le> j + ?c" for j
  proof (cases "j = ?n")
    case True
    with inv c len show ?thesis by (simp add: data_inv_def Let_def)
  next
    case False
    with that have "slot_of ?c j \<noteq> in_ptr b" unfolding ip by (intro slot_of_neq) auto
    with False that inv show ?thesis by (simp add: data_inv_def Let_def nth_append)
  qed
  have zero: "(written b)[in_ptr b := n] ! i = 0" if "i < ?c" "Suc ?n \<le> i" for i
  proof -
    have "in_ptr b \<noteq> i" using that unfolding ip slot_of_def by (metis Suc_n_not_le_n mod_less_eq_dividend mod_less le_trans less_imp_le_nat not_less_eq_eq)
    with that inv show ?thesis by (simp add: data_inv_def Let_def)
  qed
  have blk: "take (length ((hist @ [?x]) ! j)) (blocks b ! slot_of ?c j) = (hist @ [?x]) ! j"
    if "j < Suc ?n" "Suc ?n < j + ?c" for j
  proof (cases "j = ?n")
    case True
    with len show ?thesis by (simp add: get_write_block_def ip)
  next
    case False
    with that inv show ?thesis by (simp add: data_inv_def Let_def nth_append)
  qed
  have lost: "lost_bytes b + word_of_nat (written b ! in_ptr b) =
      word_of_nat (sum_list (map length (take (Suc ?n - ?c) (hist @ [?x]))))"
  proof (cases "?n < ?c")
    case True
    then show ?thesis using inv written_next [OF inv] by (simp add: data_inv_def Let_def)
  next
    case False
    then have "Suc ?n - ?c = Suc (?n - ?c)" by simp
    then have "take (Suc ?n - ?c) (hist @ [?x]) = take (?n - ?c) hist @ [hist ! (?n - ?c)]"
      using c False by (simp add: take_Suc_conv_app_nth)
    with False inv written_next [OF inv] show ?thesis by (simp add: data_inv_def Let_def)
  qed
  show ?thesis
    unfolding data_inv_def Let_def release_write_block_fields length_append
    using inv c wr zero blk lost
    by (auto simp: data_inv_def Let_def slot_cycle_Suc)
qed

section \<open>Where a reader starts\<close>

text \<open>
  The loop of \<^verbatim>\<open>count_lost_bytes\<close> walks the slots from the writer's on; it meets the blocks
  \<open>n - c, n - c + 1, \<dots>\<close>, where the positions below 0 are slots never written.
\<close>

definition ring_size :: "nat \<Rightarrow> u8 list list \<Rightarrow> nat \<Rightarrow> nat" where
  "ring_size c hist m = (if m < c then 0 else length (hist ! (m - c)))"

lemma ring_size_written:
  assumes "data_inv b hist" "length hist \<le> m" "m < length hist + block_count b"
  shows "written b ! slot_of (block_count b) m = ring_size (block_count b) hist m"
proof (cases "m < block_count b")
  case True
  then have "slot_of (block_count b) m = m" by (simp add: slot_of_def)
  with True assms show ?thesis by (simp add: data_inv_def Let_def ring_size_def)
next
  case False
  then have "slot_of (block_count b) m = slot_of (block_count b) (m - block_count b)"
    by (simp add: slot_of_def le_mod_geq)
  with False assms show ?thesis by (auto simp: data_inv_def Let_def ring_size_def)
qed

lemma ring_sum: "k \<le> length hist \<Longrightarrow> (\<Sum>m<k + c. ring_size c hist m) = sum_list (map length (take k hist))"
proof (induction k)
  case 0
  then show ?case by (simp add: ring_size_def)
next
  case (Suc k)
  then show ?case by (simp add: ring_size_def take_Suc_conv_app_nth)
qed

lemma count_lost_from_ring:
  assumes inv: "data_inv b hist" and "length hist \<le> m" "m \<le> e" "e < length hist + block_count b"
  shows "count_lost_from b (slot_of (block_count b) m) (slot_of (block_count b) e) lost =
    Some (lost + word_of_nat (\<Sum>i = m..<e. ring_size (block_count b) hist i))"
  using assms(2-)
proof (induction "e - m" arbitrary: m lost)
  case 0
  then have "m = e" by simp
  then show ?case by (simp add: count_lost_from.simps)
next
  case (Suc d)
  let ?c = "block_count b"
  have c: "0 < ?c" using inv by (simp add: data_inv_def Let_def)
  have "slot_of ?c m \<noteq> slot_of ?c e" using Suc.prems Suc.hyps(2) by (intro slot_of_neq) auto
  then have "count_lost_from b (slot_of ?c m) (slot_of ?c e) lost =
      count_lost_from b (slot_of ?c (Suc m)) (slot_of ?c e) (lost + word_of_nat (written b ! slot_of ?c m))"
    by (simp add: count_lost_from.simps [of b "slot_of ?c m"] slot_cycle_Suc [OF c])
  also have "\<dots> = Some (lost + word_of_nat (written b ! slot_of ?c m) +
      word_of_nat (\<Sum>i = Suc m..<e. ring_size ?c hist i))"
    using Suc by (intro Suc.hyps(1)) auto
  also have "written b ! slot_of ?c m = ring_size ?c hist m"
    using Suc.prems Suc.hyps(2) by (intro ring_size_written [OF inv]) auto
  also have "lost + word_of_nat (ring_size ?c hist m) + word_of_nat (\<Sum>i = Suc m..<e. ring_size ?c hist i) =
      lost + word_of_nat (\<Sum>i = m..<e. ring_size ?c hist i)"
    using Suc.hyps(2) by (simp add: sum.atLeast_Suc_lessThan add.assoc)
  finally show ?case .
qed

definition start_position :: "nat \<Rightarrow> nat \<Rightarrow> nat \<Rightarrow> nat" where
  "start_position c n margin = (if n + margin + 1 < c then 0 else n + margin + 1 - c)"

lemma count_lost_start:
  assumes inv: "data_inv b hist" and k: "k \<le> length hist" "length hist \<le> k + block_count b"
    and near: "k < length hist"
  shows "count_lost_bytes b (slot_of (block_count b) k) =
    Some (word_of_nat (sum_list (map length (take k hist))))"
proof -
  let ?c = "block_count b" and ?n = "length hist"
  have ip: "in_ptr b = slot_of ?c ?n" and lost: "lost_bytes b = word_of_nat (sum_list (map length (take (?n - ?c) hist)))"
    using inv by (simp_all add: data_inv_def Let_def)
  have base: "(\<Sum>m<?n. ring_size ?c hist m) = sum_list (map length (take (?n - ?c) hist))"
    using ring_sum [of "?n - ?c" hist ?c] by (cases "?c \<le> ?n") (simp_all add: ring_size_def)
  have "count_lost_bytes b (slot_of ?c (k + ?c)) =
      Some (lost_bytes b + word_of_nat (\<Sum>i = ?n..<k + ?c. ring_size ?c hist i))"
    unfolding count_lost_bytes_def ip using k near by (intro count_lost_from_ring [OF inv]) auto
  moreover have "slot_of ?c (k + ?c) = slot_of ?c k" by (simp add: slot_of_def)
  moreover have "lost_bytes b + word_of_nat (\<Sum>i = ?n..<k + ?c. ring_size ?c hist i) =
      word_of_nat (\<Sum>m<k + ?c. ring_size ?c hist m)"
    unfolding lost base [symmetric] lessThan_atLeast0
    by (simp only: of_nat_add [symmetric] sum.atLeastLessThan_concat [OF le0 k(2)])
  ultimately show ?thesis using ring_sum [OF k(1), of ?c] by simp
qed

lemma start_position_cycle:
  assumes c: "0 < c" "margin + 1 < c" and big: "\<not> n + margin + 1 < c"
  shows "cycle_of c (start_position c n margin) =
      (if slot_of c n + margin + 1 \<ge> c then cycle_of c n else cycle_of c n - 1)"
    "slot_of c (start_position c n margin) =
      (if slot_of c n + margin + 1 \<ge> c then slot_of c n + margin + 1 - c else slot_of c n + margin + 1)"
proof -
  define q r where qr: "q = n div c" "r = n mod c"
  have n: "n = c * q + r" and r: "r < c" using c by (simp_all add: qr)
  have "cycle_of c (start_position c n margin) =
      (if r + margin + 1 \<ge> c then cycle_of c n else cycle_of c n - 1) \<and>
     slot_of c (start_position c n margin) =
      (if r + margin + 1 \<ge> c then r + margin + 1 - c else r + margin + 1)"
  proof (cases "r + margin + 1 \<ge> c")
    case True
    define s where "s = r + margin + 1 - c"
    have "start_position c n margin = c * q + s"
      using True big by (simp add: start_position_def n s_def)
    moreover have "s < c" using r c by (simp add: s_def)
    ultimately have "start_position c n margin div c = q" "start_position c n margin mod c = s" by simp_all
    then show ?thesis using True by (simp add: cycle_of_def slot_of_def qr [symmetric] s_def)
  next
    case False
    with big n have "q \<noteq> 0" by (cases q) auto
    then obtain p where p: "q = Suc p" by (cases q) auto
    define s where "s = r + margin + 1"
    have "start_position c n margin = c * p + s"
      using big by (simp add: start_position_def n p s_def)
    moreover have "s < c" using False by (simp add: s_def)
    ultimately have "start_position c n margin div c = p" "start_position c n margin mod c = s" by simp_all
    then show ?thesis using False by (simp add: cycle_of_def slot_of_def qr [symmetric] p s_def)
  qed
  then show "cycle_of c (start_position c n margin) =
      (if slot_of c n + margin + 1 \<ge> c then cycle_of c n else cycle_of c n - 1)"
    "slot_of c (start_position c n margin) =
      (if slot_of c n + margin + 1 \<ge> c then slot_of c n + margin + 1 - c else slot_of c n + margin + 1)"
    by (simp_all add: slot_of_def qr)
qed

lemma first_cycle:
  assumes "0 < c" "n < c * 2 ^ 32"
  shows "cycle_of c n = 0 \<and> slot_of c n + m < c \<longleftrightarrow> n + m < c"
proof -
  have "n div c < 2 ^ 32" using assms by (metis less_mult_imp_div_less mult.commute)
  then have "cycle_of c n = 0 \<longleftrightarrow> n div c = 0"
    using word_of_nat_eq_near [of 0 "n div c", where 'w = 32] by (simp add: cycle_of_def)
  moreover have "n div c = 0 \<longleftrightarrow> n < c" using assms(1) by (simp add: div_eq_0_iff)
  ultimately show ?thesis by (auto simp: slot_of_def)
qed

lemma compute_reader_start_position:
  assumes inv: "data_inv b hist" and m: "margin + 1 < block_count b"
    and small: "length hist < block_count b * 2 ^ 32"
  defines "k \<equiv> start_position (block_count b) (length hist) margin"
  shows "compute_reader_start r b margin =
      Some (r\<lparr>rs_buffer_cycle := cycle_of (block_count b) k, out_ptr := slot_of (block_count b) k\<rparr>,
            word_of_nat (sum_list (map length (take k hist))))"
    and "k \<le> length hist" "length hist + margin < k + block_count b"
proof -
  let ?c = "block_count b" and ?n = "length hist"
  have c: "0 < ?c" and ip: "in_ptr b = slot_of ?c ?n" and cy: "cb_buffer_cycle b = cycle_of ?c ?n"
    using inv by (simp_all add: data_inv_def Let_def)
  show "k \<le> ?n" "?n + margin < k + ?c" using m by (auto simp: k_def start_position_def)
  have first: "cb_buffer_cycle b = 0 \<and> in_ptr b + margin + 1 < ?c \<longleftrightarrow> ?n + margin + 1 < ?c"
    using first_cycle [OF c small, of "margin + 1"] by (simp add: ip cy add.assoc)
  show "compute_reader_start r b margin =
      Some (r\<lparr>rs_buffer_cycle := cycle_of ?c k, out_ptr := slot_of ?c k\<rparr>,
            word_of_nat (sum_list (map length (take k hist))))"
  proof (cases "?n + margin + 1 < ?c")
    case True
    then show ?thesis
      using first c by (simp add: compute_reader_start_def k_def start_position_def cycle_of_def slot_of_def)
  next
    case False
    note pos = start_position_cycle [OF c m False, folded k_def]
    have "k < ?n" "?n \<le> k + ?c" using m False by (auto simp: k_def start_position_def)
    with count_lost_start [OF inv] have
      "count_lost_bytes b (slot_of ?c k) = Some (word_of_nat (sum_list (map length (take k hist))))" by simp
    then show ?thesis
      using False first pos by (auto simp: compute_reader_start_def Let_def ip cy)
  qed
qed

section \<open>The buffer with its readers\<close>

text \<open>
  The calls of the capture thread and of the reader threads as steps.  Beside the state of the
  code there are the released blocks, and for each reader whether it is between \<^verbatim>\<open>open_reader\<close> and
  \<^verbatim>\<open>close_reader\<close> and the number of the next block it reads.  The capture thread calls in the order
  that the assertions of the writer ask for.
\<close>

record client =
  rd :: reader_state
  opened :: bool
  position :: nat

record buffer_system =
  buf :: capture_buffer
  hist :: "u8 list list"
  clients :: "client list"

definition update_client :: "buffer_system \<Rightarrow> nat \<Rightarrow> client \<Rightarrow> capture_buffer \<Rightarrow> buffer_system" where
  "update_client s i cl b = s\<lparr>buf := b, clients := (clients s)[i := cl]\<rparr>"

definition moved :: "reader_state \<Rightarrow> read_block \<times> reader_state \<Rightarrow> bool" where
  "moved r res =
     (status r = READER_STATUS_CLOSED \<and> fst res \<noteq> DummyBlock \<and> status (snd res) \<noteq> READER_STATUS_ALL_READ)"

inductive buffer_step :: "buffer_system \<Rightarrow> buffer_system \<Rightarrow> bool" where
  start: "state (buf s) = STATE_IDLE \<Longrightarrow> buffer_step s (s\<lparr>buf := start_write (buf s), hist := []\<rparr>)"
| fill: "state (buf s) = STATE_ACTIVE \<Longrightarrow> buffer_step s (s\<lparr>buf := fill_block (buf s) data\<rparr>)"
| release: "state (buf s) = STATE_ACTIVE \<Longrightarrow> n \<le> length (blocks (buf s) ! get_write_block (buf s)) \<Longrightarrow>
    buffer_step s (s\<lparr>buf := release_write_block (buf s) n,
      hist := hist s @ [take n (blocks (buf s) ! get_write_block (buf s))]\<rparr>)"
| finish: "state (buf s) = STATE_ACTIVE \<Longrightarrow> buffer_step s (s\<lparr>buf := end_write (buf s)\<rparr>)"
| shut: "buffer_step s (s\<lparr>buf := shutdown_buffer (buf s)\<rparr>)"
| create: "create_reader (buf s) = (r, b) \<Longrightarrow> length (clients s) + 1 < 2 ^ 32 \<Longrightarrow>
    buffer_step s (s\<lparr>buf := b, clients := clients s @ [\<lparr>rd = r, opened = False, position = 0\<rparr>]\<rparr>)"
| destroy: "i < length (clients s) \<Longrightarrow> \<not> opened (clients s ! i) \<Longrightarrow>
    buffer_step s (s\<lparr>buf := destroy_reader (rd (clients s ! i)) (buf s),
      clients := take i (clients s) @ drop (Suc i) (clients s)\<rparr>)"
| open_ok: "i < length (clients s) \<Longrightarrow> \<not> opened (clients s ! i) \<Longrightarrow> margin + 1 < block_count (buf s) \<Longrightarrow>
    length (hist s) < block_count (buf s) * 2 ^ 32 \<Longrightarrow>
    open_reader (rd (clients s ! i)) (buf s) margin [Deadline] = Some (Some (r, lost), b) \<Longrightarrow>
    buffer_step s (update_client s i \<lparr>rd = r, opened = True,
      position = start_position (block_count (buf s)) (length (hist s)) margin\<rparr> b)"
| read: "i < length (clients s) \<Longrightarrow> opened (clients s ! i) \<Longrightarrow>
    get_read_block (rd (clients s ! i)) (buf s) [Deadline] (buf s) (buf s) = Some res \<Longrightarrow>
    buffer_step s (update_client s i \<lparr>rd = snd res, opened = True,
      position = position (clients s ! i) + (if moved (rd (clients s ! i)) res then 1 else 0)\<rparr> (buf s))"
| check: "i < length (clients s) \<Longrightarrow> opened (clients s ! i) \<Longrightarrow>
    check_read_block (rd (clients s ! i)) (buf s) = (ok, r) \<Longrightarrow>
    buffer_step s (update_client s i ((clients s ! i)\<lparr>rd := r\<rparr>) (buf s))"
| close: "i < length (clients s) \<Longrightarrow> opened (clients s ! i) \<Longrightarrow>
    close_reader (rd (clients s ! i)) (buf s) = (st, r, b) \<Longrightarrow>
    buffer_step s (update_client s i \<lparr>rd = r, opened = False, position = 0\<rparr> b)"

inductive buffer_run :: "buffer_system \<Rightarrow> bool" where
  init: "0 < count \<Longrightarrow> length memory = count \<Longrightarrow>
    buffer_run \<lparr>buf = create_buffer bsize count memory garbage, hist = [], clients = []\<rparr>"
| step: "buffer_run s \<Longrightarrow> buffer_step s t \<Longrightarrow> buffer_run t"

text \<open>A reader that takes part in the current capture has the cycle number of the buffer.\<close>

definition attached :: "buffer_system \<Rightarrow> client \<Rightarrow> bool" where
  "attached s cl = (rs_capture_cycle (rd cl) = cb_capture_cycle (buf s))"

definition attached_count :: "buffer_system \<Rightarrow> nat" where
  "attached_count s = length (filter (attached s) (clients s))"

definition counts_inv :: "buffer_system \<Rightarrow> bool" where
  "counts_inv s =
     (length (clients s) < 2 ^ 32 \<and> reader_count (buf s) = word_of_nat (length (clients s)) \<and>
      (if state (buf s) = STATE_IDLE then
         active_count (buf s) = 0 \<and> (\<forall>cl \<in> set (clients s). attached s cl \<and> \<not> opened cl)
       else
         active_count (buf s) = word_of_nat (attached_count s) \<and>
         (\<forall>cl \<in> set (clients s). attached s cl \<or>
            rs_capture_cycle (rd cl) = cb_capture_cycle (buf s) + 1) \<and>
         (\<forall>cl \<in> set (clients s). opened cl \<longrightarrow> attached s cl)) \<and>
      (state (buf s) = STATE_CLEARING \<longrightarrow> 0 < attached_count s))"

definition client_inv :: "nat \<Rightarrow> nat \<Rightarrow> client \<Rightarrow> bool" where
  "client_inv c n cl =
     (opened cl \<longrightarrow> status (rd cl) = READER_STATUS_CLOSED \<longrightarrow>
        position cl \<le> n \<and> out_ptr (rd cl) = slot_of c (position cl) \<and>
        rs_buffer_cycle (rd cl) = cycle_of c (position cl))"

definition system_inv :: "buffer_system \<Rightarrow> bool" where
  "system_inv s =
     (counts_inv s \<and> 0 < block_count (buf s) \<and> length (blocks (buf s)) = block_count (buf s) \<and>
      (state (buf s) \<noteq> STATE_IDLE \<longrightarrow> data_inv (buf s) (hist s) \<and>
        (\<forall>cl \<in> set (clients s). client_inv (block_count (buf s)) (length (hist s)) cl)))"

lemma word_of_nat_u32_eq_0: "n < 2 ^ 32 \<Longrightarrow> (word_of_nat n :: u32) = 0 \<longleftrightarrow> n = 0"
  using word_of_nat_eq_near [of 0 n, where 'w = 32] by simp

lemma attached_count_bounds:
  assumes "length (clients s) < 2 ^ 32" "i < length (clients s)" "attached s (clients s ! i)"
  shows "attached_count s < 2 ^ 32" "0 < attached_count s"
proof -
  show "attached_count s < 2 ^ 32"
    unfolding attached_count_def using assms(1) length_filter_le le_less_trans by blast
  have "clients s ! i \<in> set (filter (attached s) (clients s))" using assms by simp
  then show "0 < attached_count s" unfolding attached_count_def by (metis length_pos_if_in_set)
qed

lemma word_of_nat_minus_1: "0 < n \<Longrightarrow> (word_of_nat n :: u32) - 1 = word_of_nat (n - 1)"
  by (cases n) simp_all

text \<open>One reader leaves the capture: it closes, or is destroyed before it opened.\<close>

lemma complete_capture_counts:
  assumes n: "n < 2 ^ 32" "0 < n" and act: "active_count b = word_of_nat n" and st: "state b \<noteq> STATE_IDLE"
  shows "state (complete_capture b) = (if n = 1 \<and> state b = STATE_CLEARING then STATE_IDLE else state b)"
    "cb_capture_cycle (complete_capture b) =
       (if n = 1 \<and> state b = STATE_CLEARING then cb_capture_cycle b + 1 else cb_capture_cycle b)"
    "active_count (complete_capture b) = word_of_nat (n - 1)"
    "reader_count (complete_capture b) = reader_count b"
    "block_count (complete_capture b) = block_count b" "blocks (complete_capture b) = blocks b"
    "data_inv (complete_capture b) h = data_inv b h"
proof -
  have a: "active_count b - 1 = word_of_nat (n - 1)"
    unfolding act by (rule word_of_nat_minus_1 [OF n(2)])
  have z: "(word_of_nat (n - 1) :: u32) = 0 \<longleftrightarrow> n = 1"
    using word_of_nat_u32_eq_0 [of "n - 1"] n by auto
  show "state (complete_capture b) = (if n = 1 \<and> state b = STATE_CLEARING then STATE_IDLE else state b)"
    "cb_capture_cycle (complete_capture b) =
       (if n = 1 \<and> state b = STATE_CLEARING then cb_capture_cycle b + 1 else cb_capture_cycle b)"
    "active_count (complete_capture b) = word_of_nat (n - 1)"
    "reader_count (complete_capture b) = reader_count b"
    "block_count (complete_capture b) = block_count b" "blocks (complete_capture b) = blocks b"
    "data_inv (complete_capture b) h = data_inv b h"
    unfolding complete_capture_def advance_capture_def Let_def by (simp_all add: a [unfolded One_nat_def] z [unfolded One_nat_def] data_inv_def)
qed

lemma close_inv:
  assumes inv: "system_inv s" and i: "i < length (clients s)" "opened (clients s ! i)"
    and cl: "close_reader (rd (clients s ! i)) (buf s) = (st, r, b)"
  shows "system_inv (update_client s i \<lparr>rd = r, opened = False, position = 0\<rparr> b)"
proof -
  let ?x = "clients s ! i" and ?c = "cb_capture_cycle (buf s)"
  let ?new = "\<lparr>rd = r, opened = False, position = 0\<rparr>"
  let ?s' = "update_client s i ?new b"
  have cnt: "counts_inv s" using inv by (simp add: system_inv_def)
  have x: "?x \<in> set (clients s)" using i by simp
  have st: "state (buf s) \<noteq> STATE_IDLE" using cnt x i by (auto simp: counts_inv_def)
  have att: "attached s ?x" using cnt x i st by (auto simp: counts_inv_def)
  have b: "b = complete_capture (buf s)" and r: "rs_capture_cycle r = ?c + 1"
    using cl att by (auto simp: close_reader_def attached_def)
  define n where "n = attached_count s"
  have n: "active_count (buf s) = word_of_nat n" "n < 2 ^ 32" "0 < n"
    using cnt st attached_count_bounds [OF _ i(1) att] by (auto simp: counts_inv_def n_def)
  note cc = complete_capture_counts [OF n(2,3,1) st, folded b]
  have cycle_ne: "?c + 1 \<noteq> ?c" by simp
  have len: "length (filter (\<lambda>cl. rs_capture_cycle (rd cl) = ?c) ((clients s)[i := ?new])) = n - 1"
    using length_filter_update [OF i(1), of "\<lambda>cl. rs_capture_cycle (rd cl) = ?c" ?new] att r
    by (simp add: n_def attached_count_def attached_def [abs_def])
  have mem: "cl \<in> set (clients s) \<or> cl = ?new" if "cl \<in> set ((clients s)[i := ?new])" for cl
    using that set_update_subset_insert [of "clients s" i ?new] by blast
  show ?thesis
  proof (cases "n = 1 \<and> state (buf s) = STATE_CLEARING")
    case True
    have none: "rs_capture_cycle (rd cl) \<noteq> ?c" if "cl \<in> set ((clients s)[i := ?new])" for cl
      using len True that by (simp add: filter_empty_conv)
    have "attached ?s' cl \<and> \<not> opened cl" if m: "cl \<in> set ((clients s)[i := ?new])" for cl
      using mem [OF m] none [OF m] cnt st r cc(2) True
      by (auto simp: counts_inv_def attached_def update_client_def)
    with True cnt inv cc show ?thesis
      by (auto simp: system_inv_def counts_inv_def update_client_def)
  next
    case False
    then have st': "state b = state (buf s)" "cb_capture_cycle b = ?c" using cc by auto
    have ac: "attached_count ?s' = n - 1"
      using len by (simp add: attached_count_def attached_def [abs_def] update_client_def st')
    have "attached ?s' cl \<or> rs_capture_cycle (rd cl) = ?c + 1" "opened cl \<longrightarrow> attached ?s' cl"
      "client_inv (block_count b) (length (hist s)) cl"
      if m: "cl \<in> set ((clients s)[i := ?new])" for cl
      using mem [OF m] cnt inv st r st' cc(5)
      by (auto simp: counts_inv_def system_inv_def attached_def update_client_def client_inv_def)
    with False cnt inv cc st st' ac n show ?thesis
      by (auto simp: system_inv_def counts_inv_def update_client_def)
  qed
qed

lemma destroy_inv:
  assumes inv: "system_inv s" and i: "i < length (clients s)" "\<not> opened (clients s ! i)"
  shows "system_inv (s\<lparr>buf := destroy_reader (rd (clients s ! i)) (buf s),
    clients := take i (clients s) @ drop (Suc i) (clients s)\<rparr>)"
proof -
  let ?x = "clients s ! i" and ?c = "cb_capture_cycle (buf s)"
  let ?xs = "take i (clients s) @ drop (Suc i) (clients s)"
  define b0 where "b0 = (buf s)\<lparr>reader_count := reader_count (buf s) - 1\<rparr>"
  define b where "b = destroy_reader (rd ?x) (buf s)"
  let ?s' = "s\<lparr>buf := b, clients := ?xs\<rparr>"
  have cnt: "counts_inv s" using inv by (simp add: system_inv_def)
  have mem: "cl \<in> set (clients s)" if "cl \<in> set ?xs" for cl
    using that by (auto dest: in_set_takeD in_set_dropD)
  have rc: "reader_count b0 = word_of_nat (length ?xs)"
    using cnt i word_of_nat_minus_1 [of "length (clients s)"]
    by (simp add: counts_inv_def b0_def)
  have "length (clients s) < 2 ^ 32" using cnt by (simp add: counts_inv_def)
  then have ll: "length ?xs < 2 ^ 32" using i by (simp add: less_imp_diff_less)
  note split = length_filter_remove [OF i(1), of "\<lambda>cl. rs_capture_cycle (rd cl) = ?c"]
  show ?thesis
  proof (cases "state (buf s) \<noteq> STATE_IDLE \<and> attached s ?x")
    case False
    then have b: "b = b0"
      by (auto simp: b_def b0_def destroy_reader_def remove_reader_def Let_def attached_def)
    have ac: "state (buf s) \<noteq> STATE_IDLE \<Longrightarrow> attached_count ?s' = attached_count s"
      using split False by (simp add: attached_count_def attached_def [abs_def] b b0_def)
    have "attached ?s' cl = attached s cl" for cl by (simp add: attached_def b b0_def)
    then show ?thesis
      unfolding b_def [symmetric]
      using inv cnt mem ac ll rc b
      by (auto simp: system_inv_def counts_inv_def b0_def data_inv_def)
  next
    case True
    then have b: "b = complete_capture b0"
      by (auto simp: b_def b0_def destroy_reader_def remove_reader_def Let_def attached_def)
    define n where "n = attached_count s"
    have n: "active_count b0 = word_of_nat n" "n < 2 ^ 32" "0 < n"
      using cnt True attached_count_bounds [OF _ i(1)] by (auto simp: counts_inv_def n_def b0_def)
    have st0: "state b0 \<noteq> STATE_IDLE" using True by (simp add: b0_def)
    note cc = complete_capture_counts [OF n(2,3,1) st0, folded b]
    have b0s: "state b0 = state (buf s)" "cb_capture_cycle b0 = ?c" "block_count b0 = block_count (buf s)"
      "blocks b0 = blocks (buf s)" "data_inv b0 h = data_inv (buf s) h" for h
      by (simp_all add: b0_def data_inv_def)
    have len: "length (filter (\<lambda>cl. rs_capture_cycle (rd cl) = ?c) ?xs) = n - 1"
      using split True by (simp add: n_def attached_count_def attached_def [abs_def])
    show ?thesis
    proof (cases "n = 1 \<and> state (buf s) = STATE_CLEARING")
      case one: True
      have none: "rs_capture_cycle (rd cl) \<noteq> ?c" if "cl \<in> set ?xs" for cl
        using len one that by (auto simp: filter_empty_conv)
      have "attached ?s' cl \<and> \<not> opened cl" if m: "cl \<in> set ?xs" for cl
        using mem [OF m] none [OF m] cnt True cc(2) one b0s
        by (auto simp: counts_inv_def attached_def)
      with one inv cc rc ll b0s show ?thesis
        unfolding b_def [symmetric] by (auto simp: system_inv_def counts_inv_def)
    next
      case False
      then have st': "state b = state (buf s)" "cb_capture_cycle b = ?c" using cc b0s by auto
      have ac: "attached_count ?s' = n - 1"
        using len by (simp add: attached_count_def attached_def [abs_def] st')
      have att: "attached ?s' = attached s" by (simp add: attached_def [abs_def] st')
      have all: "attached s cl \<or> rs_capture_cycle (rd cl) = ?c + 1" "opened cl \<longrightarrow> attached s cl"
        if "cl \<in> set ?xs" for cl
        using mem [OF that] cnt True by (auto simp: counts_inv_def)
      have two: "state (buf s) = STATE_CLEARING \<longrightarrow> 0 < n - 1" using False n(3) by auto
      have "counts_inv ?s'"
        unfolding counts_inv_def ac att using all two ll rc cc(3,4) st' True by simp
      moreover have "client_inv (block_count (buf s)) (length (hist s)) cl" if "cl \<in> set ?xs" for cl
        using mem [OF that] inv True by (simp add: system_inv_def)
      ultimately show ?thesis
        unfolding b_def [symmetric] using inv cc(5-7) b0s st' by (simp add: system_inv_def)
    qed
  qed
qed

lemma create_inv:
  assumes inv: "system_inv s" and cr: "create_reader (buf s) = (r, b)" and len: "length (clients s) + 1 < 2 ^ 32"
  shows "system_inv (s\<lparr>buf := b, clients := clients s @ [\<lparr>rd = r, opened = False, position = 0\<rparr>]\<rparr>)"
    (is "system_inv ?s'")
proof -
  have cnt: "counts_inv s" using inv by (simp add: system_inv_def)
  have r: "rs_capture_cycle r = cb_capture_cycle (buf s)"
    using cr by (auto simp: create_reader_def add_reader_def Let_def split: if_splits)
  have b: "cb_capture_cycle b = cb_capture_cycle (buf s)" "state b = state (buf s)"
    "reader_count b = reader_count (buf s) + 1" "block_count b = block_count (buf s)" "blocks b = blocks (buf s)"
    "active_count b = (if state (buf s) \<noteq> STATE_IDLE then active_count (buf s) + 1 else active_count (buf s))"
    "data_inv b h = data_inv (buf s) h" for h
    using cr by (auto simp: create_reader_def add_reader_def Let_def data_inv_def split: if_splits)
  have att: "attached ?s' cl = attached s cl" for cl by (simp add: attached_def b)
  have ac: "attached_count ?s' = attached_count s + 1"
    using r by (simp add: attached_count_def attached_def [abs_def] b)
  have rc: "reader_count b = word_of_nat (length (clients s) + 1)"
    using cnt by (simp add: b counts_inv_def)
  show ?thesis
    using inv cnt len ac att b r rc
    by (auto simp: system_inv_def counts_inv_def client_inv_def attached_def)
qed

lemma end_write_inv:
  assumes inv: "system_inv s" and st: "state (buf s) = STATE_ACTIVE"
  shows "system_inv (s\<lparr>buf := end_write (buf s)\<rparr>)"
proof -
  have cnt: "counts_inv s" using inv by (simp add: system_inv_def)
  have act: "active_count (buf s) = word_of_nat (attached_count s)" using cnt st by (simp add: counts_inv_def)
  have lt: "attached_count s < 2 ^ 32"
    unfolding attached_count_def using cnt by (intro le_less_trans [OF length_filter_le]) (simp add: counts_inv_def)
  have pos: "0 < active_count (buf s) \<longleftrightarrow> 0 < attached_count s"
    unfolding act using word_of_nat_u32_eq_0 [OF lt] by (simp add: word_neq_0_conv [symmetric])
  show ?thesis
  proof (cases "0 < attached_count s")
    case True
    then have "end_write (buf s) = (buf s)\<lparr>state := STATE_CLEARING\<rparr>" using pos by (simp add: end_write_def)
    moreover have "attached (s\<lparr>buf := (buf s)\<lparr>state := STATE_CLEARING\<rparr>\<rparr>) = attached s"
      by (simp add: attached_def [abs_def])
    ultimately show ?thesis using True inv cnt st
      by (auto simp: system_inv_def counts_inv_def attached_count_def data_inv_def)
  next
    case False
    then have e: "end_write (buf s) = advance_capture (buf s)" using pos by (simp add: end_write_def)
    have none: "\<not> attached s cl" if "cl \<in> set (clients s)" for cl
      using False that by (auto simp: attached_count_def filter_empty_conv)
    have "rs_capture_cycle (rd cl) = cb_capture_cycle (buf s) + 1 \<and> \<not> opened cl" if "cl \<in> set (clients s)" for cl
      using none [OF that] that cnt st by (auto simp: counts_inv_def)
    with e inv cnt act False show ?thesis
      by (auto simp: system_inv_def counts_inv_def advance_capture_def attached_def)
  qed
qed

lemma start_write_inv:
  assumes inv: "system_inv s" and st: "state (buf s) = STATE_IDLE"
  shows "system_inv (s\<lparr>buf := start_write (buf s), hist := []\<rparr>)"
proof -
  have cnt: "counts_inv s" using inv by (simp add: system_inv_def)
  let ?s' = "s\<lparr>buf := start_write (buf s), hist := []\<rparr>"
  have all: "attached ?s' cl \<and> \<not> opened cl" if "cl \<in> set (clients s)" for cl
    using cnt st that by (auto simp: counts_inv_def attached_def start_write_def)
  then have "filter (attached ?s') (clients s) = clients s" by (simp add: filter_id_conv)
  then have "attached_count ?s' = length (clients s)" by (simp add: attached_count_def)
  with all inv cnt start_write_data [of "buf s"] show ?thesis
    by (auto simp: system_inv_def counts_inv_def start_write_def client_inv_def)
qed

lemma writer_inv:
  assumes inv: "system_inv s" and st: "state (buf s) = STATE_ACTIVE"
  shows "system_inv (s\<lparr>buf := fill_block (buf s) data\<rparr>)"
    and "n \<le> length (blocks (buf s) ! get_write_block (buf s)) \<Longrightarrow>
      system_inv (s\<lparr>buf := release_write_block (buf s) n,
        hist := hist s @ [take n (blocks (buf s) ! get_write_block (buf s))]\<rparr>)"
proof -
  have d: "data_inv (buf s) (hist s)" and cnt: "counts_inv s" using inv st by (auto simp: system_inv_def)
  have fb: "state (fill_block (buf s) data) = state (buf s)"
    "cb_capture_cycle (fill_block (buf s) data) = cb_capture_cycle (buf s)"
    "reader_count (fill_block (buf s) data) = reader_count (buf s)"
    "active_count (fill_block (buf s) data) = active_count (buf s)"
    "block_count (fill_block (buf s) data) = block_count (buf s)"
    "length (blocks (fill_block (buf s) data)) = length (blocks (buf s))"
    by (simp_all add: fill_block_def)
  have "attached (s\<lparr>buf := fill_block (buf s) data\<rparr>) = attached s"
    by (simp add: attached_def [abs_def] fb)
  then show "system_inv (s\<lparr>buf := fill_block (buf s) data\<rparr>)"
    using inv cnt st fill_block_data [OF d, of data]
    by (simp add: system_inv_def counts_inv_def attached_count_def fb)
  assume n: "n \<le> length (blocks (buf s) ! get_write_block (buf s))"
  let ?s' = "s\<lparr>buf := release_write_block (buf s) n,
        hist := hist s @ [take n (blocks (buf s) ! get_write_block (buf s))]\<rparr>"
  have "attached ?s' = attached s" by (simp add: attached_def [abs_def] release_write_block_fields)
  then show "system_inv ?s'"
    using inv cnt st release_write_block_data [OF d n]
    by (auto simp: system_inv_def counts_inv_def attached_count_def release_write_block_fields client_inv_def)
qed

lemma shutdown_inv:
  assumes "system_inv s"
  shows "system_inv (s\<lparr>buf := shutdown_buffer (buf s)\<rparr>)"
proof -
  have "attached (s\<lparr>buf := shutdown_buffer (buf s)\<rparr>) = attached s"
    by (simp add: attached_def [abs_def] shutdown_buffer_def)
  moreover have "data_inv (shutdown_buffer (buf s)) h = data_inv (buf s) h" for h
    by (simp add: data_inv_def shutdown_buffer_def)
  ultimately show ?thesis
    using assms
    by (auto simp: system_inv_def counts_inv_def attached_count_def shutdown_buffer_def split: if_splits)
qed

text \<open>Steps of one reader that leave the buffer and its capture cycle as they are.\<close>

lemma reader_step_inv:
  assumes inv: "system_inv s" and i: "i < length (clients s)" and st: "state (buf s) \<noteq> STATE_IDLE"
    and cyc: "attached s (clients s ! i)" "rs_capture_cycle r = rs_capture_cycle (rd (clients s ! i))"
    and cli: "client_inv (block_count (buf s)) (length (hist s)) \<lparr>rd = r, opened = True, position = p\<rparr>"
  shows "system_inv (update_client s i \<lparr>rd = r, opened = True, position = p\<rparr> (buf s))"
proof -
  let ?new = "\<lparr>rd = r, opened = True, position = p\<rparr>"
  let ?s' = "update_client s i ?new (buf s)"
  have cnt: "counts_inv s" using inv by (simp add: system_inv_def)
  have att: "attached ?s' = attached s" by (simp add: attached_def [abs_def] update_client_def)
  have new: "attached s ?new" using cyc by (simp add: attached_def)
  have ac: "attached_count ?s' = attached_count s"
    using length_filter_update [OF i, of "attached s" ?new] cyc(1) new
    by (simp add: attached_count_def att) (simp add: update_client_def)
  have mem: "cl \<in> set (clients s) \<or> cl = ?new" if "cl \<in> set ((clients s)[i := ?new])" for cl
    using that set_update_subset_insert [of "clients s" i ?new] by blast
  have "counts_inv ?s'"
    unfolding counts_inv_def ac att using cnt st new mem by (auto simp: counts_inv_def update_client_def)
  then show ?thesis
    using inv mem cli st by (auto simp: system_inv_def update_client_def)
qed

lemma opened_attached:
  assumes "system_inv s" "i < length (clients s)" "opened (clients s ! i)"
  shows "state (buf s) \<noteq> STATE_IDLE" "attached s (clients s ! i)" "data_inv (buf s) (hist s)"
    "client_inv (block_count (buf s)) (length (hist s)) (clients s ! i)"
  using assms by (auto simp: system_inv_def counts_inv_def split: if_splits)

lemma open_inv:
  assumes inv: "system_inv s" and i: "i < length (clients s)"
    and m: "margin + 1 < block_count (buf s)" "length (hist s) < block_count (buf s) * 2 ^ 32"
    and op: "open_reader (rd (clients s ! i)) (buf s) margin [Deadline] = Some (Some (r, lost), b)"
  shows "system_inv (update_client s i \<lparr>rd = r, opened = True,
      position = start_position (block_count (buf s)) (length (hist s)) margin\<rparr> b)"
proof -
  let ?r = "rd (clients s ! i)"
  from op have st: "state (buf s) \<noteq> STATE_IDLE" "cb_capture_cycle (buf s) = rs_capture_cycle ?r" "b = buf s"
    and cs: "\<exists>r'. compute_reader_start (?r\<lparr>rs_capture_cycle := cb_capture_cycle (buf s)\<rparr>) (buf s) margin = Some (r', lost) \<and>
      r = r'\<lparr>status := READER_STATUS_CLOSED\<rparr>"
    by (auto simp: open_reader_def wait_for_buffer_ready.simps [of ?r "buf s"] split: if_splits bool.splits)
  have d: "data_inv (buf s) (hist s)" using inv st by (simp add: system_inv_def)
  note start = compute_reader_start_position [OF d m]
  show ?thesis
    unfolding st(3)
    using cs start st(1,2)
    by (intro reader_step_inv [OF inv i]) (auto simp: attached_def client_inv_def)
qed

lemma read_inv:
  assumes inv: "system_inv s" and i: "i < length (clients s)" "opened (clients s ! i)"
    and get: "get_read_block (rd (clients s ! i)) (buf s) [Deadline] (buf s) (buf s) = Some res"
  shows "system_inv (update_client s i \<lparr>rd = snd res, opened = True,
      position = position (clients s ! i) + (if moved (rd (clients s ! i)) res then 1 else 0)\<rparr> (buf s))"
proof -
  let ?x = "clients s ! i" and ?c = "block_count (buf s)" and ?n = "length (hist s)"
  let ?r = "rd ?x" and ?p = "position ?x"
  note o = opened_attached [OF inv i]
  have c: "0 < ?c" and ip: "in_ptr (buf s) = slot_of ?c ?n" using o(3) by (simp_all add: data_inv_def Let_def)
  have same: "rs_capture_cycle (snd res) = rs_capture_cycle ?r"
    using get by (auto simp: get_read_block_def check_block_status_def next_block_def Let_def
      split: if_splits option.splits prod.splits)
  have "client_inv ?c ?n \<lparr>rd = snd res, opened = True, position = ?p + (if moved ?r res then 1 else 0)\<rparr>"
  proof (cases "status (snd res) = READER_STATUS_CLOSED \<and> status ?r = READER_STATUS_CLOSED")
    case False
    then show ?thesis using get o(4) i(2)
      by (auto simp: client_inv_def get_read_block_def split: if_splits)
  next
    case True
    with o(4) i(2) have pos: "?p \<le> ?n" "out_ptr ?r = slot_of ?c ?p" "rs_buffer_cycle ?r = cycle_of ?c ?p"
      by (auto simp: client_inv_def)
    show ?thesis
    proof (cases "fst res = DummyBlock")
      case dummy: True
      with True get have "snd res = ?r"
        by (auto simp: get_read_block_def split: if_splits option.splits prod.splits)
      with dummy pos show ?thesis by (simp add: client_inv_def moved_def)
    next
      case False
      with True get have nx: "snd res = next_block ?r ?c" and
        ok: "check_overrun_ok (cb_buffer_cycle (buf s)) (rs_buffer_cycle ?r) (in_ptr (buf s)) (out_ptr ?r)"
        by (auto simp: get_read_block_def check_block_status_def Let_def split: if_splits option.splits prod.splits)
      have "?p \<noteq> ?n" using ok pos ip by (auto simp: check_overrun_ok_def)
      moreover have "moved ?r res" using True False by (simp add: moved_def)
      ultimately show ?thesis
        using pos slot_cycle_Suc [OF c, of ?p] by (auto simp: client_inv_def nx next_block_def)
    qed
  qed
  with same show ?thesis by (intro reader_step_inv [OF inv i(1) o(1,2)])
qed

lemma check_inv:
  assumes inv: "system_inv s" and i: "i < length (clients s)" "opened (clients s ! i)"
    and ch: "check_read_block (rd (clients s ! i)) (buf s) = (ok, r)"
  shows "system_inv (update_client s i ((clients s ! i)\<lparr>rd := r\<rparr>) (buf s))"
proof -
  let ?x = "clients s ! i"
  note o = opened_attached [OF inv i]
  have x: "?x\<lparr>rd := r\<rparr> = \<lparr>rd = r, opened = True, position = position ?x\<rparr>" using i(2) by (cases ?x) simp
  have r: "r = rd ?x \<or> r = (rd ?x)\<lparr>status := READER_STATUS_OVERRUN\<rparr>"
    using ch by (auto simp: check_read_block_def check_block_status_def Let_def split: if_splits)
  show ?thesis
    unfolding x using r o(4) i(2) by (intro reader_step_inv [OF inv i(1) o(1,2)]) (auto simp: client_inv_def)
qed

lemma buffer_step_inv: "buffer_step s t \<Longrightarrow> system_inv s \<Longrightarrow> system_inv t"
proof (induction rule: buffer_step.induct)
  case (start s) then show ?case by (simp add: start_write_inv)
next
  case (fill s data) then show ?case by (simp add: writer_inv)
next
  case (release s n) then show ?case by (simp add: writer_inv)
next
  case (finish s) then show ?case by (simp add: end_write_inv)
next
  case (shut s) then show ?case by (simp add: shutdown_inv)
next
  case (create s r b) then show ?case by (simp add: create_inv)
next
  case (destroy i s) then show ?case by (simp add: destroy_inv)
next
  case (open_ok i s margin r lost b) then show ?case by (intro open_inv)
next
  case (read i s res) then show ?case by (intro read_inv)
next
  case (check i s ok r) then show ?case by (intro check_inv)
next
  case (close i s st r b) then show ?case by (intro close_inv)
qed

lemma buffer_run_inv: "buffer_run s \<Longrightarrow> system_inv s"
proof (induction rule: buffer_run.induct)
  case (init count memory bsize garbage)
  then show ?case by (simp add: system_inv_def counts_inv_def create_buffer_def)
next
  case (step s t)
  then show ?case using buffer_step_inv by blast
qed

section \<open>What readers can rely on\<close>

text \<open>
  A short run for the concrete instances: one reader, a capture that has released one block of
  two octets, and the reader opened on it and past its first block.
\<close>

definition demo_start :: buffer_system where
  "demo_start = \<lparr>buf = start_write (snd (create_reader (create_buffer 2 4 (replicate 4 [0, 0]) [7, 7, 7, 7]))),
     hist = [], clients = [\<lparr>rd = fst (create_reader (create_buffer 2 4 (replicate 4 [0, 0]) [7, 7, 7, 7])),
       opened = False, position = 0\<rparr>]\<rparr>"

definition demo_data :: buffer_system where
  "demo_data = demo_start\<lparr>buf := release_write_block (fill_block (buf demo_start) [5, 6]) 2, hist := [[5, 6]]\<rparr>"

definition demo_reader :: reader_state where
  "demo_reader = \<lparr>rs_capture_cycle = 0, rs_buffer_cycle = 0, out_ptr = 0, status = READER_STATUS_CLOSED\<rparr>"

definition demo_open :: buffer_system where
  "demo_open = demo_data\<lparr>clients := [\<lparr>rd = demo_reader, opened = True, position = 0\<rparr>]\<rparr>"

definition demo_read :: buffer_system where
  "demo_read = demo_data\<lparr>clients := [\<lparr>rd = demo_reader\<lparr>out_ptr := 1\<rparr>, opened = True, position = 1\<rparr>]\<rparr>"

lemmas demo_defs = demo_start_def demo_data_def demo_open_def demo_read_def demo_reader_def start_write_def
  create_reader_def add_reader_def create_buffer_def release_write_block_def fill_block_def get_write_block_def

lemma demo_start_run: "buffer_run demo_start"
proof -
  let ?b = "create_buffer 2 4 (replicate 4 [0, 0]) [7, 7, 7, 7]"
  let ?s0 = "\<lparr>buf = ?b, hist = [], clients = []\<rparr>"
  let ?s1 = "?s0\<lparr>buf := snd (create_reader ?b), clients := clients ?s0 @ [\<lparr>rd = fst (create_reader ?b), opened = False, position = 0\<rparr>]\<rparr>"
  have "buffer_run ?s0" by (intro buffer_run.init) simp_all
  moreover have "buffer_step ?s0 ?s1" by (intro buffer_step.create) simp_all
  ultimately have "buffer_run ?s1" by (rule buffer_run.step)
  moreover have "buffer_step ?s1 (?s1\<lparr>buf := start_write (buf ?s1), hist := []\<rparr>)"
    by (intro buffer_step.start) (simp add: create_reader_def add_reader_def create_buffer_def)
  ultimately have "buffer_run (?s1\<lparr>buf := start_write (buf ?s1), hist := []\<rparr>)" by (rule buffer_run.step)
  then show ?thesis by (simp add: demo_start_def)
qed

lemma demo_data_run: "buffer_run demo_data"
proof -
  let ?s1 = "demo_start\<lparr>buf := fill_block (buf demo_start) [5, 6]\<rparr>"
  let ?s2 = "?s1\<lparr>buf := release_write_block (buf ?s1) 2,
    hist := hist ?s1 @ [take 2 (blocks (buf ?s1) ! get_write_block (buf ?s1))]\<rparr>"
  have "buffer_step demo_start ?s1" by (intro buffer_step.fill) (simp add: demo_defs)
  with demo_start_run have "buffer_run ?s1" by (rule buffer_run.step)
  moreover have "buffer_step ?s1 ?s2" by (intro buffer_step.release) (simp_all add: demo_defs)
  ultimately have "buffer_run ?s2" by (rule buffer_run.step)
  moreover have "?s2 = demo_data" by (simp add: demo_defs numeral_eq_Suc)
  ultimately show ?thesis by simp
qed

lemma demo_open_run: "buffer_run demo_open"
proof -
  let ?s1 = "update_client demo_data 0 \<lparr>rd = demo_reader, opened = True,
    position = start_position (block_count (buf demo_data)) (length (hist demo_data)) 1\<rparr> (buf demo_data)"
  have "open_reader (rd (clients demo_data ! 0)) (buf demo_data) 1 [Deadline] =
      Some (Some (demo_reader, 0), buf demo_data)"
    by (simp add: demo_defs open_reader_def wait_for_buffer_ready.simps compute_reader_start_def)
  then have "buffer_step demo_data ?s1"
    by (intro buffer_step.open_ok [where lost = 0]) (simp_all add: demo_defs)
  with demo_data_run have "buffer_run ?s1" by (rule buffer_run.step)
  moreover have "?s1 = demo_open" by (simp add: update_client_def demo_defs start_position_def)
  ultimately show ?thesis by simp
qed

lemma demo_read_run: "buffer_run demo_read"
proof -
  let ?res = "(Block 0 2, demo_reader\<lparr>out_ptr := 1\<rparr>)"
  let ?s1 = "update_client demo_open 0 \<lparr>rd = snd ?res, opened = True,
    position = position (clients demo_open ! 0) + (if moved (rd (clients demo_open ! 0)) ?res then 1 else 0)\<rparr> (buf demo_open)"
  have "get_read_block (rd (clients demo_open ! 0)) (buf demo_open) [Deadline] (buf demo_open) (buf demo_open) = Some ?res"
    by (simp add: demo_defs get_read_block_def wait_for_block_ready.simps check_block_status_def
      check_overrun_ok_def next_block_def)
  then have "buffer_step demo_open ?s1"
    by (intro buffer_step.read) (simp_all add: demo_defs)
  with demo_open_run have "buffer_run ?s1" by (rule buffer_run.step)
  moreover have "?s1 = demo_read" by (simp add: update_client_def demo_defs moved_def)
  ultimately show ?thesis by simp
qed

text \<open>
  C2: in every run, \<^verbatim>\<open>reader_count\<close> is the number of readers and \<^verbatim>\<open>active_count\<close> the number of
  those that still take part in the capture, so it never wraps below zero; outside a capture it is
  0 and no reader is open; a capture that waits to be cleared has a reader to wait for, and an open
  reader belongs to the current capture.
\<close>

theorem buffer_counts_readers:
  assumes "buffer_run s"
  shows "reader_count (buf s) = word_of_nat (length (clients s)) \<and>
    active_count (buf s) = (if state (buf s) = STATE_IDLE then 0 else word_of_nat (attached_count s)) \<and>
    (state (buf s) = STATE_CLEARING \<longrightarrow> 0 < active_count (buf s)) \<and>
    (\<forall>cl \<in> set (clients s). opened cl \<longrightarrow> state (buf s) \<noteq> STATE_IDLE \<and> attached s cl)"
proof -
  have cnt: "counts_inv s" using buffer_run_inv [OF assms] by (simp add: system_inv_def)
  have "attached_count s < 2 ^ 32"
    unfolding attached_count_def using cnt by (intro le_less_trans [OF length_filter_le]) (simp add: counts_inv_def)
  then have "0 < attached_count s \<Longrightarrow> (word_of_nat (attached_count s) :: u32) > 0"
    using word_of_nat_u32_eq_0 by (simp add: word_neq_0_conv [symmetric])
  with cnt show ?thesis by (auto simp: counts_inv_def split: if_splits)
qed

theorem buffer_counts_readers_witness:
  "reader_count (buf demo_open) = 1 \<and> active_count (buf demo_open) = word_of_nat (attached_count demo_open) \<and>
   state (buf demo_open) = STATE_ACTIVE"
proof -
  have "state (buf demo_open) = STATE_ACTIVE" "length (clients demo_open) = 1" by (simp_all add: demo_defs)
  with buffer_counts_readers [OF demo_open_run] show ?thesis by simp
qed

text \<open>
  C10: a block handed out by \<^verbatim>\<open>get_read_block\<close> is the next block of the capture, with its length
  and its octets: the reader skips nothing and the writer is not in the block.
\<close>

theorem get_read_block_correct:
  assumes "buffer_run s" "i < length (clients s)" "opened (clients s ! i)"
    and "length (hist s) - position (clients s ! i) < block_count (buf s) * (2 ^ 32 - 1)"
    and "get_read_block (rd (clients s ! i)) (buf s) wakeups (buf s) (buf s) = Some (Block ix len, r)"
  shows "position (clients s ! i) < length (hist s) \<and>
    take len (blocks (buf s) ! ix) = hist s ! position (clients s ! i) \<and>
    len = length (hist s ! position (clients s ! i))"
proof -
  let ?x = "clients s ! i" and ?c = "block_count (buf s)" and ?n = "length (hist s)"
  have inv: "system_inv s" using assms(1) by (rule buffer_run_inv)
  note o = opened_attached [OF inv assms(2,3)]
  from assms(5) have st: "status (rd ?x) = READER_STATUS_CLOSED"
    and ok: "check_overrun_ok (cb_buffer_cycle (buf s)) (rs_buffer_cycle (rd ?x)) (in_ptr (buf s)) (out_ptr (rd ?x))"
    and ix: "ix = out_ptr (rd ?x)" "len = written (buf s) ! ix"
    by (auto simp: get_read_block_def check_block_status_def Let_def split: if_splits option.splits prod.splits)
  have pos: "position ?x \<le> ?n" "out_ptr (rd ?x) = slot_of ?c (position ?x)"
    "rs_buffer_cycle (rd ?x) = cycle_of ?c (position ?x)"
    using o(4) assms(3) st by (auto simp: client_inv_def)
  have d: "0 < ?c" "in_ptr (buf s) = slot_of ?c ?n" "cb_buffer_cycle (buf s) = cycle_of ?c ?n"
    using o(3) by (simp_all add: data_inv_def Let_def)
  have "position ?x < ?n \<and> ?n < position ?x + ?c"
    using ok check_overrun_positions [OF d(1) pos(1) assms(4)] by (simp add: pos d)
  with o(3) ix pos(2) show ?thesis by (auto simp: data_inv_def Let_def)
qed

theorem get_read_block_correct_witness:
  "get_read_block (rd (clients demo_open ! 0)) (buf demo_open) [] (buf demo_open) (buf demo_open) =
     Some (Block 0 2, demo_reader\<lparr>out_ptr := 1\<rparr>) \<and> take 2 (blocks (buf demo_open) ! 0) = [5, 6]"
proof -
  have g: "get_read_block (rd (clients demo_open ! 0)) (buf demo_open) [] (buf demo_open) (buf demo_open) =
     Some (Block 0 2, demo_reader\<lparr>out_ptr := 1\<rparr>)"
    by (simp add: demo_defs get_read_block_def wait_for_block_ready.simps check_block_status_def
      check_overrun_ok_def next_block_def)
  have "length (hist demo_open) - position (clients demo_open ! 0) < block_count (buf demo_open) * (2 ^ 32 - 1)"
    "0 < length (clients demo_open)" "opened (clients demo_open ! 0)"
    by (simp_all add: demo_defs)
  with get_read_block_correct [OF demo_open_run _ _ _ g] g show ?thesis
    by (simp add: demo_open_def demo_data_def)
qed

text \<open>
  C1: \<^verbatim>\<open>check_read_block\<close>, called after the block has been used, tells exactly whether the block is
  still there untouched: it succeeds if and only if the writer has not come round to its slot, and
  then the slot still holds the octets of the block.
\<close>

theorem check_read_block_correct:
  assumes "buffer_run s" "i < length (clients s)" "opened (clients s ! i)"
    and "status (rd (clients s ! i)) = READER_STATUS_CLOSED" "position (clients s ! i) = Suc k"
    and "length (hist s) - k < block_count (buf s) * (2 ^ 32 - 1)"
  shows "(fst (check_read_block (rd (clients s ! i)) (buf s)) \<longleftrightarrow> length (hist s) < k + block_count (buf s)) \<and>
    (fst (check_read_block (rd (clients s ! i)) (buf s)) \<longrightarrow>
      take (length (hist s ! k)) (blocks (buf s) ! (k mod block_count (buf s))) = hist s ! k)"
proof -
  let ?x = "clients s ! i" and ?c = "block_count (buf s)" and ?n = "length (hist s)"
  have inv: "system_inv s" using assms(1) by (rule buffer_run_inv)
  note o = opened_attached [OF inv assms(2,3)]
  have pos: "Suc k \<le> ?n" "out_ptr (rd ?x) = slot_of ?c (Suc k)" "rs_buffer_cycle (rd ?x) = cycle_of ?c (Suc k)"
    using o(4) assms(3-5) by (auto simp: client_inv_def)
  have d: "0 < ?c" "in_ptr (buf s) = slot_of ?c ?n" "cb_buffer_cycle (buf s) = cycle_of ?c ?n"
    using o(3) by (simp_all add: data_inv_def Let_def)
  have "slot_of ?c k < ?c" using d(1) by simp
  then have "?c \<le> Suc (slot_of ?c k) \<Longrightarrow> ?c - Suc 0 = slot_of ?c k" by simp
  then have "fst (check_read_block (rd ?x) (buf s)) \<longleftrightarrow>
      check_overrun_ok (cb_buffer_cycle (buf s)) (cycle_of ?c k) (in_ptr (buf s)) (slot_of ?c k)"
    unfolding check_read_block_def check_block_status_def Let_def pos slot_cycle_Suc [OF d(1)] by auto
  also have "\<dots> \<longleftrightarrow> ?n < k + ?c"
    unfolding d using check_overrun_positions [OF d(1) _ assms(6)] pos(1) by auto
  finally have iff: "fst (check_read_block (rd ?x) (buf s)) \<longleftrightarrow> ?n < k + ?c" .
  with o(3) pos(1) show ?thesis by (auto simp: data_inv_def Let_def slot_of_def)
qed

theorem check_read_block_correct_witness:
  "fst (check_read_block (rd (clients demo_read ! 0)) (buf demo_read)) \<and> take 2 (blocks (buf demo_read) ! 0) = [5, 6]"
proof -
  have "0 < length (clients demo_read)" "opened (clients demo_read ! 0)"
    "status (rd (clients demo_read ! 0)) = READER_STATUS_CLOSED" "position (clients demo_read ! 0) = Suc 0"
    "length (hist demo_read) - 0 < block_count (buf demo_read) * (2 ^ 32 - 1)"
    "length (hist demo_read) < 0 + block_count (buf demo_read)" "hist demo_read = [[5, 6]]"
    by (simp_all add: demo_defs)
  with check_read_block_correct [OF demo_read_run, of 0 0] show ?thesis by (simp add: numeral_2_eq_2)
qed

text \<open>
  C11: a reader that opens is placed so that the writer can release at least \<^verbatim>\<open>read_margin\<close> more
  blocks before the reader is overrun; it starts at the first block while that is possible, and the
  number of lost bytes it is told is the total size of the blocks before its first one.
\<close>

theorem open_reader_correct:
  assumes "buffer_run s" "i < length (clients s)" "margin + 1 < block_count (buf s)"
    and "length (hist s) < block_count (buf s) * 2 ^ 32" "\<not> shutdown (buf s)" "state (buf s) \<noteq> STATE_IDLE"
    and "attached s (clients s ! i)" "hist s \<noteq> []"
  defines "k \<equiv> start_position (block_count (buf s)) (length (hist s)) margin"
  shows "\<exists>r. open_reader (rd (clients s ! i)) (buf s) margin wakeups =
      Some (Some (r, word_of_nat (sum_list (map length (take k (hist s))))), buf s) \<and>
    out_ptr r = k mod block_count (buf s) \<and> rs_buffer_cycle r = word_of_nat (k div block_count (buf s)) \<and>
    k \<le> length (hist s) \<and> length (hist s) + margin < k + block_count (buf s) \<and>
    (length (hist s) + margin + 1 < block_count (buf s) \<longrightarrow> k = 0)"
proof -
  have d: "data_inv (buf s) (hist s)" using buffer_run_inv [OF assms(1)] assms(6) by (simp add: system_inv_def)
  then have once: "released_once (buf s)" using assms(8) by (simp add: data_inv_def Let_def)
  have ready: "wait_for_buffer_ready (rd (clients s ! i)) (buf s) wakeups = Some (True, buf s)"
    using assms(5-7) once by (simp add: wait_for_buffer_ready.simps [of _ "buf s"] attached_def)
  note start = compute_reader_start_position [OF d assms(3,4), folded k_def]
  show ?thesis
    using ready start by (simp add: open_reader_def slot_of_def cycle_of_def) (simp add: k_def start_position_def)
qed

theorem open_reader_correct_witness:
  "\<exists>r. open_reader (rd (clients demo_data ! 0)) (buf demo_data) 1 [] = Some (Some (r, 0), buf demo_data) \<and> out_ptr r = 0"
proof -
  have "0 < length (clients demo_data)" "(1 :: nat) + 1 < block_count (buf demo_data)"
    "length (hist demo_data) < block_count (buf demo_data) * 2 ^ 32" "\<not> shutdown (buf demo_data)"
    "state (buf demo_data) \<noteq> STATE_IDLE" "attached demo_data (clients demo_data ! 0)" "hist demo_data \<noteq> []"
    by (simp_all add: demo_defs attached_def)
  note open_reader_correct [OF demo_data_run this, of "[]"]
  moreover have "start_position (block_count (buf demo_data)) (length (hist demo_data)) 1 = 0"
    by (simp add: demo_defs start_position_def)
  ultimately show ?thesis by auto
qed

end
