(* ===== verification/Panda_Lut.thy ===== *)
theory Panda_Lut
  imports Panda_Prelude
begin

text \<open>
  \<^verbatim>\<open>parse_lut.c\<close>: the operator precedence parser that evaluates an expression over the five inputs
  of a lookup table to the 32 bit table.
\<close>

section \<open>Tokens and the precedence table\<close>

definition MAX_DEPTH :: nat where "MAX_DEPTH = 40"

definition CONSTANT_0 :: u32 where "CONSTANT_0 = 0x00000000"
definition CONSTANT_1 :: u32 where "CONSTANT_1 = 0xffffffff"
definition CONSTANT_A :: u32 where "CONSTANT_A = 0xffff0000"
definition CONSTANT_B :: u32 where "CONSTANT_B = 0xff00ff00"
definition CONSTANT_C :: u32 where "CONSTANT_C = 0xf0f0f0f0"
definition CONSTANT_D :: u32 where "CONSTANT_D = 0xcccccccc"
definition CONSTANT_E :: u32 where "CONSTANT_E = 0xaaaaaaaa"

datatype parse_lut_status =
    LUT_PARSE_OK | LUT_PARSE_TOKEN_ERROR | LUT_PARSE_TOO_COMPLEX | LUT_PARSE_NO_OPERATOR
  | LUT_PARSE_NO_OPEN | LUT_PARSE_NO_CLOSE | LUT_PARSE_NO_VALUE | LUT_PARSE_NO_IF | LUT_PARSE_NO_ELSE

datatype token_symbol =
    TOKEN_CONSTANT | TOKEN_BRA | TOKEN_KET | TOKEN_NOT | TOKEN_EQ | TOKEN_AND | TOKEN_XOR | TOKEN_OR
  | TOKEN_IMPLIES | TOKEN_IF | TOKEN_ELSE | TOKEN_END

text \<open>
  The four fields that the macro \<^verbatim>\<open>TOKEN\<close> packs into a token: index, precedence, arity and number
  of tokens to reduce; an unused field is 0.
\<close>

fun TOKEN :: "token_symbol \<Rightarrow> nat \<times> nat \<times> nat \<times> nat" where
  "TOKEN TOKEN_CONSTANT = (0, 0, 0, 1)"
| "TOKEN TOKEN_BRA = (1, 0, 0, 0)"
| "TOKEN TOKEN_KET = (2, 0, 1, 2)"
| "TOKEN TOKEN_NOT = (3, 0, 1, 1)"
| "TOKEN TOKEN_EQ = (4, 5, 2, 1)"
| "TOKEN TOKEN_AND = (4, 4, 2, 1)"
| "TOKEN TOKEN_XOR = (4, 3, 2, 1)"
| "TOKEN TOKEN_OR = (4, 2, 2, 1)"
| "TOKEN TOKEN_IMPLIES = (4, 1, 2, 1)"
| "TOKEN TOKEN_IF = (5, 0, 0, 0)"
| "TOKEN TOKEN_ELSE = (6, 0, 3, 2)"
| "TOKEN TOKEN_END = (7, 0, 0, 0)"

definition TOKEN_INDEX :: "token_symbol \<Rightarrow> nat" where
  "TOKEN_INDEX t = fst (TOKEN t)"

definition TOKEN_PRECEDENCE :: "token_symbol \<Rightarrow> nat" where
  "TOKEN_PRECEDENCE t = fst (snd (TOKEN t))"

definition TOKEN_ARITY :: "token_symbol \<Rightarrow> nat" where
  "TOKEN_ARITY t = fst (snd (snd (TOKEN t)))"

definition TOKEN_REDUCE :: "token_symbol \<Rightarrow> nat" where
  "TOKEN_REDUCE t = snd (snd (snd (TOKEN t)))"

datatype parse_action = LT | EQ | GT | PR | Error parse_lut_status

abbreviation "E1 \<equiv> Error LUT_PARSE_NO_OPERATOR"
abbreviation "E2 \<equiv> Error LUT_PARSE_NO_OPEN"
abbreviation "E3 \<equiv> Error LUT_PARSE_NO_CLOSE"
abbreviation "E4 \<equiv> Error LUT_PARSE_NO_IF"
abbreviation "E5 \<equiv> Error LUT_PARSE_NO_ELSE"

text \<open>The last entry is the unused value 0, which is \<^verbatim>\<open>LT\<close>.\<close>

definition parse_table :: "parse_action list list" where
  "parse_table =
    [[E1, E1, GT, E1, GT, GT, GT, GT],
     [LT, LT, EQ, LT, LT, LT, E4, E3],
     [E1, E1, GT, E1, GT, GT, GT, GT],
     [LT, LT, GT, LT, GT, GT, GT, GT],
     [LT, LT, GT, LT, PR, GT, GT, GT],
     [LT, LT, E5, LT, LT, LT, EQ, E5],
     [LT, LT, GT, LT, LT, LT, GT, GT],
     [LT, LT, E2, LT, LT, LT, E4, LT]]"

definition lookup_action :: "token_symbol \<Rightarrow> token_symbol \<Rightarrow> parse_action" where
  "lookup_action left right =
     (let action = parse_table ! TOKEN_INDEX left ! TOKEN_INDEX right in
      if action = PR
      then (if TOKEN_PRECEDENCE left < TOKEN_PRECEDENCE right then LT else GT)
      else action)"

section \<open>Reading and reducing\<close>

fun skip_blanks :: "string \<Rightarrow> string" where
  "skip_blanks [] = []"
| "skip_blanks (c # s) = (if c = CHR '' '' then skip_blanks s else c # s)"

text \<open>
  The next token, the value of a constant, and the rest of the input; \<open>None\<close> is the status
  \<^verbatim>\<open>LUT_PARSE_TOKEN_ERROR\<close>.
\<close>

definition read_token :: "string \<Rightarrow> u32 \<Rightarrow> (token_symbol \<times> u32 \<times> string) option" where
  "read_token input value =
     (case skip_blanks input of
        [] \<Rightarrow> Some (TOKEN_END, value, [])
      | ch # rest \<Rightarrow>
          if ch = CHR ''0'' then Some (TOKEN_CONSTANT, CONSTANT_0, rest)
          else if ch = CHR ''1'' then Some (TOKEN_CONSTANT, CONSTANT_1, rest)
          else if ch = CHR ''A'' then Some (TOKEN_CONSTANT, CONSTANT_A, rest)
          else if ch = CHR ''B'' then Some (TOKEN_CONSTANT, CONSTANT_B, rest)
          else if ch = CHR ''C'' then Some (TOKEN_CONSTANT, CONSTANT_C, rest)
          else if ch = CHR ''D'' then Some (TOKEN_CONSTANT, CONSTANT_D, rest)
          else if ch = CHR ''E'' then Some (TOKEN_CONSTANT, CONSTANT_E, rest)
          else if ch = CHR ''('' then Some (TOKEN_BRA, value, rest)
          else if ch = CHR '')'' then Some (TOKEN_KET, value, rest)
          else if ch = CHR ''~'' then Some (TOKEN_NOT, value, rest)
          else if ch = CHR ''&'' then Some (TOKEN_AND, value, rest)
          else if ch = CHR ''|'' then Some (TOKEN_OR, value, rest)
          else if ch = CHR ''^'' then Some (TOKEN_XOR, value, rest)
          else if ch = CHR ''?'' then Some (TOKEN_IF, value, rest)
          else if ch = CHR '':'' then Some (TOKEN_ELSE, value, rest)
          else if ch = CHR ''='' then
            (case rest of
               c # rest' \<Rightarrow>
                 if c = CHR ''>'' then Some (TOKEN_IMPLIES, value, rest')
                 else if c = CHR ''='' then Some (TOKEN_EQ, value, rest')
                 else Some (TOKEN_EQ, value, rest)
             | [] \<Rightarrow> Some (TOKEN_EQ, value, rest))
          else None)"

text \<open>
  The value stack is a list with its top first: \<^verbatim>\<open>values[0]\<close> of \<^verbatim>\<open>reduce\<close> is the deepest of the
  operands.
\<close>

definition reduce :: "token_symbol \<Rightarrow> u32 \<Rightarrow> u32 list \<Rightarrow> u32" where
  "reduce token value operands =
     (case token of
        TOKEN_CONSTANT \<Rightarrow> value
      | TOKEN_NOT \<Rightarrow> NOT (operands ! 0)
      | TOKEN_AND \<Rightarrow> operands ! 0 AND operands ! 1
      | TOKEN_OR \<Rightarrow> operands ! 0 OR operands ! 1
      | TOKEN_EQ \<Rightarrow> NOT (operands ! 0 XOR operands ! 1)
      | TOKEN_XOR \<Rightarrow> operands ! 0 XOR operands ! 1
      | TOKEN_IMPLIES \<Rightarrow> NOT (operands ! 0) OR operands ! 1
      | TOKEN_ELSE \<Rightarrow> (operands ! 0 AND operands ! 1) OR (NOT (operands ! 0) AND operands ! 2)
      | _ \<Rightarrow> operands ! 0)"

text \<open>
  \<open>None\<close> is an access outside the stacks or beyond the end of the input; \<open>Inl\<close> is a parse
  status other than OK.
\<close>

definition reduce_stack ::
    "token_symbol \<Rightarrow> token_symbol list \<Rightarrow> u32 list \<Rightarrow> u32 \<Rightarrow>
     (parse_lut_status + token_symbol list \<times> u32 list) option" where
  "reduce_stack this_token tokens values value =
     (if length values < TOKEN_ARITY this_token then Some (Inl LUT_PARSE_NO_VALUE)
      else if length tokens \<le> TOKEN_REDUCE this_token \<or>
        TOKEN_ARITY this_token = 0 \<and> length values = MAX_DEPTH
      then None
      else Some (Inr (drop (TOKEN_REDUCE this_token) tokens,
        reduce this_token value (rev (take (TOKEN_ARITY this_token) values)) #
          drop (TOKEN_ARITY this_token) values)))"

definition push_token ::
    "string \<Rightarrow> token_symbol list \<Rightarrow> token_symbol \<Rightarrow> u32 \<Rightarrow>
     (parse_lut_status + token_symbol list \<times> token_symbol \<times> u32 \<times> string) option" where
  "push_token input tokens next_token value =
     (if length tokens = MAX_DEPTH then Some (Inl LUT_PARSE_TOO_COMPLEX)
      else if next_token = TOKEN_END then None
      else (case read_token input value of
          None \<Rightarrow> Some (Inl LUT_PARSE_TOKEN_ERROR)
        | Some (token, value', input') \<Rightarrow> Some (Inr (next_token # tokens, token, value', input'))))"

definition extract_result :: "u32 list \<Rightarrow> parse_lut_status + u32" where
  "extract_result values = (if length values = 1 then Inr (hd values) else Inl LUT_PARSE_NO_VALUE)"

section \<open>The parser\<close>

lemma skip_blanks_length: "length (skip_blanks s) \<le> length s"
  by (induction s) auto

lemma read_token_progress:
  "read_token input value = Some (t, v, rest) \<Longrightarrow> t = TOKEN_END \<or> length rest < length input"
  using skip_blanks_length [of input]
  by (auto simp: read_token_def split: list.splits if_splits)

text \<open>
  The loop: a push moves on in the input, a reduction that shortens the token stack ends too.
\<close>

function parse_loop ::
    "token_symbol list \<Rightarrow> u32 list \<Rightarrow> token_symbol \<Rightarrow> u32 \<Rightarrow> string \<Rightarrow> (parse_lut_status + u32) option" where
  "parse_loop tokens values next_token value input =
     (if length tokens > 1 \<or> next_token \<noteq> TOKEN_END then
        (case tokens of
           [] \<Rightarrow> None
         | this_token # _ \<Rightarrow>
             (case lookup_action this_token next_token of
                GT \<Rightarrow>
                  (case reduce_stack this_token tokens values value of
                     None \<Rightarrow> None
                   | Some (Inl status) \<Rightarrow> Some (Inl status)
                   | Some (Inr (tokens', values')) \<Rightarrow>
                       if length tokens' < length tokens
                       then parse_loop tokens' values' next_token value input
                       else None)
              | Error status \<Rightarrow> Some (Inl status)
              | _ \<Rightarrow>
                  (case push_token input tokens next_token value of
                     None \<Rightarrow> None
                   | Some (Inl status) \<Rightarrow> Some (Inl status)
                   | Some (Inr (tokens', next', value', input')) \<Rightarrow>
                       parse_loop tokens' values next' value' input')))
      else Some (extract_result values))"
  by pat_completeness auto
termination
proof (relation "measure (\<lambda>(tokens, values, next_token, value, input).
    (if next_token = TOKEN_END then 0 else 2 * (length input + 1)) + length tokens)", goal_cases)
  case 1
  then show ?case by simp
qed (auto simp: push_token_def dest!: read_token_progress split: if_splits option.splits)

declare parse_loop.simps [simp del]

definition parse_lut :: "string \<Rightarrow> (parse_lut_status + u32) option" where
  "parse_lut input =
     (case read_token input 0 of
        None \<Rightarrow> Some (Inl LUT_PARSE_TOKEN_ERROR)
      | Some (next_token, value, input') \<Rightarrow> parse_loop [TOKEN_END] [] next_token value input')"

definition parse_lut_error_string :: "parse_lut_status \<Rightarrow> string" where
  "parse_lut_error_string status =
     (case status of
        LUT_PARSE_OK \<Rightarrow> ''OK''
      | LUT_PARSE_TOKEN_ERROR \<Rightarrow> ''Invalid token''
      | LUT_PARSE_TOO_COMPLEX \<Rightarrow> ''Expression too complex''
      | LUT_PARSE_NO_OPERATOR \<Rightarrow> ''Missing operator between values''
      | LUT_PARSE_NO_OPEN \<Rightarrow> ''Missing open bracket''
      | LUT_PARSE_NO_CLOSE \<Rightarrow> ''Missing close bracket''
      | LUT_PARSE_NO_VALUE \<Rightarrow> ''Missing value''
      | LUT_PARSE_NO_IF \<Rightarrow> ''Missing ? before :''
      | LUT_PARSE_NO_ELSE \<Rightarrow> ''Missing : after ?'')"

section \<open>The parser stays inside its stacks\<close>

lemmas table_simps = lookup_action_def parse_table_def TOKEN_INDEX_def TOKEN_PRECEDENCE_def

lemma lookup_action_push:
  assumes "lookup_action t n = LT \<or> lookup_action t n = EQ"
  shows "t \<noteq> TOKEN_CONSTANT" "t \<noteq> TOKEN_KET" "n = TOKEN_KET \<Longrightarrow> t = TOKEN_BRA" "n = TOKEN_ELSE \<Longrightarrow> t = TOKEN_IF"
    "n = TOKEN_END \<Longrightarrow> t = TOKEN_END"
  using assms by (cases t; cases n; simp add: table_simps)+

definition starts_operand :: "token_symbol \<Rightarrow> bool" where
  "starts_operand t = (t \<in> {TOKEN_CONSTANT, TOKEN_BRA, TOKEN_NOT})"

lemma lookup_action_reduce:
  assumes "lookup_action t n = GT"
  shows "t \<noteq> TOKEN_BRA" "t \<noteq> TOKEN_IF" "t \<noteq> TOKEN_END" "\<not> starts_operand n"
  using assms by (cases t; cases n; simp add: table_simps starts_operand_def)+

lemma lookup_action_no_PR: "lookup_action t n \<noteq> PR"
  by (cases t; cases n; simp add: table_simps)

text \<open>
  Tokens that separate operands weigh 1.  There is at most one vl per separator, and a place
  left for one more where an operand is due.
\<close>

definition weight :: "token_symbol \<Rightarrow> nat" where
  "weight t = (if t \<in> {TOKEN_CONSTANT, TOKEN_BRA, TOKEN_KET, TOKEN_NOT} then 0 else 1)"

fun stack_ok :: "token_symbol list \<Rightarrow> bool" where
  "stack_ok [] = False"
| "stack_ok [t] = (t = TOKEN_END)"
| "stack_ok (t # u # ts) =
     (t \<noteq> TOKEN_END \<and> u \<noteq> TOKEN_CONSTANT \<and> u \<noteq> TOKEN_KET \<and> (t = TOKEN_KET \<longrightarrow> u = TOKEN_BRA) \<and>
      (t = TOKEN_ELSE \<longrightarrow> u = TOKEN_IF) \<and> stack_ok (u # ts))"

definition parser_inv :: "token_symbol list \<Rightarrow> u32 list \<Rightarrow> token_symbol \<Rightarrow> bool" where
  "parser_inv tokens vals nt =
     (stack_ok tokens \<and> length tokens \<le> MAX_DEPTH \<and>
      length vals + (if hd tokens = TOKEN_CONSTANT \<or> starts_operand nt \<and> hd tokens \<noteq> TOKEN_KET then 1 else 0) \<le>
        sum_list (map weight tokens))"

lemma weight_le_length: "sum_list (map weight ts) \<le> length ts"
  by (induction ts) (auto simp: weight_def)

lemma reduce_stack_inv:
  assumes inv: "parser_inv (t # ts) vals nt" and gt: "lookup_action t nt = GT"
  shows "case reduce_stack t (t # ts) vals vl of
      None \<Rightarrow> False
    | Some (Inl _) \<Rightarrow> True
    | Some (Inr (ts', vals')) \<Rightarrow> length ts' < Suc (length ts) \<and> parser_inv ts' vals' nt"
proof (cases "length vals < TOKEN_ARITY t")
  case True
  then show ?thesis by (simp add: reduce_stack_def)
next
  case False
  note lr = lookup_action_reduce [OF gt]
  from lr(3) inv obtain u us where ts: "ts = u # us" by (cases ts) (auto simp: parser_inv_def)
  have top: "u \<noteq> TOKEN_CONSTANT" "u \<noteq> TOKEN_KET" "stack_ok (u # us)" "t = TOKEN_KET \<Longrightarrow> u = TOKEN_BRA"
    "t = TOKEN_ELSE \<Longrightarrow> u = TOKEN_IF" "Suc (Suc (length us)) \<le> MAX_DEPTH"
    using inv by (auto simp: parser_inv_def ts)
  have lim: "length vals + (if t = TOKEN_CONSTANT then 1 else 0) \<le> weight t + (weight u + sum_list (map weight us))"
    using inv by (auto simp: parser_inv_def ts split: if_splits)
  consider (two) "t = TOKEN_KET \<or> t = TOKEN_ELSE" | (one) "t \<noteq> TOKEN_KET" "t \<noteq> TOKEN_ELSE" by blast
  then show ?thesis
  proof cases
    case two
    then obtain v vs where us: "us = v # vs"
      using top(3-5) by (cases us) auto
    have vv: "v \<noteq> TOKEN_CONSTANT" "stack_ok us" using top(3) by (auto simp: us)
    show ?thesis
      using two False lim top vv lr(4)
      by (auto simp: reduce_stack_def parser_inv_def ts us TOKEN_ARITY_def TOKEN_REDUCE_def weight_def)
  next
    case one
    have full: "t = TOKEN_CONSTANT \<Longrightarrow> length vals < MAX_DEPTH"
      using lim top(6) weight_le_length [of "u # us"] by (simp add: weight_def)
    show ?thesis
      using one False lim top lr full
      by (cases t) (auto simp: reduce_stack_def parser_inv_def ts TOKEN_ARITY_def TOKEN_REDUCE_def weight_def)
  qed
qed

lemma push_token_inv:
  assumes inv: "parser_inv (t # ts) vals nt" and act: "lookup_action t nt = LT \<or> lookup_action t nt = EQ"
    and more: "ts \<noteq> [] \<or> nt \<noteq> TOKEN_END"
  shows "case push_token input (t # ts) nt vl of
      None \<Rightarrow> False
    | Some (Inl _) \<Rightarrow> True
    | Some (Inr (ts', nt', _, _)) \<Rightarrow> parser_inv ts' vals nt'"
proof -
  note lp = lookup_action_push [OF act]
  have "nt \<noteq> TOKEN_END"
  proof
    assume "nt = TOKEN_END"
    with lp(5) inv more show False by (cases ts) (auto simp: parser_inv_def)
  qed
  moreover have "weight nt = (if starts_operand nt \<or> nt = TOKEN_KET then 0 else 1)"
    by (auto simp: weight_def starts_operand_def)
  ultimately show ?thesis
    using inv lp
    by (cases nt) (auto simp: push_token_def parser_inv_def starts_operand_def split: option.split prod.split if_splits)
qed

text \<open>
  On no input does the parser leave its two stacks of forty entries, read past the end of its
  input or loop: it always returns a value or a parse error.
\<close>

theorem parse_lut_safe: "parse_lut input \<noteq> None"
proof -
  have "parser_inv tokens vals nt \<Longrightarrow> parse_loop tokens vals nt vl inp \<noteq> None"
    for tokens vals nt vl inp
  proof (induction tokens vals nt vl inp rule: parse_loop.induct)
    case (1 tokens vals nt vl inp)
    then obtain t ts where tokens: "tokens = t # ts" by (cases tokens) (auto simp: parser_inv_def)
    show ?case
    proof (cases "length tokens > 1 \<or> nt \<noteq> TOKEN_END")
      case False
      then show ?thesis by (simp add: parse_loop.simps)
    next
      case True
      show ?thesis
      proof (cases "lookup_action t nt")
        case GT
        show ?thesis
          using reduce_stack_inv [OF _ GT, of ts vals vl] "1.prems" "1.IH"(3) [OF True tokens GT] True GT
          by (auto simp: parse_loop.simps [of "t # ts"] tokens split: option.splits sum.splits)
      next
        case (Error e)
        then show ?thesis using True by (simp add: parse_loop.simps [of "t # ts"] tokens)
      next
        case PR
        then show ?thesis using lookup_action_no_PR by blast
      next
        case LT
        show ?thesis
          using push_token_inv [of t ts vals nt inp vl] "1.prems" "1.IH"(1) [OF True tokens LT] True LT tokens
          by (auto simp: parse_loop.simps [of "t # ts"] split: option.splits sum.splits)
      next
        case EQ
        show ?thesis
          using push_token_inv [of t ts vals nt inp vl] "1.prems" "1.IH"(2) [OF True tokens EQ] True EQ tokens
          by (auto simp: parse_loop.simps [of "t # ts"] split: option.splits sum.splits)
      qed
    qed
  qed
  moreover have "parser_inv [TOKEN_END] [] nt" for nt
    by (simp add: parser_inv_def weight_def MAX_DEPTH_def)
  ultimately show ?thesis by (simp add: parse_lut_def split: option.split)
qed

section \<open>Expressions and their truth tables\<close>

datatype lut_atom = Zero | One | InA | InB | InC | InD | InE

datatype lut_expr = Atom lut_atom | Not lut_expr | Bin token_symbol lut_expr lut_expr
  | Cond lut_expr lut_expr lut_expr

fun atom_value :: "lut_atom \<Rightarrow> u32" where
  "atom_value Zero = CONSTANT_0"
| "atom_value One = CONSTANT_1"
| "atom_value InA = CONSTANT_A"
| "atom_value InB = CONSTANT_B"
| "atom_value InC = CONSTANT_C"
| "atom_value InD = CONSTANT_D"
| "atom_value InE = CONSTANT_E"

text \<open>The value of an input in row \<open>i\<close> of the table: input A is the most significant bit of \<open>i\<close>.\<close>

fun atom_bit :: "lut_atom \<Rightarrow> nat \<Rightarrow> bool" where
  "atom_bit Zero i = False"
| "atom_bit One i = True"
| "atom_bit InA i = bit i 4"
| "atom_bit InB i = bit i 3"
| "atom_bit InC i = bit i 2"
| "atom_bit InD i = bit i 1"
| "atom_bit InE i = bit i 0"

fun op_bit :: "token_symbol \<Rightarrow> bool \<Rightarrow> bool \<Rightarrow> bool" where
  "op_bit TOKEN_EQ a b = (a = b)"
| "op_bit TOKEN_AND a b = (a \<and> b)"
| "op_bit TOKEN_XOR a b = (a \<noteq> b)"
| "op_bit TOKEN_OR a b = (a \<or> b)"
| "op_bit TOKEN_IMPLIES a b = (a \<longrightarrow> b)"
| "op_bit _ a b = False"

fun expr_bit :: "lut_expr \<Rightarrow> nat \<Rightarrow> bool" where
  "expr_bit (Atom a) i = atom_bit a i"
| "expr_bit (Not e) i = (\<not> expr_bit e i)"
| "expr_bit (Bin op a b) i = op_bit op (expr_bit a i) (expr_bit b i)"
| "expr_bit (Cond a b c) i = (if expr_bit a i then expr_bit b i else expr_bit c i)"

fun expr_value :: "lut_expr \<Rightarrow> u32" where
  "expr_value (Atom a) = reduce TOKEN_CONSTANT (atom_value a) []"
| "expr_value (Not e) = reduce TOKEN_NOT 0 [expr_value e]"
| "expr_value (Bin op a b) = reduce op 0 [expr_value a, expr_value b]"
| "expr_value (Cond a b c) = reduce TOKEN_ELSE 0 [expr_value a, expr_value b, expr_value c]"

definition is_binary :: "token_symbol \<Rightarrow> bool" where
  "is_binary t = (t \<in> {TOKEN_EQ, TOKEN_AND, TOKEN_XOR, TOKEN_OR, TOKEN_IMPLIES})"

lemma is_binary_cases:
  assumes "is_binary t"
  obtains "t = TOKEN_EQ" | "t = TOKEN_AND" | "t = TOKEN_XOR" | "t = TOKEN_OR" | "t = TOKEN_IMPLIES"
  using assms by (auto simp: is_binary_def)

fun well_formed :: "lut_expr \<Rightarrow> bool" where
  "well_formed (Atom a) = True"
| "well_formed (Not e) = well_formed e"
| "well_formed (Bin op a b) = (is_binary op \<and> well_formed a \<and> well_formed b)"
| "well_formed (Cond a b c) = (well_formed a \<and> well_formed b \<and> well_formed c)"

lemma atom_value_bits: "i < 32 \<Longrightarrow> bit (atom_value a) i = atom_bit a i"
proof -
  assume "i < 32"
  then have "i \<in> set [0..<32]" by simp
  moreover have "list_all (\<lambda>i. list_all (\<lambda>a. bit (atom_value a) i = atom_bit a i)
      [Zero, One, InA, InB, InC, InD, InE]) [0..<32]"
    by code_simp
  ultimately show ?thesis by (cases a) (auto simp only: list_all_iff list.set insert_iff)
qed

lemma expr_value_bits: "well_formed e \<Longrightarrow> i < 32 \<Longrightarrow> bit (expr_value e) i = expr_bit e i"
proof (induction e)
  case (Atom a)
  then show ?case by (simp add: reduce_def atom_value_bits)
next
  case (Not e)
  then show ?case by (simp add: reduce_def bit_not_iff)
next
  case (Bin op a b)
  then have "is_binary op" by simp
  then show ?case
    using Bin by (cases rule: is_binary_cases) (auto simp: reduce_def bit_not_iff bit_and_iff bit_or_iff bit_xor_iff)
next
  case (Cond a b c)
  then show ?case by (auto simp: reduce_def bit_not_iff bit_and_iff bit_or_iff)
qed

section \<open>The grammar\<close>

text \<open>
  Token strings with the expression they stand for: level 0 is \<^verbatim>\<open>?:\<close>, levels 1 to 5 the binary
  operators by precedence, binding to the left, and level 6 negation, brackets and constants.
\<close>

type_synonym lut_token = "token_symbol \<times> u32"

inductive derives :: "nat \<Rightarrow> lut_token list \<Rightarrow> lut_expr \<Rightarrow> bool" where
  atom: "derives 6 [(TOKEN_CONSTANT, atom_value a)] (Atom a)"
| bracket: "derives 0 ts e \<Longrightarrow> derives 6 ((TOKEN_BRA, 0) # ts @ [(TOKEN_KET, 0)]) e"
| negation: "derives 6 ts e \<Longrightarrow> derives 6 ((TOKEN_NOT, 0) # ts) (Not e)"
| level: "derives (Suc p) ts e \<Longrightarrow> p < 6 \<Longrightarrow> derives p ts e"
| binary: "derives p l a \<Longrightarrow> is_binary op \<Longrightarrow> TOKEN_PRECEDENCE op = p \<Longrightarrow> derives (Suc p) r b \<Longrightarrow>
    derives p (l @ (op, 0) # r) (Bin op a b)"
| conditional: "derives 1 l a \<Longrightarrow> derives 0 m b \<Longrightarrow> derives 0 r c \<Longrightarrow>
    derives 0 (l @ (TOKEN_IF, 0) # m @ (TOKEN_ELSE, 0) # r) (Cond a b c)"

lemma derives_lower:
  assumes "derives q ts e" "p \<le> q" "q \<le> 6"
  shows "derives p ts e"
  using assms(2)
proof (induction rule: inc_induct)
  case base
  show ?case by (rule assms(1))
next
  case (step n)
  with assms(3) show ?case by (auto intro: derives.level [of n])
qed

lemma derives_well_formed: "derives p ts e \<Longrightarrow> well_formed e"
  by (induction rule: derives.induct) auto

text \<open>The tokens of an input string.\<close>

function lut_tokens :: "string \<Rightarrow> lut_token list option" where
  "lut_tokens s =
     (case read_token s 0 of
        None \<Rightarrow> None
      | Some (t, v, s') \<Rightarrow> if t = TOKEN_END then Some [] else map_option (\<lambda>ts. (t, v) # ts) (lut_tokens s'))"
  by pat_completeness auto
termination
  by (relation "measure length") (auto dest: read_token_progress)

declare lut_tokens.simps [simp del]

lemma read_token_value:
  "read_token s v =
     map_option (\<lambda>(t, c, s'). (t, if t = TOKEN_CONSTANT then c else v, s')) (read_token s 0)"
  by (auto simp: read_token_def split: list.split)

text \<open>The tokens still to come: the one that has been read and those of the rest of the input.\<close>

definition pending :: "token_symbol \<Rightarrow> u32 \<Rightarrow> string \<Rightarrow> lut_token list \<Rightarrow> bool" where
  "pending nt v input ts =
     (case ts of
        [] \<Rightarrow> nt = TOKEN_END
      | (t, c) # rest \<Rightarrow> nt = t \<and> t \<noteq> TOKEN_END \<and> (t = TOKEN_CONSTANT \<longrightarrow> v = c) \<and> lut_tokens input = Some rest)"

lemma read_pending:
  assumes "lut_tokens input = Some ts"
  shows "\<exists>t v' input'. read_token input v = Some (t, v', input') \<and> pending t v' input' ts \<and>
    (t \<noteq> TOKEN_CONSTANT \<longrightarrow> v' = v)"
proof (cases "read_token input 0")
  case None
  with assms show ?thesis by (simp add: lut_tokens.simps [of input])
next
  case (Some tv)
  obtain t c input' where tv: "tv = (t, c, input')" by (cases tv) auto
  have "read_token input v = Some (t, if t = TOKEN_CONSTANT then c else v, input')"
    using read_token_value [of input v] Some tv by simp
  moreover have "pending t (if t = TOKEN_CONSTANT then c else v) input' ts"
    using assms Some tv by (auto simp: pending_def lut_tokens.simps [of input] split: if_splits list.splits)
  ultimately show ?thesis by auto
qed

definition first_token :: "lut_token list \<Rightarrow> token_symbol" where
  "first_token ts = (case ts of [] \<Rightarrow> TOKEN_END | (t, _) # _ \<Rightarrow> t)"

lemma first_token_simps [simp]: "first_token [] = TOKEN_END" "first_token ((t, c) # ts) = t"
  by (simp_all add: first_token_def)

lemma pending_first: "pending nt v input ts \<Longrightarrow> nt = first_token ts"
  by (auto simp: pending_def first_token_def split: list.splits)

lemma push_pending:
  assumes "pending nt v input ((t, c) # rest)" "length (u # ts) < MAX_DEPTH"
    and "lookup_action u t = LT \<or> lookup_action u t = EQ"
  shows "\<exists>nt' v' input'. parse_loop (u # ts) vals nt v input = parse_loop (t # u # ts) vals nt' v' input' \<and>
    pending nt' v' input' rest \<and> (nt' \<noteq> TOKEN_CONSTANT \<longrightarrow> v' = v)"
proof -
  have nt: "nt = t" "t \<noteq> TOKEN_END" "lut_tokens input = Some rest" using assms(1) by (auto simp: pending_def)
  from read_pending [OF nt(3), of v] obtain nt' v' input' where
    rd: "read_token input v = Some (nt', v', input')" "pending nt' v' input' rest" "nt' \<noteq> TOKEN_CONSTANT \<longrightarrow> v' = v"
    by blast
  then have "parse_loop (u # ts) vals nt v input = parse_loop (t # u # ts) vals nt' v' input'"
    using nt assms(2,3) by (auto simp: parse_loop.simps [of "u # ts"] push_token_def)
  with rd(2,3) show ?thesis by blast
qed

lemma reduce_pending:
  assumes "pending nt v input rest" "lookup_action t (first_token rest) = GT"
    and "reduce_stack t (t # ts) vals v = Some (Inr (ts', vals'))" "length ts' \<le> length ts" "ts \<noteq> []"
  shows "parse_loop (t # ts) vals nt v input = parse_loop ts' vals' nt v input"
  using assms pending_first [OF assms(1)] by (cases ts) (auto simp: parse_loop.simps [of "t # _ # _"])

section \<open>Correctness\<close>

text \<open>
  Which token may be on the stack below an expression of a level, and which may follow it.
\<close>

definition opens :: "nat \<Rightarrow> token_symbol \<Rightarrow> bool" where
  "opens p t = (t \<in> {TOKEN_END, TOKEN_BRA, TOKEN_IF, TOKEN_ELSE} \<or>
     is_binary t \<and> TOKEN_PRECEDENCE t < p \<or> p = 6 \<and> t = TOKEN_NOT)"

definition closes :: "nat \<Rightarrow> token_symbol \<Rightarrow> bool" where
  "closes p u = (u \<in> {TOKEN_KET, TOKEN_ELSE, TOKEN_END} \<or>
     0 < p \<and> (u = TOKEN_IF \<or> is_binary u \<and> TOKEN_PRECEDENCE u \<le> p))"

lemmas level_simps = opens_def closes_def is_binary_def table_simps

lemma opens_Suc: "opens p t \<Longrightarrow> p < 6 \<Longrightarrow> opens (Suc p) t"
  by (auto simp: opens_def)

lemma closes_Suc: "closes p u \<Longrightarrow> closes (Suc p) u"
  by (auto simp: closes_def)

lemma opens_operand: "opens p t \<Longrightarrow> starts_operand n \<Longrightarrow> lookup_action t n = LT"
  by (cases t; cases n; simp add: level_simps starts_operand_def)

lemma closes_reduce:
  "closes p u \<Longrightarrow> lookup_action TOKEN_CONSTANT u = GT"
  "closes p u \<Longrightarrow> lookup_action TOKEN_KET u = GT"
  "closes p u \<Longrightarrow> lookup_action TOKEN_NOT u = GT"
  "closes 0 u \<Longrightarrow> lookup_action TOKEN_ELSE u = GT"
  by (cases u; simp add: level_simps)+

lemma closes_binary:
  "closes p u \<Longrightarrow> is_binary t \<Longrightarrow> TOKEN_PRECEDENCE t = p \<Longrightarrow> lookup_action t u = GT"
  by (cases t; cases u; simp add: level_simps)

lemma opens_binary:
  "opens p t \<Longrightarrow> p < 6 \<Longrightarrow> is_binary n \<Longrightarrow> TOKEN_PRECEDENCE n = p \<Longrightarrow> lookup_action t n = LT"
  by (cases t; cases n; simp add: level_simps)

lemma opens_if: "opens 0 t \<Longrightarrow> lookup_action t TOKEN_IF = LT"
  by (cases t; simp add: level_simps)

lemma binary_level: "is_binary t \<Longrightarrow> 0 < TOKEN_PRECEDENCE t \<and> TOKEN_PRECEDENCE t < 6"
  by (cases t; simp add: level_simps)

lemma reduce_stack_simps:
  "length vals < MAX_DEPTH \<Longrightarrow> reduce_stack TOKEN_CONSTANT (TOKEN_CONSTANT # t # \<sigma>) vals v = Some (Inr (t # \<sigma>, v # vals))"
  "reduce_stack TOKEN_KET (TOKEN_KET # TOKEN_BRA # t # \<sigma>) (x # vals) v = Some (Inr (t # \<sigma>, x # vals))"
  "reduce_stack TOKEN_NOT (TOKEN_NOT # t # \<sigma>) (x # vals) v = Some (Inr (t # \<sigma>, reduce TOKEN_NOT 0 [x] # vals))"
  "is_binary op \<Longrightarrow> reduce_stack op (op # t # \<sigma>) (y # x # vals) v = Some (Inr (t # \<sigma>, reduce op 0 [x, y] # vals))"
  "reduce_stack TOKEN_ELSE (TOKEN_ELSE # TOKEN_IF # t # \<sigma>) (z # y # x # vals) v =
     Some (Inr (t # \<sigma>, reduce TOKEN_ELSE 0 [x, y, z] # vals))"
  by (auto simp: reduce_stack_def TOKEN_ARITY_def TOKEN_REDUCE_def reduce_def is_binary_def)

lemma parse_loop_derives:
  assumes "derives p ts e" "opens p t" "closes p (first_token rest)"
    and "Suc (length \<sigma>) + length ts \<le> MAX_DEPTH" "length vals \<le> length \<sigma>" "pending nt v input (ts @ rest)"
  shows "\<exists>nt' v' input'. parse_loop (t # \<sigma>) vals nt v input =
      parse_loop (t # \<sigma>) (expr_value e # vals) nt' v' input' \<and> pending nt' v' input' rest"
  using assms
proof (induction arbitrary: t \<sigma> vals nt v input rest rule: derives.induct)
  case (atom a)
  have look: "lookup_action t TOKEN_CONSTANT = LT" using atom(1) opens_operand by (simp add: starts_operand_def)
  have v: "v = atom_value a" using atom by (simp add: pending_def)
  from push_pending [of nt v input TOKEN_CONSTANT "atom_value a" rest t \<sigma> vals] atom look
  obtain nt' v' input' where
    1: "parse_loop (t # \<sigma>) vals nt v input = parse_loop (TOKEN_CONSTANT # t # \<sigma>) vals nt' v' input'"
      "pending nt' v' input' rest" "nt' \<noteq> TOKEN_CONSTANT \<longrightarrow> v' = v" by auto
  have "nt' \<noteq> TOKEN_CONSTANT"
    using pending_first [OF 1(2)] atom(2) by (auto simp: closes_def is_binary_def)
  with 1(3) v have "v' = atom_value a" by simp
  moreover have "parse_loop (TOKEN_CONSTANT # t # \<sigma>) vals nt' v' input' = parse_loop (t # \<sigma>) (v' # vals) nt' v' input'"
    using 1(2) atom closes_reduce(1) by (intro reduce_pending) (auto simp: reduce_stack_simps)
  ultimately show ?case using 1 by (auto simp: reduce_def)
next
  case (bracket ts e)
  have look: "lookup_action t TOKEN_BRA = LT" using bracket(3) opens_operand by (simp add: starts_operand_def)
  from push_pending [of nt v input TOKEN_BRA 0 "ts @ (TOKEN_KET, 0) # rest" t \<sigma> vals] bracket look
  obtain nt1 v1 input1 where
    1: "parse_loop (t # \<sigma>) vals nt v input = parse_loop (TOKEN_BRA # t # \<sigma>) vals nt1 v1 input1"
      "pending nt1 v1 input1 (ts @ (TOKEN_KET, 0) # rest)" by auto
  from bracket(2) [OF _ _ _ _ 1(2), of TOKEN_BRA "t # \<sigma>" vals] bracket(5,6)
  obtain nt2 v2 input2 where
    2: "parse_loop (TOKEN_BRA # t # \<sigma>) vals nt1 v1 input1 = parse_loop (TOKEN_BRA # t # \<sigma>) (expr_value e # vals) nt2 v2 input2"
      "pending nt2 v2 input2 ((TOKEN_KET, 0) # rest)" by (auto simp: opens_def closes_def)
  have "lookup_action TOKEN_BRA TOKEN_KET = EQ" by (simp add: table_simps)
  from push_pending [OF 2(2), of TOKEN_BRA "t # \<sigma>" "expr_value e # vals"] this bracket(5) obtain nt3 v3 input3 where
    3: "parse_loop (TOKEN_BRA # t # \<sigma>) (expr_value e # vals) nt2 v2 input2 =
        parse_loop (TOKEN_KET # TOKEN_BRA # t # \<sigma>) (expr_value e # vals) nt3 v3 input3"
      "pending nt3 v3 input3 rest" by auto
  have "parse_loop (TOKEN_KET # TOKEN_BRA # t # \<sigma>) (expr_value e # vals) nt3 v3 input3 =
      parse_loop (t # \<sigma>) (expr_value e # vals) nt3 v3 input3"
    using 3(2) bracket(4) closes_reduce(2) by (intro reduce_pending) (auto simp: reduce_stack_simps)
  with 1 2 3 show ?case by auto
next
  case (negation ts e)
  have look: "lookup_action t TOKEN_NOT = LT" using negation(3) opens_operand by (simp add: starts_operand_def)
  from push_pending [of nt v input TOKEN_NOT 0 "ts @ rest" t \<sigma> vals] negation look
  obtain nt1 v1 input1 where
    1: "parse_loop (t # \<sigma>) vals nt v input = parse_loop (TOKEN_NOT # t # \<sigma>) vals nt1 v1 input1"
      "pending nt1 v1 input1 (ts @ rest)" by auto
  from negation(2) [OF _ negation(4) _ _ 1(2), of TOKEN_NOT "t # \<sigma>" vals] negation(5,6)
  obtain nt2 v2 input2 where
    2: "parse_loop (TOKEN_NOT # t # \<sigma>) vals nt1 v1 input1 = parse_loop (TOKEN_NOT # t # \<sigma>) (expr_value e # vals) nt2 v2 input2"
      "pending nt2 v2 input2 rest" by (auto simp: opens_def)
  have "parse_loop (TOKEN_NOT # t # \<sigma>) (expr_value e # vals) nt2 v2 input2 =
      parse_loop (t # \<sigma>) (expr_value (Not e) # vals) nt2 v2 input2"
    using 2(2) negation(4) closes_reduce(3) by (intro reduce_pending) (auto simp: reduce_stack_simps)
  with 1 2 show ?case by auto
next
  case (level p ts e)
  then show ?case using opens_Suc closes_Suc by blast
next
  case (binary p l a op r b)
  note lev = binary_level [OF binary(2), unfolded binary(3)]
  have cop: "closes p op" using binary(2,3) lev by (simp add: closes_def)
  from binary(5) [OF binary(7) _ _ binary(10), of "(op, 0) # r @ rest" nt v input] binary(9,11) cop
  obtain nt1 v1 input1 where
    1: "parse_loop (t # \<sigma>) vals nt v input = parse_loop (t # \<sigma>) (expr_value a # vals) nt1 v1 input1"
      "pending nt1 v1 input1 ((op, 0) # r @ rest)" by auto
  have "lookup_action t op = LT" using opens_binary binary(2,3,7) lev by blast
  from push_pending [OF 1(2), of t \<sigma> "expr_value a # vals"] this binary(9) obtain nt2 v2 input2 where
    2: "parse_loop (t # \<sigma>) (expr_value a # vals) nt1 v1 input1 = parse_loop (op # t # \<sigma>) (expr_value a # vals) nt2 v2 input2"
      "pending nt2 v2 input2 (r @ rest)" by auto
  have oop: "opens (Suc p) op" using binary(2,3) by (simp add: opens_def)
  from binary(6) [OF oop closes_Suc [OF binary(8)] _ _ 2(2), of "t # \<sigma>" "expr_value a # vals"] binary(9,10)
  obtain nt3 v3 input3 where
    3: "parse_loop (op # t # \<sigma>) (expr_value a # vals) nt2 v2 input2 =
        parse_loop (op # t # \<sigma>) (expr_value b # expr_value a # vals) nt3 v3 input3"
      "pending nt3 v3 input3 rest" by auto
  have "parse_loop (op # t # \<sigma>) (expr_value b # expr_value a # vals) nt3 v3 input3 =
      parse_loop (t # \<sigma>) (expr_value (Bin op a b) # vals) nt3 v3 input3"
    using 3(2) closes_binary [OF binary(8,2,3)] binary(2) by (intro reduce_pending) (auto simp: reduce_stack_simps)
  with 1 2 3 show ?case by auto
next
  case (conditional l a m b r c)
  have c1: "closes 1 TOKEN_IF" "closes 0 TOKEN_ELSE" "opens 0 TOKEN_IF" "opens 0 TOKEN_ELSE"
    by (simp_all add: opens_def closes_def)
  have o1: "opens 1 t" using opens_Suc [OF conditional(7)] by simp
  from conditional(4) [OF o1 _ _ conditional(10), of "(TOKEN_IF, 0) # m @ (TOKEN_ELSE, 0) # r @ rest" nt v input]
    conditional(9,11) c1
  obtain nt1 v1 input1 where
    1: "parse_loop (t # \<sigma>) vals nt v input = parse_loop (t # \<sigma>) (expr_value a # vals) nt1 v1 input1"
      "pending nt1 v1 input1 ((TOKEN_IF, 0) # m @ (TOKEN_ELSE, 0) # r @ rest)" by auto
  from push_pending [OF 1(2), of t \<sigma> "expr_value a # vals"] opens_if [OF conditional(7)] conditional(9) obtain nt2 v2 input2 where
    2: "parse_loop (t # \<sigma>) (expr_value a # vals) nt1 v1 input1 = parse_loop (TOKEN_IF # t # \<sigma>) (expr_value a # vals) nt2 v2 input2"
      "pending nt2 v2 input2 (m @ (TOKEN_ELSE, 0) # r @ rest)" by auto
  from conditional(5) [OF c1(3) _ _ _ 2(2), of "t # \<sigma>" "expr_value a # vals"] conditional(9,10) c1(2)
  obtain nt3 v3 input3 where
    3: "parse_loop (TOKEN_IF # t # \<sigma>) (expr_value a # vals) nt2 v2 input2 =
        parse_loop (TOKEN_IF # t # \<sigma>) (expr_value b # expr_value a # vals) nt3 v3 input3"
      "pending nt3 v3 input3 ((TOKEN_ELSE, 0) # r @ rest)" by auto
  have "lookup_action TOKEN_IF TOKEN_ELSE = EQ" by (simp add: table_simps)
  from push_pending [OF 3(2), of TOKEN_IF "t # \<sigma>" "expr_value b # expr_value a # vals"] this conditional(9)
  obtain nt4 v4 input4 where
    4: "parse_loop (TOKEN_IF # t # \<sigma>) (expr_value b # expr_value a # vals) nt3 v3 input3 =
        parse_loop (TOKEN_ELSE # TOKEN_IF # t # \<sigma>) (expr_value b # expr_value a # vals) nt4 v4 input4"
      "pending nt4 v4 input4 (r @ rest)" by auto
  from conditional(6) [OF c1(4) conditional(8) _ _ 4(2), of "TOKEN_IF # t # \<sigma>" "expr_value b # expr_value a # vals"] conditional(9,10)
  obtain nt5 v5 input5 where
    5: "parse_loop (TOKEN_ELSE # TOKEN_IF # t # \<sigma>) (expr_value b # expr_value a # vals) nt4 v4 input4 =
        parse_loop (TOKEN_ELSE # TOKEN_IF # t # \<sigma>) (expr_value c # expr_value b # expr_value a # vals) nt5 v5 input5"
      "pending nt5 v5 input5 rest" by auto
  have "parse_loop (TOKEN_ELSE # TOKEN_IF # t # \<sigma>) (expr_value c # expr_value b # expr_value a # vals) nt5 v5 input5 =
      parse_loop (t # \<sigma>) (expr_value (Cond a b c) # vals) nt5 v5 input5"
    using 5(2) closes_reduce(4) [OF conditional(8)] by (intro reduce_pending) (auto simp: reduce_stack_simps)
  with 1 2 3 4 5 show ?case by auto
qed

text \<open>
  C27: an input of fewer than forty tokens that the grammar derives is accepted, and row \<open>i\<close> of
  the resulting table is the value of the expression for the inputs that \<open>i\<close> encodes: \<^verbatim>\<open>=\<close> binds
  tighter than \<^verbatim>\<open>&\<close>, then \<^verbatim>\<open>^\<close>, \<^verbatim>\<open>|\<close> and \<^verbatim>\<open>=>\<close>, all to the left, and \<^verbatim>\<open>?:\<close> is weakest and binds to the
  right.
\<close>

theorem parse_lut_correct:
  assumes "lut_tokens input = Some ts" "derives 0 ts e" "length ts < MAX_DEPTH"
  shows "\<exists>v. parse_lut input = Some (Inr v) \<and> (\<forall>i < 32. bit v i = expr_bit e i)"
proof -
  from read_pending [OF assms(1), of 0] obtain nt v input' where
    rd: "read_token input 0 = Some (nt, v, input')" "pending nt v input' (ts @ [])" by auto
  from parse_loop_derives [OF assms(2) _ _ _ _ rd(2), of TOKEN_END "[]" "[]"] assms(3) obtain nt' v' input'' where
    "parse_loop [TOKEN_END] [] nt v input' = parse_loop [TOKEN_END] [expr_value e] nt' v' input''" "pending nt' v' input'' []"
    by (auto simp: opens_def closes_def)
  then have "parse_lut input = Some (Inr (expr_value e))"
    using rd(1) by (simp add: parse_lut_def pending_def parse_loop.simps [of "[TOKEN_END]" "[_]"] extract_result_def)
  with derives_well_formed [OF assms(2)] expr_value_bits show ?thesis by blast
qed

theorem parse_lut_correct_witness:
  "\<exists>v. parse_lut ''A & ~B'' = Some (Inr v) \<and>
    (\<forall>i < 32. bit v i = (bit i 4 \<and> \<not> bit i 3))"
proof -
  have "lut_tokens ''A & ~B'' =
      Some ([(TOKEN_CONSTANT, atom_value InA)] @ (TOKEN_AND, 0) # [(TOKEN_NOT, 0), (TOKEN_CONSTANT, atom_value InB)])"
    by (simp add: lut_tokens.simps read_token_def)
  moreover have "derives 0 ([(TOKEN_CONSTANT, atom_value InA)] @ (TOKEN_AND, 0) # [(TOKEN_NOT, 0), (TOKEN_CONSTANT, atom_value InB)])
      (Bin TOKEN_AND (Atom InA) (Not (Atom InB)))"
  proof (rule derives_lower)
    show "derives 4 ([(TOKEN_CONSTANT, atom_value InA)] @ (TOKEN_AND, 0) # [(TOKEN_NOT, 0), (TOKEN_CONSTANT, atom_value InB)])
        (Bin TOKEN_AND (Atom InA) (Not (Atom InB)))"
      by (rule derives.binary [OF derives_lower [OF derives.atom] _ _
          derives_lower [OF derives.negation [OF derives.atom]]])
        (simp_all add: is_binary_def TOKEN_PRECEDENCE_def)
  qed simp_all
  ultimately show ?thesis
    using parse_lut_correct [of "''A & ~B''"] by (fastforce simp: MAX_DEPTH_def)
qed

end
