(* ===== verification/Panda_StdDev.thy ===== *)
theory Panda_StdDev
  imports Panda_Prelude
begin

text \<open>
  \<^verbatim>\<open>std_dev.c\<close>: the standard deviation from the sums that the hardware accumulates, computed in 96
  bit integers up to the last, floating point, steps.
\<close>

section \<open>96 bit integers\<close>

text \<open>
  The union \<^verbatim>\<open>unaligned_uint96_t\<close> on a little endian machine: three words, with a 64 bit view of the
  lower two and of the upper two.
\<close>

record uint96 =
  w0 :: u32
  w1 :: u32
  w2 :: u32

definition join :: "u32 \<Rightarrow> u32 \<Rightarrow> u64" where
  "join hi lo = 2 ^ 32 * ucast hi + ucast lo"

definition low_word_64 :: "uint96 \<Rightarrow> u64" where
  "low_word_64 a = join (w1 a) (w0 a)"

definition set_low_word_64 :: "u64 \<Rightarrow> uint96 \<Rightarrow> uint96" where
  "set_low_word_64 x a = a\<lparr>w0 := ucast x, w1 := ucast (drop_bit 32 x)\<rparr>"

definition high_word_64 :: "uint96 \<Rightarrow> u64" where
  "high_word_64 a = join (w2 a) (w1 a)"

definition set_high_word_64 :: "u64 \<Rightarrow> uint96 \<Rightarrow> uint96" where
  "set_high_word_64 x a = a\<lparr>w1 := ucast x, w2 := ucast (drop_bit 32 x)\<rparr>"

section \<open>The computation\<close>

definition abs_64 :: "u64 \<Rightarrow> u64" where
  "abs_64 x = (if 0 \<le> sint x then x else - x)"

definition div_rem_64_32 :: "u64 \<Rightarrow> u32 \<Rightarrow> bool \<times> u32 \<times> u32" where
  "div_rem_64_32 b n =
     (let dv = b div ucast n; rm = b - ucast n * dv in
      (drop_bit 32 dv = 0, ucast dv, ucast rm))"

definition mul_sub_96_64_32 :: "uint96 \<Rightarrow> u64 \<Rightarrow> u32 \<Rightarrow> uint96" where
  "mul_sub_96_64_32 a b c =
     (let bl_c = (b AND 0xFFFFFFFF) * ucast c;
          borrow = low_word_64 a < bl_c;
          a = set_low_word_64 (low_word_64 a - bl_c) a;
          a = a\<lparr>w2 := w2 a - (if borrow then 1 else 0)\<rparr>;
          bh_c = drop_bit 32 b * ucast c in
      set_high_word_64 (high_word_64 a - bh_c) a)"

text \<open>Doubles and the operations the code applies to them are a parameter.\<close>

record 'd double_ops =
  d_of_u32 :: "u32 \<Rightarrow> 'd"
  d_of_u64 :: "u64 \<Rightarrow> 'd"
  d_ldexp32 :: "'d \<Rightarrow> 'd"
  d_add :: "'d \<Rightarrow> 'd \<Rightarrow> 'd"
  d_sub :: "'d \<Rightarrow> 'd \<Rightarrow> 'd"
  d_div :: "'d \<Rightarrow> 'd \<Rightarrow> 'd"
  d_sqrt :: "'d \<Rightarrow> 'd"
  d_negative :: "'d \<Rightarrow> bool"
  d_nan :: 'd

definition uint96_to_double :: "'d double_ops \<Rightarrow> uint96 \<Rightarrow> 'd" where
  "uint96_to_double ops a =
     (let result = d_of_u32 ops (w2 a);
          result = d_add ops (d_ldexp32 ops result) (d_of_u32 ops (w1 a)) in
      d_add ops (d_ldexp32 ops result) (d_of_u32 ops (w0 a)))"

definition compute_standard_deviation :: "'d double_ops \<Rightarrow> u32 \<Rightarrow> u64 \<Rightarrow> uint96 \<Rightarrow> 'd" where
  "compute_standard_deviation ops samples raw_sum_values raw_sum_squares =
     (if samples = 0 then d_nan ops
      else
        (let sum_values = abs_64 raw_sum_values;
             (ok, sum_mean, sum_rem) = div_rem_64_32 sum_values samples in
         if \<not> ok then d_nan ops
         else
           (let sum_squares = mul_sub_96_64_32 raw_sum_squares (sum_values + ucast sum_rem) sum_mean;
                r2_n = d_div ops (d_of_u64 ops (ucast sum_rem * ucast sum_rem)) (d_of_u32 ops samples);
                n_s2 = d_sub ops (uint96_to_double ops sum_squares) r2_n in
            if d_negative ops n_s2 then d_nan ops
            else d_sqrt ops (d_div ops n_s2 (d_of_u32 ops samples)))))"

section \<open>Exactness\<close>

definition val96 :: "uint96 \<Rightarrow> int" where
  "val96 a = uint (w0 a) + 2 ^ 32 * uint (w1 a) + 2 ^ 64 * uint (w2 a)"

lemma uint_bounds_64: "0 \<le> uint (x :: u64)" "uint (x :: u64) < 2 ^ 64"
  using uint_bounded [of x] by simp_all

lemma uint_join: "uint (join hi lo) = 2 ^ 32 * uint hi + uint lo"
proof -
  have b: "2 ^ 32 * uint hi + uint lo < 2 ^ 64" "2 ^ 32 * uint hi < 2 ^ 64"
    using uint_bounds_32 [of hi] uint_bounds_32 [of lo] by simp_all
  have "uint (2 ^ 32 * ucast hi :: u64) = 2 ^ 32 * uint hi"
    using b(2) by (simp add: uint_word_ariths uint_ucast_64)
  then show ?thesis
    using b(1) by (simp add: join_def uint_word_ariths(1) uint_ucast_64)
qed

lemma uint_low_u64: "uint (ucast (x :: u64) :: u32) = uint x mod 2 ^ 32"
  by (simp add: unsigned_ucast_eq take_bit_eq_mod)

lemma uint_drop_u64: "uint (drop_bit 32 (x :: u64)) = uint x div 2 ^ 32"
proof -
  have "uint (drop_bit 32 x) = drop_bit 32 (take_bit LENGTH(64) (uint x))" by (rule unsigned_drop_bit_eq)
  also have "take_bit LENGTH(64) (uint x) = uint x" using uint_bounds_64 [of x] by (simp add: take_bit_int_eq_self)
  finally show ?thesis by (simp only: drop_bit_eq_div)
qed

lemma div_32_bounds: "0 \<le> uint (x :: u64) div 2 ^ 32" "uint (x :: u64) div 2 ^ 32 < 2 ^ 32"
  using uint_bounds_64 [of x] by (simp_all add: div_less_iff_less_mult pos_imp_zdiv_nonneg_iff)

lemma uint_high_u64: "uint (ucast (drop_bit 32 (x :: u64)) :: u32) = uint x div 2 ^ 32"
  unfolding uint_low_u64 uint_drop_u64 using div_32_bounds [of x] by (rule mod_pos_pos_trivial)

lemma val96_bounds: "0 \<le> val96 a" "val96 a < 2 ^ 96"
  using uint_bounds_32 [of "w0 a"] uint_bounds_32 [of "w1 a"] uint_bounds_32 [of "w2 a"]
  by (simp_all add: val96_def)

lemma val96_low: "val96 a = uint (low_word_64 a) + 2 ^ 64 * uint (w2 a)"
  by (simp add: val96_def low_word_64_def uint_join)

lemma val96_high: "val96 a = uint (w0 a) + 2 ^ 32 * uint (high_word_64 a)"
  by (simp add: val96_def high_word_64_def uint_join)

lemma div_mod_32: "2 ^ 32 * (x div 2 ^ 32) + x mod 2 ^ 32 = (x :: int)"
  by simp

lemma join_split: "join (ucast (drop_bit 32 x)) (ucast x) = x"
proof -
  have "uint (join (ucast (drop_bit 32 x)) (ucast x)) = uint x"
    by (subst uint_join, subst uint_high_u64, subst uint_low_u64) (rule div_mod_32)
  then show ?thesis by (simp add: word_uint_eq_iff)
qed

lemma low_word_set_low: "uint (low_word_64 (set_low_word_64 x a)) = uint x"
  by (simp add: low_word_64_def set_low_word_64_def join_split)

lemma high_word_set_high: "uint (high_word_64 (set_high_word_64 x a)) = uint x"
  by (simp add: high_word_64_def set_high_word_64_def join_split)

lemma uint_mult_32:
  assumes "uint (x :: u64) < 2 ^ 32"
  shows "uint (x * ucast (y :: u32)) = uint x * uint y"
proof -
  have "uint x * uint y < 2 ^ 32 * 2 ^ 32"
    using assms uint_bounds_32 [of y] by (intro mult_strict_mono) simp_all
  then show ?thesis by (simp add: uint_word_ariths uint_ucast_64)
qed

lemma uint_and_mask_32: "uint ((b :: u64) AND 0xFFFFFFFF) = uint b mod 2 ^ 32"
proof -
  have m: "(0xFFFFFFFF :: u64) = mask 32" by (simp add: mask_eq_exp_minus_1)
  have "uint (b AND mask 32) = take_bit 32 (uint b)"
    by (simp only: take_bit_eq_mask [symmetric] unsigned_take_bit_eq)
  also have "\<dots> = uint b mod 2 ^ 32" by (rule take_bit_eq_mod)
  finally have "uint (b AND mask 32) = uint b mod 2 ^ 32" .
  then show ?thesis by (simp only: m)
qed

lemma mul_sub_96_mod:
  "\<exists>k. val96 (mul_sub_96_64_32 a b c) = val96 a - uint b * uint c + 2 ^ 96 * k"
proof -
  define bl bh where bl: "bl = (b AND 0xFFFFFFFF) * ucast c" and bh: "bh = drop_bit 32 b * (ucast c :: u64)"
  define a1 where "a1 = set_low_word_64 (low_word_64 a - bl) a"
  define a2 where "a2 = a1\<lparr>w2 := w2 a1 - (if low_word_64 a < bl then 1 else 0)\<rparr>"
  define a3 where "a3 = set_high_word_64 (high_word_64 a2 - bh) a2"
  have prod: "uint b * uint c = uint bl + 2 ^ 32 * uint bh"
  proof -
    have "uint bl = (uint b mod 2 ^ 32) * uint c" "uint bh = (uint b div 2 ^ 32) * uint c"
      unfolding bl bh using div_32_bounds [of b]
      by (simp_all only: uint_mult_32 uint_and_mask_32 uint_drop_u64 pos_mod_bound zero_less_power zero_less_numeral)
    then have "uint bl + 2 ^ 32 * uint bh = (2 ^ 32 * (uint b div 2 ^ 32) + uint b mod 2 ^ 32) * uint c"
      by (simp only: distrib_right mult.assoc add.commute)
    then show ?thesis by (simp only: div_mod_32)
  qed
  have low: "uint (low_word_64 a2) = uint (low_word_64 a) - uint bl + (if low_word_64 a < bl then 2 ^ 64 else 0)"
    using low_word_set_low [of "low_word_64 a - bl" a]
    by (simp add: a2_def a1_def low_word_64_def [of "_\<lparr>w2 := _\<rparr>"] low_word_64_def [symmetric] uint_sub_if' word_less_def)
  have w2: "\<exists>k1. uint (w2 a2) = uint (w2 a) - (if low_word_64 a < bl then 1 else 0) + 2 ^ 32 * k1"
    by (auto simp: a2_def a1_def set_low_word_64_def uint_sub_if' intro: exI [of _ 1] exI [of _ 0])
  have step1: "\<exists>k1. val96 a2 = val96 a - uint bl + 2 ^ 96 * k1"
  proof -
    from w2 obtain k1 where "uint (w2 a2) = uint (w2 a) - (if low_word_64 a < bl then 1 else 0) + 2 ^ 32 * k1" by blast
    then have "val96 a2 = val96 a - uint bl + 2 ^ 96 * k1" unfolding val96_low low by simp
    then show ?thesis by blast
  qed
  have "uint (high_word_64 a3) = uint (high_word_64 a2) - uint bh + (if high_word_64 a2 < bh then 2 ^ 64 else 0)"
    using high_word_set_high [of "high_word_64 a2 - bh" a2]
    by (simp add: a3_def uint_sub_if' word_less_def)
  moreover have "w0 a3 = w0 a2" by (simp add: a3_def set_high_word_64_def)
  ultimately have step2: "\<exists>k2. val96 a3 = val96 a2 - 2 ^ 32 * uint bh + 2 ^ 96 * k2"
    by (intro exI [of _ "if high_word_64 a2 < bh then 1 else 0"]) (cases "high_word_64 a2 < bh"; simp add: val96_high)
  have "mul_sub_96_64_32 a b c = a3"
    by (simp add: mul_sub_96_64_32_def Let_def bl bh a1_def a2_def a3_def)
  moreover obtain k1 k2 where "val96 a2 = val96 a - uint bl + 2 ^ 96 * k1" "val96 a3 = val96 a2 - 2 ^ 32 * uint bh + 2 ^ 96 * k2"
    using step1 step2 by blast
  ultimately show ?thesis unfolding prod by (intro exI [of _ "k1 + k2"]) (simp add: distrib_left)
qed

lemma mul_sub_96_exact:
  assumes "0 \<le> val96 a - uint b * uint c"
  shows "val96 (mul_sub_96_64_32 a b c) = val96 a - uint b * uint c"
proof -
  obtain k where k: "val96 (mul_sub_96_64_32 a b c) = val96 a - uint b * uint c + 2 ^ 96 * k"
    using mul_sub_96_mod by blast
  have "0 \<le> uint b * uint c" by simp
  then have "val96 a - uint b * uint c < 2 ^ 96" using val96_bounds(2) [of a] by linarith
  with k assms val96_bounds [of "mul_sub_96_64_32 a b c"] have "k = 0" by simp
  with k show ?thesis by simp
qed

lemma sum_squares_shift:
  "0 \<le> sum_list (map (\<lambda>x. x * x) xs) - 2 * y * sum_list xs + int (length xs) * (y * y)"
proof (induction xs)
  case (Cons x xs)
  have "0 \<le> (x - y) * (x - y)" by simp
  then have "0 \<le> x * x - 2 * y * x + y * y" by (simp add: algebra_simps)
  with Cons show ?case by (simp add: algebra_simps)
qed simp

lemma sum_squares_mean:
  "sum_list xs * sum_list xs \<le> int (length xs) * sum_list (map (\<lambda>x. x * x) xs)"
proof (induction xs)
  case (Cons x xs)
  with sum_squares_shift [of xs x] show ?case by (simp add: algebra_simps)
qed simp

lemma sum_list_bound:
  assumes "\<forall>x \<in> set xs. \<bar>x\<bar> \<le> (m :: int)"
  shows "\<bar>sum_list xs\<bar> \<le> int (length xs) * m"
  using assms by (induction xs) (auto simp: algebra_simps)

text \<open>
  C35: for every non-empty list of fewer than \<open>2 ^ 32\<close> samples of 32 bits, the integer part of
  the computation is exact: the value \<open>q\<close> that is converted to a double satisfies
  \<open>N q = N \<Sigma>x\<^sup>2 - (\<Sigma>x)\<^sup>2 + r\<^sup>2\<close> with \<open>r = |\<Sigma>x| mod N\<close>, with no overflow and no bits lost, so that
  only the division of \<open>r\<^sup>2\<close> and the last steps round.
\<close>

theorem standard_deviation_exact:
  fixes xs :: "int list"
  assumes "xs \<noteq> []" "length xs < 2 ^ 32" "\<forall>x \<in> set xs. \<bar>x\<bar> \<le> 2 ^ 31"
    and "val96 squares = sum_list (map (\<lambda>x. x * x) xs)"
  defines "n \<equiv> int (length xs)" and "r \<equiv> \<bar>sum_list xs\<bar> mod int (length xs)"
  shows "\<exists>q (r32 :: u32). val96 q * n = n * sum_list (map (\<lambda>x. x * x) xs) - sum_list xs * sum_list xs + r * r \<and>
    uint r32 = r \<and>
    compute_standard_deviation ops (word_of_nat (length xs)) (word_of_int (sum_list xs)) squares =
      (let n_s2 = d_sub ops (uint96_to_double ops q)
             (d_div ops (d_of_u64 ops (ucast r32 * ucast r32)) (d_of_u32 ops (word_of_nat (length xs)))) in
       if d_negative ops n_s2 then d_nan ops
       else d_sqrt ops (d_div ops n_s2 (d_of_u32 ops (word_of_nat (length xs)))))"
proof -
  define N :: u32 where "N = word_of_nat (length xs)"
  define s where "s = sum_list xs"
  have n: "0 < n" "n < 2 ^ 32" using assms(1,2) by (simp_all add: n_def)
  have uN: "uint N = n" using n by (simp add: N_def n_def unsigned_of_nat take_bit_nat_eq_self uint_nat)
  have s: "\<bar>s\<bar> \<le> n * 2 ^ 31" using sum_list_bound [OF assms(3)] by (simp add: n_def s_def)
  have s63: "\<bar>s\<bar> < 2 ^ 63" using s n by simp
  have sint: "sint (word_of_int s :: u64) = s"
    using s63 by (simp add: signed_of_int) (rule signed_take_bit_int_eq_self, simp_all)
  define B where "B = abs_64 (word_of_int s)"
  have uB: "uint B = \<bar>s\<bar>"
  proof -
    have "B = word_of_int \<bar>s\<bar>" by (simp add: B_def abs_64_def sint)
    then show ?thesis using s63 by (simp add: uint_word_of_int)
  qed
  define D R where "D = \<bar>s\<bar> div n" and "R = \<bar>s\<bar> mod n"
  have DR: "\<bar>s\<bar> = n * D + R" "0 \<le> R" "R < n" "0 \<le> D" using n by (simp_all add: D_def R_def pos_imp_zdiv_nonneg_iff)
  have D31: "D \<le> 2 ^ 31"
  proof -
    have "n * D \<le> n * 2 ^ 31" using DR(1,2) s by linarith
    with n(1) show ?thesis by simp
  qed
  have uD: "uint (B div ucast N) = D" by (simp add: uint_div_distrib uB uint_ucast_64 uN D_def)
  have uR: "uint (B - ucast N * (B div ucast N)) = R"
  proof -
    have "B - ucast N * (B div ucast N) = word_of_int (\<bar>s\<bar> - n * D)"
      unfolding uN [symmetric] uB [symmetric] uD [symmetric] by simp
    then show ?thesis using DR n by (simp add: uint_word_of_int)
  qed
  define d32 r32 :: u32 where "d32 = ucast (B div ucast N)" and "r32 = ucast (B - ucast N * (B div ucast N))"
  have d32: "uint d32 = D" unfolding d32_def uint_low_u64 uD using DR(4) D31 by (intro mod_pos_pos_trivial) simp_all
  have r32: "uint r32 = R" unfolding r32_def uint_low_u64 uR using DR n by (intro mod_pos_pos_trivial) simp_all
  have dr: "div_rem_64_32 B N = (True, d32, r32)"
  proof -
    have "uint (drop_bit 32 (B div ucast N)) = 0" unfolding uint_drop_u64 uD using DR(4) D31 by simp
    then show ?thesis by (simp add: div_rem_64_32_def Let_def d32_def r32_def uint_0_iff)
  qed
  have sum: "uint (B + ucast r32) = \<bar>s\<bar> + R"
    using s63 DR n by (simp add: uint_word_ariths uB uint_ucast_64 r32)
  define q where "q = mul_sub_96_64_32 squares (B + ucast r32) d32"
  have key: "n * ((\<bar>s\<bar> + R) * D) = s * s - R * R"
  proof -
    have nD: "n * D = \<bar>s\<bar> - R" using DR(1) by simp
    have "n * ((\<bar>s\<bar> + R) * D) = (\<bar>s\<bar> + R) * (n * D)" by (simp only: mult.left_commute)
    also have "\<dots> = \<bar>s\<bar> * \<bar>s\<bar> - R * R" unfolding nD by (simp add: algebra_simps)
    finally show ?thesis by simp
  qed
  have "s * s \<le> n * sum_list (map (\<lambda>x. x * x) xs)"
    unfolding s_def n_def by (rule sum_squares_mean)
  then have "0 \<le> n * (val96 squares - (\<bar>s\<bar> + R) * D)"
    unfolding right_diff_distrib key assms(4) using zero_le_square [of R] by linarith
  then have pos: "0 \<le> val96 squares - (\<bar>s\<bar> + R) * D" using n(1) by (simp add: zero_le_mult_iff)
  have q: "val96 q = val96 squares - (\<bar>s\<bar> + R) * D"
    unfolding q_def using mul_sub_96_exact [of squares "B + ucast r32" d32] pos by (simp only: sum d32)
  have "val96 q * n = n * sum_list (map (\<lambda>x. x * x) xs) - s * s + R * R"
    unfolding q assms(4) using key by (simp add: algebra_simps)
  moreover have "N \<noteq> 0" using uN n(1) by auto
  then have "compute_standard_deviation ops N (word_of_int s) squares =
      (let n_s2 = d_sub ops (uint96_to_double ops q)
             (d_div ops (d_of_u64 ops (ucast r32 * ucast r32)) (d_of_u32 ops N)) in
       if d_negative ops n_s2 then d_nan ops else d_sqrt ops (d_div ops n_s2 (d_of_u32 ops N)))"
    using dr by (simp add: compute_standard_deviation_def B_def [symmetric] q_def)
  moreover have rR: "r = R" by (simp add: r_def R_def s_def n_def)
  ultimately show ?thesis unfolding rR N_def s_def using r32 by (intro exI [of _ q] exI [of _ r32] conjI)
qed

definition real_like_ops :: "int double_ops" where
  "real_like_ops = \<lparr>d_of_u32 = uint, d_of_u64 = uint, d_ldexp32 = (\<lambda>x. 2 ^ 32 * x), d_add = (+), d_sub = (-),
     d_div = (div), d_sqrt = id, d_negative = (\<lambda>x. x < 0), d_nan = -1\<rparr>"

theorem standard_deviation_exact_witness:
  "\<exists>q. val96 q * 2 = 2 * 34 - 8 * 8 + 0 \<and>
    compute_standard_deviation real_like_ops 2 8 \<lparr>w0 = 34, w1 = 0, w2 = 0\<rparr> =
      (if uint96_to_double real_like_ops q < 0 then - 1 else uint96_to_double real_like_ops q div 2)"
proof -
  have "val96 \<lparr>w0 = 34, w1 = 0, w2 = 0\<rparr> = sum_list (map (\<lambda>x. x * x) [3, 5])" by (simp add: val96_def)
  from standard_deviation_exact [of "[3, 5]", OF _ _ _ this, of real_like_ops] show ?thesis
    by (auto simp: real_like_ops_def uint_0_iff)
qed

end
