(* ===== verification/Panda_Hardware.thy ===== *)
theory Panda_Hardware
  imports Panda_Prelude
begin

text \<open>
  \<^verbatim>\<open>hardware.c\<close>: the register interface to the FPGA, the check of the named registers, the bit and
  position readout, and the tables.  The FPGA registers and the kernel devices are the parameter
  \<open>device\<close>; the register numbers of the generated header \<^verbatim>\<open>named_registers.h\<close> are the parameter
  \<open>reg_header\<close>.
\<close>

section \<open>The devices\<close>

record panda_block =
  pb_order :: u32
  pb_block_base :: u32
  pb_block_length :: u32
  pb_dma_channel :: u32
  pb_nbuffers :: u32

record panda_block_send_request =
  sr_data :: "u32 list"
  sr_length :: nat
  sr_more :: bool

datatype io_error = EAGAIN | OTHER_ERRNO

text \<open>
  The register map and the files \<^verbatim>\<open>/dev/panda.stream\<close> and \<^verbatim>\<open>/dev/panda.block\<close>, on a state \<open>'s\<close>.
  A failing system call returns \<open>Inl\<close> with its \<^verbatim>\<open>errno\<close>.
\<close>

record 's device =
  dev_write :: "u32 \<Rightarrow> u32 \<Rightarrow> 's \<Rightarrow> 's"
  dev_read :: "u32 \<Rightarrow> 's \<Rightarrow> u32 \<times> 's"
  stream_read :: "nat \<Rightarrow> 's \<Rightarrow> (io_error + u8 list) \<times> 's"
  stream_arm :: "'s \<Rightarrow> bool \<times> 's"
  stream_completion :: "'s \<Rightarrow> (io_error + u32) \<times> 's"
  stream_start_ts :: "'s \<Rightarrow> (io_error + u64 \<times> u32) \<times> 's"
  block_open :: "'s \<Rightarrow> (io_error + u32) \<times> 's"
  block_config :: "u32 \<Rightarrow> panda_block \<Rightarrow> 's \<Rightarrow> (io_error + u32) \<times> 's"
  block_send :: "u32 \<Rightarrow> panda_block_send_request \<Rightarrow> 's \<Rightarrow> (io_error + unit) \<times> 's"
  block_nwords :: "u32 \<Rightarrow> 's \<Rightarrow> (io_error + nat) \<times> 's"

record reg_header =
  REG_BLOCK_BASE :: u32
  FPGA_VERSION :: u32
  FPGA_BUILD :: u32
  USER_VERSION :: u32
  BIT_READ_RST :: u32
  BIT_READ_VALUE :: u32
  POS_READ_RST :: u32
  POS_READ_VALUE :: u32
  POS_READ_CHANGES :: u32
  PCAP_START_WRITE :: u32
  PCAP_WRITE :: u32
  PCAP_TS_SEC :: u32
  PCAP_TS_TICKS :: u32
  PCAP_ARM :: u32
  PCAP_DISARM :: u32
  FPGA_CAPABILITIES :: u32
  MAC_ADDRESS_BASE :: u32
  NOMINAL_CLOCK :: u32

definition BIT_BUS_COUNT :: nat where "BIT_BUS_COUNT = 128"

definition POS_BUS_COUNT :: nat where "POS_BUS_COUNT = 32"

definition EXT_BUS_COUNT :: nat where "EXT_BUS_COUNT = 16"

definition MAX_PCAP_WRITE_COUNT :: nat where "MAX_PCAP_WRITE_COUNT = 64"

definition NOMINAL_CLOCK_FREQUENCY :: u32 where "NOMINAL_CLOCK_FREQUENCY = 125000000"

definition MAC_ADDRESS_COUNT :: u32 where "MAC_ADDRESS_COUNT = 4"

definition NSECS :: nat where "NSECS = 1000000000"

definition BLOCK_TYPE_BITS :: nat where "BLOCK_TYPE_BITS = 5"

definition BLOCK_INSTANCE_BITS :: nat where "BLOCK_INSTANCE_BITS = 4"

definition BLOCK_REGISTER_BITS :: nat where "BLOCK_REGISTER_BITS = 6"

definition BLOCK_TYPE_COUNT :: u32 where "BLOCK_TYPE_COUNT = push_bit BLOCK_TYPE_BITS 1"

definition BLOCK_INSTANCE_COUNT :: u32 where "BLOCK_INSTANCE_COUNT = push_bit BLOCK_INSTANCE_BITS 1"

definition BLOCK_REGISTER_COUNT :: u32 where "BLOCK_REGISTER_COUNT = push_bit BLOCK_REGISTER_BITS 1"

section \<open>Registers\<close>

text \<open>The bit fields of \<^verbatim>\<open>struct register_fields\<close> are allocated from the low bits upwards.\<close>

definition make_offset :: "u32 \<Rightarrow> u32 \<Rightarrow> u32 \<Rightarrow> u32" where
  "make_offset block_base block_number reg =
     (let f_reg = reg AND (BLOCK_REGISTER_COUNT - 1);
          f_number = block_number AND (BLOCK_INSTANCE_COUNT - 1);
          f_type = block_base AND (BLOCK_TYPE_COUNT - 1) in
      f_reg OR push_bit BLOCK_REGISTER_BITS f_number OR
        push_bit (BLOCK_REGISTER_BITS + BLOCK_INSTANCE_BITS) f_type)"

definition hw_write_register :: "'s device \<Rightarrow> u32 \<Rightarrow> u32 \<Rightarrow> u32 \<Rightarrow> u32 \<Rightarrow> 's \<Rightarrow> 's" where
  "hw_write_register dev block_base block_number reg v =
     dev_write dev (make_offset block_base block_number reg) v"

definition hw_read_register :: "'s device \<Rightarrow> u32 \<Rightarrow> u32 \<Rightarrow> u32 \<Rightarrow> 's \<Rightarrow> u32 \<times> 's" where
  "hw_read_register dev block_base block_number reg =
     dev_read dev (make_offset block_base block_number reg)"

section \<open>Named registers\<close>

record named_register =
  nr_name :: "string option"
  nr_range :: u32
  nr_seen :: bool
  nr_optional :: bool

record named_constant =
  nc_name :: string
  nc_value :: u32
  nc_allow_default :: bool
  nc_seen :: bool

definition hw_set_block_base :: "reg_header \<Rightarrow> u32 \<Rightarrow> unit result" where
  "hw_set_block_base hdr reg = test_ok (reg = REG_BLOCK_BASE hdr) ''*REG block base mismatch''"

definition hw_set_named_register_range ::
    "string \<Rightarrow> u32 \<Rightarrow> u32 \<Rightarrow> named_register list \<Rightarrow> named_register list result" where
  "hw_set_named_register_range name start end' regs =
     (let reg = regs ! unat start in
      and_then (test_ok (unat start < length regs) ''Register out of range'')
        (\<lambda>_. and_then (test_ok (nr_name reg = Some name) ''Wrong offset value for this register'')
        (\<lambda>_. and_then (test_ok (\<not> nr_seen reg) ''Register already assigned'')
        (\<lambda>_. and_then (test_ok (end' = start + nr_range reg - 1) ''Invalid range of values'')
        (\<lambda>_. Inr (regs[unat start := reg\<lparr>nr_seen := True\<rparr>]))))))"

definition hw_set_named_register :: "string \<Rightarrow> u32 \<Rightarrow> named_register list \<Rightarrow> named_register list result" where
  "hw_set_named_register name reg regs = hw_set_named_register_range name reg reg regs"

text \<open>The constants are updated also when the value turns out to be wrong.\<close>

fun hw_set_named_constant ::
    "string \<Rightarrow> u32 \<Rightarrow> named_constant list \<Rightarrow> unit result \<times> named_constant list" where
  "hw_set_named_constant name v [] = (fail ''Unknown constant'', [])"
| "hw_set_named_constant name v (c # cs) =
     (if nc_name c = name then
        (if nc_seen c then (fail ''Repeated constant'', c # cs)
         else (test_ok (nc_value c = v) ''Unexpected value for constant'', c\<lparr>nc_seen := True\<rparr> # cs))
      else (case hw_set_named_constant name v cs of (r, cs') \<Rightarrow> (r, c # cs')))"

definition hw_validate :: "named_register list \<Rightarrow> named_constant list \<Rightarrow> unit result" where
  "hw_validate regs consts =
     (if list_ex (\<lambda>r. nr_name r \<noteq> None \<and> \<not> nr_seen r \<and> \<not> nr_optional r) regs
      then fail ''Register not in *REG list''
      else if list_ex (\<lambda>c. \<not> nc_seen c \<and> \<not> nc_allow_default c) consts
      then fail ''Constant not seen in registers file''
      else Inr ())"

definition write_named_register :: "'s device \<Rightarrow> reg_header \<Rightarrow> u32 \<Rightarrow> u32 \<Rightarrow> 's \<Rightarrow> 's" where
  "write_named_register dev hdr offset v = hw_write_register dev (REG_BLOCK_BASE hdr) 0 offset v"

definition read_named_register :: "'s device \<Rightarrow> reg_header \<Rightarrow> u32 \<Rightarrow> 's \<Rightarrow> u32 \<times> 's" where
  "read_named_register dev hdr offset = hw_read_register dev (REG_BLOCK_BASE hdr) 0 offset"

section \<open>Readout\<close>

text \<open>The loop that reads one register \<open>n\<close> times.\<close>

fun read_burst :: "'s device \<Rightarrow> reg_header \<Rightarrow> u32 \<Rightarrow> nat \<Rightarrow> 's \<Rightarrow> u32 list \<times> 's" where
  "read_burst dev hdr offset 0 s = ([], s)"
| "read_burst dev hdr offset (Suc n) s =
     (let (word, s') = read_named_register dev hdr offset s;
          (words, s'') = read_burst dev hdr offset n s' in (word # words, s''))"

definition hw_read_bits :: "'s device \<Rightarrow> reg_header \<Rightarrow> 's \<Rightarrow> bool list \<times> bool list \<times> 's" where
  "hw_read_bits dev hdr s =
     (let s = write_named_register dev hdr (BIT_READ_RST hdr) 1 s;
          (words, s) = read_burst dev hdr (BIT_READ_VALUE hdr) (BIT_BUS_COUNT div 16) s in
      (concat (map (\<lambda>word. map (\<lambda>j. drop_bit (16 + j) word AND 1 \<noteq> 0) [0..<16]) words),
       concat (map (\<lambda>word. map (\<lambda>j. drop_bit j word AND 1 \<noteq> 0) [0..<16]) words), s))"

definition hw_read_positions :: "'s device \<Rightarrow> reg_header \<Rightarrow> 's \<Rightarrow> u32 list \<times> bool list \<times> 's" where
  "hw_read_positions dev hdr s =
     (let s = write_named_register dev hdr (POS_READ_RST hdr) 1 s;
          (positions, s) = read_burst dev hdr (POS_READ_VALUE hdr) POS_BUS_COUNT s;
          (word, s) = read_named_register dev hdr (POS_READ_CHANGES hdr) s in
      (positions, map (\<lambda>i. drop_bit i word AND 1 \<noteq> 0) [0..<POS_BUS_COUNT], s))"

definition hw_read_versions :: "'s device \<Rightarrow> reg_header \<Rightarrow> 's \<Rightarrow> (u32 \<times> u32 \<times> u32) \<times> 's" where
  "hw_read_versions dev hdr s =
     (let (fpga_version, s) = read_named_register dev hdr (FPGA_VERSION hdr) s;
          (fpga_build, s) = read_named_register dev hdr (FPGA_BUILD hdr) s;
          (user_version, s) = read_named_register dev hdr (USER_VERSION hdr) s in
      ((fpga_version, fpga_build, user_version), s))"

text \<open>\<open>None\<close> is the failing assertion.\<close>

definition hw_write_mac_address :: "'s device \<Rightarrow> reg_header \<Rightarrow> u32 \<Rightarrow> u64 \<Rightarrow> 's \<Rightarrow> 's option" where
  "hw_write_mac_address dev hdr offset mac_address s =
     (if offset < MAC_ADDRESS_COUNT then
        (let s = write_named_register dev hdr (MAC_ADDRESS_BASE hdr + 2 * offset)
               (ucast (mac_address AND 0xffffff)) s in
         Some (write_named_register dev hdr (MAC_ADDRESS_BASE hdr + 2 * offset + 1)
               (ucast (drop_bit 24 mac_address AND 0xffffff)) s))
      else None)"

definition hw_read_fpga_capabilities :: "'s device \<Rightarrow> reg_header \<Rightarrow> 's \<Rightarrow> u32 \<times> 's" where
  "hw_read_fpga_capabilities dev hdr = read_named_register dev hdr (FPGA_CAPABILITIES hdr)"

definition hw_read_nominal_clock :: "'s device \<Rightarrow> reg_header \<Rightarrow> 's \<Rightarrow> u32 \<times> 's" where
  "hw_read_nominal_clock dev hdr s =
     (let (frequency, s) = read_named_register dev hdr (NOMINAL_CLOCK hdr) s in
      (if frequency > 0 then frequency else NOMINAL_CLOCK_FREQUENCY, s))"

section \<open>Data capture\<close>

text \<open>The data read, and whether the capture has ended.\<close>

definition hw_read_streamed_data :: "'s device \<Rightarrow> nat \<Rightarrow> 's \<Rightarrow> u8 list \<times> bool \<times> 's" where
  "hw_read_streamed_data dev len s =
     (case stream_read dev len s of
        (Inl EAGAIN, s') \<Rightarrow> ([], False, s')
      | (Inl OTHER_ERRNO, s') \<Rightarrow> ([], True, s')
      | (Inr data, s') \<Rightarrow> if data = [] then ([], True, s') else (data, False, s'))"

definition hw_write_arm_streamed_data :: "'s device \<Rightarrow> 's \<Rightarrow> 's" where
  "hw_write_arm_streamed_data dev s = snd (stream_arm dev s)"

definition hw_read_streamed_completion :: "'s device \<Rightarrow> 's \<Rightarrow> u32 \<times> 's" where
  "hw_read_streamed_completion dev s =
     (case stream_completion dev s of (Inl _, s') \<Rightarrow> (0, s') | (Inr completion, s') \<Rightarrow> (completion, s'))"

text \<open>A \<^verbatim>\<open>struct timespec\<close>: both members as integers, of the widths \<open>tw\<close> and \<open>lw\<close> of \<^verbatim>\<open>time_t\<close> and \<^verbatim>\<open>long\<close>.\<close>

record timespec =
  tv_sec :: int
  tv_nsec :: int

definition to_signed :: "nat \<Rightarrow> int \<Rightarrow> int" where
  "to_signed w x = signed_take_bit (w - 1) x"

definition hw_get_start_ts :: "'s device \<Rightarrow> nat \<Rightarrow> nat \<Rightarrow> timespec \<Rightarrow> 's \<Rightarrow> bool \<times> timespec \<times> 's" where
  "hw_get_start_ts dev tw lw ts s =
     (case stream_start_ts dev s of
        (Inl _, s') \<Rightarrow> (False, ts, s')
      | (Inr (sec, nsec), s') \<Rightarrow>
          (True, \<lparr>tv_sec = to_signed tw (sint sec), tv_nsec = to_signed lw (uint nsec)\<rparr>, s'))"

text \<open>
  C's \<^verbatim>\<open>/\<close> and \<^verbatim>\<open>%\<close> truncate towards zero; \<^verbatim>\<open>NSECS\<close> is positive.
\<close>

definition c_div :: "int \<Rightarrow> int \<Rightarrow> int" where
  "c_div a b = sgn a * (\<bar>a\<bar> div b)"

definition c_mod :: "int \<Rightarrow> int \<Rightarrow> int" where
  "c_mod a b = sgn a * (\<bar>a\<bar> mod b)"

definition hw_get_hw_start_ts :: "'s device \<Rightarrow> reg_header \<Rightarrow> nat \<Rightarrow> nat \<Rightarrow> 's \<Rightarrow> bool \<times> timespec \<times> 's" where
  "hw_get_hw_start_ts dev hdr tw lw s =
     (let (sec, s) = read_named_register dev hdr (PCAP_TS_SEC hdr) s;
          (ticks, s) = read_named_register dev hdr (PCAP_TS_TICKS hdr) s;
          (clock, s) = hw_read_nominal_clock dev hdr s;
          nsec = to_signed lw (uint ((ucast ticks :: u64) * word_of_nat NSECS div ucast clock)) in
      (True, \<lparr>tv_sec = to_signed tw (to_signed tw (uint sec) + c_div nsec (int NSECS)),
              tv_nsec = c_mod nsec (int NSECS)\<rparr>, s))"

definition PANDA_COMPLETION_DISARM :: u32 where "PANDA_COMPLETION_DISARM = 1"

definition PANDA_COMPLETION_FRAMING :: u32 where "PANDA_COMPLETION_FRAMING = 2"

definition PANDA_COMPLETION_DMA :: u32 where "PANDA_COMPLETION_DMA = 4"

definition PANDA_COMPLETION_OVERRUN :: u32 where "PANDA_COMPLETION_OVERRUN = 8"

definition hw_decode_completion :: "u32 \<Rightarrow> string" where
  "hw_decode_completion completion =
     (if completion = 0 then ''Ok''
      else if completion AND PANDA_COMPLETION_DMA \<noteq> 0 then ''DMA data error''
      else if completion AND PANDA_COMPLETION_OVERRUN \<noteq> 0 then ''Driver data overrun''
      else if completion AND PANDA_COMPLETION_FRAMING \<noteq> 0 then ''Framing error''
      else if completion AND PANDA_COMPLETION_DISARM \<noteq> 0 then ''Disarmed''
      else ''Unexpected completion error'')"

definition hw_write_arm :: "'s device \<Rightarrow> reg_header \<Rightarrow> bool \<Rightarrow> 's \<Rightarrow> 's" where
  "hw_write_arm dev hdr enable s =
     (if enable then write_named_register dev hdr (PCAP_ARM hdr) 0 s
      else write_named_register dev hdr (PCAP_DISARM hdr) 0 s)"

definition hw_write_capture_set :: "'s device \<Rightarrow> reg_header \<Rightarrow> u32 list \<Rightarrow> 's \<Rightarrow> 's option" where
  "hw_write_capture_set dev hdr capture s =
     (if length capture < MAX_PCAP_WRITE_COUNT then
        Some (fold (\<lambda>c. write_named_register dev hdr (PCAP_WRITE hdr) c) capture
          (write_named_register dev hdr (PCAP_START_WRITE hdr) 0 s))
      else None)"

section \<open>Tables\<close>

record short_table =
  st_reset_reg :: u32
  st_fill_reg :: u32
  st_length_reg :: u32

record long_table =
  lt_block_ids :: "u32 list"
  lt_dma_channel_base :: u32

datatype table_kind = SHORT_TABLE short_table | LONG_TABLE long_table

text \<open>
  \<^verbatim>\<open>hw_table.data\<close> is a list of buffers, each with its allocated size.  What a fresh buffer holds
  is the parameter \<open>junk\<close>, and whether \<^verbatim>\<open>malloc\<close> gives memory the parameter \<open>mem\<close>.
\<close>

record hw_table =
  ht_data :: "u32 list list"
  ht_count :: u32
  ht_block_base :: u32
  ht_type :: table_kind

definition fresh_words :: "(nat \<Rightarrow> u32) \<Rightarrow> nat \<Rightarrow> u32 list" where
  "fresh_words junk n = map junk [0..<n]"

definition create_short_table :: "(nat \<Rightarrow> u32) \<Rightarrow> hw_table \<Rightarrow> nat \<Rightarrow> u32 \<Rightarrow> u32 \<Rightarrow> u32 \<Rightarrow> hw_table" where
  "create_short_table junk table max_length reset_reg fill_reg length_reg =
     table\<lparr>ht_type := SHORT_TABLE
             \<lparr>st_reset_reg = reset_reg, st_fill_reg = fill_reg, st_length_reg = length_reg\<rparr>,
           ht_data := replicate (unat (ht_count table)) (fresh_words junk max_length)\<rparr>"

definition write_short_table :: "'s device \<Rightarrow> hw_table \<Rightarrow> short_table \<Rightarrow> u32 \<Rightarrow> nat \<Rightarrow> 's \<Rightarrow> 's" where
  "write_short_table dev table short number len s =
     (let data = ht_data table ! unat number;
          s = hw_write_register dev (ht_block_base table) number (st_reset_reg short) 1 s;
          s = fold (\<lambda>i. hw_write_register dev (ht_block_base table) number (st_fill_reg short) (data ! i))
                [0..<len] s in
      hw_write_register dev (ht_block_base table) number (st_length_reg short) (word_of_nat len) s)"

text \<open>
  The size that the driver reports is converted to \<^verbatim>\<open>uint32_t\<close> and then compared with -1 as an
  \<^verbatim>\<open>intptr_t\<close>, of \<open>lw\<close> bits like \<^verbatim>\<open>size_t\<close>.
\<close>

definition hw_long_table_allocate ::
    "'s device \<Rightarrow> nat \<Rightarrow> (nat \<Rightarrow> bool) \<Rightarrow> (nat \<Rightarrow> u32) \<Rightarrow> u32 \<Rightarrow> u32 \<Rightarrow> u32 \<Rightarrow> u32 \<Rightarrow> u32 \<Rightarrow> u32 \<Rightarrow> u32 \<Rightarrow> 's \<Rightarrow>
     (nat \<times> u32 list \<times> u32) result \<times> 's" where
  "hw_long_table_allocate dev lw mem junk block_base number base_reg length_reg order nbuffers dma_channel s =
     (let block = \<lparr>pb_order = order, pb_block_base = 4 * make_offset block_base number base_reg,
            pb_block_length = 4 * make_offset block_base number length_reg,
            pb_dma_channel = dma_channel, pb_nbuffers = nbuffers\<rparr> in
      case block_open dev s of
        (Inl _, s) \<Rightarrow> (fail ''Unable to open PandA device /dev/panda.block'', s)
      | (Inr block_id, s) \<Rightarrow>
          (case block_config dev block_id block s of (ret, s) \<Rightarrow>
             (let block_size = unat (case ret of Inl _ \<Rightarrow> - 1 | Inr sz \<Rightarrow> sz) in
              if to_signed lw (int block_size) = - 1 then (fail ''Unexpected error'', s)
              else if \<not> mem (block_size * 4 mod 2 ^ lw) then (fail ''Unexpected error'', s)
              else (Inr (block_size, fresh_words junk (block_size * 4 mod 2 ^ lw div 4), block_id), s))))"

definition hw_long_table_write :: "'s device \<Rightarrow> u32 \<Rightarrow> u32 list \<Rightarrow> nat \<Rightarrow> bool \<Rightarrow> bool \<Rightarrow> 's \<Rightarrow> unit result \<times> 's" where
  "hw_long_table_write dev block_id data len streaming_mode last_table s =
     (case block_send dev block_id \<lparr>sr_data = data, sr_length = len, sr_more = streaming_mode \<and> \<not> last_table\<rparr> s of
        (Inl _, s') \<Rightarrow> (fail ''Unexpected error'', s')
      | (Inr _, s') \<Rightarrow> (Inr (), s'))"

text \<open>The loop of \<^verbatim>\<open>create_long_table\<close>: the sizes, buffers and ids of the blocks from \<open>i\<close> on.\<close>

fun allocate_blocks ::
    "(u32 \<Rightarrow> 's \<Rightarrow> (nat \<times> u32 list \<times> u32) result \<times> 's) \<Rightarrow> nat \<Rightarrow> nat \<Rightarrow> 's \<Rightarrow>
     (nat \<times> u32 list \<times> u32) list result \<times> 's" where
  "allocate_blocks alloc i 0 s = (Inr [], s)"
| "allocate_blocks alloc i (Suc n) s =
     (case alloc (word_of_nat i) s of
        (Inl e, s') \<Rightarrow> (Inl e, s')
      | (Inr b, s') \<Rightarrow>
          (case allocate_blocks alloc (i + 1) n s' of
             (Inl e, s'') \<Rightarrow> (Inl e, s'')
           | (Inr bs, s'') \<Rightarrow> (Inr (b # bs), s'')))"

text \<open>
  The channel base is a static variable.  When the allocation fails the table is not used, and
  is not returned here.
\<close>

definition create_long_table ::
    "'s device \<Rightarrow> nat \<Rightarrow> (nat \<Rightarrow> bool) \<Rightarrow> (nat \<Rightarrow> u32) \<Rightarrow> hw_table \<Rightarrow> u32 \<Rightarrow> u32 \<Rightarrow> u32 \<Rightarrow> u32 \<Rightarrow> u32 \<Rightarrow> 's \<Rightarrow>
     (hw_table \<times> nat) result \<times> u32 \<times> 's" where
  "create_long_table dev lw mem junk table order nbuffers base_reg length_reg dma_channel_base s =
     (case allocate_blocks
             (\<lambda>i. hw_long_table_allocate dev lw mem junk (ht_block_base table) i base_reg length_reg
                order nbuffers (dma_channel_base + i)) 0 (unat (ht_count table)) s of
        (Inl e, s') \<Rightarrow> (Inl e, dma_channel_base + ht_count table, s')
      | (Inr blocks, s') \<Rightarrow>
          (Inr (table\<lparr>ht_type := LONG_TABLE
                        \<lparr>lt_block_ids = map (snd \<circ> snd) blocks, lt_dma_channel_base = dma_channel_base\<rparr>,
                      ht_data := map (fst \<circ> snd) blocks\<rparr>,
                (if blocks = [] then 0 else fst (last blocks)) div 4),
           dma_channel_base + ht_count table, s'))"

definition create_hw_table :: "u32 \<Rightarrow> u32 \<Rightarrow> table_kind \<Rightarrow> hw_table" where
  "create_hw_table block_base count table_type =
     \<lparr>ht_data = [], ht_count = count, ht_block_base = block_base, ht_type = table_type\<rparr>"

definition hw_open_short_table :: "(nat \<Rightarrow> u32) \<Rightarrow> u32 \<Rightarrow> u32 \<Rightarrow> u32 \<Rightarrow> u32 \<Rightarrow> u32 \<Rightarrow> nat \<Rightarrow> hw_table" where
  "hw_open_short_table junk block_base block_count reset_reg fill_reg length_reg max_length =
     create_short_table junk
       (create_hw_table block_base block_count
          (SHORT_TABLE \<lparr>st_reset_reg = 0, st_fill_reg = 0, st_length_reg = 0\<rparr>))
       max_length reset_reg fill_reg length_reg"

definition hw_open_long_table ::
    "'s device \<Rightarrow> nat \<Rightarrow> (nat \<Rightarrow> bool) \<Rightarrow> (nat \<Rightarrow> u32) \<Rightarrow> u32 \<Rightarrow> u32 \<Rightarrow> u32 \<Rightarrow> u32 \<Rightarrow> u32 \<Rightarrow> u32 \<Rightarrow> u32 \<Rightarrow> 's \<Rightarrow>
     (hw_table \<times> nat) result \<times> u32 \<times> 's" where
  "hw_open_long_table dev lw mem junk block_base block_count order nbuffers base_reg length_reg dma_channel_base s =
     create_long_table dev lw mem junk
       (create_hw_table block_base block_count (LONG_TABLE \<lparr>lt_block_ids = [], lt_dma_channel_base = 0\<rparr>))
       order nbuffers base_reg length_reg dma_channel_base s"

definition hw_read_table_data :: "hw_table \<Rightarrow> u32 \<Rightarrow> u32 list" where
  "hw_read_table_data table number = ht_data table ! unat number"

definition hw_table_supports_streaming :: "hw_table \<Rightarrow> bool" where
  "hw_table_supports_streaming table = (case ht_type table of SHORT_TABLE _ \<Rightarrow> False | LONG_TABLE _ \<Rightarrow> True)"

definition hw_reset_table :: "'s device \<Rightarrow> hw_table \<Rightarrow> u32 \<Rightarrow> 's \<Rightarrow> unit result \<times> 's" where
  "hw_reset_table dev table number s =
     (case ht_type table of
        LONG_TABLE lt \<Rightarrow> hw_long_table_write dev (lt_block_ids lt ! unat number) [] 0 False False s
      | SHORT_TABLE _ \<Rightarrow> (Inr (), s))"

text \<open>\<^verbatim>\<open>memcpy\<close> of \<open>len\<close> words into a buffer; \<open>None\<close> outside the buffer.\<close>

definition copy_words :: "u32 list \<Rightarrow> u32 list \<Rightarrow> nat \<Rightarrow> u32 list option" where
  "copy_words buf data len =
     (if len \<le> length buf \<and> len \<le> length data then Some (take len data @ drop len buf) else None)"

definition set_table_data :: "hw_table \<Rightarrow> u32 \<Rightarrow> u32 list \<Rightarrow> nat \<Rightarrow> hw_table option" where
  "set_table_data table number data len =
     (if unat number < length (ht_data table) then
        map_option (\<lambda>buf. table\<lparr>ht_data := (ht_data table)[unat number := buf]\<rparr>)
          (copy_words (ht_data table ! unat number) data len)
      else None)"

definition hw_write_table ::
    "'s device \<Rightarrow> hw_table \<Rightarrow> u32 \<Rightarrow> u32 list \<Rightarrow> nat \<Rightarrow> bool \<Rightarrow> bool \<Rightarrow> 's \<Rightarrow>
     (unit result \<times> hw_table \<times> 's) option" where
  "hw_write_table dev table number data len streaming_mode last_table s =
     (case ht_type table of
        SHORT_TABLE short \<Rightarrow>
          map_option (\<lambda>table'. (Inr (), table', write_short_table dev table' short number len s))
            (set_table_data table number data len)
      | LONG_TABLE lt \<Rightarrow>
          if len > 0 then
            map_option (\<lambda>table'.
                (case hw_long_table_write dev (lt_block_ids lt ! unat number) (take len data) len
                        streaming_mode last_table s of
                   (r, s') \<Rightarrow> (r, table', s')))
              (if \<not> streaming_mode then set_table_data table number data len else Some table)
          else Some (Inr (), table, s))"

definition hw_get_queued_words :: "'s device \<Rightarrow> hw_table \<Rightarrow> u32 \<Rightarrow> 's \<Rightarrow> nat \<times> 's" where
  "hw_get_queued_words dev table number s =
     (case ht_type table of
        LONG_TABLE lt \<Rightarrow>
          (case block_nwords dev (lt_block_ids lt ! unat number) s of
             (Inl _, s') \<Rightarrow> (0, s') | (Inr result, s') \<Rightarrow> (result, s'))
      | SHORT_TABLE _ \<Rightarrow> (0, s))"

section \<open>Register offsets\<close>

lemma block_masks:
  "BLOCK_REGISTER_COUNT - 1 = mask 6" "BLOCK_INSTANCE_COUNT - 1 = mask 4" "BLOCK_TYPE_COUNT - 1 = mask 5"
  by (simp_all add: BLOCK_REGISTER_COUNT_def BLOCK_INSTANCE_COUNT_def BLOCK_TYPE_COUNT_def
      BLOCK_REGISTER_BITS_def BLOCK_INSTANCE_BITS_def BLOCK_TYPE_BITS_def mask_eq_exp_minus_1)

lemma make_offset_alt:
  "make_offset b n r = take_bit 6 r OR push_bit 6 (take_bit 4 n) OR push_bit 10 (take_bit 5 b)"
  unfolding make_offset_def block_masks
  by (simp add: take_bit_eq_mask [symmetric] BLOCK_REGISTER_BITS_def BLOCK_INSTANCE_BITS_def)

lemma bit_make_offset:
  "bit (make_offset b n r) i =
     (if i < 6 then bit r i else if i < 10 then bit n (i - 6) else i < 15 \<and> bit b (i - 10))"
  unfolding make_offset_alt by (auto simp: bit_simps)

lemma make_offset_fields:
  "take_bit 6 (make_offset b n r) = take_bit 6 r"
  "take_bit 4 (drop_bit 6 (make_offset b n r)) = take_bit 4 n"
  "take_bit 5 (drop_bit 10 (make_offset b n r)) = take_bit 5 b"
  "take_bit 15 (make_offset b n r) = make_offset b n r"
  by (rule bit_word_eqI, auto simp: bit_simps bit_make_offset)+

lemma make_offset_eq_iff:
  "make_offset b n r = make_offset b' n' r' \<longleftrightarrow>
     b mod 32 = b' mod 32 \<and> n mod 16 = n' mod 16 \<and> r mod 64 = r' mod 64"
proof -
  have "make_offset b n r = make_offset b' n' r' \<longleftrightarrow>
      take_bit 5 b = take_bit 5 b' \<and> take_bit 4 n = take_bit 4 n' \<and> take_bit 6 r = take_bit 6 r'"
    using make_offset_fields by (metis make_offset_alt)
  then show ?thesis by (simp add: take_bit_eq_mod)
qed

text \<open>
  Two register addresses are equal exactly when block type, instance and register agree in the
  bits the hardware decodes, and every address is below \<open>2 ^ 15\<close>.
\<close>

theorem make_offset_injective:
  "(make_offset b n r = make_offset b' n' r' \<longleftrightarrow>
      b mod 32 = b' mod 32 \<and> n mod 16 = n' mod 16 \<and> r mod 64 = r' mod 64) \<and>
   make_offset b n r < 2 ^ 15"
proof -
  have "take_bit 15 (make_offset b n r) < 2 ^ 15" by (simp add: take_bit_eq_mod word_mod_less_divisor)
  then show ?thesis unfolding make_offset_fields by (simp add: make_offset_eq_iff)
qed

section \<open>Named registers\<close>

fun set_registers :: "(string \<times> u32 \<times> u32) list \<Rightarrow> named_register list \<Rightarrow> named_register list result" where
  "set_registers [] regs = Inr regs"
| "set_registers ((name, start, end') # calls) regs =
     and_then (hw_set_named_register_range name start end' regs) (set_registers calls)"

definition assigned_by :: "named_register list \<Rightarrow> string \<times> u32 \<times> u32 \<Rightarrow> bool" where
  "assigned_by regs call = (case call of (name, start, end') \<Rightarrow>
     unat start < length regs \<and> nr_name (regs ! unat start) = Some name \<and>
     end' = start + nr_range (regs ! unat start) - 1)"

lemma set_range_Inr:
  "hw_set_named_register_range name start end' regs = Inr regs' \<longleftrightarrow>
     assigned_by regs (name, start, end') \<and> \<not> nr_seen (regs ! unat start) \<and>
     regs' = regs[unat start := (regs ! unat start)\<lparr>nr_seen := True\<rparr>]"
  by (auto simp: hw_set_named_register_range_def assigned_by_def Let_def and_then_eq_Inr)

lemma nth_set_seen:
  "(regs[j := (regs ! j)\<lparr>nr_seen := True\<rparr>]) ! i = (if i = j \<and> j < length regs then (regs ! i)\<lparr>nr_seen := True\<rparr> else regs ! i)"
  by (cases "j < length regs") (auto simp: nth_list_update list_update_beyond)

definition starts :: "(string \<times> u32 \<times> u32) list \<Rightarrow> nat list" where
  "starts calls = map (unat \<circ> fst \<circ> snd) calls"

definition loaded :: "named_register list \<Rightarrow> (string \<times> u32 \<times> u32) list \<Rightarrow> named_register list \<Rightarrow> bool" where
  "loaded regs calls regs' =
     (length regs' = length regs \<and> list_all (assigned_by regs) calls \<and> distinct (starts calls) \<and>
      (\<forall>i < length regs. regs' ! i = (regs ! i)\<lparr>nr_seen := nr_seen (regs ! i) \<or> i \<in> set (starts calls)\<rparr>) \<and>
      (\<forall>i \<in> set (starts calls). \<not> nr_seen (regs ! i)))"

lemma loadedD:
  assumes "loaded regs calls regs'"
  shows "length regs' = length regs" "list_all (assigned_by regs) calls" "distinct (starts calls)"
    "i < length regs \<Longrightarrow> regs' ! i = (regs ! i)\<lparr>nr_seen := nr_seen (regs ! i) \<or> i \<in> set (starts calls)\<rparr>"
    "i \<in> set (starts calls) \<Longrightarrow> \<not> nr_seen (regs ! i)"
  using assms by (simp_all add: loaded_def)

lemma set_registers_loaded: "set_registers calls regs = Inr regs' \<Longrightarrow> loaded regs calls regs'"
proof (induction calls arbitrary: regs)
  case (Cons call calls)
  obtain name start end' where call: "call = (name, start, end')" by (cases call)
  define mid where "mid = regs[unat start := (regs ! unat start)\<lparr>nr_seen := True\<rparr>]"
  have a: "assigned_by regs call" "\<not> nr_seen (regs ! unat start)" "set_registers calls mid = Inr regs'"
    using Cons.prems by (auto simp: call and_then_eq_Inr set_range_Inr mid_def)
  have lt: "unat start < length regs" using a(1) by (simp add: call assigned_by_def)
  have mid: "mid ! j = (if j = unat start then (regs ! j)\<lparr>nr_seen := True\<rparr> else regs ! j)" for j
    using lt by (simp add: mid_def nth_set_seen)
  have len: "length mid = length regs" by (simp add: mid_def)
  note IH = loadedD [OF Cons.IH [OF a(3)]]
  have "assigned_by mid c = assigned_by regs c" for c
    by (auto simp: assigned_by_def mid len split: prod.splits)
  then have "assigned_by mid = assigned_by regs" by (rule ext)
  with IH(2) have 2: "list_all (assigned_by regs) (call # calls)" using a(1) by simp
  have new: "unat start \<notin> set (starts calls)" using IH(5) [of "unat start"] by (auto simp: mid)
  with IH(3) have 3: "distinct (starts (call # calls))" by (simp add: starts_def call)
  have 4: "regs' ! i = (regs ! i)\<lparr>nr_seen := nr_seen (regs ! i) \<or> i \<in> set (starts (call # calls))\<rparr>"
    if "i < length regs" for i
    using IH(4) [of i] that by (simp add: len mid starts_def call)
  have 5: "\<not> nr_seen (regs ! i)" if "i \<in> set (starts (call # calls))" for i
  proof (cases "i = unat start")
    case False
    with that have "i \<in> set (starts calls)" by (simp add: starts_def call)
    from IH(5) [OF this] False show ?thesis by (simp add: mid)
  qed (use a(2) in simp)
  show ?case using IH(1) 2 3 4 5 by (simp add: loaded_def len)
qed (simp add: loaded_def starts_def)


definition sample_registers :: "named_register list" where
  "sample_registers =
     [\<lparr>nr_name = Some ''FPGA_VERSION'', nr_range = 1, nr_seen = False, nr_optional = False\<rparr>,
      \<lparr>nr_name = None, nr_range = 0, nr_seen = False, nr_optional = False\<rparr>,
      \<lparr>nr_name = Some ''MAC_ADDRESS_BASE'', nr_range = 8, nr_seen = False, nr_optional = False\<rparr>]"


section \<open>Readout of the bit bus\<close>

text \<open>
  The protocol of the readout registers as \<^verbatim>\<open>config_d/registers\<close> documents it: a write to the reset
  register takes a snapshot of the bus, and each read of the value register gives the next of the
  words \<open>bus_words\<close>, with sixteen change bits below sixteen value bits.
\<close>

definition bus_words :: "bool list \<Rightarrow> bool list \<Rightarrow> u32 list" where
  "bus_words vals chg =
     map (\<lambda>i. horner_sum of_bool 2 (take 16 (drop (16 * i) chg) @ take 16 (drop (16 * i) vals))) [0..<8]"

lemma read_burst_words:
  assumes "\<And>s w ws. pend s = w # ws \<Longrightarrow> \<exists>s'. read_named_register dev hdr offset s = (w, s') \<and> pend s' = ws"
    and "pend s = ws"
  shows "\<exists>s'. read_burst dev hdr offset (length ws) s = (ws, s') \<and> pend s' = []"
  using assms(2)
proof (induction ws arbitrary: s)
  case (Cons w ws)
  from assms(1) [OF this(2)] obtain s1 where 1: "read_named_register dev hdr offset s = (w, s1)" "pend s1 = ws" by auto
  from Cons.IH [OF 1(2)] 1(1) show ?case by auto
qed simp

lemma and_one_bit: "(drop_bit n (w :: u32) AND 1 \<noteq> 0) = bit w n"
  by (simp add: and_one_eq bit_iff_odd_drop_bit odd_iff_mod_2_eq_one)

lemma bus_word_bits:
  assumes "length vals = 128" "length chg = 128" "i < 8"
  defines "w \<equiv> horner_sum of_bool 2 (take 16 (drop (16 * i) chg) @ take 16 (drop (16 * i) vals)) :: u32"
  shows "map (\<lambda>j. bit w (16 + j)) [0..<16] = take 16 (drop (16 * i) vals)"
    and "map (\<lambda>j. bit w j) [0..<16] = take 16 (drop (16 * i) chg)"
  using assms(1-3) unfolding w_def
  by (auto intro!: nth_equalityI simp: bit_horner_sum_bit_word_iff nth_append)

lemma concat_chunks:
  assumes "length xs = 128"
  shows "concat (map (\<lambda>i. take 16 (drop (16 * i) xs)) [0..<8]) = xs"
proof -
  have "concat (map (\<lambda>i. take 16 (drop (16 * i) xs)) [0..<n]) = take (16 * n) xs" for n
    by (induction n) (simp_all add: take_add [symmetric] add.commute)
  from this [of 8] show ?thesis using assms by simp
qed

text \<open>
  With hardware that follows the readout protocol, \<^verbatim>\<open>hw_read_bits\<close> returns exactly the values and
  the change flags of the whole bit bus at the time of the snapshot.
\<close>

theorem hw_read_bits_correct:
  assumes reset: "\<And>s. pend (write_named_register dev hdr (BIT_READ_RST hdr) 1 s) = bus_words (bus_of s) (changes_of s)"
    and burst: "\<And>s w ws. pend s = w # ws \<Longrightarrow>
        \<exists>s'. read_named_register dev hdr (BIT_READ_VALUE hdr) s = (w, s') \<and> pend s' = ws"
    and len: "length (bus_of s) = BIT_BUS_COUNT" "length (changes_of s) = BIT_BUS_COUNT"
  shows "\<exists>s'. hw_read_bits dev hdr s = (bus_of s, changes_of s, s')"
proof -
  define ws where "ws = bus_words (bus_of s) (changes_of s)"
  have n: "length ws = BIT_BUS_COUNT div 16" by (simp add: ws_def bus_words_def BIT_BUS_COUNT_def)
  obtain s' where b: "read_burst dev hdr (BIT_READ_VALUE hdr) (BIT_BUS_COUNT div 16)
      (write_named_register dev hdr (BIT_READ_RST hdr) 1 s) = (ws, s')"
    using read_burst_words [OF burst reset, of s] unfolding ws_def [symmetric] n by blast
  have l: "length (bus_of s) = 128" "length (changes_of s) = 128" using len by (simp_all add: BIT_BUS_COUNT_def)
  have "concat (map (\<lambda>w. map (\<lambda>j. bit w (16 + j)) [0..<16]) ws) =
      concat (map (\<lambda>i. take 16 (drop (16 * i) (bus_of s))) [0..<8])"
    unfolding ws_def bus_words_def map_map comp_def
    by (rule arg_cong [where f = concat], rule map_cong [OF refl], rule bus_word_bits) (simp_all add: l)
  moreover have "concat (map (\<lambda>w. map (\<lambda>j. bit w j) [0..<16]) ws) =
      concat (map (\<lambda>i. take 16 (drop (16 * i) (changes_of s))) [0..<8])"
    unfolding ws_def bus_words_def map_map comp_def
    by (rule arg_cong [where f = concat], rule map_cong [OF refl], rule bus_word_bits) (simp_all add: l)
  ultimately show ?thesis
    unfolding hw_read_bits_def Let_def b and_one_bit by (simp add: concat_chunks l)
qed

section \<open>Time stamps\<close>

lemma c_div_mod_nonneg: "0 \<le> a \<Longrightarrow> 0 < b \<Longrightarrow> c_div a b = a div b \<and> c_mod a b = a mod b"
  by (cases "a = 0") (simp_all add: c_div_def c_mod_def)

lemma to_signed_id: "0 < w \<Longrightarrow> 0 \<le> x \<Longrightarrow> x < 2 ^ (w - 1) \<Longrightarrow> to_signed w x = x"
  unfolding to_signed_def by (rule signed_take_bit_int_eq_self) simp_all

lemma ticks_product:
  "uint ((ucast (ticks :: u32) :: u64) * word_of_nat NSECS div ucast (clock :: u32)) = uint ticks * int NSECS div uint clock"
proof -
  have "uint ticks < 2 ^ 32" by (rule uint_bounds_32)
  then have "uint ticks * 1000000000 < 2 ^ 64" by simp
  then have "uint ((ucast ticks :: u64) * word_of_nat NSECS) = uint ticks * int NSECS"
    by (simp add: NSECS_def uint_word_ariths unsigned_ucast_eq take_bit_int_eq_self)
  then show ?thesis
    by (simp add: uint_div_distrib uint_ucast_64)
qed

text \<open>
  The hardware time stamp is normalised and is the number of seconds plus the ticks converted to
  nanoseconds, as long as that fits the member \<^verbatim>\<open>tv_nsec\<close>, a \<^verbatim>\<open>long\<close> of \<open>lw\<close> bits (about two seconds of
  ticks on the 32 bit target).
\<close>

theorem hw_start_ts_normalised:
  assumes "read_named_register dev hdr (PCAP_TS_SEC hdr) s = (sec, s1)"
    and "read_named_register dev hdr (PCAP_TS_TICKS hdr) s1 = (ticks, s2)"
    and "hw_read_nominal_clock dev hdr s2 = (clock, s3)"
    and "0 < lw" "uint ticks * int NSECS div uint clock < 2 ^ (lw - 1)" "33 < tw"
  shows "\<exists>ts. hw_get_hw_start_ts dev hdr tw lw s = (True, ts, s3) \<and> 0 \<le> tv_nsec ts \<and> tv_nsec ts < int NSECS \<and>
    tv_sec ts * int NSECS + tv_nsec ts = uint sec * int NSECS + uint ticks * int NSECS div uint clock"
proof -
  define n where "n = uint ticks * int NSECS div uint clock"
  have n0: "0 \<le> n" by (simp add: n_def pos_imp_zdiv_nonneg_iff div_int_pos_iff)
  have n1: "to_signed lw n = n" using to_signed_id n0 assms(4,5) by (simp add: n_def)
  have "(2 :: int) ^ 33 \<le> 2 ^ (tw - 1)" using assms(6) by (intro power_increasing) simp_all
  then have tw: "2 ^ 33 \<le> (2 :: int) ^ (tw - 1)" .
  have s32: "uint sec < 2 ^ 32" by (rule uint_bounds_32)
  have t32: "uint ticks < 2 ^ 32" by (rule uint_bounds_32)
  have "n \<le> uint ticks * int NSECS"
  proof (cases "uint clock = 0")
    case False
    then have "0 < uint clock" using uint_ge_0 [of clock] by linarith
    then show ?thesis unfolding n_def using zdiv_mono2 [of "uint ticks * int NSECS" 1 "uint clock"] by simp
  qed (simp add: n_def NSECS_def)
  then have "n div int NSECS \<le> uint ticks * int NSECS div int NSECS" by (rule zdiv_mono1) (simp add: NSECS_def)
  then have "n div int NSECS < 2 ^ 32" using t32 by (simp add: NSECS_def)
  then have t: "to_signed tw (to_signed tw (uint sec) + n div int NSECS) = uint sec + n div int NSECS"
    using s32 n0 tw assms(6) by (simp add: to_signed_id NSECS_def pos_imp_zdiv_nonneg_iff)
  have "uint sec * int NSECS + n = (uint sec + n div int NSECS) * int NSECS + n mod int NSECS"
    by (simp add: algebra_simps)
  moreover have "0 < int NSECS" by (simp add: NSECS_def)
  ultimately show ?thesis
    unfolding hw_get_hw_start_ts_def assms(1-3) Let_def prod.case ticks_product n_def [symmetric] n1
    using c_div_mod_nonneg [OF n0, of "int NSECS"] by (simp add: t)
qed

section \<open>Concrete devices\<close>

text \<open>The register numbers of \<^verbatim>\<open>config_d/registers\<close>, and devices to run the definitions on.\<close>

definition sample_header :: reg_header where
  "sample_header = \<lparr>REG_BLOCK_BASE = 0, FPGA_VERSION = 0, FPGA_BUILD = 1, USER_VERSION = 2, BIT_READ_RST = 3,
     BIT_READ_VALUE = 4, POS_READ_RST = 5, POS_READ_VALUE = 6, POS_READ_CHANGES = 7, PCAP_START_WRITE = 8,
     PCAP_WRITE = 9, PCAP_TS_SEC = 10, PCAP_TS_TICKS = 11, PCAP_ARM = 13, PCAP_DISARM = 14,
     FPGA_CAPABILITIES = 15, MAC_ADDRESS_BASE = 16, NOMINAL_CLOCK = 24\<rparr>"

definition plain_device :: "(u32 \<Rightarrow> u32 \<Rightarrow> 's \<Rightarrow> 's) \<Rightarrow> (u32 \<Rightarrow> 's \<Rightarrow> u32 \<times> 's) \<Rightarrow> 's device" where
  "plain_device wr rd = \<lparr>dev_write = wr, dev_read = rd, stream_read = (\<lambda>n s. (Inr [], s)),
     stream_arm = (\<lambda>s. (True, s)), stream_completion = (\<lambda>s. (Inr 0, s)),
     stream_start_ts = (\<lambda>s. (Inl EAGAIN, s)), block_open = (\<lambda>s. (Inr 3, s)),
     block_config = (\<lambda>i b s. (Inr 4096, s)), block_send = (\<lambda>i r s. (Inr (), s)),
     block_nwords = (\<lambda>i s. (Inr 0, s))\<rparr>"

definition bus_device :: "(bool list \<times> bool list \<times> u32 list) device" where
  "bus_device = plain_device
     (\<lambda>offset v (vals, chg, q). (vals, chg, if offset = 3 then bus_words vals chg else q))
     (\<lambda>offset (vals, chg, q). if offset = 4 then (hd q, (vals, chg, tl q)) else (0, (vals, chg, q)))"

theorem hw_read_bits_correct_witness:
  "\<exists>s'. hw_read_bits bus_device sample_header (True # replicate 127 False, replicate 127 False @ [True], []) =
     (True # replicate 127 False, replicate 127 False @ [True], s')"
proof -
  have offsets: "make_offset 0 0 3 = 3" "make_offset 0 0 4 = 4" by code_simp+
  show ?thesis
    using hw_read_bits_correct [of "snd \<circ> snd" bus_device sample_header fst "fst \<circ> snd"
        "(True # replicate 127 False, replicate 127 False @ [True], [])"]
    by (auto simp: bus_device_def plain_device_def sample_header_def BIT_BUS_COUNT_def read_named_register_def
        hw_read_register_def write_named_register_def hw_write_register_def offsets)
qed

definition memory_device :: "(u32 \<Rightarrow> u32) device" where
  "memory_device = plain_device (\<lambda>offset v m. m(offset := v)) (\<lambda>offset m. (m offset, m))"

theorem hw_start_ts_normalised_witness:
  "\<exists>ts s3. hw_get_hw_start_ts memory_device sample_header 64 32 ((\<lambda>_. 0)(10 := 1000, 11 := 187500000)) = (True, ts, s3) \<and>
    0 \<le> tv_nsec ts \<and> tv_nsec ts < int NSECS \<and> tv_sec ts * int NSECS + tv_nsec ts = 1001500000000"
proof -
  have offsets: "make_offset 0 0 10 = 10" "make_offset 0 0 11 = 11" "make_offset 0 0 24 = 24" by code_simp+
  define m :: "u32 \<Rightarrow> u32" where "m = (\<lambda>_. 0)(10 := 1000, 11 := 187500000)"
  have "read_named_register memory_device sample_header (PCAP_TS_SEC sample_header) m = (1000, m)"
    "read_named_register memory_device sample_header (PCAP_TS_TICKS sample_header) m = (187500000, m)"
    "hw_read_nominal_clock memory_device sample_header m = (125000000, m)"
    by (simp_all add: memory_device_def plain_device_def sample_header_def read_named_register_def
        hw_read_register_def offsets m_def hw_read_nominal_clock_def NOMINAL_CLOCK_FREQUENCY_def)
  from hw_start_ts_normalised [OF this, of 32 64] show ?thesis
    by (simp add: NSECS_def m_def) blast
qed

section \<open>A configuration error that is not noticed\<close>

text \<open>
  With a 64 bit \<^verbatim>\<open>size_t\<close> the failure of the ioctl that configures a block is taken for a size of
  4294967295 bytes; with 32 bits it is reported.
\<close>

lemma long_table_config_error:
  assumes "block_open dev s = (Inr i, s1)" "\<And>b. block_config dev i b s1 = (Inl e, s2)" "\<And>n. mem n"
  shows "\<exists>data. hw_long_table_allocate dev 64 mem junk bb n br lr order nb ch s = (Inr (4294967295, data, i), s2)"
    and "hw_long_table_allocate dev 32 mem junk bb n br lr order nb ch s = (fail ''Unexpected error'', s2)"
proof -
  have "to_signed 64 4294967295 = 4294967295" "to_signed 32 4294967295 = -1"
    by (simp_all add: to_signed_def)
  moreover have "uint (- 1 :: u32) = 4294967295" "unat (- 1 :: u32) = 4294967295"
    by (simp_all add: unsigned_minus_1_eq_mask mask_eq_exp_minus_1)
  ultimately show "\<exists>data. hw_long_table_allocate dev 64 mem junk bb n br lr order nb ch s = (Inr (4294967295, data, i), s2)"
    "hw_long_table_allocate dev 32 mem junk bb n br lr order nb ch s = (fail ''Unexpected error'', s2)"
    using assms by (simp_all add: hw_long_table_allocate_def Let_def)
qed

end
