(* ===== verification/Panda_Blocks.thy ===== *)
theory Panda_Blocks
  imports Panda_Parse Panda_Hardware
begin

text \<open>
  The part of \<^verbatim>\<open>fields.c\<close> that keeps track of the register blocks: which block types are taken and
  which registers of each type have been assigned.
\<close>

definition UNASSIGNED_REGISTER :: u32 where "UNASSIGNED_REGISTER = - 1"

definition INVALID_REGISTER :: u32 where "INVALID_REGISTER = - 2"

record block_type =
  bt_used :: bool
  bt_shared :: bool
  reg_used :: "u32 list"

text \<open>The static array \<^verbatim>\<open>block_types_used\<close>, initially zero.\<close>

definition block_types_used :: "block_type list" where
  "block_types_used = replicate (unat BLOCK_TYPE_COUNT)
     \<lparr>bt_used = False, bt_shared = False, reg_used = replicate (unat BLOCK_REGISTER_COUNT div 32) 0\<rparr>"

text \<open>
  The base of a block and the table of types; the extension that may follow a space is parsed by
  \<open>parse_ext\<close> (\<^verbatim>\<open>parse_extension_block\<close>).  The block keeps its base when only the extension is wrong.
\<close>

definition claim_block_base :: "bool \<Rightarrow> u32 \<Rightarrow> block_type list \<Rightarrow> block_type list result" where
  "claim_block_base shared base types =
     and_then (test_ok (base < BLOCK_TYPE_COUNT) ''Block base too large'')
       (\<lambda>_. let t = types ! unat base in
         if bt_used t then
           and_then (test_ok (shared \<and> bt_shared t) ''Block base already assigned and not shared'')
             (\<lambda>_. Inr types)
         else Inr (types[unat base := t\<lparr>bt_shared := shared, bt_used := True\<rparr>]))"

definition parse_block_set_register ::
    "nat \<Rightarrow> (string \<Rightarrow> unit result \<times> string) \<Rightarrow> string \<Rightarrow> u32 \<Rightarrow> block_type list \<Rightarrow>
     (unit result \<times> string) \<times> u32 \<times> block_type list" where
  "parse_block_set_register lw parse_ext line block_base types =
     (if block_base \<noteq> UNASSIGNED_REGISTER then ((fail ''Register already assigned'', line), block_base, types)
      else
        (case (case read_char (CHR ''X'') line of
                 (True, line) \<Rightarrow> ((Inr (INVALID_REGISTER, types), line))
               | (False, line) \<Rightarrow>
                   (case read_char (CHR ''S'') line of (shared, line) \<Rightarrow>
                     (case parse_uint lw line of
                        (Inl e, line) \<Rightarrow> (Inl e, line)
                      | (Inr base, line) \<Rightarrow>
                          (and_then (claim_block_base shared base types) (\<lambda>types. Inr (base, types)), line)))) of
           (Inl e, line) \<Rightarrow> ((Inl e, line), block_base, types)
         | (Inr (base, types), line) \<Rightarrow>
             (case read_char (CHR '' '') line of
                (True, line) \<Rightarrow> (parse_ext line, base, types)
              | (False, line) \<Rightarrow> ((Inr (), line), base, types))))"

definition check_parse_register ::
    "nat \<Rightarrow> u32 \<Rightarrow> string \<Rightarrow> block_type list \<Rightarrow> (u32 result \<times> string) \<times> block_type list" where
  "check_parse_register lw base line types =
     (if base = INVALID_REGISTER \<or> base = UNASSIGNED_REGISTER then
        ((fail ''Cannot assign hardware register to this block'', line), types)
      else
        (case parse_uint lw line of
           (Inl e, line) \<Rightarrow> ((Inl e, line), types)
         | (Inr reg, line) \<Rightarrow>
             if \<not> reg < BLOCK_REGISTER_COUNT then ((fail ''Register value too large'', line), types)
             else
               (let bt = types ! unat base; i = unat (reg div 32); flag = push_bit (unat (reg mod 32)) (1 :: u32) in
                if reg_used bt ! i AND flag \<noteq> 0 then ((fail ''Register already in use'', line), types)
                else ((Inr reg, line),
                  types[unat base := bt\<lparr>reg_used := (reg_used bt)[i := reg_used bt ! i OR flag]\<rparr>]))))"

section \<open>No register is assigned twice\<close>

definition types_wf :: "block_type list \<Rightarrow> bool" where
  "types_wf types = (length types = 32 \<and> list_all (\<lambda>t. length (reg_used t) = 2) types)"

definition taken :: "block_type list \<Rightarrow> u32 \<Rightarrow> u32 \<Rightarrow> bool" where
  "taken types base reg = bit (reg_used (types ! unat base) ! unat (reg div 32)) (unat (reg mod 32))"

lemma BLOCK_COUNTS: "BLOCK_REGISTER_COUNT = 64" "BLOCK_TYPE_COUNT = 32"
  by (simp_all add: BLOCK_REGISTER_COUNT_def BLOCK_REGISTER_BITS_def BLOCK_TYPE_COUNT_def BLOCK_TYPE_BITS_def)

lemma initial_types: "types_wf block_types_used" "taken block_types_used base reg \<Longrightarrow> 32 \<le> base \<or> 64 \<le> reg"
proof -
  show "types_wf block_types_used" by (simp add: types_wf_def block_types_used_def BLOCK_COUNTS list_all_iff)
  assume t: "taken block_types_used base reg"
  show "32 \<le> base \<or> 64 \<le> reg"
  proof (rule ccontr)
    assume "\<not> (32 \<le> base \<or> 64 \<le> reg)"
    then have "unat base < 32" "unat reg < 64" by (simp_all add: not_le word_less_nat_alt)
    moreover from this have "unat reg div 32 < 2" by linarith
    ultimately show False using t
      by (simp add: taken_def block_types_used_def BLOCK_COUNTS unat_div_distrib)
  qed
qed

lemma single_flag: "(x AND push_bit n 1 \<noteq> 0) = bit x n" if "n < 32" for x :: u32
proof
  assume "x AND push_bit n 1 \<noteq> 0"
  then show "bit x n" by (rule contrapos_np) (rule bit_word_eqI, auto simp: bit_simps)
next
  assume "bit x n"
  then have "bit (x AND push_bit n 1) n" using that by (simp add: bit_simps)
  then show "x AND push_bit n 1 \<noteq> 0" by auto
qed

text \<open>
  What one call does: the parsed register was free and in range, and it alone becomes taken.
\<close>

lemma check_parse_register_Inr:
  assumes "check_parse_register lw base line types = ((Inr reg, rest), types')" "types_wf types" "base < 32"
  shows "reg < 64" "\<not> taken types base reg" "types_wf types'"
    "b < 32 \<Longrightarrow> r < 64 \<Longrightarrow> taken types' b r \<longleftrightarrow> taken types b r \<or> (b = base \<and> r = reg)"
proof -
  define bt i flag where "bt = types ! unat base" and "i = unat (reg div 32)"
    and "flag = push_bit (unat (reg mod 32)) (1 :: u32)"
  have c: "reg < 64" "reg_used bt ! i AND flag = 0"
      "types' = types[unat base := bt\<lparr>reg_used := (reg_used bt)[i := reg_used bt ! i OR flag]\<rparr>]"
    using assms(1) unfolding bt_def i_def flag_def
    by (auto simp: check_parse_register_def BLOCK_COUNTS Let_def fail_def split: if_splits prod.splits sum.splits)
  have b: "unat base < 32" using assms(3) by (simp add: word_less_nat_alt)
  have wf: "length types = 32" "length (reg_used bt) = 2"
    using assms(2) b by (simp_all add: types_wf_def list_all_length bt_def)
  have r: "unat reg < 64" using c(1) by (simp add: word_less_nat_alt)
  have m: "unat (x mod 32) < 32" for x :: u32 by (simp add: unat_mod_distrib)
  show "reg < 64" by (fact c(1))
  show "\<not> taken types base reg"
    using c(2) single_flag [OF m, of "reg_used bt ! i" reg] by (simp add: taken_def bt_def i_def flag_def)
  show "types_wf types'"
    using assms(2) wf b unfolding c(3) by (auto simp: types_wf_def list_all_length nth_list_update)
  have "i < 2" using r by (simp add: i_def unat_div_distrib)
  show "taken types' b r \<longleftrightarrow> taken types b r \<or> (b = base \<and> r = reg)" if "b < 32" "r < 64"
  proof (cases "b = base \<and> unat (r div 32) = i")
    case True
    have "bit flag (unat (r mod 32)) \<longleftrightarrow> unat (r mod 32) = unat (reg mod 32)"
      using m [of r] by (auto simp: flag_def bit_simps)
    also have "\<dots> \<longleftrightarrow> r = reg"
    proof
      assume a: "unat (r mod 32) = unat (reg mod 32)"
      have "unat r div 32 = unat reg div 32" using True by (simp add: i_def unat_div_distrib)
      moreover have "unat r mod 32 = unat reg mod 32" using a by (simp add: unat_mod_distrib)
      ultimately have "unat r = unat reg" by (metis div_mult_mod_eq)
      then show "r = reg" by (simp only: word_unat_eq_iff)
    qed simp
    finally show ?thesis using True b wf \<open>i < 2\<close>
      by (simp add: taken_def c(3) bit_or_iff bt_def [symmetric])
  next
    case False
    then show ?thesis
    proof (cases "b = base")
      case True
      with False have "r \<noteq> reg" by (auto simp: i_def)
      with True False b wf show ?thesis by (simp add: taken_def c(3) bt_def [symmetric])
    next
      case F: False
      then have "unat b \<noteq> unat base" by (simp add: word_unat_eq_iff)
      with F show ?thesis by (simp add: taken_def c(3))
    qed
  qed
qed


text \<open>The register assignments of a configuration, in order.\<close>

fun assign_registers :: "nat \<Rightarrow> (u32 \<times> string) list \<Rightarrow> block_type list \<Rightarrow> (u32 \<times> u32) list result" where
  "assign_registers lw [] types = Inr []"
| "assign_registers lw ((base, line) # cs) types =
     (case check_parse_register lw base line types of
        ((Inl e, _), _) \<Rightarrow> Inl e
      | ((Inr reg, _), types') \<Rightarrow> and_then (assign_registers lw cs types') (\<lambda>rs. Inr ((base, reg) # rs)))"

lemma assign_registers_fresh:
  assumes "assign_registers lw cs types = Inr rs" "types_wf types" "list_all (\<lambda>(b, _). b < 32) cs"
  shows "distinct rs \<and> (\<forall>(b, r) \<in> set rs. b < 32 \<and> r < 64 \<and> \<not> taken types b r)"
  using assms
proof (induction cs arbitrary: types rs)
  case (Cons c cs)
  obtain base line where c: "c = (base, line)" by (cases c)
  from Cons.prems(1) obtain reg rest types' rs' where
    r: "check_parse_register lw base line types = ((Inr reg, rest), types')"
    "assign_registers lw cs types' = Inr rs'" "rs = (base, reg) # rs'"
    by (auto simp: c and_then_eq_Inr split: prod.splits sum.splits)
  have b: "base < 32" using Cons.prems(3) by (simp add: c)
  note one = check_parse_register_Inr [OF r(1) Cons.prems(2) b]
  have IH: "distinct rs' \<and> (\<forall>(b, r) \<in> set rs'. b < 32 \<and> r < 64 \<and> \<not> taken types' b r)"
    using Cons.IH [OF r(2) one(3)] Cons.prems(3) by (simp add: c)
  then have "(base, reg) \<notin> set rs'" using one(4) [OF b one(1)] by auto
  moreover have "\<not> taken types b r" if "(b, r) \<in> set rs'" for b r
    using IH one(4) [of b r] that by auto
  ultimately show ?case using IH one(1,2) b by (auto simp: r(3))
qed auto

text \<open>
  C38: whatever the configuration, the registers that are accepted have distinct hardware addresses
  in each instance, also between blocks that share a base.
\<close>

theorem assigned_registers_distinct:
  assumes "assign_registers lw cs block_types_used = Inr rs" "list_all (\<lambda>(b, _). b < BLOCK_TYPE_COUNT) cs"
  shows "distinct (map (\<lambda>(b, r). make_offset b n r) rs)"
proof -
  have d: "distinct rs \<and> (\<forall>(b, r) \<in> set rs. b < 32 \<and> r < 64 \<and> \<not> taken block_types_used b r)"
    using assign_registers_fresh [OF assms(1) initial_types(1)] assms(2) by (simp add: BLOCK_COUNTS)
  have "inj_on (\<lambda>(b, r). make_offset b n r) (set rs)"
  proof (rule inj_onI, clarify)
    fix b r b' r' assume m: "(b, r) \<in> set rs" "(b', r') \<in> set rs" "make_offset b n r = make_offset b' n r'"
    have "b < 32" "r < 64" "b' < 32" "r' < 64" using d m(1,2) by blast+
    then have "b mod 32 = b" "b' mod 32 = b'" "r mod 64 = r" "r' mod 64 = r'"
      by (simp_all add: word_unat_eq_iff unat_mod_distrib word_less_nat_alt)
    with make_offset_eq_iff [of b n r b' n r'] m(3) show "b = b' \<and> r = r'" by simp
  qed
  with d show ?thesis by (simp add: distinct_map)
qed


theorem assigned_registers_distinct_witness:
  "distinct (map (\<lambda>(b, r). make_offset b 1 r) [(5, 0), (5, 63), (6, 0 :: u32)])"
proof -
  have num: "parse_uint 32 ''0'' = (Inr 0, [])" "parse_uint 32 ''63'' = (Inr 63, [])"
  proof -
    have "show_base 10 0 = ''0''" "show_base 10 63 = ''63''" "ends_token []" by code_simp+
    then show "parse_uint 32 ''0'' = (Inr 0, [])" "parse_uint 32 ''63'' = (Inr 63, [])"
      using parse_num_strtoul_show [of "[]" 32 "word_of_nat :: nat \<Rightarrow> u32" 0]
        parse_num_strtoul_show [of "[]" 32 "word_of_nat :: nat \<Rightarrow> u32" 63]
      by (simp_all add: parse_uint_def)
  qed
  have "assign_registers 32 [(5, ''0''), (5, ''63''), (6, ''0'')] block_types_used = Inr [(5, 0), (5, 63), (6, 0)]"
    by (simp add: num check_parse_register_def BLOCK_COUNTS block_types_used_def Let_def
        INVALID_REGISTER_def UNASSIGNED_REGISTER_def nth_list_update)
  from assigned_registers_distinct [OF this, of 1] show ?thesis by (simp add: BLOCK_COUNTS)
qed

end
