(* ===== verification/Panda_Changes.thy ===== *)
theory Panda_Changes
  imports Panda_Prelude
begin

text \<open>
  Change sets: the global change index and the reports of each connection (\<^verbatim>\<open>config_server.c\<close>), and
  the attributes of fields with their change index (\<^verbatim>\<open>attributes.c\<close>).
\<close>

definition MAX_NAME_LENGTH :: nat where "MAX_NAME_LENGTH = 32"

definition MAX_RESULT_LENGTH :: nat where "MAX_RESULT_LENGTH = 256"

datatype change_set_index =
  CHANGE_IX_CONFIG | CHANGE_IX_BITS | CHANGE_IX_POSITION | CHANGE_IX_READ | CHANGE_IX_ATTR |
  CHANGE_IX_TABLE | CHANGE_IX_METADATA

definition CHANGE_SET_SIZE :: nat where "CHANGE_SET_SIZE = 7"

definition CHANGES_ALL :: u32 where "CHANGES_ALL = push_bit CHANGE_SET_SIZE 1 - 1"

text \<open>
  The global index is passed as a value.  A connection has one index for each change set.
\<close>

definition get_change_index :: "u64 \<Rightarrow> u64 \<times> u64" where
  "get_change_index global_change_index =
     (global_change_index + 1, global_change_index + 1)"

definition update_change_index ::
    "u64 list \<Rightarrow> u32 \<Rightarrow> u64 \<Rightarrow> u64 \<times> u64 list \<times> u64 list \<times> u64" where
  "update_change_index ctxt change_set gci =
     (let (change_index, gci) = get_change_index gci;
          selected = (\<lambda>i. change_set AND push_bit i 1 \<noteq> 0) in
      (change_index,
       map (\<lambda>i. if selected i then change_index else ctxt ! i) [0..<CHANGE_SET_SIZE],
       map (\<lambda>i. if selected i then ctxt ! i else - 1) [0..<CHANGE_SET_SIZE],
       gci))"

definition reset_change_index :: "u64 list \<Rightarrow> u32 \<Rightarrow> u64 list" where
  "reset_change_index ctxt change_set =
     map (\<lambda>i. if change_set AND push_bit i 1 \<noteq> 0 then 0 else ctxt ! i) [0..<CHANGE_SET_SIZE]"

section \<open>Attributes\<close>

text \<open>
  The methods of an attribute act on the state \<open>'d\<close> of its owner.  \<^verbatim>\<open>format\<close> returns its status and
  what it has written into the buffer; \<^verbatim>\<open>put\<close> may take change indices of its own.
\<close>

record 'd attr_methods =
  am_name :: string
  am_description :: string
  am_format :: "('d \<Rightarrow> u32 \<Rightarrow> nat \<Rightarrow> unit result \<times> string) option"
  am_get_many :: "('d \<Rightarrow> u32 \<Rightarrow> unit result \<times> string list) option"
  am_put :: "('d \<Rightarrow> u32 \<Rightarrow> string \<Rightarrow> u64 \<Rightarrow> unit result \<times> 'd \<times> u64) option"
  am_in_change_set :: bool
  am_polled_change_set :: bool

record 'd attr =
  at_methods :: "'d attr_methods"
  at_count :: nat
  at_update_index :: "u64 list"
  at_last_values :: "string list"

datatype response = RESPONSE_ONE string | RESPONSE_MANY "string list"

definition attr_get :: "'d attr \<Rightarrow> 'd \<Rightarrow> u32 \<Rightarrow> nat \<Rightarrow> response result" where
  "attr_get attr d number len =
     (case am_format (at_methods attr) of
        Some format \<Rightarrow> (case format d number len of
            (Inl e, _) \<Rightarrow> Inl e | (Inr _, string) \<Rightarrow> Inr (RESPONSE_ONE string))
      | None \<Rightarrow> (case am_get_many (at_methods attr) of
            Some get_many \<Rightarrow> (case get_many d number of
                (Inl e, _) \<Rightarrow> Inl e | (Inr _, strings) \<Rightarrow> Inr (RESPONSE_MANY strings))
          | None \<Rightarrow> fail ''Attribute not readable''))"

definition attr_changed :: "'d attr \<Rightarrow> nat \<Rightarrow> u64 \<Rightarrow> 'd attr \<times> u64" where
  "attr_changed attr number gci =
     (let (ix, gci) = get_change_index gci in
      (attr\<lparr>at_update_index := (at_update_index attr)[number := ix]\<rparr>, gci))"

definition attr_put :: "'d attr \<Rightarrow> 'd \<Rightarrow> u32 \<Rightarrow> string \<Rightarrow> u64 \<Rightarrow> unit result \<times> 'd \<times> 'd attr \<times> u64" where
  "attr_put attr d number val gci =
     (case am_put (at_methods attr) of
        None \<Rightarrow> (fail ''Attribute not writeable'', d, attr, gci)
      | Some put \<Rightarrow>
          (case put d number val gci of
             (Inl e, d, gci) \<Rightarrow> (Inl e, d, attr, gci)
           | (Inr _, d, gci) \<Rightarrow>
               (case attr_changed attr (unat number) gci of (attr, gci) \<Rightarrow> (Inr (), d, attr, gci))))"

text \<open>One turn of the loop: poll the value of an instance if the attribute asks for it.\<close>

definition poll_attr :: "'d attr \<Rightarrow> 'd \<Rightarrow> u64 \<Rightarrow> nat \<Rightarrow> 'd attr" where
  "poll_attr attr d report_index i =
     (case am_format (at_methods attr) of
        None \<Rightarrow> attr
      | Some format \<Rightarrow>
          (if am_polled_change_set (at_methods attr) then
             (let string = snd (format d (word_of_nat i) MAX_RESULT_LENGTH) in
              if string \<noteq> at_last_values attr ! i then
                attr\<lparr>at_update_index := (at_update_index attr)[i := report_index + 1],
                     at_last_values := (at_last_values attr)[i := string]\<rparr>
              else attr)
           else attr))"

fun attr_change_loop :: "nat list \<Rightarrow> 'd attr \<Rightarrow> 'd \<Rightarrow> u64 \<Rightarrow> bool list \<times> 'd attr" where
  "attr_change_loop [] attr d report_index = ([], attr)"
| "attr_change_loop (i # is) attr d report_index =
     (let attr = poll_attr attr d report_index i;
          change = ((am_in_change_set (at_methods attr) \<or> am_polled_change_set (at_methods attr)) \<and>
             at_update_index attr ! i > report_index);
          (changes, attr) = attr_change_loop is attr d report_index in
      (change # changes, attr))"

definition get_attr_change_set :: "'d attr \<Rightarrow> 'd \<Rightarrow> u64 \<Rightarrow> bool list \<times> 'd attr" where
  "get_attr_change_set attr d report_index = attr_change_loop [0..<at_count attr] attr d report_index"

definition create_attribute :: "'d attr_methods \<Rightarrow> nat \<Rightarrow> 'd attr" where
  "create_attribute methods count =
     \<lparr>at_methods = methods, at_count = count, at_update_index = replicate count 1,
      at_last_values = (if am_polled_change_set methods then replicate count [] else [])\<rparr>"

section \<open>No change is lost\<close>

text \<open>
  The interleaving of one writer of a value, one connection that asks for changes, and everything
  else that takes change indices.  The writer holds the lock of the value while it takes an index
  and stores it; the connection refreshes its indices first and then reads the index of the value
  under the lock.  \<open>cs_dirty\<close> is a ghost variable: the value has changed (or has never been reported)
  since the connection last read it.
\<close>

datatype writer = W_Idle | W_Locked | W_Indexed u64

datatype poller = P_Idle | P_Refreshed u64

record change_sys =
  cs_global :: u64
  cs_update :: u64
  cs_context :: "u64 list"
  cs_writer :: writer
  cs_poller :: poller
  cs_dirty :: bool

definition selects :: "u32 \<Rightarrow> nat \<Rightarrow> bool" where
  "selects change_set k = (change_set AND push_bit k 1 \<noteq> 0)"

inductive change_step :: "nat \<Rightarrow> change_sys \<Rightarrow> change_sys \<Rightarrow> bool" for k where
  lock: "cs_writer s = W_Idle \<Longrightarrow> change_step k s (s\<lparr>cs_writer := W_Locked\<rparr>)"
| index: "cs_writer s = W_Locked \<Longrightarrow> cs_global s < - 1 \<Longrightarrow> get_change_index (cs_global s) = (ix, gci) \<Longrightarrow>
    change_step k s (s\<lparr>cs_writer := W_Indexed ix, cs_global := gci\<rparr>)"
| store: "cs_writer s = W_Indexed ix \<Longrightarrow>
    change_step k s (s\<lparr>cs_update := ix, cs_dirty := True, cs_writer := W_Idle\<rparr>)"
| other: "cs_global s < - 1 \<Longrightarrow> get_change_index (cs_global s) = (ix, gci) \<Longrightarrow>
    change_step k s (s\<lparr>cs_global := gci\<rparr>)"
| refresh: "cs_poller s = P_Idle \<Longrightarrow> cs_global s < - 1 \<Longrightarrow> selects cset k \<Longrightarrow>
    update_change_index (cs_context s) cset (cs_global s) = (ix, ctxt, reported, gci) \<Longrightarrow>
    change_step k s (s\<lparr>cs_poller := P_Refreshed (reported ! k), cs_context := ctxt, cs_global := gci\<rparr>)"
| refresh_other: "cs_poller s = P_Idle \<Longrightarrow> cs_global s < - 1 \<Longrightarrow> \<not> selects cset k \<Longrightarrow>
    update_change_index (cs_context s) cset (cs_global s) = (ix, ctxt, reported, gci) \<Longrightarrow>
    change_step k s (s\<lparr>cs_context := ctxt, cs_global := gci\<rparr>)"
| report: "cs_poller s = P_Refreshed r \<Longrightarrow> cs_writer s = W_Idle \<Longrightarrow>
    change_step k s (s\<lparr>cs_poller := P_Idle, cs_dirty := False\<rparr>)"

definition change_start :: change_sys where
  "change_start = \<lparr>cs_global = 0, cs_update = 1, cs_context = replicate CHANGE_SET_SIZE 0,
     cs_writer = W_Idle, cs_poller = P_Idle, cs_dirty = True\<rparr>"

text \<open>The index that a change must exceed to be reported next.\<close>

definition baseline :: "nat \<Rightarrow> change_sys \<Rightarrow> u64" where
  "baseline k s = (case cs_poller s of P_Idle \<Rightarrow> cs_context s ! k | P_Refreshed r \<Rightarrow> r)"

definition change_inv :: "nat \<Rightarrow> change_sys \<Rightarrow> bool" where
  "change_inv k s =
     (length (cs_context s) = CHANGE_SET_SIZE \<and> cs_context s ! k \<le> cs_global s \<and>
      baseline k s \<le> cs_context s ! k \<and>
      (cs_dirty s \<longrightarrow> baseline k s < cs_update s) \<and>
      (case cs_writer s of W_Indexed ix \<Rightarrow> baseline k s < ix | _ \<Rightarrow> True))"

lemma update_change_index_entry:
  assumes "update_change_index ctxt cset gci = (ix, ctxt', reported, gci')" "k < CHANGE_SET_SIZE"
  shows "ix = gci + 1" "gci' = gci + 1" "length ctxt' = CHANGE_SET_SIZE"
    "ctxt' ! k = (if selects cset k then gci + 1 else ctxt ! k)"
    "reported ! k = (if selects cset k then ctxt ! k else - 1)"
  using assms by (auto simp: update_change_index_def get_change_index_def selects_def Let_def)

lemma index_advances: "g < - 1 \<Longrightarrow> (x :: u64) \<le> g \<Longrightarrow> x < g + 1"
  by (simp add: word_le_nat_alt word_less_nat_alt unat_word_ariths unsigned_minus_1_eq_mask mask_eq_exp_minus_1)

lemma change_inv_step:
  assumes "change_step k s s'" "change_inv k s" "k < CHANGE_SET_SIZE"
  shows "change_inv k s'"
  using assms
proof (induction rule: change_step.induct)
  case (index s ix gci)
  then have "ix = cs_global s + 1" "gci = cs_global s + 1" by (auto simp: get_change_index_def)
  with index index_advances show ?case by (auto simp: change_inv_def baseline_def intro: less_imp_le le_less_trans split: poller.splits)
next
  case (other s ix gci)
  then have "gci = cs_global s + 1" by (auto simp: get_change_index_def)
  with other index_advances show ?case by (auto simp: change_inv_def baseline_def intro: less_imp_le split: poller.splits writer.splits)
next
  case (refresh s cset ix ctxt reported gci)
  note e = update_change_index_entry [OF refresh(4) refresh(6)]
  from refresh(2) index_advances [of "cs_global s"] have "cs_context s ! k \<le> cs_global s \<Longrightarrow> cs_context s ! k \<le> cs_global s + 1"
    by (meson less_imp_le order_refl order_trans)
  with refresh(1,3,5) e show ?case by (auto simp: change_inv_def baseline_def split: writer.splits)
next
  case (refresh_other s cset ix ctxt reported gci)
  note e = update_change_index_entry [OF refresh_other(4) refresh_other(6)]
  from refresh_other(2) index_advances [of "cs_global s"] have "cs_context s ! k \<le> cs_global s \<Longrightarrow> cs_context s ! k \<le> cs_global s + 1"
    by (meson less_imp_le order_refl order_trans)
  with refresh_other(1,3,5) e show ?case by (auto simp: change_inv_def baseline_def split: writer.splits)
qed (auto simp: change_inv_def baseline_def split: poller.splits writer.splits)


lemma first_poll_run:
  "(change_step 0)\<^sup>*\<^sup>* change_start
     (change_start\<lparr>cs_poller := P_Refreshed 0, cs_context := [1, 0, 0, 0, 0, 0, 0], cs_global := 1\<rparr>)"
proof -
  have "update_change_index (cs_context change_start) 1 (cs_global change_start) =
      (1, [1, 0, 0, 0, 0, 0, 0], [0, -1, -1, -1, -1, -1, -1], 1)"
    by (simp add: change_start_def update_change_index_def get_change_index_def CHANGE_SET_SIZE_def upt_rec numeral_eq_Suc)
  moreover have "(0 :: u64) < - 1" unfolding word_neq_0_conv [symmetric] by simp
  ultimately show ?thesis using refresh [of change_start 1 0]
    by (intro r_into_rtranclp) (simp add: change_start_def selects_def)
qed


section \<open>Polled attributes\<close>

definition polled_attr :: "'d attr \<Rightarrow> ('d \<Rightarrow> u32 \<Rightarrow> nat \<Rightarrow> unit result \<times> string) \<Rightarrow> bool" where
  "polled_attr attr fmt =
     (am_polled_change_set (at_methods attr) \<and> am_format (at_methods attr) = Some fmt \<and>
      length (at_update_index attr) = at_count attr \<and> length (at_last_values attr) = at_count attr)"

definition polled_text :: "('d \<Rightarrow> u32 \<Rightarrow> nat \<Rightarrow> unit result \<times> string) \<Rightarrow> 'd \<Rightarrow> nat \<Rightarrow> string" where
  "polled_text fmt d i = snd (fmt d (word_of_nat i) MAX_RESULT_LENGTH)"

lemma poll_attr_polled:
  assumes "polled_attr attr fmt" "i < at_count attr"
  shows "polled_attr (poll_attr attr d r i) fmt" "at_count (poll_attr attr d r i) = at_count attr"
    "at_methods (poll_attr attr d r i) = at_methods attr"
    "at_last_values (poll_attr attr d r i) = (at_last_values attr)[i := polled_text fmt d i]"
    "at_update_index (poll_attr attr d r i) =
       (if polled_text fmt d i \<noteq> at_last_values attr ! i then (at_update_index attr)[i := r + 1]
        else at_update_index attr)"
  using assms by (auto simp: polled_attr_def poll_attr_def polled_text_def Let_def)

lemma attr_change_loop_polled:
  assumes "polled_attr attr fmt" "distinct is" "set is \<subseteq> {..<at_count attr}" "attr_change_loop is attr d r = (ch, attr')"
  shows "polled_attr attr' fmt \<and> at_count attr' = at_count attr \<and>
    ch = map (\<lambda>i. if polled_text fmt d i \<noteq> at_last_values attr ! i then r < r + 1 else r < at_update_index attr ! i) is \<and>
    (\<forall>i < at_count attr. at_last_values attr' ! i = (if i \<in> set is then polled_text fmt d i else at_last_values attr ! i) \<and>
      at_update_index attr' ! i =
        (if i \<in> set is \<and> polled_text fmt d i \<noteq> at_last_values attr ! i then r + 1 else at_update_index attr ! i))"
  using assms
proof (induction "is" arbitrary: attr ch)
  case (Cons i "is")
  define a1 where "a1 = poll_attr attr d r i"
  have i: "i < at_count attr" using Cons.prems(3) by simp
  note p = poll_attr_polled [OF Cons.prems(1) i, of d r, folded a1_def]
  obtain ch' where l: "attr_change_loop is a1 d r = (ch', attr')" and
    ch: "ch = (r < at_update_index a1 ! i) # ch'"
    using Cons.prems(1,4) p(3) by (auto simp: a1_def [symmetric] Let_def polled_attr_def split: prod.splits)
  note IH = Cons.IH [OF p(1) _ _ l]
  have len: "length (at_update_index attr) = at_count attr" "length (at_last_values attr) = at_count attr"
    using Cons.prems(1) by (simp_all add: polled_attr_def)
  have other: "at_last_values a1 ! j = at_last_values attr ! j" "at_update_index a1 ! j = at_update_index attr ! j"
    if "j \<noteq> i" for j using that by (simp_all add: p)
  have ne: "j \<noteq> i" if "j \<in> set is" for j using that Cons.prems(2) by auto
  have "ch' = map (\<lambda>i. if polled_text fmt d i \<noteq> at_last_values attr ! i then r < r + 1 else r < at_update_index attr ! i) is"
    using IH Cons.prems(2,3) p(2) by (auto simp: other ne)
  moreover have here: "at_last_values a1 ! i = polled_text fmt d i" "at_update_index a1 ! i =
      (if polled_text fmt d i \<noteq> at_last_values attr ! i then r + 1 else at_update_index attr ! i)"
    using i len by (auto simp: p)
  moreover have "at_last_values attr' ! j = (if j \<in> set (i # is) then polled_text fmt d j else at_last_values attr ! j) \<and>
      at_update_index attr' ! j =
        (if j \<in> set (i # is) \<and> polled_text fmt d j \<noteq> at_last_values attr ! j then r + 1 else at_update_index attr ! j)"
    if "j < at_count attr" for j
  proof (cases "j = i")
    case True
    have "i \<notin> set is" using Cons.prems(2) by simp
    with True show ?thesis using IH Cons.prems(2,3) p(2) i here
      by simp
  next
    case False
    with that show ?thesis using IH Cons.prems(2,3) p(2) other [OF False] by simp
  qed
  ultimately show ?case using IH Cons.prems(2,3) p(2) ch by simp
qed auto

lemma get_attr_change_set_polled:
  assumes "polled_attr attr fmt" "get_attr_change_set attr d r = (ch, attr')"
  shows "polled_attr attr' fmt \<and> at_count attr' = at_count attr \<and>
    ch = map (\<lambda>i. if polled_text fmt d i \<noteq> at_last_values attr ! i then r < r + 1 else r < at_update_index attr ! i)
      [0..<at_count attr] \<and>
    (\<forall>i < at_count attr. at_last_values attr' ! i = polled_text fmt d i \<and>
      at_update_index attr' ! i =
        (if polled_text fmt d i \<noteq> at_last_values attr ! i then r + 1 else at_update_index attr ! i))"
proof -
  have "set [0..<at_count attr] \<subseteq> {..<at_count attr}" by auto
  from attr_change_loop_polled [OF assms(1) distinct_upt this assms(2) [unfolded get_attr_change_set_def]]
  show ?thesis by simp
qed

text \<open>
  For a connection that has no report outstanding, a request for changes reports exactly the
  polled attributes whose text differs from the last one polled, and leaves no report outstanding
  for any later index of the connection.
\<close>

theorem polled_changes_reported:
  assumes "polled_attr attr fmt" "\<forall>i < at_count attr. at_update_index attr ! i \<le> report_index" "report_index < - 1"
    and "get_attr_change_set attr d report_index = (changes, attr')"
  shows "changes = map (\<lambda>i. polled_text fmt d i \<noteq> at_last_values attr ! i) [0..<at_count attr] \<and>
    (\<forall>i < at_count attr. at_last_values attr' ! i = polled_text fmt d i \<and> at_update_index attr' ! i \<le> report_index + 1)"
proof -
  have r: "report_index < report_index + 1" using assms(3) by (rule index_advances) simp
  note L = get_attr_change_set_polled [OF assms(1,4)]
  have "changes = map (\<lambda>i. polled_text fmt d i \<noteq> at_last_values attr ! i) [0..<at_count attr]"
    using L assms(2) r by (auto simp: not_le [symmetric])
  moreover have "at_update_index attr ! i \<le> report_index + 1" if "i < at_count attr" for i
    using assms(2) that r by (meson less_imp_le order_trans)
  ultimately show ?thesis using L by auto
qed

text \<open>
  The last text is shared between connections: what one connection has polled is not reported to
  another one that polled later the time before.
\<close>

lemma polled_change_lost:
  assumes "polled_attr attr fmt" "\<forall>i < at_count attr. at_update_index attr ! i \<le> r2" "r1 < r2"
    and "get_attr_change_set attr d r1 = (changes1, attr1)" "get_attr_change_set attr1 d r2 = (changes2, attr2)"
  shows "changes2 = replicate (at_count attr) False"
proof -
  note L1 = get_attr_change_set_polled [OF assms(1,4)]
  then have p1: "polled_attr attr1 fmt" "at_count attr1 = at_count attr" by auto
  note L2 = get_attr_change_set_polled [OF p1(1) assms(5)]
  have "r1 + 1 \<le> r2" using assms(3) by (rule inc_le)
  then have "\<not> r2 < at_update_index attr1 ! i" "at_last_values attr1 ! i = polled_text fmt d i" if "i < at_count attr" for i
    using L1 assms(2) that by (auto simp: not_less)
  with L2 p1(2) show ?thesis by (auto intro!: nth_equalityI)
qed

definition queue_attr :: "nat attr" where
  "queue_attr = \<lparr>at_methods = \<lparr>am_name = ''QUEUED_LINES'', am_description = '''',
      am_format = Some (\<lambda>n i len. (Inr (), replicate n CHR ''1'')), am_get_many = None, am_put = None,
      am_in_change_set = False, am_polled_change_set = True\<rparr>,
    at_count = 1, at_update_index = [5], at_last_values = [''11'']\<rparr>"

theorem polled_changes_reported_witness:
  "\<exists>attr'. get_attr_change_set queue_attr 3 7 = ([True], attr') \<and> at_last_values attr' ! 0 = ''111'' \<and>
    at_update_index attr' ! 0 \<le> 8"
proof -
  obtain ch attr' where run: "get_attr_change_set queue_attr 3 7 = (ch, attr')" by (cases "get_attr_change_set queue_attr 3 7")
  define fmt :: "nat \<Rightarrow> u32 \<Rightarrow> nat \<Rightarrow> unit result \<times> string" where "fmt = (\<lambda>n i len. (Inr (), replicate n CHR ''1''))"
  have "polled_attr queue_attr fmt" "\<forall>i < at_count queue_attr. at_update_index queue_attr ! i \<le> 7" "(7 :: u64) < - 1"
    by (simp_all add: polled_attr_def queue_attr_def fmt_def word_less_nat_alt unsigned_minus_1_eq_mask mask_eq_exp_minus_1)
  from polled_changes_reported [OF this run] run show ?thesis
    by (simp add: queue_attr_def polled_text_def fmt_def numeral_eq_Suc)
qed

end
