(* ===== verification/Panda_Format.thy ===== *)
theory Panda_Format
  imports Panda_Parse
begin

text \<open>
  The conversions \<^verbatim>\<open>%u\<close>, \<^verbatim>\<open>%d\<close> and \<^verbatim>\<open>0x%08X\<close> of \<^verbatim>\<open>printf\<close>, and what the parsing functions read back.
\<close>

definition show_u32 :: "u32 \<Rightarrow> string" where
  "show_u32 x = show_base 10 (unat x)"

definition show_int :: "u32 \<Rightarrow> string" where
  "show_int x = (if sint x < 0 then CHR ''-'' # show_base 10 (nat (- sint x)) else show_base 10 (nat (sint x)))"

definition hex_digit :: "nat \<Rightarrow> char" where
  "hex_digit d = (if d < 10 then char_of (48 + d) else char_of (55 + d))"

definition show_hex8 :: "u32 \<Rightarrow> string" where
  "show_hex8 x = ''0x'' @ map (\<lambda>i. hex_digit (unat (drop_bit (4 * (7 - i)) x AND 0xF))) [0..<8]"

lemma parse_uint_shown:
  "ends_token t \<Longrightarrow> 32 \<le> lw \<Longrightarrow> parse_uint32 lw (show_u32 x @ t) = (Inr x, t)"
proof -
  assume a: "ends_token t" "32 \<le> lw"
  have "unat x < 2 ^ 32" using unsigned_less [of x, where ?'a = nat] by simp
  moreover have "(2 :: nat) ^ 32 \<le> 2 ^ lw" by (rule power_increasing [OF a(2)]) simp
  ultimately have "unat x < 2 ^ lw" by linarith
  with a show ?thesis by (simp add: parse_uint32_def show_u32_def parse_num_strtoul_show)
qed

lemma length_show_base: "0 < k \<Longrightarrow> n < 10 ^ k \<Longrightarrow> length (show_base 10 n) \<le> k"
proof (induction k arbitrary: n)
  case (Suc k)
  show ?case
  proof (cases "n < 10")
    case False
    then have "0 < k" using Suc.prems by (cases k) simp_all
    moreover have "n div 10 < 10 ^ k" using Suc.prems by (simp add: less_mult_imp_div_less mult.commute)
    ultimately have "length (show_base 10 (n div 10)) \<le> k" by (rule Suc.IH)
    with False show ?thesis by (simp add: show_base.simps [of 10 n])
  qed (simp add: show_base.simps [of 10 n])
qed simp

lemma parse_uint_literal:
  "ends_token t \<Longrightarrow> show_base 10 n = ds \<Longrightarrow> n < 2 ^ 32 \<Longrightarrow> parse_uint 32 (ds @ t) = (Inr (word_of_nat n), t)"
  using parse_num_strtoul_show [of t 32 "word_of_nat :: nat \<Rightarrow> u32" n] by (simp add: parse_uint_def)

lemma length_show_u32: "length (show_u32 x) \<le> 10"
proof -
  have "unat x < 10 ^ 10" using unsigned_less [of x, where ?'a = nat] by simp
  then show ?thesis unfolding show_u32_def by (intro length_show_base) simp_all
qed

lemma length_show_int: "length (show_int x) \<le> 11"
proof -
  have "- (2 ^ 31) \<le> sint x" "sint x < 2 ^ 31" using sint_range_size [of x] by (simp_all add: word_size)
  then have "nat (- sint x) < 10 ^ 10" "nat (sint x) < 10 ^ 10" by simp_all
  then have "length (show_base 10 (nat (- sint x))) \<le> 10" "length (show_base 10 (nat (sint x))) \<le> 10"
    by (auto intro: length_show_base)
  then show ?thesis by (simp add: show_int_def)
qed

lemma length_show_hex8 [simp]: "length (show_hex8 x) = 10"
  by (simp add: show_hex8_def)

lemma parse_int_shown:
  assumes "32 \<le> lw"
  shows "parse_int lw (show_int x) = (Inr x, [])"
proof -
  have b: "- (2 ^ 31) \<le> sint x" "sint x < 2 ^ 31" using sint_range_size [of x] by (simp_all add: word_size)
  have "(2 :: int) ^ 31 \<le> 2 ^ (lw - 1)" using assms by (intro power_increasing) simp_all
  then have l: "- sint x \<le> 2 ^ (lw - 1)" "sint x < 2 ^ (lw - 1)" using b by linarith+
  have e: "ends_token []" by (simp add: ends_token_def)
  have m: "read_magnitude (show_base 10 n) = Some (n, [])" for n using read_magnitude_show [OF e, of n] by simp
  have s: "skip_space (show_base 10 n) = show_base 10 n" "read_sign (show_base 10 n) = (False, show_base 10 n)"
      "show_base 10 n \<noteq> []" for n using show_base_start(1,2) [of n "[]"] show_base_start(3) [of n] by simp_all
  show ?thesis
  proof (cases "sint x < 0")
    case True
    have "\<not> is_space (CHR ''-'')" by code_simp
    then have "strtol lw (show_int x) = (sint x, False, [])"
      using True l(1) m by (simp add: strtol_def show_int_def read_sign_def)
    then show ?thesis by (simp add: parse_int_def parse_num_def check_number_def show_int_def True)
  next
    case False
    have "nat (sint x) < 2 ^ (lw - 1)" using False l(2) by (simp add: nat_less_iff)
    then have "strtol lw (show_int x) = (sint x, False, [])"
      using False m s by (simp add: strtol_def show_int_def)
    then show ?thesis using s(3) by (simp add: parse_int_def parse_num_def check_number_def show_int_def False)
  qed
qed

end
