(* ===== verification/Panda_Table.thy ===== *)
theory Panda_Table
  imports Panda_Base64 Panda_Enums Panda_Blocks Panda_Changes Panda_Format
begin

text \<open>
  \<^verbatim>\<open>table.c\<close>: the fields of a table row, the double buffered writing of tables, the mode of each
  table and the readout, over the hardware tables of \<^verbatim>\<open>hardware.c\<close>.
\<close>

definition BASE64_LINE_BYTES :: nat where "BASE64_LINE_BYTES = 48"

definition TABLE_INITIAL_CAPACITY :: nat where "TABLE_INITIAL_CAPACITY = 4"

section \<open>Field sets\<close>

record (overloaded) 'w table_subfield =
  sf_left :: u32
  sf_right :: u32
  sf_field_name :: string
  sf_subtype :: string
  sf_enums :: "('w::len) enumeration option"
  sf_description :: "string option"

text \<open>
  A pointer to a field in the hash table is one more than the index of the field in the ordered
  list, and \<^verbatim>\<open>NULL\<close> is zero.
\<close>

record (overloaded) 'w field_set =
  fs_fields :: "('w::len, string, nat) hash_table"
  fs_capacity :: nat
  fs_ordered_fields :: "'w table_subfield list"
  fs_row_words :: u32
  fs_used_bits :: "bool list"

fun claim_bits :: "nat list \<Rightarrow> bool list \<Rightarrow> unit result \<times> bool list" where
  "claim_bits [] bits = (Inr (), bits)"
| "claim_bits (i # is) bits =
     (if bits ! i then (fail ''Bit field overlaps'', bits[i := True]) else claim_bits is (bits[i := True]))"

definition check_field_range :: "'w::len field_set \<Rightarrow> u32 \<Rightarrow> u32 \<Rightarrow> unit result \<times> 'w field_set" where
  "check_field_range fs left right =
     (let row_bits = 32 * fs_row_words fs in
      case and_then (test_ok (left \<ge> right) ''Invalid ordering of bit field'')
             (\<lambda>_. test_ok (left < row_bits) ''Bit field extends outside row'') of
        Inl e \<Rightarrow> (Inl e, fs)
      | Inr _ \<Rightarrow> (case claim_bits [unat right..<Suc (unat left)] (fs_used_bits fs) of
                   (r, bits) \<Rightarrow> (r, fs\<lparr>fs_used_bits := bits\<rparr>)))"

definition get_table_subfield_enumeration :: "'w::len table_subfield \<Rightarrow> 'w enumeration option" where
  "get_table_subfield_enumeration subfield = sf_enums subfield"

definition get_table_subfield_description :: "'w::len table_subfield \<Rightarrow> string option" where
  "get_table_subfield_description subfield = sf_description subfield"

text \<open>
  The parsers of the lines below a table: the attributes of the field set, the labels of the
  enumeration of a field, and the descriptions.
\<close>

datatype table_context = Field_Set | Field_Enum nat

datatype table_line = Field_Set_Parse_Attribute | Enum_Add_Label | Table_Parse_Description

type_synonym table_parser = "(table_context, table_line, unit) indent_parser"

definition add_new_field ::
    "'w::len field_set \<Rightarrow> u32 \<Rightarrow> u32 \<Rightarrow> string \<Rightarrow> string \<Rightarrow>
     (unit result \<times> 'w field_set \<times> table_parser) option" where
  "add_new_field fs left right field_name subtype =
     (let count = length (fs_ordered_fields fs);
          field = \<lparr>sf_left = left, sf_right = right, sf_field_name = field_name, sf_subtype = subtype,
             sf_enums = (if subtype = ''enum'' then Some create_dynamic_enumeration else None),
             sf_description = None\<rparr>;
          capacity = (if count \<ge> fs_capacity fs
             then (if fs_capacity fs > 0 then 2 * fs_capacity fs else TABLE_INITIAL_CAPACITY) else fs_capacity fs);
          fs = fs\<lparr>fs_capacity := capacity, fs_ordered_fields := fs_ordered_fields fs @ [field]\<rparr>;
          parser = (if subtype = ''enum''
             then \<lparr>ctxt = Some (Field_Enum count), parse_line = Some Enum_Add_Label, end_method = None\<rparr>
             else empty_parser) in
      map_option (\<lambda>(fields, old). (test_ok (old = 0) ''Duplicate table field'', fs\<lparr>fs_fields := fields\<rparr>, parser))
        (hash_table_insert (fs_fields fs) field_name (count + 1)))"

definition validate_subtype :: "string \<Rightarrow> unit result" where
  "validate_subtype subtype =
     (if subtype \<in> set [''uint'', ''int'', ''enum''] then Inr () else fail ''Invalid table field subtype'')"

definition parse_field_line :: "nat \<Rightarrow> (u32 \<times> u32 \<times> string \<times> string) parser" where
  "parse_field_line lw =
     p_then (parse_uint lw) (\<lambda>left.
     p_then (parse_char (CHR '':'')) (\<lambda>_.
     p_then (parse_uint lw) (\<lambda>right.
     p_then parse_whitespace (\<lambda>_.
     p_then (parse_alphanum_name MAX_NAME_LENGTH) (\<lambda>field_name.
     p_then (\<lambda>line. p_if (peek line = CHR '' '')
         (p_then parse_whitespace (\<lambda>_.
          p_then (parse_name MAX_NAME_LENGTH) (\<lambda>subtype.
          p_then (p_lift (validate_subtype subtype)) (\<lambda>_. p_return subtype)))) ''uint'' line) (\<lambda>subtype.
     p_return (left, right, field_name, subtype)))))))"

definition field_set_parse_attribute ::
    "nat \<Rightarrow> 'w::len field_set \<Rightarrow> string \<Rightarrow>
     ((unit result \<times> string) \<times> 'w field_set \<times> table_parser) option" where
  "field_set_parse_attribute lw fs line =
     (case parse_field_line lw line of
        (Inl e, line) \<Rightarrow> Some ((Inl e, line), fs, empty_parser)
      | (Inr (left, right, field_name, subtype), line) \<Rightarrow>
          (case check_field_range fs left right of
             (Inl e, fs) \<Rightarrow> Some ((Inl e, line), fs, empty_parser)
           | (Inr _, fs) \<Rightarrow>
               map_option (\<lambda>(r, fs, parser). ((r, line), fs, parser))
                 (add_new_field fs left right field_name subtype)))"

text \<open>Each formatted result is cut to the size of the result buffer.\<close>

definition format_many :: "nat \<Rightarrow> string \<Rightarrow> string" where
  "format_many len s = take (len - 1) s"

definition field_set_fields_get_many :: "'w::len field_set \<Rightarrow> string list" where
  "field_set_fields_get_many fs =
     map (\<lambda>field. format_many MAX_RESULT_LENGTH
         (show_u32 (sf_left field) @ '':'' @ show_u32 (sf_right field) @ '' '' @ sf_field_name field @ '' '' @
          sf_subtype field)) (fs_ordered_fields fs)"

definition table_parse_description ::
    "'w::len field_set \<Rightarrow> string \<Rightarrow> ((unit result \<times> string) \<times> 'w field_set) option" where
  "table_parse_description fs line =
     (case parse_alphanum_name MAX_NAME_LENGTH line of
        (Inl e, line) \<Rightarrow> Some ((Inl e, line), fs)
      | (Inr field_name, line) \<Rightarrow>
          (case hash_table_lookup (fs_fields fs) field_name of
             None \<Rightarrow> None
           | Some 0 \<Rightarrow> Some ((fail ''Sub-field not in table'', line), fs)
           | Some (Suc i) \<Rightarrow>
               (let field = fs_ordered_fields fs ! i in
                if sf_description field \<noteq> None then Some ((fail ''Field already described'', line), fs)
                else
                  (case p_then parse_whitespace (\<lambda>_. parse_utf8_string) line of
                     (Inl e, line) \<Rightarrow> Some ((Inl e, line), fs)
                   | (Inr description, line) \<Rightarrow>
                       Some ((Inr (), line),
                         fs\<lparr>fs_ordered_fields :=
                            (fs_ordered_fields fs)[i := field\<lparr>sf_description := Some description\<rparr>]\<rparr>)))))"

section \<open>Table structures\<close>

datatype table_mode = TABLE_INIT | TABLE_FIXED | TABLE_STREAMING | TABLE_STREAMING_LAST

text \<open>
  \<^verbatim>\<open>data\<close> is an alias of the buffer of the hardware table and is read through it.  Of the write
  buffer, \<open>tb_write_area\<close> words long, only the words already written matter: \<open>tb_write_data\<close>, whose
  length is \<^verbatim>\<open>write_length\<close>.
\<close>

record table_block =
  tb_number :: u32
  tb_update_index :: u64
  tb_length :: nat
  tb_write_area :: nat
  tb_write_data :: "u32 list"
  tb_streaming_mode :: bool
  tb_last_table :: bool
  tb_write_binary :: bool
  tb_reset_required :: bool
  tb_mode :: table_mode
  tb_write_lock :: bool

text \<open>\<open>ts_mode_changes\<close> holds the change index of the attribute \<^verbatim>\<open>MODE\<close> of each block.\<close>

record (overloaded) 'w table_state =
  ts_block_count :: u32
  ts_field_set :: "('w::len) field_set"
  ts_max_length :: nat
  ts_table :: "hw_table option"
  ts_mode_changes :: "u64 list"
  ts_registers :: "(u32 \<times> u32 \<times> u32) option"
  ts_read_only :: bool
  ts_blocks :: "table_block list"

definition initialise_table_blocks :: "u32 \<Rightarrow> table_block list" where
  "initialise_table_blocks block_count =
     map (\<lambda>i. \<lparr>tb_number = word_of_nat i, tb_update_index = 1, tb_length = 0, tb_write_area = 0,
         tb_write_data = [], tb_streaming_mode = False, tb_last_table = False, tb_write_binary = False,
         tb_reset_required = False, tb_mode = TABLE_INIT, tb_write_lock = False\<rparr>)
       [0..<unat block_count]"

text \<open>\<^verbatim>\<open>uint32_t\<close> arrays and the octets they consist of, little endian.\<close>

definition bytes_of_word :: "u32 \<Rightarrow> u8 list" where
  "bytes_of_word w = [ucast w, ucast (drop_bit 8 w), ucast (drop_bit 16 w), ucast (drop_bit 24 w)]"

definition word_of_bytes :: "u8 \<Rightarrow> u8 \<Rightarrow> u8 \<Rightarrow> u8 \<Rightarrow> u32" where
  "word_of_bytes a b c d =
     ucast a OR push_bit 8 (ucast b) OR push_bit 16 (ucast c) OR push_bit 24 (ucast d)"

fun words_of_bytes :: "u8 list \<Rightarrow> u32 list" where
  "words_of_bytes (a # b # c # d # bs) = word_of_bytes a b c d # words_of_bytes bs"
| "words_of_bytes _ = []"

definition write_ascii :: "u32 list \<Rightarrow> nat \<Rightarrow> string list" where
  "write_ascii data len = map (\<lambda>i. format_many MAX_RESULT_LENGTH (show_u32 (data ! i))) [0..<len]"

function base64_lines :: "u8 list \<Rightarrow> string list" where
  "base64_lines bytes =
     (if length bytes > 0 then
        (let to_write = min (length bytes) BASE64_LINE_BYTES in
         fst (base64_encode (take to_write bytes)) # base64_lines (drop to_write bytes))
      else [])"
  by auto
termination by (relation "measure length") (auto simp: BASE64_LINE_BYTES_def)

declare base64_lines.simps [simp del]

definition write_base_64 :: "u32 list \<Rightarrow> nat \<Rightarrow> string list" where
  "write_base_64 data len = base64_lines (concat (map bytes_of_word (take len data)))"

definition table_set_read_only :: "'w::len table_state \<Rightarrow> 'w table_state" where
  "table_set_read_only st = st\<lparr>ts_read_only := True\<rparr>"

section \<open>Writing to a table\<close>

text \<open>
  The words that a line holds; \<open>None\<close> where the decoder would read out of bounds (an empty line).
\<close>

definition convert_base64_line :: "string \<Rightarrow> nat \<Rightarrow> u32 list result option" where
  "convert_base64_line line len =
     map_option (\<lambda>(status, out, converted_bytes).
         and_then (test_ok (status = BASE64_STATUS_OK) (base64_error_string status))
           (\<lambda>_. and_then (test_ok (converted_bytes mod 4 = 0) ''Invalid data length'')
             (\<lambda>_. Inr (words_of_bytes out))))
       (base64_decode line (len * 4))"

function convert_ascii_line :: "nat \<Rightarrow> nat \<Rightarrow> nat \<Rightarrow> string \<Rightarrow> u32 list result" where
  "convert_ascii_line lw len converted line =
     (if line = [] then Inr []
      else if \<not> converted < len then fail ''Too many points for table''
      else (case parse_uint32 lw line of
              (Inl e, _) \<Rightarrow> Inl e
            | (Inr v, rest) \<Rightarrow>
                and_then (convert_ascii_line lw len (converted + 1) rest) (\<lambda>vs. Inr (v # vs))))"
  by auto
termination by (relation "measure (\<lambda>(lw, len, converted, line). len - converted)") auto

declare convert_ascii_line.simps [simp del]

definition update_block :: "'w::len table_state \<Rightarrow> u32 \<Rightarrow> table_block \<Rightarrow> 'w table_state" where
  "update_block st number block = st\<lparr>ts_blocks := (ts_blocks st)[unat number := block]\<rparr>"

definition get_block :: "'w::len table_state \<Rightarrow> u32 \<Rightarrow> table_block" where
  "get_block st number = ts_blocks st ! unat number"

text \<open>The writer of a line; \<open>None\<close> also when words are stored outside the write buffer.\<close>

definition write_table_line ::
    "nat \<Rightarrow> 'w::len table_state \<Rightarrow> u32 \<Rightarrow> string \<Rightarrow> (unit result \<times> 'w table_state) option" where
  "write_table_line lw st number line =
     (let block = get_block st number;
          max_length = ts_max_length st - length (tb_write_data block) in
      case (if tb_write_binary block then convert_base64_line line max_length
            else Some (convert_ascii_line lw max_length 0 line)) of
        None \<Rightarrow> None
      | Some (Inl e) \<Rightarrow> Some (Inl e, st)
      | Some (Inr words) \<Rightarrow>
          if length (tb_write_data block) + length words \<le> tb_write_area block
          then Some (Inr (), update_block st number (block\<lparr>tb_write_data := tb_write_data block @ words\<rparr>))
          else None)"

definition update_table_mode ::
    "hw_table \<Rightarrow> bool \<Rightarrow> bool \<Rightarrow> nat \<Rightarrow> table_block \<Rightarrow> unit result \<times> table_block" where
  "update_table_mode tab streaming_mode last_table write_length block =
     (if streaming_mode \<and> \<not> hw_table_supports_streaming tab then
        (fail ''Table do not support streaming mode'', block)
      else if write_length = 0 then
        (if streaming_mode then (fail ''Streaming table must have data'', block)
         else (Inr (), block\<lparr>tb_reset_required := True, tb_mode := TABLE_INIT\<rparr>))
      else
        (let block = block\<lparr>tb_reset_required := False\<rparr> in
         case tb_mode block of
           TABLE_INIT \<Rightarrow>
             (Inr (), block\<lparr>tb_mode :=
                (if streaming_mode then (if last_table then TABLE_STREAMING_LAST else TABLE_STREAMING)
                 else TABLE_FIXED)\<rparr>)
         | TABLE_FIXED \<Rightarrow>
             (Inr (), block\<lparr>tb_reset_required := True,
                tb_mode := (if streaming_mode then TABLE_STREAMING else tb_mode block)\<rparr>)
         | TABLE_STREAMING \<Rightarrow>
             (if \<not> streaming_mode then (fail ''Table is in streaming mode'', block)
              else (Inr (), block\<lparr>tb_mode := (if last_table then TABLE_STREAMING_LAST else tb_mode block)\<rparr>))
         | TABLE_STREAMING_LAST \<Rightarrow> (fail ''Last streaming table was sent'', block)))"

text \<open>
  The part of \<^verbatim>\<open>complete_table_write\<close> under the lock for reading, and the whole.  The state includes
  the global change index and the devices.
\<close>

definition commit_table_write ::
    "'s device \<Rightarrow> 'w::len table_state \<Rightarrow> hw_table \<Rightarrow> u32 \<Rightarrow> u64 \<Rightarrow> 's \<Rightarrow>
     (unit result \<times> 'w table_state \<times> u64 \<times> 's) option" where
  "commit_table_write dev st tab number gci s =
     (let block = get_block st number; previous_mode = tb_mode block;
          (r, block) = update_table_mode tab (tb_streaming_mode block) (tb_last_table block)
             (length (tb_write_data block)) block;
          (mode_changes, gci) =
            (if previous_mode \<noteq> tb_mode block
             then (let (ix, gci) = get_change_index gci in ((ts_mode_changes st)[unat number := ix], gci))
             else (ts_mode_changes st, gci));
          s = (if tb_reset_required block then snd (hw_reset_table dev tab number s) else s);
          st = update_block (st\<lparr>ts_mode_changes := mode_changes\<rparr>) number block in
      case r of
        Inl e \<Rightarrow> Some (Inl e, st, gci, s)
      | Inr _ \<Rightarrow>
          (case hw_write_table dev tab number (tb_write_data block) (length (tb_write_data block))
                  (tb_streaming_mode block) (tb_last_table block) s of
             None \<Rightarrow> None
           | Some (r, tab, s) \<Rightarrow>
               (let len = (if tb_mode block = TABLE_FIXED then length (tb_write_data block) else 0);
                    (ix, gci) = get_change_index gci in
                Some (r, update_block (st\<lparr>ts_table := Some tab\<rparr>) number
                           (block\<lparr>tb_length := len, tb_update_index := ix\<rparr>), gci, s))))"

definition release_write_lock :: "'w::len table_state \<Rightarrow> u32 \<Rightarrow> 'w table_state" where
  "release_write_lock st number = update_block st number ((get_block st number)\<lparr>tb_write_lock := False\<rparr>)"

definition complete_table_write ::
    "'s device \<Rightarrow> 'w::len table_state \<Rightarrow> u32 \<Rightarrow> bool \<Rightarrow> u64 \<Rightarrow> 's \<Rightarrow>
     (unit result \<times> 'w table_state \<times> u64 \<times> 's) option" where
  "complete_table_write dev st number write_ok gci s =
     map_option (\<lambda>(r, st, gci, s). (r, release_write_lock st number, gci, s))
       (if write_ok then
          (if length (tb_write_data (get_block st number)) mod unat (fs_row_words (ts_field_set st)) = 0 then
             (case ts_table st of
                None \<Rightarrow> None
              | Some tab \<Rightarrow> commit_table_write dev st tab number gci s)
           else Some (fail ''Table write is not a whole number of rows'', st, gci, s))
        else Some (Inr (), st, gci, s))"

definition start_table_write ::
    "'w::len table_state \<Rightarrow> u32 \<Rightarrow> bool \<Rightarrow> bool \<Rightarrow> bool \<Rightarrow> unit result \<times> 'w table_state" where
  "start_table_write st number streaming_mode last_table binary =
     (let block = get_block st number in
      if tb_write_lock block then (fail ''Table currently being written'', st)
      else (Inr (), update_block st number
              (block\<lparr>tb_write_lock := True, tb_write_binary := binary, tb_write_data := [],
                 tb_streaming_mode := streaming_mode, tb_last_table := last_table\<rparr>)))"

definition table_mode_format :: "'w::len table_state \<Rightarrow> u32 \<Rightarrow> nat \<Rightarrow> string result" where
  "table_mode_format st number len =
     format_string len (case tb_mode (get_block st number) of
        TABLE_INIT \<Rightarrow> ''INIT'' | TABLE_FIXED \<Rightarrow> ''FIXED'' | TABLE_STREAMING \<Rightarrow> ''STREAMING''
      | TABLE_STREAMING_LAST \<Rightarrow> ''STREAMING_LAST'')"

section \<open>Creating a table\<close>

definition create_table :: "(u8 \<Rightarrow> 'w::len word) \<Rightarrow> u32 \<Rightarrow> u32 \<Rightarrow> 'w table_state \<times> table_parser" where
  "create_table cast block_count row_words =
     (\<lparr>ts_block_count = block_count,
       ts_field_set = \<lparr>fs_fields = hash_table_create cast False, fs_capacity = 0, fs_ordered_fields = [],
          fs_row_words = row_words, fs_used_bits = replicate (unat (32 * row_words)) False\<rparr>,
       ts_max_length = 0, ts_table = None, ts_mode_changes = replicate (unat block_count) 1,
       ts_registers = None, ts_read_only = False, ts_blocks = initialise_table_blocks block_count\<rparr>,
      \<lparr>ctxt = Some Field_Set, parse_line = Some Field_Set_Parse_Attribute, end_method = None\<rparr>)"

definition table_init ::
    "(u8 \<Rightarrow> 'w::len word) \<Rightarrow> nat \<Rightarrow> u32 \<Rightarrow> ('w table_state \<times> table_parser) parser" where
  "table_init cast lw block_count line =
     p_then (p_if (peek line = CHR '' '')
         (p_then parse_whitespace (\<lambda>_. p_then (parse_uint lw) (\<lambda>row_words.
            p_then (p_lift (test_ok (row_words > 0) ''Invalid table row size'')) (\<lambda>_. p_return row_words)))) 1)
       (\<lambda>row_words. p_return (create_table cast block_count row_words)) line"

text \<open>A number of registers, each after white space.\<close>

fun parse_registers ::
    "nat \<Rightarrow> u32 \<Rightarrow> nat \<Rightarrow> string \<Rightarrow> block_type list \<Rightarrow> (u32 list result \<times> string) \<times> block_type list" where
  "parse_registers lw base 0 line types = ((Inr [], line), types)"
| "parse_registers lw base (Suc n) line types =
     (case parse_whitespace line of
        (Inl e, line) \<Rightarrow> ((Inl e, line), types)
      | (Inr _, line) \<Rightarrow>
          (case check_parse_register lw base line types of
             ((Inl e, line), types) \<Rightarrow> ((Inl e, line), types)
           | ((Inr reg, line), types) \<Rightarrow>
               (case parse_registers lw base n line types of
                  ((Inl e, line), types) \<Rightarrow> ((Inl e, line), types)
                | ((Inr regs, line), types) \<Rightarrow> ((Inr (reg # regs), line), types))))"

definition short_table_parse_register ::
    "(nat \<Rightarrow> u32) \<Rightarrow> nat \<Rightarrow> 'w::len table_state \<Rightarrow> u32 \<Rightarrow> string \<Rightarrow> block_type list \<Rightarrow>
     (unit result \<times> string) \<times> 'w table_state \<times> block_type list" where
  "short_table_parse_register junk lw st block_base line types =
     (case parse_uint lw line of
        (Inl e, line) \<Rightarrow> ((Inl e, line), st, types)
      | (Inr max_length, line) \<Rightarrow>
          (case parse_registers lw block_base 3 line types of
             ((Inl e, line), types) \<Rightarrow> ((Inl e, line), st, types)
           | ((Inr regs, line), types) \<Rightarrow>
               (let init_reg = regs ! 0; fill_reg = regs ! 1; length_reg = regs ! 2;
                    tab = hw_open_short_table junk block_base (ts_block_count st)
                      init_reg fill_reg length_reg (unat max_length) in
                ((Inr (), line),
                 st\<lparr>ts_max_length := unat max_length, ts_registers := Some (init_reg, fill_reg, length_reg),
                    ts_table := Some tab\<rparr>, types))))"

definition long_table_parse_register ::
    "'s device \<Rightarrow> nat \<Rightarrow> (nat \<Rightarrow> bool) \<Rightarrow> (nat \<Rightarrow> u32) \<Rightarrow> 'w::len table_state \<Rightarrow> u32 \<Rightarrow> string \<Rightarrow> block_type list \<Rightarrow>
     u32 \<Rightarrow> 's \<Rightarrow> (unit result \<times> string) \<times> 'w table_state \<times> block_type list \<times> u32 \<times> 's" where
  "long_table_parse_register dev lw mem junk st block_base line types dma s =
     (case p_then (parse_char (CHR ''2'')) (\<lambda>_. p_then (parse_char (CHR ''^'')) (\<lambda>_.
           p_then (parse_uint lw) (\<lambda>table_order. p_then parse_whitespace (\<lambda>_.
           p_then (parse_uint lw) (\<lambda>max_nbuffers. p_return (table_order, max_nbuffers)))))) line of
        (Inl e, line) \<Rightarrow> ((Inl e, line), st, types, dma, s)
      | (Inr (table_order, max_nbuffers), line) \<Rightarrow>
          (case parse_registers lw block_base 2 line types of
             ((Inl e, line), types) \<Rightarrow> ((Inl e, line), st, types, dma, s)
           | ((Inr regs, line), types) \<Rightarrow>
               (case hw_open_long_table dev lw mem junk block_base (ts_block_count st) table_order max_nbuffers
                       (regs ! 0) (regs ! 1) dma s of
                  (Inl e, dma, s) \<Rightarrow> ((Inl e, line), st, types, dma, s)
                | (Inr (tab, max_length), dma, s) \<Rightarrow>
                    ((Inr (), line), st\<lparr>ts_table := Some tab, ts_max_length := max_length\<rparr>, types, dma, s))))"

definition allocate_data_areas :: "nat \<Rightarrow> 'w::len table_state \<Rightarrow> 'w table_state" where
  "allocate_data_areas lw st =
     (let block_size = ts_max_length st * 4 mod 2 ^ lw in
      st\<lparr>ts_blocks := map (\<lambda>b. b\<lparr>tb_write_area := block_size div 4\<rparr>) (ts_blocks st)\<rparr>)"

definition table_parse_register ::
    "'s device \<Rightarrow> nat \<Rightarrow> (nat \<Rightarrow> bool) \<Rightarrow> (nat \<Rightarrow> u32) \<Rightarrow> 'w::len table_state \<Rightarrow> u32 \<Rightarrow> string \<Rightarrow> block_type list \<Rightarrow>
     u32 \<Rightarrow> 's \<Rightarrow> (unit result \<times> string) \<times> 'w table_state \<times> block_type list \<times> u32 \<times> 's" where
  "table_parse_register dev lw mem junk st block_base line types dma s =
     (case (case read_string ''short'' line of
              (True, line) \<Rightarrow>
                (case parse_whitespace line of
                   (Inl e, line) \<Rightarrow> ((Inl e, line), st, types, dma, s)
                 | (Inr _, line) \<Rightarrow>
                     (case short_table_parse_register junk lw st block_base line types of
                        (r, st, types) \<Rightarrow> (r, st, types, dma, s)))
            | (False, line) \<Rightarrow>
                (case read_string ''long'' line of
                   (True, line) \<Rightarrow>
                     (case parse_whitespace line of
                        (Inl e, line) \<Rightarrow> ((Inl e, line), st, types, dma, s)
                      | (Inr _, line) \<Rightarrow> long_table_parse_register dev lw mem junk st block_base line types dma s)
                 | (False, line) \<Rightarrow> ((fail ''Table type not recognised'', line), st, types, dma, s))) of
        ((Inl e, line), rest) \<Rightarrow> ((Inl e, line), rest)
      | ((Inr _, line), st, rest) \<Rightarrow> ((Inr (), line), allocate_data_areas lw st, rest))"

definition table_set_description_parse :: table_parser where
  "table_set_description_parse =
     \<lparr>ctxt = Some Field_Set, parse_line = Some Table_Parse_Description, end_method = None\<rparr>"

section \<open>Table methods\<close>

text \<open>The live data of a block: \<^verbatim>\<open>block->data\<close>, the buffer of the hardware tab.\<close>

definition block_data :: "'w::len table_state \<Rightarrow> u32 \<Rightarrow> u32 list" where
  "block_data st number = (case ts_table st of None \<Rightarrow> [] | Some tab \<Rightarrow> hw_read_table_data tab number)"

definition table_get_many :: "'w::len table_state \<Rightarrow> u32 \<Rightarrow> string list" where
  "table_get_many st number = write_ascii (block_data st number) (tb_length (get_block st number))"

definition table_change_set :: "'w::len table_state \<Rightarrow> u64 \<Rightarrow> bool list" where
  "table_change_set st report_index = map (\<lambda>block. tb_update_index block > report_index) (ts_blocks st)"

definition table_put_table ::
    "'w::len table_state \<Rightarrow> u32 \<Rightarrow> bool \<Rightarrow> bool \<Rightarrow> bool \<Rightarrow> unit result \<times> 'w table_state" where
  "table_put_table st number streaming_mode last_table binary =
     (if ts_read_only st then (fail ''Table is bridge-owned (client writes refused)'', st)
      else start_table_write st number streaming_mode last_table binary)"

definition table_get_subfield :: "'w::len table_state \<Rightarrow> string \<Rightarrow> nat option" where
  "table_get_subfield st name = hash_table_lookup (fs_fields (ts_field_set st)) name"

definition table_length_format :: "'w::len table_state \<Rightarrow> u32 \<Rightarrow> nat \<Rightarrow> string result" where
  "table_length_format st number len = format_string len (show_base 10 (tb_length (get_block st number)))"

definition table_max_length_format :: "'w::len table_state \<Rightarrow> u32 \<Rightarrow> nat \<Rightarrow> string result" where
  "table_max_length_format st number len = format_string len (show_base 10 (ts_max_length st))"

definition table_b_get_many :: "'w::len table_state \<Rightarrow> u32 \<Rightarrow> string list" where
  "table_b_get_many st number = write_base_64 (block_data st number) (tb_length (get_block st number))"

definition table_fields_get_many :: "'w::len table_state \<Rightarrow> string list" where
  "table_fields_get_many st = field_set_fields_get_many (ts_field_set st)"

definition table_row_words_format :: "'w::len table_state \<Rightarrow> u32 \<Rightarrow> nat \<Rightarrow> string result" where
  "table_row_words_format st number len = format_string len (show_u32 (fs_row_words (ts_field_set st)))"

definition table_queued_lines_format ::
    "'s device \<Rightarrow> 'w::len table_state \<Rightarrow> hw_table \<Rightarrow> u32 \<Rightarrow> nat \<Rightarrow> 's \<Rightarrow> string result \<times> 's" where
  "table_queued_lines_format dev st tab number len s =
     (let (n, s) = hw_get_queued_words dev tab number s in
      (format_string len (show_base 10 (n div unat (fs_row_words (ts_field_set st)))), s))"

definition table_get_registers :: "'w::len table_state \<Rightarrow> u32 list result" where
  "table_get_registers st =
     (case ts_registers st of
        None \<Rightarrow> fail ''Table has no short-table registers''
      | Some (init_reg, fill_reg, length_reg) \<Rightarrow> Inr [init_reg, fill_reg, length_reg])"

section \<open>Reading back what was written out\<close>

lemma word_of_bytes_of_word: "word_of_bytes (ucast w) (ucast (drop_bit 8 w)) (ucast (drop_bit 16 w)) (ucast (drop_bit 24 w)) = w"
  for w :: u32
proof (rule bit_word_eqI)
  fix n assume "n < LENGTH(32)"
  then have "n < 32" by simp
  then consider "n < 8" | "8 \<le> n" "n < 16" | "16 \<le> n" "n < 24" | "24 \<le> n" "n < 32" by linarith
  then show "bit (word_of_bytes (ucast w) (ucast (drop_bit 8 w)) (ucast (drop_bit 16 w)) (ucast (drop_bit 24 w))) n = bit w n"
    by cases (auto simp: word_of_bytes_def bit_simps)
qed

abbreviation bytes_of_words :: "u32 list \<Rightarrow> u8 list" where
  "bytes_of_words ws \<equiv> concat (map bytes_of_word ws)"

lemma words_of_bytes_of_words: "words_of_bytes (bytes_of_words ws) = ws"
  by (induction ws) (simp_all add: bytes_of_word_def word_of_bytes_of_word)

lemma length_bytes_of_word: "length (bytes_of_word w) = 4"
  by (simp add: bytes_of_word_def)

lemma length_bytes_of_words [simp]: "length (bytes_of_words ws) = 4 * length ws"
  by (induction ws) (simp_all add: bytes_of_word_def)

lemma take_drop_bytes:
  "take (4 * n) (bytes_of_words ws) = bytes_of_words (take n ws)"
  "drop (4 * n) (bytes_of_words ws) = bytes_of_words (drop n ws)"
proof (induction n arbitrary: ws)
  case (Suc n)
  { case 1 show ?case using Suc(1) by (cases ws) (simp_all add: length_bytes_of_word) }
  { case 2 show ?case using Suc(2) by (cases ws) (simp_all add: length_bytes_of_word) }
qed simp_all

lemma base64_lines_words:
  "base64_lines (bytes_of_words ws) =
     (if ws = [] then [] else fst (base64_encode (bytes_of_words (take 12 ws))) # base64_lines (bytes_of_words (drop 12 ws)))"
proof (cases "ws = []")
  case False
  then have pos: "0 < length (bytes_of_words ws)" by simp
  have "take (min (length (bytes_of_words ws)) BASE64_LINE_BYTES) (bytes_of_words ws) = bytes_of_words (take 12 ws) \<and>
    drop (min (length (bytes_of_words ws)) BASE64_LINE_BYTES) (bytes_of_words ws) = bytes_of_words (drop 12 ws)"
  proof (cases "length ws \<le> 12")
    case True
    then show ?thesis by (simp add: BASE64_LINE_BYTES_def)
  next
    case F: False
    then show ?thesis using take_drop_bytes [of 12 ws] by (simp add: BASE64_LINE_BYTES_def)
  qed
  with False pos show ?thesis by (subst base64_lines.simps) (simp add: Let_def del: length_bytes_of_words)
qed (simp add: base64_lines.simps)

lemma convert_base64_words:
  assumes "ws \<noteq> []" "length ws \<le> n"
  shows "convert_base64_line (fst (base64_encode (bytes_of_words ws))) n = Some (Inr ws)"
proof -
  have "bytes_of_words ws \<noteq> []" using assms(1) by (cases ws) (simp_all add: bytes_of_word_def)
  from base64_decode_encode [OF this, of "n * 4"] assms(2) show ?thesis
    by (simp add: convert_base64_line_def words_of_bytes_of_words)
qed

text \<open>The lines that a client sends, up to the first error.\<close>

fun write_table_lines ::
    "nat \<Rightarrow> 'w::len table_state \<Rightarrow> u32 \<Rightarrow> string list \<Rightarrow> (unit result \<times> 'w table_state) option" where
  "write_table_lines lw st number [] = Some (Inr (), st)"
| "write_table_lines lw st number (line # lines) =
     (case write_table_line lw st number line of
        None \<Rightarrow> None
      | Some (Inl e, st) \<Rightarrow> Some (Inl e, st)
      | Some (Inr _, st) \<Rightarrow> write_table_lines lw st number lines)"

definition with_words :: "'w::len table_state \<Rightarrow> u32 \<Rightarrow> u32 list \<Rightarrow> 'w table_state" where
  "with_words st number ws =
     update_block st number ((get_block st number)\<lparr>tb_write_data := tb_write_data (get_block st number) @ ws\<rparr>)"

definition room_for :: "'w::len table_state \<Rightarrow> u32 \<Rightarrow> nat \<Rightarrow> bool" where
  "room_for st number n =
     (unat number < length (ts_blocks st) \<and>
      length (tb_write_data (get_block st number)) + n \<le> ts_max_length st \<and>
      ts_max_length st \<le> tb_write_area (get_block st number))"

lemma get_update_block:
  "unat number < length (ts_blocks st) \<Longrightarrow> get_block (update_block st number b) number = b"
  by (simp add: get_block_def update_block_def)

lemma with_words_simps:
  assumes "unat number < length (ts_blocks st)"
  shows "get_block (with_words st number ws) number =
      (get_block st number)\<lparr>tb_write_data := tb_write_data (get_block st number) @ ws\<rparr>"
    "with_words (with_words st number ws) number vs = with_words st number (ws @ vs)"
    "ts_max_length (with_words st number ws) = ts_max_length st"
    "length (ts_blocks (with_words st number ws)) = length (ts_blocks st)"
    "with_words st number [] = st"
  using assms by (simp_all add: with_words_def get_update_block) (simp_all add: update_block_def get_block_def)

lemma room_with_words:
  "room_for st number (length ws + n) \<Longrightarrow> room_for (with_words st number ws) number n"
  by (simp add: room_for_def with_words_simps)

lemma write_line_words:
  assumes "room_for st number (length ws)"
    and "if tb_write_binary (get_block st number)
         then convert_base64_line line (ts_max_length st - length (tb_write_data (get_block st number))) = Some (Inr ws)
         else convert_ascii_line lw (ts_max_length st - length (tb_write_data (get_block st number))) 0 line = Inr ws"
  shows "write_table_line lw st number line = Some (Inr (), with_words st number ws)"
  using assms by (auto simp: write_table_line_def room_for_def with_words_def Let_def split: if_splits)

lemma write_base64_back:
  assumes "tb_write_binary (get_block st number)" "room_for st number (length ws)"
  shows "write_table_lines lw st number (base64_lines (bytes_of_words ws)) = Some (Inr (), with_words st number ws)"
  using assms
proof (induction "length ws" arbitrary: ws st rule: less_induct)
  case less
  show ?case
  proof (cases "ws = []")
    case True
    then show ?thesis using less.prems base64_lines_words [of ws] by (simp add: room_for_def with_words_simps)
  next
    case False
    let ?chunk = "take 12 ws" and ?rest = "drop 12 ws"
    have n: "unat number < length (ts_blocks st)" using less.prems(2) by (simp add: room_for_def)
    have split: "length ?chunk + length ?rest = length ws" by simp
    have one: "write_table_line lw st number (fst (base64_encode (bytes_of_words ?chunk))) = Some (Inr (), with_words st number ?chunk)"
      using less.prems False
      by (intro write_line_words) (auto simp: room_for_def intro!: convert_base64_words)
    have "write_table_lines lw (with_words st number ?chunk) number (base64_lines (bytes_of_words ?rest)) =
        Some (Inr (), with_words (with_words st number ?chunk) number ?rest)"
      using less.prems False n by (intro less.hyps room_with_words) (simp_all add: with_words_simps split [simplified])
    with one False n show ?thesis by (simp add: base64_lines_words [of ws] with_words_simps)
  qed
qed

lemma write_ascii_back:
  assumes "\<not> tb_write_binary (get_block st number)" "room_for st number (length ws)" "32 \<le> lw"
  shows "write_table_lines lw st number (map show_u32 ws) = Some (Inr (), with_words st number ws)"
  using assms
proof (induction ws arbitrary: st)
  case (Cons w ws)
  have n: "unat number < length (ts_blocks st)" using Cons.prems(2) by (simp add: room_for_def)
  have "show_u32 w \<noteq> []" using show_base_hd [of 10 "unat w"] by (auto simp: show_u32_def)
  then have "convert_ascii_line lw len 0 (show_u32 w) = Inr [w]" if "0 < len" for len
    using that parse_uint_shown [of "[]" lw w] Cons.prems(3)
    by (simp add: convert_ascii_line.simps [of lw len 0] convert_ascii_line.simps [of lw len "Suc 0"] ends_token_def)
  then have one: "write_table_line lw st number (show_u32 w) = Some (Inr (), with_words st number [w])"
    using Cons.prems by (intro write_line_words) (auto simp: room_for_def)
  have "write_table_lines lw (with_words st number [w]) number (map show_u32 ws) =
      Some (Inr (), with_words (with_words st number [w]) number ws)"
    using Cons.prems n by (intro Cons.IH room_with_words) (simp_all add: with_words_simps)
  with one n show ?case by (simp add: with_words_simps)
qed (simp add: room_for_def with_words_simps)

section \<open>The invariant of a table\<close>

definition block_ok :: "nat \<Rightarrow> bool \<Rightarrow> table_block \<Rightarrow> bool" where
  "block_ok max_length streams b =
     (max_length \<le> tb_write_area b \<and> length (tb_write_data b) \<le> max_length \<and> tb_length b \<le> max_length \<and>
      (0 < tb_length b \<longrightarrow> tb_mode b = TABLE_FIXED) \<and>
      (tb_mode b \<in> {TABLE_STREAMING, TABLE_STREAMING_LAST} \<longrightarrow> streams))"

definition hw_ok :: "nat \<Rightarrow> nat \<Rightarrow> hw_table \<Rightarrow> bool" where
  "hw_ok cnt max_length tab =
     (length (ht_data tab) = cnt \<and> list_all (\<lambda>d. max_length \<le> length d) (ht_data tab))"

definition table_wf :: "'w::len table_state \<Rightarrow> bool" where
  "table_wf st =
     (case ts_table st of
        None \<Rightarrow> False
      | Some tab \<Rightarrow> hw_ok (length (ts_blocks st)) (ts_max_length st) tab \<and>
          list_all (block_ok (ts_max_length st) (hw_table_supports_streaming tab)) (ts_blocks st))"

lemma table_wf_SomeD:
  assumes "table_wf st"
  obtains tab where "ts_table st = Some tab" "hw_ok (length (ts_blocks st)) (ts_max_length st) tab"
    "list_all (block_ok (ts_max_length st) (hw_table_supports_streaming tab)) (ts_blocks st)"
  using assms by (auto simp: table_wf_def split: option.splits)

lemma update_block_simps [simp]:
  "ts_table (update_block st n b) = ts_table st" "ts_max_length (update_block st n b) = ts_max_length st"
  "length (ts_blocks (update_block st n b)) = length (ts_blocks st)"
  "ts_field_set (update_block st n b) = ts_field_set st" "ts_read_only (update_block st n b) = ts_read_only st"
  by (simp_all add: update_block_def)

lemma list_all_update: "list_all P xs \<Longrightarrow> P x \<Longrightarrow> list_all P (xs[i := x])"
  unfolding list_all_iff by (auto dest: set_update_subset_insert [THEN subsetD])

lemma table_wf_update:
  assumes "table_wf st" "\<And>streams. block_ok (ts_max_length st) streams (get_block st n) \<Longrightarrow> block_ok (ts_max_length st) streams b"
    and "unat n < length (ts_blocks st)"
  shows "table_wf (update_block st n b)"
proof -
  from assms(1) obtain tab where t: "ts_table st = Some tab" "hw_ok (length (ts_blocks st)) (ts_max_length st) tab"
    "list_all (block_ok (ts_max_length st) (hw_table_supports_streaming tab)) (ts_blocks st)" by (rule table_wf_SomeD)
  have "block_ok (ts_max_length st) (hw_table_supports_streaming tab) b"
    using t(3) assms(3) by (intro assms(2)) (simp add: list_all_length get_block_def)
  with t show ?thesis by (simp add: table_wf_def) (simp add: update_block_def list_all_update)
qed

lemma start_table_write_wf:
  assumes "table_wf st" "unat n < length (ts_blocks st)" "start_table_write st n sm lt bin = (r, st')"
  shows "table_wf st'"
proof (cases "tb_write_lock (get_block st n)")
  case False
  with assms(3) have "st' = update_block st n
      ((get_block st n)\<lparr>tb_write_lock := True, tb_write_binary := bin, tb_write_data := [],
         tb_streaming_mode := sm, tb_last_table := lt\<rparr>)"
    by (simp add: start_table_write_def Let_def)
  then show ?thesis by (simp only:) (rule table_wf_update [OF assms(1) _ assms(2)], simp add: block_ok_def)
qed (use assms in \<open>simp add: start_table_write_def Let_def\<close>)

lemma words_of_bytes_length: "4 * length (words_of_bytes bs) \<le> length bs"
  by (induction bs rule: words_of_bytes.induct) auto

lemma convert_base64_length:
  assumes "convert_base64_line line n = Some (Inr ws)"
  shows "length ws \<le> n"
proof -
  from assms obtain out conv where "base64_decode line (n * 4) = Some (BASE64_STATUS_OK, out, conv)" "ws = words_of_bytes out"
    by (auto simp: convert_base64_line_def and_then_eq_Inr)
  with base64_decode_limits [OF this(1)] words_of_bytes_length [of out] show ?thesis by simp
qed

lemma convert_ascii_length:
  assumes "convert_ascii_line lw n k line = Inr ws"
  shows "length ws \<le> n - k"
  using assms
proof (induction lw n k line arbitrary: ws rule: convert_ascii_line.induct)
  case (1 lw n k line)
  then show ?case
    by (subst (asm) convert_ascii_line.simps [of lw n k line])
      (fastforce simp: and_then_eq_Inr split: if_splits prod.splits sum.splits)
qed

lemma convert_base64_some: "line \<noteq> [] \<Longrightarrow> \<exists>r. convert_base64_line line n = Some r"
  by (auto simp: convert_base64_line_def base64_decode_def trimmed_length_def trim_one_def last_char_def Let_def
      split: option.splits prod.splits)

text \<open>A line that is not blank is written without leaving the write buffer.\<close>

lemma write_table_line_safe:
  assumes "table_wf st" "unat n < length (ts_blocks st)" "line \<noteq> []"
  shows "\<exists>r st'. write_table_line lw st n line = Some (r, st') \<and> table_wf st' \<and>
    (st' = st \<or> (\<exists>ws. r = Inr () \<and> st' = with_words st n ws))"
proof -
  let ?b = "get_block st n"
  let ?room = "ts_max_length st - length (tb_write_data ?b)"
  obtain r where r: "(if tb_write_binary ?b then convert_base64_line line ?room
      else Some (convert_ascii_line lw ?room 0 line)) = Some r"
    using convert_base64_some [OF assms(3), of ?room] by (cases "tb_write_binary ?b") auto
  show ?thesis
  proof (cases r)
    case (Inl e)
    with r assms(1) show ?thesis by (simp add: write_table_line_def Let_def)
  next
    case (Inr ws)
    have len: "length ws \<le> ?room"
      using r Inr convert_base64_length convert_ascii_length by (fastforce split: if_splits)
    have ok: "length (tb_write_data ?b) \<le> ts_max_length st" "ts_max_length st \<le> tb_write_area ?b"
      using assms(1,2) by (auto elim!: table_wf_SomeD simp: list_all_length get_block_def block_ok_def)
    have "write_table_line lw st n line = Some (Inr (), with_words st n ws)"
      using r Inr len ok by (simp add: write_table_line_def Let_def with_words_def)
    moreover have "table_wf (with_words st n ws)"
      unfolding with_words_def using len ok by (intro table_wf_update assms(1,2)) (auto simp: block_ok_def)
    ultimately show ?thesis by blast
  qed
qed

lemma set_table_data_ok:
  assumes "hw_ok cnt max_length tab" "unat n < cnt" "len \<le> max_length" "len \<le> length data"
  shows "\<exists>tab'. set_table_data tab n data len = Some tab' \<and> hw_ok cnt max_length tab' \<and> ht_type tab' = ht_type tab \<and>
    ht_block_base tab' = ht_block_base tab \<and> take len (hw_read_table_data tab' n) = take len data"
proof -
  have "max_length \<le> length (ht_data tab ! unat n)" using assms(1,2) by (simp add: hw_ok_def list_all_length)
  with assms show ?thesis
    by (auto simp: set_table_data_def copy_words_def hw_ok_def hw_read_table_data_def list_all_update min_def)
qed

lemma supports_streaming_type: "ht_type tab' = ht_type tab \<Longrightarrow> hw_table_supports_streaming tab' = hw_table_supports_streaming tab"
  by (simp add: hw_table_supports_streaming_def)

text \<open>What the hardware does with a table that fits: it never leaves its buffers.\<close>

lemma hw_write_table_ok:
  assumes "hw_ok cnt max_length tab" "unat n < cnt" "length data \<le> max_length"
  shows "\<exists>r tab' s'. hw_write_table dev tab n data (length data) streaming lst s = Some (r, tab', s') \<and>
    hw_ok cnt max_length tab' \<and> ht_type tab' = ht_type tab \<and>
    (\<not> streaming \<longrightarrow> take (length data) (hw_read_table_data tab' n) = data)"
proof -
  obtain tab' where t: "set_table_data tab n data (length data) = Some tab'" "hw_ok cnt max_length tab'"
      "ht_type tab' = ht_type tab" "take (length data) (hw_read_table_data tab' n) = data"
    using set_table_data_ok [OF assms(1,2), of "length data" data] assms(3) by auto
  show ?thesis
  proof (cases "ht_type tab")
    case (SHORT_TABLE st)
    with t show ?thesis by (auto simp: hw_write_table_def)
  next
    case (LONG_TABLE lt)
    obtain r s' where "hw_long_table_write dev (lt_block_ids lt ! unat n) data (length data) streaming lst s = (r, s')"
      by (cases "hw_long_table_write dev (lt_block_ids lt ! unat n) data (length data) streaming lst s")
    with LONG_TABLE t assms(1) show ?thesis by (cases "data = []"; cases streaming) (auto simp: hw_write_table_def)
  qed
qed

lemma update_table_mode_ok:
  assumes "update_table_mode tab sm lt n b = (r, b')"
  shows "tb_write_data b' = tb_write_data b" "tb_write_area b' = tb_write_area b" "tb_length b' = tb_length b"
    "tb_streaming_mode b' = tb_streaming_mode b" "tb_last_table b' = tb_last_table b" "tb_write_lock b' = tb_write_lock b"
    "r = Inr () \<Longrightarrow> sm \<Longrightarrow> hw_table_supports_streaming tab \<and> tb_mode b' \<noteq> TABLE_FIXED"
    "is_ok r \<or> tb_mode b' = tb_mode b"
    "\<not> sm \<Longrightarrow> tb_mode b' \<in> {TABLE_INIT, TABLE_FIXED, tb_mode b}"
    "r = Inr () \<Longrightarrow> tb_mode b' \<in> {TABLE_STREAMING, TABLE_STREAMING_LAST} \<Longrightarrow> sm"
  using assms by (auto simp: update_table_mode_def Let_def split: if_splits table_mode.splits)

lemma commit_table_write_ok:
  assumes wf: "table_wf st" and tab: "ts_table st = Some tab" and n: "unat n < length (ts_blocks st)"
  defines "b0 \<equiv> get_block st n"
  assumes m: "update_table_mode tab (tb_streaming_mode b0) (tb_last_table b0) (length (tb_write_data b0)) b0 = (r, b)"
  shows "\<exists>r' st' gci' s'. commit_table_write dev st tab n gci s = Some (r', st', gci', s') \<and> table_wf st' \<and>
    length (ts_blocks st') = length (ts_blocks st) \<and> tb_mode (get_block st' n) = tb_mode b \<and>
    (is_ok r \<longrightarrow> tb_length (get_block st' n) = (if tb_mode b = TABLE_FIXED then length (tb_write_data b0) else 0) \<and>
      (\<not> tb_streaming_mode b0 \<longrightarrow> take (length (tb_write_data b0)) (block_data st' n) = tb_write_data b0)) \<and>
    (\<not> is_ok r \<longrightarrow> r' = r \<and> block_data st' n = block_data st n \<and> tb_length (get_block st' n) = tb_length b0)"
proof -
  have hw: "hw_ok (length (ts_blocks st)) (ts_max_length st) tab"
    and ok: "block_ok (ts_max_length st) (hw_table_supports_streaming tab) b0"
    using wf tab n by (auto elim!: table_wf_SomeD simp: list_all_length get_block_def b0_def)
  note M = update_table_mode_ok [OF m]
  define mc g1 where "mc = fst (if tb_mode b0 \<noteq> tb_mode b
             then (let (ix, gci) = get_change_index gci in ((ts_mode_changes st)[unat n := ix], gci))
             else (ts_mode_changes st, gci))" and "g1 = snd (if tb_mode b0 \<noteq> tb_mode b
             then (let (ix, gci) = get_change_index gci in ((ts_mode_changes st)[unat n := ix], gci))
             else (ts_mode_changes st, gci))"
  define s1 where "s1 = (if tb_reset_required b then snd (hw_reset_table dev tab n s) else s)"
  define st1 where "st1 = update_block (st\<lparr>ts_mode_changes := mc\<rparr>) n b"
  have n1: "unat n < length (ts_blocks (st\<lparr>ts_mode_changes := mc\<rparr>))" using n by simp
  have wf': "table_wf (st\<lparr>ts_mode_changes := mc\<rparr>)" using wf by (simp add: table_wf_def split: option.splits)
  show ?thesis
  proof (cases r)
    case (Inl e)
    have c: "commit_table_write dev st tab n gci s = Some (Inl e, st1, g1, s1)"
      unfolding commit_table_write_def b0_def [symmetric] Let_def m Inl
      by (simp add: st1_def mc_def g1_def s1_def case_prod_beta Let_def)
    have "table_wf st1" unfolding st1_def
      by (rule table_wf_update [OF wf' _ n1]) (use Inl M in \<open>auto simp: block_ok_def get_block_def b0_def\<close>)
    with c Inl M n1 show ?thesis
      by (auto simp: st1_def get_update_block block_data_def)
  next
    case (Inr u)
    obtain r' tab' s' where w: "hw_write_table dev tab n (tb_write_data b) (length (tb_write_data b))
        (tb_streaming_mode b) (tb_last_table b) s1 = Some (r', tab', s')"
      "hw_ok (length (ts_blocks st)) (ts_max_length st) tab'" "ht_type tab' = ht_type tab"
      "\<not> tb_streaming_mode b \<Longrightarrow> take (length (tb_write_data b)) (hw_read_table_data tab' n) = tb_write_data b"
      using hw_write_table_ok [OF hw n, of "tb_write_data b" dev "tb_streaming_mode b" "tb_last_table b" s1] ok M
      by (auto simp: block_ok_def)
    define b2 where "b2 = b\<lparr>tb_length := (if tb_mode b = TABLE_FIXED then length (tb_write_data b) else 0),
        tb_update_index := fst (get_change_index g1)\<rparr>"
    define st2 where "st2 = update_block (st1\<lparr>ts_table := Some tab'\<rparr>) n b2"
    have c: "commit_table_write dev st tab n gci s = Some (r', st2, snd (get_change_index g1), s')"
      unfolding commit_table_write_def b0_def [symmetric] Let_def m Inr
      using w(1) by (simp add: st2_def b2_def st1_def mc_def g1_def s1_def case_prod_beta Let_def)
    have "block_ok (ts_max_length st) (hw_table_supports_streaming tab) b2"
      using ok M Inr by (auto simp: block_ok_def b2_def)
    moreover have "list_all (block_ok (ts_max_length st) (hw_table_supports_streaming tab)) (ts_blocks st)"
      using wf tab by (auto elim!: table_wf_SomeD)
    ultimately have "table_wf st2" using w(2) supports_streaming_type [OF w(3)]
      by (simp add: table_wf_def st2_def st1_def) (simp add: update_block_def list_all_update)
    moreover have "get_block st2 n = b2" using n by (simp add: st2_def get_block_def update_block_def st1_def)
    moreover have "block_data st2 n = hw_read_table_data tab' n" by (simp add: block_data_def st2_def)
    ultimately show ?thesis using c Inr M(1,4) w(4)
      by (simp add: b2_def) (simp add: st2_def st1_def)
  qed
qed

lemma release_lock_simps:
  assumes "unat n < length (ts_blocks st)"
  shows "get_block (release_write_lock st n) n = (get_block st n)\<lparr>tb_write_lock := False\<rparr>"
    "block_data (release_write_lock st n) m = block_data st m" "length (ts_blocks (release_write_lock st n)) = length (ts_blocks st)"
    "table_wf st \<Longrightarrow> table_wf (release_write_lock st n)"
proof -
  show "table_wf (release_write_lock st n)" if "table_wf st"
    unfolding release_write_lock_def by (rule table_wf_update [OF that _ assms]) (simp add: block_ok_def)
qed (use assms in \<open>simp_all add: release_write_lock_def get_update_block block_data_def\<close>)

lemma complete_table_write_safe:
  assumes "table_wf st" "unat n < length (ts_blocks st)"
  shows "\<exists>r st' gci' s'. complete_table_write dev st n ok gci s = Some (r, st', gci', s') \<and> table_wf st' \<and>
    length (ts_blocks st') = length (ts_blocks st) \<and> \<not> tb_write_lock (get_block st' n)"
proof -
  obtain tab where tab: "ts_table st = Some tab" using assms(1) by (rule table_wf_SomeD)
  let ?b = "get_block st n"
  obtain r b where m: "update_table_mode tab (tb_streaming_mode ?b) (tb_last_table ?b) (length (tb_write_data ?b)) ?b = (r, b)"
    by (cases "update_table_mode tab (tb_streaming_mode ?b) (tb_last_table ?b) (length (tb_write_data ?b)) ?b")
  from commit_table_write_ok [OF assms(1) tab assms(2) m, of dev gci s] obtain r' st' gci' s' where
    "commit_table_write dev st tab n gci s = Some (r', st', gci', s')" "table_wf st'"
    "length (ts_blocks st') = length (ts_blocks st)" by blast
  with assms tab show ?thesis by (auto simp: complete_table_write_def release_lock_simps)
qed

section \<open>Any interleaving of writers\<close>

text \<open>
  The calls of any number of clients on the blocks of a table: a block is opened, lines are written
  and the write is closed by the client that holds the lock.
\<close>

inductive table_step ::
    "'s device \<Rightarrow> nat \<Rightarrow> 'w::len table_state \<times> u64 \<times> 's \<Rightarrow> 'w table_state \<times> u64 \<times> 's \<Rightarrow> bool" for dev lw where
  put: "unat n < length (ts_blocks st) \<Longrightarrow> table_put_table st n streaming lst bin = (r, st') \<Longrightarrow>
    table_step dev lw (st, gci, s) (st', gci, s)"
| line: "unat n < length (ts_blocks st) \<Longrightarrow> tb_write_lock (get_block st n) \<Longrightarrow> line \<noteq> [] \<Longrightarrow>
    write_table_line lw st n line = Some (r, st') \<Longrightarrow> table_step dev lw (st, gci, s) (st', gci, s)"
| close: "unat n < length (ts_blocks st) \<Longrightarrow> tb_write_lock (get_block st n) \<Longrightarrow>
    complete_table_write dev st n ok gci s = Some (r, st', gci', s') \<Longrightarrow>
    table_step dev lw (st, gci, s) (st', gci', s')"
| readonly: "table_step dev lw (st, gci, s) (table_set_read_only st, gci, s)"

lemma table_step_wf:
  assumes "table_step dev lw x y" "table_wf (fst x)"
  shows "table_wf (fst y)"
  using assms
proof (induction rule: table_step.induct)
  case (put n st streaming lst bin r st' gci s)
  then show ?case by (auto simp: table_put_table_def dest: start_table_write_wf split: if_splits)
next
  case (line n st line r st' gci s)
  then show ?case using write_table_line_safe [of st n line lw] by auto
next
  case (close n st ok gci s r st' gci' s')
  then show ?case using complete_table_write_safe [of st n dev ok gci s] by auto
qed (simp add: table_wf_def table_set_read_only_def split: option.splits)

text \<open>
  C12: whatever the clients do, in any order and with any data, no write leaves the write buffer or the
  buffer of the hardware table, every close returns and releases the lock, a length is only shown
  for a table in fixed mode, and a table is in a streaming mode only when the hardware supports it.
\<close>

theorem table_writes_safe:
  assumes "(table_step dev lw)\<^sup>*\<^sup>* (st0, gci0, s0) (st, gci, s)" "table_wf st0" "unat n < length (ts_blocks st)"
  shows "(line \<noteq> [] \<longrightarrow> write_table_line lw st n line \<noteq> None) \<and>
    (\<exists>r st' gci' s'. complete_table_write dev st n ok gci s = Some (r, st', gci', s') \<and> \<not> tb_write_lock (get_block st' n)) \<and>
    tb_length (get_block st n) \<le> length (block_data st n) \<and>
    (0 < tb_length (get_block st n) \<longrightarrow> tb_mode (get_block st n) = TABLE_FIXED) \<and>
    (tb_mode (get_block st n) \<in> {TABLE_STREAMING, TABLE_STREAMING_LAST} \<longrightarrow>
      (\<exists>tab. ts_table st = Some tab \<and> hw_table_supports_streaming tab))"
proof -
  have "table_wf (fst (st, gci, s))" using assms(1)
    by (induction rule: rtranclp_induct) (use assms(2) table_step_wf in auto)
  then have wf: "table_wf st" by simp
  then obtain tab where t: "ts_table st = Some tab" "hw_ok (length (ts_blocks st)) (ts_max_length st) tab"
    "list_all (block_ok (ts_max_length st) (hw_table_supports_streaming tab)) (ts_blocks st)" by (rule table_wf_SomeD)
  then have b: "block_ok (ts_max_length st) (hw_table_supports_streaming tab) (get_block st n)"
    "ts_max_length st \<le> length (block_data st n)"
    using assms(3) by (simp_all add: list_all_length get_block_def hw_ok_def block_data_def hw_read_table_data_def)
  then have "tb_length (get_block st n) \<le> length (block_data st n)" by (simp add: block_ok_def)
  moreover have "line \<noteq> [] \<longrightarrow> write_table_line lw st n line \<noteq> None"
    using write_table_line_safe [OF wf assms(3), of line lw] by auto
  moreover have "\<exists>r st' gci' s'. complete_table_write dev st n ok gci s = Some (r, st', gci', s') \<and> \<not> tb_write_lock (get_block st' n)"
    using complete_table_write_safe [OF wf assms(3), of dev ok gci s] by blast
  ultimately show ?thesis using b t(1) by (auto simp: block_ok_def)
qed

section \<open>A fixed table is read back as written\<close>

lemma format_show_u32 [simp]: "format_many MAX_RESULT_LENGTH (show_u32 x) = show_u32 x"
proof -
  have "unat x < 10 ^ 10" using unsigned_less [of x, where ?'a = nat] by simp
  then have "length (show_u32 x) \<le> 10" unfolding show_u32_def by (intro length_show_base) simp_all
  then show ?thesis by (simp add: format_many_def MAX_RESULT_LENGTH_def)
qed

lemma write_ascii_take: "n \<le> length data \<Longrightarrow> write_ascii data n = map show_u32 (take n data)"
  by (simp add: write_ascii_def) (auto intro!: nth_equalityI)

lemma table_output:
  assumes "take (tb_length (get_block st n)) (block_data st n) = ws" "tb_length (get_block st n) = length ws"
  shows "table_get_many st n = map show_u32 ws" "table_b_get_many st n = write_base_64 ws (length ws)"
proof -
  have "length ws \<le> length (block_data st n)" using assms by (metis length_take min.cobounded1)
  then show "table_get_many st n = map show_u32 ws" using assms by (simp add: table_get_many_def write_ascii_take)
  show "table_b_get_many st n = write_base_64 ws (length ws)" using assms by (simp add: table_b_get_many_def write_base_64_def)
qed

text \<open>The lines by which a client may send the words.\<close>

definition table_lines :: "bool \<Rightarrow> u32 list \<Rightarrow> string list" where
  "table_lines binary ws = (if binary then write_base_64 ws (length ws) else map show_u32 ws)"

text \<open>
  C13: a whole number of rows that fits, sent in text or in base 64 to a table that is not streaming, is
  accepted line by line; once the write is closed the table is in fixed mode and unlocked, and both
  ways of reading the table give the words that were sent.
\<close>

theorem table_write_read_back:
  assumes "table_wf st" "unat n < length (ts_blocks st)" "\<not> ts_read_only st" "\<not> tb_write_lock (get_block st n)"
    and "tb_mode (get_block st n) \<in> {TABLE_INIT, TABLE_FIXED}"
    and "ws \<noteq> []" "length ws \<le> ts_max_length st" "length ws mod unat (fs_row_words (ts_field_set st)) = 0" "32 \<le> lw"
  shows "\<exists>st1 st2 r st3 gci' s'. table_put_table st n False lst binary = (Inr (), st1) \<and>
    write_table_lines lw st1 n (table_lines binary ws) = Some (Inr (), st2) \<and>
    complete_table_write dev st2 n True gci s = Some (r, st3, gci', s') \<and>
    table_get_many st3 n = map show_u32 ws \<and> table_b_get_many st3 n = write_base_64 ws (length ws) \<and>
    tb_mode (get_block st3 n) = TABLE_FIXED \<and> \<not> tb_write_lock (get_block st3 n)"
proof -
  obtain st1 where put: "table_put_table st n False lst binary = (Inr (), st1)" "st1 = update_block st n
      ((get_block st n)\<lparr>tb_write_lock := True, tb_write_binary := binary, tb_write_data := [],
         tb_streaming_mode := False, tb_last_table := lst\<rparr>)"
    using assms(3,4) by (simp add: table_put_table_def start_table_write_def Let_def)
  then have wf1: "table_wf st1"
    using start_table_write_wf [OF assms(1,2), of False lst binary "Inr ()" st1] assms(3) by (simp add: table_put_table_def)
  have b1: "get_block st1 n = (get_block st n)\<lparr>tb_write_lock := True, tb_write_binary := binary, tb_write_data := [],
         tb_streaming_mode := False, tb_last_table := lst\<rparr>" using assms(2) by (simp add: put(2) get_update_block)
  have n1: "unat n < length (ts_blocks st1)" using assms(2) by (simp add: put(2))
  have max1: "ts_max_length st1 = ts_max_length st" by (simp add: put(2))
  have "ts_max_length st1 \<le> tb_write_area (get_block st1 n)"
    by (rule table_wf_SomeD [OF wf1]) (use n1 in \<open>simp add: list_all_length get_block_def block_ok_def\<close>)
  then have room: "room_for st1 n (length ws)" using n1 assms(7) by (simp add: room_for_def b1 max1)
  define st2 where "st2 = with_words st1 n ws"
  have lines: "write_table_lines lw st1 n (table_lines binary ws) = Some (Inr (), st2)"
    using write_base64_back [OF _ room] write_ascii_back [OF _ room assms(9)]
    by (simp add: table_lines_def st2_def b1 write_base_64_def)
  have b2: "get_block st2 n = (get_block st1 n)\<lparr>tb_write_data := ws\<rparr>" using n1 by (simp add: st2_def with_words_simps b1)
  have n2: "unat n < length (ts_blocks st2)" using n1 by (simp add: st2_def with_words_simps)
  have wf2: "table_wf st2" unfolding st2_def with_words_def
    using assms(7) by (intro table_wf_update [OF wf1 _ n1]) (simp add: block_ok_def b1 max1)
  then obtain tab where tab: "ts_table st2 = Some tab" by (rule table_wf_SomeD)
  have "\<exists>b. update_table_mode tab (tb_streaming_mode (get_block st2 n)) (tb_last_table (get_block st2 n))
      (length (tb_write_data (get_block st2 n))) (get_block st2 n) = (Inr (), b) \<and> tb_mode b = TABLE_FIXED"
    using assms(5,6) by (auto simp: update_table_mode_def b2 b1 Let_def)
  then obtain b where m: "update_table_mode tab (tb_streaming_mode (get_block st2 n)) (tb_last_table (get_block st2 n))
      (length (tb_write_data (get_block st2 n))) (get_block st2 n) = (Inr (), b)" "tb_mode b = TABLE_FIXED" by blast
  from commit_table_write_ok [OF wf2 tab n2 m(1), of dev gci s] m(2) obtain r' st' gci' s' where
    c: "commit_table_write dev st2 tab n gci s = Some (r', st', gci', s')"
    "length (ts_blocks st') = length (ts_blocks st2)" "tb_mode (get_block st' n) = TABLE_FIXED"
    "tb_length (get_block st' n) = length ws" "take (length ws) (block_data st' n) = ws"
    by (auto simp: b2 b1)
  have n': "unat n < length (ts_blocks st')" using c(2) n2 by simp
  define st3 where "st3 = release_write_lock st' n"
  have fs: "ts_field_set st2 = ts_field_set st" by (simp add: st2_def with_words_def put(2))
  have "complete_table_write dev st2 n True gci s = Some (r', st3, gci', s')"
    using c(1) tab assms(8) by (simp add: complete_table_write_def b2 fs st3_def)
  moreover have "table_get_many st3 n = map show_u32 ws" "table_b_get_many st3 n = write_base_64 ws (length ws)"
    using c(4,5) n' by (auto intro!: table_output simp: st3_def release_lock_simps)
  ultimately show ?thesis using put(1) lines c(3) n' by (auto simp: st3_def release_lock_simps)
qed

section \<open>Two flaws of the table mode\<close>

text \<open>
  A fixed table that is replaced by the only, last, streaming table is left in the mode \<^verbatim>\<open>STREAMING\<close>
  although the hardware has been told that nothing follows.
\<close>

lemma fixed_to_last_streaming:
  assumes "hw_table_supports_streaming tab" "0 < len" "tb_mode b = TABLE_FIXED"
  shows "\<exists>b'. update_table_mode tab True True len b = (Inr (), b') \<and> tb_mode b' = TABLE_STREAMING"
  using assms by (simp add: update_table_mode_def Let_def)

text \<open>
  An empty streaming table is refused, but the flag left by an earlier write still makes the
  hardware table be reset.
\<close>

lemma refused_write_resets:
  assumes "ts_table st = Some tab" "ht_type tab = LONG_TABLE lt" "tb_reset_required (get_block st n)"
    "tb_streaming_mode (get_block st n)" "tb_write_data (get_block st n) = []"
  shows "\<exists>st'. complete_table_write dev st n True gci s = Some (fail ''Streaming table must have data'', st', gci,
      snd (hw_long_table_write dev (lt_block_ids lt ! unat n) [] 0 False False s))"
  using assms
  by (simp add: complete_table_write_def commit_table_write_def update_table_mode_def Let_def
      hw_table_supports_streaming_def hw_reset_table_def fail_def)

section \<open>A concrete table\<close>

definition sample_hw :: hw_table where
  "sample_hw = hw_open_short_table (\<lambda>_. 0) 5 2 0 1 2 4"

definition sample_table :: "32 table_state" where
  "sample_table = allocate_data_areas 32
     ((fst (create_table ucast 2 2))\<lparr>ts_max_length := 4, ts_table := Some sample_hw\<rparr>)"

lemma sample_table_simps:
  "length (ts_blocks sample_table) = 2" "ts_max_length sample_table = 4" "\<not> ts_read_only sample_table"
  "fs_row_words (ts_field_set sample_table) = 2"
  "tb_mode (get_block sample_table 1) = TABLE_INIT" "\<not> tb_write_lock (get_block sample_table 1)"
  by (simp_all add: sample_table_def allocate_data_areas_def create_table_def initialise_table_blocks_def get_block_def Let_def)

lemma sample_table_wf: "table_wf sample_table"
  by (simp add: table_wf_def sample_table_def allocate_data_areas_def create_table_def initialise_table_blocks_def
      sample_hw_def hw_open_short_table_def create_short_table_def create_hw_table_def hw_ok_def block_ok_def
      list_all_iff fresh_words_def Let_def)

theorem table_write_read_back_witness:
  "\<exists>st1 st2 r st3 gci' s'. table_put_table sample_table 1 False True True = (Inr (), st1) \<and>
    write_table_lines 32 st1 1 (table_lines True [7, 9]) = Some (Inr (), st2) \<and>
    complete_table_write memory_device st2 1 True 10 (\<lambda>_. 0) = Some (r, st3, gci', s') \<and>
    table_get_many st3 1 = map show_u32 [7, 9]"
  using table_write_read_back [OF sample_table_wf, of 1 "[7, 9]" 32 True True memory_device 10 "\<lambda>_. 0"]
  by (simp add: sample_table_simps) blast

theorem table_writes_safe_witness:
  "\<exists>r st' gci' s'. complete_table_write memory_device sample_table 1 True 10 (\<lambda>_. 0) = Some (r, st', gci', s') \<and>
    \<not> tb_write_lock (get_block st' 1)"
  using table_writes_safe [of memory_device 32 sample_table 10 "\<lambda>_. 0" sample_table 10 "\<lambda>_. 0" 1 "[]" True] sample_table_wf
  by (simp add: sample_table_simps)

section \<open>The fields of a row are disjoint\<close>

definition field_bits :: "'w::len table_subfield \<Rightarrow> nat set" where
  "field_bits f = {unat (sf_right f)..unat (sf_left f)}"

lemma claim_bits_Inr:
  assumes "claim_bits is bits = (Inr u, bits')" "distinct is" "set is \<subseteq> {..<length bits}"
  shows "length bits' = length bits \<and> (\<forall>i \<in> set is. \<not> bits ! i) \<and> (\<forall>i < length bits. bits' ! i = (bits ! i \<or> i \<in> set is))"
  using assms
proof (induction "is" bits rule: claim_bits.induct)
  case (2 i "is" bits)
  then have nb: "\<not> bits ! i" and run: "claim_bits is (bits[i := True]) = (Inr u, bits')"
    by (auto simp: fail_def split: if_splits)
  have i: "i < length bits" "i \<notin> set is" using "2.prems" by simp_all
  have IH: "length bits' = length bits" "\<And>j. j \<in> set is \<Longrightarrow> \<not> bits[i := True] ! j"
      "\<And>j. j < length bits \<Longrightarrow> bits' ! j = (bits[i := True] ! j \<or> j \<in> set is)"
    using "2.IH" [OF nb run] "2.prems"(2,3) by auto
  have "\<not> bits ! j" if "j \<in> set is" for j using IH(2) [OF that] that i by (cases "j = i") auto
  moreover have "bits' ! j = (bits ! j \<or> j \<in> set (i # is))" if "j < length bits" for j
    using IH(3) [OF that] i by (cases "j = i") auto
  ultimately show ?case using IH(1) nb by auto
qed auto

definition fields_ok :: "'w::len field_set \<Rightarrow> bool" where
  "fields_ok fs =
     (length (fs_used_bits fs) = unat (32 * fs_row_words fs) \<and>
      (\<forall>f \<in> set (fs_ordered_fields fs). sf_right f \<le> sf_left f \<and>
         field_bits f \<subseteq> {i. i < length (fs_used_bits fs) \<and> fs_used_bits fs ! i}) \<and>
      (\<forall>i < length (fs_ordered_fields fs). \<forall>j < i.
         field_bits (fs_ordered_fields fs ! i) \<inter> field_bits (fs_ordered_fields fs ! j) = {}) \<and>
      ht_inv (fs_fields fs) \<and> distinct (map sf_field_name (fs_ordered_fields fs)) \<and>
      ht_map (fs_fields fs) = map_of (zip (map sf_field_name (fs_ordered_fields fs)) (map Suc [0..<length (fs_ordered_fields fs)])))"

lemma fields_okD:
  assumes "fields_ok fs"
  shows "length (fs_used_bits fs) = unat (32 * fs_row_words fs)"
    "f \<in> set (fs_ordered_fields fs) \<Longrightarrow> sf_right f \<le> sf_left f"
    "f \<in> set (fs_ordered_fields fs) \<Longrightarrow> i \<in> field_bits f \<Longrightarrow> i < length (fs_used_bits fs) \<and> fs_used_bits fs ! i"
    "i < length (fs_ordered_fields fs) \<Longrightarrow> j < i \<Longrightarrow>
       field_bits (fs_ordered_fields fs ! i) \<inter> field_bits (fs_ordered_fields fs ! j) = {}"
    "ht_inv (fs_fields fs)" "distinct (map sf_field_name (fs_ordered_fields fs))"
    "ht_map (fs_fields fs) = map_of (zip (map sf_field_name (fs_ordered_fields fs)) (map Suc [0..<length (fs_ordered_fields fs)]))"
  using assms unfolding fields_ok_def by (blast+)

lemma check_field_range_Inr:
  assumes "check_field_range fs left right = (Inr u, fs')" "length (fs_used_bits fs) = unat (32 * fs_row_words fs)"
  shows "right \<le> left \<and> length (fs_used_bits fs') = length (fs_used_bits fs) \<and>
    fs' = fs\<lparr>fs_used_bits := fs_used_bits fs'\<rparr> \<and>
    (\<forall>i \<in> {unat right..unat left}. i < length (fs_used_bits fs) \<and> \<not> fs_used_bits fs ! i) \<and>
    (\<forall>i < length (fs_used_bits fs). fs_used_bits fs' ! i = (fs_used_bits fs ! i \<or> i \<in> {unat right..unat left}))"
proof -
  from assms(1) obtain bits where c: "right \<le> left" "left < 32 * fs_row_words fs"
      "claim_bits [unat right..<Suc (unat left)] (fs_used_bits fs) = (Inr u, bits)" "fs' = fs\<lparr>fs_used_bits := bits\<rparr>"
    by (auto simp: check_field_range_def Let_def and_then_eq_Inr fail_def test_ok_def split: if_splits prod.splits sum.splits)
  have l: "unat left < length (fs_used_bits fs)" using c(2) assms(2) by (simp add: word_less_nat_alt)
  have "set [unat right..<Suc (unat left)] = {unat right..unat left}" by auto
  moreover from this l have "set [unat right..<Suc (unat left)] \<subseteq> {..<length (fs_used_bits fs)}" by auto
  ultimately show ?thesis using claim_bits_Inr [OF c(3) distinct_upt] c(1,4) l by simp
qed

lemma map_of_zip_snoc:
  assumes "a \<notin> set xs" "length xs = length ys"
  shows "map_of (zip (xs @ [a]) (ys @ [b])) = (map_of (zip xs ys))(a \<mapsto> b)"
proof -
  have "[a \<mapsto> b] ++ map_of (zip xs ys) = map_of (zip xs ys) ++ [a \<mapsto> b]"
    using assms by (intro map_add_comm) (simp add: dom_map_of_zip)
  then show ?thesis using assms by simp
qed

lemma parse_attribute_fields_ok:
  assumes "fields_ok fs" "field_set_parse_attribute lw fs line = Some ((Inr u, rest), fs', pr)"
    and "ht_room (Suc n) (fs_fields fs)"
  shows "fields_ok fs' \<and> ht_room n (fs_fields fs') \<and> fs_row_words fs' = fs_row_words fs"
proof -
  note ok = fields_okD [OF assms(1)]
  from assms(2) obtain left right name subtype l fs1 u' where
    p: "check_field_range fs left right = (Inr u', fs1)"
    "add_new_field fs1 left right name subtype = Some (Inr u, fs', pr)"
    by (auto simp: field_set_parse_attribute_def split: prod.splits sum.splits)
  note cr = check_field_range_Inr [OF p(1) ok(1)]
  then have fs1: "fs_fields fs1 = fs_fields fs" "fs_ordered_fields fs1 = fs_ordered_fields fs" "fs_row_words fs1 = fs_row_words fs"
    by (metis field_set.ext_inject field_set.surjective field_set.update_convs(5))+
  let ?xs = "fs_ordered_fields fs"
  obtain fields where ins: "hash_table_insert (fs_fields fs) name (length ?xs + 1) = Some (fields, 0)"
    and fs': "fs_fields fs' = fields" "fs_used_bits fs' = fs_used_bits fs1" "fs_row_words fs' = fs_row_words fs"
      "\<exists>f. fs_ordered_fields fs' = ?xs @ [f] \<and> sf_left f = left \<and> sf_right f = right \<and> sf_field_name f = name"
    using p(2) fs1 by (auto simp: add_new_field_def Let_def)
  from ht.insert [OF ok(5) assms(3), of name "length ?xs + 1"] ins have
    h: "ht_inv fields" "ht_room n fields" "ht_map fields = (ht_map (fs_fields fs))(name \<mapsto> length ?xs + 1)"
      "(case ht_map (fs_fields fs) name of None \<Rightarrow> 0 | Some v \<Rightarrow> v) = 0" by auto
  obtain f where f: "fs_ordered_fields fs' = ?xs @ [f]" "sf_left f = left" "sf_right f = right" "sf_field_name f = name"
    using fs'(4) by blast
  have fresh: "name \<notin> set (map sf_field_name ?xs)"
  proof
    assume "name \<in> set (map sf_field_name ?xs)"
    then obtain i where i: "i < length ?xs" "map sf_field_name ?xs ! i = name" by (auto simp: in_set_conv_nth)
    then have "(name, Suc i) \<in> set (zip (map sf_field_name ?xs) (map Suc [0..<length ?xs]))"
      by (auto simp: in_set_zip intro!: exI [of _ i])
    then have "ht_map (fs_fields fs) name = Some (Suc i)" using ok(6) unfolding ok(7) by (intro map_of_is_SomeI) simp_all
    with h(4) show False by simp
  qed
  have "ht_map fields = map_of (zip (map sf_field_name ?xs @ [name]) (map Suc [0..<Suc (length ?xs)]))"
    using map_of_zip_snoc [OF fresh, of "map Suc [0..<length ?xs]" "Suc (length ?xs)"] unfolding h(3) ok(7) by simp
  moreover have "field_bits f \<inter> field_bits (?xs ! j) = {}" if "j < length ?xs" for j
  proof -
    have False if x: "x \<in> field_bits f" "x \<in> field_bits (?xs ! j)" for x
    proof -
      have "\<not> fs_used_bits fs ! x" using cr x(1) unfolding field_bits_def f(2,3) by blast
      with ok(3) [OF nth_mem [OF \<open>j < length ?xs\<close>] x(2)] show False by blast
    qed
    then show ?thesis by blast
  qed
  moreover have "\<forall>g \<in> set (fs_ordered_fields fs'). sf_right g \<le> sf_left g \<and>
      field_bits g \<subseteq> {i. i < length (fs_used_bits fs') \<and> fs_used_bits fs' ! i}"
    using ok(2,3) cr by (auto simp: f fs'(2) field_bits_def)
  ultimately show ?thesis
    using ok(1,4,6) cr h(1,2) fresh by (simp add: fields_ok_def fs' f nth_append less_Suc_eq)
qed

fun parse_field_lines :: "nat \<Rightarrow> 'w::len field_set \<Rightarrow> string list \<Rightarrow> 'w field_set option" where
  "parse_field_lines lw fs [] = Some fs"
| "parse_field_lines lw fs (line # lines) =
     (case field_set_parse_attribute lw fs line of
        Some ((Inr _, _), fs', _) \<Rightarrow> parse_field_lines lw fs' lines
      | _ \<Rightarrow> None)"

lemma parse_field_lines_ok:
  assumes "parse_field_lines lw fs lines = Some fs'" "fields_ok fs" "ht_room (length lines) (fs_fields fs)"
  shows "fields_ok fs' \<and> fs_row_words fs' = fs_row_words fs"
  using assms
proof (induction lines arbitrary: fs)
  case (Cons line lines)
  from Cons.prems(1) obtain u rest fs1 pr where
    s: "field_set_parse_attribute lw fs line = Some ((Inr u, rest), fs1, pr)" "parse_field_lines lw fs1 lines = Some fs'"
    by (auto split: option.splits sum.splits prod.splits)
  from parse_attribute_fields_ok [OF Cons.prems(2) s(1)] Cons.prems(3) have
    "fields_ok fs1" "ht_room (length lines) (fs_fields fs1)" "fs_row_words fs1 = fs_row_words fs" by auto
  with Cons.IH [OF s(2)] show ?case by simp
qed simp

lemma create_table_fields_ok:
  assumes "16 * (n + 2) \<le> 2 ^ LENGTH('w::len)"
  shows "fields_ok (ts_field_set (fst (create_table (cast :: u8 \<Rightarrow> 'w word) bc rw)))"
    "ht_room n (fs_fields (ts_field_set (fst (create_table (cast :: u8 \<Rightarrow> 'w word) bc rw))))"
proof -
  have w: "3 < LENGTH('w)"
  proof (rule ccontr)
    assume "\<not> 3 < LENGTH('w)"
    then have "(2 :: nat) ^ LENGTH('w) \<le> 2 ^ 3" by (intro power_increasing) simp_all
    with assms show False by simp
  qed
  show "fields_ok (ts_field_set (fst (create_table (cast :: u8 \<Rightarrow> 'w word) bc rw)))"
    by (simp add: create_table_def fields_ok_def hash_table_create_def hash_table_create_spec [OF w])
  show "ht_room n (fs_fields (ts_field_set (fst (create_table (cast :: u8 \<Rightarrow> 'w word) bc rw))))"
    by (simp add: create_table_def hash_table_create_def hash_table_create_room [OF assms])
qed

text \<open>
  C37: when every field line of a new table is accepted, the fields lie inside the row, no two of them
  share a bit, and looking up the name of a field finds that field.
\<close>

theorem table_fields_disjoint:
  assumes "parse_field_lines lw (ts_field_set (fst (create_table (cast :: u8 \<Rightarrow> 'w::len word) bc rw))) lines = Some fs"
    and "16 * (length lines + 2) \<le> 2 ^ LENGTH('w)" "i < length (fs_ordered_fields fs)"
  shows "field_bits (fs_ordered_fields fs ! i) \<noteq> {} \<and> (\<forall>b \<in> field_bits (fs_ordered_fields fs ! i). b < unat (32 * rw)) \<and>
    (\<forall>j < i. field_bits (fs_ordered_fields fs ! i) \<inter> field_bits (fs_ordered_fields fs ! j) = {}) \<and>
    hash_table_lookup (fs_fields fs) (sf_field_name (fs_ordered_fields fs ! i)) = Some (i + 1)"
proof -
  have ok: "fields_ok fs" "fs_row_words fs = rw"
    using parse_field_lines_ok [OF assms(1) create_table_fields_ok [OF assms(2)]] by (simp_all add: create_table_def)
  note D = fields_okD [OF ok(1)]
  have f: "fs_ordered_fields fs ! i \<in> set (fs_ordered_fields fs)" using assms(3) by simp
  have "(sf_field_name (fs_ordered_fields fs ! i), Suc i) \<in>
      set (zip (map sf_field_name (fs_ordered_fields fs)) (map Suc [0..<length (fs_ordered_fields fs)]))"
    using assms(3) by (auto simp: in_set_zip intro!: exI [of _ i])
  then have "ht_map (fs_fields fs) (sf_field_name (fs_ordered_fields fs ! i)) = Some (Suc i)"
    unfolding D(7) using D(6) by (intro map_of_is_SomeI) simp_all
  with ht.lookup [OF D(5)] have "hash_table_lookup (fs_fields fs) (sf_field_name (fs_ordered_fields fs ! i)) = Some (i + 1)"
    by simp
  moreover have "unat (sf_right (fs_ordered_fields fs ! i)) \<le> unat (sf_left (fs_ordered_fields fs ! i))"
    using D(2) [OF f] by (simp add: word_le_nat_alt)
  ultimately show ?thesis using D(3) [OF f] D(4) [OF assms(3)] D(1) ok(2) by (auto simp: field_bits_def)
qed

lemma sample_field_lines:
  "parse_field_line 32 ''15:0 REPEATS'' = (Inr (15, 0, ''REPEATS'', ''uint''), [])"
  "parse_field_line 32 ''19:16 TRIGGER int'' = (Inr (19, 16, ''TRIGGER'', ''int''), [])"
proof -
  have show_15: "show_base 10 15 = ''15''" "show_base 10 0 = ''0''" "show_base 10 19 = ''19''" "show_base 10 16 = ''16''"
    by code_simp+
  have ends: "ends_token '':0 REPEATS''" "ends_token '' REPEATS''" "ends_token '':16 TRIGGER int''" "ends_token '' TRIGGER int''"
    by code_simp+
  have names: "parse_alphanum_name MAX_NAME_LENGTH ''REPEATS'' = (Inr ''REPEATS'', [])"
    "parse_alphanum_name MAX_NAME_LENGTH ''TRIGGER int'' = (Inr ''TRIGGER'', '' int'')"
    "parse_name MAX_NAME_LENGTH ''int'' = (Inr ''int'', [])"
    by code_simp+
  show "parse_field_line 32 ''15:0 REPEATS'' = (Inr (15, 0, ''REPEATS'', ''uint''), [])"
    using parse_uint_literal [OF ends(1) show_15(1)] parse_uint_literal [OF ends(2) show_15(2)] names
    by (simp add: parse_field_line_def p_then_def p_if_def parse_char_def read_char_def parse_whitespace_def nul_def)
  show "parse_field_line 32 ''19:16 TRIGGER int'' = (Inr (19, 16, ''TRIGGER'', ''int''), [])"
    using parse_uint_literal [OF ends(3) show_15(3)] parse_uint_literal [OF ends(4) show_15(4)] names
    by (simp add: parse_field_line_def p_then_def p_if_def parse_char_def read_char_def parse_whitespace_def validate_subtype_def)
qed

theorem table_fields_disjoint_witness:
  "\<exists>fs. parse_field_lines 32 (ts_field_set (fst (create_table (ucast :: u8 \<Rightarrow> u32) 1 1)))
       [''15:0 REPEATS'', ''19:16 TRIGGER int''] = Some fs \<and>
     field_bits (fs_ordered_fields fs ! 1) \<inter> field_bits (fs_ordered_fields fs ! 0) = {} \<and>
     hash_table_lookup (fs_fields fs) ''TRIGGER'' = Some 2"
proof -
  let ?fs = "ts_field_set (fst (create_table (ucast :: u8 \<Rightarrow> u32) 1 1))"
  have "16 * (2 + 2) \<le> (2 :: nat) ^ LENGTH(32)" by simp
  note start = create_table_fields_ok [OF this, where cast = ucast and bc = 1 and rw = 1]
  have used: "fs_used_bits ?fs = replicate 32 False" "fs_row_words ?fs = 1" "fs_ordered_fields ?fs = []"
    by (simp_all add: create_table_def)
  have empty: "ht_map (fs_fields ?fs) = Map.empty" using fields_okD(7) [OF start(1)] by (simp add: used)
  obtain t1 where t1: "hash_table_insert (fs_fields ?fs) ''REPEATS'' 1 = Some (t1, 0)" "ht_inv t1" "ht_room 1 t1"
      "ht_map t1 = [''REPEATS'' \<mapsto> 1]"
    using ht.insert [OF fields_okD(5) [OF start(1)], of 1 "''REPEATS''" 1] start(2) by (auto simp: empty numeral_2_eq_2)
  obtain t2 where t2: "hash_table_insert t1 ''TRIGGER'' (Suc (Suc 0)) = Some (t2, 0)"
    using ht.insert [OF t1(2), of 0 "''TRIGGER''" "Suc (Suc 0)"] t1(3,4) by auto
  define fs1 where "fs1 = ?fs\<lparr>fs_used_bits := replicate 16 True @ replicate 16 False, fs_capacity := 4,
      fs_ordered_fields := [\<lparr>sf_left = 15, sf_right = 0, sf_field_name = ''REPEATS'', sf_subtype = ''uint'',
        sf_enums = None, sf_description = None\<rparr>], fs_fields := t1\<rparr>"
  have c1: "claim_bits [0..<16] (replicate 32 False) = (Inr (), replicate 16 True @ replicate 16 False)" by code_simp
  have s1: "field_set_parse_attribute 32 ?fs ''15:0 REPEATS'' = Some ((Inr (), []), fs1, empty_parser)"
    using c1 t1(1) by (simp add: field_set_parse_attribute_def sample_field_lines check_field_range_def used add_new_field_def
        TABLE_INITIAL_CAPACITY_def fs1_def) (simp add: create_table_def)
  have c2: "claim_bits [16..<20] (replicate 16 True @ replicate 16 False) = (Inr (), replicate 20 True @ replicate 12 False)" by code_simp
  have "\<exists>fs2. field_set_parse_attribute 32 fs1 ''19:16 TRIGGER int'' = Some ((Inr (), []), fs2, empty_parser) \<and>
      map sf_field_name (fs_ordered_fields fs2) = [''REPEATS'', ''TRIGGER'']"
    using c2 t2 by (simp add: field_set_parse_attribute_def sample_field_lines check_field_range_def used add_new_field_def fs1_def)
  then obtain fs2 where s2: "field_set_parse_attribute 32 fs1 ''19:16 TRIGGER int'' = Some ((Inr (), []), fs2, empty_parser)"
      "map sf_field_name (fs_ordered_fields fs2) = [''REPEATS'', ''TRIGGER'']" by (elim exE conjE)
  have run: "parse_field_lines 32 ?fs [''15:0 REPEATS'', ''19:16 TRIGGER int''] = Some fs2" by (simp add: s1 s2(1))
  have len: "length (fs_ordered_fields fs2) = 2" "sf_field_name (fs_ordered_fields fs2 ! 1) = ''TRIGGER''"
    using s2(2) by (auto simp: map_eq_Cons_conv)
  from table_fields_disjoint [OF run, of 1] run len show ?thesis by auto
qed

end
