(* ===== verification/Panda_Types.thy ===== *)
theory Panda_Types
  imports Panda_Enums Panda_Changes Panda_Lut Panda_Format
begin

text \<open>
  \<^verbatim>\<open>types.c\<close> and the type of \<^verbatim>\<open>time.c\<close>: the conversion between register values and text.  Doubles
  and the C library functions on them are the parameter \<open>fp\<close>.
\<close>

record 'd fp_ops =
  fp_strtod :: "string \<Rightarrow> 'd \<times> bool \<times> string"
  fp_show :: "'d \<Rightarrow> string"
  fp_add :: "'d \<Rightarrow> 'd \<Rightarrow> 'd"
  fp_sub :: "'d \<Rightarrow> 'd \<Rightarrow> 'd"
  fp_mul :: "'d \<Rightarrow> 'd \<Rightarrow> 'd"
  fp_div :: "'d \<Rightarrow> 'd \<Rightarrow> 'd"
  fp_round :: "'d \<Rightarrow> 'd"
  fp_le :: "'d \<Rightarrow> 'd \<Rightarrow> bool"
  fp_of_int :: "int \<Rightarrow> 'd"
  fp_literal :: "string \<Rightarrow> 'd"
  fp_to_u32 :: "'d \<Rightarrow> u32"
  fp_llround :: "'d \<Rightarrow> int"

text \<open>
  What the methods need from their surroundings: the doubles, the width of \<^verbatim>\<open>long\<close>, and the nominal
  clock, which is read from the hardware state \<open>'r\<close>.
\<close>

record ('d, 'r) type_env =
  te_fp :: "'d fp_ops"
  te_lw :: nat
  te_clock :: "'r \<Rightarrow> u32 \<times> 'r"

definition parse_double :: "'d fp_ops \<Rightarrow> 'd parser" where
  "parse_double fp = parse_num (fp_strtod fp) id"

definition format_double :: "'d fp_ops \<Rightarrow> nat \<Rightarrow> 'd \<Rightarrow> string result" where
  "format_double fp len x = and_then (format_string len (fp_show fp x)) (\<lambda>s. Inr (skip_whitespace s))"

section \<open>Access to the register\<close>

record 'r register_methods =
  rm_read :: "('r \<Rightarrow> u32 \<Rightarrow> u32 result \<times> 'r) option"
  rm_write :: "('r \<Rightarrow> u32 \<Rightarrow> u32 \<Rightarrow> unit result \<times> 'r) option"
  rm_changed :: "('r \<Rightarrow> u32 \<Rightarrow> 'r) option"

definition read_type_register :: "'r register_methods \<Rightarrow> u32 \<Rightarrow> 'r \<Rightarrow> u32 result \<times> 'r" where
  "read_type_register reg number r =
     (case rm_read reg of None \<Rightarrow> (fail ''Register cannot be read'', r) | Some read \<Rightarrow> read r number)"

definition write_type_register :: "'r register_methods \<Rightarrow> u32 \<Rightarrow> u32 \<Rightarrow> 'r \<Rightarrow> unit result \<times> 'r" where
  "write_type_register reg number v r =
     (case rm_write reg of None \<Rightarrow> (fail ''Register cannot be written'', r) | Some write \<Rightarrow> write r number v)"

definition changed_type_register :: "'r register_methods \<Rightarrow> u32 \<Rightarrow> 'r \<Rightarrow> 'r" where
  "changed_type_register reg number r =
     (case rm_changed reg of None \<Rightarrow> r | Some changed \<Rightarrow> changed r number)"

text \<open>Reading a register and formatting what was read; parsing a whole string and writing it.\<close>

definition read_and_format ::
    "'r register_methods \<Rightarrow> (u32 \<Rightarrow> string result) \<Rightarrow> u32 \<Rightarrow> 'r \<Rightarrow> string result \<times> 'r" where
  "read_and_format reg format number r =
     (case read_type_register reg number r of
        (Inl e, r) \<Rightarrow> (Inl e, r)
      | (Inr v, r) \<Rightarrow> (format v, r))"

definition parse_and_write :: "'r register_methods \<Rightarrow> u32 parser \<Rightarrow> u32 \<Rightarrow> string \<Rightarrow> 'r \<Rightarrow> unit result \<times> 'r" where
  "parse_and_write reg parse number string r =
     (case p_then parse (\<lambda>v. p_then parse_eos (\<lambda>_. p_return v)) string of
        (Inl e, _) \<Rightarrow> (Inl e, r)
      | (Inr v, _) \<Rightarrow> write_type_register reg number v r)"

definition raw_format_uint :: "'r register_methods \<Rightarrow> u32 \<Rightarrow> nat \<Rightarrow> 'r \<Rightarrow> string result \<times> 'r" where
  "raw_format_uint reg number len r = read_and_format reg (\<lambda>v. format_string len (show_u32 v)) number r"

definition raw_put_uint :: "nat \<Rightarrow> 'r register_methods \<Rightarrow> u32 \<Rightarrow> string \<Rightarrow> 'r \<Rightarrow> unit result \<times> 'r" where
  "raw_put_uint lw reg number string r = parse_and_write reg (parse_uint lw) number string r"

definition raw_format_int :: "'r register_methods \<Rightarrow> u32 \<Rightarrow> nat \<Rightarrow> 'r \<Rightarrow> string result \<times> 'r" where
  "raw_format_int reg number len r = read_and_format reg (\<lambda>v. format_string len (show_int v)) number r"

definition raw_put_int :: "nat \<Rightarrow> 'r register_methods \<Rightarrow> u32 \<Rightarrow> string \<Rightarrow> 'r \<Rightarrow> unit result \<times> 'r" where
  "raw_put_int lw reg number string r = parse_and_write reg (parse_int lw) number string r"

section \<open>The types\<close>

definition check_for_option :: "string \<Rightarrow> bool" where
  "check_for_option s = (peek s = CHR '' '' \<and> peek (skip_whitespace s) \<noteq> CHR ''='')"

definition uint_init :: "nat \<Rightarrow> u32 parser" where
  "uint_init lw s = p_if (check_for_option s) (parse_uint lw) (- 1) s"

definition uint_parse :: "nat \<Rightarrow> u32 \<Rightarrow> u32 parser" where
  "uint_parse lw max_value =
     p_then (parse_uint lw) (\<lambda>v. p_then (p_lift (test_ok (v \<le> max_value) ''Number out of range'')) (\<lambda>_. p_return v))"

definition int_parse :: "nat \<Rightarrow> u32 parser" where
  "int_parse lw = parse_int lw"

definition uint_format :: "u32 \<Rightarrow> nat \<Rightarrow> string result" where
  "uint_format v len = format_string len (show_u32 v)"

definition int_format :: "u32 \<Rightarrow> nat \<Rightarrow> string result" where
  "int_format v len = format_string len (show_int v)"

definition uint_max_format :: "u32 \<Rightarrow> nat \<Rightarrow> string result" where
  "uint_max_format max_value len = format_string len (show_u32 max_value)"

record 'd scalar_state =
  sc_scale :: 'd
  sc_offset :: 'd
  sc_units :: "string option"

definition create_scalar_state :: "'d \<Rightarrow> 'd \<Rightarrow> string option \<Rightarrow> 'd scalar_state" where
  "create_scalar_state scale offset units = \<lparr>sc_scale = scale, sc_offset = offset, sc_units = units\<rparr>"

definition scalar_init :: "'d fp_ops \<Rightarrow> 'd scalar_state parser" where
  "scalar_init fp =
     p_then (parse_char (CHR '' '')) (\<lambda>_.
     p_then (parse_double fp) (\<lambda>scale.
     p_then (\<lambda>s. case read_char (CHR '' '') s of
           (False, s) \<Rightarrow> (Inr (fp_literal fp ''0.0'', None), s)
         | (True, s) \<Rightarrow>
             p_then (parse_double fp) (\<lambda>offset s. case read_char (CHR '' '') s of
                 (False, s) \<Rightarrow> (Inr (offset, None), s)
               | (True, s) \<Rightarrow> p_then parse_utf8_string (\<lambda>units. p_return (offset, Some units)) s) s)
       (\<lambda>(offset, units). p_return (create_scalar_state scale offset units))))"

definition scalar_parse :: "'d fp_ops \<Rightarrow> 'd scalar_state \<Rightarrow> u32 parser" where
  "scalar_parse fp st =
     p_then (parse_double fp) (\<lambda>x.
       let result = fp_round fp (fp_div fp (fp_sub fp x (sc_offset st)) (sc_scale st)) in
       p_then (p_lift (test_ok (fp_le fp (fp_of_int fp (- (2 ^ 31))) result \<and> fp_le fp result (fp_of_int fp (2 ^ 31 - 1)))
           ''Value out of range'')) (\<lambda>_. p_return (fp_to_u32 fp result)))"

definition scalar_format :: "'d fp_ops \<Rightarrow> 'd scalar_state \<Rightarrow> u32 \<Rightarrow> nat \<Rightarrow> string result" where
  "scalar_format fp st v len =
     format_double fp len (fp_add fp (fp_mul fp (sc_scale st) (fp_of_int fp (sint v))) (sc_offset st))"

definition scalar_units_format :: "'d scalar_state \<Rightarrow> nat \<Rightarrow> string result" where
  "scalar_units_format st len = format_string len (case sc_units st of None \<Rightarrow> '''' | Some units \<Rightarrow> units)"

definition scalar_scale_format :: "'d fp_ops \<Rightarrow> 'd scalar_state \<Rightarrow> nat \<Rightarrow> string result" where
  "scalar_scale_format fp st len = format_double fp len (sc_scale st)"

definition scalar_offset_format :: "'d fp_ops \<Rightarrow> 'd scalar_state \<Rightarrow> nat \<Rightarrow> string result" where
  "scalar_offset_format fp st len = format_double fp len (sc_offset st)"

definition bit_parse :: "u32 parser" where
  "bit_parse = p_then parse_bit (\<lambda>b. p_return (if b then 1 else 0))"

definition bit_format :: "u32 \<Rightarrow> nat \<Rightarrow> string result" where
  "bit_format v len = format_string len (if v \<noteq> 0 then ''1'' else ''0'')"

definition action_parse :: "u32 parser" where
  "action_parse = p_return 0"

section \<open>Lookup tables\<close>

record lut_field =
  lf_value :: u32
  lf_string :: "string option"

definition lut_init :: "u32 \<Rightarrow> lut_field list" where
  "lut_init cnt = replicate (unat cnt) \<lparr>lf_value = 0, lf_string = None\<rparr>"

text \<open>\<^verbatim>\<open>strtoul\<close> with base 16, on a string that starts with \<^verbatim>\<open>0x\<close>; the error indication is not used.\<close>

definition strtoul_hex :: "nat \<Rightarrow> string \<Rightarrow> nat \<times> string" where
  "strtoul_hex lw s =
     (if is_digit_of 16 (peek (drop 2 s)) then
        (let (m, rest) = scan_digits 16 0 (drop 2 s) in (if m \<ge> 2 ^ lw then 2 ^ lw - 1 else m, rest))
      else (0, drop 1 s))"

definition do_parse_lut :: "nat \<Rightarrow> string \<Rightarrow> u32 result option" where
  "do_parse_lut lw string =
     (if take 2 string = ''0x'' then
        (let (v, end') = strtoul_hex lw string in
         Some (and_then (test_ok (end' = [] \<and> length string > 2) ''Bad LUT number'') (\<lambda>_. Inr (word_of_nat v))))
      else
        map_option (\<lambda>r. case r of
            Inl status \<Rightarrow> fail (parse_lut_error_string status)
          | Inr v \<Rightarrow> Inr v)
          (parse_lut string))"

definition lut_parse :: "nat \<Rightarrow> lut_field list \<Rightarrow> u32 \<Rightarrow> string \<Rightarrow> ((u32 result \<times> string) \<times> lut_field list) option" where
  "lut_parse lw st number string =
     (case do_parse_lut lw string of
        None \<Rightarrow> None
      | Some (Inl e) \<Rightarrow> Some ((Inl e, string), st)
      | Some (Inr v) \<Rightarrow> Some ((Inr v, []), st[unat number := \<lparr>lf_value = v, lf_string = Some string\<rparr>]))"

definition lut_format :: "lut_field list \<Rightarrow> u32 \<Rightarrow> u32 \<Rightarrow> nat \<Rightarrow> string result" where
  "lut_format st number v len =
     (let field = st ! unat number in
      case lf_string field of
        Some string \<Rightarrow> if v = lf_value field then format_string len string else format_string len (show_hex8 v)
      | None \<Rightarrow> format_string len (show_hex8 v))"

definition lut_raw_format :: "'r register_methods \<Rightarrow> u32 \<Rightarrow> nat \<Rightarrow> 'r \<Rightarrow> string result \<times> 'r" where
  "lut_raw_format reg number len r = read_and_format reg (\<lambda>v. format_string len (show_hex8 v)) number r"

section \<open>Times\<close>

definition TIME_SECS :: u32 where "TIME_SECS = 1"

definition time_units_enum_set :: enum_set where
  "time_units_enum_set =
     [\<lparr>ee_value = 0, ee_name = Some ''min''\<rparr>, \<lparr>ee_value = 1, ee_name = Some ''s''\<rparr>,
      \<lparr>ee_value = 2, ee_name = Some ''ms''\<rparr>, \<lparr>ee_value = 3, ee_name = Some ''us''\<rparr>]"

definition time_conversion :: "'d fp_ops \<Rightarrow> 'd list" where
  "time_conversion fp = map (fp_literal fp) [''60.0'', ''1.0'', ''1e-3'', ''1e-6'']"

text \<open>
  \<^verbatim>\<open>time_units_enumeration\<close>, created by \<^verbatim>\<open>initialise_time\<close>; a set of four labels has no hash table.
\<close>

definition initialise_time :: "32 enumeration option" where
  "initialise_time = create_static_enumeration ucast time_units_enum_set"

definition time_units_enumeration :: "32 enumeration" where
  "time_units_enumeration = \<lparr>set_capacity = 0, enum_set = time_units_enum_set, name_map = None\<rparr>"

definition time_class_format ::
    "('d, 'r) type_env \<Rightarrow> u64 \<Rightarrow> u32 \<Rightarrow> nat \<Rightarrow> 'r \<Rightarrow> string result \<times> 'r" where
  "time_class_format env v scale len r =
     (let fp = te_fp env; (clock, r) = te_clock env r in
      (format_double fp len
         (fp_div fp (fp_div fp (fp_of_int fp (uint v)) (time_conversion fp ! unat scale)) (fp_of_int fp (uint clock))), r))"

definition time_class_parse ::
    "('d, 'r) type_env \<Rightarrow> u32 \<Rightarrow> u64 \<Rightarrow> string \<Rightarrow> 'r \<Rightarrow> (u64 result \<times> string) \<times> 'r" where
  "time_class_parse env scale max_value string r =
     (let fp = te_fp env in
      case parse_double fp string of
        (Inl e, string) \<Rightarrow> ((Inl e, string), r)
      | (Inr scaled_value, string) \<Rightarrow>
          (let (clock, r) = te_clock env r;
               v = fp_mul fp (fp_mul fp scaled_value (time_conversion fp ! unat scale)) (fp_of_int fp (uint clock)) in
           ((and_then (test_ok (fp_le fp (fp_of_int fp 0) v \<and> fp_le fp v (fp_of_int fp (uint max_value)))
               ''Time setting out of range'') (\<lambda>_. Inr (word_of_int (fp_llround fp v))), string), r)))"

definition time_type_init :: "u32 \<Rightarrow> u32 list" where
  "time_type_init cnt = replicate (unat cnt) TIME_SECS"

definition time_parse ::
    "('d, 'r) type_env \<Rightarrow> u32 list \<Rightarrow> u32 \<Rightarrow> string \<Rightarrow> 'r \<Rightarrow> (u32 result \<times> string) \<times> 'r" where
  "time_parse env st number string r =
     (case time_class_parse env (st ! unat number) 0xFFFFFFFF string r of
        ((res, string), r) \<Rightarrow> ((and_then res (\<lambda>v. Inr (ucast v)), string), r))"

definition time_format :: "('d, 'r) type_env \<Rightarrow> u32 list \<Rightarrow> u32 \<Rightarrow> u32 \<Rightarrow> nat \<Rightarrow> 'r \<Rightarrow> string result \<times> 'r" where
  "time_format env st number v len r = time_class_format env (ucast v) (st ! unat number) len r"

definition shared_units_format :: "u32 \<Rightarrow> nat \<Rightarrow> string result" where
  "shared_units_format scale len =
     (case enum_index_to_name time_units_enumeration scale of
        None \<Rightarrow> fail ''Unexpected error'' | Some units \<Rightarrow> format_string len units)"

definition shared_units_parse :: "string \<Rightarrow> u32 result option" where
  "shared_units_parse string =
     map_option (\<lambda>r. case r of None \<Rightarrow> fail ''Invalid time units'' | Some scale \<Rightarrow> Inr scale)
       (enum_name_to_index time_units_enumeration string)"

definition time_type_units_format :: "u32 list \<Rightarrow> u32 \<Rightarrow> nat \<Rightarrow> string result" where
  "time_type_units_format st number len = shared_units_format (st ! unat number) len"

definition time_type_units_put ::
    "'r register_methods \<Rightarrow> u32 list \<Rightarrow> u32 \<Rightarrow> string \<Rightarrow> 'r \<Rightarrow> (unit result \<times> u32 list \<times> 'r) option" where
  "time_type_units_put reg st number string r =
     map_option (\<lambda>res. case res of
         Inl e \<Rightarrow> (Inl e, st, r)
       | Inr scale \<Rightarrow> (Inr (), st[unat number := scale], changed_type_register reg number r))
       (shared_units_parse string)"

section \<open>Type objects\<close>

text \<open>
  A \<^verbatim>\<open>struct type\<close>: the constructor is its table of methods, the argument its \<^verbatim>\<open>type_data\<close>.
\<close>

datatype ('d, 'e) type_inst =
    Type_uint u32 | Type_int | Type_scalar "'d scalar_state" | Type_bit | Type_action
  | Type_lut "lut_field list" | Type_time "u32 list" | Type_enum 'e

definition get_type_name :: "('d, 'e) type_inst \<Rightarrow> string" where
  "get_type_name ty =
     (case ty of Type_uint _ \<Rightarrow> ''uint'' | Type_int \<Rightarrow> ''int'' | Type_scalar _ \<Rightarrow> ''scalar'' | Type_bit \<Rightarrow> ''bit''
      | Type_action \<Rightarrow> ''action'' | Type_lut _ \<Rightarrow> ''lut'' | Type_time _ \<Rightarrow> ''time'' | Type_enum _ \<Rightarrow> ''enum'')"

definition get_type_enumeration :: "('d, 'w::len enumeration) type_inst \<Rightarrow> 'w enumeration option" where
  "get_type_enumeration ty = (case ty of Type_enum en \<Rightarrow> Some en | _ \<Rightarrow> None)"

text \<open>The method \<^verbatim>\<open>parse\<close>; the outer option is a failing precondition of a routine it calls.\<close>

definition type_parse ::
    "('d, 'r) type_env \<Rightarrow> ('d, 'w::len enumeration) type_inst \<Rightarrow> u32 \<Rightarrow> string \<Rightarrow> 'r \<Rightarrow>
     ((u32 result \<times> string) \<times> ('d, 'w enumeration) type_inst \<times> 'r) option" where
  "type_parse env ty number string r =
     (case ty of
        Type_uint max_value \<Rightarrow> Some (uint_parse (te_lw env) max_value string, ty, r)
      | Type_int \<Rightarrow> Some (int_parse (te_lw env) string, ty, r)
      | Type_scalar st \<Rightarrow> Some (scalar_parse (te_fp env) st string, ty, r)
      | Type_bit \<Rightarrow> Some (bit_parse string, ty, r)
      | Type_action \<Rightarrow> Some (action_parse string, ty, r)
      | Type_lut st \<Rightarrow> map_option (\<lambda>(res, st). (res, Type_lut st, r)) (lut_parse (te_lw env) st number string)
      | Type_time st \<Rightarrow> (case time_parse env st number string r of (res, r) \<Rightarrow> Some (res, ty, r))
      | Type_enum en \<Rightarrow> map_option (\<lambda>res. (res, ty, r)) (enum_parse en string))"

text \<open>The method \<^verbatim>\<open>format\<close>, which an action does not have.\<close>

definition type_format ::
    "('d, 'r) type_env \<Rightarrow> ('d, 'w::len enumeration) type_inst \<Rightarrow> u32 \<Rightarrow> u32 \<Rightarrow> nat \<Rightarrow> 'r \<Rightarrow> string result \<times> 'r" where
  "type_format env ty number v len r =
     (case ty of
        Type_uint _ \<Rightarrow> (uint_format v len, r)
      | Type_int \<Rightarrow> (int_format v len, r)
      | Type_scalar st \<Rightarrow> (scalar_format (te_fp env) st v len, r)
      | Type_bit \<Rightarrow> (bit_format v len, r)
      | Type_action \<Rightarrow> (fail ''Cannot read action value'', r)
      | Type_lut st \<Rightarrow> (lut_format st number v len, r)
      | Type_time st \<Rightarrow> time_format env st number v len r
      | Type_enum en \<Rightarrow> (enum_format en v len, r))"

definition type_get ::
    "('d, 'r) type_env \<Rightarrow> 'r register_methods \<Rightarrow> ('d, 'w::len enumeration) type_inst \<Rightarrow> u32 \<Rightarrow> nat \<Rightarrow> 'r \<Rightarrow>
     string result \<times> 'r" where
  "type_get env reg ty number len r =
     (if ty = Type_action then (fail ''Cannot read action value'', r)
      else (case read_type_register reg number r of
              (Inl e, r) \<Rightarrow> (Inl e, r)
            | (Inr v, r) \<Rightarrow> type_format env ty number v len r))"

definition type_put ::
    "('d, 'r) type_env \<Rightarrow> 'r register_methods \<Rightarrow> ('d, 'w::len enumeration) type_inst \<Rightarrow> u32 \<Rightarrow> string \<Rightarrow> 'r \<Rightarrow>
     (unit result \<times> ('d, 'w enumeration) type_inst \<times> 'r) option" where
  "type_put env reg ty number string r =
     (case type_parse env ty number string r of
        None \<Rightarrow> None
      | Some ((Inl e, _), ty, r) \<Rightarrow> Some (Inl e, ty, r)
      | Some ((Inr v, string), ty, r) \<Rightarrow>
          (case parse_eos string of
             (Inl e, _) \<Rightarrow> Some (Inl e, ty, r)
           | (Inr _, _) \<Rightarrow> (case write_type_register reg number v r of (res, r) \<Rightarrow> Some (res, ty, r))))"

text \<open>\<^verbatim>\<open>lookup_type\<close> and the \<^verbatim>\<open>init\<close> method it finds, after the name of the type.\<close>

definition init_type ::
    "('d, 'r) type_env \<Rightarrow> u32 \<Rightarrow> string \<Rightarrow> ('d, 'w::len enumeration) type_inst parser" where
  "init_type env cnt name =
     (if name = ''uint'' then p_then (uint_init (te_lw env)) (\<lambda>m. p_return (Type_uint m))
      else if name = ''int'' then p_return Type_int
      else if name = ''scalar'' then p_then (scalar_init (te_fp env)) (\<lambda>st. p_return (Type_scalar st))
      else if name = ''bit'' then p_return Type_bit
      else if name = ''action'' then p_return Type_action
      else if name = ''lut'' then p_return (Type_lut (lut_init cnt))
      else if name = ''time'' then p_return (Type_time (time_type_init cnt))
      else if name = ''enum'' then p_return (Type_enum create_dynamic_enumeration)
      else p_lift (fail ''Unknown field type''))"

text \<open>When the default type is used the pointer of the caller is not moved.\<close>

definition create_type ::
    "('d, 'r) type_env \<Rightarrow> string option \<Rightarrow> u32 \<Rightarrow> ('d, 'w::len enumeration) type_inst parser" where
  "create_type env default_type cnt line =
     (let named = p_then (parse_name MAX_NAME_LENGTH) (init_type env cnt) in
      case default_type of
        Some dflt \<Rightarrow> if line = [] then (fst (named dflt), line) else p_then parse_whitespace (\<lambda>_. named) line
      | None \<Rightarrow> p_then parse_whitespace (\<lambda>_. named) line)"

section \<open>Only valid values are written\<close>

definition valid_value :: "('d, 'w::len enumeration) type_inst \<Rightarrow> u32 \<Rightarrow> bool" where
  "valid_value ty v =
     (case ty of
        Type_uint max_value \<Rightarrow> v \<le> max_value
      | Type_bit \<Rightarrow> v = 0 \<or> v = 1
      | Type_action \<Rightarrow> v = 0
      | Type_enum en \<Rightarrow> enum_index_to_name en v \<noteq> None
      | _ \<Rightarrow> True)"

lemma enum_parse_Inr:
  assumes "enum_inv en" "enum_parse en s = Some (Inr v, rest)"
  shows "enum_index_to_name en v = Some s"
  using assms
  using enum_search_iff [OF assms(1), of s v] by (auto simp: enum_parse_def split: option.splits)

lemma type_parse_valid:
  assumes "type_parse env ty n s r = Some ((Inr v, rest), ty', r')"
    and "\<And>en. ty = Type_enum en \<Longrightarrow> enum_inv en"
  shows "valid_value ty v"
proof (cases ty)
  case (Type_enum en)
  then show ?thesis using assms enum_parse_Inr [of en s v rest] by (auto simp: type_parse_def valid_value_def)
qed (use assms in \<open>auto simp: type_parse_def valid_value_def uint_parse_def bit_parse_def action_parse_def p_then_eq_Inr\<close>)

text \<open>
  C32: whatever text a client sends, what \<^verbatim>\<open>type_put\<close> writes to the register is a value of the type: it
  does not exceed the maximum of an unsigned integer, a bit is 0 or 1, an action is 0, and an enumeration
  value has a label.
\<close>

theorem type_put_valid:
  assumes "type_put env reg ty n s r = Some (Inr (), ty', r')"
    and "\<And>en. ty = Type_enum en \<Longrightarrow> enum_inv en"
  shows "\<exists>v r0. valid_value ty v \<and> write_type_register reg n v r0 = (Inr (), r')"
proof -
  from assms(1) obtain v rest r0 where
    "type_parse env ty n s r = Some ((Inr v, rest), ty', r0)" "write_type_register reg n v r0 = (Inr (), r')"
    by (auto simp: type_put_def split: option.splits prod.splits sum.splits)
  with type_parse_valid [OF this(1) assms(2)] show ?thesis by blast
qed

definition sample_fp :: "int fp_ops" where
  "sample_fp = \<lparr>fp_strtod = (\<lambda>s. (0, False, s)), fp_show = (\<lambda>_. ''0''), fp_add = (+), fp_sub = (-), fp_mul = (*),
     fp_div = (div), fp_round = id, fp_le = (\<le>), fp_of_int = id, fp_literal = (\<lambda>_. 1), fp_to_u32 = word_of_int,
     fp_llround = id\<rparr>"

definition sample_env :: "(int, 'r) type_env" where
  "sample_env = \<lparr>te_fp = sample_fp, te_lw = 64, te_clock = (\<lambda>r. (125000000, r))\<rparr>"

definition cell_methods :: "u32 register_methods" where
  "cell_methods = \<lparr>rm_read = Some (\<lambda>r _. (Inr r, r)), rm_write = Some (\<lambda>_ _ v. (Inr (), v)), rm_changed = None\<rparr>"

theorem type_put_valid_witness:
  "\<exists>v r0. valid_value (Type_bit :: (int, 32 enumeration) type_inst) v \<and>
    write_type_register cell_methods 0 v r0 = (Inr (), 1)"
  by (rule type_put_valid [where s = "''1''" and env = sample_env and ty' = Type_bit and r = 0])
    (simp_all add: type_put_def type_parse_def bit_parse_def parse_bit_def p_then_def parse_eos_def
      write_type_register_def cell_methods_def)

section \<open>Reading back what was read\<close>

lemma hex_digit_ok: "d < 16 \<Longrightarrow> is_digit_of 16 (hex_digit d) \<and> digit_val (hex_digit d) = Some d"
  by (auto simp: is_digit_of_def digit_val_def hex_digit_def is_digit_def is_upper_def is_lower_def)

lemma scan_hex_digits:
  "\<forall>d \<in> set ds. d < 16 \<Longrightarrow> scan_digits 16 acc (map hex_digit ds) = (foldl (\<lambda>a d. 16 * a + d) acc ds, [])"
proof (induction ds arbitrary: acc)
  case (Cons d ds)
  with hex_digit_ok [of d] show ?case by simp
qed simp

lemma nibble: "unat (drop_bit k (x :: u32) AND 0xF) = unat x div 2 ^ k mod 16"
proof -
  have "drop_bit k x AND 0xF = take_bit 4 (drop_bit k x)" by (simp add: take_bit_eq_mask mask_eq_exp_minus_1)
  then have "unat (drop_bit k x AND 0xF) = take_bit 4 (drop_bit k (unat x))"
    by (simp only: unsigned_take_bit_eq unat_drop_bit_eq)
  then show ?thesis by (simp add: take_bit_eq_mod drop_bit_eq_div)
qed

lemma nibbles_value: "foldl (\<lambda>a d. 16 * a + d) 0 (map (\<lambda>i. n div 2 ^ (4 * (7 - i)) mod 16) [0..<8]) = n" if "n < 2 ^ 32" for n :: nat
proof -
  have step: "16 * (n div 2 ^ (k + 4)) + n div 2 ^ k mod 16 = n div 2 ^ k" for k
    using mult_div_mod_eq [of 16 "n div 2 ^ k"] by (simp add: power_add div_mult2_eq)
  have z: "n div 2 ^ 28 mod 16 = n div 2 ^ 28"
    using that by (intro mod_less) (simp add: less_mult_imp_div_less)
  have "foldl (\<lambda>a d. 16 * a + d) 0 (map (\<lambda>i. n div 2 ^ (4 * (7 - i)) mod 16) [0..<8]) =
    16 * (16 * (16 * (16 * (16 * (16 * (16 * (n div 2 ^ 28 mod 16) + n div 2 ^ 24 mod 16) + n div 2 ^ 20 mod 16) +
      n div 2 ^ 16 mod 16) + n div 2 ^ 12 mod 16) + n div 2 ^ 8 mod 16) + n div 2 ^ 4 mod 16) + n div 2 ^ 0 mod 16"
    by (simp add: upt_rec)
  also have "\<dots> = n"
    unfolding z using step [of 24] step [of 20] step [of 16] step [of 12] step [of 8] step [of 4] step [of 0] by simp
  finally show ?thesis .
qed

lemma strtoul_hex_shown: "32 \<le> lw \<Longrightarrow> strtoul_hex lw (show_hex8 x) = (unat x, [])"
proof -
  assume lw: "32 \<le> lw"
  let ?ds = "map (\<lambda>i. unat x div 2 ^ (4 * (7 - i)) mod 16) [0..<8]"
  have s: "show_hex8 x = ''0x'' @ map hex_digit ?ds" by (simp add: show_hex8_def nibble)
  have x: "unat x < 2 ^ 32" using unsigned_less [of x, where ?'a = nat] by simp
  have "(2 :: nat) ^ 32 \<le> 2 ^ lw" using lw by (intro power_increasing) simp_all
  with x have "unat x < 2 ^ lw" by linarith
  moreover have "scan_digits 16 0 (map hex_digit ?ds) = (unat x, [])"
    using scan_hex_digits [of ?ds 0] nibbles_value [OF x] by simp
  moreover have "is_digit_of 16 (peek (map hex_digit ?ds))"
    using hex_digit_ok by (simp add: upt_rec)
  ultimately show ?thesis by (simp add: strtoul_hex_def s)
qed

lemma do_parse_lut_shown: "32 \<le> lw \<Longrightarrow> do_parse_lut lw (show_hex8 x) = Some (Inr x)"
proof -
  assume lw: "32 \<le> lw"
  have t: "take 2 (show_hex8 x) = ''0x''" by (simp add: show_hex8_def)
  show ?thesis unfolding do_parse_lut_def t strtoul_hex_shown [OF lw] by simp
qed

text \<open>
  The consistency of a type with the value of its register: the value is valid, and the text that
  a lookup table remembers denotes the value it remembers.
\<close>

definition type_inv :: "nat \<Rightarrow> ('d, 'w::len enumeration) type_inst \<Rightarrow> u32 \<Rightarrow> u32 \<Rightarrow> bool" where
  "type_inv lw ty n v =
     (valid_value ty v \<and>
      (case ty of
         Type_lut st \<Rightarrow> unat n < length st \<and>
           (\<forall>s. lf_string (st ! unat n) = Some s \<longrightarrow> do_parse_lut lw s = Some (Inr (lf_value (st ! unat n))))
       | Type_enum en \<Rightarrow> enum_inv en
       | _ \<Rightarrow> True))"

definition exact_type :: "('d, 'e) type_inst \<Rightarrow> bool" where
  "exact_type ty = (case ty of Type_scalar _ \<Rightarrow> False | Type_time _ \<Rightarrow> False | Type_action \<Rightarrow> False | _ \<Rightarrow> True)"

lemma format_string_Inr [simp]: "format_string len s = Inr t \<longleftrightarrow> length s < len \<and> t = s"
  by (auto simp: format_string_def)

lemma parse_format:
  assumes "exact_type ty" "type_inv (te_lw env) ty n v" "32 \<le> te_lw env" "type_format env ty n v len r = (Inr text, r')"
  shows "r' = r \<and> (\<exists>ty'. type_parse env ty n text r = Some ((Inr v, []), ty', r))"
proof (cases ty)
  case (Type_uint m)
  have "ends_token []" by (simp add: ends_token_def)
  with Type_uint assms parse_uint_shown [of "[]" "te_lw env" v] show ?thesis
    by (simp add: type_format_def uint_format_def type_parse_def uint_parse_def p_then_def type_inv_def valid_value_def
        parse_uint_def parse_uint32_def)
next
  case Type_int
  with assms parse_int_shown [of "te_lw env" v] show ?thesis
    by (simp add: type_format_def int_format_def type_parse_def int_parse_def)
next
  case Type_bit
  then show ?thesis using assms
    by (auto simp: type_format_def bit_format_def type_parse_def bit_parse_def p_then_def type_inv_def valid_value_def parse_bit_def)
next
  case (Type_lut st)
  then show ?thesis using assms do_parse_lut_shown [of "te_lw env" v]
    by (auto simp: type_format_def lut_format_def type_parse_def lut_parse_def type_inv_def Let_def split: option.splits if_splits)
next
  case (Type_enum en)
  with assms(2,4) have "enum_inv en" "enum_index_to_name en v = Some text" "r' = r"
    by (auto simp: type_format_def enum_format_def format_enumeration_def type_inv_def fail_def split: option.splits)
  moreover from this have "enum_name_to_index en text = Some (Some v)" using enum_search_iff by blast
  ultimately show ?thesis by (simp add: type_parse_def enum_parse_def Type_enum)
qed (use assms in \<open>simp_all add: exact_type_def\<close>)

section \<open>Types over a register that keeps its value\<close>

text \<open>
  What a type relies on: reading gives the stored value, and a write that is possible stores the value
  under the number that was written.
\<close>

locale register_file =
  fixes reg :: "'r register_methods"
    and reg_val :: "'r \<Rightarrow> u32 \<Rightarrow> u32"
    and usable :: "'r \<Rightarrow> u32 \<Rightarrow> bool"
  assumes reg_read: "usable r n \<Longrightarrow> read_type_register reg n r = (Inr (reg_val r n), r)"
    and reg_write: "usable r n \<Longrightarrow>
      \<exists>r'. write_type_register reg n v r = (Inr (), r') \<and> reg_val r' = (reg_val r)(n := v) \<and> usable r' n"
begin

lemma get_then_put:
  assumes "usable r n" "exact_type ty" "type_inv (te_lw env) ty n (reg_val r n)" "32 \<le> te_lw env"
    and "type_get env reg ty n len r = (Inr text, r1)"
  shows "r1 = r \<and> (\<exists>ty' r2. type_put env reg ty n text r = Some (Inr (), ty', r2) \<and> reg_val r2 = reg_val r)"
proof -
  have "type_format env ty n (reg_val r n) len r = (Inr text, r1)"
    using assms(2,5) reg_read [OF assms(1)] by (simp add: type_get_def exact_type_def fail_def split: if_splits)
  from parse_format [OF assms(2-4) this] obtain ty' where
    p: "r1 = r" "type_parse env ty n text r = Some ((Inr (reg_val r n), []), ty', r)" by blast
  obtain r2 where "write_type_register reg n (reg_val r n) r = (Inr (), r2)" "reg_val r2 = (reg_val r)(n := reg_val r n)"
    using reg_write [OF assms(1)] by blast
  with p show ?thesis by (simp add: type_put_def parse_eos_def)
qed

lemma put_then_get:
  assumes "usable r n" "ty \<noteq> Type_action" "type_put env reg ty n s r = Some (Inr (), ty', r')"
    and "\<And>st. ty \<noteq> Type_time st" "\<And>en. ty = Type_enum en \<Longrightarrow> enum_inv en"
  shows "\<exists>v. valid_value ty v \<and> reg_val r' = (reg_val r)(n := v) \<and>
    type_get env reg ty' n len r' = type_format env ty' n v len r'"
proof -
  from assms(3) obtain v rest r0 where
    p: "type_parse env ty n s r = Some ((Inr v, rest), ty', r0)" "write_type_register reg n v r0 = (Inr (), r')"
    by (auto simp: type_put_def split: option.splits prod.splits sum.splits)
  have same: "r0 = r" "ty' \<noteq> Type_action"
    using p(1) assms(2,4) by (cases ty; auto simp: type_parse_def)+
  with p(2) reg_write [OF assms(1), of v] have w: "reg_val r' = (reg_val r)(n := v)" "usable r' n" by auto
  then have "type_get env reg ty' n len r' = type_format env ty' n v len r'"
    using reg_read [OF w(2)] same(2) by (simp add: type_get_def)
  with w(1) type_parse_valid [OF p(1) assms(5)] show ?thesis by blast
qed

end

end
