(* ===== verification/Panda_Register.thy ===== *)
theory Panda_Register
  imports Panda_Types Panda_Blocks
begin

text \<open>
  \<^verbatim>\<open>register.c\<close>: the classes \<^verbatim>\<open>param\<close>, \<^verbatim>\<open>read\<close> and \<^verbatim>\<open>write\<close>, which connect a type to a hardware register
  or to a register of the extension server.  The connection to that server is a parameter.
\<close>

record ('x, 's) ext_ops =
  extension_write_register :: "'x \<Rightarrow> u32 \<Rightarrow> u32 \<Rightarrow> 's \<Rightarrow> unit result \<times> 's"
  extension_read_register :: "'x \<Rightarrow> u32 \<Rightarrow> 's \<Rightarrow> u32 result \<times> 's"
  parse_extension_register :: "string \<Rightarrow> u32 \<Rightarrow> bool \<Rightarrow> 'x result \<times> string"

record ('x, 'd, 'e) base_state =
  bs_type :: "('d, 'e) type_inst"
  bs_block_base :: u32
  bs_field_register :: u32
  bs_extension :: "'x option"
  bs_read_only :: bool

definition base_parse_register ::
    "('x, 's) ext_ops \<Rightarrow> nat \<Rightarrow> ('x, 'd, 'e) base_state \<Rightarrow> u32 \<Rightarrow> string \<Rightarrow> bool \<Rightarrow> block_type list \<Rightarrow>
     (unit result \<times> string) \<times> ('x, 'd, 'e) base_state \<times> block_type list" where
  "base_parse_register ext lw st block_base line write_not_read types =
     (let st = st\<lparr>bs_block_base := block_base\<rparr> in
      if CHR ''X'' \<in> set line then
        (case parse_extension_register ext line block_base write_not_read of
           (Inl e, line) \<Rightarrow> ((Inl e, line), st, types)
         | (Inr address, line) \<Rightarrow> ((Inr (), line), st\<lparr>bs_extension := Some address\<rparr>, types))
      else
        (case check_parse_register lw block_base line types of
           ((Inl e, line), types) \<Rightarrow> ((Inl e, line), st, types)
         | ((Inr reg, line), types) \<Rightarrow> ((Inr (), line), st\<lparr>bs_field_register := reg\<rparr>, types)))"

definition read_parse_register ::
    "('x, 's) ext_ops \<Rightarrow> nat \<Rightarrow> ('x, 'd, 'e) base_state \<Rightarrow> u32 \<Rightarrow> string \<Rightarrow> block_type list \<Rightarrow>
     (unit result \<times> string) \<times> ('x, 'd, 'e) base_state \<times> block_type list" where
  "read_parse_register ext lw st block_base line types = base_parse_register ext lw st block_base line False types"

definition write_parse_register ::
    "('x, 's) ext_ops \<Rightarrow> nat \<Rightarrow> ('x, 'd, 'e) base_state \<Rightarrow> u32 \<Rightarrow> string \<Rightarrow> block_type list \<Rightarrow>
     (unit result \<times> string) \<times> ('x, 'd, 'e) base_state \<times> block_type list" where
  "write_parse_register ext lw st block_base line types = base_parse_register ext lw st block_base line True types"

definition base_describe :: "('x, 'd, 'e) base_state \<Rightarrow> string" where
  "base_describe st = get_type_name (bs_type st)"

definition base_get_enumeration :: "('x, 'd, 'w::len enumeration) base_state \<Rightarrow> 'w enumeration option" where
  "base_get_enumeration st = get_type_enumeration (bs_type st)"

definition write_register ::
    "'s device \<Rightarrow> ('x, 's) ext_ops \<Rightarrow> ('x, 'd, 'e) base_state \<Rightarrow> u32 \<Rightarrow> u32 \<Rightarrow> 's \<Rightarrow> unit result \<times> 's" where
  "write_register dev ext st number v s =
     (case bs_extension st of
        Some address \<Rightarrow> extension_write_register ext address number v s
      | None \<Rightarrow> (Inr (), hw_write_register dev (bs_block_base st) number (bs_field_register st) v s))"

definition read_register ::
    "'s device \<Rightarrow> ('x, 's) ext_ops \<Rightarrow> ('x, 'd, 'e) base_state \<Rightarrow> u32 \<Rightarrow> 's \<Rightarrow> u32 result \<times> 's" where
  "read_register dev ext st number s =
     (case bs_extension st of
        Some address \<Rightarrow> extension_read_register ext address number s
      | None \<Rightarrow> (case hw_read_register dev (bs_block_base st) number (bs_field_register st) s of (v, s) \<Rightarrow> (Inr v, s)))"

definition register_get_registers :: "('x, 'd, 'e) base_state \<Rightarrow> u32 list result" where
  "register_get_registers st =
     and_then (test_ok (bs_extension st = None) ''Field uses an extension register, not a simple one'')
       (\<lambda>_. Inr [bs_field_register st])"

definition register_set_read_only :: "('x, 'd, 'e) base_state \<Rightarrow> ('x, 'd, 'e) base_state" where
  "register_set_read_only st = st\<lparr>bs_read_only := True\<rparr>"

section \<open>State of param and read registers\<close>

record simple_field =
  sf_value :: u32
  sf_update_index :: u64

record ('x, 'd, 'e) simple_state =
  ss_base :: "('x, 'd, 'e) base_state"
  ss_values :: "simple_field list"

text \<open>The state that the register methods act on: the class, the global change index and the devices.\<close>

type_synonym ('x, 'd, 'e, 's) reg_world = "('x, 'd, 'e) simple_state \<times> u64 \<times> 's"

definition fresh_base :: "('d, 'e) type_inst \<Rightarrow> ('x, 'd, 'e) base_state" where
  "fresh_base ty = \<lparr>bs_type = ty, bs_block_base = 0, bs_field_register = 0, bs_extension = None, bs_read_only = False\<rparr>"

definition simple_register_init ::
    "('d, 'r) type_env \<Rightarrow> u32 \<Rightarrow> ('x, 'd, 'w::len enumeration) simple_state parser" where
  "simple_register_init env cnt =
     p_then (create_type env (Some ''uint'') cnt) (\<lambda>ty.
       p_return \<lparr>ss_base = fresh_base ty, ss_values = replicate (unat cnt) \<lparr>sf_value = 0, sf_update_index = 1\<rparr>\<rparr>)"

definition set_value :: "('x, 'd, 'e) simple_state \<Rightarrow> u32 \<Rightarrow> u32 \<Rightarrow> u64 \<Rightarrow> ('x, 'd, 'e) simple_state" where
  "set_value st number v ix = st\<lparr>ss_values := (ss_values st)[unat number := \<lparr>sf_value = v, sf_update_index = ix\<rparr>]\<rparr>"

definition simple_register_changed :: "('x, 'd, 'e, 's) reg_world \<Rightarrow> u32 \<Rightarrow> ('x, 'd, 'e, 's) reg_world" where
  "simple_register_changed w number =
     (case w of (st, gci, s) \<Rightarrow>
        (let (ix, gci) = get_change_index gci in
         (set_value st number (sf_value (ss_values st ! unat number)) ix, gci, s)))"

section \<open>Parameters\<close>

definition param_read :: "('x, 'd, 'e, 's) reg_world \<Rightarrow> u32 \<Rightarrow> u32 result \<times> ('x, 'd, 'e, 's) reg_world" where
  "param_read w number = (Inr (sf_value (ss_values (fst w) ! unat number)), w)"

definition param_write ::
    "'s device \<Rightarrow> ('x, 's) ext_ops \<Rightarrow> ('x, 'd, 'e, 's) reg_world \<Rightarrow> u32 \<Rightarrow> u32 \<Rightarrow>
     unit result \<times> ('x, 'd, 'e, 's) reg_world" where
  "param_write dev ext w number v =
     (case w of (st, gci, s) \<Rightarrow>
        (case write_register dev ext (ss_base st) number v s of
           (Inl e, s) \<Rightarrow> (Inl e, (st, gci, s))
         | (Inr _, s) \<Rightarrow> (let (ix, gci) = get_change_index gci in (Inr (), (set_value st number v ix, gci, s)))))"

definition param_methods :: "'s device \<Rightarrow> ('x, 's) ext_ops \<Rightarrow> ('x, 'd, 'e, 's) reg_world register_methods" where
  "param_methods dev ext =
     \<lparr>rm_read = Some param_read, rm_write = Some (param_write dev ext), rm_changed = Some simple_register_changed\<rparr>"

definition parse_default_param ::
    "nat \<Rightarrow> ('x, 'd, 'e) simple_state \<Rightarrow> ('x, 'd, 'e) simple_state parser" where
  "parse_default_param lw st line =
     (case read_char (CHR '' '') line of
        (False, line) \<Rightarrow> (Inr st, line)
      | (True, line) \<Rightarrow>
          p_then (parse_char (CHR ''='')) (\<lambda>_. p_then (parse_uint32 lw) (\<lambda>default_value.
            p_return (st\<lparr>ss_values := map (\<lambda>f. f\<lparr>sf_value := default_value\<rparr>) (ss_values st)\<rparr>)))
            (skip_whitespace line))"

definition param_init ::
    "('d, 'r) type_env \<Rightarrow> u32 \<Rightarrow> ('x, 'd, 'w::len enumeration) simple_state parser" where
  "param_init env cnt = p_then (simple_register_init env cnt) (parse_default_param (te_lw env))"

text \<open>
  The loop of \<^verbatim>\<open>param_finalise\<close> goes on while there is an error, and the error it starts with is
  \<^verbatim>\<open>ERROR_OK\<close>.
\<close>

fun param_finalise_loop ::
    "'s device \<Rightarrow> ('x, 's) ext_ops \<Rightarrow> ('x, 'd, 'e) simple_state \<Rightarrow> nat list \<Rightarrow> unit result \<Rightarrow> 's \<Rightarrow> unit result \<times> 's" where
  "param_finalise_loop dev ext st [] err s = (err, s)"
| "param_finalise_loop dev ext st (i # is) err s =
     (if \<not> is_ok err then
        (case write_register dev ext (ss_base st) (word_of_nat i) (sf_value (ss_values st ! i)) s of
           (err, s) \<Rightarrow> param_finalise_loop dev ext st is err s)
      else (err, s))"

definition param_finalise ::
    "'s device \<Rightarrow> ('x, 's) ext_ops \<Rightarrow> ('x, 'd, 'e) simple_state \<Rightarrow> 's \<Rightarrow> unit result \<times> 's" where
  "param_finalise dev ext st s = param_finalise_loop dev ext st [0..<length (ss_values st)] (Inr ()) s"

definition param_change_set :: "('x, 'd, 'e) simple_state \<Rightarrow> u64 \<Rightarrow> bool list" where
  "param_change_set st report_index = map (\<lambda>f. sf_update_index f > report_index) (ss_values st)"

section \<open>Reading and writing a field\<close>

definition base_get ::
    "('d, ('x, 'd, 'w::len enumeration, 's) reg_world) type_env \<Rightarrow> ('x, 'd, 'w enumeration, 's) reg_world register_methods \<Rightarrow>
     u32 \<Rightarrow> nat \<Rightarrow> ('x, 'd, 'w enumeration, 's) reg_world \<Rightarrow> string result \<times> ('x, 'd, 'w enumeration, 's) reg_world" where
  "base_get env reg number len w = type_get env reg (bs_type (ss_base (fst w))) number len w"

definition set_type :: "('d, 'e) type_inst \<Rightarrow> ('x, 'd, 'e, 's) reg_world \<Rightarrow> ('x, 'd, 'e, 's) reg_world" where
  "set_type ty w = (case w of (st, rest) \<Rightarrow> (st\<lparr>ss_base := (ss_base st)\<lparr>bs_type := ty\<rparr>\<rparr>, rest))"

definition base_put ::
    "('d, ('x, 'd, 'w::len enumeration, 's) reg_world) type_env \<Rightarrow> ('x, 'd, 'w enumeration, 's) reg_world register_methods \<Rightarrow>
     u32 \<Rightarrow> string \<Rightarrow> ('x, 'd, 'w enumeration, 's) reg_world \<Rightarrow>
     (unit result \<times> ('x, 'd, 'w enumeration, 's) reg_world) option" where
  "base_put env reg number string w =
     (if bs_read_only (ss_base (fst w)) then Some (fail ''Field is bridge-owned (client writes refused)'', w)
      else map_option (\<lambda>(res, ty, w). (res, set_type ty w))
             (type_put env reg (bs_type (ss_base (fst w))) number string w))"

section \<open>Read only and write only registers\<close>

definition locked_read_read ::
    "'s device \<Rightarrow> ('x, 's) ext_ops \<Rightarrow> ('x, 'd, 'e, 's) reg_world \<Rightarrow> u32 \<Rightarrow> u32 result \<times> ('x, 'd, 'e, 's) reg_world" where
  "locked_read_read dev ext w number =
     (case w of (st, gci, s) \<Rightarrow>
        (case read_register dev ext (ss_base st) number s of
           (Inl e, s) \<Rightarrow> (Inl e, (st, gci, s))
         | (Inr v, s) \<Rightarrow>
             if v \<noteq> sf_value (ss_values st ! unat number) then
               (let (ix, gci) = get_change_index gci in (Inr v, (set_value st number v ix, gci, s)))
             else (Inr v, (st, gci, s))))"

definition read_read ::
    "'s device \<Rightarrow> ('x, 's) ext_ops \<Rightarrow> ('x, 'd, 'e, 's) reg_world \<Rightarrow> u32 \<Rightarrow> u32 result \<times> ('x, 'd, 'e, 's) reg_world" where
  "read_read dev ext w number = locked_read_read dev ext w number"

fun read_change_loop ::
    "'s device \<Rightarrow> ('x, 's) ext_ops \<Rightarrow> nat list \<Rightarrow> u64 \<Rightarrow> ('x, 'd, 'e, 's) reg_world \<Rightarrow>
     bool list \<times> ('x, 'd, 'e, 's) reg_world" where
  "read_change_loop dev ext [] report_index w = ([], w)"
| "read_change_loop dev ext (i # is) report_index w =
     (let (_, w) = locked_read_read dev ext w (word_of_nat i);
          change = sf_update_index (ss_values (fst w) ! i) > report_index;
          (changes, w) = read_change_loop dev ext is report_index w in
      (change # changes, w))"

definition read_change_set ::
    "'s device \<Rightarrow> ('x, 's) ext_ops \<Rightarrow> u64 \<Rightarrow> ('x, 'd, 'e, 's) reg_world \<Rightarrow> bool list \<times> ('x, 'd, 'e, 's) reg_world" where
  "read_change_set dev ext report_index w =
     read_change_loop dev ext [0..<length (ss_values (fst w))] report_index w"

definition read_methods :: "'s device \<Rightarrow> ('x, 's) ext_ops \<Rightarrow> ('x, 'd, 'e, 's) reg_world register_methods" where
  "read_methods dev ext = \<lparr>rm_read = Some (read_read dev ext), rm_write = None, rm_changed = Some simple_register_changed\<rparr>"

definition read_init :: "('d, 'r) type_env \<Rightarrow> u32 \<Rightarrow> ('x, 'd, 'w::len enumeration) simple_state parser" where
  "read_init env cnt = simple_register_init env cnt"

definition write_write ::
    "'s device \<Rightarrow> ('x, 's) ext_ops \<Rightarrow> ('x, 'd, 'e) base_state \<times> 's \<Rightarrow> u32 \<Rightarrow> u32 \<Rightarrow>
     unit result \<times> ('x, 'd, 'e) base_state \<times> 's" where
  "write_write dev ext w number v =
     (case write_register dev ext (fst w) number v (snd w) of (r, s) \<Rightarrow> (r, (fst w, s)))"

definition write_methods :: "'s device \<Rightarrow> ('x, 's) ext_ops \<Rightarrow> (('x, 'd, 'e) base_state \<times> 's) register_methods" where
  "write_methods dev ext = \<lparr>rm_read = None, rm_write = Some (write_write dev ext), rm_changed = None\<rparr>"

definition write_init :: "('d, 'r) type_env \<Rightarrow> u32 \<Rightarrow> ('x, 'd, 'w::len enumeration) base_state parser" where
  "write_init env cnt = p_then (create_type env (Some ''uint'') cnt) (\<lambda>ty. p_return (fresh_base ty))"

section \<open>Reading and writing back\<close>

text \<open>The value of a parameter, and when the class uses a hardware register.\<close>

definition param_val :: "('x, 'd, 'e, 's) reg_world \<Rightarrow> u32 \<Rightarrow> u32" where
  "param_val w n = (if unat n < length (ss_values (fst w)) then sf_value (ss_values (fst w) ! unat n) else 0)"

definition param_usable :: "('x, 'd, 'e, 's) reg_world \<Rightarrow> u32 \<Rightarrow> bool" where
  "param_usable w n = (unat n < length (ss_values (fst w)) \<and> bs_extension (ss_base (fst w)) = None)"

interpretation params: register_file "param_methods dev ext" param_val param_usable
  by unfold_locales
    (auto simp: param_methods_def read_type_register_def write_type_register_def param_read_def param_write_def
      param_val_def param_usable_def write_register_def get_change_index_def set_value_def Let_def fun_eq_iff
      nth_list_update word_unat_eq_iff)

lemma param_val_set_type [simp]: "param_val (set_type ty w) = param_val w"
  by (cases w) (simp add: param_val_def set_type_def fun_eq_iff)


definition bit_param :: "(unit, int, 32 enumeration, u32) reg_world" where
  "bit_param = (\<lparr>ss_base = fresh_base Type_bit, ss_values = [\<lparr>sf_value = 1, sf_update_index = 1\<rparr>]\<rparr>, 7, 0)"

definition cell_device :: "u32 device" where
  "cell_device = plain_device (\<lambda>_ v _. v) (\<lambda>_ s. (s, s))"

definition no_extension :: "(unit, u32) ext_ops" where
  "no_extension = \<lparr>extension_write_register = (\<lambda>_ _ _ s. (fail ''none'', s)),
     extension_read_register = (\<lambda>_ _ s. (fail ''none'', s)), parse_extension_register = (\<lambda>line _ _. (fail ''none'', line))\<rparr>"


text \<open>
  \<^verbatim>\<open>param_finalise\<close> is there to write the default values, but it returns success without any
  access to the hardware, whatever the state is.
\<close>

lemma param_finalise_writes_nothing: "param_finalise dev ext st s = (Inr (), s)"
  by (cases "length (ss_values st)") (simp_all add: param_finalise_def upt_rec is_ok_def)

text \<open>
  The mark that refuses client writes is looked at by \<^verbatim>\<open>base_put\<close> only: the attribute \<^verbatim>\<open>RAW\<close> of the same
  field still writes the register.
\<close>

lemma read_only_bypassed:
  assumes "bs_read_only (ss_base st)" "bs_extension (ss_base st) = None" "parse_uint lw txt = (Inr v, [])"
  shows "base_put env (param_methods dev ext) n txt (st, gci, s) =
      Some (fail ''Field is bridge-owned (client writes refused)'', (st, gci, s))"
    and "raw_put_uint lw (param_methods dev ext) n txt (st, gci, s) =
      (Inr (), (set_value st n v (gci + 1), gci + 1,
        hw_write_register dev (bs_block_base (ss_base st)) n (bs_field_register (ss_base st)) v s))"
  using assms
  by (simp_all add: base_put_def raw_put_uint_def parse_and_write_def p_then_def parse_eos_def p_return_def
      write_type_register_def param_methods_def param_write_def write_register_def get_change_index_def)

end
