(* ===== verification/Panda_Time.thy ===== *)
theory Panda_Time
  imports Panda_Register
begin

text \<open>
  The class of \<^verbatim>\<open>time.c\<close>: 48 bit times kept in two registers.  The conversion between text and ticks,
  shared with the type of the same file, is in \<^verbatim>\<open>Panda_Types\<close>.
\<close>

definition MAX_CLOCK_VALUE :: u64 where "MAX_CLOCK_VALUE = 2 ^ 48 - 1"

definition show_u64 :: "u64 \<Rightarrow> string" where
  "show_u64 x = show_base 10 (unat x)"

record time_field =
  tf_time_scale :: u32
  tf_value :: u64
  tf_update_index :: u64

record time_class_state =
  tc_block_base :: u32
  tc_low_register :: u32
  tc_high_register :: u32
  tc_values :: "time_field list"

text \<open>The state of the class, the global change index and the devices.\<close>

type_synonym 's time_world = "time_class_state \<times> u64 \<times> 's"

definition time_class_init :: "u32 \<Rightarrow> time_class_state" where
  "time_class_init cnt =
     \<lparr>tc_block_base = UNASSIGNED_REGISTER, tc_low_register = UNASSIGNED_REGISTER, tc_high_register = UNASSIGNED_REGISTER,
      tc_values = replicate (unat cnt) \<lparr>tf_time_scale = TIME_SECS, tf_value = 0, tf_update_index = 1\<rparr>\<rparr>"

text \<open>A pair of registers: low bits, then high bits.\<close>

definition time_parse_register ::
    "nat \<Rightarrow> time_class_state \<Rightarrow> u32 \<Rightarrow> string \<Rightarrow> block_type list \<Rightarrow>
     (unit result \<times> string) \<times> time_class_state \<times> block_type list" where
  "time_parse_register lw st block_base line types =
     (let st = st\<lparr>tc_block_base := block_base\<rparr> in
      case check_parse_register lw block_base line types of
        ((Inl e, line), types) \<Rightarrow> ((Inl e, line), st, types)
      | ((Inr low, line), types) \<Rightarrow>
          (let st = st\<lparr>tc_low_register := low\<rparr> in
           case parse_whitespace line of
             (Inl e, line) \<Rightarrow> ((Inl e, line), st, types)
           | (Inr _, line) \<Rightarrow>
               (case check_parse_register lw block_base line types of
                  ((Inl e, line), types) \<Rightarrow> ((Inl e, line), st, types)
                | ((Inr high, line), types) \<Rightarrow> ((Inr (), line), st\<lparr>tc_high_register := high\<rparr>, types))))"

definition time_get ::
    "('d, 's) type_env \<Rightarrow> u32 \<Rightarrow> nat \<Rightarrow> 's time_world \<Rightarrow> string result \<times> 's time_world" where
  "time_get env number len w =
     (case w of (st, gci, s) \<Rightarrow>
        (let field = tc_values st ! unat number;
             (res, s) = time_class_format env (tf_value field) (tf_time_scale field) len s in
         (res, (st, gci, s))))"

definition set_time_field :: "u32 \<Rightarrow> (time_field \<Rightarrow> time_field) \<Rightarrow> time_class_state \<Rightarrow> time_class_state" where
  "set_time_field number f st =
     st\<lparr>tc_values := (tc_values st)[unat number := f (tc_values st ! unat number)]\<rparr>"

definition write_time_value :: "'s device \<Rightarrow> u32 \<Rightarrow> u64 \<Rightarrow> 's time_world \<Rightarrow> unit result \<times> 's time_world" where
  "write_time_value dev number v w =
     (case w of (st, gci, s) \<Rightarrow>
        (let s = hw_write_register dev (tc_block_base st) number (tc_low_register st) (ucast v) s;
             s = hw_write_register dev (tc_block_base st) number (tc_high_register st) (ucast (drop_bit 32 v)) s;
             (ix, gci) = get_change_index gci in
         (Inr (), (set_time_field number (\<lambda>f. f\<lparr>tf_value := v, tf_update_index := ix\<rparr>) st, gci, s))))"

definition time_put ::
    "('d, 's) type_env \<Rightarrow> 's device \<Rightarrow> u32 \<Rightarrow> string \<Rightarrow> 's time_world \<Rightarrow> unit result \<times> 's time_world" where
  "time_put env dev number string w =
     (case w of (st, gci, s) \<Rightarrow>
        (case time_class_parse env (tf_time_scale (tc_values st ! unat number)) MAX_CLOCK_VALUE string s of
           ((Inl e, _), s) \<Rightarrow> (Inl e, (st, gci, s))
         | ((Inr v, string), s) \<Rightarrow>
             (case parse_eos string of
                (Inl e, _) \<Rightarrow> (Inl e, (st, gci, s))
              | (Inr _, _) \<Rightarrow> write_time_value dev number v (st, gci, s))))"

definition time_change_set :: "time_class_state \<Rightarrow> u64 \<Rightarrow> bool list" where
  "time_change_set st report_index = map (\<lambda>f. tf_update_index f > report_index) (tc_values st)"

definition time_raw_format :: "u32 \<Rightarrow> nat \<Rightarrow> time_class_state \<Rightarrow> string result" where
  "time_raw_format number len st = format_string len (show_u64 (tf_value (tc_values st ! unat number)))"

definition time_raw_put :: "'s device \<Rightarrow> u32 \<Rightarrow> string \<Rightarrow> 's time_world \<Rightarrow> unit result \<times> 's time_world" where
  "time_raw_put dev number string w =
     (case p_then parse_uint64 (\<lambda>v. p_then parse_eos (\<lambda>_. p_return v)) string of
        (Inl e, _) \<Rightarrow> (Inl e, w)
      | (Inr v, _) \<Rightarrow> write_time_value dev number v w)"

definition time_class_units_format :: "u32 \<Rightarrow> nat \<Rightarrow> time_class_state \<Rightarrow> string result" where
  "time_class_units_format number len st = shared_units_format (tf_time_scale (tc_values st ! unat number)) len"

definition time_class_units_put :: "u32 \<Rightarrow> string \<Rightarrow> 's time_world \<Rightarrow> (unit result \<times> 's time_world) option" where
  "time_class_units_put number string w =
     (case w of (st, gci, s) \<Rightarrow>
        map_option (\<lambda>res. case res of
            Inl e \<Rightarrow> (Inl e, w)
          | Inr scale \<Rightarrow>
              (let (ix, gci) = get_change_index gci in
               (Inr (), (set_time_field number (\<lambda>f. f\<lparr>tf_time_scale := scale, tf_update_index := ix\<rparr>) st, gci, s))))
          (shared_units_parse string))"

section \<open>The registers hold the time\<close>

text \<open>
  What the code relies on of \<^verbatim>\<open>llround\<close>: a double between 0 and the largest time, which is a double
  itself, is rounded to an integer between them.
\<close>

definition rounds_within :: "'d fp_ops \<Rightarrow> int \<Rightarrow> bool" where
  "rounds_within fp m =
     (\<forall>d. fp_le fp (fp_of_int fp 0) d \<longrightarrow> fp_le fp d (fp_of_int fp m) \<longrightarrow> 0 \<le> fp_llround fp d \<and> fp_llround fp d \<le> m)"

lemma time_class_parse_bounded:
  assumes "rounds_within (te_fp env) (uint m)" "time_class_parse env scale m string s = ((Inr v, rest), s')"
  shows "v \<le> m"
proof -
  from assms(2) obtain d where "fp_le (te_fp env) (fp_of_int (te_fp env) 0) d" "fp_le (te_fp env) d (fp_of_int (te_fp env) (uint m))"
    "v = word_of_int (fp_llround (te_fp env) d)"
    by (auto simp: time_class_parse_def and_then_eq_Inr Let_def split: prod.splits sum.splits)
  with assms(1) have b: "0 \<le> fp_llround (te_fp env) d" "fp_llround (te_fp env) d \<le> uint m" "v = word_of_int (fp_llround (te_fp env) d)"
    by (auto simp: rounds_within_def)
  then have "uint v \<le> fp_llround (te_fp env) d" by (simp add: unsigned_of_int take_bit_int_less_eq_self_iff)
  with b(2) show ?thesis by (simp add: word_le_def)
qed

text \<open>The two halves that are written make up the value.\<close>

lemma high_half: "uint (ucast (drop_bit 32 (v :: u64)) :: u32) = uint v div 2 ^ 32"
proof -
  have "uint v div 2 ^ 32 < 2 ^ 32" using uint_lt2p [of v] by simp
  moreover have "0 \<le> uint v div 2 ^ 32" by (simp only: pos_imp_zdiv_nonneg_iff zero_less_power zero_less_numeral unsigned_greater_eq)
  ultimately have "take_bit 32 (uint v div 2 ^ 32) = uint v div 2 ^ 32" by (simp only: take_bit_int_eq_self)
  moreover have "uint (drop_bit 32 v) = uint v div 2 ^ 32" by (simp add: drop_bit_eq_div uint_div_distrib)
  ultimately show ?thesis by (simp only: unsigned_ucast_eq) simp
qed

lemma halves: "uint (ucast v :: u32) + 2 ^ 32 * uint (ucast (drop_bit 32 v) :: u32) = uint (v :: u64)"
  unfolding high_half by (simp add: unsigned_ucast_eq take_bit_eq_mod)

text \<open>
  C34: when a time is set, the value that is kept is the one that the two registers hold: its low half
  is written first, its high half, which fits the 16 bits the register has, second, and the field is
  reported as changed.  A refused text changes nothing.
\<close>

theorem time_put_registers:
  assumes "rounds_within (te_fp env) (2 ^ 48 - 1)" "unat n < length (tc_values st)"
    and "time_put env dev n string (st, gci, s) = (res, (st', gci', s'))"
  shows "case res of
      Inl _ \<Rightarrow> st' = st \<and> gci' = gci \<and> (s' = s \<or> s' = snd (te_clock env s))
    | Inr _ \<Rightarrow>
       (\<exists>low high. s' = hw_write_register dev (tc_block_base st) n (tc_high_register st) high
             (hw_write_register dev (tc_block_base st) n (tc_low_register st) low (snd (te_clock env s))) \<and>
          high < 2 ^ 16 \<and>
          uint (tf_value (tc_values st' ! unat n)) = uint low + 2 ^ 32 * uint high \<and>
          tf_time_scale (tc_values st' ! unat n) = tf_time_scale (tc_values st ! unat n) \<and>
          gci' = gci + 1 \<and> tf_update_index (tc_values st' ! unat n) = gci')"
proof (cases res)
  case (Inl e)
  then show ?thesis using assms(3)
    by (auto simp: time_put_def time_class_parse_def write_time_value_def get_change_index_def Let_def split: prod.splits sum.splits)
next
  case (Inr u)
  with assms(3) obtain v rest where
    p: "time_class_parse env (tf_time_scale (tc_values st ! unat n)) MAX_CLOCK_VALUE string s = ((Inr v, rest), snd (te_clock env s))"
    and w: "write_time_value dev n v (st, gci, snd (te_clock env s)) = (Inr (), (st', gci', s'))"
    by (auto simp: time_put_def time_class_parse_def Let_def split: prod.splits sum.splits)
  have "uint MAX_CLOCK_VALUE = 2 ^ 48 - 1" by (simp add: MAX_CLOCK_VALUE_def)
  with time_class_parse_bounded [OF _ p] assms(1) have "uint v < 2 ^ 48"
    by (simp add: word_le_def)
  then have "uint (ucast (drop_bit 32 v) :: u32) < 2 ^ 16"
    unfolding high_half by simp
  then have "(ucast (drop_bit 32 v) :: u32) < 2 ^ 16" by (simp add: word_less_def)
  with w halves [of v, symmetric] assms(2) Inr show ?thesis
    unfolding Inr sum.case by (intro exI [of _ "ucast v :: u32"] exI [of _ "ucast (drop_bit 32 v) :: u32"])
      (auto simp: write_time_value_def get_change_index_def set_time_field_def Let_def)
qed

text \<open>
  The attribute \<^verbatim>\<open>RAW\<close> has no such limit: what does not fit the 48 bits is kept by the server, and
  the upper bits are written to the register of 16 bits.
\<close>

lemma time_raw_put_unbounded:
  assumes "unat n < length (tc_values st)" "parse_uint64 string = (Inr v, [])"
  shows "\<exists>st' gci' s'. time_raw_put dev n string (st, gci, s) = (Inr (), (st', gci', s')) \<and> tf_value (tc_values st' ! unat n) = v"
  using assms
  by (simp add: time_raw_put_def p_then_def parse_eos_def p_return_def write_time_value_def set_time_field_def
      get_change_index_def Let_def)

definition time_fp :: "int fp_ops" where
  "time_fp = sample_fp\<lparr>fp_strtod := strtol 64\<rparr>"

lemma time_fp_law: "rounds_within time_fp (2 ^ 48 - 1)"
  by (simp add: rounds_within_def time_fp_def sample_fp_def)

lemma strtol_5: "strtol 64 ''5'' = (5, False, [])"
proof -
  have "\<not> is_space (CHR ''5'')" by code_simp
  then show ?thesis
    by (simp add: strtol_def read_sign_def read_magnitude_def is_digit_of_def digit_val_def is_digit_def peek_def)
qed

lemma time_put_5:
  "time_put (sample_env\<lparr>te_fp := time_fp\<rparr>) cell_device 0 ''5'' (time_class_init 1, 7, 0) =
    (Inr (), (time_class_init 1)\<lparr>tc_values := [\<lparr>tf_time_scale = TIME_SECS, tf_value = 625000000, tf_update_index = 8\<rparr>]\<rparr>, 8, 0)"
  by (simp add: time_put_def time_class_parse_def parse_double_def parse_num_def time_fp_def strtol_5 sample_env_def sample_fp_def
      check_number_def time_class_init_def TIME_SECS_def time_conversion_def MAX_CLOCK_VALUE_def parse_eos_def write_time_value_def
      get_change_index_def set_time_field_def hw_write_register_def cell_device_def plain_device_def)

theorem time_put_registers_witness:
  "\<exists>low high. (0 :: u32) = hw_write_register cell_device UNASSIGNED_REGISTER 0 UNASSIGNED_REGISTER high
      (hw_write_register cell_device UNASSIGNED_REGISTER 0 UNASSIGNED_REGISTER low 0) \<and>
    high < 2 ^ 16 \<and> 625000000 = uint low + 2 ^ 32 * uint high"
proof -
  have "rounds_within (te_fp (sample_env\<lparr>te_fp := time_fp\<rparr>)) (2 ^ 48 - 1)" using time_fp_law by simp
  from time_put_registers [OF this _ time_put_5] show ?thesis by (simp add: time_class_init_def sample_env_def)
qed

end
