(* ===== verification/Panda_File.thy ===== *)
theory Panda_File
  imports Panda_Format "HOL-Library.Sublist"
begin

text \<open>
  \<^verbatim>\<open>buffered_file.c\<close>: the buffered connection to a client.  The socket, with the system calls \<^verbatim>\<open>read\<close>
  and \<^verbatim>\<open>write\<close> on it, is the parameter \<open>so\<close> over the state \<open>'s\<close>.  The loops return an option, whose value
  \<open>None\<close> is a loop that does not end.
\<close>

record 's socket_ops =
  so_read :: "nat \<Rightarrow> 's \<Rightarrow> string result \<times> 's"
  so_write :: "string \<Rightarrow> 's \<Rightarrow> nat result \<times> 's"

text \<open>
  The buffers are kept as their contents: \<^verbatim>\<open>in_length\<close> and \<^verbatim>\<open>out_length\<close> are the lengths of the lists.
\<close>

record buffered_file =
  bf_eof :: bool
  bf_error :: "unit result"
  bf_in_buf :: string
  bf_read_ptr :: nat
  bf_out_buf :: string
  bf_in_buf_size :: nat
  bf_out_buf_size :: nat

definition create_buffered_file :: "nat \<Rightarrow> nat \<Rightarrow> buffered_file" where
  "create_buffered_file in_buf_size out_buf_size =
     \<lparr>bf_eof = False, bf_error = Inr (), bf_in_buf = [], bf_read_ptr = 0, bf_out_buf = [],
      bf_in_buf_size = in_buf_size, bf_out_buf_size = out_buf_size\<rparr>"

definition destroy_buffered_file :: "buffered_file \<Rightarrow> unit result" where
  "destroy_buffered_file file = bf_error file"

definition check_buffered_file :: "buffered_file \<Rightarrow> bool" where
  "check_buffered_file file = is_ok (bf_error file)"

section \<open>System calls\<close>

partial_function (option) send_entire_buffer ::
    "'s socket_ops \<Rightarrow> buffered_file \<Rightarrow> string \<Rightarrow> 's \<Rightarrow> (buffered_file \<times> 's) option" where
  "send_entire_buffer so file buffer s =
     (if is_ok (bf_error file) \<and> length buffer > 0 then
        (case so_write so buffer s of
           (Inl _, s) \<Rightarrow> send_entire_buffer so (file\<lparr>bf_error := fail ''Error writing to socket''\<rparr>) buffer s
         | (Inr written, s) \<Rightarrow> send_entire_buffer so file (drop written buffer) s)
      else Some (file, s))"

definition flush_out_buf :: "'s socket_ops \<Rightarrow> buffered_file \<Rightarrow> 's \<Rightarrow> (bool \<times> buffered_file \<times> 's) option" where
  "flush_out_buf so file s =
     Option.bind (send_entire_buffer so file (bf_out_buf file) s) (\<lambda>(file, s).
       let file = file\<lparr>bf_out_buf := []\<rparr> in Some (is_ok (bf_error file), file, s))"

text \<open>After a failing read the length of the input is -1 as a \<^verbatim>\<open>size_t\<close>; the error keeps it from being used.\<close>

definition fill_in_buf :: "'s socket_ops \<Rightarrow> buffered_file \<Rightarrow> 's \<Rightarrow> buffered_file \<times> 's" where
  "fill_in_buf so file s =
     (if \<not> bf_eof file \<and> is_ok (bf_error file) then
        (case so_read so (bf_in_buf_size file) s of
           (Inl _, s) \<Rightarrow>
             (file\<lparr>bf_error := fail ''Error reading from socket'', bf_eof := False, bf_read_ptr := 0, bf_in_buf := []\<rparr>, s)
         | (Inr seen, s) \<Rightarrow> (file\<lparr>bf_eof := (seen = []), bf_read_ptr := 0, bf_in_buf := seen\<rparr>, s))
      else (file, s))"

section \<open>Reading\<close>

definition newline :: char where "newline = CHR 0x0A"

text \<open>The loop of \<^verbatim>\<open>read_line\<close>; \<open>acc\<close> is what has been moved to the line already.\<close>

partial_function (option) read_line_loop ::
    "'s socket_ops \<Rightarrow> buffered_file \<Rightarrow> string \<Rightarrow> nat \<Rightarrow> bool \<Rightarrow> 's \<Rightarrow> (string option \<times> buffered_file \<times> 's) option" where
  "read_line_loop so file acc line_size flush s =
     (if \<not> bf_eof file \<and> is_ok (bf_error file) then
        (let data = drop (bf_read_ptr file) (bf_in_buf file) in
         if newline \<in> set data then
           (let line = takeWhile (\<lambda>c. c \<noteq> newline) data in
            if length line + 1 < line_size then
              Some (Some (acc @ line), file\<lparr>bf_read_ptr := bf_read_ptr file + length line + 1\<rparr>, s)
            else Some (None, file\<lparr>bf_error := fail ''Line overrun''\<rparr>, s))
         else if \<not> length data + 1 < line_size then Some (None, file\<lparr>bf_error := fail ''Line overrun''\<rparr>, s)
         else
           Option.bind (if flush then flush_out_buf so file s else Some (True, file, s)) (\<lambda>(_, file, s).
             case fill_in_buf so file s of (file, s) \<Rightarrow>
               read_line_loop so file (acc @ data) (line_size - length data) False s))
      else Some (None, file, s))"

definition read_line ::
    "'s socket_ops \<Rightarrow> buffered_file \<Rightarrow> nat \<Rightarrow> bool \<Rightarrow> 's \<Rightarrow> (string option \<times> buffered_file \<times> 's) option" where
  "read_line so file line_size flush s = read_line_loop so file [] line_size flush s"

partial_function (option) read_block ::
    "'s socket_ops \<Rightarrow> buffered_file \<Rightarrow> string \<Rightarrow> nat \<Rightarrow> 's \<Rightarrow> (string option \<times> buffered_file \<times> 's) option" where
  "read_block so file acc len s =
     (if \<not> bf_eof file \<and> is_ok (bf_error file) \<and> len > 0 then
        (let to_copy = min (length (bf_in_buf file) - bf_read_ptr file) len;
             acc = acc @ take to_copy (drop (bf_read_ptr file) (bf_in_buf file));
             len = len - to_copy;
             file = file\<lparr>bf_read_ptr := bf_read_ptr file + to_copy\<rparr> in
         case (if len > 0 then fill_in_buf so file s else (file, s)) of (file, s) \<Rightarrow> read_block so file acc len s)
      else Some (if \<not> bf_eof file \<and> is_ok (bf_error file) \<and> len = 0 then Some acc else None, file, s))"

section \<open>Writing\<close>

partial_function (option) write_string ::
    "'s socket_ops \<Rightarrow> buffered_file \<Rightarrow> string \<Rightarrow> 's \<Rightarrow> (bool \<times> buffered_file \<times> 's) option" where
  "write_string so file string s =
     (if is_ok (bf_error file) \<and> length string > 0 then
        (let to_write = min (bf_out_buf_size file - length (bf_out_buf file)) (length string);
             file = file\<lparr>bf_out_buf := bf_out_buf file @ take to_write string\<rparr> in
         Option.bind
           (if length (bf_out_buf file) \<ge> bf_out_buf_size file then flush_out_buf so file s else Some (True, file, s))
           (\<lambda>(_, file, s). write_string so file (drop to_write string) s))
      else Some (is_ok (bf_error file), file, s))"

text \<open>
  The text is the one that the format gives.  When it does not fit even the empty buffer, it is
  truncated, and the error keeps what is in the buffer from being sent.
\<close>

definition write_formatted_string ::
    "'s socket_ops \<Rightarrow> buffered_file \<Rightarrow> string \<Rightarrow> 's \<Rightarrow> (bool \<times> buffered_file \<times> 's) option" where
  "write_formatted_string so file text s =
     (if \<not> is_ok (bf_error file) then Some (False, file, s)
      else if length text < bf_out_buf_size file - length (bf_out_buf file) then
        Some (True, file\<lparr>bf_out_buf := bf_out_buf file @ text\<rparr>, s)
      else
        Option.bind (flush_out_buf so file s) (\<lambda>(ok, file, s).
          let file =
            (if ok then
               file\<lparr>bf_out_buf := take (bf_out_buf_size file - 1) text,
                 bf_error := test_ok (length text < bf_out_buf_size file) ''Formatted string too long for buffered output''\<rparr>
             else file) in
          Some (is_ok (bf_error file), file, s)))"

definition write_block :: "'s socket_ops \<Rightarrow> buffered_file \<Rightarrow> string \<Rightarrow> 's \<Rightarrow> (bool \<times> buffered_file \<times> 's) option" where
  "write_block so file buffer s =
     Option.bind (flush_out_buf so file s) (\<lambda>(_, file, s).
       Option.bind (send_entire_buffer so file buffer s) (\<lambda>(file, s). Some (is_ok (bf_error file), file, s)))"

definition write_char :: "'s socket_ops \<Rightarrow> buffered_file \<Rightarrow> char \<Rightarrow> 's \<Rightarrow> (bool \<times> buffered_file \<times> 's) option" where
  "write_char so file ch s =
     (if is_ok (bf_error file) then
        (let file = file\<lparr>bf_out_buf := bf_out_buf file @ [ch]\<rparr> in
         if length (bf_out_buf file) \<ge> bf_out_buf_size file then flush_out_buf so file s
         else Some (True, file, s))
      else Some (False, file, s))"

section \<open>The socket\<close>

text \<open>
  What is documented of the system calls on a stream socket, over the bytes \<open>sent\<close> to the peer and those
  still \<open>incoming\<close> from it: a write of a non-empty buffer takes some of its first bytes or fails, a read gives
  at most as many bytes as asked for, in order, and none only at the end of the stream.
\<close>

definition socket_laws :: "'s socket_ops \<Rightarrow> ('s \<Rightarrow> string) \<Rightarrow> ('s \<Rightarrow> string) \<Rightarrow> bool" where
  "socket_laws so sent incoming =
     ((\<forall>buf s. buf \<noteq> [] \<longrightarrow>
        (case so_write so buf s of
           (Inl _, s') \<Rightarrow> sent s' = sent s \<and> incoming s' = incoming s
         | (Inr k, s') \<Rightarrow> 0 < k \<and> k \<le> length buf \<and> sent s' = sent s @ take k buf \<and> incoming s' = incoming s)) \<and>
      (\<forall>n s. 0 < n \<longrightarrow>
        (case so_read so n s of
           (Inl _, s') \<Rightarrow> sent s' = sent s \<and> incoming s' = incoming s
         | (Inr d, s') \<Rightarrow> length d \<le> n \<and> incoming s = d @ incoming s' \<and> (d = [] \<longrightarrow> incoming s = []) \<and> sent s' = sent s)))"

lemma socket_write:
  assumes "socket_laws so sent incoming" "buf \<noteq> []"
  obtains (error) e s' where "so_write so buf s = (Inl e, s')" "sent s' = sent s" "incoming s' = incoming s"
  | (some) k s' where "so_write so buf s = (Inr k, s')" "0 < k" "k \<le> length buf"
      "sent s' = sent s @ take k buf" "incoming s' = incoming s"
proof -
  obtain r s' where r: "so_write so buf s = (r, s')" by (cases "so_write so buf s")
  from conjunct1 [OF assms(1) [unfolded socket_laws_def], rule_format, OF assms(2), of s]
  have "case (r, s') of
      (Inl _, s') \<Rightarrow> sent s' = sent s \<and> incoming s' = incoming s
    | (Inr k, s') \<Rightarrow> 0 < k \<and> k \<le> length buf \<and> sent s' = sent s @ take k buf \<and> incoming s' = incoming s"
    unfolding r .
  with r that show thesis by (cases r) auto
qed

lemma socket_read:
  assumes "socket_laws so sent incoming" "0 < n"
  obtains (error) e s' where "so_read so n s = (Inl e, s')" "sent s' = sent s" "incoming s' = incoming s"
  | (some) d s' where "so_read so n s = (Inr d, s')" "length d \<le> n" "incoming s = d @ incoming s'"
      "d = [] \<Longrightarrow> incoming s = []" "sent s' = sent s"
proof -
  obtain r s' where r: "so_read so n s = (r, s')" by (cases "so_read so n s")
  from conjunct2 [OF assms(1) [unfolded socket_laws_def], rule_format, OF assms(2), of s]
  have "case (r, s') of
      (Inl _, s') \<Rightarrow> sent s' = sent s \<and> incoming s' = incoming s
    | (Inr d, s') \<Rightarrow> length d \<le> n \<and> incoming s = d @ incoming s' \<and> (d = [] \<longrightarrow> incoming s = []) \<and> sent s' = sent s"
    unfolding r .
  with r that show thesis by (cases r) auto
qed

section \<open>The output is a stream\<close>

definition file_inv :: "buffered_file \<Rightarrow> bool" where
  "file_inv f = (length (bf_out_buf f) < bf_out_buf_size f \<and> bf_read_ptr f \<le> length (bf_in_buf f) \<and> 0 < bf_in_buf_size f)"

text \<open>Files that agree except for the output and the error.\<close>

definition same_input :: "buffered_file \<Rightarrow> buffered_file \<Rightarrow> bool" where
  "same_input f f' =
     (bf_eof f' = bf_eof f \<and> bf_in_buf f' = bf_in_buf f \<and> bf_read_ptr f' = bf_read_ptr f \<and>
      bf_in_buf_size f' = bf_in_buf_size f \<and> bf_out_buf_size f' = bf_out_buf_size f)"

text \<open>
  \<open>wrote\<close>: the effect of calls that append \<open>text\<close> to the output.  As long as there is no error what
  has been sent and what is buffered make up the output; after an error nothing is sent, and what was
  sent is the start of the output.
\<close>

definition wrote ::
    "('s \<Rightarrow> string) \<Rightarrow> ('s \<Rightarrow> string) \<Rightarrow> buffered_file \<Rightarrow> 's \<Rightarrow> string \<Rightarrow> buffered_file \<Rightarrow> 's \<Rightarrow> bool" where
  "wrote sent incoming f s text f' s' =
     (incoming s' = incoming s \<and> same_input f f' \<and>
      (bf_error f' = bf_error f \<or> bf_error f' = fail ''Error writing to socket'') \<and>
      (if is_ok (bf_error f) then
         prefix (sent s') (sent s @ bf_out_buf f @ text) \<and>
         (is_ok (bf_error f') \<longrightarrow> sent s' @ bf_out_buf f' = sent s @ bf_out_buf f @ text \<and> (file_inv f \<longrightarrow> file_inv f'))
       else \<not> is_ok (bf_error f') \<and> sent s' = sent s))"

lemma wrote_refl [simp]: "wrote sent incoming f s [] f s"
  by (auto simp: wrote_def same_input_def prefix_def)

lemma wrote_append:
  assumes "wrote sent incoming f s t f1 s1" "wrote sent incoming f1 s1 u f2 s2"
  shows "wrote sent incoming f s (t @ u) f2 s2"
proof -
  have same: "incoming s2 = incoming s" "same_input f f2"
    "bf_error f2 = bf_error f \<or> bf_error f2 = fail ''Error writing to socket''" using assms by (auto simp: wrote_def same_input_def)
  show ?thesis
  proof (cases "is_ok (bf_error f) \<and> is_ok (bf_error f1)")
    case True
    then have eq: "sent s1 @ bf_out_buf f1 @ u = sent s @ bf_out_buf f @ t @ u"
      using assms(1) by (simp add: wrote_def flip: append_assoc)
    have "prefix (sent s2) (sent s1 @ bf_out_buf f1 @ u)"
      "is_ok (bf_error f2) \<longrightarrow> sent s2 @ bf_out_buf f2 = sent s1 @ bf_out_buf f1 @ u \<and> (file_inv f \<longrightarrow> file_inv f2)"
      using assms True by (auto simp: wrote_def)
    then show ?thesis unfolding eq using same True by (simp add: wrote_def)
  next
    case False
    then have "prefix (sent s1) (sent s @ bf_out_buf f @ t @ u)" if "is_ok (bf_error f)"
      using assms(1) that prefix_prefix [of "sent s1" "sent s @ bf_out_buf f @ t" u] by (simp add: wrote_def)
    with False same assms show ?thesis by (auto simp: wrote_def)
  qed
qed

lemma send_entire_buffer_sends:
  assumes "socket_laws so sent incoming"
  shows "\<exists>f' s'. send_entire_buffer so f buf s = Some (f', s') \<and> same_input f f' \<and> bf_out_buf f' = bf_out_buf f \<and> incoming s' = incoming s \<and>
    (bf_error f' = bf_error f \<or> bf_error f' = fail ''Error writing to socket'') \<and>
    prefix (sent s') (sent s @ buf) \<and> (is_ok (bf_error f') \<longrightarrow> is_ok (bf_error f) \<and> sent s' = sent s @ buf) \<and>
    (\<not> is_ok (bf_error f) \<longrightarrow> sent s' = sent s)"
proof (induction "length buf" arbitrary: buf s rule: less_induct)
  case less
  show ?case
  proof (cases "is_ok (bf_error f) \<and> buf \<noteq> []")
    case False
    then show ?thesis
      by (subst send_entire_buffer.simps) (auto simp: prefix_def same_input_def)
  next
    case True
    then have "buf \<noteq> []" by simp
    with assms show ?thesis
    proof (cases rule: socket_write [of so sent incoming buf s])
      case (error e s')
      let ?g = "f\<lparr>bf_error := fail ''Error writing to socket''\<rparr>"
      have "send_entire_buffer so ?g buf s' = Some (?g, s')" by (simp add: send_entire_buffer.simps)
      with True error show ?thesis
        by (subst send_entire_buffer.simps) (auto simp: prefix_def same_input_def)
    next
      case (some k s')
      have "length (drop k buf) < length buf" using some True by simp
      from less.hyps [OF this, of s'] obtain f' s2 where
        "send_entire_buffer so f (drop k buf) s' = Some (f', s2)" "same_input f f'" "bf_out_buf f' = bf_out_buf f"
        "bf_error f' = bf_error f \<or> bf_error f' = fail ''Error writing to socket''"
        "incoming s2 = incoming s'" "prefix (sent s2) (sent s' @ drop k buf)"
        "is_ok (bf_error f') \<longrightarrow> sent s2 = sent s' @ drop k buf" by blast
      with True some show ?thesis
        by (subst send_entire_buffer.simps) auto
    qed
  qed
qed

lemma flush_out_buf_wrote:
  assumes "socket_laws so sent incoming" "0 < bf_out_buf_size f"
  shows "\<exists>f' s'. flush_out_buf so f s = Some (is_ok (bf_error f'), f', s') \<and> bf_out_buf f' = [] \<and>
    wrote sent incoming f s [] f' s'"
proof -
  obtain f1 s' where s: "send_entire_buffer so f (bf_out_buf f) s = Some (f1, s')" "same_input f f1" "bf_out_buf f1 = bf_out_buf f"
    "bf_error f1 = bf_error f \<or> bf_error f1 = fail ''Error writing to socket''"
    "incoming s' = incoming s" "prefix (sent s') (sent s @ bf_out_buf f)"
    "is_ok (bf_error f1) \<longrightarrow> is_ok (bf_error f) \<and> sent s' = sent s @ bf_out_buf f"
    "\<not> is_ok (bf_error f) \<longrightarrow> sent s' = sent s"
    using send_entire_buffer_sends [OF assms(1), of f "bf_out_buf f" s] by blast
  have "wrote sent incoming f s [] (f1\<lparr>bf_out_buf := []\<rparr>) s'"
    using s assms(2) by (auto simp: wrote_def same_input_def file_inv_def)
  with s(1) show ?thesis by (auto simp: flush_out_buf_def Let_def)
qed

lemma append_wrote:
  assumes "socket_laws so sent incoming" "file_inv f" "is_ok (bf_error f)"
    and "length (bf_out_buf f) + length t \<le> bf_out_buf_size f" "g = f\<lparr>bf_out_buf := bf_out_buf f @ t\<rparr>"
  shows "\<exists>f' s'. (if bf_out_buf_size f \<le> length (bf_out_buf g) then flush_out_buf so g s else Some (True, g, s)) =
      Some (is_ok (bf_error f'), f', s') \<and> wrote sent incoming f s t f' s'"
proof (cases "bf_out_buf_size f \<le> length (bf_out_buf g)")
  case True
  have "0 < bf_out_buf_size g" using assms(2,5) by (auto simp: file_inv_def)
  from flush_out_buf_wrote [OF assms(1) this] obtain f' s' where
    f': "flush_out_buf so g s = Some (is_ok (bf_error f'), f', s')" "bf_out_buf f' = []" "wrote sent incoming g s [] f' s'"
    by blast
  then have "wrote sent incoming f s t f' s'" using assms(2,3,5) by (auto simp: wrote_def same_input_def file_inv_def)
  with True f' show ?thesis by auto
next
  case False
  then have "wrote sent incoming f s t g s" using assms by (auto simp: wrote_def same_input_def file_inv_def prefix_def)
  with False assms(3,5) show ?thesis by (intro exI [of _ g] exI [of _ s]) simp
qed

lemma write_char_wrote:
  assumes "socket_laws so sent incoming" "file_inv f"
  shows "\<exists>f' s'. write_char so f ch s = Some (is_ok (bf_error f'), f', s') \<and> wrote sent incoming f s [ch] f' s'"
proof (cases "is_ok (bf_error f)")
  case True
  have "length (bf_out_buf f) + length [ch] \<le> bf_out_buf_size f" using assms(2) by (simp add: file_inv_def)
  from append_wrote [OF assms True this refl, of s] True show ?thesis by (simp add: write_char_def Let_def)
next
  case False
  then show ?thesis by (auto simp: write_char_def wrote_def same_input_def)
qed

lemma wrote_inv:
  "wrote sent incoming f s t f' s' \<Longrightarrow> file_inv f \<Longrightarrow> is_ok (bf_error f') \<Longrightarrow> file_inv f'"
  by (auto simp: wrote_def split: if_splits)

lemma write_string_wrote:
  assumes "socket_laws so sent incoming" "file_inv f"
  shows "\<exists>f' s'. write_string so f ws s = Some (is_ok (bf_error f'), f', s') \<and> wrote sent incoming f s ws f' s'"
  using assms(2)
proof (induction "length ws" arbitrary: ws f s rule: less_induct)
  case less
  show ?case
  proof (cases "is_ok (bf_error f) \<and> ws \<noteq> []")
    case False
    then show ?thesis by (subst write_string.simps) (auto simp: wrote_def same_input_def)
  next
    case True
    define k where "k = min (bf_out_buf_size f - length (bf_out_buf f)) (length ws)"
    define g where "g = f\<lparr>bf_out_buf := bf_out_buf f @ take k ws\<rparr>"
    have k: "0 < k" "length (bf_out_buf f) + length (take k ws) \<le> bf_out_buf_size f"
      using True less.prems by (auto simp: k_def file_inv_def)
    from append_wrote [OF assms(1) less.prems _ k(2) g_def, of s] True obtain f1 s1 where
      f1: "(if bf_out_buf_size f \<le> length (bf_out_buf g) then flush_out_buf so g s else Some (True, g, s)) =
        Some (is_ok (bf_error f1), f1, s1)" "wrote sent incoming f s (take k ws) f1 s1" by blast
    have step: "write_string so f ws s = write_string so f1 (drop k ws) s1"
    proof -
      have "bf_out_buf_size g = bf_out_buf_size f" by (simp add: g_def)
      then have "Option.bind
          (if length (bf_out_buf g) \<ge> bf_out_buf_size g then flush_out_buf so g s else Some (True, g, s))
          (\<lambda>(_, file, s). write_string so file (drop k ws) s) = write_string so f1 (drop k ws) s1"
        using f1(1) by simp
      then show ?thesis
        using True unfolding write_string.simps [of so f ws] Let_def k_def [symmetric] g_def [symmetric] by simp
    qed
    show ?thesis
    proof (cases "is_ok (bf_error f1)")
      case True
      have "length (drop k ws) < length ws" using k(1) \<open>is_ok (bf_error f) \<and> ws \<noteq> []\<close> by simp
      from less.hyps [OF this wrote_inv [OF f1(2) less.prems True], of s1] obtain f2 s2 where
        "write_string so f1 (drop k ws) s1 = Some (is_ok (bf_error f2), f2, s2)"
        "wrote sent incoming f1 s1 (drop k ws) f2 s2" by blast
      with step wrote_append [OF f1(2) this(2)] show ?thesis by simp
    next
      case False
      then have "write_string so f1 (drop k ws) s1 = Some (False, f1, s1)" by (subst write_string.simps) simp
      moreover have "wrote sent incoming f1 s1 (drop k ws) f1 s1" using False by (simp add: wrote_def same_input_def)
      ultimately show ?thesis using step wrote_append [OF f1(2)] False by fastforce
    qed
  qed
qed

section \<open>The input is a stream\<close>

definition input :: "('s \<Rightarrow> string) \<Rightarrow> buffered_file \<Rightarrow> 's \<Rightarrow> string" where
  "input incoming f s = drop (bf_read_ptr f) (bf_in_buf f) @ incoming s"

definition usable :: "buffered_file \<Rightarrow> bool" where
  "usable f = (is_ok (bf_error f) \<and> \<not> bf_eof f \<and> file_inv f)"

text \<open>
  \<open>read_result\<close>: what reading a line gives.  A line is the input up to the first newline; the output
  is not changed.  Without a line either the input has ended or there is an error, which is an overrun
  only if the next line does not fit.
\<close>

definition fits :: "nat \<Rightarrow> string \<Rightarrow> string \<Rightarrow> bool" where
  "fits n l i = (newline \<notin> set l \<and> length l + 1 < n \<and> (\<exists>rest. i = l @ newline # rest))"

definition read_result ::
    "('s \<Rightarrow> string) \<Rightarrow> ('s \<Rightarrow> string) \<Rightarrow> buffered_file \<Rightarrow> 's \<Rightarrow> nat \<Rightarrow> string option \<Rightarrow> buffered_file \<Rightarrow> 's \<Rightarrow> bool" where
  "read_result sent incoming f s n res f' s' =
     (prefix (sent s') (sent s @ bf_out_buf f) \<and> bf_out_buf_size f' = bf_out_buf_size f \<and>
      (case res of
         Some l \<Rightarrow>
           input incoming f s = l @ newline # input incoming f' s' \<and> newline \<notin> set l \<and> length l + 1 < n \<and>
           usable f' \<and> sent s' @ bf_out_buf f' = sent s @ bf_out_buf f
       | None \<Rightarrow>
           (\<not> is_ok (bf_error f') \<or>
            bf_eof f' \<and> file_inv f' \<and> input incoming f' s' = [] \<and> newline \<notin> set (input incoming f s) \<and>
            sent s' @ bf_out_buf f' = sent s @ bf_out_buf f) \<and>
           (bf_error f' = fail ''Line overrun'' \<longrightarrow> (\<nexists>l. fits n l (input incoming f s)))))"

lemma fits_append:
  assumes "newline \<notin> set d" "length d + 1 < n" "fits n l (d @ i)"
  shows "\<exists>l'. l = d @ l' \<and> fits (n - length d) l' i"
proof -
  from assms(3) obtain rest where l: "newline \<notin> set l" "length l + 1 < n" "d @ i = l @ newline # rest" by (auto simp: fits_def)
  then obtain us where "l = d @ us \<and> i = us @ newline # rest \<or> d = l @ us \<and> us @ i = newline # rest"
    by (auto simp: append_eq_append_conv2)
  moreover have "\<not> (d = l @ us \<and> us @ i = newline # rest) \<or> us = []" using assms(1) by (cases us) auto
  ultimately show ?thesis using l by (auto simp: fits_def)
qed

lemma fits_long: "newline \<notin> set d \<Longrightarrow> \<not> length d + 1 < n \<Longrightarrow> \<not> fits n l (d @ i)"
proof
  assume d: "newline \<notin> set d" "\<not> length d + 1 < n" and "fits n l (d @ i)"
  then obtain rest where l: "newline \<notin> set l" "length l + 1 < n" "d @ i = l @ newline # rest" by (auto simp: fits_def)
  then obtain us where "d = l @ us" "us @ i = newline # rest"
    using d(2) by (auto simp: append_eq_append_conv2)
  then show False using d l(2) by (cases us) auto
qed

lemma split_newline:
  assumes "newline \<in> set d"
  shows "d = takeWhile (\<lambda>c. c \<noteq> newline) d @ newline # drop (Suc (length (takeWhile (\<lambda>c. c \<noteq> newline) d))) d"
proof -
  have "dropWhile (\<lambda>c. c \<noteq> newline) d \<noteq> []" using assms by (auto simp: dropWhile_eq_Nil_conv)
  then obtain y ys where y: "dropWhile (\<lambda>c. c \<noteq> newline) d = y # ys" by (cases "dropWhile (\<lambda>c. c \<noteq> newline) d") auto
  then have "y = newline" using hd_dropWhile [of "\<lambda>c. c \<noteq> newline" d] by simp
  moreover have "drop (Suc (length (takeWhile (\<lambda>c. c \<noteq> newline) d))) d = ys"
    using y dropWhile_eq_drop [of "\<lambda>c. c \<noteq> newline" d] by (metis drop_Suc list.sel(3) tl_drop)
  ultimately show ?thesis using y takeWhile_dropWhile_id [of "\<lambda>c. c \<noteq> newline" d] by simp
qed

lemma fits_take: "fits n l i \<Longrightarrow> takeWhile (\<lambda>c. c \<noteq> newline) i = l"
  by (auto simp: fits_def takeWhile_append)

text \<open>Reading more input: the next state and what it holds.\<close>

lemma fill_in_buf_reads:
  assumes "socket_laws so sent incoming" "is_ok (bf_error f)" "\<not> bf_eof f" "file_inv f"
  shows "\<exists>f' s'. fill_in_buf so f s = (f', s') \<and> bf_out_buf f' = bf_out_buf f \<and> bf_out_buf_size f' = bf_out_buf_size f \<and>
    sent s' = sent s \<and>
    (bf_error f' = fail ''Error reading from socket'' \<or>
     bf_error f' = bf_error f \<and> file_inv f' \<and> input incoming f' s' = incoming s \<and> bf_read_ptr f' = 0 \<and>
     (if bf_eof f' then incoming s = [] else bf_in_buf f' \<noteq> []))"
proof -
  have "0 < bf_in_buf_size f" using assms(4) by (simp add: file_inv_def)
  with assms(1) show ?thesis
  proof (cases rule: socket_read [of so sent incoming "bf_in_buf_size f" s])
    case (error e s')
    then show ?thesis using assms(2,3) by (simp add: fill_in_buf_def)
  next
    case (some d s')
    then show ?thesis using assms(2-4) by (auto simp: fill_in_buf_def input_def file_inv_def)
  qed
qed

text \<open>Each round of the loop shortens the room in the line or, with an empty buffer, brings some input.\<close>

definition read_measure :: "buffered_file \<Rightarrow> nat \<Rightarrow> nat" where
  "read_measure f n =
     3 * n + (if bf_eof f \<or> \<not> is_ok (bf_error f) then 0 else if drop (bf_read_ptr f) (bf_in_buf f) = [] then 2 else 1)"

lemma read_result_more:
  assumes "newline \<notin> set d" "length d + 1 < n" "input incoming f s = d @ incoming s"
    and "bf_out_buf_size f1 = bf_out_buf_size f" "sent s1 @ bf_out_buf f1 = sent s @ bf_out_buf f" "input incoming f1 s1 = incoming s"
    and "read_result sent incoming f1 s1 (n - length d) res f' s'"
  shows "read_result sent incoming f s n (map_option (\<lambda>l. d @ l) res) f' s'"
proof (cases res)
  case None
  have "\<not> fits n l (d @ incoming s)" if "bf_error f' = fail ''Line overrun''" for l
    using assms(7) that fits_append [OF assms(1,2), of l "incoming s"] None assms(6) by (auto simp: read_result_def)
  with None assms show ?thesis by (auto simp: read_result_def)
next
  case (Some l)
  with assms show ?thesis by (auto simp: read_result_def)
qed

lemma read_line_loop_reads:
  assumes "socket_laws so sent incoming" "usable f"
  shows "\<exists>res f' s'. read_line_loop so f acc n flush s = Some (map_option (\<lambda>l. acc @ l) res, f', s') \<and>
    read_result sent incoming f s n res f' s'"
  using assms(2)
proof (induction "read_measure f n" arbitrary: f acc n flush s rule: less_induct)
  case less
  then have ok: "is_ok (bf_error f)" "\<not> bf_eof f" "file_inv f" by (simp_all add: usable_def)
  define d where "d = drop (bf_read_ptr f) (bf_in_buf f)"
  have inp: "input incoming f s = d @ incoming s" by (simp add: input_def d_def)
  note loop = read_line_loop.simps [of so f acc n flush s, folded d_def]
  show ?case
  proof (cases "newline \<in> set d \<or> \<not> length d + 1 < n")
    case True
    show ?thesis
    proof (cases "newline \<in> set d \<and> length (takeWhile (\<lambda>c. c \<noteq> newline) d) + 1 < n")
      case True
      define l where "l = takeWhile (\<lambda>c. c \<noteq> newline) d"
      define f' where "f' = f\<lparr>bf_read_ptr := bf_read_ptr f + length l + 1\<rparr>"
      have l: "d = l @ newline # drop (Suc (length l)) d" using split_newline [of d] True by (simp add: l_def)
      have n: "length l + 1 < n" using True by (simp add: l_def)
      have "newline \<notin> set l" by (auto simp: l_def dest: set_takeWhileD)
      moreover have "input incoming f' s = drop (Suc (length l)) d @ incoming s"
        by (simp add: input_def f'_def d_def add.commute)
      moreover have "length l < length d" by (subst l) simp
      ultimately have "read_result sent incoming f s n (Some l) f' s"
        using inp l n ok by (auto simp: read_result_def usable_def file_inv_def f'_def d_def prefix_def)
      moreover have "read_line_loop so f acc n flush s = Some (Some (acc @ l), f', s)"
        using ok True by (subst loop) (simp add: Let_def l_def f'_def)
      ultimately show ?thesis by (intro exI [of _ "Some l"]) auto
    next
      case False
      have "\<not> fits n l (d @ incoming s)" for l
      proof (cases "newline \<in> set d")
        case True
        then have "takeWhile (\<lambda>c. c \<noteq> newline) (d @ incoming s) = takeWhile (\<lambda>c. c \<noteq> newline) d"
          by (intro takeWhile_append1) auto
        with False True fits_take [of n l "d @ incoming s"] show ?thesis by (auto simp: fits_def)
      next
        case nl: False
        with \<open>newline \<in> set d \<or> \<not> length d + 1 < n\<close> show ?thesis using fits_long by blast
      qed
      then have "read_result sent incoming f s n None (f\<lparr>bf_error := fail ''Line overrun''\<rparr>) s"
        by (simp add: read_result_def inp)
      moreover have "read_line_loop so f acc n flush s = Some (None, f\<lparr>bf_error := fail ''Line overrun''\<rparr>, s)"
        using ok True False by (subst loop) (auto simp: Let_def)
      ultimately show ?thesis by (intro exI [of _ None]) auto
    qed
  next
    case False
    then have d: "newline \<notin> set d" "length d + 1 < n" by auto
    obtain f1 s1 where f1: "(if flush then flush_out_buf so f s else Some (True, f, s)) = Some (is_ok (bf_error f1), f1, s1)"
        "wrote sent incoming f s [] f1 s1"
      using flush_out_buf_wrote [OF assms(1), of f s] ok by (cases flush) (force simp: file_inv_def)+
    obtain f2 s2 where f2: "fill_in_buf so f1 s1 = (f2, s2)" by fastforce
    have step: "read_line_loop so f acc n flush s = read_line_loop so f2 (acc @ d) (n - length d) False s2"
      using ok d f1(1) f2 by (subst read_line_loop.simps) (simp add: Let_def flip: d_def)
    have none: "\<exists>res f' s'. read_line_loop so f acc n flush s = Some (map_option (\<lambda>l. acc @ l) res, f', s') \<and>
        read_result sent incoming f s n res f' s'"
      if "read_result sent incoming f s n None f2 s2" "bf_eof f2 \<or> \<not> is_ok (bf_error f2)"
      using that step read_line_loop.simps [of so f2] by (intro exI [of _ None]) auto
    show ?thesis
    proof (cases "is_ok (bf_error f1)")
      case False
      then have "f2 = f1" "s2 = s1" using f2 by (simp_all add: fill_in_buf_def)
      then show ?thesis using False f1(2) ok by (intro none) (auto simp: read_result_def wrote_def same_input_def)
    next
      case True
      then have w: "sent s1 @ bf_out_buf f1 = sent s @ bf_out_buf f" "incoming s1 = incoming s" "\<not> bf_eof f1" "file_inv f1"
          "prefix (sent s1) (sent s @ bf_out_buf f)" "bf_out_buf_size f1 = bf_out_buf_size f"
        using f1(2) ok by (auto simp: wrote_def same_input_def)
      from fill_in_buf_reads [OF assms(1) True w(3,4), of s1] f2 have
        r: "bf_out_buf f2 = bf_out_buf f1" "bf_out_buf_size f2 = bf_out_buf_size f1" "sent s2 = sent s1" and
        c: "bf_error f2 = fail ''Error reading from socket'' \<or>
          bf_error f2 = bf_error f1 \<and> file_inv f2 \<and> input incoming f2 s2 = incoming s1 \<and> bf_read_ptr f2 = 0 \<and>
          (if bf_eof f2 then incoming s1 = [] else bf_in_buf f2 \<noteq> [])" by auto
      show ?thesis
      proof (cases "usable f2")
        case False
        have "bf_error f1 \<noteq> fail ''Line overrun''" using True by auto
        with False show ?thesis using c r w inp d True
          by (intro none) (auto simp: read_result_def usable_def split: if_splits)
      next
        case u: True
        then have i: "input incoming f2 s2 = incoming s" "drop (bf_read_ptr f2) (bf_in_buf f2) \<noteq> []"
          using c w(2) by (auto simp: usable_def)
        have "read_measure f2 (n - length d) < read_measure f n"
          using u ok i(2) d by (cases "d = []") (auto simp: read_measure_def usable_def simp flip: d_def)
        from less.hyps [OF this u, of "acc @ d" False s2] obtain res f' s' where
          n: "read_line_loop so f2 (acc @ d) (n - length d) False s2 = Some (map_option (\<lambda>l. (acc @ d) @ l) res, f', s')"
          "read_result sent incoming f2 s2 (n - length d) res f' s'" by blast
        have "read_result sent incoming f s n (map_option (\<lambda>l. d @ l) res) f' s'"
          by (rule read_result_more [OF d inp _ _ i(1) n(2)]) (simp_all add: r w)
        with step n(1) show ?thesis by (intro exI [of _ "map_option (\<lambda>l. d @ l) res"]) (auto simp: option.map_comp comp_def)
      qed
    qed
  qed
qed

lemma write_block_wrote:
  assumes "socket_laws so sent incoming" "file_inv f"
  shows "\<exists>f' s'. write_block so f ws s = Some (is_ok (bf_error f'), f', s') \<and> wrote sent incoming f s ws f' s'"
proof -
  have "0 < bf_out_buf_size f" using assms(2) by (auto simp: file_inv_def)
  from flush_out_buf_wrote [OF assms(1) this, of s] obtain f1 s1 where
    f1: "flush_out_buf so f s = Some (is_ok (bf_error f1), f1, s1)" "bf_out_buf f1 = []" "wrote sent incoming f s [] f1 s1"
    by blast
  from send_entire_buffer_sends [OF assms(1), of f1 ws s1] obtain f2 s2 where
    f2: "send_entire_buffer so f1 ws s1 = Some (f2, s2)" "same_input f1 f2" "bf_out_buf f2 = bf_out_buf f1"
      "bf_error f2 = bf_error f1 \<or> bf_error f2 = fail ''Error writing to socket''"
      "incoming s2 = incoming s1" "prefix (sent s2) (sent s1 @ ws)"
      "is_ok (bf_error f2) \<longrightarrow> is_ok (bf_error f1) \<and> sent s2 = sent s1 @ ws" "\<not> is_ok (bf_error f1) \<longrightarrow> sent s2 = sent s1"
    by blast
  then have "wrote sent incoming f1 s1 ws f2 s2"
    using f1(2) by (auto simp: wrote_def same_input_def file_inv_def)
  from wrote_append [OF f1(3) this] f1(1) f2(1) show ?thesis by (auto simp: write_block_def)
qed

lemma write_formatted_string_wrote:
  assumes "socket_laws so sent incoming" "file_inv f" "length ws < bf_out_buf_size f"
  shows "\<exists>f' s'. write_formatted_string so f ws s = Some (is_ok (bf_error f'), f', s') \<and> wrote sent incoming f s ws f' s'"
proof (cases "is_ok (bf_error f) \<and> \<not> length ws < bf_out_buf_size f - length (bf_out_buf f)")
  case False
  then show ?thesis using assms(2)
    by (auto simp: write_formatted_string_def wrote_def same_input_def prefix_def file_inv_def)
next
  case True
  have "0 < bf_out_buf_size f" using assms(2) by (auto simp: file_inv_def)
  from flush_out_buf_wrote [OF assms(1) this, of s] obtain f1 s1 where
    f1: "flush_out_buf so f s = Some (is_ok (bf_error f1), f1, s1)" "bf_out_buf f1 = []" "wrote sent incoming f s [] f1 s1"
    by blast
  then have sz: "bf_out_buf_size f1 = bf_out_buf_size f" by (simp add: wrote_def same_input_def)
  show ?thesis
  proof (cases "is_ok (bf_error f1)")
    case ok: True
    define f2 where "f2 = f1\<lparr>bf_out_buf := ws, bf_error := Inr ()\<rparr>"
    have "bf_error f1 = Inr ()" using ok by (cases "bf_error f1") auto
    then have "wrote sent incoming f1 s1 ws f2 s1"
      using f1(2) assms(3) sz by (auto simp: wrote_def same_input_def prefix_def file_inv_def f2_def)
    from wrote_append [OF f1(3) this] True ok f1(1) assms(3) sz show ?thesis
      by (intro exI [of _ f2] exI [of _ s1]) (simp add: write_formatted_string_def f2_def)
  next
    case False
    then have "wrote sent incoming f1 s1 ws f1 s1" by (simp add: wrote_def same_input_def)
    from wrote_append [OF f1(3) this] True False f1(1) show ?thesis
      by (intro exI [of _ f1] exI [of _ s1]) (simp add: write_formatted_string_def)
  qed
qed

section \<open>A connection is a pair of streams\<close>

datatype file_op =
    Read_line nat bool | Write_string string | Write_char char | Write_block string | Write_formatted string | Flush

definition void :: "(bool \<times> buffered_file \<times> 's) option \<Rightarrow> (string option \<times> buffered_file \<times> 's) option" where
  "void r = map_option (\<lambda>(_, f, s). (None, f, s)) r"

definition run_op :: "'s socket_ops \<Rightarrow> file_op \<Rightarrow> buffered_file \<Rightarrow> 's \<Rightarrow> (string option \<times> buffered_file \<times> 's) option" where
  "run_op so op f s =
     (case op of
        Read_line n flush \<Rightarrow> read_line so f n flush s
      | Write_string t \<Rightarrow> void (write_string so f t s)
      | Write_char c \<Rightarrow> void (write_char so f c s)
      | Write_block t \<Rightarrow> void (write_block so f t s)
      | Write_formatted t \<Rightarrow> void (write_formatted_string so f t s)
      | Flush \<Rightarrow> void (flush_out_buf so f s))"

fun run_ops :: "'s socket_ops \<Rightarrow> file_op list \<Rightarrow> buffered_file \<Rightarrow> 's \<Rightarrow> (string option list \<times> buffered_file \<times> 's) option" where
  "run_ops so [] f s = Some ([], f, s)"
| "run_ops so (op # ops) f s =
     Option.bind (run_op so op f s) (\<lambda>(r, f, s). map_option (\<lambda>(rs, f, s). (r # rs, f, s)) (run_ops so ops f s))"

text \<open>The specification: the bytes that come in and those that go out, and nothing of buffers or packets.\<close>

definition first_line :: "string \<Rightarrow> string" where
  "first_line i = takeWhile (\<lambda>c. c \<noteq> newline) i"

definition op_text :: "file_op \<Rightarrow> string" where
  "op_text op =
     (case op of Read_line _ _ \<Rightarrow> [] | Write_string t \<Rightarrow> t | Write_char c \<Rightarrow> [c] | Write_block t \<Rightarrow> t | Write_formatted t \<Rightarrow> t
      | Flush \<Rightarrow> [])"

definition stream_op :: "file_op \<Rightarrow> string \<times> string \<Rightarrow> string option \<times> string \<times> string" where
  "stream_op op io =
     (case (op, io) of
        (Read_line _ _, (i, out)) \<Rightarrow>
          if newline \<in> set i then (Some (first_line i), drop (length (first_line i) + 1) i, out) else (None, [], out)
      | (_, (i, out)) \<Rightarrow> (None, i, out @ op_text op))"

fun stream_ops :: "file_op list \<Rightarrow> string \<times> string \<Rightarrow> string option list \<times> string \<times> string" where
  "stream_ops [] io = ([], io)"
| "stream_ops (op # ops) io = (let (r, io) = stream_op op io; (rs, io) = stream_ops ops io in (r # rs, io))"

definition op_fits :: "buffered_file \<Rightarrow> file_op \<Rightarrow> bool" where
  "op_fits f op = (case op of Write_formatted t \<Rightarrow> length t < bf_out_buf_size f | _ \<Rightarrow> True)"

text \<open>The states without error: the buffers are in order and the end of the input has been reached only if it is empty.\<close>

definition good :: "('s \<Rightarrow> string) \<Rightarrow> buffered_file \<Rightarrow> 's \<Rightarrow> bool" where
  "good incoming f s = (is_ok (bf_error f) \<and> file_inv f \<and> (bf_eof f \<longrightarrow> input incoming f s = []))"

definition streams :: "('s \<Rightarrow> string) \<Rightarrow> ('s \<Rightarrow> string) \<Rightarrow> buffered_file \<Rightarrow> 's \<Rightarrow> string \<times> string" where
  "streams sent incoming f s = (input incoming f s, sent s @ bf_out_buf f)"

text \<open>One call on a good file: either it is the call on the streams, or there is an error.\<close>

definition op_step ::
    "('s \<Rightarrow> string) \<Rightarrow> ('s \<Rightarrow> string) \<Rightarrow> file_op \<Rightarrow> buffered_file \<Rightarrow> 's \<Rightarrow> string option \<Rightarrow> buffered_file \<Rightarrow> 's \<Rightarrow> bool" where
  "op_step sent incoming op f s r f' s' =
     (bf_out_buf_size f' = bf_out_buf_size f \<and>
      prefix (sent s') (snd (streams sent incoming f s) @ op_text op) \<and>
      (is_ok (bf_error f') \<longrightarrow>
        good incoming f' s' \<and> stream_op op (streams sent incoming f s) = (r, streams sent incoming f' s')))"

lemma wrote_op_step:
  assumes "wrote sent incoming f s (op_text op) f' s'" "good incoming f s" "\<And>n fl. op \<noteq> Read_line n fl"
  shows "op_step sent incoming op f s None f' s'"
proof -
  have "input incoming f' s' = input incoming f s" using assms(1) by (auto simp: wrote_def same_input_def input_def)
  moreover have "stream_op op io = (None, fst io, snd io @ op_text op)" for io
    using assms(3) by (cases op) (auto simp: stream_op_def split: prod.splits)
  ultimately show ?thesis
    using assms(1,2) wrote_inv [OF assms(1)]
    by (auto simp: op_step_def good_def streams_def wrote_def same_input_def)
qed

lemma read_op_step:
  assumes "socket_laws so sent incoming" "good incoming f s"
  shows "\<exists>r f' s'. run_op so (Read_line n fl) f s = Some (r, f', s') \<and> op_step sent incoming (Read_line n fl) f s r f' s'"
proof (cases "bf_eof f")
  case True
  then show ?thesis using assms(2)
    by (auto simp: run_op_def read_line_def read_line_loop.simps [of so f] op_step_def streams_def stream_op_def good_def op_text_def)
next
  case False
  then have "usable f" using assms(2) by (simp add: usable_def good_def)
  from read_line_loop_reads [OF assms(1) this, of "[]" n fl s] obtain r f' s' where
    r: "read_line_loop so f [] n fl s = Some (r, f', s')" "read_result sent incoming f s n r f' s'"
    by (auto simp: option.map_ident)
  have "first_line (l @ newline # i) = l" "drop (length (l @ [newline])) (l @ newline # i) = i" if "newline \<notin> set l" for l i
    using that by (auto simp: first_line_def takeWhile_append)
  with r(2) have "op_step sent incoming (Read_line n fl) f s r f' s'"
    by (cases r) (auto simp: read_result_def op_step_def streams_def stream_op_def good_def usable_def op_text_def)
  with r(1) show ?thesis by (auto simp: run_op_def read_line_def)
qed

lemma run_op_step:
  assumes "socket_laws so sent incoming" "good incoming f s" "op_fits f op"
  shows "\<exists>r f' s'. run_op so op f s = Some (r, f', s') \<and> op_step sent incoming op f s r f' s'"
proof (cases "\<exists>n fl. op = Read_line n fl")
  case True
  with read_op_step [OF assms(1,2)] show ?thesis by blast
next
  case False
  have inv: "file_inv f" "0 < bf_out_buf_size f" using assms(2) by (auto simp: good_def file_inv_def)
  have "\<exists>ok f' s'. run_op so op f s = void (Some (ok, f', s')) \<and> wrote sent incoming f s (op_text op) f' s'"
  proof (cases op)
    case Flush
    with flush_out_buf_wrote [OF assms(1) inv(2), of s] show ?thesis by (fastforce simp: run_op_def op_text_def)
  next
    case (Write_string t)
    with write_string_wrote [OF assms(1) inv(1), of t s] show ?thesis by (fastforce simp: run_op_def op_text_def)
  next
    case (Write_char c)
    with write_char_wrote [OF assms(1) inv(1), of c s] show ?thesis by (fastforce simp: run_op_def op_text_def)
  next
    case (Write_block t)
    with write_block_wrote [OF assms(1) inv(1), of t s] show ?thesis by (fastforce simp: run_op_def op_text_def)
  next
    case (Write_formatted t)
    with write_formatted_string_wrote [OF assms(1) inv(1), of t s] assms(3) show ?thesis
      by (fastforce simp: run_op_def op_text_def op_fits_def)
  qed (use False in auto)
  with wrote_op_step [OF _ assms(2)] False show ?thesis by (fastforce simp: void_def)
qed

lemma run_op_error:
  assumes "\<not> is_ok (bf_error f)"
  shows "\<exists>r f'. run_op so op f s = Some (r, f', s) \<and> \<not> is_ok (bf_error f')"
  using assms
  by (cases op)
    (auto simp: run_op_def void_def read_line_def read_line_loop.simps [of so f] write_string.simps [of so f] write_char_def
      write_block_def write_formatted_string_def flush_out_buf_def send_entire_buffer.simps [of so f]
      send_entire_buffer.simps [of so "f\<lparr>bf_out_buf := []\<rparr>"] Let_def)

lemma run_ops_error:
  assumes "\<not> is_ok (bf_error f)"
  shows "\<exists>rs f'. run_ops so ops f s = Some (rs, f', s) \<and> \<not> is_ok (bf_error f')"
  using assms
proof (induction ops arbitrary: f)
  case (Cons op ops)
  from run_op_error [OF Cons.prems, of so op s] obtain r f1 where
    "run_op so op f s = Some (r, f1, s)" "\<not> is_ok (bf_error f1)" by blast
  with Cons.IH [OF this(2)] show ?case by auto
qed simp

lemma stream_ops_output: "prefix x (snd io) \<Longrightarrow> prefix x (snd (snd (stream_ops ops io)))"
proof (induction ops arbitrary: io)
  case (Cons op ops)
  have "prefix x (snd (snd (stream_op op io)))"
    using Cons.prems by (cases op; cases io) (auto simp: stream_op_def)
  with Cons.IH show ?case by (auto simp: Let_def split: prod.splits) (metis snd_conv)
qed simp

text \<open>
  C15: a connection behaves as a pair of streams.  For every sequence of calls that read lines and write
  text, on every socket that behaves as documented and whatever pieces it delivers and takes, all calls
  return; as long as there is no error, the lines are those of the incoming bytes, and what has been
  sent together with the buffer is exactly what was written; in any case what has been sent is the start
  of what was written.
\<close>

theorem buffered_file_refines_streams:
  assumes "socket_laws so sent incoming" "good incoming f s" "\<And>op. op \<in> set ops \<Longrightarrow> op_fits f op"
  shows "\<exists>rs f' s'. run_ops so ops f s = Some (rs, f', s') \<and>
    prefix (sent s') (snd (snd (stream_ops ops (streams sent incoming f s)))) \<and>
    (is_ok (bf_error f') \<longrightarrow> stream_ops ops (streams sent incoming f s) = (rs, streams sent incoming f' s'))"
  using assms(2,3)
proof (induction ops arbitrary: f s)
  case Nil
  then show ?case by (simp add: streams_def prefix_def)
next
  case (Cons op ops)
  from run_op_step [OF assms(1) Cons.prems(1), of op] Cons.prems(2) obtain r f1 s1 where
    r: "run_op so op f s = Some (r, f1, s1)" "op_step sent incoming op f s r f1 s1" by auto
  show ?case
  proof (cases "is_ok (bf_error f1)")
    case True
    with r(2) have g: "good incoming f1 s1" "stream_op op (streams sent incoming f s) = (r, streams sent incoming f1 s1)"
      and "bf_out_buf_size f1 = bf_out_buf_size f"
      by (auto simp: op_step_def)
    then have same: "op_fits f1 = op_fits f" by (auto simp: op_fits_def fun_eq_iff split: file_op.splits)
    have "\<And>op'. op' \<in> set ops \<Longrightarrow> op_fits f1 op'" unfolding same by (rule Cons.prems(2)) simp
    from Cons.IH [OF g(1) this] show ?thesis using r(1) g(2) by (auto simp: Let_def split: prod.splits)
  next
    case False
    from run_ops_error [OF False, of so ops s1] obtain rs f' where
      e: "run_ops so ops f1 s1 = Some (rs, f', s1)" "\<not> is_ok (bf_error f')" by blast
    have "snd (snd (stream_op op (streams sent incoming f s))) = snd (streams sent incoming f s) @ op_text op"
      by (cases op) (auto simp: stream_op_def op_text_def streams_def split: prod.splits)
    then have "prefix (sent s1) (snd (snd (stream_op op (streams sent incoming f s))))" using r(2) by (simp add: op_step_def)
    from stream_ops_output [OF this, of ops] e r(1) show ?thesis by (auto simp: Let_def split: prod.splits)
  qed
qed

text \<open>A socket that delivers up to three bytes at a time and takes one.\<close>

definition slow_socket :: "(string \<times> string) socket_ops" where
  "slow_socket = \<lparr>so_read = (\<lambda>n (i, out). (Inr (take (min n 3) i), (drop (min n 3) i, out))),
     so_write = (\<lambda>buf (i, out). (Inr 1, (i, out @ take 1 buf)))\<rparr>"

lemma slow_socket_laws: "socket_laws slow_socket snd fst"
  by (auto simp: socket_laws_def slow_socket_def Suc_le_eq)

theorem buffered_file_refines_streams_witness:
  "\<exists>rs f' s'. run_ops slow_socket [Write_string ''OK'', Write_char newline, Read_line 16 True] (create_buffered_file 4 2)
      (''ab'' @ [newline, newline], []) = Some (rs, f', s') \<and>
    prefix (snd s') (''OK'' @ [newline]) \<and>
    (is_ok (bf_error f') \<longrightarrow> rs = [None, None, Some ''ab''] \<and> streams snd fst f' s' = ([newline], ''OK'' @ [newline]))"
proof -
  let ?f = "create_buffered_file 4 2" and ?s = "(''ab'' @ [newline, newline], [])"
  let ?ops = "[Write_string ''OK'', Write_char newline, Read_line 16 True]"
  have g: "good fst ?f ?s" by (simp add: good_def create_buffered_file_def file_inv_def)
  have fit: "\<And>op. op \<in> set ?ops \<Longrightarrow> op_fits ?f op" by (auto simp: op_fits_def)
  have e: "stream_ops ?ops (streams snd fst ?f ?s) = ([None, None, Some ''ab''], ([newline], ''OK'' @ [newline]))"
    by (simp add: streams_def create_buffered_file_def input_def stream_op_def op_text_def first_line_def newline_def)
  from buffered_file_refines_streams [OF slow_socket_laws g, of ?ops, OF fit, unfolded e] obtain rs f' s' where
    "run_ops slow_socket ?ops ?f ?s = Some (rs, f', s')" "prefix (snd s') (snd (snd ([None, None, Some ''ab''], ([newline], ''OK'' @ [newline]))))"
    "is_ok (bf_error f') \<longrightarrow> ([None, None, Some ''ab''], ([newline], ''OK'' @ [newline])) = (rs, streams snd fst f' s')"
    by blast
  then show ?thesis by (intro exI [of _ rs] exI [of _ f'] exI [of _ s']) (simp del: run_ops.simps)
qed

end
