(* ===== verification/Panda_Entity.thy ===== *)
theory Panda_Entity
  imports Panda_Changes Panda_Blocks Panda_Format Panda_Enums
begin

text \<open>
  Blocks, fields and attributes by name (\<^verbatim>\<open>fields.c\<close>), and the commands on them (\<^verbatim>\<open>config_command.c\<close>).
  The hash tables of blocks, fields and attributes are kept as lists of entries in the order in which
  \<^verbatim>\<open>hash_table_walk\<close> visits them; a pointer to an entry is its name.
\<close>

text \<open>The state that the methods of a class act on: the data of all classes with the devices, and the global change index.\<close>

type_synonym 'd world = "'d \<times> u64"

text \<open>
  The writer that a table command fills in, with its context; \<open>None\<close> is a failing assertion or a lock that is
  never released.
\<close>

record 'w put_table_writer =
  pw_write :: "string \<Rightarrow> 'w \<Rightarrow> (unit result \<times> 'w) option"
  pw_close :: "bool \<Rightarrow> 'w \<Rightarrow> (unit result \<times> 'w) option"

text \<open>
  The methods of a class, applied to the data of a field.  A method that writes several results returns
  what it has written with its status.
\<close>

record 'd class_methods =
  cm_name :: string
  cm_describe :: "('d \<Rightarrow> string option) option"
  cm_refresh :: "(u32 \<Rightarrow> 'd world \<Rightarrow> 'd world) option"
  cm_get :: "(u32 \<Rightarrow> nat \<Rightarrow> 'd world \<Rightarrow> string result \<times> 'd world) option"
  cm_get_many :: "(u32 \<Rightarrow> 'd world \<Rightarrow> (unit result \<times> string list) \<times> 'd world) option"
  cm_put :: "(u32 \<Rightarrow> string \<Rightarrow> 'd world \<Rightarrow> unit result \<times> 'd world) option"
  cm_put_table :: "(u32 \<Rightarrow> bool \<Rightarrow> bool \<Rightarrow> bool \<Rightarrow> 'd world \<Rightarrow> ('d world put_table_writer result \<times> 'd world) option) option"
  cm_change_set_index :: nat
  cm_change_set :: "(u64 \<Rightarrow> 'd world \<Rightarrow> bool list \<times> 'd world) option"
  cm_get_registers :: "('d \<Rightarrow> u32 list result) option"
  cm_set_read_only :: "('d \<Rightarrow> 'd) option"
  cm_has_subfield :: "('d \<Rightarrow> string \<Rightarrow> bool) option"
  cm_parse_register :: "(u32 \<Rightarrow> string \<Rightarrow> 'd \<Rightarrow> (unit result \<times> string) \<times> 'd) option"
  cm_finalise :: "('d \<Rightarrow> unit result \<times> 'd) option"

record 'd field =
  fd_name :: string
  fd_methods :: "'d class_methods"
  fd_sequence :: u32
  fd_description :: "string option"
  fd_attrs :: "(string \<times> 'd attr) list"
  fd_initialised :: bool

record 'd block =
  bk_name :: string
  bk_count :: u32
  bk_base :: u32
  bk_fields :: "(string \<times> 'd field) list"
  bk_description :: "string option"

type_synonym 'd block_map = "(string \<times> 'd block) list"

section \<open>Looking things up\<close>

definition lookup_block :: "'d block_map \<Rightarrow> string \<Rightarrow> 'd block result" where
  "lookup_block blocks name = (case map_of blocks name of None \<Rightarrow> fail ''No such block'' | Some block \<Rightarrow> Inr block)"

definition lookup_field :: "'d block \<Rightarrow> string \<Rightarrow> 'd field result" where
  "lookup_field block name =
     (case map_of (bk_fields block) name of None \<Rightarrow> fail ''No such field'' | Some field \<Rightarrow> Inr field)"

definition lookup_attr :: "'d field \<Rightarrow> string \<Rightarrow> 'd attr result" where
  "lookup_attr field name =
     (case map_of (fd_attrs field) name of None \<Rightarrow> fail ''No such attribute'' | Some attr \<Rightarrow> Inr attr)"

definition lookup_table_subfield :: "'d field \<Rightarrow> string \<Rightarrow> 'd \<Rightarrow> unit result" where
  "lookup_table_subfield field name d =
     (case cm_has_subfield (fd_methods field) of
        None \<Rightarrow> fail ''Field is not a table''
      | Some has_subfield \<Rightarrow> test_ok (has_subfield d name) ''Table sub-field not found'')"

definition get_block_base :: "'d block \<Rightarrow> u32" where
  "get_block_base block = bk_base block"

definition get_field_registers :: "'d field \<Rightarrow> 'd \<Rightarrow> u32 list result" where
  "get_field_registers field d =
     (case cm_get_registers (fd_methods field) of
        None \<Rightarrow> fail ''Field has no register mapping''
      | Some get_registers \<Rightarrow> get_registers d)"

definition set_field_read_only :: "'d field \<Rightarrow> 'd \<Rightarrow> unit result \<times> 'd" where
  "set_field_read_only field d =
     (case cm_set_read_only (fd_methods field) of
        None \<Rightarrow> (fail ''Field cannot be marked read-only'', d)
      | Some set_read_only \<Rightarrow> (Inr (), set_read_only d))"

section \<open>Lists\<close>

definition block_list_get :: "'d block_map \<Rightarrow> nat \<Rightarrow> string list" where
  "block_list_get blocks len =
     map (\<lambda>(_, block). take (len - 1) (bk_name block @ '' '' @ show_int (bk_count block))) blocks"

definition describe_field :: "'d field \<Rightarrow> nat \<Rightarrow> 'd \<Rightarrow> string result" where
  "describe_field field len d =
     (case Option.bind (cm_describe (fd_methods field)) (\<lambda>describe. describe d) of
        Some extra \<Rightarrow> format_string len (cm_name (fd_methods field) @ '' '' @ extra)
      | None \<Rightarrow> format_string len (cm_name (fd_methods field)))"

text \<open>The outer option is a failing assertion.\<close>

fun field_list_get :: "(string \<times> 'd field) list \<Rightarrow> nat \<Rightarrow> 'd \<Rightarrow> string list option" where
  "field_list_get [] len d = Some []"
| "field_list_get ((_, field) # fs) len d =
     (let pre = fd_name field @ '' '' @ show_u32 (fd_sequence field) @ '' '' in
      case describe_field field (len - length pre) d of
        Inl _ \<Rightarrow> None
      | Inr description \<Rightarrow> map_option (\<lambda>rest. (pre @ description) # rest) (field_list_get fs len d))"

definition attr_list_get :: "'d field \<Rightarrow> string list" where
  "attr_list_get field = map fst (fd_attrs field)"

section \<open>Reading and writing\<close>

datatype answer = Answer_one string | Answer_many "string list"

text \<open>
  The status and what was written.  Several results may have been written before an error.
\<close>

definition field_get :: "'d field \<Rightarrow> u32 \<Rightarrow> nat \<Rightarrow> 'd world \<Rightarrow> (unit result \<times> answer) \<times> 'd world" where
  "field_get field number len w =
     (let m = fd_methods field; w = (case cm_refresh m of None \<Rightarrow> w | Some refresh \<Rightarrow> refresh number w) in
      case cm_get m of
        Some get \<Rightarrow> (case get number len w of
            (Inl e, w) \<Rightarrow> ((Inl e, Answer_one []), w)
          | (Inr string, w) \<Rightarrow> ((Inr (), Answer_one string), w))
      | None \<Rightarrow> (case cm_get_many m of
            Some get_many \<Rightarrow> (case get_many number w of ((r, strings), w) \<Rightarrow> ((r, Answer_many strings), w))
          | None \<Rightarrow> ((fail ''Field not readable'', Answer_many []), w)))"

definition field_put :: "'d field \<Rightarrow> u32 \<Rightarrow> string \<Rightarrow> 'd world \<Rightarrow> unit result \<times> 'd world" where
  "field_put field number string w =
     (case cm_put (fd_methods field) of
        None \<Rightarrow> (fail ''Field not writeable'', w) | Some put \<Rightarrow> put number string w)"

definition field_put_table ::
    "'d field \<Rightarrow> u32 \<Rightarrow> bool \<Rightarrow> bool \<Rightarrow> bool \<Rightarrow> 'd world \<Rightarrow> ('d world put_table_writer result \<times> 'd world) option" where
  "field_put_table field number streaming_mode last_table binary w =
     (case cm_put_table (fd_methods field) of
        None \<Rightarrow> Some (fail ''Field is not a table'', w)
      | Some put_table \<Rightarrow> put_table number streaming_mode last_table binary w)"

section \<open>Names of entities\<close>

record entity_context =
  ec_number :: u32
  ec_block :: "string option"
  ec_field :: "string option"
  ec_attr :: "string option"

text \<open>The context, the number of instances, and whether a number was given.\<close>

definition parse_and_lookup_block :: "'d block_map \<Rightarrow> nat \<Rightarrow> ('d block \<times> u32 \<times> bool) parser" where
  "parse_and_lookup_block blocks lw =
     p_then (parse_block_name MAX_NAME_LENGTH) (\<lambda>block_name.
     p_then (p_lift (lookup_block blocks block_name)) (\<lambda>block input.
       if is_digit (peek input) then
         p_then (parse_uint lw) (\<lambda>number.
         p_then (p_lift (test_ok (0 < number \<and> number \<le> bk_count block) ''Invalid block number'')) (\<lambda>_.
           p_return (block, number - 1, True))) input
       else (Inr (block, 0, False), input)))"

definition check_block_number :: "u32 \<Rightarrow> bool option \<Rightarrow> unit result" where
  "check_block_number max_number number_present =
     (case number_present of
        None \<Rightarrow> Inr ()
      | Some present \<Rightarrow> test_ok (present \<or> max_number = 1) ''Missing block number'')"

definition parse_field_name :: "'d block \<Rightarrow> 'd field parser" where
  "parse_field_name block =
     p_then (parse_alphanum_name MAX_NAME_LENGTH) (\<lambda>name. p_lift (lookup_field block name))"

definition parse_attr_name :: "'d field \<Rightarrow> (string \<times> 'd attr) parser" where
  "parse_attr_name field =
     p_then (parse_name MAX_NAME_LENGTH) (\<lambda>name.
       p_then (p_lift (lookup_attr field name)) (\<lambda>attr. p_return (name, attr)))"

text \<open>
  The three parts of \<^verbatim>\<open>parse_block_entity\<close>: after \<^verbatim>\<open>block.field\<close>, after \<^verbatim>\<open>block\<close>, and the whole.  \<open>want_number\<close> and \<open>want_star\<close>
  tell whether the caller gives a place for the flags.  The result has the context and the two flags.
\<close>

definition parse_after_field ::
    "'d block \<Rightarrow> bool option \<Rightarrow> bool \<Rightarrow> entity_context \<Rightarrow> 'd field \<Rightarrow> (entity_context \<times> bool) parser" where
  "parse_after_field block number_present want_star ec field input =
     (let ec = ec\<lparr>ec_field := Some (fd_name field)\<rparr> in
      case read_char (CHR ''.'') input of
        (True, input) \<Rightarrow>
          (case (if want_star then read_char (CHR ''*'') input else (False, input)) of
             (True, input) \<Rightarrow> (Inr (ec, True), input)
           | (False, input) \<Rightarrow>
               p_then (p_lift (check_block_number (bk_count block) number_present)) (\<lambda>_.
               p_then (parse_attr_name field) (\<lambda>(name, attr). p_return (ec\<lparr>ec_attr := Some name\<rparr>, False))) input)
      | (False, input) \<Rightarrow>
          p_then (p_lift (check_block_number (bk_count block) number_present)) (\<lambda>_. p_return (ec, False)) input)"

definition parse_after_block ::
    "'d block \<Rightarrow> bool option \<Rightarrow> bool \<Rightarrow> entity_context \<Rightarrow> (entity_context \<times> bool) parser" where
  "parse_after_block block number_present want_star ec input =
     (case read_char (CHR ''.'') input of
        (False, input) \<Rightarrow> (Inr (ec, False), input)
      | (True, input) \<Rightarrow>
          (case (if want_star then read_char (CHR ''*'') input else (False, input)) of
             (True, input) \<Rightarrow> (Inr (ec, True), input)
           | (False, input) \<Rightarrow>
               p_then (parse_field_name block) (parse_after_field block number_present want_star ec) input))"

definition parse_block_entity ::
    "'d block_map \<Rightarrow> nat \<Rightarrow> bool \<Rightarrow> bool \<Rightarrow> (entity_context \<times> bool \<times> bool) parser" where
  "parse_block_entity blocks lw want_number want_star =
     p_then (parse_and_lookup_block blocks lw) (\<lambda>(block, number, present).
     p_then (parse_after_block block (if want_number then Some present else None) want_star
         \<lparr>ec_number = number, ec_block = Some (bk_name block), ec_field = None, ec_attr = None\<rparr>) (\<lambda>(ec, star).
       p_return (ec, present, star)))"

text \<open>What the pointers of a context stand for.\<close>

definition ctxt_block :: "'d block_map \<Rightarrow> entity_context \<Rightarrow> 'd block option" where
  "ctxt_block blocks ec = Option.bind (ec_block ec) (map_of blocks)"

definition ctxt_field :: "'d block_map \<Rightarrow> entity_context \<Rightarrow> 'd field option" where
  "ctxt_field blocks ec =
     Option.bind (ctxt_block blocks ec) (\<lambda>block. Option.bind (ec_field ec) (map_of (bk_fields block)))"

definition ctxt_attr :: "'d block_map \<Rightarrow> entity_context \<Rightarrow> 'd attr option" where
  "ctxt_attr blocks ec =
     Option.bind (ctxt_field blocks ec) (\<lambda>field. Option.bind (ec_attr ec) (map_of (fd_attrs field)))"

definition parse_table_subfield ::
    "'d block_map \<Rightarrow> entity_context \<Rightarrow> 'd \<Rightarrow> string option parser" where
  "parse_table_subfield blocks entity d input =
     (case ctxt_field blocks entity of
        Some field \<Rightarrow>
          if ec_attr entity = None \<and> peek input = CHR ''['' then
            p_then (parse_char (CHR ''['')) (\<lambda>_.
            p_then (parse_char (CHR '']'')) (\<lambda>_.
            p_then (parse_char (CHR ''.'')) (\<lambda>_.
            p_then (parse_alphanum_name MAX_NAME_LENGTH) (\<lambda>name.
            p_then (p_lift (lookup_table_subfield field name d)) (\<lambda>_. p_return (Some name)))))) input
          else (Inr None, input)
      | None \<Rightarrow> (Inr None, input))"

section \<open>Commands\<close>

datatype entity_actions = field_list_actions | block_field_actions | attr_list_actions | field_attr_actions

definition compute_entity_handler :: "'d block_map \<Rightarrow> nat \<Rightarrow> string \<Rightarrow> (entity_context \<times> entity_actions) result" where
  "compute_entity_handler blocks lw input =
     (case p_then (parse_block_entity blocks lw True True) (\<lambda>r. p_then parse_eos (\<lambda>_. p_return r)) input of
        (Inl e, _) \<Rightarrow> Inl e
      | (Inr (ec, _, star_present), _) \<Rightarrow>
          if star_present then
            Inr (ec, if ec_field ec \<noteq> None then attr_list_actions else field_list_actions)
          else
            and_then (test_ok (ec_field ec \<noteq> None) ''Missing field name'') (\<lambda>_.
              Inr (ec, if ec_attr ec \<noteq> None then field_attr_actions else block_field_actions)))"

text \<open>The outcome of a command that needs a pointer of the context; without it there is no meaning.\<close>

definition attr_answer :: "response result \<Rightarrow> unit result \<times> answer" where
  "attr_answer r =
     (case r of Inl e \<Rightarrow> (Inl e, Answer_many [])
      | Inr (RESPONSE_ONE string) \<Rightarrow> (Inr (), Answer_one string)
      | Inr (RESPONSE_MANY strings) \<Rightarrow> (Inr (), Answer_many strings))"

definition process_entity_get ::
    "'d block_map \<Rightarrow> nat \<Rightarrow> nat \<Rightarrow> string \<Rightarrow> 'd world \<Rightarrow> ((unit result \<times> answer) \<times> 'd world) option" where
  "process_entity_get blocks lw len name w =
     (case compute_entity_handler blocks lw name of
        Inl e \<Rightarrow> Some ((Inl e, Answer_many []), w)
      | Inr (ec, actions) \<Rightarrow>
          (case actions of
             field_list_actions \<Rightarrow>
               Option.bind (ctxt_block blocks ec) (\<lambda>block.
                 map_option (\<lambda>l. ((Inr (), Answer_many l), w)) (field_list_get (bk_fields block) len (fst w)))
           | block_field_actions \<Rightarrow>
               map_option (\<lambda>field. field_get field (ec_number ec) len w) (ctxt_field blocks ec)
           | attr_list_actions \<Rightarrow>
               map_option (\<lambda>field. ((Inr (), Answer_many (attr_list_get field)), w)) (ctxt_field blocks ec)
           | field_attr_actions \<Rightarrow>
               map_option (\<lambda>attr. (attr_answer (attr_get attr (fst w) (ec_number ec) len), w)) (ctxt_attr blocks ec)))"

text \<open>Writing an attribute changes its update index, which is kept in the maps.\<close>

definition update_attr :: "entity_context \<Rightarrow> 'd attr \<Rightarrow> 'd block_map \<Rightarrow> 'd block_map" where
  "update_attr ec attr blocks =
     map (\<lambda>(bn, block). (bn, if ec_block ec \<noteq> Some bn then block else
       block\<lparr>bk_fields := map (\<lambda>(fn, field). (fn, if ec_field ec \<noteq> Some fn then field else
         field\<lparr>fd_attrs := map (\<lambda>(an, a). (an, if ec_attr ec \<noteq> Some an then a else attr)) (fd_attrs field)\<rparr>))
           (bk_fields block)\<rparr>)) blocks"

definition process_entity_put ::
    "'d block_map \<Rightarrow> nat \<Rightarrow> string \<Rightarrow> string \<Rightarrow> 'd world \<Rightarrow> (unit result \<times> 'd block_map \<times> 'd world) option" where
  "process_entity_put blocks lw name val w =
     (case compute_entity_handler blocks lw name of
        Inl e \<Rightarrow> Some (Inl e, blocks, w)
      | Inr (ec, actions) \<Rightarrow>
          (case actions of
             block_field_actions \<Rightarrow>
               map_option (\<lambda>field. case field_put field (ec_number ec) val w of (r, w) \<Rightarrow> (r, blocks, w))
                 (ctxt_field blocks ec)
           | field_attr_actions \<Rightarrow>
               map_option (\<lambda>attr. case attr_put attr (fst w) (ec_number ec) val (snd w) of
                   (r, d, attr, gci) \<Rightarrow> (r, update_attr ec attr blocks, (d, gci)))
                 (ctxt_attr blocks ec)
           | _ \<Rightarrow> Some (fail ''Field not writeable'', blocks, w)))"

definition process_entity_put_table ::
    "'d block_map \<Rightarrow> nat \<Rightarrow> string \<Rightarrow> bool \<Rightarrow> bool \<Rightarrow> bool \<Rightarrow> 'd world \<Rightarrow> ('d world put_table_writer result \<times> 'd world) option" where
  "process_entity_put_table blocks lw name streaming_mode last_table binary w =
     (case compute_entity_handler blocks lw name of
        Inl e \<Rightarrow> Some (Inl e, w)
      | Inr (ec, actions) \<Rightarrow>
          (case actions of
             block_field_actions \<Rightarrow>
               Option.bind (ctxt_field blocks ec) (\<lambda>field.
                 field_put_table field (ec_number ec) streaming_mode last_table binary w)
           | _ \<Rightarrow> Some (fail ''Field not a table'', w)))"

section \<open>What a command refers to\<close>

definition names_ok :: "'d block_map \<Rightarrow> bool" where
  "names_ok blocks =
     list_all (\<lambda>(bn, b). bk_name b = bn \<and> list_all (\<lambda>(fn, f). fd_name f = fn) (bk_fields b)) blocks"

lemma names_okD:
  assumes "names_ok blocks" "map_of blocks bn = Some b"
  shows "bk_name b = bn" "map_of (bk_fields b) fn = Some f \<Longrightarrow> fd_name f = fn"
  using assms map_of_SomeD [OF assms(2)] by (auto simp: names_ok_def list_all_iff dest!: map_of_SomeD)

lemma pred_less: "0 < m \<Longrightarrow> m \<le> c \<Longrightarrow> m - 1 < (c :: u32)"
proof -
  assume a: "0 < m" "m \<le> c"
  then have "m \<noteq> 0" by auto
  with a show ?thesis by (simp add: word_less_nat_alt word_le_nat_alt unat_minus_one)
qed

lemma parse_and_lookup_block_Inr:
  assumes "parse_and_lookup_block blocks lw s = (Inr (b, n, present), rest)"
  shows "\<exists>bn. map_of blocks bn = Some b" "present \<Longrightarrow> n < bk_count b" "\<not> present \<Longrightarrow> n = 0"
proof -
  from assms show "\<exists>bn. map_of blocks bn = Some b"
    by (auto simp: parse_and_lookup_block_def p_then_eq_Inr lookup_block_def split: if_splits option.splits)
  from assms have "present \<Longrightarrow> \<exists>m. 0 < m \<and> m \<le> bk_count b \<and> n = m - 1"
    by (auto simp: parse_and_lookup_block_def p_then_eq_Inr split: if_splits)
  then show "present \<Longrightarrow> n < bk_count b" using pred_less by auto
  from assms show "\<not> present \<Longrightarrow> n = 0"
    by (auto simp: parse_and_lookup_block_def p_then_eq_Inr split: if_splits)
qed

lemma check_block_number_range:
  assumes "parse_and_lookup_block blocks lw s = (Inr (b, n, present), rest)"
    and "check_block_number (bk_count b) (Some present) = Inr ()"
  shows "n < bk_count b"
  using parse_and_lookup_block_Inr [OF assms(1)] assms(2) by (cases present) (auto simp: check_block_number_def)

text \<open>What a parsed entity refers to.\<close>

definition entity_ok :: "'d block_map \<Rightarrow> entity_context \<Rightarrow> bool \<Rightarrow> bool" where
  "entity_ok blocks ec star =
     (\<exists>b. ctxt_block blocks ec = Some b \<and>
       (ec_field ec \<noteq> None \<longrightarrow> ctxt_field blocks ec \<noteq> None) \<and>
       (ec_attr ec \<noteq> None \<longrightarrow> ctxt_attr blocks ec \<noteq> None) \<and>
       (ec_field ec \<noteq> None \<and> \<not> star \<longrightarrow> ec_number ec < bk_count b))"

lemma parse_after_field_ok:
  assumes "parse_after_field b (Some present) want_star ec0 f s = (Inr (ec, star), rest)"
    and "names_ok blocks" "map_of blocks bn = Some b" "map_of (bk_fields b) fn = Some f"
    and "ec_block ec0 = Some bn" "ec_attr ec0 = None" "check_block_number (bk_count b) (Some present) = Inr () \<Longrightarrow> ec_number ec0 < bk_count b"
  shows "entity_ok blocks ec star"
  using assms names_okD [OF assms(2,3)]
  by (auto simp: parse_after_field_def p_then_eq_Inr Let_def entity_ok_def ctxt_block_def ctxt_field_def ctxt_attr_def
      parse_attr_name_def lookup_attr_def split: prod.splits bool.splits option.splits)

lemma parse_block_entity_ok:
  assumes "names_ok blocks" "parse_block_entity blocks lw True want_star s = (Inr (ec, present, star), rest)"
  shows "entity_ok blocks ec star"
proof -
  from assms(2) obtain b n s1 where
    p: "parse_and_lookup_block blocks lw s = (Inr (b, n, present), s1)" and
    q: "parse_after_block b (Some present) want_star
      \<lparr>ec_number = n, ec_block = Some (bk_name b), ec_field = None, ec_attr = None\<rparr> s1 = (Inr (ec, star), rest)"
    by (auto simp: parse_block_entity_def p_then_eq_Inr)
  obtain bn where bn: "map_of blocks bn = Some b" using parse_and_lookup_block_Inr(1) [OF p] by blast
  note names = names_okD [OF assms(1) bn]
  let ?ec = "\<lparr>ec_number = n, ec_block = Some (bk_name b), ec_field = None, ec_attr = None\<rparr>"
  from q consider "ec = ?ec" | f s2 s3 where "parse_field_name b s2 = (Inr f, s3)"
      "parse_after_field b (Some present) want_star ?ec f s3 = (Inr (ec, star), rest)"
    by (auto simp: parse_after_block_def p_then_eq_Inr split: prod.splits bool.splits if_splits)
  then show ?thesis
  proof cases
    case 1
    with bn names show ?thesis by (simp add: entity_ok_def ctxt_block_def)
  next
    case (2 f s2 s3)
    from 2(1) obtain fn where "map_of (bk_fields b) fn = Some f"
      by (auto simp: parse_field_name_def p_then_eq_Inr lookup_field_def split: option.splits)
    from parse_after_field_ok [OF 2(2) assms(1) bn this] check_block_number_range [OF p] names(1) show ?thesis by simp
  qed
qed

lemma entity_refers:
  assumes "names_ok blocks" "compute_entity_handler blocks lw name = Inr (ec, actions)"
  shows "\<exists>b. ctxt_block blocks ec = Some b \<and>
    (case actions of
       field_list_actions \<Rightarrow> ec_field ec = None
     | attr_list_actions \<Rightarrow> ctxt_field blocks ec \<noteq> None
     | block_field_actions \<Rightarrow> ctxt_field blocks ec \<noteq> None \<and> ec_number ec < bk_count b
     | field_attr_actions \<Rightarrow> ctxt_attr blocks ec \<noteq> None \<and> ec_number ec < bk_count b)"
proof -
  from assms(2) obtain present star rest where
    p: "parse_block_entity blocks lw True True name = (Inr (ec, present, star), rest)" and
    a: "actions = (if star then if ec_field ec \<noteq> None then attr_list_actions else field_list_actions
      else if ec_attr ec \<noteq> None then field_attr_actions else block_field_actions)" "star \<or> ec_field ec \<noteq> None"
    by (auto simp: compute_entity_handler_def p_then_eq_Inr and_then_eq_Inr split: prod.splits sum.splits if_splits)
  from parse_block_entity_ok [OF assms(1) p] show ?thesis unfolding entity_ok_def a(1) using a(2) by auto
qed

text \<open>
  C17: the indices that a command of a client leads to are in range: whenever the name of an entity is
  accepted, its block, field and attribute exist, and the number of the instance that is read or
  written is less than the number of instances of the block.
\<close>

theorem entity_in_range:
  assumes "names_ok blocks" "compute_entity_handler blocks lw name = Inr (ec, actions)"
  shows "\<exists>b. ctxt_block blocks ec = Some b \<and>
    (case actions of
       field_list_actions \<Rightarrow> ec_field ec = None
     | attr_list_actions \<Rightarrow> ctxt_field blocks ec \<noteq> None
     | block_field_actions \<Rightarrow> ctxt_field blocks ec \<noteq> None \<and> ec_number ec < bk_count b
     | field_attr_actions \<Rightarrow> ctxt_attr blocks ec \<noteq> None \<and> ec_number ec < bk_count b)"
  using entity_refers [OF assms] .

section \<open>Names that are reported can be sent back\<close>

text \<open>
  \<^verbatim>\<open>format_field_name\<close>; \<open>None\<close> is a failing assertion or a write past the end of the buffer, which the second
  assertion, \<^verbatim>\<open>result < length + 1\<close>, does not exclude.
\<close>

definition format_field_name :: "nat \<Rightarrow> 'd block \<Rightarrow> 'd field \<Rightarrow> string option \<Rightarrow> u32 \<Rightarrow> char \<Rightarrow> string option" where
  "format_field_name len block field attr number suffix =
     (let result = bk_name block @ (if bk_count block = 1 then [] else show_int (number + 1)) @ ''.'' @ fd_name field in
      if \<not> length result < len then None
      else
        (let result = result @ (case attr of None \<Rightarrow> [] | Some name \<Rightarrow> ''.'' @ name) in
         if \<not> length result + 1 < len then None
         else Some (result @ [suffix])))"

text \<open>The names that the configuration file can give to a block, a field and an attribute.\<close>

definition stops :: "(char \<Rightarrow> bool) \<Rightarrow> string \<Rightarrow> bool" where
  "stops f rest = (rest = [] \<or> \<not> f (hd rest))"

definition alphanum_name :: "string \<Rightarrow> bool" where
  "alphanum_name name =
     (name \<noteq> [] \<and> length name < MAX_NAME_LENGTH \<and> valid_name_char (hd name) \<and> list_all valid_alphanum_char name)"

definition plain_name :: "string \<Rightarrow> bool" where
  "plain_name name = (name \<noteq> [] \<and> length name < MAX_NAME_LENGTH \<and> list_all valid_name_char name)"

lemma copy_filtered_stop:
  "list_all f name \<Longrightarrow> length name < n \<Longrightarrow> stops f rest \<Longrightarrow> copy_filtered f n (name @ rest) = (name, rest)"
proof (induction name arbitrary: n)
  case Nil
  then obtain m where "n = Suc m" by (cases n) auto
  with Nil show ?case by (cases rest) (auto simp: stops_def)
next
  case (Cons c name)
  then obtain m where "n = Suc m" by (cases n) auto
  with Cons show ?case by auto
qed

lemma parse_filtered_name_stop:
  "name \<noteq> [] \<Longrightarrow> list_all f name \<Longrightarrow> length name < n \<Longrightarrow> stops f rest \<Longrightarrow>
    parse_filtered_name f n (name @ rest) = (Inr name, rest)"
  by (simp add: parse_filtered_name_def copy_filtered_stop)

lemma peek_append: "name \<noteq> [] \<Longrightarrow> peek (name @ rest) = hd name"
  by (cases name) simp_all

lemma parse_alphanum_name_stop:
  "alphanum_name name \<Longrightarrow> stops valid_alphanum_char rest \<Longrightarrow> parse_alphanum_name MAX_NAME_LENGTH (name @ rest) = (Inr name, rest)"
  by (simp add: parse_alphanum_name_def alphanum_name_def parse_filtered_name_stop peek_append)

lemma parse_name_stop:
  "plain_name name \<Longrightarrow> stops valid_name_char rest \<Longrightarrow> parse_name MAX_NAME_LENGTH (name @ rest) = (Inr name, rest)"
  by (simp add: parse_name_def plain_name_def parse_filtered_name_stop)

lemma strip_digits_back:
  "list_all is_digit ds \<Longrightarrow> name \<noteq> [] \<Longrightarrow> \<not> is_digit (last name) \<Longrightarrow> strip_digits (rev (name @ ds)) rest = (name, ds @ rest)"
proof (induction ds arbitrary: rest rule: rev_induct)
  case Nil
  then show ?case by (cases name rule: rev_cases) simp_all
next
  case (snoc d ds)
  then show ?case by simp
qed

lemma parse_block_name_back:
  assumes "alphanum_name (name @ ds)" "name \<noteq> []" "\<not> is_digit (last name)" "list_all is_digit ds" "stops valid_alphanum_char rest"
  shows "parse_block_name MAX_NAME_LENGTH (name @ ds @ rest) = (Inr name, ds @ rest)"
  using parse_alphanum_name_stop [OF assms(1,5)] strip_digits_back [OF assms(4,2,3), of rest]
  by (simp add: parse_block_name_def)

lemma show_base_digits: "list_all is_digit (show_base 10 n)"
proof (induction "10 :: nat" n rule: show_base.induct)
  case (1 n)
  have "is_digit (digit_char d)" if "d < 10" for d using of_char_digit_char [OF that] that by (simp add: is_digit_def)
  with 1 show ?case by (cases "n < 10") (simp_all add: show_base.simps [of 10 n])
qed

text \<open>The number of an instance, as it is printed after the name of the block.\<close>

definition instance_number :: "'d block \<Rightarrow> u32 \<Rightarrow> string" where
  "instance_number block n = (if bk_count block = 1 then [] else show_int (n + 1))"

definition entity_names_ok :: "'d block \<Rightarrow> 'd field \<Rightarrow> string option \<Rightarrow> u32 \<Rightarrow> bool" where
  "entity_names_ok block field attr n =
     (alphanum_name (bk_name block @ instance_number block n) \<and> bk_name block \<noteq> [] \<and> \<not> is_digit (last (bk_name block)) \<and>
      alphanum_name (fd_name field) \<and> (case attr of None \<Rightarrow> True | Some name \<Rightarrow> plain_name name))"

lemma instance_number_back:
  assumes "n < bk_count b" "bk_count b < 2 ^ 31" "32 \<le> lw" "stops is_alnum rest"
  shows "list_all is_digit (instance_number b n)"
    and "bk_count b \<noteq> 1 \<Longrightarrow> is_digit (peek (instance_number b n @ rest))"
    and "bk_count b \<noteq> 1 \<Longrightarrow> parse_uint lw (instance_number b n @ rest) = (Inr (n + 1), rest)"
    and "0 < n + 1" "n + 1 \<le> bk_count b"
proof -
  have u: "unat n < unat (bk_count b)" "unat (bk_count b) < 2 ^ 31"
    using assms(1,2) by (simp_all add: word_less_nat_alt)
  then have n1: "unat (n + 1) = unat n + 1" using unat_word_ariths(1) [of n 1] by simp
  with u show "0 < n + 1" "n + 1 \<le> bk_count b" by (simp_all add: word_less_nat_alt word_le_nat_alt)
  have "unat (n + 1) < 2 ^ 31" using u n1 by linarith
  then have "n + 1 < 2 ^ 31" by (simp add: word_less_nat_alt)
  then have "uint (n + 1) < 2 ^ 31" by (simp add: word_less_def)
  moreover have "- (2 ^ 31) \<le> uint (n + 1)" by (rule order_trans [OF _ uint_bounds_32(1)]) simp
  ultimately have "sint (n + 1) = uint (n + 1)" using signed_take_bit_int_eq_self [of 31 "uint (n + 1)"] by (simp add: sint_uint)
  then have i: "instance_number b n = (if bk_count b = 1 then [] else show_base 10 (unat (n + 1)))"
    by (simp add: instance_number_def show_int_def)
  then show d: "list_all is_digit (instance_number b n)" by (simp add: show_base_digits)
  have ne: "show_base 10 k \<noteq> []" for k using show_base_start(3) [of k] by simp
  show "bk_count b \<noteq> 1 \<Longrightarrow> is_digit (peek (instance_number b n @ rest))"
    using d ne i by (simp add: peek_append list_all_iff)
  have "unat (n + 1) < 2 ^ 32" using u n1 by simp
  moreover have "(2 :: nat) ^ 32 \<le> 2 ^ lw" by (rule power_increasing [OF assms(3)]) simp
  ultimately have "unat (n + 1) < 2 ^ lw" by linarith
  moreover have "ends_token rest" using assms(4) by (simp add: ends_token_def stops_def)
  ultimately show "bk_count b \<noteq> 1 \<Longrightarrow> parse_uint lw (instance_number b n @ rest) = (Inr (n + 1), rest)"
    using i by (simp add: parse_uint_def parse_num_strtoul_show)
qed

lemma parse_and_lookup_block_back:
  assumes "map_of blocks (bk_name b) = Some b" "entity_names_ok b f a n"
    and "n < bk_count b" "bk_count b < 2 ^ 31" "32 \<le> lw"
  shows "parse_and_lookup_block blocks lw (bk_name b @ instance_number b n @ CHR ''.'' # rest) =
    (Inr (b, n, bk_count b \<noteq> 1), CHR ''.'' # rest)"
proof -
  let ?rest = "CHR ''.'' # rest"
  have dot: "stops is_alnum ?rest" "stops valid_alphanum_char ?rest" "\<not> is_digit (CHR ''.'')" by (simp_all add: stops_def, code_simp+)
  note num = instance_number_back [OF assms(3-5) dot(1)]
  have p: "parse_block_name MAX_NAME_LENGTH (bk_name b @ instance_number b n @ ?rest) = (Inr (bk_name b), instance_number b n @ ?rest)"
    using assms(2) num(1) dot(2) by (intro parse_block_name_back) (auto simp: entity_names_ok_def)
  have "n = 0" "instance_number b n = []" if "bk_count b = 1"
    using assms(3) that by (simp_all add: instance_number_def word_less_nat_alt unat_eq_0)
  with p num assms(1) dot(3) show ?thesis
    by (cases "bk_count b = 1") (simp_all add: parse_and_lookup_block_def p_then_def lookup_block_def)
qed

text \<open>
  C18: the name under which a field or an attribute is reported as changed can be sent back: parsing it
  gives the same block, instance, field and attribute, and stops at the separator.  This is what
  saving the state of the server to a file and loading it again relies on.
\<close>

theorem reported_name_parses:
  assumes "map_of blocks (bk_name b) = Some b" "map_of (bk_fields b) (fd_name f) = Some f"
    and "\<And>an. a = Some an \<Longrightarrow> map_of (fd_attrs f) an \<noteq> None"
    and "entity_names_ok b f a n" "n < bk_count b" "bk_count b < 2 ^ 31" "32 \<le> lw"
    and "suffix = CHR ''='' \<or> suffix = CHR ''<''" "format_field_name len b f a n suffix = Some s"
  shows "parse_block_entity blocks lw True True (s @ rest) =
    (Inr (\<lparr>ec_number = n, ec_block = Some (bk_name b), ec_field = Some (fd_name f), ec_attr = a\<rparr>, bk_count b \<noteq> 1, False),
     suffix # rest)"
proof -
  define attr where "attr = (case a of None \<Rightarrow> [] | Some an \<Rightarrow> CHR ''.'' # an)"
  have s: "s = bk_name b @ instance_number b n @ CHR ''.'' # fd_name f @ attr @ [suffix]"
    using assms(9) by (auto simp: format_field_name_def instance_number_def attr_def Let_def split: if_splits option.splits)
  have stop: "stops valid_alphanum_char (CHR ''.'' # t)" "stops valid_alphanum_char (suffix # t)" "stops valid_name_char (suffix # t)"
      "suffix \<noteq> CHR ''.''" for t
    using assms(8) by (auto simp: stops_def valid_alphanum_char_def valid_name_char_def is_alpha_def is_upper_def is_lower_def is_digit_def)
  have nostar: "valid_name_char c \<Longrightarrow> c \<noteq> CHR ''*''" for c
    by (auto simp: valid_name_char_def is_alpha_def is_upper_def is_lower_def)
  have fname: "parse_field_name b (fd_name f @ attr @ suffix # rest) = (Inr f, attr @ suffix # rest)"
  proof -
    have "stops valid_alphanum_char (attr @ suffix # rest)" using stop by (cases a) (simp_all add: attr_def)
    then show ?thesis using assms(2,4) by (simp add: parse_field_name_def p_then_def parse_alphanum_name_stop entity_names_ok_def lookup_field_def)
  qed
  have chk: "check_block_number (bk_count b) (Some (bk_count b \<noteq> 1)) = Inr ()" by (simp add: check_block_number_def)
  let ?ec = "\<lparr>ec_number = n, ec_block = Some (bk_name b), ec_field = None, ec_attr = None\<rparr>"
  have field: "parse_after_field b (Some (bk_count b \<noteq> 1)) True ?ec f (attr @ suffix # rest) =
      (Inr (?ec\<lparr>ec_field := Some (fd_name f), ec_attr := a\<rparr>, False), suffix # rest)"
  proof (cases a)
    case None
    with stop(4) chk show ?thesis by (simp add: attr_def parse_after_field_def read_char_def p_then_def)
  next
    case (Some an)
    then obtain at where at: "map_of (fd_attrs f) an = Some at" "plain_name an" using assms(3,4) by (auto simp: entity_names_ok_def)
    have "an @ suffix # rest \<noteq> []" "hd (an @ suffix # rest) \<noteq> CHR ''*''"
      using at(2) nostar by (auto simp: plain_name_def list_all_iff hd_append)
    moreover have "parse_attr_name f (an @ suffix # rest) = (Inr (an, at), suffix # rest)"
      using at stop(3) by (simp add: parse_attr_name_def p_then_def parse_name_stop lookup_attr_def)
    ultimately show ?thesis using Some chk by (simp add: attr_def parse_after_field_def read_char_def p_then_def)
  qed
  have "hd (fd_name f @ attr @ suffix # rest) \<noteq> CHR ''*''" "fd_name f \<noteq> []"
    using assms(4) nostar by (auto simp: entity_names_ok_def alphanum_name_def)
  then have "parse_after_block b (Some (bk_count b \<noteq> 1)) True ?ec (CHR ''.'' # fd_name f @ attr @ suffix # rest) =
      (Inr (?ec\<lparr>ec_field := Some (fd_name f), ec_attr := a\<rparr>, False), suffix # rest)"
    using fname field by (simp add: parse_after_block_def read_char_def p_then_def)
  then show ?thesis
    unfolding s using parse_and_lookup_block_back [OF assms(1,4-7), of "fd_name f @ attr @ suffix # rest"]
    by (simp add: parse_block_entity_def p_then_def)
qed

text \<open>A block with four instances and one field.\<close>

definition sample_methods :: "unit class_methods" where
  "sample_methods = \<lparr>cm_name = ''param'', cm_describe = None, cm_refresh = None, cm_get = None, cm_get_many = None, cm_put = None,
     cm_put_table = None, cm_change_set_index = 0, cm_change_set = None, cm_get_registers = None, cm_set_read_only = None,
     cm_has_subfield = None, cm_parse_register = None, cm_finalise = None\<rparr>"

definition sample_field :: "unit field" where
  "sample_field = \<lparr>fd_name = ''TERM'', fd_methods = sample_methods, fd_sequence = 0, fd_description = None, fd_attrs = [],
     fd_initialised = True\<rparr>"

definition sample_block :: "unit block" where
  "sample_block = \<lparr>bk_name = ''TTLIN'', bk_count = 4, bk_base = 1, bk_fields = [(''TERM'', sample_field)], bk_description = None\<rparr>"

lemma sample_name: "instance_number sample_block 2 = ''3''"
  by (simp add: instance_number_def sample_block_def show_int_def show_base.simps digit_char_def char_of_def bit_0)

theorem reported_name_parses_witness:
  "parse_block_entity [(''TTLIN'', sample_block)] 64 True True ''TTLIN3.TERM=1'' =
    (Inr (\<lparr>ec_number = 2, ec_block = Some ''TTLIN'', ec_field = Some ''TERM'', ec_attr = None\<rparr>, True, False), ''=1'')"
proof -
  have "entity_names_ok sample_block sample_field None 2"
    unfolding entity_names_ok_def sample_name by code_simp
  moreover have "format_field_name 256 sample_block sample_field None 2 (CHR ''='') = Some ''TTLIN3.TERM=''"
    using sample_name by (simp add: format_field_name_def instance_number_def) (simp add: sample_block_def sample_field_def)
  ultimately show ?thesis
    using reported_name_parses [of "[(''TTLIN'', sample_block)]" sample_block sample_field None 2 64 "CHR ''=''" 256
        "''TTLIN3.TERM=''" "''1''"]
    by (simp add: sample_block_def sample_field_def)
qed

definition single_block :: "unit block_map" where
  "single_block = [(''TTLIN'', sample_block\<lparr>bk_count := 1\<rparr>)]"

theorem entity_in_range_witness:
  "\<exists>b. ctxt_block single_block \<lparr>ec_number = 0, ec_block = Some ''TTLIN'', ec_field = Some ''TERM'', ec_attr = None\<rparr> = Some b \<and>
    0 < bk_count b"
proof -
  have "compute_entity_handler single_block 64 ''TTLIN.TERM'' =
    Inr (\<lparr>ec_number = 0, ec_block = Some ''TTLIN'', ec_field = Some ''TERM'', ec_attr = None\<rparr>, block_field_actions)"
    by code_simp
  with entity_in_range [of single_block 64 "''TTLIN.TERM''"] show ?thesis
    by (auto simp: names_ok_def single_block_def sample_block_def sample_field_def)
qed

end
