(* ===== verification/Panda_Config.thy ===== *)
theory Panda_Config
  imports Panda_Entity Panda_File
begin

text \<open>
  \<^verbatim>\<open>config_server.c\<close>: the protocol of a configuration connection, over the buffered file of the connection and
  the two command sets.  An option with the value \<open>None\<close> is a failing assertion or a loop that does not end.
\<close>

definition MAX_LINE_LENGTH :: nat where "MAX_LINE_LENGTH = 1024"

definition IN_BUF_SIZE :: nat where "IN_BUF_SIZE = 16384"

definition OUT_BUF_SIZE :: nat where "OUT_BUF_SIZE = 16384"

text \<open>The characters of an array up to the first NUL.\<close>

definition cstring :: "string \<Rightarrow> string" where
  "cstring s = takeWhile (\<lambda>c. c \<noteq> nul) s"

text \<open>\<^verbatim>\<open>error_format\<close> of \<^verbatim>\<open>error.c\<close>: the messages, the most recent first.\<close>

fun join_messages :: "string list \<Rightarrow> string" where
  "join_messages [] = []"
| "join_messages [m] = m"
| "join_messages (m # ms) = m @ '': '' @ join_messages ms"

definition error_format :: "unit result \<Rightarrow> string" where
  "error_format error = (case error of Inr _ \<Rightarrow> ''OK'' | Inl messages \<Rightarrow> join_messages (rev messages))"

text \<open>What a command can answer, over the state \<open>'w\<close> of the server and the connection.\<close>

datatype get_response = RESPONSE_ERROR | RESPONSE_ONE string | RESPONSE_MANY

record 'w config_command_set =
  cs_get :: "string \<Rightarrow> 'w \<Rightarrow> ((unit result \<times> string list \<times> get_response) \<times> 'w) option"
  cs_put :: "string \<Rightarrow> string \<Rightarrow> 'w \<Rightarrow> (unit result \<times> 'w) option"
  cs_put_table :: "string \<Rightarrow> bool \<Rightarrow> bool \<Rightarrow> bool \<Rightarrow> 'w \<Rightarrow> ('w put_table_writer result \<times> 'w) option"

section \<open>Answers\<close>

definition write_all :: "'s socket_ops \<Rightarrow> buffered_file \<Rightarrow> 's \<Rightarrow> string \<Rightarrow> (buffered_file \<times> 's) option" where
  "write_all so file s text = map_option (\<lambda>(_, file, s). (file, s)) (write_string so file text s)"

definition write_newline :: "'s socket_ops \<Rightarrow> buffered_file \<Rightarrow> 's \<Rightarrow> (buffered_file \<times> 's) option" where
  "write_newline so file s = map_option (\<lambda>(_, file, s). (file, s)) (write_char so file newline s)"

definition report_error :: "'s socket_ops \<Rightarrow> buffered_file \<Rightarrow> 's \<Rightarrow> unit result \<Rightarrow> (buffered_file \<times> 's) option" where
  "report_error so file s error =
     Option.bind (write_all so file s ''ERR '') (\<lambda>(file, s).
     Option.bind (write_all so file s (error_format error)) (\<lambda>(file, s). write_newline so file s))"

definition report_status :: "'s socket_ops \<Rightarrow> buffered_file \<Rightarrow> 's \<Rightarrow> unit result \<Rightarrow> (buffered_file \<times> 's) option" where
  "report_status so file s error =
     (if \<not> is_ok error then report_error so file s error else write_all so file s (''OK'' @ [newline]))"

definition write_many_result :: "'s socket_ops \<Rightarrow> buffered_file \<Rightarrow> 's \<Rightarrow> string \<Rightarrow> (buffered_file \<times> 's) option" where
  "write_many_result so file s result =
     Option.bind (map_option (\<lambda>(_, file, s). (file, s)) (write_char so file (CHR ''!'') s)) (\<lambda>(file, s).
     Option.bind (write_all so file s result) (\<lambda>(file, s). write_newline so file s))"

fun write_many_results :: "'s socket_ops \<Rightarrow> buffered_file \<Rightarrow> 's \<Rightarrow> string list \<Rightarrow> (buffered_file \<times> 's) option" where
  "write_many_results so file s [] = Some (file, s)"
| "write_many_results so file s (r # rs) =
     Option.bind (write_many_result so file s r) (\<lambda>(file, s). write_many_results so file s rs)"

section \<open>Simple commands\<close>

text \<open>The end of \<^verbatim>\<open>do_read_command\<close>, when the command has been processed.\<close>

definition write_answer ::
    "'s socket_ops \<Rightarrow> buffered_file \<Rightarrow> 's \<Rightarrow> unit result \<Rightarrow> get_response \<Rightarrow> (buffered_file \<times> 's) option" where
  "write_answer so file s error response =
     (if \<not> is_ok error then report_error so file s error
      else
        (case response of
           RESPONSE_ONE string \<Rightarrow>
             Option.bind (write_all so file s ''OK ='') (\<lambda>(file, s).
             Option.bind (write_all so file s string) (\<lambda>(file, s). write_newline so file s))
         | RESPONSE_MANY \<Rightarrow> write_all so file s (''.'' @ [newline])
         | RESPONSE_ERROR \<Rightarrow> None))"

definition do_read_command ::
    "'s socket_ops \<Rightarrow> 'w config_command_set \<Rightarrow> buffered_file \<Rightarrow> 's \<Rightarrow> string \<Rightarrow> string \<Rightarrow> 'w \<Rightarrow> (buffered_file \<times> 's \<times> 'w) option" where
  "do_read_command so command_set file s command val w =
     (if peek val = nul then
        Option.bind (cs_get command_set command w) (\<lambda>((error, many, response), w).
          map_option (\<lambda>(file, s). (file, s, w))
            (Option.bind (write_many_results so file s many) (\<lambda>(file, s). write_answer so file s error response)))
      else map_option (\<lambda>(file, s). (file, s, w)) (report_error so file s (fail ''Unexpected text after command'')))"

definition do_write_command ::
    "'s socket_ops \<Rightarrow> 'w config_command_set \<Rightarrow> buffered_file \<Rightarrow> 's \<Rightarrow> string \<Rightarrow> string \<Rightarrow> 'w \<Rightarrow> (buffered_file \<times> 's \<times> 'w) option" where
  "do_write_command so command_set file s command val w =
     Option.bind (cs_put command_set command val w) (\<lambda>(error, w).
       map_option (\<lambda>(file, s). (file, s, w)) (report_status so file s error))"

section \<open>Table commands\<close>

text \<open>
  The loop of \<^verbatim>\<open>do_put_table\<close>, with the reading function \<open>rd\<close> on its context \<open>'r\<close>.
\<close>

type_synonym 'r table_read_line = "nat \<Rightarrow> 'r \<Rightarrow> (string option \<times> 'r) option"

partial_function (option) do_put_table ::
    "'r table_read_line \<Rightarrow> 'w put_table_writer \<Rightarrow> unit result \<Rightarrow> 'r \<Rightarrow> 'w \<Rightarrow> (unit result \<times> 'r \<times> 'w) option" where
  "do_put_table rd wr error r w =
     Option.bind (rd MAX_LINE_LENGTH r) (\<lambda>(read, r).
       case read of
         None \<Rightarrow> Some (and_then error (\<lambda>_. fail ''Unexpected EOF''), r, w)
       | Some line \<Rightarrow>
           if peek line = nul then Some (error, r, w)
           else Option.bind (if is_ok error then pw_write wr (cstring line) w else Some (error, w)) (\<lambda>(error, w).
             do_put_table rd wr error r w))"

definition dummy_table_writer :: "'w put_table_writer" where
  "dummy_table_writer = \<lparr>pw_write = (\<lambda>_ w. Some (Inr (), w)), pw_close = (\<lambda>_ w. Some (Inr (), w))\<rparr>"

definition parse_table_command ::
    "'w config_command_set \<Rightarrow> string \<Rightarrow> string \<Rightarrow> 'w \<Rightarrow> (unit result \<times> 'w put_table_writer \<times> 'w) option" where
  "parse_table_command command_set command format w =
     (let (streaming, format) = read_char (CHR ''<'') format;
          (last_table, format) = (if \<not> streaming then (True, format) else read_char (CHR ''|'') format);
          (binary, format) = read_char (CHR ''B'') format in
      case parse_eos format of
        (Inl e, _) \<Rightarrow> Some (Inl e, dummy_table_writer, w)
      | (Inr _, _) \<Rightarrow>
          Option.bind (cs_put_table command_set command streaming last_table binary w) (\<lambda>(res, w).
            case res of
              Inl e \<Rightarrow> Some (Inl e, dummy_table_writer, w)
            | Inr wr \<Rightarrow> Some (Inr (), wr, w)))"

definition process_put_table_command ::
    "'w config_command_set \<Rightarrow> 'r table_read_line \<Rightarrow> string \<Rightarrow> string \<Rightarrow> 'r \<Rightarrow> 'w \<Rightarrow> (unit result \<times> 'r \<times> 'w) option" where
  "process_put_table_command command_set rd name format r w =
     Option.bind (parse_table_command command_set name format w) (\<lambda>(error, wr, w).
     Option.bind (do_put_table rd wr (Inr ()) r w) (\<lambda>(put_error, r, w).
     Option.bind (pw_close wr (is_ok put_error) w) (\<lambda>(close_error, w).
       Some (and_then error (\<lambda>_. and_then put_error (\<lambda>_. close_error)), r, w))))"

definition wrap_read_line :: "'s socket_ops \<Rightarrow> (buffered_file \<times> 's) table_read_line" where
  "wrap_read_line so len r =
     map_option (\<lambda>(line, file, s). (line, file, s)) (read_line so (fst r) len False (snd r))"

definition do_table_command ::
    "'s socket_ops \<Rightarrow> 'w config_command_set \<Rightarrow> buffered_file \<Rightarrow> 's \<Rightarrow> string \<Rightarrow> string \<Rightarrow> 'w \<Rightarrow> (buffered_file \<times> 's \<times> 'w) option" where
  "do_table_command so command_set file s command format w =
     Option.bind (process_put_table_command command_set (wrap_read_line so) command format (file, s) w)
       (\<lambda>(error, (file, s), w). map_option (\<lambda>(file, s). (file, s, w)) (report_status so file s error))"

section \<open>Connections\<close>

definition separator :: "char \<Rightarrow> bool" where
  "separator c = (c = CHR ''?'' \<or> c = CHR ''='' \<or> c = CHR ''<'')"

definition process_config_command ::
    "'s socket_ops \<Rightarrow> 'w config_command_set \<Rightarrow> 'w config_command_set \<Rightarrow> buffered_file \<Rightarrow> 's \<Rightarrow> string \<Rightarrow> 'w \<Rightarrow>
     (buffered_file \<times> 's \<times> 'w) option" where
  "process_config_command so system_commands entity_commands file s line w =
     (let (command_set, line) = (if peek line = CHR ''*'' then (system_commands, tl line) else (entity_commands, line));
          command = takeWhile (\<lambda>c. \<not> separator c) line;
          rest = drop (length command) line;
          ch = peek rest; val = tl rest in
      if ch = CHR ''?'' then do_read_command so command_set file s command val w
      else if ch = CHR ''='' then do_write_command so command_set file s command val w
      else if ch = CHR ''<'' then do_table_command so command_set file s command val w
      else map_option (\<lambda>(file, s). (file, s, w)) (report_error so file s (fail ''Unknown command'')))"

partial_function (option) process_config_loop ::
    "'s socket_ops \<Rightarrow> 'w config_command_set \<Rightarrow> 'w config_command_set \<Rightarrow> buffered_file \<Rightarrow> 's \<Rightarrow> 'w \<Rightarrow> (unit result \<times> 's \<times> 'w) option" where
  "process_config_loop so system_commands entity_commands file s w =
     Option.bind (read_line so file MAX_LINE_LENGTH True s) (\<lambda>(line, file, s).
       case line of
         None \<Rightarrow> Some (destroy_buffered_file file, s, w)
       | Some line \<Rightarrow>
           Option.bind (process_config_command so system_commands entity_commands file s (cstring line) w)
             (\<lambda>(file, s, w). process_config_loop so system_commands entity_commands file s w))"

definition process_config_socket ::
    "'s socket_ops \<Rightarrow> 'w config_command_set \<Rightarrow> 'w config_command_set \<Rightarrow> 's \<Rightarrow> 'w \<Rightarrow> (unit result \<times> 's \<times> 'w) option" where
  "process_config_socket so system_commands entity_commands s w =
     process_config_loop so system_commands entity_commands (create_buffered_file IN_BUF_SIZE OUT_BUF_SIZE) s w"

section \<open>What is written\<close>

text \<open>A file that is in order unless it has an error; all writing keeps it so.\<close>

definition sound :: "buffered_file \<Rightarrow> bool" where
  "sound f = (is_ok (bf_error f) \<longrightarrow> file_inv f)"

definition writes ::
    "('s \<Rightarrow> string) \<Rightarrow> ('s \<Rightarrow> string) \<Rightarrow> buffered_file \<Rightarrow> 's \<Rightarrow> string \<Rightarrow> (buffered_file \<times> 's) option \<Rightarrow> bool" where
  "writes sent incoming f s text r =
     (\<exists>f' s'. r = Some (f', s') \<and> wrote sent incoming f s text f' s' \<and> sound f')"

lemma writesI: "wrote sent incoming f s ws f' s' \<Longrightarrow> sound f \<Longrightarrow> writes sent incoming f s ws (Some (f', s'))"
proof -
  assume a: "wrote sent incoming f s ws f' s'" "sound f"
  then have "is_ok (bf_error f') \<Longrightarrow> is_ok (bf_error f)" by (auto simp: wrote_def split: if_splits)
  then have "sound f'" using wrote_inv [OF a(1)] a(2) by (auto simp: sound_def)
  with a(1) show ?thesis by (simp add: writes_def)
qed

lemma write_all_writes:
  assumes "socket_laws so sent incoming" "sound f"
  shows "writes sent incoming f s ws (write_all so f s ws)"
proof (cases "is_ok (bf_error f)")
  case True
  then have "file_inv f" using assms(2) by (simp add: sound_def)
  from write_string_wrote [OF assms(1) this, of ws s] obtain f' s' where
    "write_string so f ws s = Some (is_ok (bf_error f'), f', s')" "wrote sent incoming f s ws f' s'" by blast
  with writesI [OF this(2) assms(2)] show ?thesis by (simp add: write_all_def)
next
  case False
  then have "wrote sent incoming f s ws f s" by (simp add: wrote_def same_input_def)
  with False writesI [OF this assms(2)] show ?thesis by (simp add: write_all_def write_string.simps [of so f])
qed

lemma write_one_writes:
  assumes "socket_laws so sent incoming" "sound f"
  shows "writes sent incoming f s [c] (map_option (\<lambda>(_, f, s). (f, s)) (write_char so f c s))"
proof (cases "is_ok (bf_error f)")
  case True
  then have "file_inv f" using assms(2) by (simp add: sound_def)
  from write_char_wrote [OF assms(1) this, of c s] obtain f' s' where
    "write_char so f c s = Some (is_ok (bf_error f'), f', s')" "wrote sent incoming f s [c] f' s'" by blast
  with writesI [OF this(2) assms(2)] show ?thesis by simp
next
  case False
  then have "wrote sent incoming f s [c] f s" by (simp add: wrote_def same_input_def)
  with False writesI [OF this assms(2)] show ?thesis by (simp add: write_char_def)
qed

lemma writes_bind:
  assumes "writes sent incoming f s t r" "\<And>f1 s1. sound f1 \<Longrightarrow> writes sent incoming f1 s1 u (k f1 s1)"
  shows "writes sent incoming f s (t @ u) (Option.bind r (\<lambda>(f, s). k f s))"
proof -
  from assms(1) obtain f1 s1 where 1: "r = Some (f1, s1)" "wrote sent incoming f s t f1 s1" "sound f1" by (auto simp: writes_def)
  from assms(2) [OF 1(3), of s1] obtain f2 s2 where
    2: "k f1 s1 = Some (f2, s2)" "wrote sent incoming f1 s1 u f2 s2" "sound f2" by (auto simp: writes_def)
  with 1 wrote_append [OF 1(2) 2(2)] show ?thesis by (simp add: writes_def)
qed

definition status_text :: "unit result \<Rightarrow> string" where
  "status_text e = (if is_ok e then ''OK'' @ [newline] else ''ERR '' @ error_format e @ [newline])"

lemma report_error_writes:
  "socket_laws so sent incoming \<Longrightarrow> sound f \<Longrightarrow>
    writes sent incoming f s (''ERR '' @ error_format e @ [newline]) (report_error so f s e)"
  unfolding report_error_def write_newline_def
  by (intro writes_bind write_all_writes write_one_writes)

lemma report_status_writes:
  "socket_laws so sent incoming \<Longrightarrow> sound f \<Longrightarrow> writes sent incoming f s (status_text e) (report_status so f s e)"
  using report_error_writes [of so sent incoming f s e]
  unfolding report_status_def status_text_def by (simp add: write_all_writes)

lemma write_many_results_writes:
  "socket_laws so sent incoming \<Longrightarrow> sound f \<Longrightarrow>
    writes sent incoming f s (concat (map (\<lambda>r. ''!'' @ r @ [newline]) rs)) (write_many_results so f s rs)"
proof (induction rs arbitrary: f s)
  case Nil
  then show ?case using writesI [OF wrote_refl] by simp
next
  case (Cons r rs)
  have "writes sent incoming f s (''!'' @ r @ [newline]) (write_many_result so f s r)"
    unfolding write_many_result_def write_newline_def by (intro writes_bind write_all_writes write_one_writes Cons.prems)
  from writes_bind [OF this Cons.IH [OF Cons.prems(1)]] show ?case by simp
qed

section \<open>A table command keeps in step with the client\<close>

text \<open>The lines of a table, its text with the blank line at the end, and what the writer is given of it.\<close>

definition table_line :: "string \<Rightarrow> bool" where
  "table_line l = (l \<noteq> [] \<and> newline \<notin> set l \<and> nul \<notin> set l \<and> length l + 1 < MAX_LINE_LENGTH)"

definition table_text :: "string list \<Rightarrow> string" where
  "table_text ls = concat (map (\<lambda>l. l @ [newline]) ls) @ [newline]"

fun feed :: "'w put_table_writer \<Rightarrow> unit result \<Rightarrow> string list \<Rightarrow> 'w \<Rightarrow> (unit result \<times> 'w) option" where
  "feed wr err [] w = Some (err, w)"
| "feed wr err (l # ls) w = (if is_ok err then Option.bind (pw_write wr l w) (\<lambda>(err, w). feed wr err ls w) else Some (err, w))"

text \<open>A writer that keeps the invariant \<open>kept\<close> of the server and returns for every line that can be sent.\<close>

definition total_writer :: "('w \<Rightarrow> bool) \<Rightarrow> 'w put_table_writer \<Rightarrow> bool" where
  "total_writer kept wr =
     (\<forall>w. kept w \<longrightarrow> (\<forall>l. table_line l \<longrightarrow> (\<exists>e w'. pw_write wr l w = Some (e, w') \<and> kept w')) \<and> (\<forall>ok. \<exists>e w'. pw_close wr ok w = Some (e, w') \<and> kept w'))"

lemma feed_error [simp]: "\<not> is_ok err \<Longrightarrow> feed wr err ls w = Some (err, w)"
  by (cases ls) simp_all

text \<open>Reading one line from the stream.\<close>

lemma wrap_read_line_reads:
  assumes "socket_laws so sent incoming" "usable f" "input incoming f s = l @ newline # i" "newline \<notin> set l" "length l + 1 < n"
  shows "\<exists>r f' s'. read_line so f n fl s = Some (r, f', s') \<and> prefix (sent s') (sent s @ bf_out_buf f) \<and>
    (is_ok (bf_error f') \<longrightarrow> r = Some l \<and> usable f' \<and> input incoming f' s' = i \<and> sent s' @ bf_out_buf f' = sent s @ bf_out_buf f) \<and>
    (\<not> is_ok (bf_error f') \<longrightarrow> r = None)"
proof -
  from read_line_loop_reads [OF assms(1,2), of "[]" n fl s] obtain r f' s' where
    r: "read_line_loop so f [] n fl s = Some (r, f', s')" "read_result sent incoming f s n r f' s'"
    by (auto simp: option.map_ident)
  have unique: "l' = l \<and> i' = i" if "l' @ newline # i' = l @ newline # i" "newline \<notin> set l'" for l' i'
  proof -
    have "takeWhile (\<lambda>c. c \<noteq> newline) (m @ newline # j) = m" if "newline \<notin> set m" for m j
      using that by (auto simp: takeWhile_append)
    with that assms(4) have "l' = l" by metis
    with that show ?thesis by simp
  qed
  have "prefix (sent s') (sent s @ bf_out_buf f)" using r(2) by (simp add: read_result_def)
  moreover have "is_ok (bf_error f') \<longrightarrow> r = Some l \<and> usable f' \<and> input incoming f' s' = i \<and>
      sent s' @ bf_out_buf f' = sent s @ bf_out_buf f"
    using r(2) assms(3) unique by (cases r) (auto simp: read_result_def usable_def)
  moreover have "\<not> is_ok (bf_error f') \<longrightarrow> r = None"
    using r(2) by (cases r) (auto simp: read_result_def usable_def)
  ultimately show ?thesis using r(1) by (auto simp: read_line_def)
qed

lemma do_put_table_feeds:
  assumes "socket_laws so sent incoming" "total_writer kept wr" "\<forall>l \<in> set ls. table_line l"
    and "usable f" "input incoming f s = table_text ls @ rest" "kept w"
  shows "\<exists>e f' s' w'. do_put_table (wrap_read_line so) wr err (f, s) w = Some (e, (f', s'), w') \<and> kept w' \<and>
    prefix (sent s') (sent s @ bf_out_buf f) \<and>
    (is_ok (bf_error f') \<longrightarrow> feed wr err ls w = Some (e, w') \<and> usable f' \<and> input incoming f' s' = rest \<and>
      sent s' @ bf_out_buf f' = sent s @ bf_out_buf f)"
  using assms(3-6)
proof (induction ls arbitrary: err f s w)
  case Nil
  then have "input incoming f s = [] @ newline # rest" "newline \<notin> set []" "length [] + 1 < MAX_LINE_LENGTH"
    by (simp_all add: table_text_def MAX_LINE_LENGTH_def)
  from wrap_read_line_reads [OF assms(1) Nil.prems(2) this, of False] obtain r f' s' where
    r: "read_line so f MAX_LINE_LENGTH False s = Some (r, f', s')" "prefix (sent s') (sent s @ bf_out_buf f)"
      "is_ok (bf_error f') \<longrightarrow> r = Some [] \<and> usable f' \<and> input incoming f' s' = rest \<and>
        sent s' @ bf_out_buf f' = sent s @ bf_out_buf f" "\<not> is_ok (bf_error f') \<longrightarrow> r = None" by blast
  with Nil.prems(4) show ?case
    by (subst do_put_table.simps) (cases "is_ok (bf_error f')"; simp add: wrap_read_line_def)
next
  case (Cons l ls)
  then have l: "table_line l" "input incoming f s = l @ newline # table_text ls @ rest" by (simp_all add: table_text_def)
  then have "newline \<notin> set l" "length l + 1 < MAX_LINE_LENGTH" and c: "peek l \<noteq> nul" "cstring l = l"
    by (auto simp: table_line_def cstring_def takeWhile_eq_all_conv peek_def split: list.splits)
  from wrap_read_line_reads [OF assms(1) Cons.prems(2) l(2) this(1,2), of False] obtain r f1 s1 where
    r: "read_line so f MAX_LINE_LENGTH False s = Some (r, f1, s1)" "prefix (sent s1) (sent s @ bf_out_buf f)"
      "is_ok (bf_error f1) \<longrightarrow> r = Some l \<and> usable f1 \<and> input incoming f1 s1 = table_text ls @ rest \<and>
        sent s1 @ bf_out_buf f1 = sent s @ bf_out_buf f" "\<not> is_ok (bf_error f1) \<longrightarrow> r = None" by blast
  show ?case
  proof (cases "is_ok (bf_error f1)")
    case False
    with r Cons.prems(4) show ?thesis by (subst do_put_table.simps) (simp add: wrap_read_line_def)
  next
    case True
    with r have r': "r = Some l" "usable f1" "input incoming f1 s1 = table_text ls @ rest"
      "sent s1 @ bf_out_buf f1 = sent s @ bf_out_buf f" by auto
    have "\<exists>e w'. pw_write wr l w = Some (e, w') \<and> kept w'" using assms(2) Cons.prems(4) l(1) unfolding total_writer_def by blast
    then obtain err1 w1 where w: "(if is_ok err then pw_write wr l w else Some (err, w)) = Some (err1, w1)" and i: "kept w1"
      using Cons.prems(4) by (cases "is_ok err") auto
    have step: "do_put_table (wrap_read_line so) wr err (f, s) w = do_put_table (wrap_read_line so) wr err1 (f1, s1) w1"
      using r(1) r'(1) c w by (subst do_put_table.simps) (auto simp: wrap_read_line_def split: if_splits)
    have fd: "feed wr err (l # ls) w = feed wr err1 ls w1" using w by (cases "is_ok err") auto
    have "\<forall>l \<in> set ls. table_line l" using Cons.prems(1) by simp
    from Cons.IH [OF this r'(2,3) i, of err1] show ?thesis unfolding step fd r'(4) .
  qed
qed

text \<open>What a table command does to the server, and its status.\<close>

definition put_table_result ::
    "'w config_command_set \<Rightarrow> string \<Rightarrow> string \<Rightarrow> string list \<Rightarrow> 'w \<Rightarrow> (unit result \<times> 'w) option" where
  "put_table_result cs name format ls w =
     Option.bind (parse_table_command cs name format w) (\<lambda>(error, wr, w).
     Option.bind (feed wr (Inr ()) ls w) (\<lambda>(put_error, w).
     Option.bind (pw_close wr (is_ok put_error) w) (\<lambda>(close_error, w).
       Some (and_then error (\<lambda>_. and_then put_error (\<lambda>_. close_error)), w))))"

definition total_tables :: "('w \<Rightarrow> bool) \<Rightarrow> 'w config_command_set \<Rightarrow> bool" where
  "total_tables kept cs =
     (\<forall>name streaming lst binary w. kept w \<longrightarrow> (\<exists>res w'. cs_put_table cs name streaming lst binary w = Some (res, w') \<and> kept w' \<and>
       (\<forall>wr. res = Inr wr \<longrightarrow> total_writer kept wr)))"

lemma parse_table_command_total:
  assumes "total_tables kept cs" "kept w"
  obtains e wr w' where "parse_table_command cs name format w = Some (e, wr, w')" "total_writer kept wr" "kept w'"
proof -
  have dummy: "total_writer kept dummy_table_writer" by (simp add: total_writer_def dummy_table_writer_def)
  obtain st f1 where 1: "read_char (CHR ''<'') format = (st, f1)" by fastforce
  obtain lt f2 where 2: "(if \<not> st then (True, f1) else read_char (CHR ''|'') f1) = (lt, f2)" by fastforce
  obtain bin f3 where 3: "read_char (CHR ''B'') f2 = (bin, f3)" by fastforce
  show thesis
  proof (cases "f3 = []")
    case False
    with 1 2 3 show ?thesis by (intro that [OF _ dummy assms(2)]) (simp add: parse_table_command_def parse_eos_def fail_def)
  next
    case True
    from assms obtain res w' where res: "cs_put_table cs name st lt bin w = Some (res, w')"
      "\<And>wr. res = Inr wr \<Longrightarrow> total_writer kept wr" "kept w'" unfolding total_tables_def by meson
    show ?thesis
    proof (cases res)
      case (Inl e)
      with 1 2 3 True res(1) show ?thesis by (intro that [OF _ dummy res(3)]) (simp add: parse_table_command_def parse_eos_def)
    next
      case (Inr wr)
      with 1 2 3 True res(1) show ?thesis by (intro that [OF _ res(2,3)]) (simp_all add: parse_table_command_def parse_eos_def)
    qed
  qed
qed

lemma table_command_writes:
  assumes "socket_laws so sent incoming" "total_tables kept cs" "\<forall>l \<in> set ls. table_line l"
    and "usable f" "input incoming f s = table_text ls @ rest" "kept w"
  shows "\<exists>f' s' w'. do_table_command so cs f s name format w = Some (f', s', w') \<and> sound f' \<and> kept w' \<and>
    (is_ok (bf_error f') \<longrightarrow> (\<exists>e. put_table_result cs name format ls w = Some (e, w') \<and> usable f' \<and>
      input incoming f' s' = rest \<and> sent s' @ bf_out_buf f' = sent s @ bf_out_buf f @ status_text e))"
proof -
  obtain e0 wr w0 where p: "parse_table_command cs name format w = Some (e0, wr, w0)" "total_writer kept wr" "kept w0"
    using parse_table_command_total [OF assms(2,6)] .
  from do_put_table_feeds [OF assms(1) p(2) assms(3-5) p(3), of "Inr ()"] obtain e1 f1 s1 w1 where
    1: "do_put_table (wrap_read_line so) wr (Inr ()) (f, s) w0 = Some (e1, (f1, s1), w1)" "kept w1"
      "is_ok (bf_error f1) \<longrightarrow> feed wr (Inr ()) ls w0 = Some (e1, w1) \<and> usable f1 \<and> input incoming f1 s1 = rest \<and>
        sent s1 @ bf_out_buf f1 = sent s @ bf_out_buf f" by blast
  have "\<exists>e w'. pw_close wr (is_ok e1) w1 = Some (e, w') \<and> kept w'" using p(2) 1(2) unfolding total_writer_def by blast
  then obtain e2 w2 where 2: "pw_close wr (is_ok e1) w1 = Some (e2, w2)" "kept w2" by auto
  let ?e = "and_then e0 (\<lambda>_. and_then e1 (\<lambda>_. e2))"
  have "sound f1" using 1(3) by (auto simp: sound_def usable_def)
  from report_status_writes [OF assms(1) this, of s1 ?e] obtain f' s' where
    3: "report_status so f1 s1 ?e = Some (f', s')" "wrote sent incoming f1 s1 (status_text ?e) f' s'" "sound f'"
    by (auto simp: writes_def)
  have run: "do_table_command so cs f s name format w = Some (f', s', w2)"
    using p(1) 1(1) 2(1) 3(1) by (simp add: do_table_command_def process_put_table_command_def)
  have "put_table_result cs name format ls w = Some (?e, w2) \<and> usable f' \<and> input incoming f' s' = rest \<and>
      sent s' @ bf_out_buf f' = sent s @ bf_out_buf f @ status_text ?e" if ok: "is_ok (bf_error f')"
  proof -
    have "is_ok (bf_error f1)" using 3(2) ok by (auto simp: wrote_def split: if_splits)
    moreover from this have "input incoming f' s' = input incoming f1 s1" "bf_eof f' = bf_eof f1"
      "sent s' @ bf_out_buf f' = (sent s1 @ bf_out_buf f1) @ status_text ?e"
      using 3(2) ok by (auto simp: wrote_def same_input_def input_def)
    ultimately show ?thesis using 1(3) 2(1) 3(3) p(1) ok by (auto simp: put_table_result_def usable_def sound_def)
  qed
  with run 3(3) 2(2) show ?thesis by blast
qed

section \<open>A whole connection\<close>

text \<open>
  When the input has ended, reading a line has sent the output: it is flushed before the buffer is filled.
\<close>

lemma fill_in_buf_out [simp]: "fill_in_buf so f s = (f', s') \<Longrightarrow> bf_out_buf f' = bf_out_buf f"
  by (auto simp: fill_in_buf_def split: if_splits prod.splits sum.splits)

lemma read_line_loop_out:
  assumes "read_line_loop so f acc n fl s = Some r"
  shows "\<not> fl \<longrightarrow> bf_out_buf (fst (snd r)) = bf_out_buf f"
proof (rule read_line_loop.raw_induct [where P = "\<lambda>so f acc n fl s r. \<not> fl \<longrightarrow> bf_out_buf (fst (snd r)) = bf_out_buf f"],
    goal_cases)
  case (1 loop so f acc n fl s r)
  obtain f' s' where "fill_in_buf so f s = (f', s')" by fastforce
  then have keep: "bf_out_buf f' = bf_out_buf f" and
    "\<not> fl \<Longrightarrow> (\<exists>acc' n'. loop so f' acc' n' False s' = Some r) \<or> bf_out_buf (fst (snd r)) = bf_out_buf f"
    using 1(2) by (auto simp: Let_def split: if_splits)
  then show ?case using 1(1) [of so f' _ _ False s' r] by (metis keep)
qed (fact assms)

lemma read_line_end_sent:
  assumes "socket_laws so sent incoming" "usable f" "newline \<notin> set (input incoming f s)"
  shows "\<exists>f' s'. read_line so f n True s = Some (None, f', s') \<and>
    (is_ok (bf_error f') \<longrightarrow> sent s' = sent s @ bf_out_buf f)"
proof -
  from read_line_loop_reads [OF assms(1,2), of "[]" n True s] obtain r f' s' where
    r: "read_line_loop so f [] n True s = Some (r, f', s')" "read_result sent incoming f s n r f' s'"
    by (auto simp: option.map_ident)
  then have none: "r = None" using assms(3) by (cases r) (auto simp: read_result_def)
  have "bf_out_buf f' = []" if ok: "is_ok (bf_error f')"
  proof -
    have d: "newline \<notin> set (drop (bf_read_ptr f) (bf_in_buf f))" using assms(3) by (simp add: input_def)
    have u: "is_ok (bf_error f)" "\<not> bf_eof f" "0 < bf_out_buf_size f" using assms(2) by (auto simp: usable_def file_inv_def)
    from flush_out_buf_wrote [OF assms(1) u(3), of s] obtain f1 s1 where
      1: "flush_out_buf so f s = Some (is_ok (bf_error f1), f1, s1)" "bf_out_buf f1 = []" by blast
    obtain f2 s2 where 2: "fill_in_buf so f1 s1 = (f2, s2)" by fastforce
    from r(1) d u ok 1(1) 2 obtain acc' n' where "read_line_loop so f2 acc' n' False s2 = Some (r, f', s')"
      by (subst (asm) read_line_loop.simps) (auto simp: Let_def split: if_splits)
    from read_line_loop_out [OF this] 1(2) 2 show ?thesis by simp
  qed
  with r none show ?thesis by (auto simp: read_line_def read_result_def)
qed

text \<open>
  A client sends commands, each with the lines of a table if it is a table command; \<open>reply\<close> is the answer to
  one command, and what it does to the server.
\<close>

definition command_parts :: "'w config_command_set \<Rightarrow> 'w config_command_set \<Rightarrow> string \<Rightarrow> 'w config_command_set \<times> string \<times> string" where
  "command_parts sys ent line =
     (let (cs, line) = (if peek line = CHR ''*'' then (sys, tl line) else (ent, line));
          command = takeWhile (\<lambda>c. \<not> separator c) line in
      (cs, command, drop (length command) line))"

definition is_table :: "string \<Rightarrow> bool" where
  "is_table line = (peek (dropWhile (\<lambda>c. \<not> separator c) line) = CHR ''<'')"

definition command_text :: "string \<times> string list \<Rightarrow> string" where
  "command_text c = fst c @ newline # (if is_table (fst c) then table_text (snd c) else [])"

definition client_command :: "string \<times> string list \<Rightarrow> bool" where
  "client_command c =
     (newline \<notin> set (fst c) \<and> nul \<notin> set (fst c) \<and> length (fst c) + 1 < MAX_LINE_LENGTH \<and> (\<forall>l \<in> set (snd c). table_line l))"

definition read_text :: "unit result \<Rightarrow> string list \<Rightarrow> get_response \<Rightarrow> string" where
  "read_text error many response =
     concat (map (\<lambda>r. ''!'' @ r @ [newline]) many) @
     (if \<not> is_ok error then status_text error
      else (case response of RESPONSE_ONE string \<Rightarrow> ''OK ='' @ string @ [newline] | _ \<Rightarrow> ''.'' @ [newline]))"

definition reply :: "'w config_command_set \<Rightarrow> 'w config_command_set \<Rightarrow> string \<times> string list \<Rightarrow> 'w \<Rightarrow> (string \<times> 'w) option" where
  "reply sys ent c w =
     (let (cs, command, rest) = command_parts sys ent (fst c) in
      if peek rest = CHR ''?'' then
        (if tl rest = [] then
           map_option (\<lambda>((error, many, response), w). (read_text error many response, w)) (cs_get cs command w)
         else Some (status_text (fail ''Unexpected text after command''), w))
      else if peek rest = CHR ''='' then
        map_option (\<lambda>(error, w). (status_text error, w)) (cs_put cs command (tl rest) w)
      else if peek rest = CHR ''<'' then
        map_option (\<lambda>(error, w). (status_text error, w)) (put_table_result cs command (tl rest) (snd c) w)
      else Some (status_text (fail ''Unknown command''), w))"

fun replies :: "'w config_command_set \<Rightarrow> 'w config_command_set \<Rightarrow> (string \<times> string list) list \<Rightarrow> 'w \<Rightarrow> (string \<times> 'w) option" where
  "replies sys ent [] w = Some ([], w)"
| "replies sys ent (c # cmds) w =
     Option.bind (reply sys ent c w) (\<lambda>(t, w). map_option (\<lambda>(ts, w). (t @ ts, w)) (replies sys ent cmds w))"

text \<open>
  Command sets that keep to the interface: every call returns and keeps the invariant \<open>kept\<close> of the
  server, and a successful read has an answer.
\<close>

definition total_set :: "('w \<Rightarrow> bool) \<Rightarrow> 'w config_command_set \<Rightarrow> bool" where
  "total_set kept cs =
     (total_tables kept cs \<and>
      (\<forall>w. kept w \<longrightarrow>
        (\<forall>name v. \<exists>e w'. cs_put cs name v w = Some (e, w') \<and> kept w') \<and>
        (\<forall>name. \<exists>e many r w'. cs_get cs name w = Some ((e, many, r), w') \<and> kept w' \<and> (is_ok e \<longrightarrow> r \<noteq> RESPONSE_ERROR))))"

lemma writes_usable:
  assumes "writes sent incoming f s t r" "usable f"
  obtains f' s' where "r = Some (f', s')"
    "is_ok (bf_error f') \<Longrightarrow> usable f' \<and> input incoming f' s' = input incoming f s \<and>
      sent s' @ bf_out_buf f' = sent s @ bf_out_buf f @ t"
proof -
  from assms(1) obtain f' s' where r: "r = Some (f', s')" "wrote sent incoming f s t f' s'" "sound f'" by (auto simp: writes_def)
  show thesis
    by (rule that [OF r(1)])
      (use r(2,3) assms(2) in \<open>auto simp: wrote_def same_input_def input_def usable_def sound_def\<close>)
qed

lemma usable_sound: "usable f \<Longrightarrow> sound f"
  by (simp add: usable_def sound_def)

lemma command_parts_rest:
  assumes "command_parts sys ent line = (cs, command, rest)"
  shows "cs = sys \<or> cs = ent" "is_table line \<longleftrightarrow> peek rest = CHR ''<''" "set rest \<subseteq> set line"
proof -
  have drop: "drop (length (takeWhile P xs)) xs = dropWhile P xs" for P :: "char \<Rightarrow> bool" and xs
    by (simp add: dropWhile_eq_drop)
  have "dropWhile (\<lambda>c. \<not> separator c) (tl line) = dropWhile (\<lambda>c. \<not> separator c) line" if "peek line = CHR ''*''"
    using that by (cases line) (auto simp: separator_def nul_def)
  with assms have "cs = sys \<or> cs = ent" "rest = dropWhile (\<lambda>c. \<not> separator c) line"
    by (auto simp: command_parts_def drop Let_def split: if_splits)
  then show "cs = sys \<or> cs = ent" "is_table line \<longleftrightarrow> peek rest = CHR ''<''" "set rest \<subseteq> set line"
    by (auto simp: is_table_def dest: set_dropWhileD)
qed

text \<open>One command: its data is consumed and its answer is written.\<close>

definition answered ::
    "('s \<Rightarrow> string) \<Rightarrow> ('s \<Rightarrow> string) \<Rightarrow> ('w \<Rightarrow> bool) \<Rightarrow> buffered_file \<Rightarrow> 's \<Rightarrow> string \<Rightarrow> (string \<times> 'w) option \<Rightarrow> (buffered_file \<times> 's \<times> 'w) option \<Rightarrow> bool" where
  "answered sent incoming kept f s rest answer r =
     (\<exists>f' s' w'. r = Some (f', s', w') \<and> kept w' \<and>
       (is_ok (bf_error f') \<longrightarrow> (\<exists>t. answer = Some (t, w') \<and> usable f' \<and> input incoming f' s' = rest \<and>
         sent s' @ bf_out_buf f' = sent s @ bf_out_buf f @ t)))"

lemma writes_answered:
  assumes "writes sent incoming f s t r" "usable f" "kept w"
  shows "answered sent incoming kept f s (input incoming f s) (Some (t, w)) (map_option (\<lambda>(f, s). (f, s, w)) r)"
  by (rule writes_usable [OF assms(1,2)]) (simp add: answered_def assms(3))

lemma do_read_command_answered:
  assumes "socket_laws so sent incoming" "usable f" "total_set kept cs" "nul \<notin> set v" "kept w"
  shows "answered sent incoming kept f s (input incoming f s)
    (if v = [] then map_option (\<lambda>((error, many, response), w). (read_text error many response, w)) (cs_get cs command w)
     else Some (status_text (fail ''Unexpected text after command''), w))
    (do_read_command so cs f s command v w)"
proof (cases "v = []")
  case False
  then have "peek v \<noteq> nul" using assms(4) by (cases v) auto
  with False writes_answered [where kept = kept and w = w, OF report_error_writes [OF assms(1) usable_sound [OF assms(2)]] assms(2,5), of s "fail ''Unexpected text after command''"]
  show ?thesis by (simp add: do_read_command_def status_text_def)
next
  case True
  from assms(3) obtain e many r w' where g: "cs_get cs command w = Some ((e, many, r), w')" "is_ok e \<Longrightarrow> r \<noteq> RESPONSE_ERROR" "kept w'"
    using assms(5) unfolding total_set_def by meson
  note s1 = write_many_results_writes [OF assms(1) usable_sound [OF assms(2)], of s many]
  have "writes sent incoming f s (drop (length (concat (map (\<lambda>r. ''!'' @ r @ [newline]) many))) (read_text e many r)) (write_answer so f s e r)"
    if "sound f" for f s
  proof (cases "is_ok e")
    case False
    then show ?thesis using report_error_writes [OF assms(1) that, of s e] by (simp add: write_answer_def read_text_def status_text_def)
  next
    case True
    have "writes sent incoming f s (''OK ='' @ string @ [newline])
        (Option.bind (write_all so f s ''OK ='') (\<lambda>(f, s). Option.bind (write_all so f s string) (\<lambda>(f, s). write_newline so f s)))" for string
      unfolding write_newline_def by (intro writes_bind write_all_writes write_one_writes assms(1) that)
    then show ?thesis using True g(2) write_all_writes [OF assms(1) that, of s "''.'' @ [newline]"]
      by (cases r) (simp_all add: write_answer_def read_text_def)
  qed
  from writes_bind [OF s1 this] have "writes sent incoming f s (read_text e many r)
      (Option.bind (write_many_results so f s many) (\<lambda>(f, s). write_answer so f s e r))"
    by (simp add: read_text_def)
  from writes_answered [where kept = kept and w = w', OF this assms(2) g(3)] show ?thesis
    using True g(1) by (simp add: do_read_command_def) 
qed

lemma do_table_command_answered:
  assumes "socket_laws so sent incoming" "usable f" "total_set kept cs" "\<forall>l \<in> set ls. table_line l" "input incoming f s = table_text ls @ rest" "kept w"
  shows "answered sent incoming kept f s rest (map_option (\<lambda>(e, w). (status_text e, w)) (put_table_result cs command format ls w))
    (do_table_command so cs f s command format w)"
proof -
  have "total_tables kept cs" using assms(3) by (simp add: total_set_def)
  from table_command_writes [OF assms(1) this assms(4,2,5,6), of command format] show ?thesis
    by (fastforce simp: answered_def)
qed

lemma do_write_command_answered:
  assumes "socket_laws so sent incoming" "usable f" "total_set kept cs" "kept w"
  shows "answered sent incoming kept f s (input incoming f s) (map_option (\<lambda>(e, w). (status_text e, w)) (cs_put cs command v w))
    (do_write_command so cs f s command v w)"
proof -
  have "\<exists>e w'. cs_put cs command v w = Some (e, w') \<and> kept w'" using assms(3,4) unfolding total_set_def by blast
  then obtain e w' where "cs_put cs command v w = Some (e, w')" "kept w'" by auto
  with writes_answered [where kept = kept and w = w', OF report_status_writes [OF assms(1) usable_sound [OF assms(2)], of s e] assms(2) this(2)] show ?thesis
    by (simp add: do_write_command_def)
qed

lemma process_config_command_answered:
  assumes "socket_laws so sent incoming" "usable f" "total_set kept sys" "total_set kept ent" "client_command c"
    and "input incoming f s = (if is_table (fst c) then table_text (snd c) else []) @ rest" "kept w"
  shows "answered sent incoming kept f s rest (reply sys ent c w) (process_config_command so sys ent f s (fst c) w)"
proof -
  obtain cs command r where p: "command_parts sys ent (fst c) = (cs, command, r)" by (metis prod_cases3)
  note parts = command_parts_rest [OF p]
  have cs: "total_set kept cs" using parts(1) assms(3,4) by auto
  have "nul \<notin> set r" using parts(3) assms(5) by (auto simp: client_command_def)
  then have v: "nul \<notin> set (tl r)" by (cases r) auto
  have run: "process_config_command so sys ent f s (fst c) w =
     (if peek r = CHR ''?'' then do_read_command so cs f s command (tl r) w
      else if peek r = CHR ''='' then do_write_command so cs f s command (tl r) w
      else if peek r = CHR ''<'' then do_table_command so cs f s command (tl r) w
      else map_option (\<lambda>(file, s). (file, s, w)) (report_error so f s (fail ''Unknown command'')))"
    using p by (auto simp: process_config_command_def command_parts_def Let_def split: if_splits)
  show ?thesis
  proof (cases "is_table (fst c)")
    case True
    then have "peek r = CHR ''<''" "input incoming f s = table_text (snd c) @ rest" using parts(2) assms(6) by simp_all
    with do_table_command_answered [OF assms(1,2) cs, of "snd c" s rest w command "tl r"] assms(5,7) p show ?thesis
      unfolding run by (simp add: reply_def client_command_def)
  next
    case False
    then have "peek r \<noteq> CHR ''<''" "rest = input incoming f s" using parts(2) assms(6) by simp_all
    with do_read_command_answered [OF assms(1,2) cs v assms(7), of s command] do_write_command_answered [OF assms(1,2) cs assms(7), of s command "tl r"]
      writes_answered [where kept = kept and w = w, OF report_error_writes [OF assms(1) usable_sound [OF assms(2)]] assms(2,7), of s "fail ''Unknown command''"] p
    show ?thesis unfolding run by (simp add: reply_def status_text_def)
  qed
qed

lemma process_config_loop_error:
  assumes "\<not> is_ok (bf_error f)"
  shows "process_config_loop so sys ent f s w = Some (bf_error f, s, w)"
proof -
  have "read_line so f MAX_LINE_LENGTH True s = Some (None, f, s)"
    using assms by (simp add: read_line_def read_line_loop.simps [of so f])
  then show ?thesis by (subst process_config_loop.simps) (simp add: destroy_buffered_file_def)
qed

lemma process_config_loop_replies:
  assumes "socket_laws so sent incoming" "total_set kept sys" "total_set kept ent" "\<forall>c \<in> set cmds. client_command c"
    and "usable f" "input incoming f s = concat (map command_text cmds)" "kept w"
  shows "\<exists>e s' w'. process_config_loop so sys ent f s w = Some (e, s', w') \<and> kept w' \<and>
    (is_ok e \<longrightarrow> (\<exists>out. replies sys ent cmds w = Some (out, w') \<and> sent s' = sent s @ bf_out_buf f @ out))"
  using assms(4-7)
proof (induction cmds arbitrary: f s w)
  case Nil
  then have "newline \<notin> set (input incoming f s)" by simp
  from read_line_end_sent [OF assms(1) Nil.prems(2) this, of MAX_LINE_LENGTH] obtain f' s' where
    "read_line so f MAX_LINE_LENGTH True s = Some (None, f', s')" "is_ok (bf_error f') \<longrightarrow> sent s' = sent s @ bf_out_buf f" by blast
  with Nil.prems(4) show ?case by (subst process_config_loop.simps) (simp add: destroy_buffered_file_def)
next
  case (Cons c cmds)
  have c: "client_command c" "\<forall>c \<in> set cmds. client_command c" using Cons.prems(1) by auto
  let ?rest = "(if is_table (fst c) then table_text (snd c) else []) @ concat (map command_text cmds)"
  have "input incoming f s = fst c @ newline # ?rest" using Cons.prems(3) by (simp add: command_text_def [of c])
  moreover have "newline \<notin> set (fst c)" "length (fst c) + 1 < MAX_LINE_LENGTH" "cstring (fst c) = fst c"
    using c(1) by (auto simp: client_command_def cstring_def takeWhile_eq_all_conv)
  ultimately obtain r f1 s1 where
    r: "read_line so f MAX_LINE_LENGTH True s = Some (r, f1, s1)"
      "is_ok (bf_error f1) \<longrightarrow> r = Some (fst c) \<and> usable f1 \<and> input incoming f1 s1 = ?rest \<and>
        sent s1 @ bf_out_buf f1 = sent s @ bf_out_buf f" "\<not> is_ok (bf_error f1) \<longrightarrow> r = None"
    and cc: "cstring (fst c) = fst c"
    using wrap_read_line_reads [OF assms(1) Cons.prems(2), of s "fst c" ?rest MAX_LINE_LENGTH True] by metis
  show ?case
  proof (cases "is_ok (bf_error f1)")
    case False
    with r Cons.prems(4) show ?thesis by (subst process_config_loop.simps) (simp add: destroy_buffered_file_def)
  next
    case True
    with r have r': "r = Some (fst c)" "usable f1" "input incoming f1 s1 = ?rest" "sent s1 @ bf_out_buf f1 = sent s @ bf_out_buf f" by auto
    from process_config_command_answered [OF assms(1) r'(2) assms(2,3) c(1) r'(3) Cons.prems(4)] obtain f2 s2 w2 where
      p: "process_config_command so sys ent f1 s1 (fst c) w = Some (f2, s2, w2)" "kept w2"
        "is_ok (bf_error f2) \<longrightarrow> (\<exists>t. reply sys ent c w = Some (t, w2) \<and> usable f2 \<and>
          input incoming f2 s2 = concat (map command_text cmds) \<and> sent s2 @ bf_out_buf f2 = sent s1 @ bf_out_buf f1 @ t)"
      by (auto simp: answered_def)
    have step: "process_config_loop so sys ent f s w = process_config_loop so sys ent f2 s2 w2"
      using r(1) r'(1) p(1) cc by (subst process_config_loop.simps) simp
    show ?thesis
    proof (cases "is_ok (bf_error f2)")
      case False
      then show ?thesis using p(2) by (simp add: step process_config_loop_error)
    next
      case True
      with p(3) obtain t where t: "reply sys ent c w = Some (t, w2)" "usable f2"
        "input incoming f2 s2 = concat (map command_text cmds)" "sent s2 @ bf_out_buf f2 = (sent s1 @ bf_out_buf f1) @ t" by auto
      from Cons.IH [OF c(2) t(2,3) p(2)] obtain e s' w' where
        "process_config_loop so sys ent f2 s2 w2 = Some (e, s', w')" "kept w'"
        "is_ok e \<longrightarrow> (\<exists>out. replies sys ent cmds w2 = Some (out, w') \<and> sent s' = (sent s2 @ bf_out_buf f2) @ out)" by auto
      then show ?thesis unfolding step t(4) r'(4) using t(1) by auto
    qed
  qed
qed

section \<open>The commands on entities\<close>

text \<open>\<^verbatim>\<open>entity_commands\<close>, on the maps of blocks and the state of the classes.\<close>

definition lift_writer :: "'d world put_table_writer \<Rightarrow> ('d block_map \<times> 'd world) put_table_writer" where
  "lift_writer wr = \<lparr>pw_write = (\<lambda>l (blocks, w). map_option (\<lambda>(e, w). (e, blocks, w)) (pw_write wr l w)),
     pw_close = (\<lambda>ok (blocks, w). map_option (\<lambda>(e, w). (e, blocks, w)) (pw_close wr ok w))\<rparr>"

definition entity_commands :: "nat \<Rightarrow> ('d block_map \<times> 'd world) config_command_set" where
  "entity_commands lw =
     \<lparr>cs_get = (\<lambda>name (blocks, w).
        map_option (\<lambda>((e, answer), w).
          ((case answer of Answer_one string \<Rightarrow> (e, [], RESPONSE_ONE string) | Answer_many strings \<Rightarrow> (e, strings, RESPONSE_MANY)),
           (blocks, w)))
          (process_entity_get blocks lw MAX_RESULT_LENGTH name w)),
      cs_put = (\<lambda>name v (blocks, w). process_entity_put blocks lw name v w),
      cs_put_table = (\<lambda>name streaming_mode last_table binary (blocks, w).
        map_option (\<lambda>(res, w). (and_then res (\<lambda>wr. Inr (lift_writer wr)), blocks, w))
          (process_entity_put_table blocks lw name streaming_mode last_table binary w))\<rparr>"

text \<open>
  What the commands rely on: the maps have their entries under their names, the description of a field fits its
  line, and the table methods of the classes return.
\<close>

definition field_ok :: "'d field \<Rightarrow> bool" where
  "field_ok f =
     ((\<forall>d. is_ok (describe_field f (MAX_RESULT_LENGTH - length (fd_name f @ '' '' @ show_u32 (fd_sequence f) @ '' '')) d)) \<and>
      (\<forall>pt. cm_put_table (fd_methods f) = Some pt \<longrightarrow>
        (\<forall>n streaming lst binary w. \<exists>res w'. pt n streaming lst binary w = Some (res, w') \<and>
          (\<forall>wr. res = Inr wr \<longrightarrow> total_writer (\<lambda>_. True) wr))))"

definition entity_kept :: "'d block_map \<times> 'd world \<Rightarrow> bool" where
  "entity_kept bw =
     (names_ok (fst bw) \<and> list_all (\<lambda>(_, b). list_all (\<lambda>(_, f). field_ok f) (bk_fields b)) (fst bw))"

text \<open>The interface that the protocol of a connection relies on, as its laws.\<close>

locale command_set =
  fixes cs :: "'w config_command_set"
    and kept :: "'w \<Rightarrow> bool"
  assumes get_total: "kept w \<Longrightarrow> \<exists>e many r w'. cs_get cs name w = Some ((e, many, r), w') \<and> kept w' \<and> (is_ok e \<longrightarrow> r \<noteq> RESPONSE_ERROR)"
    and put_total: "kept w \<Longrightarrow> \<exists>e w'. cs_put cs name v w = Some (e, w') \<and> kept w'"
    and table_total: "kept w \<Longrightarrow> \<exists>res w'. cs_put_table cs name streaming lst binary w = Some (res, w') \<and> kept w' \<and>
      (\<forall>wr. res = Inr wr \<longrightarrow> total_writer kept wr)"
begin

lemma total: "total_set kept cs"
  unfolding total_set_def total_tables_def using get_total put_total table_total by blast

lemma session:
  assumes "socket_laws so sent incoming" "total_set kept sys" "\<And>c. c \<in> set cmds \<Longrightarrow> client_command c"
    and "incoming s = concat (map command_text cmds)" "kept w"
  shows "\<exists>e s' w'. process_config_socket so sys cs s w = Some (e, s', w') \<and> kept w' \<and>
    (is_ok e \<longrightarrow> (\<exists>out. replies sys cs cmds w = Some (out, w') \<and> sent s' = sent s @ out))"
proof -
  let ?f = "create_buffered_file IN_BUF_SIZE OUT_BUF_SIZE"
  have "usable ?f" "input incoming ?f s = concat (map command_text cmds)" "bf_out_buf ?f = []"
    using assms(4) by (simp_all add: usable_def create_buffered_file_def file_inv_def input_def IN_BUF_SIZE_def OUT_BUF_SIZE_def)
  with process_config_loop_replies [OF assms(1,2) total _ this(1,2) assms(5)] assms(3) show ?thesis
    by (simp add: process_config_socket_def)
qed

end

lemma entity_kept_block:
  assumes "entity_kept (blocks, w)" "ctxt_block blocks ec = Some b"
  shows "list_all (\<lambda>(_, f). field_ok f) (bk_fields b)"
proof -
  from assms(2) obtain bn where "map_of blocks bn = Some b" by (auto simp: ctxt_block_def bind_eq_Some_conv)
  then have "(bn, b) \<in> set blocks" by (rule map_of_SomeD)
  moreover have "list_all (\<lambda>(_, b). list_all (\<lambda>(_, f). field_ok f) (bk_fields b)) blocks"
    using assms(1) by (simp add: entity_kept_def)
  ultimately show ?thesis unfolding list_all_iff by blast
qed

lemma entity_keptD:
  assumes "entity_kept (blocks, w)" "ctxt_field blocks ec = Some f"
  shows "field_ok f"
proof -
  from assms(2) obtain b fn where b: "ctxt_block blocks ec = Some b" "map_of (bk_fields b) fn = Some f"
    by (auto simp: ctxt_field_def bind_eq_Some_conv)
  from entity_kept_block [OF assms(1) b(1)] map_of_SomeD [OF b(2)] show ?thesis unfolding list_all_iff by blast
qed

lemma field_list_get_total: "list_all (\<lambda>(_, f). field_ok f) fs \<Longrightarrow> \<exists>l. field_list_get fs MAX_RESULT_LENGTH d = Some l"
proof (induction fs)
  case (Cons nf fs)
  obtain n f where nf: "nf = (n, f)" by fastforce
  then have "is_ok (describe_field f (MAX_RESULT_LENGTH - length (fd_name f @ '' '' @ show_u32 (fd_sequence f) @ '' '')) d)"
    using Cons.prems by (simp add: field_ok_def)
  with Cons nf show ?case by (auto simp: Let_def is_ok_def split: sum.splits)
qed simp

lemma update_attr_kept:
  assumes "entity_kept (blocks, w)"
  shows "entity_kept (update_attr ec attr blocks, w')"
proof -
  have "describe_field (f\<lparr>fd_attrs := as\<rparr>) = describe_field f" for f :: "'a field" and as
    by (simp add: describe_field_def fun_eq_iff split: option.splits)
  then have f: "field_ok (f\<lparr>fd_attrs := as\<rparr>) = field_ok f" for f :: "'a field" and as by (simp add: field_ok_def)
  show ?thesis using assms
    by (auto simp: entity_kept_def names_ok_def update_attr_def list_all_iff f split: prod.splits if_splits)
qed

lemma entity_get_total:
  assumes "entity_kept (blocks, w)"
  shows "\<exists>e answer w'. process_entity_get blocks lw MAX_RESULT_LENGTH name w = Some ((e, answer), w')"
proof (cases "compute_entity_handler blocks lw name")
  case (Inl e)
  then show ?thesis by (simp add: process_entity_get_def)
next
  case (Inr ea)
  obtain ec actions where ea: "ea = (ec, actions)" by fastforce
  have "names_ok blocks" using assms by (simp add: entity_kept_def)
  from entity_refers [OF this Inr [unfolded ea]] obtain b where b: "ctxt_block blocks ec = Some b"
    and c: "case actions of field_list_actions \<Rightarrow> ec_field ec = None | attr_list_actions \<Rightarrow> ctxt_field blocks ec \<noteq> None
      | block_field_actions \<Rightarrow> ctxt_field blocks ec \<noteq> None \<and> ec_number ec < bk_count b
      | field_attr_actions \<Rightarrow> ctxt_attr blocks ec \<noteq> None \<and> ec_number ec < bk_count b" by blast
  have "list_all (\<lambda>(_, f). field_ok f) (bk_fields b)" by (rule entity_kept_block [OF assms b])
  from field_list_get_total [OF this, of "fst w"] obtain l where
    "field_list_get (bk_fields b) MAX_RESULT_LENGTH (fst w) = Some l" by (elim exE)
  then have "process_entity_get blocks lw MAX_RESULT_LENGTH name w \<noteq> None"
    using c unfolding process_entity_get_def Inr ea by (cases actions) (simp_all add: b)
  then show ?thesis by (cases "process_entity_get blocks lw MAX_RESULT_LENGTH name w") auto
qed

lemma entity_put_total:
  assumes "entity_kept (blocks, w)"
  shows "\<exists>e bw'. process_entity_put blocks lw name v w = Some (e, bw') \<and> entity_kept bw'"
proof (cases "compute_entity_handler blocks lw name")
  case (Inl e)
  with assms show ?thesis by (auto simp: process_entity_put_def)
next
  case (Inr ea)
  obtain ec actions where ea: "ea = (ec, actions)" by fastforce
  have "names_ok blocks" using assms by (simp add: entity_kept_def)
  note refers = entity_refers [OF this Inr [unfolded ea]]
  have same: "entity_kept (blocks, w')" for w' using assms by (simp add: entity_kept_def)
  show ?thesis
  proof (cases actions)
    case block_field_actions
    with refers obtain f where f: "ctxt_field blocks ec = Some f" by auto
    obtain e w' where "field_put f (ec_number ec) v w = (e, w')" by (metis surj_pair)
    with f Inr ea block_field_actions same show ?thesis by (simp add: process_entity_put_def)
  next
    case field_attr_actions
    with refers obtain a where a: "ctxt_attr blocks ec = Some a" by auto
    obtain e d a' g where "attr_put a (fst w) (ec_number ec) v (snd w) = (e, d, a', g)" by (metis prod_cases4)
    with a Inr ea field_attr_actions update_attr_kept [OF assms] show ?thesis by (simp add: process_entity_put_def)
  qed (use assms Inr ea in \<open>auto simp: process_entity_put_def\<close>)
qed

lemma lift_writer_total: "total_writer (\<lambda>_. True) wr \<Longrightarrow> total_writer entity_kept (lift_writer wr)"
  unfolding total_writer_def lift_writer_def entity_kept_def by (fastforce split: prod.splits)

lemma entity_put_table_total:
  assumes "entity_kept (blocks, w)"
  shows "\<exists>res w'. process_entity_put_table blocks lw name streaming lst binary w = Some (res, w') \<and>
    (\<forall>wr. res = Inr wr \<longrightarrow> total_writer (\<lambda>_. True) wr)"
proof (cases "compute_entity_handler blocks lw name")
  case (Inl e)
  then show ?thesis by (simp add: process_entity_put_table_def)
next
  case (Inr ea)
  obtain ec actions where ea: "ea = (ec, actions)" by fastforce
  have "names_ok blocks" using assms by (simp add: entity_kept_def)
  note refers = entity_refers [OF this Inr [unfolded ea]]
  show ?thesis
  proof (cases "actions = block_field_actions")
    case True
    with refers obtain f where f: "ctxt_field blocks ec = Some f" by auto
    show ?thesis
    proof (cases "cm_put_table (fd_methods f)")
      case None
      with f Inr ea True show ?thesis by (simp add: process_entity_put_table_def field_put_table_def)
    next
      case (Some pt)
      with entity_keptD [OF assms f] obtain res w' where
        "pt (ec_number ec) streaming lst binary w = Some (res, w')" "\<forall>wr. res = Inr wr \<longrightarrow> total_writer (\<lambda>_. True) wr"
        unfolding field_ok_def by blast
      with Some f Inr ea True show ?thesis by (simp add: process_entity_put_table_def field_put_table_def)
    qed
  next
    case False
    with Inr ea show ?thesis by (cases actions) (auto simp: process_entity_put_table_def)
  qed
qed

interpretation entities: command_set "entity_commands lw" entity_kept
proof
  fix bw :: "'a block_map \<times> 'a world" and name v :: string and streaming lst binary :: bool
  assume k: "entity_kept bw"
  obtain blocks w where bw: "bw = (blocks, w)" by (metis surj_pair)
  have same: "entity_kept (blocks, w')" for w' using k bw by (simp add: entity_kept_def)
  from entity_get_total [OF k [unfolded bw], of lw name] obtain e answer w' where
    "process_entity_get blocks lw MAX_RESULT_LENGTH name w = Some ((e, answer), w')" by blast
  with same show "\<exists>e many r w'. cs_get (entity_commands lw) name bw = Some ((e, many, r), w') \<and> entity_kept w' \<and> (is_ok e \<longrightarrow> r \<noteq> RESPONSE_ERROR)"
    unfolding bw by (cases answer) (auto simp: entity_commands_def)
  show "\<exists>e w'. cs_put (entity_commands lw) name v bw = Some (e, w') \<and> entity_kept w'"
    unfolding bw using entity_put_total [OF k [unfolded bw], of lw name v] by (simp add: entity_commands_def)
  from entity_put_table_total [OF k [unfolded bw], of lw name streaming lst binary] obtain res w' where
    "process_entity_put_table blocks lw name streaming lst binary w = Some (res, w')"
    "\<forall>wr. res = Inr wr \<longrightarrow> total_writer (\<lambda>_. True) wr" by blast
  with same show "\<exists>res w'. cs_put_table (entity_commands lw) name streaming lst binary bw = Some (res, w') \<and> entity_kept w' \<and>
      (\<forall>wr. res = Inr wr \<longrightarrow> total_writer entity_kept wr)"
    unfolding bw by (cases res) (auto simp: entity_commands_def lift_writer_total)
qed


lemma single_block_kept: "entity_kept (single_block, w)"
  using length_show_u32 [of 0]
  by (simp add: entity_kept_def single_block_def sample_block_def sample_field_def sample_methods_def names_ok_def field_ok_def
      describe_field_def format_string_def MAX_RESULT_LENGTH_def)


end
