(* ===== verification/Panda_Capture.thy ===== *)
theory Panda_Capture
  imports Panda_StdDev Panda_Hardware Panda_File Panda_Format "HOL-Library.Monad_Syntax"
begin

text \<open>
  \<^verbatim>\<open>capture.c\<close>: from the fields selected for capture, the list of bus indices sent to the hardware and
  the layout of the captured data, and the conversion of captured samples into values and text.
\<close>

section \<open>Arrays\<close>

text \<open>Access to an array of fixed size.  An access out of range has no value: the C code is then undefined.\<close>

definition arr_get :: "'a list \<Rightarrow> nat \<Rightarrow> 'a option" where
  "arr_get xs i = (if i < length xs then Some (xs ! i) else None)"

definition arr_set :: "'a list \<Rightarrow> nat \<Rightarrow> 'a \<Rightarrow> 'a list option" where
  "arr_set xs i x = (if i < length xs then Some (xs[i := x]) else None)"

definition for_each :: "nat \<Rightarrow> (nat \<Rightarrow> 'a option) \<Rightarrow> 'a list option" where
  "for_each n f = those (map f [0..<n])"

section \<open>Captured fields\<close>

datatype capture_mode =
    CAPTURE_MODE_SCALED32 | CAPTURE_MODE_SCALED64 | CAPTURE_MODE_UNSCALED | CAPTURE_MODE_AVERAGE
  | CAPTURE_MODE_STDDEV

definition CAPTURE_INDEX_SIZE :: nat where "CAPTURE_INDEX_SIZE = 5"

record 'd capture_info =
  ci_capture_index :: "u32 list"
  ci_capture_mode :: capture_mode
  ci_field_name :: string
  ci_capture_string :: string
  ci_scale :: 'd
  ci_offset :: 'd
  ci_units :: string
  ci_capture_mean :: bool

text \<open>A \<^verbatim>\<open>capture_group\<close> is the list of the first \<^verbatim>\<open>count\<close> of its \<^verbatim>\<open>outputs\<close>.\<close>

record 'd captured_fields =
  cf_sample_count :: "'d capture_info"
  cf_scaled32 :: "'d capture_info list"
  cf_averaged :: "'d capture_info list"
  cf_std_dev :: "'d capture_info list"
  cf_scaled64 :: "'d capture_info list"
  cf_unscaled :: "'d capture_info list"

definition MAX_POS_OUT_CAPTURE :: nat where "MAX_POS_OUT_CAPTURE = 7"
definition MAX_EXT_OUT_CAPTURE :: nat where "MAX_EXT_OUT_CAPTURE = 2"
definition MAX_CAPTURE_COUNT :: nat where
  "MAX_CAPTURE_COUNT = MAX_POS_OUT_CAPTURE * POS_BUS_COUNT + MAX_EXT_OUT_CAPTURE * EXT_BUS_COUNT"

section \<open>The capture state\<close>

record field_group =
  fg_index :: nat
  fg_count :: nat
  fg_scaling :: nat

record 'd scaling =
  sg_scale :: 'd
  sg_offset :: 'd

record 'd data_capture =
  dc_raw_sample_words :: nat
  dc_sample_count_index :: nat
  dc_sample_count_anonymous :: bool
  dc_unscaled :: field_group
  dc_scaled32 :: field_group
  dc_scaled64 :: field_group
  dc_averaged :: field_group
  dc_std_dev :: field_group
  dc_std_dev_mean :: "bool list"
  dc_std_dev_mean_count :: nat
  dc_scaling :: "'d scaling list"

section \<open>Conversion of the data\<close>

datatype data_format = DATA_FORMAT_UNFRAMED | DATA_FORMAT_FRAMED | DATA_FORMAT_BASE64 | DATA_FORMAT_ASCII
datatype data_process = DATA_PROCESS_RAW | DATA_PROCESS_SCALED

record data_options =
  do_data_format :: data_format
  do_data_process :: data_process
  do_omit_header :: bool
  do_omit_status :: bool
  do_one_shot :: bool
  do_xml_header :: bool

text \<open>The operations on doubles that the conversion needs beyond those of the standard deviation, and their text as \<^verbatim>\<open>%.10g\<close> and \<^verbatim>\<open>%.12g\<close>
  give it.\<close>

record 'd capture_ops = "'d double_ops" +
  d_of_int :: "int \<Rightarrow> 'd"
  d_mul :: "'d \<Rightarrow> 'd \<Rightarrow> 'd"
  d_show :: "'d \<Rightarrow> string"
  d_show12 :: "'d \<Rightarrow> string"

text \<open>The output buffer: 32 bit words and doubles, in the order in which they are stored.\<close>

datatype 'd item = Word32 u32 | Double 'd

primrec item_bytes :: "'d item \<Rightarrow> nat" where
  "item_bytes (Word32 _) = 4"
| "item_bytes (Double _) = 8"

definition read_int64 :: "u32 list \<Rightarrow> nat \<Rightarrow> u64 option" where
  "read_int64 raw i = do { lo \<leftarrow> arr_get raw i; hi \<leftarrow> arr_get raw (i + 1); Some (join hi lo) }"

definition read_uint96 :: "u32 list \<Rightarrow> nat \<Rightarrow> uint96 option" where
  "read_uint96 raw i =
     do { a \<leftarrow> arr_get raw i; b \<leftarrow> arr_get raw (i + 1); c \<leftarrow> arr_get raw (i + 2);
          Some \<lparr>w0 = a, w1 = b, w2 = c\<rparr> }"

definition copy_unscaled_fields :: "field_group \<Rightarrow> u32 list \<Rightarrow> u32 list option" where
  "copy_unscaled_fields grp raw = for_each (fg_count grp) (\<lambda>i. arr_get raw (fg_index grp + i))"

definition convert_scaled32 :: "'d capture_ops \<Rightarrow> 'd data_capture \<Rightarrow> u32 list \<Rightarrow> 'd list option" where
  "convert_scaled32 ops capture raw =
     for_each (fg_count (dc_scaled32 capture)) (\<lambda>i. do {
       scaling \<leftarrow> arr_get (dc_scaling capture) (fg_scaling (dc_scaled32 capture) + i);
       x \<leftarrow> arr_get raw (fg_index (dc_scaled32 capture) + i);
       Some (d_add ops (d_mul ops (sg_scale scaling) (d_of_int ops (sint x))) (sg_offset scaling)) })"

definition convert_scaled64 :: "'d capture_ops \<Rightarrow> 'd data_capture \<Rightarrow> u32 list \<Rightarrow> 'd list option" where
  "convert_scaled64 ops capture raw =
     for_each (fg_count (dc_scaled64 capture)) (\<lambda>i. do {
       scaling \<leftarrow> arr_get (dc_scaling capture) (fg_scaling (dc_scaled64 capture) + i);
       x \<leftarrow> read_int64 raw (fg_index (dc_scaled64 capture) + 2 * i);
       Some (d_add ops (d_mul ops (sg_scale scaling) (d_of_int ops (sint x))) (sg_offset scaling)) })"

definition compute_mean :: "'d capture_ops \<Rightarrow> u32 \<Rightarrow> 'd scaling \<Rightarrow> u64 \<Rightarrow> 'd" where
  "compute_mean ops samples scaling x =
     (if samples = 0 then d_nan ops
      else d_add ops
        (d_div ops (d_mul ops (sg_scale scaling) (d_of_int ops (sint x))) (d_of_u32 ops samples))
        (sg_offset scaling))"

definition average_scaled_data :: "'d capture_ops \<Rightarrow> 'd data_capture \<Rightarrow> u32 list \<Rightarrow> 'd list option" where
  "average_scaled_data ops capture raw =
     do { sample_count \<leftarrow> arr_get raw (dc_sample_count_index capture);
     for_each (fg_count (dc_averaged capture)) (\<lambda>i. do {
       scaling \<leftarrow> arr_get (dc_scaling capture) (fg_scaling (dc_averaged capture) + i);
       x \<leftarrow> read_int64 raw (fg_index (dc_averaged capture) + 2 * i);
       Some (compute_mean ops sample_count scaling x) }) }"

definition convert_standard_deviation ::
    "'d capture_ops \<Rightarrow> 'd data_capture \<Rightarrow> u32 list \<Rightarrow> 'd list option" where
  "convert_standard_deviation ops capture raw =
     do { sample_count \<leftarrow> arr_get raw (dc_sample_count_index capture);
     map_option concat (for_each (fg_count (dc_std_dev capture)) (\<lambda>i. do {
       scaling \<leftarrow> arr_get (dc_scaling capture) (fg_scaling (dc_std_dev capture) + i);
       sum \<leftarrow> read_int64 raw (fg_index (dc_std_dev capture) + 5 * i);
       sum_squares \<leftarrow> read_uint96 raw (fg_index (dc_std_dev capture) + 5 * i + 2);
       mean \<leftarrow> arr_get (dc_std_dev_mean capture) i;
       Some ((if mean then [compute_mean ops sample_count scaling sum] else []) @
         [d_mul ops (sg_scale scaling)
            (compute_standard_deviation (double_ops.truncate ops) sample_count sum sum_squares)]) })) }"

fun convert_scaled_data ::
    "'d capture_ops \<Rightarrow> 'd data_capture \<Rightarrow> nat \<Rightarrow> u32 list \<Rightarrow> 'd item list option" where
  "convert_scaled_data ops capture 0 raw = Some []"
| "convert_scaled_data ops capture (Suc sample_count) raw =
     do { unscaled \<leftarrow> copy_unscaled_fields (dc_unscaled capture) raw;
          scaled32 \<leftarrow> convert_scaled32 ops capture raw;
          scaled64 \<leftarrow> convert_scaled64 ops capture raw;
          averaged \<leftarrow> average_scaled_data ops capture raw;
          std_dev \<leftarrow> convert_standard_deviation ops capture raw;
          output \<leftarrow> convert_scaled_data ops capture sample_count (drop (dc_raw_sample_words capture) raw);
          Some (map Word32 unscaled @ map Double (scaled32 @ scaled64 @ averaged @ std_dev) @ output) }"

definition get_raw_sample_length :: "'d data_capture \<Rightarrow> nat option" where
  "get_raw_sample_length capture =
     (if dc_raw_sample_words capture > 0 then Some (4 * dc_raw_sample_words capture) else None)"

definition get_binary_sample_length :: "'d data_capture \<Rightarrow> data_options \<Rightarrow> nat option" where
  "get_binary_sample_length capture options =
     (case do_data_process options of
        DATA_PROCESS_RAW \<Rightarrow> get_raw_sample_length capture
      | DATA_PROCESS_SCALED \<Rightarrow>
          (let len = 4 * fg_count (dc_unscaled capture) +
             8 * (fg_count (dc_scaled32 capture) + fg_count (dc_scaled64 capture) +
                  fg_count (dc_averaged capture) + fg_count (dc_std_dev capture) + dc_std_dev_mean_count capture) in
           if len > 0 then Some len else None))"

definition convert_raw_data_to_binary ::
    "'d capture_ops \<Rightarrow> 'd data_capture \<Rightarrow> data_options \<Rightarrow> nat \<Rightarrow> u32 list \<Rightarrow> 'd item list option" where
  "convert_raw_data_to_binary ops capture options sample_count raw =
     (case do_data_process options of
        DATA_PROCESS_RAW \<Rightarrow>
          (if dc_raw_sample_words capture > 0
           then map_option (map Word32) (for_each (sample_count * dc_raw_sample_words capture) (arr_get raw))
           else None)
      | DATA_PROCESS_SCALED \<Rightarrow> convert_scaled_data ops capture sample_count raw)"

section \<open>Preparation of the capture\<close>

record 'd gather =
  ga_capture :: "'d data_capture"
  ga_scaling_count :: nat
  ga_capture_count :: nat
  ga_capture_array :: "u32 list"

definition index_words :: "nat \<Rightarrow> 'd capture_info \<Rightarrow> u32 list" where
  "index_words n info = take n (ci_capture_index info)"

fun copy_indices :: "u32 list \<Rightarrow> nat \<Rightarrow> u32 list \<Rightarrow> u32 list option" where
  "copy_indices arr i [] = Some arr"
| "copy_indices arr i (x # xs) = do { arr \<leftarrow> arr_set arr i x; copy_indices arr (i + 1) xs }"

definition emit_capture ::
    "'d gather \<Rightarrow> 'd capture_info \<Rightarrow> nat \<Rightarrow> bool \<Rightarrow> ('d gather \<times> nat) option" where
  "emit_capture g info index_count scaled =
     do { let capture_index = ga_capture_count g;
          arr \<leftarrow> copy_indices (ga_capture_array g) capture_index (index_words index_count info);
          let g = g\<lparr>ga_capture_array := arr, ga_capture_count := ga_capture_count g + index_count\<rparr>;
          if scaled then do {
            sc \<leftarrow> arr_set (dc_scaling (ga_capture g)) (ga_scaling_count g)
                    \<lparr>sg_scale = ci_scale info, sg_offset = ci_offset info\<rparr>;
            Some (g\<lparr>ga_capture := (ga_capture g)\<lparr>dc_scaling := sc\<rparr>,
                    ga_scaling_count := ga_scaling_count g + 1\<rparr>, capture_index) }
          else Some (g, capture_index) }"

text \<open>The position of the first field of the group that captures the given index.\<close>

fun find_index :: "u32 \<Rightarrow> 'd capture_info list \<Rightarrow> nat \<Rightarrow> nat option" where
  "find_index x [] i = None"
| "find_index x (info # infos) i =
     (if ci_capture_index info ! 0 = x then Some i else find_index x infos (i + 1))"

definition ensure_sample_count :: "'d captured_fields \<Rightarrow> 'd gather \<Rightarrow> (bool \<times> 'd gather) option" where
  "ensure_sample_count flds g =
     (let sample_count_capture = ci_capture_index (cf_sample_count flds) ! 0 in
      case find_index sample_count_capture (cf_scaled32 flds) 0 of
        Some i \<Rightarrow>
          Some (False, g\<lparr>ga_capture := (ga_capture g)\<lparr>dc_sample_count_index := length (cf_unscaled flds) + i\<rparr>\<rparr>)
      | None \<Rightarrow>
          do { (g, i) \<leftarrow> emit_capture g (cf_sample_count flds) 1 False;
               Some (True, g\<lparr>ga_capture := (ga_capture g)\<lparr>dc_sample_count_index := i\<rparr>\<rparr>) })"

fun emit_group :: "'d gather \<Rightarrow> 'd capture_info list \<Rightarrow> nat \<Rightarrow> bool \<Rightarrow> 'd gather option" where
  "emit_group g [] index_count scaled = Some g"
| "emit_group g (info # infos) index_count scaled =
     do { (g, _) \<leftarrow> emit_capture g info index_count scaled; emit_group g infos index_count scaled }"

definition prepare_output_group ::
    "'d gather \<Rightarrow> 'd capture_info list \<Rightarrow> (field_group \<Rightarrow> 'd data_capture \<Rightarrow> 'd data_capture) \<Rightarrow> nat \<Rightarrow> bool
       \<Rightarrow> 'd gather option" where
  "prepare_output_group g grp set_fields index_count scaled =
     emit_group
       (g\<lparr>ga_capture := set_fields
            \<lparr>fg_index = ga_capture_count g, fg_count = length grp, fg_scaling = ga_scaling_count g\<rparr> (ga_capture g)\<rparr>)
       grp index_count scaled"

fun stddev_flags :: "'d capture_info list \<Rightarrow> nat \<Rightarrow> 'd data_capture \<Rightarrow> 'd data_capture option" where
  "stddev_flags [] i capture = Some capture"
| "stddev_flags (info # infos) i capture =
     do { flags \<leftarrow> arr_set (dc_std_dev_mean capture) i (ci_capture_mean info);
          let capture = capture\<lparr>dc_std_dev_mean := flags\<rparr>;
          let capture = (if ci_capture_mean info
                         then capture\<lparr>dc_std_dev_mean_count := dc_std_dev_mean_count capture + 1\<rparr> else capture);
          stddev_flags infos (i + 1) capture }"

definition prepare_stddev_flags :: "'d capture_info list \<Rightarrow> 'd data_capture \<Rightarrow> 'd data_capture option" where
  "prepare_stddev_flags grp capture = stddev_flags grp 0 (capture\<lparr>dc_std_dev_mean_count := 0\<rparr>)"

definition gather_data_capture ::
    "'d captured_fields \<Rightarrow> 'd data_capture \<Rightarrow> u32 list \<Rightarrow> ('d data_capture \<times> nat \<times> u32 list) option" where
  "gather_data_capture flds state arr =
     do { let g = \<lparr>ga_capture = state, ga_scaling_count = 0, ga_capture_count = 0, ga_capture_array = arr\<rparr>;
          (anonymous, g) \<leftarrow>
            (if length (cf_averaged flds) > 0 \<or> length (cf_std_dev flds) > 0 then ensure_sample_count flds g
             else Some (False, g));
          let g = g\<lparr>ga_capture := (ga_capture g)\<lparr>dc_sample_count_anonymous := anonymous\<rparr>\<rparr>;
          g \<leftarrow> prepare_output_group g (cf_unscaled flds) (\<lambda>x. dc_unscaled_update (\<lambda>_. x)) 1 False;
          g \<leftarrow> prepare_output_group g (cf_scaled32 flds) (\<lambda>x. dc_scaled32_update (\<lambda>_. x)) 1 True;
          g \<leftarrow> prepare_output_group g (cf_scaled64 flds) (\<lambda>x. dc_scaled64_update (\<lambda>_. x)) 2 True;
          g \<leftarrow> prepare_output_group g (cf_averaged flds) (\<lambda>x. dc_averaged_update (\<lambda>_. x)) 2 True;
          g \<leftarrow> prepare_output_group g (cf_std_dev flds) (\<lambda>x. dc_std_dev_update (\<lambda>_. x)) 5 True;
          capture \<leftarrow> prepare_stddev_flags (cf_std_dev flds) (ga_capture g);
          Some (capture\<lparr>dc_raw_sample_words := ga_capture_count g\<rparr>, ga_capture_count g, ga_capture_array g) }"

definition prepare_data_capture ::
    "'s device \<Rightarrow> reg_header \<Rightarrow> 'd captured_fields \<Rightarrow> u32 list \<Rightarrow> 'd data_capture \<Rightarrow> 's
       \<Rightarrow> (unit result \<times> 'd data_capture \<times> 's) option" where
  "prepare_data_capture dev hdr flds stack state s =
     do { (capture, capture_count, capture_array) \<leftarrow> gather_data_capture flds state stack;
          if \<not> capture_count > 0 then Some (fail ''Nothing configured for capture'', capture, s)
          else if \<not> capture_count < MAX_PCAP_WRITE_COUNT then Some (fail ''Too many captures for PCAP'', capture, s)
          else do { s \<leftarrow> hw_write_capture_set dev hdr (take capture_count capture_array) s;
                    Some (Inr (), capture, s) } }"

definition sample_count_is_anonymous :: "'d data_capture \<Rightarrow> bool" where
  "sample_count_is_anonymous capture = dc_sample_count_anonymous capture"

section \<open>The layout of a sample\<close>

text \<open>What the hardware is asked to capture for each sample, and the scaling of each scaled field.\<close>

definition words_of :: "nat \<Rightarrow> 'd capture_info list \<Rightarrow> u32 list" where
  "words_of n infos = concat (map (index_words n) infos)"

definition scaling_of :: "'d capture_info \<Rightarrow> 'd scaling" where
  "scaling_of info = \<lparr>sg_scale = ci_scale info, sg_offset = ci_offset info\<rparr>"

definition needs_samples :: "'d captured_fields \<Rightarrow> bool" where
  "needs_samples flds = (cf_averaged flds \<noteq> [] \<or> cf_std_dev flds \<noteq> [])"

definition sample_position :: "'d captured_fields \<Rightarrow> nat option" where
  "sample_position flds = find_index (ci_capture_index (cf_sample_count flds) ! 0) (cf_scaled32 flds) 0"

definition hidden_words :: "'d captured_fields \<Rightarrow> u32 list" where
  "hidden_words flds =
     (if needs_samples flds \<and> sample_position flds = None then index_words 1 (cf_sample_count flds) else [])"

definition sample_layout :: "'d captured_fields \<Rightarrow> u32 list" where
  "sample_layout flds =
     hidden_words flds @ words_of 1 (cf_unscaled flds) @ words_of 1 (cf_scaled32 flds) @
     words_of 2 (cf_scaled64 flds) @ words_of 2 (cf_averaged flds) @ words_of 5 (cf_std_dev flds)"

definition scaled_fields :: "'d captured_fields \<Rightarrow> 'd capture_info list" where
  "scaled_fields flds = cf_scaled32 flds @ cf_scaled64 flds @ cf_averaged flds @ cf_std_dev flds"

definition wf_info :: "'d capture_info \<Rightarrow> bool" where
  "wf_info info = (length (ci_capture_index info) = CAPTURE_INDEX_SIZE)"

definition wf_fields :: "'d captured_fields \<Rightarrow> bool" where
  "wf_fields flds =
     (wf_info (cf_sample_count flds) \<and> list_all wf_info (cf_unscaled flds) \<and> list_all wf_info (scaled_fields flds))"

lemma length_index_words: "wf_info info \<Longrightarrow> n \<le> 5 \<Longrightarrow> length (index_words n info) = n"
  by (simp add: wf_info_def index_words_def CAPTURE_INDEX_SIZE_def)

lemma length_words_of: "list_all wf_info infos \<Longrightarrow> n \<le> 5 \<Longrightarrow> length (words_of n infos) = n * length infos"
  by (induction infos) (simp_all add: words_of_def length_index_words)

section \<open>Gathering\<close>

text \<open>The words and scalings emitted so far, at the start of arrays of the allocated size.\<close>

definition gathered :: "'d gather \<Rightarrow> u32 list \<Rightarrow> 'd scaling list \<Rightarrow> bool" where
  "gathered g ws ss =
     (length (ga_capture_array g) = MAX_CAPTURE_COUNT \<and> ga_capture_count g = length ws \<and>
      take (length ws) (ga_capture_array g) = ws \<and>
      length (dc_scaling (ga_capture g)) = MAX_CAPTURE_COUNT \<and> ga_scaling_count g = length ss \<and>
      take (length ss) (dc_scaling (ga_capture g)) = ss \<and>
      length (dc_std_dev_mean (ga_capture g)) = MAX_CAPTURE_COUNT)"

definition only_scaling :: "'d data_capture \<Rightarrow> 'd data_capture \<Rightarrow> bool" where
  "only_scaling c c' = (c' = c\<lparr>dc_scaling := dc_scaling c'\<rparr>)"

lemma only_scaling_refl: "only_scaling c c"
  by (simp add: only_scaling_def)

lemma only_scaling_trans: "only_scaling a b \<Longrightarrow> only_scaling b c \<Longrightarrow> only_scaling a c"
  by (cases a; cases b; cases c) (auto simp: only_scaling_def)

lemma take_update_append: "i < length xs \<Longrightarrow> take i xs = ws \<Longrightarrow> take (Suc i) (xs[i := x]) = ws @ [x]"
  by (simp add: take_Suc_conv_app_nth)

lemma copy_indices_take:
  "take i arr = ws \<Longrightarrow> i + length xs \<le> length arr \<Longrightarrow>
   \<exists>arr'. copy_indices arr i xs = Some arr' \<and> length arr' = length arr \<and> take (i + length xs) arr' = ws @ xs"
proof (induction xs arbitrary: arr i ws)
  case (Cons x xs)
  then have "take (Suc i) (arr[i := x]) = ws @ [x]" by (simp add: take_update_append)
  with Cons.IH [of "Suc i" "arr[i := x]" "ws @ [x]"] Cons.prems show ?case by (simp add: arr_set_def)
qed simp

lemma copy_indices_overflow: "length arr < i + length xs \<Longrightarrow> xs \<noteq> [] \<Longrightarrow> copy_indices arr i xs = None"
proof (induction xs arbitrary: arr i)
  case (Cons x xs)
  then show ?case by (cases "xs = []") (simp_all add: arr_set_def)
qed simp

lemma emit_capture_gathered:
  assumes "gathered g ws ss" "wf_info info" "n \<le> 5" "length ws + n \<le> MAX_CAPTURE_COUNT"
    "scaled \<Longrightarrow> length ss < MAX_CAPTURE_COUNT"
  shows "\<exists>g'. emit_capture g info n scaled = Some (g', length ws) \<and>
    gathered g' (ws @ index_words n info) (ss @ (if scaled then [scaling_of info] else [])) \<and>
    only_scaling (ga_capture g) (ga_capture g')"
proof -
  have n: "length (index_words n info) = n" using assms(2,3) by (rule length_index_words)
  obtain arr where "copy_indices (ga_capture_array g) (length ws) (index_words n info) = Some arr"
    "length arr = MAX_CAPTURE_COUNT" "take (length ws + n) arr = ws @ index_words n info"
    using copy_indices_take [of "length ws" "ga_capture_array g" ws "index_words n info"] assms(1,4) n
    by (auto simp: gathered_def)
  with assms(1,5) n show ?thesis
    by (simp add: emit_capture_def gathered_def arr_set_def only_scaling_def Let_def scaling_of_def take_update_append)
qed

lemma emit_group_gathered:
  assumes "gathered g ws ss" "list_all wf_info infos" "n \<le> 5" "length ws + n * length infos \<le> MAX_CAPTURE_COUNT"
    "scaled \<Longrightarrow> length ss + length infos \<le> MAX_CAPTURE_COUNT"
  shows "\<exists>g'. emit_group g infos n scaled = Some g' \<and>
    gathered g' (ws @ words_of n infos) (ss @ (if scaled then map scaling_of infos else [])) \<and>
    only_scaling (ga_capture g) (ga_capture g')"
  using assms
proof (induction infos arbitrary: g ws ss)
  case Nil
  then show ?case by (simp add: words_of_def only_scaling_refl)
next
  case (Cons info infos)
  let ?ss = "ss @ (if scaled then [scaling_of info] else [])"
  have 1: "wf_info info" "list_all wf_info infos" "length ws + n \<le> MAX_CAPTURE_COUNT"
    "scaled \<Longrightarrow> length ss < MAX_CAPTURE_COUNT" using Cons.prems by simp_all
  obtain g1 where g1: "emit_capture g info n scaled = Some (g1, length ws)"
    "gathered g1 (ws @ index_words n info) ?ss" "only_scaling (ga_capture g) (ga_capture g1)"
    using emit_capture_gathered [OF Cons.prems(1) 1(1) \<open>n \<le> 5\<close> 1(3,4)] by blast
  have "length (ws @ index_words n info) + n * length infos \<le> MAX_CAPTURE_COUNT"
    "scaled \<Longrightarrow> length ?ss + length infos \<le> MAX_CAPTURE_COUNT"
    using Cons.prems length_index_words [OF 1(1)] by simp_all
  from Cons.IH [OF g1(2) 1(2) \<open>n \<le> 5\<close> this] obtain g2 where g2: "emit_group g1 infos n scaled = Some g2"
    "gathered g2 ((ws @ index_words n info) @ words_of n infos) (?ss @ (if scaled then map scaling_of infos else []))"
    "only_scaling (ga_capture g1) (ga_capture g2)" by auto
  have "only_scaling (ga_capture g) (ga_capture g2)" using g1(3) g2(3) by (rule only_scaling_trans)
  moreover have "gathered g2 (ws @ words_of n (info # infos)) (ss @ (if scaled then map scaling_of (info # infos) else []))"
    using g2(2) by (cases scaled) (simp_all add: words_of_def)
  ultimately show ?case using g1(1) g2(1) by simp
qed

definition keeps_arrays :: "(field_group \<Rightarrow> 'd data_capture \<Rightarrow> 'd data_capture) \<Rightarrow> bool" where
  "keeps_arrays upd = (\<forall>x c. dc_scaling (upd x c) = dc_scaling c \<and> dc_std_dev_mean (upd x c) = dc_std_dev_mean c)"

lemma prepare_output_group_gathered:
  assumes "gathered g ws ss" "list_all wf_info infos" "n \<le> 5" "length ws + n * length infos \<le> MAX_CAPTURE_COUNT"
    "scaled \<Longrightarrow> length ss + length infos \<le> MAX_CAPTURE_COUNT" "keeps_arrays upd"
  shows "\<exists>g'. prepare_output_group g infos upd n scaled = Some g' \<and>
    gathered g' (ws @ words_of n infos) (ss @ (if scaled then map scaling_of infos else [])) \<and>
    only_scaling (upd \<lparr>fg_index = length ws, fg_count = length infos, fg_scaling = length ss\<rparr> (ga_capture g)) (ga_capture g')"
proof -
  let ?g = "g\<lparr>ga_capture := upd \<lparr>fg_index = length ws, fg_count = length infos, fg_scaling = length ss\<rparr> (ga_capture g)\<rparr>"
  have "gathered ?g ws ss" using assms(1,6) by (simp add: gathered_def keeps_arrays_def)
  from emit_group_gathered [OF this assms(2-5)] assms(1) show ?thesis
    by (auto simp: prepare_output_group_def gathered_def)
qed

lemma stddev_flags_take:
  "take i (dc_std_dev_mean c) = fs \<Longrightarrow> i + length infos \<le> length (dc_std_dev_mean c) \<Longrightarrow>
   \<exists>flags. stddev_flags infos i c =
     Some (c\<lparr>dc_std_dev_mean := flags, dc_std_dev_mean_count := dc_std_dev_mean_count c + length (filter ci_capture_mean infos)\<rparr>) \<and>
     length flags = length (dc_std_dev_mean c) \<and> take (i + length infos) flags = fs @ map ci_capture_mean infos"
proof (induction infos arbitrary: c i fs)
  case (Cons info infos)
  let ?c = "c\<lparr>dc_std_dev_mean := (dc_std_dev_mean c)[i := ci_capture_mean info]\<rparr>"
  let ?c' = "if ci_capture_mean info then ?c\<lparr>dc_std_dev_mean_count := Suc (dc_std_dev_mean_count c)\<rparr> else ?c"
  have "take (Suc i) (dc_std_dev_mean ?c') = fs @ [ci_capture_mean info]"
    using Cons.prems by (simp add: take_update_append)
  with Cons.IH [of "Suc i" ?c' "fs @ [ci_capture_mean info]"] Cons.prems show ?case
    by (auto simp: arr_set_def Let_def)
next
  case Nil
  then show ?case by (intro exI [of _ "dc_std_dev_mean c"]) simp
qed

text \<open>The capture state that describes the layout.\<close>

definition place :: "u32 list \<Rightarrow> 'd capture_info list \<Rightarrow> 'd capture_info list \<Rightarrow> field_group" where
  "place ws before infos = \<lparr>fg_index = length ws, fg_count = length infos, fg_scaling = length before\<rparr>"

definition place_groups :: "'d captured_fields \<Rightarrow> 'd scaling list \<Rightarrow> 'd data_capture \<Rightarrow> 'd data_capture" where
  "place_groups flds scaling c =
     (let ws0 = hidden_words flds; ws1 = ws0 @ words_of 1 (cf_unscaled flds);
          ws2 = ws1 @ words_of 1 (cf_scaled32 flds); ws3 = ws2 @ words_of 2 (cf_scaled64 flds);
          ws4 = ws3 @ words_of 2 (cf_averaged flds) in
      c\<lparr>dc_unscaled := place ws0 [] (cf_unscaled flds),
        dc_scaled32 := place ws1 [] (cf_scaled32 flds), dc_scaled64 := place ws2 (cf_scaled32 flds) (cf_scaled64 flds),
        dc_averaged := place ws3 (cf_scaled32 flds @ cf_scaled64 flds) (cf_averaged flds),
        dc_std_dev := place ws4 (cf_scaled32 flds @ cf_scaled64 flds @ cf_averaged flds) (cf_std_dev flds),
        dc_scaling := scaling\<rparr>)"

definition captures :: "'d captured_fields \<Rightarrow> 'd data_capture \<Rightarrow> 'd data_capture \<Rightarrow> bool" where
  "captures flds old c =
     (dc_raw_sample_words c = length (sample_layout flds) \<and>
      dc_sample_count_anonymous c = (needs_samples flds \<and> sample_position flds = None) \<and>
      dc_sample_count_index c =
        (if needs_samples flds
         then case sample_position flds of None \<Rightarrow> 0 | Some i \<Rightarrow> length (cf_unscaled flds) + i
         else dc_sample_count_index old) \<and>
      c = place_groups flds (dc_scaling c) c \<and>
      length (dc_scaling c) = MAX_CAPTURE_COUNT \<and>
      take (length (scaled_fields flds)) (dc_scaling c) = map scaling_of (scaled_fields flds) \<and>
      length (dc_std_dev_mean c) = MAX_CAPTURE_COUNT \<and>
      take (length (cf_std_dev flds)) (dc_std_dev_mean c) = map ci_capture_mean (cf_std_dev flds) \<and>
      dc_std_dev_mean_count c = length (filter ci_capture_mean (cf_std_dev flds)))"

lemma gathered_start:
  assumes "gathered g [] []" "wf_fields flds" "length (sample_layout flds) \<le> MAX_CAPTURE_COUNT"
  shows "\<exists>g'. (if length (cf_averaged flds) > 0 \<or> length (cf_std_dev flds) > 0 then ensure_sample_count flds g
               else Some (False, g)) = Some (needs_samples flds \<and> sample_position flds = None, g') \<and>
    gathered g' (hidden_words flds) [] \<and>
    ga_capture g' = (ga_capture g)\<lparr>dc_sample_count_index :=
      (if needs_samples flds then case sample_position flds of None \<Rightarrow> 0 | Some i \<Rightarrow> length (cf_unscaled flds) + i
       else dc_sample_count_index (ga_capture g))\<rparr>"
proof (cases "needs_samples flds")
  case False
  with assms(1) show ?thesis by (auto simp: needs_samples_def hidden_words_def)
next
  case True
  then have use: "length (cf_averaged flds) > 0 \<or> length (cf_std_dev flds) > 0" by (auto simp: needs_samples_def)
  show ?thesis
  proof (cases "sample_position flds")
    case (Some i)
    with use True assms(1) show ?thesis
      by (simp add: ensure_sample_count_def sample_position_def gathered_def hidden_words_def)
  next
    case None
    have "wf_info (cf_sample_count flds)" "length ([] :: u32 list) + 1 \<le> MAX_CAPTURE_COUNT"
      using assms(2) by (simp_all add: wf_fields_def MAX_CAPTURE_COUNT_def MAX_POS_OUT_CAPTURE_def POS_BUS_COUNT_def)
    from emit_capture_gathered [OF assms(1) this(1) _ this(2), of False]
    obtain g1 where g1: "emit_capture g (cf_sample_count flds) 1 False = Some (g1, 0)"
      "gathered g1 (index_words 1 (cf_sample_count flds)) []" "only_scaling (ga_capture g) (ga_capture g1)" by auto
    have "ga_capture g1 = ga_capture g" using g1(1)
      by (auto simp: emit_capture_def Let_def split: bind_splits)
    with g1 use True None show ?thesis
      by (simp add: ensure_sample_count_def sample_position_def gathered_def hidden_words_def)
  qed
qed

text \<open>The five groups, from the state left by the search for the sample count.\<close>

lemma prepare_groups:
  assumes "wf_fields flds" "length (sample_layout flds) \<le> MAX_CAPTURE_COUNT" "length (scaled_fields flds) \<le> MAX_CAPTURE_COUNT"
    "gathered g (hidden_words flds) []"
  obtains g1 g2 g3 g4 g5 where
    "prepare_output_group g (cf_unscaled flds) (\<lambda>x. dc_unscaled_update (\<lambda>_. x)) 1 False = Some g1"
    "prepare_output_group g1 (cf_scaled32 flds) (\<lambda>x. dc_scaled32_update (\<lambda>_. x)) 1 True = Some g2"
    "prepare_output_group g2 (cf_scaled64 flds) (\<lambda>x. dc_scaled64_update (\<lambda>_. x)) 2 True = Some g3"
    "prepare_output_group g3 (cf_averaged flds) (\<lambda>x. dc_averaged_update (\<lambda>_. x)) 2 True = Some g4"
    "prepare_output_group g4 (cf_std_dev flds) (\<lambda>x. dc_std_dev_update (\<lambda>_. x)) 5 True = Some g5"
    "gathered g5 (sample_layout flds) (map scaling_of (scaled_fields flds))"
    "ga_capture g5 = place_groups flds (dc_scaling (ga_capture g5)) (ga_capture g)"
proof -
  define ws0 where "ws0 = hidden_words flds"
  define ws1 where "ws1 = ws0 @ words_of 1 (cf_unscaled flds)"
  define ws2 where "ws2 = ws1 @ words_of 1 (cf_scaled32 flds)"
  define ws3 where "ws3 = ws2 @ words_of 2 (cf_scaled64 flds)"
  define ws4 where "ws4 = ws3 @ words_of 2 (cf_averaged flds)"
  have layout: "sample_layout flds = ws4 @ words_of 5 (cf_std_dev flds)"
    by (simp add: sample_layout_def ws0_def ws1_def ws2_def ws3_def ws4_def)
  have wf: "list_all wf_info (cf_unscaled flds)" "list_all wf_info (cf_scaled32 flds)" "list_all wf_info (cf_scaled64 flds)"
    "list_all wf_info (cf_averaged flds)" "list_all wf_info (cf_std_dev flds)"
    using assms(1) by (simp_all add: wf_fields_def scaled_fields_def)
  note lens = wf(1) [THEN length_words_of, of 1] wf(2) [THEN length_words_of, of 1] wf(3) [THEN length_words_of, of 2]
    wf(4) [THEN length_words_of, of 2] wf(5) [THEN length_words_of, of 5]
  have le: "length ws0 + 1 * length (cf_unscaled flds) \<le> MAX_CAPTURE_COUNT"
    "length ws1 + 1 * length (cf_scaled32 flds) \<le> MAX_CAPTURE_COUNT"
    "length ws2 + 2 * length (cf_scaled64 flds) \<le> MAX_CAPTURE_COUNT"
    "length ws3 + 2 * length (cf_averaged flds) \<le> MAX_CAPTURE_COUNT"
    "length ws4 + 5 * length (cf_std_dev flds) \<le> MAX_CAPTURE_COUNT"
    using assms(2) lens unfolding layout by (simp_all add: ws1_def ws2_def ws3_def ws4_def)
  note keep = keeps_arrays_def [where 'd = 'a, THEN iffD2]
  obtain g1 where g1: "prepare_output_group g (cf_unscaled flds) (\<lambda>x. dc_unscaled_update (\<lambda>_. x)) 1 False = Some g1"
    "gathered g1 ws1 []" "only_scaling ((ga_capture g)\<lparr>dc_unscaled := place ws0 [] (cf_unscaled flds)\<rparr>) (ga_capture g1)"
    using prepare_output_group_gathered [OF assms(4)[folded ws0_def] wf(1) _ le(1), of False "\<lambda>x. dc_unscaled_update (\<lambda>_. x)"]
    by (auto simp: keep ws1_def place_def)
  obtain g2 where g2: "prepare_output_group g1 (cf_scaled32 flds) (\<lambda>x. dc_scaled32_update (\<lambda>_. x)) 1 True = Some g2"
    "gathered g2 ws2 (map scaling_of (cf_scaled32 flds))"
    "only_scaling ((ga_capture g1)\<lparr>dc_scaled32 := place ws1 [] (cf_scaled32 flds)\<rparr>) (ga_capture g2)"
    using prepare_output_group_gathered [OF g1(2) wf(2) _ le(2), of True "\<lambda>x. dc_scaled32_update (\<lambda>_. x)"] assms(3)
    by (auto simp: keep ws2_def place_def scaled_fields_def)
  obtain g3 where g3: "prepare_output_group g2 (cf_scaled64 flds) (\<lambda>x. dc_scaled64_update (\<lambda>_. x)) 2 True = Some g3"
    "gathered g3 ws3 (map scaling_of (cf_scaled32 flds @ cf_scaled64 flds))"
    "only_scaling ((ga_capture g2)\<lparr>dc_scaled64 := place ws2 (cf_scaled32 flds) (cf_scaled64 flds)\<rparr>) (ga_capture g3)"
    using prepare_output_group_gathered [OF g2(2) wf(3) _ le(3), of True "\<lambda>x. dc_scaled64_update (\<lambda>_. x)"] assms(3)
    by (auto simp: keep ws3_def place_def scaled_fields_def)
  obtain g4 where g4: "prepare_output_group g3 (cf_averaged flds) (\<lambda>x. dc_averaged_update (\<lambda>_. x)) 2 True = Some g4"
    "gathered g4 ws4 (map scaling_of (cf_scaled32 flds @ cf_scaled64 flds @ cf_averaged flds))"
    "only_scaling ((ga_capture g3)\<lparr>dc_averaged := place ws3 (cf_scaled32 flds @ cf_scaled64 flds) (cf_averaged flds)\<rparr>) (ga_capture g4)"
    using prepare_output_group_gathered [OF g3(2) wf(4) _ le(4), of True "\<lambda>x. dc_averaged_update (\<lambda>_. x)"] assms(3)
    by (auto simp: keep ws4_def place_def scaled_fields_def)
  obtain g5 where g5: "prepare_output_group g4 (cf_std_dev flds) (\<lambda>x. dc_std_dev_update (\<lambda>_. x)) 5 True = Some g5"
    "gathered g5 (sample_layout flds) (map scaling_of (scaled_fields flds))"
    "only_scaling ((ga_capture g4)\<lparr>dc_std_dev := place ws4 (cf_scaled32 flds @ cf_scaled64 flds @ cf_averaged flds) (cf_std_dev flds)\<rparr>) (ga_capture g5)"
    using prepare_output_group_gathered [OF g4(2) wf(5) _ le(5), of True "\<lambda>x. dc_std_dev_update (\<lambda>_. x)"] assms(3)
    by (auto simp: keep layout place_def scaled_fields_def)
  show thesis
  proof (rule that [OF g1(1) g2(1) g3(1) g4(1) g5(1,2)])
    show "ga_capture g5 = place_groups flds (dc_scaling (ga_capture g5)) (ga_capture g)"
      using g1(3) g2(3) g3(3) g4(3) g5(3)
      unfolding only_scaling_def place_groups_def Let_def ws0_def [symmetric] ws1_def [symmetric] ws2_def [symmetric]
        ws3_def [symmetric] ws4_def [symmetric]
      by (cases "ga_capture g"; cases "ga_capture g1"; cases "ga_capture g2"; cases "ga_capture g3"; cases "ga_capture g4"; cases "ga_capture g5") simp
  qed
qed

lemma gather_data_capture_layout:
  assumes "wf_fields flds" "length (sample_layout flds) \<le> MAX_CAPTURE_COUNT" "length (scaled_fields flds) \<le> MAX_CAPTURE_COUNT"
    "length arr = MAX_CAPTURE_COUNT" "length (dc_scaling old) = MAX_CAPTURE_COUNT" "length (dc_std_dev_mean old) = MAX_CAPTURE_COUNT"
  shows "\<exists>c arr'. gather_data_capture flds old arr = Some (c, length (sample_layout flds), arr') \<and>
    take (length (sample_layout flds)) arr' = sample_layout flds \<and> captures flds old c"
proof -
  let ?g = "\<lparr>ga_capture = old, ga_scaling_count = 0, ga_capture_count = 0, ga_capture_array = arr\<rparr>"
  let ?anon = "needs_samples flds \<and> sample_position flds = None"
  have "gathered ?g [] []" using assms(4-6) by (simp add: gathered_def)
  from gathered_start [OF this assms(1,2)] obtain g0 where g0:
    "(if length (cf_averaged flds) > 0 \<or> length (cf_std_dev flds) > 0 then ensure_sample_count flds ?g
      else Some (False, ?g)) = Some (?anon, g0)" "gathered g0 (hidden_words flds) []"
    "ga_capture g0 = old\<lparr>dc_sample_count_index :=
      (if needs_samples flds then case sample_position flds of None \<Rightarrow> 0 | Some i \<Rightarrow> length (cf_unscaled flds) + i
       else dc_sample_count_index old)\<rparr>"
    by (auto simp del: length_greater_0_conv)
  let ?g0 = "g0\<lparr>ga_capture := (ga_capture g0)\<lparr>dc_sample_count_anonymous := ?anon\<rparr>\<rparr>"
  have "gathered ?g0 (hidden_words flds) []" using g0(2) by (simp add: gathered_def)
  from prepare_groups [OF assms(1-3) this] obtain g1 g2 g3 g4 g5 where g:
    "prepare_output_group ?g0 (cf_unscaled flds) (\<lambda>x. dc_unscaled_update (\<lambda>_. x)) 1 False = Some g1"
    "prepare_output_group g1 (cf_scaled32 flds) (\<lambda>x. dc_scaled32_update (\<lambda>_. x)) 1 True = Some g2"
    "prepare_output_group g2 (cf_scaled64 flds) (\<lambda>x. dc_scaled64_update (\<lambda>_. x)) 2 True = Some g3"
    "prepare_output_group g3 (cf_averaged flds) (\<lambda>x. dc_averaged_update (\<lambda>_. x)) 2 True = Some g4"
    "prepare_output_group g4 (cf_std_dev flds) (\<lambda>x. dc_std_dev_update (\<lambda>_. x)) 5 True = Some g5"
    and g5: "gathered g5 (sample_layout flds) (map scaling_of (scaled_fields flds))" 
    and eq: "ga_capture g5 = place_groups flds (dc_scaling (ga_capture g5)) (ga_capture ?g0)" .
  obtain flags where flags: "prepare_stddev_flags (cf_std_dev flds) (ga_capture g5) =
      Some ((ga_capture g5)\<lparr>dc_std_dev_mean := flags, dc_std_dev_mean_count := length (filter ci_capture_mean (cf_std_dev flds))\<rparr>)"
    "length flags = MAX_CAPTURE_COUNT" "take (length (cf_std_dev flds)) flags = map ci_capture_mean (cf_std_dev flds)"
    using stddev_flags_take [of 0 "(ga_capture g5)\<lparr>dc_std_dev_mean_count := 0\<rparr>" "[]" "cf_std_dev flds"] g5 assms(3)
    by (auto simp: prepare_stddev_flags_def gathered_def scaled_fields_def)
  let ?c = "(ga_capture g5)\<lparr>dc_std_dev_mean := flags,
    dc_std_dev_mean_count := length (filter ci_capture_mean (cf_std_dev flds)), dc_raw_sample_words := length (sample_layout flds)\<rparr>"
  have count: "ga_capture_count g5 = length (sample_layout flds)" using g5 by (simp add: gathered_def)
  have "gather_data_capture flds old arr = Some (?c, length (sample_layout flds), ga_capture_array g5)"
    unfolding gather_data_capture_def Let_def g0(1) by (simp only: bind.bind_lunit prod.case g flags(1) count)
  moreover have "captures flds old ?c"
    using eq g0(3) g5 flags(2,3) by (cases "ga_capture g5") (simp add: captures_def gathered_def place_groups_def Let_def)
  ultimately show ?thesis using g5 by (auto simp: gathered_def)
qed

section \<open>The converted values\<close>

text \<open>The value of a field for the state \<open>bus\<close> of the capture buses, from the definition of its capture mode.\<close>

definition bus_word :: "(u32 \<Rightarrow> u32) \<Rightarrow> 'd capture_info \<Rightarrow> nat \<Rightarrow> u32" where
  "bus_word bus info k = bus (ci_capture_index info ! k)"

definition bus_int64 :: "(u32 \<Rightarrow> u32) \<Rightarrow> 'd capture_info \<Rightarrow> u64" where
  "bus_int64 bus info = join (bus_word bus info 1) (bus_word bus info 0)"

definition linear :: "'d capture_ops \<Rightarrow> 'd capture_info \<Rightarrow> int \<Rightarrow> 'd" where
  "linear ops info x = d_add ops (d_mul ops (ci_scale info) (d_of_int ops x)) (ci_offset info)"

definition deviation :: "'d capture_ops \<Rightarrow> u32 \<Rightarrow> (u32 \<Rightarrow> u32) \<Rightarrow> 'd capture_info \<Rightarrow> 'd" where
  "deviation ops samples bus info =
     d_mul ops (ci_scale info) (compute_standard_deviation (double_ops.truncate ops) samples (bus_int64 bus info)
       \<lparr>w0 = bus_word bus info 2, w1 = bus_word bus info 3, w2 = bus_word bus info 4\<rparr>)"

definition expected_row :: "'d capture_ops \<Rightarrow> 'd captured_fields \<Rightarrow> (u32 \<Rightarrow> u32) \<Rightarrow> 'd item list" where
  "expected_row ops flds bus =
     (let samples = bus_word bus (cf_sample_count flds) 0;
          mean = (\<lambda>info. compute_mean ops samples (scaling_of info) (bus_int64 bus info)) in
      map (\<lambda>info. Word32 (bus_word bus info 0)) (cf_unscaled flds) @
      map Double
        (map (\<lambda>info. linear ops info (sint (bus_word bus info 0))) (cf_scaled32 flds) @
         map (\<lambda>info. linear ops info (sint (bus_int64 bus info))) (cf_scaled64 flds) @
         map mean (cf_averaged flds) @
         concat (map (\<lambda>info. (if ci_capture_mean info then [mean info] else []) @ [deviation ops samples bus info])
           (cf_std_dev flds))))"

lemma for_each_map: "(\<And>i. i < length xs \<Longrightarrow> f i = Some (g (xs ! i))) \<Longrightarrow> for_each (length xs) f = Some (map g xs)"
proof -
  assume f: "\<And>i. i < length xs \<Longrightarrow> f i = Some (g (xs ! i))"
  have "those (map (\<lambda>i. Some (h i)) is) = Some (map h is)" for h :: "nat \<Rightarrow> 'b" and "is"
    by (induction "is") simp_all
  moreover have "map f [0..<length xs] = map (\<lambda>i. Some (g (xs ! i))) [0..<length xs]" using f by simp
  moreover have "map (\<lambda>i. g (xs ! i)) [0..<length xs] = map g xs" by (rule nth_equalityI) simp_all
  ultimately show ?thesis by (simp only: for_each_def)
qed

lemma nth_words_of:
  "list_all wf_info infos \<Longrightarrow> n \<le> 5 \<Longrightarrow> i < length infos \<Longrightarrow> k < n \<Longrightarrow>
   words_of n infos ! (n * i + k) = ci_capture_index (infos ! i) ! k"
proof (induction infos arbitrary: i)
  case (Cons info infos)
  have len: "length (index_words n info) = n" using Cons.prems by (simp add: length_index_words)
  show ?case
  proof (cases i)
    case 0
    with Cons.prems len show ?thesis by (simp add: words_of_def nth_append index_words_def)
  next
    case (Suc j)
    with Cons len show ?thesis by (simp add: words_of_def nth_append)
  qed
qed simp

lemma arr_get_group:
  assumes "list_all wf_info infos" "n \<le> 5" "i < length infos" "k < n"
  shows "arr_get (map bus (pre @ words_of n infos @ post) @ rest) (length pre + n * i + k) = Some (bus_word bus (infos ! i) k)"
proof -
  have "n * i + k < n * Suc i" using assms(4) by simp
  also have "\<dots> \<le> n * length infos" using assms(3) by (intro mult_le_mono2) simp
  finally have "n * i + k < n * length infos" .
  then show ?thesis
    using length_words_of [OF assms(1,2)] nth_words_of [OF assms]
    by (simp add: arr_get_def nth_append bus_word_def add.assoc)
qed

lemma arr_get_index:
  assumes "j = length pre + n * i + k" "list_all wf_info infos" "n \<le> 5" "i < length infos" "k < n"
    "raw = map bus (pre @ words_of n infos @ post) @ rest"
  shows "arr_get raw j = Some (bus_word bus (infos ! i) k)"
  using arr_get_group [OF assms(2-5)] by (simp add: assms(1,6))

lemma arr_get_scaling:
  assumes "take (length (b @ infos @ a)) ss = map scaling_of (b @ infos @ a)" "i < length infos"
  shows "arr_get ss (length b + i) = Some (scaling_of (infos ! i))"
proof -
  have "length b + i < length (take (length (b @ infos @ a)) ss)" using assms by simp
  then have "arr_get ss (length b + i) = Some (take (length (b @ infos @ a)) ss ! (length b + i))"
    by (simp add: arr_get_def)
  then show ?thesis unfolding assms(1) using assms(2) by (simp add: nth_append)
qed

lemma find_index_Some:
  "find_index x infos i = Some j \<Longrightarrow> i \<le> j \<and> j < i + length infos \<and> ci_capture_index (infos ! (j - i)) ! 0 = x"
proof (induction infos arbitrary: i)
  case (Cons info infos)
  show ?case
  proof (cases "ci_capture_index info ! 0 = x")
    case False
    then have "find_index x infos (Suc i) = Some j" using Cons.prems by simp
    from Cons.IH [OF this] show ?thesis by (auto simp: nth_Cons' Suc_diff_le)
  qed (use Cons.prems in auto)
qed simp

text \<open>Each converter on the raw data of one sample.\<close>

lemma wf_fields_groups:
  assumes "wf_fields flds"
  shows "list_all wf_info (cf_unscaled flds)" "list_all wf_info (cf_scaled32 flds)" "list_all wf_info (cf_scaled64 flds)"
    "list_all wf_info (cf_averaged flds)" "list_all wf_info (cf_std_dev flds)"
  using assms by (simp_all add: wf_fields_def scaled_fields_def)

lemma captures_groups:
  assumes "captures flds old c"
  shows "dc_unscaled c = place (hidden_words flds) [] (cf_unscaled flds)"
    "dc_scaled32 c = place (hidden_words flds @ words_of 1 (cf_unscaled flds)) [] (cf_scaled32 flds)"
    "dc_scaled64 c = place (hidden_words flds @ words_of 1 (cf_unscaled flds) @ words_of 1 (cf_scaled32 flds))
       (cf_scaled32 flds) (cf_scaled64 flds)"
    "dc_averaged c = place (hidden_words flds @ words_of 1 (cf_unscaled flds) @ words_of 1 (cf_scaled32 flds) @
       words_of 2 (cf_scaled64 flds)) (cf_scaled32 flds @ cf_scaled64 flds) (cf_averaged flds)"
    "dc_std_dev c = place (hidden_words flds @ words_of 1 (cf_unscaled flds) @ words_of 1 (cf_scaled32 flds) @
       words_of 2 (cf_scaled64 flds) @ words_of 2 (cf_averaged flds))
       (cf_scaled32 flds @ cf_scaled64 flds @ cf_averaged flds) (cf_std_dev flds)"
proof -
  have "c = place_groups flds (dc_scaling c) c" using assms by (simp add: captures_def)
  from this [THEN arg_cong, of dc_unscaled] this [THEN arg_cong, of dc_scaled32] this [THEN arg_cong, of dc_scaled64]
    this [THEN arg_cong, of dc_averaged] this [THEN arg_cong, of dc_std_dev]
  show "dc_unscaled c = place (hidden_words flds) [] (cf_unscaled flds)"
    "dc_scaled32 c = place (hidden_words flds @ words_of 1 (cf_unscaled flds)) [] (cf_scaled32 flds)"
    "dc_scaled64 c = place (hidden_words flds @ words_of 1 (cf_unscaled flds) @ words_of 1 (cf_scaled32 flds))
       (cf_scaled32 flds) (cf_scaled64 flds)"
    "dc_averaged c = place (hidden_words flds @ words_of 1 (cf_unscaled flds) @ words_of 1 (cf_scaled32 flds) @
       words_of 2 (cf_scaled64 flds)) (cf_scaled32 flds @ cf_scaled64 flds) (cf_averaged flds)"
    "dc_std_dev c = place (hidden_words flds @ words_of 1 (cf_unscaled flds) @ words_of 1 (cf_scaled32 flds) @
       words_of 2 (cf_scaled64 flds) @ words_of 2 (cf_averaged flds))
       (cf_scaled32 flds @ cf_scaled64 flds @ cf_averaged flds) (cf_std_dev flds)"
    by (simp_all add: place_groups_def Let_def)
qed

lemma captures_scaling:
  assumes "captures flds old c"
  shows "i < length (cf_scaled32 flds) \<Longrightarrow> arr_get (dc_scaling c) i = Some (scaling_of (cf_scaled32 flds ! i))"
    "i < length (cf_scaled64 flds) \<Longrightarrow>
       arr_get (dc_scaling c) (length (cf_scaled32 flds) + i) = Some (scaling_of (cf_scaled64 flds ! i))"
    "i < length (cf_averaged flds) \<Longrightarrow>
       arr_get (dc_scaling c) (length (cf_scaled32 flds @ cf_scaled64 flds) + i) = Some (scaling_of (cf_averaged flds ! i))"
    "i < length (cf_std_dev flds) \<Longrightarrow>
       arr_get (dc_scaling c) (length (cf_scaled32 flds @ cf_scaled64 flds @ cf_averaged flds) + i) =
         Some (scaling_of (cf_std_dev flds ! i))"
proof -
  have s: "take (length (scaled_fields flds)) (dc_scaling c) = map scaling_of (scaled_fields flds)"
    using assms by (simp add: captures_def)
  note get = arr_get_scaling [where ss = "dc_scaling c" and i = i]
  show "i < length (cf_scaled32 flds) \<Longrightarrow> arr_get (dc_scaling c) i = Some (scaling_of (cf_scaled32 flds ! i))"
    using get [of "[]" "cf_scaled32 flds" "cf_scaled64 flds @ cf_averaged flds @ cf_std_dev flds"] s
    by (simp add: scaled_fields_def)
  show "i < length (cf_scaled64 flds) \<Longrightarrow>
       arr_get (dc_scaling c) (length (cf_scaled32 flds) + i) = Some (scaling_of (cf_scaled64 flds ! i))"
    using get [of "cf_scaled32 flds" "cf_scaled64 flds" "cf_averaged flds @ cf_std_dev flds"] s
    by (simp add: scaled_fields_def)
  show "i < length (cf_averaged flds) \<Longrightarrow>
       arr_get (dc_scaling c) (length (cf_scaled32 flds @ cf_scaled64 flds) + i) = Some (scaling_of (cf_averaged flds ! i))"
    using get [of "cf_scaled32 flds @ cf_scaled64 flds" "cf_averaged flds" "cf_std_dev flds"] s
    by (simp add: scaled_fields_def)
  show "i < length (cf_std_dev flds) \<Longrightarrow>
       arr_get (dc_scaling c) (length (cf_scaled32 flds @ cf_scaled64 flds @ cf_averaged flds) + i) =
         Some (scaling_of (cf_std_dev flds ! i))"
    using get [of "cf_scaled32 flds @ cf_scaled64 flds @ cf_averaged flds" "cf_std_dev flds" "[]"] s
    by (simp add: scaled_fields_def)
qed

lemma read_int64_group:
  assumes "raw = map bus (pre @ words_of n infos @ post) @ rest" "list_all wf_info infos" "2 \<le> n" "n \<le> 5" "i < length infos"
  shows "read_int64 raw (length pre + n * i) = Some (bus_int64 bus (infos ! i))"
  using arr_get_index [OF _ assms(2,4,5) _ assms(1), of "length pre + n * i" 0]
    arr_get_index [OF _ assms(2,4,5) _ assms(1), of "length pre + n * i + 1" 1] assms(3)
  by (simp add: read_int64_def bus_int64_def)

lemma read_uint96_group:
  assumes "raw = map bus (pre @ words_of 5 infos @ post) @ rest" "list_all wf_info infos" "i < length infos"
  shows "read_uint96 raw (length pre + 5 * i + 2) =
    Some \<lparr>w0 = bus_word bus (infos ! i) 2, w1 = bus_word bus (infos ! i) 3, w2 = bus_word bus (infos ! i) 4\<rparr>"
  using arr_get_index [OF _ assms(2) _ assms(3) _ assms(1), of "length pre + 5 * i + 2" 2]
    arr_get_index [OF _ assms(2) _ assms(3) _ assms(1), of "length pre + 5 * i + 3" 3]
    arr_get_index [OF _ assms(2) _ assms(3) _ assms(1), of "length pre + 5 * i + 4" 4]
  by (simp add: read_uint96_def numeral_eq_Suc)

lemma sample_count_read:
  assumes "wf_fields flds" "captures flds old c" "raw = map bus (sample_layout flds) @ rest" "needs_samples flds"
  shows "arr_get raw (dc_sample_count_index c) = Some (bus_word bus (cf_sample_count flds) 0)"
proof (cases "sample_position flds")
  case None
  have "wf_info (cf_sample_count flds)" using assms(1) by (simp add: wf_fields_def)
  then have "raw = map bus ([] @ words_of 1 [cf_sample_count flds] @ tl (sample_layout flds)) @ rest"
    using None assms(3,4) length_index_words [of "cf_sample_count flds" 1]
    by (cases "index_words 1 (cf_sample_count flds)") (simp_all add: sample_layout_def hidden_words_def words_of_def)
  from arr_get_index [OF _ _ _ _ _ this, of 0 0 0] None assms(1,2,4) show ?thesis
    by (simp add: captures_def wf_fields_def)
next
  case (Some i)
  then have i: "i < length (cf_scaled32 flds)" "ci_capture_index (cf_scaled32 flds ! i) ! 0 = ci_capture_index (cf_sample_count flds) ! 0"
    using find_index_Some by (fastforce simp: sample_position_def)+
  have raw: "raw = map bus (words_of 1 (cf_unscaled flds) @ words_of 1 (cf_scaled32 flds) @
      words_of 2 (cf_scaled64 flds) @ words_of 2 (cf_averaged flds) @ words_of 5 (cf_std_dev flds)) @ rest"
    using Some assms(3) by (simp add: sample_layout_def hidden_words_def)
  have "dc_sample_count_index c = length (words_of 1 (cf_unscaled flds)) + 1 * i + 0"
    using Some assms(2,4) length_words_of [OF wf_fields_groups(1) [OF assms(1)], of 1] by (simp add: captures_def)
  from arr_get_index [OF this wf_fields_groups(2) [OF assms(1)] _ i(1) _ raw] i(2) show ?thesis
    by (simp add: bus_word_def)
qed

lemma convert_unscaled:
  assumes "wf_fields flds" "captures flds old c" "raw = map bus (sample_layout flds) @ rest"
  shows "copy_unscaled_fields (dc_unscaled c) raw = Some (map (\<lambda>info. bus_word bus info 0) (cf_unscaled flds))"
proof -
  have raw: "raw = map bus (hidden_words flds @ words_of 1 (cf_unscaled flds) @ words_of 1 (cf_scaled32 flds) @
      words_of 2 (cf_scaled64 flds) @ words_of 2 (cf_averaged flds) @ words_of 5 (cf_std_dev flds)) @ rest"
    using assms(3) by (simp add: sample_layout_def)
  show ?thesis
    unfolding copy_unscaled_fields_def captures_groups [OF assms(2)] place_def field_group.select_convs
    by (rule for_each_map) (simp add: arr_get_index [OF _ wf_fields_groups(1) [OF assms(1)] _ _ _ raw, where k = 0])
qed

lemma convert_32:
  assumes "wf_fields flds" "captures flds old c" "raw = map bus (sample_layout flds) @ rest"
  shows "convert_scaled32 ops c raw = Some (map (\<lambda>info. linear ops info (sint (bus_word bus info 0))) (cf_scaled32 flds))"
proof -
  have raw: "raw = map bus ((hidden_words flds @ words_of 1 (cf_unscaled flds)) @ words_of 1 (cf_scaled32 flds) @
      words_of 2 (cf_scaled64 flds) @ words_of 2 (cf_averaged flds) @ words_of 5 (cf_std_dev flds)) @ rest"
    using assms(3) by (simp add: sample_layout_def)
  show ?thesis
    unfolding convert_scaled32_def captures_groups [OF assms(2)] place_def field_group.select_convs
    by (rule for_each_map)
      (simp add: arr_get_index [OF _ wf_fields_groups(2) [OF assms(1)] _ _ _ raw, where k = 0]
        captures_scaling [OF assms(2)] linear_def scaling_of_def)
qed

lemma convert_64:
  assumes "wf_fields flds" "captures flds old c" "raw = map bus (sample_layout flds) @ rest"
  shows "convert_scaled64 ops c raw = Some (map (\<lambda>info. linear ops info (sint (bus_int64 bus info))) (cf_scaled64 flds))"
proof -
  have raw: "raw = map bus ((hidden_words flds @ words_of 1 (cf_unscaled flds) @ words_of 1 (cf_scaled32 flds)) @
      words_of 2 (cf_scaled64 flds) @ words_of 2 (cf_averaged flds) @ words_of 5 (cf_std_dev flds)) @ rest"
    using assms(3) by (simp add: sample_layout_def)
  show ?thesis
    unfolding convert_scaled64_def captures_groups [OF assms(2)] place_def field_group.select_convs
    by (rule for_each_map)
      (simp add: read_int64_group [OF raw wf_fields_groups(3) [OF assms(1)], simplified] captures_scaling [OF assms(2)]
        linear_def scaling_of_def)
qed

text \<open>
  The sample count is read also when nothing needs it, at an index then left by an earlier preparation,
  which has to lie in the buffer.
\<close>

definition count_readable :: "'d captured_fields \<Rightarrow> 'd data_capture \<Rightarrow> u32 list \<Rightarrow> bool" where
  "count_readable flds old rest =
     (needs_samples flds \<or> dc_sample_count_index old < length (sample_layout flds) + length rest)"

lemma count_read:
  assumes "wf_fields flds" "captures flds old c" "raw = map bus (sample_layout flds) @ rest" "count_readable flds old rest"
  obtains n where "arr_get raw (dc_sample_count_index c) = Some n" "needs_samples flds \<Longrightarrow> n = bus_word bus (cf_sample_count flds) 0"
proof (cases "needs_samples flds")
  case True
  with that show ?thesis using sample_count_read [OF assms(1-3) True] by blast
next
  case False
  then have "dc_sample_count_index c < length raw" using assms(2-4) by (simp add: captures_def count_readable_def)
  with False show ?thesis by (intro that [of "raw ! dc_sample_count_index c"]) (simp_all add: arr_get_def)
qed

lemma convert_averaged:
  assumes "wf_fields flds" "captures flds old c" "raw = map bus (sample_layout flds) @ rest" "count_readable flds old rest"
  shows "average_scaled_data ops c raw =
    Some (map (\<lambda>info. compute_mean ops (bus_word bus (cf_sample_count flds) 0) (scaling_of info) (bus_int64 bus info)) (cf_averaged flds))"
proof -
  obtain n where n: "arr_get raw (dc_sample_count_index c) = Some n"
    and eq: "needs_samples flds \<Longrightarrow> n = bus_word bus (cf_sample_count flds) 0"
    using count_read [OF assms] by blast
  have raw: "raw = map bus ((hidden_words flds @ words_of 1 (cf_unscaled flds) @ words_of 1 (cf_scaled32 flds) @
      words_of 2 (cf_scaled64 flds)) @ words_of 2 (cf_averaged flds) @ words_of 5 (cf_std_dev flds)) @ rest"
    using assms(3) by (simp add: sample_layout_def)
  have "n = bus_word bus (cf_sample_count flds) 0" if "i < length (cf_averaged flds)" for i
    using that by (intro eq) (auto simp: needs_samples_def)
  then show ?thesis
    unfolding average_scaled_data_def captures_groups [OF assms(2)] place_def field_group.select_convs n bind.bind_lunit
    by (intro for_each_map)
      (simp add: read_int64_group [OF raw wf_fields_groups(4) [OF assms(1)], simplified]
        captures_scaling(3) [OF assms(2), simplified])
qed

lemma convert_deviation:
  assumes "wf_fields flds" "captures flds old c" "raw = map bus (sample_layout flds) @ rest" "count_readable flds old rest"
  shows "convert_standard_deviation ops c raw =
    Some (concat (map (\<lambda>info.
      (if ci_capture_mean info
       then [compute_mean ops (bus_word bus (cf_sample_count flds) 0) (scaling_of info) (bus_int64 bus info)] else []) @
      [deviation ops (bus_word bus (cf_sample_count flds) 0) bus info]) (cf_std_dev flds)))"
proof -
  obtain n where n: "arr_get raw (dc_sample_count_index c) = Some n"
    and eq: "needs_samples flds \<Longrightarrow> n = bus_word bus (cf_sample_count flds) 0"
    using count_read [OF assms] by blast
  have raw: "raw = map bus ((hidden_words flds @ words_of 1 (cf_unscaled flds) @ words_of 1 (cf_scaled32 flds) @
      words_of 2 (cf_scaled64 flds) @ words_of 2 (cf_averaged flds)) @ words_of 5 (cf_std_dev flds) @ []) @ rest"
    using assms(3) by (simp add: sample_layout_def)
  have n_eq: "n = bus_word bus (cf_sample_count flds) 0" if "i < length (cf_std_dev flds)" for i
    using that by (intro eq) (auto simp: needs_samples_def)
  have flag: "arr_get (dc_std_dev_mean c) i = Some (ci_capture_mean (cf_std_dev flds ! i))" if "i < length (cf_std_dev flds)" for i
  proof -
    have t: "take (length (cf_std_dev flds)) (dc_std_dev_mean c) = map ci_capture_mean (cf_std_dev flds)"
      using assms(2) by (simp add: captures_def)
    then have "length (cf_std_dev flds) \<le> length (dc_std_dev_mean c)" by (metis length_map length_take min.cobounded1)
    moreover have "dc_std_dev_mean c ! i = ci_capture_mean (cf_std_dev flds ! i)"
      using that arg_cong [OF t, of "\<lambda>xs. xs ! i"] by simp
    ultimately show ?thesis using that by (simp add: arr_get_def)
  qed
  show ?thesis
    unfolding convert_standard_deviation_def captures_groups [OF assms(2)] place_def field_group.select_convs n bind.bind_lunit
    by (subst for_each_map [where g = "\<lambda>info.
      (if ci_capture_mean info
       then [compute_mean ops (bus_word bus (cf_sample_count flds) 0) (scaling_of info) (bus_int64 bus info)] else []) @
      [deviation ops (bus_word bus (cf_sample_count flds) 0) bus info]"])
      (simp_all add: read_int64_group [OF raw wf_fields_groups(5) [OF assms(1)], simplified]
        read_uint96_group [OF raw wf_fields_groups(5) [OF assms(1)], simplified]
        captures_scaling(4) [OF assms(2), simplified] flag n_eq deviation_def scaling_of_def)
qed

lemma convert_one:
  assumes "wf_fields flds" "captures flds old c" "count_readable flds old rest"
  shows "convert_scaled_data ops c (Suc n) (map bus (sample_layout flds) @ rest) =
    map_option (\<lambda>out. expected_row ops flds bus @ out) (convert_scaled_data ops c n rest)"
proof -
  have "drop (dc_raw_sample_words c) (map bus (sample_layout flds) @ rest) = rest"
    using assms(2) by (simp add: captures_def)
  then show ?thesis
    unfolding convert_scaled_data.simps
      convert_unscaled [OF assms(1,2) refl] convert_32 [OF assms(1,2) refl] convert_64 [OF assms(1,2) refl]
      convert_averaged [OF assms(1,2) refl assms(3)] convert_deviation [OF assms(1,2) refl assms(3)] bind.bind_lunit
    by (cases "convert_scaled_data ops c n rest") (simp_all add: expected_row_def Let_def)
qed

lemma convert_rows:
  assumes "wf_fields flds" "captures flds old c" "count_readable flds old rest"
  shows "convert_scaled_data ops c (length buses) (concat (map (\<lambda>bus. map bus (sample_layout flds)) buses) @ rest) =
    Some (concat (map (expected_row ops flds) buses))"
proof (induction buses)
  case (Cons bus buses)
  let ?rest = "concat (map (\<lambda>bus. map bus (sample_layout flds)) buses) @ rest"
  have "count_readable flds old ?rest" using assms(3) by (auto simp: count_readable_def)
  from convert_one [OF assms(1,2) this, of ops "length buses" bus] Cons.IH show ?case by simp
qed simp

section \<open>The preparation as a whole\<close>

lemma row_bytes:
  "sum_list (map item_bytes (expected_row ops flds bus)) =
     4 * length (cf_unscaled flds) + 8 * (length (scaled_fields flds) + length (filter ci_capture_mean (cf_std_dev flds)))"
proof -
  have words: "sum_list (map item_bytes (map (\<lambda>info. Word32 (f info)) infos)) = 4 * length infos"
    for f :: "'d capture_info \<Rightarrow> u32" and infos by (induction infos) simp_all
  have doubles: "sum_list (map item_bytes (map Double xs)) = 8 * length xs" for xs :: "'d list"
    by (induction xs) simp_all
  have dev: "length (concat (map (\<lambda>info. (if ci_capture_mean info then [m info] else []) @ [d info]) infos)) =
      length infos + length (filter ci_capture_mean infos)" for m d :: "'d capture_info \<Rightarrow> 'd" and infos
    by (induction infos) simp_all
  show ?thesis
    unfolding expected_row_def Let_def map_append sum_list_append words doubles dev length_map
    by (simp add: scaled_fields_def)
qed

lemma length_scaled_fields:
  assumes "wf_fields flds"
  shows "length (scaled_fields flds) \<le> length (sample_layout flds)" "length (cf_unscaled flds) \<le> length (sample_layout flds)"
    "sample_layout flds = [] \<longleftrightarrow> cf_unscaled flds = [] \<and> scaled_fields flds = []"
proof -
  have h: "cf_averaged flds = [] \<Longrightarrow> cf_std_dev flds = [] \<Longrightarrow> hidden_words flds = []"
    by (simp add: hidden_words_def needs_samples_def)
  have len: "length (sample_layout flds) = length (hidden_words flds) + length (cf_unscaled flds) + length (cf_scaled32 flds) +
      2 * length (cf_scaled64 flds) + 2 * length (cf_averaged flds) + 5 * length (cf_std_dev flds)"
    using wf_fields_groups [OF assms] by (simp add: sample_layout_def length_words_of)
  then show "length (scaled_fields flds) \<le> length (sample_layout flds)" "length (cf_unscaled flds) \<le> length (sample_layout flds)"
    by (simp_all add: scaled_fields_def)
  show "sample_layout flds = [] \<longleftrightarrow> cf_unscaled flds = [] \<and> scaled_fields flds = []"
    using len h by (auto simp: scaled_fields_def simp flip: length_0_conv)
qed

text \<open>What is written never goes past the end of the array.\<close>

lemma copy_indices_bound:
  "copy_indices arr i xs = Some arr' \<Longrightarrow> length arr' = length arr \<and> (i \<le> length arr \<longrightarrow> i + length xs \<le> length arr)"
  by (induction xs arbitrary: arr i) (fastforce simp: arr_set_def split: bind_splits if_splits)+

definition in_array :: "nat \<Rightarrow> 'd gather \<Rightarrow> bool" where
  "in_array n g = (ga_capture_count g = n \<and> n \<le> length (ga_capture_array g) \<and> length (ga_capture_array g) = MAX_CAPTURE_COUNT)"

lemma emit_capture_in_array:
  assumes "emit_capture g info k scaled = Some (g', i)" "in_array n g" "wf_info info" "k \<le> 5"
  shows "in_array (n + k) g'"
proof -
  obtain arr where arr: "copy_indices (ga_capture_array g) (ga_capture_count g) (index_words k info) = Some arr"
    using assms(1) by (auto simp: emit_capture_def Let_def split: bind_splits)
  from copy_indices_bound [OF this] assms(2) length_index_words [OF assms(3,4)]
  have "length arr = MAX_CAPTURE_COUNT" "n + k \<le> MAX_CAPTURE_COUNT" by (auto simp: in_array_def)
  moreover have "ga_capture_count g' = n + k" "ga_capture_array g' = arr"
    using assms(1,2) arr by (auto simp: emit_capture_def Let_def in_array_def split: bind_splits if_splits)
  ultimately show ?thesis by (simp add: in_array_def)
qed

lemma emit_group_in_array:
  "emit_group g infos k scaled = Some g' \<Longrightarrow> in_array n g \<Longrightarrow> list_all wf_info infos \<Longrightarrow> k \<le> 5 \<Longrightarrow>
   in_array (n + k * length infos) g'"
proof (induction infos arbitrary: g n)
  case (Cons info infos)
  from Cons.prems(1) obtain g1 i where g1: "emit_capture g info k scaled = Some (g1, i)" "emit_group g1 infos k scaled = Some g'"
    by (auto split: bind_splits)
  have "in_array (n + k) g1" using emit_capture_in_array [OF g1(1) Cons.prems(2)] Cons.prems(3,4) by simp
  from Cons.IH [OF g1(2) this] Cons.prems(3,4) show ?case by (simp add: algebra_simps)
qed simp

lemma prepare_output_group_in_array:
  "prepare_output_group g infos upd k scaled = Some g' \<Longrightarrow> in_array n g \<Longrightarrow> list_all wf_info infos \<Longrightarrow> k \<le> 5 \<Longrightarrow>
   in_array (n + length (words_of k infos)) g'"
  unfolding prepare_output_group_def
  by (subst length_words_of, assumption, assumption, erule emit_group_in_array) (simp_all add: in_array_def)

lemma gather_in_array:
  assumes "gather_data_capture flds old arr = Some (c, n, arr')" "wf_fields flds" "length arr = MAX_CAPTURE_COUNT"
  shows "length (sample_layout flds) \<le> MAX_CAPTURE_COUNT"
proof -
  let ?g = "\<lparr>ga_capture = old, ga_scaling_count = 0, ga_capture_count = 0, ga_capture_array = arr\<rparr>"
  from assms(1) obtain anonymous g0 g1 g2 g3 g4 g5 where g:
    "(if length (cf_averaged flds) > 0 \<or> length (cf_std_dev flds) > 0 then ensure_sample_count flds ?g
      else Some (False, ?g)) = Some (anonymous, g0)"
    "prepare_output_group (g0\<lparr>ga_capture := (ga_capture g0)\<lparr>dc_sample_count_anonymous := anonymous\<rparr>\<rparr>)
       (cf_unscaled flds) (\<lambda>x. dc_unscaled_update (\<lambda>_. x)) 1 False = Some g1"
    "prepare_output_group g1 (cf_scaled32 flds) (\<lambda>x. dc_scaled32_update (\<lambda>_. x)) 1 True = Some g2"
    "prepare_output_group g2 (cf_scaled64 flds) (\<lambda>x. dc_scaled64_update (\<lambda>_. x)) 2 True = Some g3"
    "prepare_output_group g3 (cf_averaged flds) (\<lambda>x. dc_averaged_update (\<lambda>_. x)) 2 True = Some g4"
    "prepare_output_group g4 (cf_std_dev flds) (\<lambda>x. dc_std_dev_update (\<lambda>_. x)) 5 True = Some g5"
    unfolding gather_data_capture_def Let_def by (auto simp del: length_greater_0_conv split: bind_splits)
  have start: "in_array 0 ?g" using assms(3) by (simp add: in_array_def)
  have "in_array (length (hidden_words flds)) g0"
  proof (cases "needs_samples flds \<and> sample_position flds = None")
    case True
    then obtain g0' i where g0': "emit_capture ?g (cf_sample_count flds) 1 False = Some (g0', i)"
      "g0 = g0'\<lparr>ga_capture := (ga_capture g0')\<lparr>dc_sample_count_index := i\<rparr>\<rparr>"
      using g(1) by (auto simp: ensure_sample_count_def sample_position_def needs_samples_def split: bind_splits)
    have wf: "wf_info (cf_sample_count flds)" using assms(2) by (simp add: wf_fields_def)
    from emit_capture_in_array [OF g0'(1) start this] True length_index_words [OF wf, of 1] show ?thesis
      by (simp add: hidden_words_def in_array_def g0'(2))
  next
    case False
    then have "ga_capture_count g0 = 0 \<and> ga_capture_array g0 = arr"
      using g(1) by (auto simp: ensure_sample_count_def sample_position_def needs_samples_def split: if_splits option.splits)
    with False assms(3) show ?thesis by (auto simp: hidden_words_def in_array_def)
  qed
  then have "in_array (length (hidden_words flds)) (g0\<lparr>ga_capture := (ga_capture g0)\<lparr>dc_sample_count_anonymous := anonymous\<rparr>\<rparr>)"
    by (simp add: in_array_def)
  note step = prepare_output_group_in_array [OF _ _ wf_fields_groups(1) [OF assms(2)]]
    prepare_output_group_in_array [OF _ _ wf_fields_groups(2) [OF assms(2)]]
    prepare_output_group_in_array [OF _ _ wf_fields_groups(3) [OF assms(2)]]
    prepare_output_group_in_array [OF _ _ wf_fields_groups(4) [OF assms(2)]]
    prepare_output_group_in_array [OF _ _ wf_fields_groups(5) [OF assms(2)]]
  have "in_array (length (hidden_words flds) + length (words_of 1 (cf_unscaled flds)) + length (words_of 1 (cf_scaled32 flds)) +
    length (words_of 2 (cf_scaled64 flds)) + length (words_of 2 (cf_averaged flds)) + length (words_of 5 (cf_std_dev flds))) g5"
    by (rule step(5) [OF g(6) step(4) [OF g(5) step(3) [OF g(4) step(2) [OF g(3) step(1) [OF g(2)]]]]]) (fact | simp)+
  then show ?thesis by (simp add: in_array_def sample_layout_def)
qed

lemma convert_raw:
  "captures flds old c \<Longrightarrow> for_each (length buses * dc_raw_sample_words c)
     (arr_get (concat (map (\<lambda>bus. map bus (sample_layout flds)) buses) @ rest)) =
   Some (concat (map (\<lambda>bus. map bus (sample_layout flds)) buses))" (is "_ \<Longrightarrow> for_each _ (arr_get (?ws @ rest)) = _")
proof -
  assume "captures flds old c"
  then have len: "length buses * dc_raw_sample_words c = length ?ws"
    by (simp add: captures_def length_concat o_def sum_list_triv)
  have "for_each (length ?ws) (arr_get (?ws @ rest)) = Some (map id ?ws)"
    by (rule for_each_map) (simp add: arr_get_def nth_append del: length_concat)
  then show ?thesis unfolding len by simp
qed

lemma convert_captured:
  assumes "wf_fields flds" "0 < length (sample_layout flds)" "captures flds old c" "count_readable flds old rest"
  shows "\<exists>out len. convert_raw_data_to_binary ops c options (length buses)
          (concat (map (\<lambda>bus. map bus (sample_layout flds)) buses) @ rest) = Some out \<and>
        out = (case do_data_process options of
                 DATA_PROCESS_RAW \<Rightarrow> map Word32 (concat (map (\<lambda>bus. map bus (sample_layout flds)) buses))
               | DATA_PROCESS_SCALED \<Rightarrow> concat (map (expected_row ops flds) buses)) \<and>
        get_binary_sample_length c options = Some len \<and> sum_list (map item_bytes out) = length buses * len"
proof (cases "do_data_process options")
  case DATA_PROCESS_RAW
  have "sum_list (map item_bytes (map (Word32 :: u32 \<Rightarrow> 'a item) ws)) = 4 * length ws" for ws by (induction ws) simp_all
  moreover have "0 < dc_raw_sample_words c" "dc_raw_sample_words c = length (sample_layout flds)"
    using assms(2,3) by (simp_all add: captures_def)
  ultimately show ?thesis using DATA_PROCESS_RAW convert_raw [OF assms(3), of buses rest]
    by (simp add: convert_raw_data_to_binary_def get_binary_sample_length_def get_raw_sample_length_def
        length_concat o_def sum_list_triv del: map_concat)
next
  case DATA_PROCESS_SCALED
  have "fg_count (dc_scaled32 c) + fg_count (dc_scaled64 c) + fg_count (dc_averaged c) + fg_count (dc_std_dev c) =
      length (scaled_fields flds)" "fg_count (dc_unscaled c) = length (cf_unscaled flds)"
    "dc_std_dev_mean_count c = length (filter ci_capture_mean (cf_std_dev flds))"
    "0 < length (cf_unscaled flds) + length (scaled_fields flds)"
    using assms(2,3) length_scaled_fields(3) [OF assms(1)]
    by (simp_all add: captures_groups [OF assms(3)] place_def scaled_fields_def captures_def)
  moreover have "sum_list (map item_bytes (concat (map (expected_row ops flds) buses))) = length buses *
      (4 * length (cf_unscaled flds) + 8 * (length (scaled_fields flds) + length (filter ci_capture_mean (cf_std_dev flds))))"
    by (induction buses) (simp_all add: row_bytes)
  ultimately show ?thesis using DATA_PROCESS_SCALED convert_rows [OF assms(1,3,4), of ops buses]
    by (simp add: convert_raw_data_to_binary_def get_binary_sample_length_def Let_def)
qed

text \<open>
  C4: when between 1 and 63 words are to be captured the preparation succeeds, the hardware is asked for the
  words of the layout in order, and for every number of samples and every value the capture buses then take,
  the conversion of the words that the hardware delivers gives for each sample the specified value of every
  captured field, in the order of the groups (or the words themselves for raw data), and fills exactly the
  announced number of bytes.\<close>

theorem prepared_capture_converts:
  assumes "wf_fields flds" "0 < length (sample_layout flds)" "length (sample_layout flds) < MAX_PCAP_WRITE_COUNT"
    "length stack = MAX_CAPTURE_COUNT" "length (dc_scaling old) = MAX_CAPTURE_COUNT" "length (dc_std_dev_mean old) = MAX_CAPTURE_COUNT"
  shows "\<exists>c. prepare_data_capture dev hdr flds stack old s =
      Some (Inr (), c, fold (\<lambda>w. write_named_register dev hdr (PCAP_WRITE hdr) w) (sample_layout flds)
        (write_named_register dev hdr (PCAP_START_WRITE hdr) 0 s)) \<and>
    get_raw_sample_length c = Some (4 * length (sample_layout flds)) \<and>
    (\<forall>ops options buses rest. count_readable flds old rest \<longrightarrow>
      (\<exists>out len. convert_raw_data_to_binary ops c options (length buses)
          (concat (map (\<lambda>bus. map bus (sample_layout flds)) buses) @ rest) = Some out \<and>
        out = (case do_data_process options of
                 DATA_PROCESS_RAW \<Rightarrow> map Word32 (concat (map (\<lambda>bus. map bus (sample_layout flds)) buses))
               | DATA_PROCESS_SCALED \<Rightarrow> concat (map (expected_row ops flds) buses)) \<and>
        get_binary_sample_length c options = Some len \<and> sum_list (map item_bytes out) = length buses * len))"
proof -
  have max: "length (sample_layout flds) \<le> MAX_CAPTURE_COUNT" "length (scaled_fields flds) \<le> MAX_CAPTURE_COUNT"
    using assms(3) length_scaled_fields(1) [OF assms(1)]
    by (simp_all add: MAX_PCAP_WRITE_COUNT_def MAX_CAPTURE_COUNT_def MAX_POS_OUT_CAPTURE_def POS_BUS_COUNT_def)
  from gather_data_capture_layout [OF assms(1) max assms(4-6)] obtain c arr where c:
    "gather_data_capture flds old stack = Some (c, length (sample_layout flds), arr)"
    "take (length (sample_layout flds)) arr = sample_layout flds" "captures flds old c" by blast
  have prep: "prepare_data_capture dev hdr flds stack old s =
      Some (Inr (), c, fold (\<lambda>w. write_named_register dev hdr (PCAP_WRITE hdr) w) (sample_layout flds)
        (write_named_register dev hdr (PCAP_START_WRITE hdr) 0 s))"
    using assms(2,3) by (simp add: prepare_data_capture_def c(1,2) hw_write_capture_set_def)
  have "get_raw_sample_length c = Some (4 * length (sample_layout flds))"
    using c(3) assms(2) by (simp add: get_raw_sample_length_def captures_def)
  with prep convert_captured [OF assms(1,2) c(3)] show ?thesis by blast
qed

text \<open>
  C19: the outcome of the preparation in terms of the words to capture: none is an error, 64 or more is an
  error, and neither touches the hardware; more than 256 write past the end of the array of indices, before
  any check.\<close>

theorem prepare_data_capture_limits:
  assumes "wf_fields flds" "length stack = MAX_CAPTURE_COUNT" "length (dc_scaling old) = MAX_CAPTURE_COUNT"
    "length (dc_std_dev_mean old) = MAX_CAPTURE_COUNT"
  shows "(sample_layout flds = [] \<longrightarrow>
      (\<exists>c. prepare_data_capture dev hdr flds stack old s = Some (fail ''Nothing configured for capture'', c, s))) \<and>
    (64 \<le> length (sample_layout flds) \<and> length (sample_layout flds) \<le> 256 \<longrightarrow>
      (\<exists>c. prepare_data_capture dev hdr flds stack old s = Some (fail ''Too many captures for PCAP'', c, s))) \<and>
    (256 < length (sample_layout flds) \<longrightarrow> prepare_data_capture dev hdr flds stack old s = None)"
proof (intro conjI impI)
  have max: "MAX_CAPTURE_COUNT = 256"
    by (simp add: MAX_CAPTURE_COUNT_def MAX_POS_OUT_CAPTURE_def POS_BUS_COUNT_def MAX_EXT_OUT_CAPTURE_def EXT_BUS_COUNT_def)
  have gather: "\<exists>c arr. gather_data_capture flds old stack = Some (c, length (sample_layout flds), arr)"
    if "length (sample_layout flds) \<le> 256"
    using gather_data_capture_layout [OF assms(1) _ _ assms(2-4)] length_scaled_fields(1) [OF assms(1)] that max by fastforce
  then show "\<exists>c. prepare_data_capture dev hdr flds stack old s = Some (fail ''Nothing configured for capture'', c, s)"
    if "sample_layout flds = []" using that by (auto simp: prepare_data_capture_def)
  from gather show "\<exists>c. prepare_data_capture dev hdr flds stack old s = Some (fail ''Too many captures for PCAP'', c, s)"
    if "64 \<le> length (sample_layout flds) \<and> length (sample_layout flds) \<le> 256"
    using that by (auto simp: prepare_data_capture_def MAX_PCAP_WRITE_COUNT_def)
  show "prepare_data_capture dev hdr flds stack old s = None" if "256 < length (sample_layout flds)"
  proof -
    have "gather_data_capture flds old stack = None"
      using gather_in_array [OF _ assms(1,2)] that max by (cases "gather_data_capture flds old stack") fastforce+
    then show ?thesis by (simp add: prepare_data_capture_def)
  qed
qed

section \<open>Output in ASCII\<close>

text \<open>
  The calls on the buffered file are listed in the order in which they are made; the results of the single
  calls are not looked at.
\<close>

definition hex_digit_lower :: "nat \<Rightarrow> char" where
  "hex_digit_lower d = (if d < 10 then char_of (48 + d) else char_of (87 + d))"

definition show_hex8_lower :: "u32 \<Rightarrow> string" where
  "show_hex8_lower x = ''0x'' @ map (\<lambda>i. hex_digit_lower (unat (drop_bit (4 * (7 - i)) x AND 0xF))) [0..<8]"

fun FORMAT_ASCII :: "('d item \<Rightarrow> string option) \<Rightarrow> nat \<Rightarrow> 'd item list \<Rightarrow> (file_op list \<times> 'd item list) option" where
  "FORMAT_ASCII fmt 0 data = Some ([], data)"
| "FORMAT_ASCII fmt (Suc n) [] = None"
| "FORMAT_ASCII fmt (Suc n) (x # data) =
     do { t \<leftarrow> fmt x; (calls, data) \<leftarrow> FORMAT_ASCII fmt n data; Some (Write_formatted t # calls, data) }"

definition format_hex :: "'d item \<Rightarrow> string option" where
  "format_hex x = (case x of Word32 w \<Rightarrow> Some (CHR '' '' # show_hex8_lower w) | Double _ \<Rightarrow> None)"

definition format_uint :: "'d item \<Rightarrow> string option" where
  "format_uint x = (case x of Word32 w \<Rightarrow> Some (CHR '' '' # show_u32 w) | Double _ \<Rightarrow> None)"

definition format_real :: "'d capture_ops \<Rightarrow> 'd item \<Rightarrow> string option" where
  "format_real ops x = (case x of Word32 _ \<Rightarrow> None | Double d \<Rightarrow> Some (CHR '' '' # d_show ops d))"

definition send_raw_as_ascii :: "'d data_capture \<Rightarrow> 'd item list \<Rightarrow> (file_op list \<times> 'd item list) option" where
  "send_raw_as_ascii capture data = FORMAT_ASCII format_hex (dc_raw_sample_words capture) data"

definition send_scaled_as_ascii ::
    "'d capture_ops \<Rightarrow> 'd data_capture \<Rightarrow> 'd item list \<Rightarrow> (file_op list \<times> 'd item list) option" where
  "send_scaled_as_ascii ops capture data =
     (let double_count = fg_count (dc_scaled32 capture) + fg_count (dc_scaled64 capture) + fg_count (dc_averaged capture) +
            fg_count (dc_std_dev capture) + dc_std_dev_mean_count capture in
      do { (calls1, data) \<leftarrow> FORMAT_ASCII format_uint (fg_count (dc_unscaled capture)) data;
           (calls2, data) \<leftarrow> FORMAT_ASCII (format_real ops) double_count data;
           Some (calls1 @ calls2, data) })"

fun ascii_rows ::
    "'d capture_ops \<Rightarrow> 'd data_capture \<Rightarrow> data_options \<Rightarrow> nat \<Rightarrow> 'd item list \<Rightarrow> file_op list option" where
  "ascii_rows ops capture options 0 data = Some []"
| "ascii_rows ops capture options (Suc sample_count) data =
     do { (calls, data) \<leftarrow>
            (case do_data_process options of
               DATA_PROCESS_RAW \<Rightarrow> send_raw_as_ascii capture data
             | DATA_PROCESS_SCALED \<Rightarrow> send_scaled_as_ascii ops capture data);
          more \<leftarrow> ascii_rows ops capture options sample_count data;
          Some (calls @ Write_char newline # more) }"

definition send_binary_as_ascii ::
    "'s socket_ops \<Rightarrow> 'd capture_ops \<Rightarrow> 'd data_capture \<Rightarrow> data_options \<Rightarrow> buffered_file \<Rightarrow> nat \<Rightarrow> 'd item list \<Rightarrow> 's
       \<Rightarrow> (bool \<times> buffered_file \<times> 's) option" where
  "send_binary_as_ascii so ops capture options file sample_count data s =
     do { calls \<leftarrow> ascii_rows ops capture options sample_count data;
          (_, file, s) \<leftarrow> run_ops so calls file s;
          Some (check_buffered_file file, file, s) }"

section \<open>What a list of calls writes\<close>

definition calls_text :: "file_op list \<Rightarrow> string" where
  "calls_text calls = concat (map op_text calls)"

lemma calls_text_simps [simp]:
  "calls_text [] = []" "calls_text (call # calls) = op_text call @ calls_text calls" "calls_text (a @ b) = calls_text a @ calls_text b"
  by (simp_all add: calls_text_def)

definition is_write :: "file_op \<Rightarrow> bool" where
  "is_write call = (case call of Read_line _ _ \<Rightarrow> False | _ \<Rightarrow> True)"

text \<open>A file whose buffers are in order unless there is an error.\<close>

definition in_order :: "buffered_file \<Rightarrow> bool" where
  "in_order f = (0 < bf_out_buf_size f \<and> (is_ok (bf_error f) \<longrightarrow> file_inv f))"

lemma error_wrote:
  "\<not> is_ok (bf_error f) \<Longrightarrow> is_write call \<Longrightarrow>
   \<exists>f'. run_op so call f s = Some (None, f', s) \<and> wrote sent incoming f s (op_text call) f' s"
  by (cases call)
    (auto simp: run_op_def void_def is_write_def write_string.simps [of so f] write_char_def wrote_def same_input_def
      write_block_def write_formatted_string_def flush_out_buf_def send_entire_buffer.simps [of so f]
      send_entire_buffer.simps [of so "f\<lparr>bf_out_buf := []\<rparr>"] Let_def)

lemma run_op_wrote:
  assumes "socket_laws so sent incoming" "in_order f" "is_write call" "op_fits f call"
  shows "\<exists>f' s'. run_op so call f s = Some (None, f', s') \<and> wrote sent incoming f s (op_text call) f' s' \<and> in_order f'"
proof (cases "is_ok (bf_error f)")
  case True
  then have inv: "file_inv f" "0 < bf_out_buf_size f" using assms(2) by (auto simp: in_order_def)
  have "\<exists>ok f' s'. run_op so call f s = void (Some (ok, f', s')) \<and> wrote sent incoming f s (op_text call) f' s'"
  proof (cases call)
    case Flush
    with flush_out_buf_wrote [OF assms(1) inv(2), of s] show ?thesis by (fastforce simp: run_op_def op_text_def)
  next
    case (Write_string t)
    with write_string_wrote [OF assms(1) inv(1), of t s] show ?thesis by (fastforce simp: run_op_def op_text_def)
  next
    case (Write_char c)
    with write_char_wrote [OF assms(1) inv(1), of c s] show ?thesis by (fastforce simp: run_op_def op_text_def)
  next
    case (Write_block t)
    with write_block_wrote [OF assms(1) inv(1), of t s] show ?thesis by (fastforce simp: run_op_def op_text_def)
  next
    case (Write_formatted t)
    with write_formatted_string_wrote [OF assms(1) inv(1), of t s] assms(4) show ?thesis
      by (fastforce simp: run_op_def op_text_def op_fits_def)
  qed (use assms(3) in \<open>simp add: is_write_def\<close>)
  then obtain f' s' where w: "run_op so call f s = Some (None, f', s')" "wrote sent incoming f s (op_text call) f' s'"
    by (auto simp: void_def)
  moreover have "in_order f'" using wrote_inv [OF w(2) inv(1)] w(2) inv(2) by (simp add: in_order_def wrote_def same_input_def)
  ultimately show ?thesis by blast
next
  case False
  from error_wrote [OF False assms(3), of so s sent incoming] obtain f' where
    w: "run_op so call f s = Some (None, f', s)" "wrote sent incoming f s (op_text call) f' s" by blast
  moreover have "in_order f'" using w(2) False assms(2) by (simp add: in_order_def wrote_def same_input_def)
  ultimately show ?thesis by blast
qed

lemma run_ops_wrote:
  assumes "socket_laws so sent incoming" "in_order f" "list_all is_write calls" "list_all (op_fits f) calls"
  shows "\<exists>rs f' s'. run_ops so calls f s = Some (rs, f', s') \<and> wrote sent incoming f s (calls_text calls) f' s' \<and> in_order f'"
  using assms(2-4)
proof (induction calls arbitrary: f s)
  case (Cons call calls)
  from run_op_wrote [OF assms(1) Cons.prems(1), of call s] Cons.prems(2,3) obtain f1 s1 where
    1: "run_op so call f s = Some (None, f1, s1)" "wrote sent incoming f s (op_text call) f1 s1" "in_order f1" by auto
  have "op_fits f1 = op_fits f"
    using 1(2) by (auto simp: op_fits_def wrote_def same_input_def fun_eq_iff split: file_op.splits)
  then have "list_all (op_fits f1) calls" using Cons.prems(3) by simp
  from Cons.IH [OF 1(3) _ this, of s1] Cons.prems(2) obtain rs f2 s2 where
    2: "run_ops so calls f1 s1 = Some (rs, f2, s2)" "wrote sent incoming f1 s1 (calls_text calls) f2 s2" "in_order f2" by auto
  from 1(1) 2 wrote_append [OF 1(2) 2(2)] show ?case by simp
qed simp

section \<open>The text of the samples\<close>

definition item_ascii :: "'d capture_ops \<Rightarrow> data_process \<Rightarrow> 'd item \<Rightarrow> string" where
  "item_ascii ops process x =
     CHR '' '' # (case x of
        Word32 w \<Rightarrow> (case process of DATA_PROCESS_RAW \<Rightarrow> show_hex8_lower w | DATA_PROCESS_SCALED \<Rightarrow> show_u32 w)
      | Double d \<Rightarrow> d_show ops d)"

definition row_ascii :: "'d capture_ops \<Rightarrow> data_process \<Rightarrow> 'd item list \<Rightarrow> string" where
  "row_ascii ops process row = concat (map (item_ascii ops process) row) @ [newline]"

definition expected_rows ::
    "'d capture_ops \<Rightarrow> data_process \<Rightarrow> 'd captured_fields \<Rightarrow> (u32 \<Rightarrow> u32) list \<Rightarrow> 'd item list list" where
  "expected_rows ops process flds buses =
     (case process of
        DATA_PROCESS_RAW \<Rightarrow> map (\<lambda>bus. map (\<lambda>w. Word32 (bus w)) (sample_layout flds)) buses
      | DATA_PROCESS_SCALED \<Rightarrow> map (expected_row ops flds) buses)"

lemma FORMAT_ASCII_items:
  "(\<And>x. x \<in> set xs \<Longrightarrow> fmt x = Some (t x)) \<Longrightarrow>
   FORMAT_ASCII fmt (length xs) (xs @ rest) = Some (map (\<lambda>x. Write_formatted (t x)) xs, rest)"
  by (induction xs) simp_all

definition row_calls :: "'d capture_ops \<Rightarrow> data_process \<Rightarrow> 'd item list \<Rightarrow> file_op list" where
  "row_calls ops process row = map (\<lambda>x. Write_formatted (item_ascii ops process x)) row @ [Write_char newline]"

lemma calls_text_row: "calls_text (row_calls ops process row) = row_ascii ops process row"
proof -
  have "calls_text (map (\<lambda>x. Write_formatted (item_ascii ops process x)) row) = concat (map (item_ascii ops process) row)"
    by (induction row) (simp_all add: op_text_def)
  then show ?thesis by (simp add: row_calls_def row_ascii_def op_text_def)
qed

lemma send_scaled_row:
  assumes "captures flds old c"
  shows "send_scaled_as_ascii ops c (expected_row ops flds bus @ rest) =
    Some (map (\<lambda>x. Write_formatted (item_ascii ops DATA_PROCESS_SCALED x)) (expected_row ops flds bus), rest)"
proof -
  let ?ws = "map (\<lambda>info. Word32 (bus_word bus info 0)) (cf_unscaled flds) :: 'a item list"
  define ds where "ds = drop (length (cf_unscaled flds)) (expected_row ops flds bus)"
  have row: "expected_row ops flds bus = ?ws @ ds" by (simp add: ds_def expected_row_def Let_def)
  have ds: "\<exists>d. x = Double d" if "x \<in> set ds" for x
    using that by (auto simp: ds_def expected_row_def Let_def simp del: map_append)
  have dev: "length (concat (map (\<lambda>info. (if ci_capture_mean info then [m info] else []) @ [d info]) infos)) =
      length infos + length (filter ci_capture_mean infos)" for m d :: "'a capture_info \<Rightarrow> 'a" and infos
    by (induction infos) simp_all
  have len: "length ds = length (scaled_fields flds) + length (filter ci_capture_mean (cf_std_dev flds))"
    unfolding ds_def expected_row_def Let_def length_drop length_append length_map dev by (simp add: scaled_fields_def)
  have count: "fg_count (dc_scaled32 c) + fg_count (dc_scaled64 c) + fg_count (dc_averaged c) +
      fg_count (dc_std_dev c) + dc_std_dev_mean_count c = length ds" "fg_count (dc_unscaled c) = length ?ws"
    using assms unfolding len by (simp_all add: captures_groups [OF assms] place_def scaled_fields_def captures_def)
  have 1: "FORMAT_ASCII format_uint (length ?ws) (?ws @ ds @ rest) =
      Some (map (\<lambda>x. Write_formatted (item_ascii ops DATA_PROCESS_SCALED x)) ?ws, ds @ rest)"
    by (rule FORMAT_ASCII_items) (auto simp: format_uint_def item_ascii_def)
  have 2: "FORMAT_ASCII (format_real ops) (length ds) (ds @ rest) =
      Some (map (\<lambda>x. Write_formatted (item_ascii ops DATA_PROCESS_SCALED x)) ds, rest)"
    by (rule FORMAT_ASCII_items) (use ds in \<open>fastforce simp: format_real_def item_ascii_def\<close>)
  show ?thesis unfolding send_scaled_as_ascii_def Let_def count row append_assoc 1 bind.bind_lunit prod.case 2 by simp
qed

lemma send_raw_row:
  fixes ops :: "'d capture_ops" and flds :: "'d captured_fields"
  assumes "captures flds old c"
  shows "send_raw_as_ascii c (map (\<lambda>w. Word32 (bus w)) (sample_layout flds) @ rest) =
    Some (map (\<lambda>x. Write_formatted (item_ascii ops DATA_PROCESS_RAW x)) (map (\<lambda>w. Word32 (bus w)) (sample_layout flds)), rest)"
proof -
  have "dc_raw_sample_words c = length (map (\<lambda>w. Word32 (bus w) :: 'd item) (sample_layout flds))" using assms by (simp add: captures_def)
  note len = this
  show ?thesis unfolding send_raw_as_ascii_def len by (rule FORMAT_ASCII_items, auto simp: format_hex_def item_ascii_def)
qed

lemma ascii_rows_expected:
  assumes "captures flds old c"
  shows "ascii_rows ops c options (length buses) (concat (expected_rows ops (do_data_process options) flds buses)) =
    Some (concat (map (row_calls ops (do_data_process options)) (expected_rows ops (do_data_process options) flds buses)))"
proof (cases "do_data_process options")
  case DATA_PROCESS_RAW
  then show ?thesis
    by (induction buses) (simp_all add: expected_rows_def row_calls_def send_raw_row [OF assms, of _ _ ops])
next
  case DATA_PROCESS_SCALED
  then show ?thesis
    by (induction buses) (simp_all add: expected_rows_def row_calls_def send_scaled_row [OF assms])
qed

lemma calls_text_rows: "calls_text (concat (map (row_calls ops process) rows)) = concat (map (row_ascii ops process) rows)"
  by (induction rows) (simp_all add: calls_text_row)

lemma length_show_hex8_lower: "length (show_hex8_lower x) = 10"
  by (simp add: show_hex8_lower_def)

lemma rows_fit:
  assumes "\<And>d. length (d_show ops d) < 32" "40 \<le> bf_out_buf_size f"
  shows "list_all is_write (concat (map (row_calls ops process) rows))" "list_all (op_fits f) (concat (map (row_calls ops process) rows))"
proof -
  have "length (item_ascii ops process x) < 40" for x
  proof (cases x)
    case (Word32 w)
    with length_show_u32 [of w] show ?thesis by (cases process) (simp_all add: item_ascii_def length_show_hex8_lower)
  next
    case (Double d)
    with assms(1) [of d] show ?thesis by (simp add: item_ascii_def)
  qed
  then have "length (item_ascii ops process x) < bf_out_buf_size f" for x using assms(2) less_le_trans by blast
  then show "list_all is_write (concat (map (row_calls ops process) rows))" "list_all (op_fits f) (concat (map (row_calls ops process) rows))"
    by (auto simp: list_all_iff row_calls_def is_write_def op_fits_def)
qed

lemma prepared_captures:
  assumes "prepare_data_capture dev hdr flds stack old s = Some (Inr (), c, s')" "wf_fields flds" "length stack = MAX_CAPTURE_COUNT"
    "length (dc_scaling old) = MAX_CAPTURE_COUNT" "length (dc_std_dev_mean old) = MAX_CAPTURE_COUNT"
  shows "captures flds old c" "0 < length (sample_layout flds)"
proof -
  from assms(1) obtain n arr where g: "gather_data_capture flds old stack = Some (c, n, arr)" "0 < n"
    by (auto simp: prepare_data_capture_def split: bind_splits if_splits)
  have le: "length (sample_layout flds) \<le> MAX_CAPTURE_COUNT" by (rule gather_in_array [OF g(1) assms(2,3)])
  from gather_data_capture_layout [OF assms(2) le _ assms(3-5)] length_scaled_fields(1) [OF assms(2)] le g
  show "captures flds old c" "0 < length (sample_layout flds)" by auto
qed

text \<open>
  C20: the text sent for the samples.  Once a capture has been prepared, sending the samples in ASCII writes,
  for each sample, a line with the specified value of each field after a blank: words in hexadecimal when
  the data are raw, otherwise unsigned integers and the doubles as \<^verbatim>\<open>%.10g\<close> shows them.\<close>

theorem ascii_output_text:
  assumes "prepare_data_capture dev hdr flds stack old s0 = Some (Inr (), c, s1)" "wf_fields flds"
    "length stack = MAX_CAPTURE_COUNT" "length (dc_scaling old) = MAX_CAPTURE_COUNT" "length (dc_std_dev_mean old) = MAX_CAPTURE_COUNT"
    and "count_readable flds old rest" "process = do_data_process options"
    and "socket_laws so sent incoming" "in_order f" "\<And>d. length (d_show ops d) < 32" "40 \<le> bf_out_buf_size f"
  shows "\<exists>out f' s'.
    convert_raw_data_to_binary ops c options (length buses) (concat (map (\<lambda>bus. map bus (sample_layout flds)) buses) @ rest) = Some out \<and>
    send_binary_as_ascii so ops c options f (length buses) out s = Some (is_ok (bf_error f'), f', s') \<and>
    wrote sent incoming f s (concat (map (row_ascii ops process) (expected_rows ops process flds buses))) f' s'"
proof -
  note c = prepared_captures [OF assms(1-5)]
  let ?rows = "expected_rows ops process flds buses"
  let ?raw = "concat (map (\<lambda>bus. map bus (sample_layout flds)) buses) @ rest"
  have conv: "convert_raw_data_to_binary ops c options (length buses) ?raw = Some (concat ?rows)"
    using convert_captured [OF assms(2) c(2) c(1) assms(6), of ops options buses] unfolding assms(7)
    by (cases "do_data_process options") (auto simp: expected_rows_def map_concat o_def)
  have rows: "ascii_rows ops c options (length buses) (concat ?rows) = Some (concat (map (row_calls ops process) ?rows))"
    unfolding assms(7) by (rule ascii_rows_expected [OF c(1)])
  from run_ops_wrote [OF assms(8,9) rows_fit [OF assms(10,11)], of process ?rows s] obtain rs f' s' where
    "run_ops so (concat (map (row_calls ops process) ?rows)) f s = Some (rs, f', s')"
    "wrote sent incoming f s (concat (map (row_ascii ops process) ?rows)) f' s'"
    unfolding calls_text_rows by blast
  then show ?thesis using conv
    by (intro exI [of _ "concat ?rows"] exI [of _ f'] exI [of _ s'])
      (simp add: send_binary_as_ascii_def rows check_buffered_file_def is_ok_def)
qed

section \<open>A concrete capture\<close>

text \<open>A word of bits, a position with its scaling, and the mean of another position over four samples.\<close>

definition sample_info :: "u32 list \<Rightarrow> capture_mode \<Rightarrow> string \<Rightarrow> int \<Rightarrow> int \<Rightarrow> int capture_info" where
  "sample_info index mode name scale offset =
     \<lparr>ci_capture_index = index, ci_capture_mode = mode, ci_field_name = name, ci_capture_string = ''Value'', ci_scale = scale,
      ci_offset = offset, ci_units = ''mm'', ci_capture_mean = False\<rparr>"

definition sample_captured :: "int captured_fields" where
  "sample_captured =
     \<lparr>cf_sample_count = sample_info [0x210, 0, 0, 0, 0] CAPTURE_MODE_SCALED32 ''PCAP.SAMPLES'' 1 0,
      cf_scaled32 = [sample_info [0x10, 0x10, 0x10, 0x10, 0x10] CAPTURE_MODE_SCALED32 ''INENC1.VAL'' 2 1],
      cf_averaged = [sample_info [0x22, 0x23, 0x20, 0x20, 0x20] CAPTURE_MODE_AVERAGE ''INENC2.VAL'' 1 0],
      cf_std_dev = [], cf_scaled64 = [],
      cf_unscaled = [sample_info [0x220, 0, 0, 0, 0] CAPTURE_MODE_UNSCALED ''PCAP.BITS0'' 0 0]\<rparr>"

definition idle_capture :: "int data_capture" where
  "idle_capture =
     (let g = \<lparr>fg_index = 0, fg_count = 0, fg_scaling = 0\<rparr> in
      \<lparr>dc_raw_sample_words = 0, dc_sample_count_index = 0, dc_sample_count_anonymous = False, dc_unscaled = g, dc_scaled32 = g,
       dc_scaled64 = g, dc_averaged = g, dc_std_dev = g, dc_std_dev_mean = replicate MAX_CAPTURE_COUNT False,
       dc_std_dev_mean_count = 0, dc_scaling = replicate MAX_CAPTURE_COUNT \<lparr>sg_scale = 0, sg_offset = 0\<rparr>\<rparr>)"

definition int_ops :: "int capture_ops" where
  "int_ops = \<lparr>d_of_u32 = uint, d_of_u64 = uint, d_ldexp32 = (\<lambda>x. 2 ^ 32 * x), d_add = (+), d_sub = (-),
     d_div = (div), d_sqrt = id, d_negative = (\<lambda>x. x < 0), d_nan = -1, d_of_int = id, d_mul = (*),
     d_show = (\<lambda>x. if 0 \<le> x then show_base 10 (nat x mod 10) else ''-''),
     d_show12 = (\<lambda>x. show_base 10 (nat x))\<rparr>"

definition sample_bus :: "u32 \<Rightarrow> u32" where
  "sample_bus i = (if i = 0x210 then 4 else if i = 0x220 then 7 else if i = 0x10 then 3 else if i = 0x22 then 20 else 0)"

definition sample_options :: data_options where
  "sample_options = \<lparr>do_data_format = DATA_FORMAT_ASCII, do_data_process = DATA_PROCESS_SCALED, do_omit_header = False,
     do_omit_status = False, do_one_shot = False, do_xml_header = False\<rparr>"

lemma sample_captured_layout: "sample_layout sample_captured = [0x210, 0x220, 0x10, 0x22, 0x23]"
  by code_simp

lemma sample_captured_wf: "wf_fields sample_captured"
  by code_simp

lemma sample_captured_row: "expected_row int_ops sample_captured sample_bus = [Word32 7, Double 7, Double 5]"
  by code_simp

lemma idle_capture_arrays:
  "length (dc_scaling idle_capture) = MAX_CAPTURE_COUNT" "length (dc_std_dev_mean idle_capture) = MAX_CAPTURE_COUNT"
  by (simp_all add: idle_capture_def Let_def)

lemma sample_captured_count: "count_readable sample_captured idle_capture rest"
  by (simp add: count_readable_def needs_samples_def sample_captured_def)

theorem prepared_capture_converts_witness:
  "\<exists>c s. prepare_data_capture memory_device sample_header sample_captured (replicate MAX_CAPTURE_COUNT 0) idle_capture (\<lambda>_. 0) =
      Some (Inr (), c, s) \<and> get_binary_sample_length c sample_options = Some 20 \<and>
    convert_raw_data_to_binary int_ops c sample_options 1 [4, 7, 3, 20, 0] = Some [Word32 7, Double 7, Double 5]"
proof -
  have "0 < length (sample_layout sample_captured)" "length (sample_layout sample_captured) < MAX_PCAP_WRITE_COUNT"
    "length (replicate MAX_CAPTURE_COUNT (0 :: u32)) = MAX_CAPTURE_COUNT"
    by (simp_all add: sample_captured_layout MAX_PCAP_WRITE_COUNT_def)
  from prepared_capture_converts [OF sample_captured_wf this idle_capture_arrays, of memory_device sample_header "\<lambda>_. 0"]
  obtain c s where c: "prepare_data_capture memory_device sample_header sample_captured (replicate MAX_CAPTURE_COUNT 0) idle_capture (\<lambda>_. 0) =
      Some (Inr (), c, s)"
    and conv: "\<And>ops options buses rest. \<exists>out len. convert_raw_data_to_binary ops c options (length buses)
          (concat (map (\<lambda>bus. map bus (sample_layout sample_captured)) buses) @ rest) = Some out \<and>
        out = (case do_data_process options of
                 DATA_PROCESS_RAW \<Rightarrow> map Word32 (concat (map (\<lambda>bus. map bus (sample_layout sample_captured)) buses))
               | DATA_PROCESS_SCALED \<Rightarrow> concat (map (expected_row ops sample_captured) buses)) \<and>
        get_binary_sample_length c options = Some len \<and> sum_list (map item_bytes out) = length buses * len"
    using sample_captured_count by blast
  have "map sample_bus (sample_layout sample_captured) = [4, 7, 3, 20, 0]"
    unfolding sample_captured_layout by code_simp
  with conv [of int_ops sample_options "[sample_bus]" "[]"] c show ?thesis
    by (simp add: sample_options_def sample_captured_row)
qed

definition wide_captured :: "nat \<Rightarrow> int captured_fields" where
  "wide_captured n = sample_captured\<lparr>cf_std_dev := replicate n (sample_info [0x12, 0x13, 0x16, 0x17, 0x18] CAPTURE_MODE_STDDEV ''INENC1.VAL'' 1 0)\<rparr>"

lemma wide_captured_facts: "wf_fields (wide_captured n)" "length (sample_layout (wide_captured n)) = 5 * n + 5"
proof -
  have "hidden_words (wide_captured n) = [0x210]"
    by (simp add: hidden_words_def needs_samples_def sample_position_def wide_captured_def sample_captured_def sample_info_def index_words_def)
  then show "length (sample_layout (wide_captured n)) = 5 * n + 5"
    by (simp add: sample_layout_def words_of_def length_concat wide_captured_def sample_captured_def sample_info_def
        index_words_def sum_list_replicate)
  show "wf_fields (wide_captured n)"
    by (simp add: wf_fields_def wide_captured_def sample_captured_def scaled_fields_def sample_info_def wf_info_def
        CAPTURE_INDEX_SIZE_def list_all_iff)
qed

theorem prepare_data_capture_limits_witness:
  "(\<exists>c. prepare_data_capture memory_device sample_header (wide_captured 12) (replicate MAX_CAPTURE_COUNT 0) idle_capture (\<lambda>_. 0) =
      Some (fail ''Too many captures for PCAP'', c, \<lambda>_. 0)) \<and>
   prepare_data_capture memory_device sample_header (wide_captured 51) (replicate MAX_CAPTURE_COUNT 0) idle_capture (\<lambda>_. 0) = None"
proof -
  have "length (replicate MAX_CAPTURE_COUNT (0 :: u32)) = MAX_CAPTURE_COUNT" by simp
  note limits = prepare_data_capture_limits [OF wide_captured_facts(1) this idle_capture_arrays, of _ memory_device sample_header "\<lambda>_. 0"]
  show ?thesis using limits [of 12] limits [of 51] wide_captured_facts(2) [of 12] wide_captured_facts(2) [of 51] by simp
qed

lemma sample_prepared:
  obtains c s1 where "prepare_data_capture memory_device sample_header sample_captured (replicate MAX_CAPTURE_COUNT 0) idle_capture (\<lambda>_. 0) =
      Some (Inr (), c, s1)"
proof -
  have len: "length (replicate MAX_CAPTURE_COUNT (0 :: u32)) = MAX_CAPTURE_COUNT" by simp
  have max: "length (sample_layout sample_captured) \<le> MAX_CAPTURE_COUNT" "length (scaled_fields sample_captured) \<le> MAX_CAPTURE_COUNT"
    by code_simp+
  from gather_data_capture_layout [OF sample_captured_wf max len idle_capture_arrays] that show thesis
    by (auto simp: prepare_data_capture_def hw_write_capture_set_def MAX_PCAP_WRITE_COUNT_def sample_captured_layout min_less_iff_disj)
qed

theorem ascii_output_text_witness:
  "\<exists>c s1 out f' s'. prepare_data_capture memory_device sample_header sample_captured (replicate MAX_CAPTURE_COUNT 0) idle_capture (\<lambda>_. 0) =
      Some (Inr (), c, s1) \<and>
    send_binary_as_ascii slow_socket int_ops c sample_options (create_buffered_file 4 64) 1 out ([], []) = Some (is_ok (bf_error f'), f', s') \<and>
    wrote snd fst (create_buffered_file 4 64) ([], []) ('' 7 7 5'' @ [newline]) f' s'"
proof -
  have len: "length (replicate MAX_CAPTURE_COUNT (0 :: u32)) = MAX_CAPTURE_COUNT" by simp
  obtain c s1 where c: "prepare_data_capture memory_device sample_header sample_captured (replicate MAX_CAPTURE_COUNT 0) idle_capture (\<lambda>_. 0) =
      Some (Inr (), c, s1)" by (rule sample_prepared)
  have show_digit: "length (d_show int_ops d) < 32" for d
    using length_show_base [of 1 "nat d mod 10"] by (simp add: int_ops_def)
  have "in_order (create_buffered_file 4 64)" "40 \<le> bf_out_buf_size (create_buffered_file 4 64)"
    by (simp_all add: in_order_def create_buffered_file_def file_inv_def)
  from ascii_output_text [OF c sample_captured_wf len idle_capture_arrays sample_captured_count refl slow_socket_laws this(1)
      show_digit this(2), where options = sample_options and buses = "[sample_bus]" and s = "([], [])" and rest = "[]"]
  obtain out f' s' where
    "send_binary_as_ascii slow_socket int_ops c sample_options (create_buffered_file 4 64) 1 out ([], []) = Some (is_ok (bf_error f'), f', s')"
    "wrote snd fst (create_buffered_file 4 64) ([], []) (concat (map (row_ascii int_ops (do_data_process sample_options))
      (expected_rows int_ops (do_data_process sample_options) sample_captured [sample_bus]))) f' s'" by auto
  moreover have "concat (map (row_ascii int_ops (do_data_process sample_options))
      (expected_rows int_ops (do_data_process sample_options) sample_captured [sample_bus])) = '' 7 7 5'' @ [newline]"
    by code_simp
  ultimately show ?thesis using c
    by (intro exI [of _ c] exI [of _ s1] exI [of _ out] exI [of _ f'] exI [of _ s']) simp
qed

end
