(* ===== verification/Panda_Header.thy ===== *)
theory Panda_Header
  imports Panda_Capture Panda_Entity
begin

text \<open>
  \<^verbatim>\<open>prepare.c\<close>: the options of a data connection and the header that describes the captured fields, in text
  or XML.
\<close>

section \<open>Options\<close>

definition default_data_options :: data_options where
  "default_data_options = \<lparr>do_data_format = DATA_FORMAT_ASCII, do_data_process = DATA_PROCESS_SCALED, do_omit_header = False,
     do_omit_status = False, do_one_shot = False, do_xml_header = False\<rparr>"

definition parse_one_option :: "string \<Rightarrow> data_options \<Rightarrow> data_options result" where
  "parse_one_option option options =
     (if option = ''UNFRAMED'' then Inr (options\<lparr>do_data_format := DATA_FORMAT_UNFRAMED\<rparr>)
      else if option = ''FRAMED'' then Inr (options\<lparr>do_data_format := DATA_FORMAT_FRAMED\<rparr>)
      else if option = ''BASE64'' then Inr (options\<lparr>do_data_format := DATA_FORMAT_BASE64\<rparr>)
      else if option = ''ASCII'' then Inr (options\<lparr>do_data_format := DATA_FORMAT_ASCII\<rparr>)
      else if option = ''RAW'' then Inr (options\<lparr>do_data_process := DATA_PROCESS_RAW\<rparr>)
      else if option = ''SCALED'' then Inr (options\<lparr>do_data_process := DATA_PROCESS_SCALED\<rparr>)
      else if option = ''NO_HEADER'' then Inr (options\<lparr>do_omit_header := True\<rparr>)
      else if option = ''NO_STATUS'' then Inr (options\<lparr>do_omit_status := True\<rparr>)
      else if option = ''ONE_SHOT'' then Inr (options\<lparr>do_one_shot := True\<rparr>)
      else if option = ''XML'' then Inr (options\<lparr>do_xml_header := True\<rparr>)
      else if option = ''BARE'' then
        Inr \<lparr>do_data_format = DATA_FORMAT_UNFRAMED, do_data_process = DATA_PROCESS_RAW, do_omit_header = True,
             do_omit_status = True, do_one_shot = True, do_xml_header = False\<rparr>
      else if option = ''DEFAULT'' then Inr default_data_options
      else fail ''Invalid data capture option'')"

definition parse_option_name :: "string parser" where
  "parse_option_name line =
     (let line = skip_whitespace line in
      if peek line = CHR 0x0D then (fail ''Cannot process CR character'', line)
      else parse_alphanum_name MAX_NAME_LENGTH line)"

lemma length_skip_whitespace: "length (skip_whitespace s) \<le> length s"
  by (induction s rule: skip_whitespace.induct) auto

lemma parse_option_name_shorter: "parse_option_name line = (Inr option, rest) \<Longrightarrow> length rest < length line"
proof -
  assume a: "parse_option_name line = (Inr option, rest)"
  let ?line = "skip_whitespace line"
  from a have p: "parse_alphanum_name MAX_NAME_LENGTH ?line = (Inr option, rest)"
    by (auto simp: parse_option_name_def Let_def split: if_splits)
  then obtain name where "copy_filtered valid_alphanum_char MAX_NAME_LENGTH ?line = (name, rest)" "name \<noteq> []"
    by (auto simp: parse_alphanum_name_def parse_filtered_name_def Let_def and_then_eq_Inr split: if_splits prod.splits)
  with copy_filtered_spec [OF this(1)] have "length rest < length ?line" by simp
  then show ?thesis using length_skip_whitespace [of line] by linarith
qed

function parse_options_loop :: "data_options \<Rightarrow> data_options parser" where
  "parse_options_loop options line =
     (if line = [] then (Inr options, line)
      else
        (case parse_option_name line of
           (Inl e, line) \<Rightarrow> (Inl e, line)
         | (Inr option, line) \<Rightarrow>
             (case parse_one_option option options of
                Inl e \<Rightarrow> (Inl e, line)
              | Inr options \<Rightarrow> parse_options_loop options line)))"
  by auto

termination
  by (relation "measure (length \<circ> snd)") (auto dest: parse_option_name_shorter [OF sym])

declare parse_options_loop.simps [simp del]

definition parse_data_options :: "string \<Rightarrow> data_options result" where
  "parse_data_options line =
     (case parse_options_loop default_data_options line of
        (Inl e, line) \<Rightarrow> Inl e
      | (Inr options, line) \<Rightarrow> and_then (fst (parse_eos line)) (\<lambda>_. Inr options))"

section \<open>XML\<close>

record xml_element =
  xe_name :: string
  xe_xml :: bool
  xe_nested :: bool
  xe_hidden :: bool

definition xml_special :: "char list" where
  "xml_special = [CHR ''<'', CHR ''&'', CHR ''>'', CHR 0x22, CHR 0x27]"

definition escape_xml_character :: "char \<Rightarrow> string" where
  "escape_xml_character ch =
     (if ch = CHR ''<'' then ''&lt;''
      else if ch = CHR ''&'' then ''&amp;''
      else if ch = CHR ''>'' then ''&gt;''
      else if ch = CHR 0x22 then ''&quot;''
      else if ch = CHR 0x27 then ''&apos;''
      else [])"

function escape_segments :: "string \<Rightarrow> file_op list" where
  "escape_segments string =
     (if string = [] then []
      else
        (let accept = takeWhile (\<lambda>c. c \<notin> set xml_special) string;
             rest = dropWhile (\<lambda>c. c \<notin> set xml_special) string in
         (if accept \<noteq> [] then [Write_string accept] else []) @
         (case rest of [] \<Rightarrow> [] | c # rest \<Rightarrow> Write_string (escape_xml_character c) # escape_segments rest)))"
  by auto

termination
proof (relation "measure length")
  fix string accept rest :: string and c cs
  assume "rest = dropWhile (\<lambda>c. c \<notin> set xml_special) string" "rest = c # cs"
  then have "Suc (length cs) = length (dropWhile (\<lambda>c. c \<notin> set xml_special) string)" by (metis length_Cons)
  then show "(cs, string) \<in> measure length"
    using length_dropWhile_le [of "\<lambda>c. c \<notin> set xml_special" string] by simp
qed simp

declare escape_segments.simps [simp del]

definition write_escaped_xml_string :: "string \<Rightarrow> file_op list" where
  "write_escaped_xml_string string = Write_char (CHR 0x22) # escape_segments string @ [Write_char (CHR 0x22)]"

text \<open>The value of an attribute is the text that the format gives, cut to the local buffer.\<close>

definition format_attribute_opt :: "xml_element \<Rightarrow> bool \<Rightarrow> string \<Rightarrow> string \<Rightarrow> file_op list" where
  "format_attribute_opt element use_name name formatted =
     (let v = take (MAX_RESULT_LENGTH - 1) formatted in
      if xe_xml element then [Write_formatted ('' '' @ name @ ''='' @ [CHR 0x22] @ v @ [CHR 0x22])]
      else
        (if \<not> xe_hidden element then [Write_char (CHR '' '')] else []) @
        (if use_name then [Write_formatted (name @ '': '' @ v)] else [Write_formatted v]) @
        (if xe_hidden element then [Write_char newline] else []))"

definition format_attribute :: "xml_element \<Rightarrow> string \<Rightarrow> string \<Rightarrow> file_op list" where
  "format_attribute element name formatted = format_attribute_opt element True name formatted"

definition format_attribute_string :: "xml_element \<Rightarrow> string \<Rightarrow> string \<Rightarrow> file_op list" where
  "format_attribute_string element name v =
     (if xe_xml element then Write_formatted ('' '' @ name @ ''='') # write_escaped_xml_string v
      else [Write_formatted ('' '' @ name @ '': '' @ v)])"

definition start_element :: "string \<Rightarrow> bool \<Rightarrow> bool \<Rightarrow> bool \<Rightarrow> xml_element \<times> file_op list" where
  "start_element name xml nested hidden =
     (\<lparr>xe_name = name, xe_xml = xml, xe_nested = nested, xe_hidden = hidden\<rparr>,
      if xml then Write_formatted (''<'' @ name) # (if nested then [Write_formatted (''>'' @ [newline])] else [])
      else if \<not> hidden \<and> nested then [Write_formatted (name @ '':'' @ [newline])] else [])"

definition end_element :: "xml_element \<Rightarrow> file_op list" where
  "end_element element =
     (if xe_xml element then
        [Write_formatted (if xe_nested element then ''</'' @ xe_name element @ ''>'' @ [newline] else '' />'' @ [newline])]
      else if \<not> xe_hidden element \<and> \<not> xe_nested element then [Write_char newline] else [])"

section \<open>Time stamps\<close>

text \<open>
  \<^verbatim>\<open>gmtime_r\<close> on the proleptic Gregorian calendar: the day is counted in the era of 400 years that starts on a
  first of March.
\<close>

record tm =
  tm_year :: int
  tm_mon :: int
  tm_mday :: int
  tm_hour :: int
  tm_min :: int
  tm_sec :: int

definition gmtime :: "int \<Rightarrow> tm" where
  "gmtime t =
     (let days = t div 86400; secs = t mod 86400; z = days + 719468; era = z div 146097; doe = z mod 146097;
          yoe = (doe - doe div 1460 + doe div 36524 - doe div 146096) div 365;
          doy = doe - (365 * yoe + yoe div 4 - yoe div 100);
          mp = (5 * doy + 2) div 153; mon = (if mp < 10 then mp + 2 else mp - 10) in
      \<lparr>tm_year = yoe + era * 400 + (if mon < 2 then 1 else 0) - 1900, tm_mon = mon,
       tm_mday = doy - (153 * mp + 2) div 5 + 1,
       tm_hour = secs div 3600, tm_min = secs mod 3600 div 60, tm_sec = secs mod 60\<rparr>)"

definition show_dec :: "int \<Rightarrow> string" where
  "show_dec x = (if x < 0 then CHR ''-'' # show_base 10 (nat (- x)) else show_base 10 (nat x))"

definition show_blank_padded :: "nat \<Rightarrow> int \<Rightarrow> string" where
  "show_blank_padded w x = replicate (w - length (show_dec x)) (CHR '' '') @ show_dec x"

definition show_zero_padded :: "nat \<Rightarrow> int \<Rightarrow> string" where
  "show_zero_padded w x =
     (let ds = show_base 10 (nat \<bar>x\<bar>); sign = (if x < 0 then ''-'' else []) in
      sign @ replicate (w - length sign - length ds) (CHR ''0'') @ ds)"

definition format_timestamp_message :: "timespec \<Rightarrow> string" where
  "format_timestamp_message ts =
     (let t = gmtime (tv_sec ts) in
      take (MAX_RESULT_LENGTH - 1)
        (show_blank_padded 4 (tm_year t + 1900) @ ''-'' @ show_zero_padded 2 (tm_mon t + 1) @ ''-'' @
         show_zero_padded 2 (tm_mday t) @ ''T'' @ show_zero_padded 2 (tm_hour t) @ '':'' @ show_zero_padded 2 (tm_min t) @
         '':'' @ show_zero_padded 2 (tm_sec t) @ ''.'' @ show_zero_padded 9 (tv_nsec ts) @ ''Z''))"

section \<open>The header\<close>

definition field_type_name :: "'d capture_info \<Rightarrow> data_options \<Rightarrow> string" where
  "field_type_name info options =
     (case do_data_process options of
        DATA_PROCESS_RAW \<Rightarrow>
          (case ci_capture_mode info of
             CAPTURE_MODE_SCALED32 \<Rightarrow> ''int32'' | CAPTURE_MODE_AVERAGE \<Rightarrow> ''int64'' | CAPTURE_MODE_STDDEV \<Rightarrow> ''int96''
           | CAPTURE_MODE_SCALED64 \<Rightarrow> ''int64'' | CAPTURE_MODE_UNSCALED \<Rightarrow> ''uint32'')
      | DATA_PROCESS_SCALED \<Rightarrow>
          (case ci_capture_mode info of
             CAPTURE_MODE_SCALED32 \<Rightarrow> ''double'' | CAPTURE_MODE_AVERAGE \<Rightarrow> ''double'' | CAPTURE_MODE_STDDEV \<Rightarrow> ''double''
           | CAPTURE_MODE_SCALED64 \<Rightarrow> ''double'' | CAPTURE_MODE_UNSCALED \<Rightarrow> ''uint32''))"

definition data_format_string :: "data_format \<Rightarrow> string" where
  "data_format_string fmt =
     (case fmt of DATA_FORMAT_UNFRAMED \<Rightarrow> ''Unframed'' | DATA_FORMAT_FRAMED \<Rightarrow> ''Framed'' | DATA_FORMAT_BASE64 \<Rightarrow> ''Base64''
      | DATA_FORMAT_ASCII \<Rightarrow> ''ASCII'')"

definition data_process_string :: "data_process \<Rightarrow> string" where
  "data_process_string process = (case process of DATA_PROCESS_RAW \<Rightarrow> ''Raw'' | DATA_PROCESS_SCALED \<Rightarrow> ''Scaled'')"

text \<open>What is known of the capture when the header is sent.\<close>

record capture_times =
  ct_missed_samples :: u64
  ct_pcap_arm_tsp :: timespec
  ct_pcap_start_tsp :: timespec
  ct_hw_ts_offset_ns :: "int option"

definition send_capture_info :: "'d data_capture \<Rightarrow> data_options \<Rightarrow> capture_times \<Rightarrow> file_op list option" where
  "send_capture_info capture options ts =
     (let (element, start) = start_element ''data'' (do_xml_header options) False True in
      do { sample_bytes \<leftarrow>
             (if do_data_format options \<noteq> DATA_FORMAT_ASCII then do {
                n \<leftarrow> get_binary_sample_length capture options;
                Some (format_attribute element ''sample_bytes'' (show_base 10 n)) }
              else Some []);
           Some (start @
             format_attribute element ''arm_time'' (format_timestamp_message (ct_pcap_arm_tsp ts)) @
             format_attribute element ''start_time'' (format_timestamp_message (ct_pcap_start_tsp ts)) @
             (case ct_hw_ts_offset_ns ts of
                None \<Rightarrow> [] | Some ns \<Rightarrow> format_attribute element ''hw_time_offset_ns'' (show_dec ns)) @
             format_attribute element ''missed'' (show_base 10 (unat (ct_missed_samples ts))) @
             format_attribute element ''process'' (data_process_string (do_data_process options)) @
             format_attribute element ''format'' (data_format_string (do_data_format options)) @
             sample_bytes @ end_element element) })"

definition send_field_info :: "'d capture_ops \<Rightarrow> data_options \<Rightarrow> 'd capture_info \<Rightarrow> file_op list" where
  "send_field_info ops options info =
     (let (element, start) = start_element ''field'' (do_xml_header options) False False in
      start @
      format_attribute_opt element False ''name'' (ci_field_name info) @
      format_attribute_opt element False ''type'' (field_type_name info options) @
      format_attribute_opt element False ''capture'' (ci_capture_string info) @
      (if ci_capture_mode info \<noteq> CAPTURE_MODE_UNSCALED then
         format_attribute element ''scale'' (d_show12 ops (ci_scale info)) @
         format_attribute element ''offset'' (d_show12 ops (ci_offset info)) @
         format_attribute_string element ''units'' (ci_units info)
       else []) @
      end_element element)"

definition send_group_info :: "'d capture_ops \<Rightarrow> data_options \<Rightarrow> 'd capture_info list \<Rightarrow> file_op list" where
  "send_group_info ops options grp = concat (map (send_field_info ops options) grp)"

definition mean_info :: "'d capture_info \<Rightarrow> 'd capture_info" where
  "mean_info info = info\<lparr>ci_capture_mode := CAPTURE_MODE_AVERAGE, ci_capture_string := ''Mean''\<rparr>"

definition send_stddev_group_info :: "'d capture_ops \<Rightarrow> data_options \<Rightarrow> 'd capture_info list \<Rightarrow> file_op list" where
  "send_stddev_group_info ops options grp =
     concat (map (\<lambda>info.
       (if do_data_process options = DATA_PROCESS_RAW \<or> ci_capture_mean info
        then send_field_info ops options (mean_info info) else []) @
       send_field_info ops options info) grp)"

definition data_header_calls ::
    "'d capture_ops \<Rightarrow> 'd captured_fields \<Rightarrow> 'd data_capture \<Rightarrow> data_options \<Rightarrow> capture_times \<Rightarrow> file_op list option" where
  "data_header_calls ops flds capture options ts =
     (let (header, start) = start_element ''header'' (do_xml_header options) True True;
          (field_group, start_group) = start_element ''fields'' (do_xml_header options) True False in
      do { info \<leftarrow> send_capture_info capture options ts;
           Some (start @ info @ start_group @
             (if do_data_process options = DATA_PROCESS_RAW \<and> sample_count_is_anonymous capture
              then send_field_info ops options (cf_sample_count flds) else []) @
             send_group_info ops options (cf_unscaled flds) @
             send_group_info ops options (cf_scaled32 flds) @
             send_group_info ops options (cf_scaled64 flds) @
             send_group_info ops options (cf_averaged flds) @
             send_stddev_group_info ops options (cf_std_dev flds) @
             end_element field_group @ end_element header @ [Write_char newline]) })"

definition send_data_header ::
    "'s socket_ops \<Rightarrow> 'd capture_ops \<Rightarrow> 'd captured_fields \<Rightarrow> 'd data_capture \<Rightarrow> data_options \<Rightarrow> buffered_file
       \<Rightarrow> capture_times \<Rightarrow> 's \<Rightarrow> (bool \<times> buffered_file \<times> 's) option" where
  "send_data_header so ops flds capture options file ts s =
     do { calls \<leftarrow> data_header_calls ops flds capture options ts;
          (_, file, s) \<leftarrow> run_ops so calls file s;
          flush_out_buf so file s }"

text \<open>The calendar at some known times.\<close>

lemma gmtime_samples:
  "gmtime 0 = \<lparr>tm_year = 70, tm_mon = 0, tm_mday = 1, tm_hour = 0, tm_min = 0, tm_sec = 0\<rparr>"
  "gmtime 951827696 = \<lparr>tm_year = 100, tm_mon = 1, tm_mday = 29, tm_hour = 12, tm_min = 34, tm_sec = 56\<rparr>"
  "gmtime 1704067199 = \<lparr>tm_year = 123, tm_mon = 11, tm_mday = 31, tm_hour = 23, tm_min = 59, tm_sec = 59\<rparr>"
  by code_simp+

section \<open>Escaping\<close>

definition xml_escape :: "string \<Rightarrow> string" where
  "xml_escape s = concat (map (\<lambda>c. if c \<in> set xml_special then escape_xml_character c else [c]) s)"

text \<open>The reference decoder: an entity is replaced by the character that it names.\<close>

definition xml_entity :: "string \<Rightarrow> char" where
  "xml_entity name =
     (if name = ''lt'' then CHR ''<'' else if name = ''amp'' then CHR ''&'' else if name = ''gt'' then CHR ''>''
      else if name = ''quot'' then CHR 0x22 else CHR 0x27)"

function xml_unescape :: "string \<Rightarrow> string" where
  "xml_unescape [] = []"
| "xml_unescape (c # s) =
     (if c = CHR ''&'' then
        xml_entity (takeWhile (\<lambda>c. c \<noteq> CHR '';'') s) # xml_unescape (drop 1 (dropWhile (\<lambda>c. c \<noteq> CHR '';'') s))
      else c # xml_unescape s)"
  by pat_completeness auto

termination
proof (relation "measure length")
  fix c and s :: string
  show "(drop 1 (dropWhile (\<lambda>c. c \<noteq> CHR '';'') s), c # s) \<in> measure length"
    using length_dropWhile_le [of "\<lambda>c. c \<noteq> CHR '';''" s] by simp
qed simp_all

lemma escape_segments_text: "calls_text (escape_segments s) = xml_escape s"
proof (induction s rule: escape_segments.induct)
  case (1 s)
  let ?P = "\<lambda>c. c \<notin> set xml_special"
  have plain: "xml_escape t = t" if "\<forall>c \<in> set t. ?P c" for t
    using that by (induction t) (simp_all add: xml_escape_def)
  have "xml_escape (takeWhile ?P s @ dropWhile ?P s) = xml_escape (takeWhile ?P s) @ xml_escape (dropWhile ?P s)"
    by (simp add: xml_escape_def del: takeWhile_dropWhile_id)
  moreover have "xml_escape (takeWhile ?P s) = takeWhile ?P s" by (rule plain) (auto dest: set_takeWhileD)
  ultimately have split: "xml_escape s = takeWhile ?P s @ xml_escape (dropWhile ?P s)" by simp
  show ?case
  proof (cases "dropWhile ?P s")
    case Nil
    have "xml_escape s = takeWhile ?P s" unfolding split Nil by (simp add: xml_escape_def)
    moreover have "calls_text (escape_segments s) = takeWhile ?P s"
      unfolding escape_segments.simps [of s] Nil Let_def by (simp add: op_text_def)
    ultimately show ?thesis by simp
  next
    case (Cons c rest)
    then have c: "c \<in> set xml_special" by (metis hd_dropWhile list.discI list.sel(1))
    have "s \<noteq> []" using Cons by auto
    from 1 [OF this refl refl Cons] have "calls_text (escape_segments rest) = xml_escape rest" .
    with Cons c \<open>s \<noteq> []\<close> show ?thesis
      by (subst escape_segments.simps) (simp add: split op_text_def Let_def, simp add: xml_escape_def)
  qed
qed

lemma xml_escape_char:
  "c \<in> set xml_special \<Longrightarrow> xml_unescape (escape_xml_character c @ s) = c # xml_unescape s"
  by (auto simp: xml_special_def escape_xml_character_def xml_entity_def)

lemma xml_unescape_escape: "xml_unescape (xml_escape s) = s"
proof (induction s)
  case (Cons c s)
  then have IH: "xml_unescape (concat (map (\<lambda>c. if c \<in> set xml_special then escape_xml_character c else [c]) s)) = s"
    by (simp add: xml_escape_def)
  show ?case
  proof (cases "c \<in> set xml_special")
    case True
    with xml_escape_char [OF True] IH show ?thesis by (simp add: xml_escape_def)
  next
    case False
    then have "c \<noteq> CHR ''&''" by (auto simp: xml_special_def)
    with False IH show ?thesis by (simp add: xml_escape_def)
  qed
qed (simp add: xml_escape_def)

lemma xml_escape_safe: "set (xml_escape s) \<inter> {CHR ''<'', CHR ''>'', CHR 0x22, CHR 0x27} = {}"
proof (induction s)
  case (Cons c s)
  have "\<forall>c \<in> set xml_special. set (escape_xml_character c) \<inter> {CHR ''<'', CHR ''>'', CHR 0x22, CHR 0x27} = {}"
    by (simp add: xml_special_def escape_xml_character_def)
  moreover have "{c} \<inter> {CHR ''<'', CHR ''>'', CHR 0x22, CHR 0x27} = {}" if "c \<notin> set xml_special"
    using that by (auto simp: xml_special_def)
  ultimately have "set (if c \<in> set xml_special then escape_xml_character c else [c]) \<inter> {CHR ''<'', CHR ''>'', CHR 0x22, CHR 0x27} = {}"
    by (cases "c \<in> set xml_special") simp_all
  moreover have "xml_escape (c # s) = (if c \<in> set xml_special then escape_xml_character c else [c]) @ xml_escape s"
    by (simp add: xml_escape_def)
  ultimately show ?case using Cons.IH by (simp only: set_append Int_Un_distrib2 Un_empty_left)
qed (simp add: xml_escape_def)

text \<open>
  C23: the value written for an attribute in XML is the quoted escaped text: it contains none of the characters
  that would end or break the attribute, and decoding its entities gives back the text.\<close>

theorem write_escaped_xml_string_correct:
  "\<exists>body. calls_text (write_escaped_xml_string string) = [CHR 0x22] @ body @ [CHR 0x22] \<and>
    xml_unescape body = string \<and> set body \<inter> {CHR ''<'', CHR ''>'', CHR 0x22, CHR 0x27} = {}"
  using xml_unescape_escape [of string] xml_escape_safe [of string]
  by (intro exI [of _ "xml_escape string"] conjI)
    (simp_all add: write_escaped_xml_string_def escape_segments_text op_text_def)

section \<open>The options of a connection\<close>

definition option_line :: "string list \<Rightarrow> string" where
  "option_line names = concat (map (\<lambda>name. CHR '' '' # name) names)"

definition apply_option :: "string \<Rightarrow> data_options \<Rightarrow> data_options" where
  "apply_option name options = (case parse_one_option name options of Inl _ \<Rightarrow> options | Inr options \<Rightarrow> options)"

definition known_option :: "string \<Rightarrow> bool" where
  "known_option name = (is_ok (parse_one_option name default_data_options) \<and> alphanum_name name)"

lemma parse_option_step:
  assumes "alphanum_name name" "stops valid_alphanum_char rest"
  shows "parse_option_name (CHR '' '' # name @ rest) = (Inr name, rest)"
proof -
  obtain c cs where c: "name = c # cs" "valid_name_char c"
    using assms(1) by (cases name) (auto simp: alphanum_name_def)
  moreover have "\<not> valid_name_char (CHR '' '')" "\<not> valid_name_char (CHR 0x09)" "\<not> valid_name_char (CHR 0x0D)" by code_simp+
  ultimately have "c \<noteq> CHR '' ''" "c \<noteq> CHR 0x09" "c \<noteq> CHR 0x0D" by auto
  with c(1) parse_alphanum_name_stop [OF assms] show ?thesis by (simp add: parse_option_name_def)
qed

lemma parse_options_loop_line:
  assumes "list_all known_option names"
  shows "parse_options_loop options (option_line names) = (Inr (fold apply_option names options), [])"
  using assms
proof (induction names arbitrary: options)
  case Nil
  then show ?case by (simp add: option_line_def parse_options_loop.simps)
next
  case (Cons name names)
  have "\<not> valid_alphanum_char (CHR '' '')" by code_simp
  then have stops: "stops valid_alphanum_char (option_line names)"
    by (cases names) (simp_all add: stops_def option_line_def)
  have "is_ok (parse_one_option name options)" using Cons.prems
    by (auto simp: known_option_def parse_one_option_def split: if_splits)
  then obtain options' where o: "parse_one_option name options = Inr options'"
    by (cases "parse_one_option name options") simp_all
  have "parse_option_name (CHR '' '' # name @ option_line names) = (Inr name, option_line names)"
    using Cons.prems stops by (intro parse_option_step) (simp_all add: known_option_def)
  moreover have "apply_option name options = options'" using o by (simp add: apply_option_def)
  ultimately show ?case using o Cons.IH [of options'] Cons.prems
    by (subst parse_options_loop.simps) (simp add: option_line_def)
qed



section \<open>The header describes the data\<close>

text \<open>The fields of a sample in the order in which the header announces them.\<close>

definition described :: "'d captured_fields \<Rightarrow> data_options \<Rightarrow> 'd capture_info list" where
  "described flds options =
     (let raw = (do_data_process options = DATA_PROCESS_RAW) in
      (if raw \<and> hidden_words flds \<noteq> [] then [cf_sample_count flds] else []) @
      cf_unscaled flds @ cf_scaled32 flds @ cf_scaled64 flds @ cf_averaged flds @
      concat (map (\<lambda>info. (if raw \<or> ci_capture_mean info then [mean_info info] else []) @ [info]) (cf_std_dev flds)))"

definition item_type :: "'d item \<Rightarrow> string" where
  "item_type x = (case x of Word32 _ \<Rightarrow> ''uint32'' | Double _ \<Rightarrow> ''double'')"

text \<open>The bus indices behind a field of the given type in raw data.\<close>

definition type_words :: "string \<Rightarrow> u32 list \<Rightarrow> u32 list" where
  "type_words t index =
     (if t = ''int64'' then take 2 index else if t = ''int96'' then take 3 (drop 2 index) else take 1 index)"

text \<open>Each group holds fields of its mode, as the preparation arranges them.\<close>

definition well_grouped :: "'d captured_fields \<Rightarrow> bool" where
  "well_grouped flds =
     (ci_capture_mode (cf_sample_count flds) = CAPTURE_MODE_SCALED32 \<and>
      list_all (\<lambda>info. ci_capture_mode info = CAPTURE_MODE_UNSCALED) (cf_unscaled flds) \<and>
      list_all (\<lambda>info. ci_capture_mode info = CAPTURE_MODE_SCALED32) (cf_scaled32 flds) \<and>
      list_all (\<lambda>info. ci_capture_mode info = CAPTURE_MODE_SCALED64) (cf_scaled64 flds) \<and>
      list_all (\<lambda>info. ci_capture_mode info = CAPTURE_MODE_AVERAGE) (cf_averaged flds) \<and>
      list_all (\<lambda>info. ci_capture_mode info = CAPTURE_MODE_STDDEV) (cf_std_dev flds))"

lemma field_types:
  assumes "well_grouped flds"
  shows "info \<in> set (cf_unscaled flds) \<Longrightarrow> field_type_name info options = ''uint32''"
    "info \<in> set (cf_scaled32 flds) \<Longrightarrow>
       field_type_name info options = (if do_data_process options = DATA_PROCESS_RAW then ''int32'' else ''double'')"
    "info \<in> set (cf_scaled64 flds) \<Longrightarrow>
       field_type_name info options = (if do_data_process options = DATA_PROCESS_RAW then ''int64'' else ''double'')"
    "info \<in> set (cf_averaged flds) \<Longrightarrow>
       field_type_name info options = (if do_data_process options = DATA_PROCESS_RAW then ''int64'' else ''double'')"
    "info \<in> set (cf_std_dev flds) \<Longrightarrow>
       field_type_name info options = (if do_data_process options = DATA_PROCESS_RAW then ''int96'' else ''double'')"
    "field_type_name (mean_info info) options = (if do_data_process options = DATA_PROCESS_RAW then ''int64'' else ''double'')"
    "field_type_name (cf_sample_count flds) options = (if do_data_process options = DATA_PROCESS_RAW then ''int32'' else ''double'')"
  using assms
  by (auto simp: well_grouped_def list_all_iff field_type_name_def mean_info_def split: data_process.splits)

lemma scaled_types:
  assumes "well_grouped flds" "do_data_process options = DATA_PROCESS_SCALED"
  shows "map (\<lambda>info. field_type_name info options) (described flds options) = map item_type (expected_row ops flds bus)"
proof -
  note types = field_types [OF assms(1), where options = options]
  have dev: "map (\<lambda>info. field_type_name info options)
        (concat (map (\<lambda>info. (if ci_capture_mean info then [mean_info info] else []) @ [info]) infos)) =
      map item_type (map Double (concat (map (\<lambda>info. (if ci_capture_mean info then [m info] else []) @ [d info]) infos)))"
    if "set infos \<subseteq> set (cf_std_dev flds)" for infos and m d :: "'a capture_info \<Rightarrow> 'a"
    using that by (induction infos) (simp_all add: types assms(2) item_type_def)
  have group: "map (\<lambda>info. field_type_name info options) infos = map item_type (map Double (map f infos))"
    if "\<And>info. info \<in> set infos \<Longrightarrow> field_type_name info options = ''double''" for infos and f :: "'a capture_info \<Rightarrow> 'a"
    using that by (simp add: item_type_def)
  have words: "map (\<lambda>info. field_type_name info options) (cf_unscaled flds) =
      map item_type (map (\<lambda>info. Word32 (bus_word bus info 0) :: 'a item) (cf_unscaled flds))"
    by (simp add: types item_type_def)
  have raw: "(do_data_process options = DATA_PROCESS_RAW) = False" using assms(2) by simp
  show ?thesis
    unfolding described_def expected_row_def Let_def raw simp_thms if_False append_Nil map_append [of item_type] map_append [of Double]
      map_append [of "\<lambda>info. field_type_name info options"] words
    by (intro arg_cong2 [of _ _ _ _ "(@)"] refl group dev subset_refl) (simp_all add: types assms(2))
qed

lemma raw_types:
  assumes "well_grouped flds" "wf_fields flds" "do_data_process options = DATA_PROCESS_RAW"
  shows "concat (map (\<lambda>info. type_words (field_type_name info options) (ci_capture_index info)) (described flds options)) = sample_layout flds"
proof -
  note types = field_types [OF assms(1), where options = options]
  let ?w = "\<lambda>info. type_words (field_type_name info options) (ci_capture_index info)"
  have one: "map ?w (cf_unscaled flds) = map (index_words 1) (cf_unscaled flds)"
    "map ?w (cf_scaled32 flds) = map (index_words 1) (cf_scaled32 flds)"
    "map ?w (cf_scaled64 flds) = map (index_words 2) (cf_scaled64 flds)"
    "map ?w (cf_averaged flds) = map (index_words 2) (cf_averaged flds)"
    by (auto simp: types assms(3) type_words_def index_words_def)
  have five: "take 2 xs @ take 3 (drop 2 xs) = take 5 xs" for xs :: "u32 list"
    using take_add [of 2 3 xs] by simp
  have dev: "concat (map ?w (concat (map (\<lambda>info. [mean_info info] @ [info]) infos))) = words_of 5 infos"
    if "set infos \<subseteq> set (cf_std_dev flds)" for infos
    using that
  proof (induction infos)
    case (Cons info infos)
    have idx: "ci_capture_index (mean_info info) = ci_capture_index info" by (simp add: mean_info_def)
    have "?w (mean_info info) @ ?w info = index_words 5 info"
      using Cons.prems five [of "ci_capture_index info"] by (simp add: types assms(3) type_words_def index_words_def idx)
    then show ?case using Cons by (simp add: words_of_def flip: append_assoc)
  qed (simp add: words_of_def)
  have hidden: "concat (map ?w (if hidden_words flds \<noteq> [] then [cf_sample_count flds] else [])) = hidden_words flds"
    by (auto simp: types(7) assms(3) type_words_def hidden_words_def index_words_def)
  show ?thesis
    unfolding described_def Let_def assms(3) simp_thms if_True map_append concat_append one hidden
    by (simp only: dev [OF subset_refl] sample_layout_def words_of_def)
qed

definition header_start :: "data_options \<Rightarrow> file_op list \<Rightarrow> file_op list" where
  "header_start options info =
     snd (start_element ''header'' (do_xml_header options) True True) @ info @
     snd (start_element ''fields'' (do_xml_header options) True False)"

definition header_end :: "data_options \<Rightarrow> file_op list" where
  "header_end options =
     end_element (fst (start_element ''fields'' (do_xml_header options) True False)) @
     end_element (fst (start_element ''header'' (do_xml_header options) True True)) @ [Write_char newline]"

lemma data_header_fields:
  assumes "captures flds old c" "0 < length (sample_layout flds)" "wf_fields flds"
  shows "\<exists>info. send_capture_info c options ts = Some info \<and> data_header_calls ops flds c options ts =
    Some (header_start options info @ concat (map (send_field_info ops options) (described flds options)) @ header_end options)"
proof -
  have "count_readable flds old (replicate (Suc (dc_sample_count_index old)) 0)" by (simp add: count_readable_def)
  from convert_captured [OF assms(3,2,1) this, of ops options "[]"]
  obtain n where n: "get_binary_sample_length c options = Some n" by blast
  have anon: "sample_count_is_anonymous c = (hidden_words flds \<noteq> [])"
    using assms(1,3) by (auto simp: captures_def sample_count_is_anonymous_def hidden_words_def wf_fields_def
        index_words_def wf_info_def CAPTURE_INDEX_SIZE_def)
  have "\<exists>info. send_capture_info c options ts = Some info"
    by (cases "start_element ''data'' (do_xml_header options) False True"; cases "do_data_format options = DATA_FORMAT_ASCII")
      (simp_all add: send_capture_info_def n)
  then obtain info where info: "send_capture_info c options ts = Some info" by blast
  have dev: "send_stddev_group_info ops options infos = concat (map (send_field_info ops options)
      (concat (map (\<lambda>info. (if do_data_process options = DATA_PROCESS_RAW \<or> ci_capture_mean info then [mean_info info] else []) @ [info]) infos)))"
    for infos by (induction infos) (simp_all add: send_stddev_group_info_def)
  show ?thesis
    unfolding data_header_calls_def info Let_def dev send_group_info_def anon
    by (simp add: described_def Let_def header_start_def header_end_def split: prod.splits)
qed

text \<open>No call writes more than fits the buffer.\<close>

definition small_call :: "file_op \<Rightarrow> bool" where
  "small_call call = (is_write call \<and> (case call of Write_formatted t \<Rightarrow> length t < 300 | _ \<Rightarrow> True))"

lemma small_attribute:
  "length name < 30 \<Longrightarrow> list_all small_call (format_attribute_opt element use_name name v)"
  "length name < 30 \<Longrightarrow> list_all small_call (format_attribute element name v)"
  by (auto simp: format_attribute_def format_attribute_opt_def small_call_def is_write_def Let_def MAX_RESULT_LENGTH_def min_def)

lemma small_call_simps [simp]: "small_call (Write_string t)" "small_call (Write_char ch)" "small_call (Write_formatted t) = (length t < 300)"
  by (simp_all add: small_call_def is_write_def)

lemma small_segments: "list_all small_call (escape_segments s)"
proof (induction s rule: escape_segments.induct)
  case (1 s)
  show ?case
    by (subst escape_segments.simps) (use 1 in \<open>auto simp: Let_def split: list.splits\<close>)
qed

lemma small_attribute_string:
  "length name < 30 \<Longrightarrow> length v < 32 \<Longrightarrow> list_all small_call (format_attribute_string element name v)"
  by (simp add: format_attribute_string_def write_escaped_xml_string_def small_segments)

lemma small_element:
  "length name < 30 \<Longrightarrow> list_all small_call (snd (start_element name xml nested hidden))"
  "length name < 30 \<Longrightarrow> list_all small_call (end_element (fst (start_element name xml nested hidden)))"
  by (auto simp: start_element_def end_element_def small_call_def is_write_def)

lemma small_field:
  "length (ci_units info) < 32 \<Longrightarrow> list_all small_call (send_field_info ops options info)"
  using small_element [of "''field''"]
  by (auto simp: send_field_info_def Let_def small_attribute small_attribute_string split: prod.splits) (metis fst_conv snd_conv)+

lemma small_capture_info: "send_capture_info c options ts = Some info \<Longrightarrow> list_all small_call info"
  using small_element [of "''data''" "do_xml_header options" False True]
  by (auto simp: send_capture_info_def Let_def small_attribute split: prod.splits bind_splits if_splits option.splits)

lemma small_fits:
  "list_all small_call calls \<Longrightarrow> 300 \<le> bf_out_buf_size f \<Longrightarrow> list_all is_write calls \<and> list_all (op_fits f) calls"
  by (auto simp: list_all_iff small_call_def op_fits_def split: file_op.splits)

text \<open>
  C5: the header of a prepared capture is sent completely, and lists exactly the fields of each sample, in
  order and with their types: for scaled data each value of a converted sample has the type announced for
  it; for raw data the words of the announced types, laid end to end, are the words of the sample.\<close>

theorem data_header_describes_samples:
  assumes "prepare_data_capture dev hdr flds stack old s0 = Some (Inr (), c, s1)" "wf_fields flds"
    "length stack = MAX_CAPTURE_COUNT" "length (dc_scaling old) = MAX_CAPTURE_COUNT" "length (dc_std_dev_mean old) = MAX_CAPTURE_COUNT"
    and "well_grouped flds"
    and "list_all (\<lambda>info. length (ci_units info) < MAX_NAME_LENGTH) (cf_sample_count flds # cf_unscaled flds @ scaled_fields flds)"
    and "socket_laws so sent incoming" "in_order f" "300 \<le> bf_out_buf_size f"
  shows "\<exists>info f' s'. send_capture_info c options ts = Some info \<and>
    send_data_header so ops flds c options f ts s = Some (is_ok (bf_error f'), f', s') \<and> bf_out_buf f' = [] \<and>
    wrote sent incoming f s (calls_text
      (header_start options info @ concat (map (send_field_info ops options) (described flds options)) @ header_end options)) f' s' \<and>
    (case do_data_process options of
       DATA_PROCESS_SCALED \<Rightarrow>
         (\<forall>bus. map (\<lambda>info. field_type_name info options) (described flds options) = map item_type (expected_row ops flds bus))
     | DATA_PROCESS_RAW \<Rightarrow>
         concat (map (\<lambda>info. type_words (field_type_name info options) (ci_capture_index info)) (described flds options)) =
         sample_layout flds)"
proof -
  note c = prepared_captures [OF assms(1-5)]
  from data_header_fields [OF c assms(2), of options ts ops] obtain info where info: "send_capture_info c options ts = Some info"
    and calls: "data_header_calls ops flds c options ts =
      Some (header_start options info @ concat (map (send_field_info ops options) (described flds options)) @ header_end options)"
    (is "_ = Some ?calls") by blast
  have "length (ci_units i) < 32" if "i \<in> set (described flds options)" for i
    using that assms(7) by (auto simp: described_def Let_def mean_info_def scaled_fields_def list_all_iff MAX_NAME_LENGTH_def split: if_splits)
  then have "list_all small_call (concat (map (send_field_info ops options) (described flds options)))"
    using small_field by (fastforce simp: list_all_iff)
  moreover have "list_all small_call (header_start options info)" "list_all small_call (header_end options)"
    using small_capture_info [OF info] by (simp_all add: header_start_def header_end_def small_element)
  ultimately have "list_all small_call ?calls" by simp
  from small_fits [OF this assms(10)] run_ops_wrote [OF assms(8,9), of ?calls s] obtain rs f1 s2 where
    1: "run_ops so ?calls f s = Some (rs, f1, s2)" "wrote sent incoming f s (calls_text ?calls) f1 s2" "in_order f1" by blast
  have "0 < bf_out_buf_size f1" using 1(3) by (simp add: in_order_def)
  from flush_out_buf_wrote [OF assms(8) this, of s2] obtain f2 s3 where
    2: "flush_out_buf so f1 s2 = Some (is_ok (bf_error f2), f2, s3)" "bf_out_buf f2 = []" "wrote sent incoming f1 s2 [] f2 s3" by blast
  have "send_data_header so ops flds c options f ts s = Some (is_ok (bf_error f2), f2, s3)"
    by (simp add: send_data_header_def calls 1(1) 2(1) del: append_assoc)
  moreover have "wrote sent incoming f s (calls_text ?calls) f2 s3" using wrote_append [OF 1(2) 2(3)] by simp
  moreover have "case do_data_process options of
       DATA_PROCESS_SCALED \<Rightarrow>
         (\<forall>bus. map (\<lambda>info. field_type_name info options) (described flds options) = map item_type (expected_row ops flds bus))
     | DATA_PROCESS_RAW \<Rightarrow>
         concat (map (\<lambda>info. type_words (field_type_name info options) (ci_capture_index info)) (described flds options)) =
         sample_layout flds"
    using scaled_types [OF assms(6)] raw_types [OF assms(6,2)] by (cases "do_data_process options") simp_all
  ultimately show ?thesis using info 2(2) by blast
qed

definition sample_times :: capture_times where
  "sample_times = \<lparr>ct_missed_samples = 0, ct_pcap_arm_tsp = \<lparr>tv_sec = 0, tv_nsec = 0\<rparr>,
     ct_pcap_start_tsp = \<lparr>tv_sec = 951827696, tv_nsec = 5\<rparr>, ct_hw_ts_offset_ns = None\<rparr>"

definition sample_header_text :: string where
  "sample_header_text = concat (map (\<lambda>line. line @ [newline])
     [''arm_time: 1970-01-01T00:00:00.000000000Z'', ''start_time: 2000-02-29T12:34:56.000000005Z'', ''missed: 0'',
      ''process: Scaled'', ''format: ASCII'', ''fields:'', '' PCAP.BITS0 uint32 Value'',
      '' INENC1.VAL double Value scale: 2 offset: 1 units: mm'', '' INENC2.VAL double Value scale: 1 offset: 0 units: mm'', []])"

lemma sample_header_calls:
  "map_option (\<lambda>info. calls_text (header_start sample_options info @
      concat (map (send_field_info int_ops sample_options) (described sample_captured sample_options)) @ header_end sample_options))
    (send_capture_info c sample_options sample_times) = Some sample_header_text"
proof -
  have "send_capture_info c sample_options sample_times = send_capture_info idle_capture sample_options sample_times"
    by (simp add: send_capture_info_def sample_options_def)
  moreover have "map_option (\<lambda>info. calls_text (header_start sample_options info @
      concat (map (send_field_info int_ops sample_options) (described sample_captured sample_options)) @ header_end sample_options))
    (send_capture_info idle_capture sample_options sample_times) = Some sample_header_text" by code_simp
  ultimately show ?thesis by simp
qed

theorem data_header_describes_samples_witness:
  "\<exists>c f' s'. send_data_header slow_socket int_ops sample_captured c sample_options (create_buffered_file 4 300) sample_times
      ([], []) = Some (is_ok (bf_error f'), f', s') \<and>
    wrote snd fst (create_buffered_file 4 300) ([], []) sample_header_text f' s' \<and>
    map item_type (expected_row int_ops sample_captured sample_bus) = [''uint32'', ''double'', ''double'']"
proof -
  have len: "length (replicate MAX_CAPTURE_COUNT (0 :: u32)) = MAX_CAPTURE_COUNT" by simp
  obtain c s1 where c: "prepare_data_capture memory_device sample_header sample_captured (replicate MAX_CAPTURE_COUNT 0) idle_capture (\<lambda>_. 0) =
      Some (Inr (), c, s1)" by (rule sample_prepared)
  have f: "well_grouped sample_captured"
    "list_all (\<lambda>info. length (ci_units info) < MAX_NAME_LENGTH)
       (cf_sample_count sample_captured # cf_unscaled sample_captured @ scaled_fields sample_captured)"
    "in_order (create_buffered_file 4 300)" "300 \<le> bf_out_buf_size (create_buffered_file 4 300)"
    by (code_simp, code_simp, simp_all add: in_order_def create_buffered_file_def file_inv_def)
  from data_header_describes_samples [OF c sample_captured_wf len idle_capture_arrays f(1,2) slow_socket_laws f(3,4),
      of sample_options sample_times int_ops "([], [])"]
  obtain info f' s' where
    h: "send_capture_info c sample_options sample_times = Some info"
      "send_data_header slow_socket int_ops sample_captured c sample_options (create_buffered_file 4 300) sample_times ([], []) =
      Some (is_ok (bf_error f'), f', s')" "wrote snd fst (create_buffered_file 4 300) ([], []) (calls_text (header_start sample_options info @
      concat (map (send_field_info int_ops sample_options) (described sample_captured sample_options)) @ header_end sample_options)) f' s'"
    and types: "do_data_process sample_options = DATA_PROCESS_SCALED \<Longrightarrow> map (\<lambda>info. field_type_name info sample_options) (described sample_captured sample_options) =
      map item_type (expected_row int_ops sample_captured sample_bus)"
    by (elim exE conjE) (auto split: data_process.splits simp del: calls_text_simps)
  have "map (\<lambda>info. field_type_name info sample_options) (described sample_captured sample_options) = [''uint32'', ''double'', ''double'']"
    by code_simp
  moreover have "do_data_process sample_options = DATA_PROCESS_SCALED" by (simp add: sample_options_def)
  moreover have "wrote snd fst (create_buffered_file 4 300) ([], []) sample_header_text f' s'"
    using h(3) sample_header_calls [of c] by (simp add: h(1) del: calls_text_simps)
  ultimately show ?thesis using h(2) types
    by (intro exI [of _ c] exI [of _ f'] exI [of _ s']) simp
qed

end
