(* ===== verification/Panda_Mux.thy ===== *)
theory Panda_Mux
  imports Panda_Entity Panda_Blocks Panda_Types
begin

text \<open>
  \<^verbatim>\<open>pos_mux.c\<close> and \<^verbatim>\<open>bit_out.c\<close>: the choice of a source on the position bus and on the bit bus by name, and the
  bits of the bit bus.
\<close>

section \<open>Names of bus entries\<close>

text \<open>The name under which an output appears: \<^verbatim>\<open>format_field_name\<close> without suffix, in a buffer of 32 bytes.\<close>

definition output_name :: "'b block \<Rightarrow> 'b field \<Rightarrow> u32 \<Rightarrow> string option" where
  "output_name block field number = map_option butlast (format_field_name MAX_NAME_LENGTH block field None number nul)"

fun add_mux_entries ::
    "(u8 \<Rightarrow> 'w::len word) \<Rightarrow> 'b block \<Rightarrow> 'b field \<Rightarrow> u32 \<Rightarrow> u32 list \<Rightarrow> 'w enumeration \<Rightarrow> (unit result \<times> 'w enumeration) option" where
  "add_mux_entries cast block field i [] en = Some (Inr (), en)"
| "add_mux_entries cast block field i (ix # array) en =
     (case output_name block field i of
        None \<Rightarrow> None
      | Some name \<Rightarrow>
          (case add_enumeration cast en name ix of
             None \<Rightarrow> None
           | Some (Inl e, en) \<Rightarrow> Some (Inl e, en)
           | Some (Inr _, en) \<Rightarrow> add_mux_entries cast block field (i + 1) array en))"

definition add_mux_indices ::
    "(u8 \<Rightarrow> 'w::len word) \<Rightarrow> 'w enumeration \<Rightarrow> 'b block \<Rightarrow> 'b field \<Rightarrow> u32 list \<Rightarrow> (unit result \<times> 'w enumeration) option" where
  "add_mux_indices cast en block field array = add_mux_entries cast block field 0 array en"

section \<open>Position multiplexers\<close>

definition POS_BUS_ZERO :: u32 where "POS_BUS_ZERO = 32"

definition initialise_pos_mux :: "(u8 \<Rightarrow> 'w::len word) \<Rightarrow> (unit result \<times> 'w enumeration) option" where
  "initialise_pos_mux cast = add_enumeration cast create_dynamic_enumeration ''ZERO'' POS_BUS_ZERO"

definition add_pos_mux_index ::
    "(u8 \<Rightarrow> 'w::len word) \<Rightarrow> 'w enumeration \<Rightarrow> 'b block \<Rightarrow> 'b field \<Rightarrow> u32 list \<Rightarrow> (unit result \<times> 'w enumeration) option" where
  "add_pos_mux_index cast pos_mux_lookup block field array = add_mux_indices cast pos_mux_lookup block field array"

record pos_mux_value =
  pv_value :: u32
  pv_update_index :: u64

record pos_mux_state =
  pm_block_base :: u32
  pm_mux_reg :: u32
  pm_values :: "pos_mux_value list"

definition pos_mux_init :: "nat \<Rightarrow> pos_mux_state" where
  "pos_mux_init n =
     \<lparr>pm_block_base = 0, pm_mux_reg = 0, pm_values = replicate n \<lparr>pv_value = POS_BUS_ZERO, pv_update_index = 1\<rparr>\<rparr>"

definition pos_mux_parse_register ::
    "nat \<Rightarrow> pos_mux_state \<Rightarrow> u32 \<Rightarrow> string \<Rightarrow> block_type list \<Rightarrow> (unit result \<times> string) \<times> pos_mux_state \<times> block_type list" where
  "pos_mux_parse_register lw state block_base line types =
     (let state = state\<lparr>pm_block_base := block_base\<rparr> in
      case check_parse_register lw block_base line types of
        ((Inl e, line), types) \<Rightarrow> ((Inl e, line), state, types)
      | ((Inr reg, line), types) \<Rightarrow> ((Inr (), line), state\<lparr>pm_mux_reg := reg\<rparr>, types))"

definition pos_mux_finalise :: "'s device \<Rightarrow> pos_mux_state \<Rightarrow> 's \<Rightarrow> 's" where
  "pos_mux_finalise dev state s =
     fold (\<lambda>i. hw_write_register dev (pm_block_base state) (word_of_nat i) (pm_mux_reg state) (pv_value (pm_values state ! i)))
       [0..<length (pm_values state)] s"

definition pos_mux_get :: "'w::len enumeration \<Rightarrow> pos_mux_state \<Rightarrow> u32 \<Rightarrow> nat \<Rightarrow> string result" where
  "pos_mux_get pos_mux_lookup state number len =
     format_enumeration pos_mux_lookup (pv_value (pm_values state ! unat number)) len"

definition pos_mux_put ::
    "'s device \<Rightarrow> 'w::len enumeration \<Rightarrow> pos_mux_state \<Rightarrow> u32 \<Rightarrow> string \<Rightarrow> u64 \<Rightarrow> 's
       \<Rightarrow> (unit result \<times> pos_mux_state \<times> u64 \<times> 's) option" where
  "pos_mux_put dev pos_mux_lookup state number string gci s =
     map_option (\<lambda>r. case r of
        None \<Rightarrow> (fail ''Invalid position selection'', state, gci, s)
      | Some mux_value \<Rightarrow>
          (case get_change_index gci of (ix, gci) \<Rightarrow>
             (Inr (), state\<lparr>pm_values := (pm_values state)[unat number := \<lparr>pv_value = mux_value, pv_update_index = ix\<rparr>]\<rparr>, gci,
              hw_write_register dev (pm_block_base state) number (pm_mux_reg state) mux_value s)))
       (enum_name_to_index pos_mux_lookup string)"

definition pos_mux_change_set :: "pos_mux_state \<Rightarrow> u64 \<Rightarrow> bool list" where
  "pos_mux_change_set state report_index = map (\<lambda>v. pv_update_index v > report_index) (pm_values state)"

section \<open>Bit multiplexers\<close>

definition MAX_BIT_MUX_DELAY :: u32 where "MAX_BIT_MUX_DELAY = 31"
definition BIT_BUS_ZERO :: u32 where "BIT_BUS_ZERO = 128"
definition BIT_BUS_ONE :: u32 where "BIT_BUS_ONE = 129"

record bit_mux_value =
  bv_value :: u32
  bv_delay :: u32
  bv_update_index :: u64

record bit_mux_state =
  bm_block_base :: u32
  bm_mux_reg :: u32
  bm_delay_reg :: u32
  bm_values :: "bit_mux_value list"

definition initialise_bit_out :: "(u8 \<Rightarrow> 'w::len word) \<Rightarrow> (unit result \<times> 'w enumeration) option" where
  "initialise_bit_out cast =
     (case add_enumeration cast create_dynamic_enumeration ''ZERO'' BIT_BUS_ZERO of
        None \<Rightarrow> None
      | Some (Inl e, en) \<Rightarrow> Some (Inl e, en)
      | Some (Inr _, en) \<Rightarrow> add_enumeration cast en ''ONE'' BIT_BUS_ONE)"

definition report_capture_bits :: "'w::len enumeration \<Rightarrow> string list" where
  "report_capture_bits bit_mux_lookup =
     List.map_filter (\<lambda>i. enum_index_to_name bit_mux_lookup (word_of_nat i)) [0..<BIT_BUS_COUNT]"

definition report_capture_bits_group :: "'w::len enumeration \<Rightarrow> u32 \<Rightarrow> string list" where
  "report_capture_bits_group bit_mux_lookup group_index =
     map (\<lambda>i. case enum_index_to_name bit_mux_lookup (32 * group_index + word_of_nat i) of None \<Rightarrow> [] | Some name \<Rightarrow> name) [0..<32]"

definition bit_mux_default :: "nat \<Rightarrow> bit_mux_state \<Rightarrow> bit_mux_state parser" where
  "bit_mux_default lw state line =
     (case read_char (CHR '' '') line of
        (False, line) \<Rightarrow> (Inr state, line)
      | (True, line) \<Rightarrow>
          p_then (parse_char (CHR ''='')) (\<lambda>_. p_then (parse_uint32 lw) (\<lambda>default_value.
            p_return (state\<lparr>bm_values := map (\<lambda>v. v\<lparr>bv_value := default_value\<rparr>) (bm_values state)\<rparr>)))
            (skip_whitespace line))"

definition bit_mux_init :: "nat \<Rightarrow> nat \<Rightarrow> bit_mux_state parser" where
  "bit_mux_init lw n =
     bit_mux_default lw
       \<lparr>bm_block_base = 0, bm_mux_reg = 0, bm_delay_reg = 0,
        bm_values = replicate n \<lparr>bv_value = BIT_BUS_ZERO, bv_delay = 0, bv_update_index = 1\<rparr>\<rparr>"

definition bit_mux_finalise :: "'s device \<Rightarrow> bit_mux_state \<Rightarrow> 's \<Rightarrow> 's" where
  "bit_mux_finalise dev state s =
     fold (\<lambda>i. hw_write_register dev (bm_block_base state) (word_of_nat i) (bm_mux_reg state) (bv_value (bm_values state ! i)))
       [0..<length (bm_values state)] s"

definition bit_mux_parse_register ::
    "nat \<Rightarrow> bit_mux_state \<Rightarrow> u32 \<Rightarrow> string \<Rightarrow> block_type list \<Rightarrow> (unit result \<times> string) \<times> bit_mux_state \<times> block_type list" where
  "bit_mux_parse_register lw state block_base line types =
     (let state = state\<lparr>bm_block_base := block_base\<rparr> in
      case check_parse_register lw block_base line types of
        ((Inl e, line), types) \<Rightarrow> ((Inl e, line), state, types)
      | ((Inr mux_reg, line), types) \<Rightarrow>
          (let state = state\<lparr>bm_mux_reg := mux_reg\<rparr> in
           case parse_whitespace line of
             (Inl e, line) \<Rightarrow> ((Inl e, line), state, types)
           | (Inr _, line) \<Rightarrow>
               (case check_parse_register lw block_base line types of
                  ((Inl e, line), types) \<Rightarrow> ((Inl e, line), state, types)
                | ((Inr delay_reg, line), types) \<Rightarrow> ((Inr (), line), state\<lparr>bm_delay_reg := delay_reg\<rparr>, types))))"

definition bit_mux_get :: "'w::len enumeration \<Rightarrow> bit_mux_state \<Rightarrow> u32 \<Rightarrow> nat \<Rightarrow> string result" where
  "bit_mux_get bit_mux_lookup state number len =
     format_enumeration bit_mux_lookup (bv_value (bm_values state ! unat number)) len"

definition bit_mux_put ::
    "'s device \<Rightarrow> 'w::len enumeration \<Rightarrow> bit_mux_state \<Rightarrow> u32 \<Rightarrow> string \<Rightarrow> u64 \<Rightarrow> 's
       \<Rightarrow> (unit result \<times> bit_mux_state \<times> u64 \<times> 's) option" where
  "bit_mux_put dev bit_mux_lookup state number string gci s =
     map_option (\<lambda>r. case r of
        None \<Rightarrow> (fail ''Invalid bit bus selection'', state, gci, s)
      | Some mux_value \<Rightarrow>
          (case get_change_index gci of (ix, gci) \<Rightarrow>
             (let v = bm_values state ! unat number in
              (Inr (), state\<lparr>bm_values := (bm_values state)[unat number := v\<lparr>bv_value := mux_value, bv_update_index := ix\<rparr>]\<rparr>, gci,
               hw_write_register dev (bm_block_base state) number (bm_mux_reg state) mux_value s))))
       (enum_name_to_index bit_mux_lookup string)"

definition bit_mux_change_set :: "bit_mux_state \<Rightarrow> u64 \<Rightarrow> bool list" where
  "bit_mux_change_set state report_index = map (\<lambda>v. bv_update_index v > report_index) (bm_values state)"

definition bit_mux_delay_format :: "bit_mux_state \<Rightarrow> u32 \<Rightarrow> nat \<Rightarrow> string result" where
  "bit_mux_delay_format state number len = format_string len (show_u32 (bv_delay (bm_values state ! unat number)))"

definition bit_mux_delay_put ::
    "'s device \<Rightarrow> nat \<Rightarrow> bit_mux_state \<Rightarrow> u32 \<Rightarrow> string \<Rightarrow> 's \<Rightarrow> unit result \<times> bit_mux_state \<times> 's" where
  "bit_mux_delay_put dev lw state number string s =
     (case fst (p_then (parse_uint lw) (\<lambda>delay. p_then parse_eos (\<lambda>_. p_return delay)) string) of
        Inl e \<Rightarrow> (Inl e, state, s)
      | Inr delay \<Rightarrow>
          if \<not> delay \<le> MAX_BIT_MUX_DELAY then (fail ''Delay too long'', state, s)
          else
            (Inr (), state\<lparr>bm_values := (bm_values state)[unat number := (bm_values state ! unat number)\<lparr>bv_delay := delay\<rparr>]\<rparr>,
             hw_write_register dev (bm_block_base state) number (bm_delay_reg state) delay s))"

definition bit_mux_max_delay_format :: "nat \<Rightarrow> string result" where
  "bit_mux_max_delay_format len = format_string len (show_u32 MAX_BIT_MUX_DELAY)"

section \<open>Bit outputs\<close>

text \<open>The index of a bit comes from the configuration file unchecked: an access outside the bus has no value.\<close>

record bit_bus =
  bb_value :: "bool list"
  bb_update_index :: "u64 list"

definition bit_at :: "'a list \<Rightarrow> u32 \<Rightarrow> 'a option" where
  "bit_at xs i = (if unat i < length xs then Some (xs ! unat i) else None)"

definition bit_out_get :: "bit_bus \<Rightarrow> u32 list \<Rightarrow> u32 \<Rightarrow> nat \<Rightarrow> string result option" where
  "bit_out_get bus index_array number len =
     map_option (\<lambda>bit. format_string len (if bit then ''1'' else ''0'')) (bit_at (bb_value bus) (index_array ! unat number))"

definition bit_out_change_set :: "bit_bus \<Rightarrow> u32 list \<Rightarrow> u64 \<Rightarrow> bool list option" where
  "bit_out_change_set bus index_array report_index =
     those (map (\<lambda>i. map_option (\<lambda>ix. ix > report_index) (bit_at (bb_update_index bus) i)) index_array)"

definition bit_out_parse_register ::
    "(u8 \<Rightarrow> 'w::len word) \<Rightarrow> nat \<Rightarrow> 'w enumeration \<Rightarrow> 'b block \<Rightarrow> 'b field \<Rightarrow> nat \<Rightarrow> string
       \<Rightarrow> ((u32 list result \<times> string) \<times> 'w enumeration) option" where
  "bit_out_parse_register cast lw bit_mux_lookup block field n line =
     (case parse_uint_array lw n line of
        (Inl e, line) \<Rightarrow> Some ((Inl e, line), bit_mux_lookup)
      | (Inr index_array, line) \<Rightarrow>
          map_option (\<lambda>(r, en). ((and_then r (\<lambda>_. Inr index_array), line), en))
            (add_mux_indices cast bit_mux_lookup block field index_array))"

definition set_bit_group_name :: "u32 \<Rightarrow> string \<Rightarrow> string option list \<Rightarrow> string option list option" where
  "set_bit_group_name group_index name group_name =
     (if unat group_index < length group_name then Some (group_name[unat group_index := Some name]) else None)"

definition capture_word_format :: "string option list \<Rightarrow> u32 list \<Rightarrow> u32 \<Rightarrow> nat \<Rightarrow> string result option" where
  "capture_word_format group_name index_array number len =
     Option.bind (bit_at group_name (index_array ! unat number div 32)) (map_option (format_string len))"

definition offset_format :: "u32 list \<Rightarrow> u32 \<Rightarrow> nat \<Rightarrow> string result" where
  "offset_format index_array number len = format_string len (show_u32 (index_array ! unat number mod 32))"

definition do_bit_out_refresh :: "'s device \<Rightarrow> reg_header \<Rightarrow> u64 \<Rightarrow> bit_bus \<Rightarrow> 's \<Rightarrow> bit_bus \<times> 's" where
  "do_bit_out_refresh dev hdr change_index bus s =
     (case hw_read_bits dev hdr s of (vals, changes, s) \<Rightarrow>
        (bus\<lparr>bb_value := vals,
             bb_update_index := map (\<lambda>i. if changes ! i \<and> change_index > bb_update_index bus ! i then change_index
               else bb_update_index bus ! i) [0..<BIT_BUS_COUNT]\<rparr>, s))"

definition bit_out_refresh :: "'s device \<Rightarrow> reg_header \<Rightarrow> bit_bus \<Rightarrow> u64 \<Rightarrow> 's \<Rightarrow> bit_bus \<times> u64 \<times> 's" where
  "bit_out_refresh dev hdr bus gci s =
     (case get_change_index gci of (ix, gci) \<Rightarrow>
        (case do_bit_out_refresh dev hdr ix bus s of (bus, s) \<Rightarrow> (bus, gci, s)))"

section \<open>Selecting an output by its name\<close>

definition mux_labels :: "'b block \<Rightarrow> 'b field \<Rightarrow> u32 list \<Rightarrow> (string \<times> u32) list" where
  "mux_labels block field array = map (\<lambda>i. (the (output_name block field (word_of_nat i)), array ! i)) [0..<length array]"

lemma add_mux_entries_labels:
  assumes "\<And>j. j < length array \<Longrightarrow> output_name block field (i + word_of_nat j) \<noteq> None"
  shows "add_mux_entries cast block field i array en =
    add_labels (add_enumeration cast) (map (\<lambda>j. (the (output_name block field (i + word_of_nat j)), array ! j)) [0..<length array]) en"
  using assms
proof (induction array arbitrary: i en)
  case (Cons ix array)
  obtain name where name: "output_name block field i = Some name" using Cons.prems [of 0] by auto
  have "map (\<lambda>j. (the (output_name block field (i + word_of_nat j)), (ix # array) ! j)) [0..<length (ix # array)] =
      (name, ix) # map (\<lambda>j. (the (output_name block field (i + 1 + word_of_nat j)), array ! j)) [0..<length array]"
    using name by (simp add: upt_conv_Cons map_Suc_upt [symmetric] algebra_simps del: upt_Suc)
  moreover have "output_name block field (i + 1 + word_of_nat j) \<noteq> None" if "j < length array" for j
    using Cons.prems [of "Suc j"] that by (simp add: algebra_simps)
  ultimately show ?case using Cons.IH [of "i + 1"] name by (auto split: option.splits sum.splits prod.splits)
qed simp

lemma add_mux_entries_named:
  "add_mux_entries cast block field i array en = Some (Inr u, lk) \<Longrightarrow> j < length array \<Longrightarrow>
   output_name block field (i + word_of_nat j) \<noteq> None"
proof (induction array arbitrary: i j en)
  case (Cons ix array)
  show ?case
  proof (cases j)
    case 0
    with Cons.prems show ?thesis by (auto split: option.splits)
  next
    case (Suc k)
    from Cons.prems(1) obtain en' where "add_mux_entries cast block field (i + 1) array en' = Some (Inr u, lk)"
      by (auto split: option.splits sum.splits prod.splits)
    from Cons.IH [OF this, of k] Suc Cons.prems(2) show ?thesis by (simp add: algebra_simps)
  qed
qed simp

text \<open>The enumerations of the two buses: consistent, and with room for the outputs still to come.\<close>

definition mux_kept :: "'w::len enumeration \<Rightarrow> nat \<Rightarrow> bool" where
  "mux_kept en n = ((enum_inv en \<and> 0 < set_capacity en) \<and> enum_room n en)"

lemma mux_accepted:
  assumes "mux_kept en (length array)" "add_mux_indices cast en block field array = Some (Inr (), lk)"
  shows "enum_inv lk \<and> 0 < set_capacity lk" "enum_map lk = enum_map en ++ label_map_of (mux_labels block field array)"
    "distinct array" "\<And>i. i < length array \<Longrightarrow> output_name block field (word_of_nat i) \<noteq> None"
proof -
  have kept: "enum_inv en \<and> 0 < set_capacity en" "enum_room (length (mux_labels block field array)) en"
    using assms(1) by (auto simp: mux_kept_def mux_labels_def)
  have named: "output_name block field (0 + word_of_nat j) \<noteq> None" if "j < length array" for j
    using add_mux_entries_named [OF assms(2) [unfolded add_mux_indices_def] that] .
  then show "\<And>i. i < length array \<Longrightarrow> output_name block field (word_of_nat i) \<noteq> None" by simp
  have "add_labels (add_enumeration cast) (mux_labels block field array) en = Some (Inr (), lk)"
    using assms(2) add_mux_entries_labels [of array block field 0 cast en] named
    by (simp add: add_mux_indices_def mux_labels_def)
  with enums.add_labels_accepted [OF kept, of cast]
  have "(enum_inv lk \<and> 0 < set_capacity lk) \<and> distinct (map snd (mux_labels block field array)) \<and>
      enum_map lk = enum_map en ++ label_map_of (mux_labels block field array)" by auto
  moreover have "map snd (mux_labels block field array) = array"
    by (rule nth_equalityI) (simp_all add: mux_labels_def)
  ultimately show "enum_inv lk \<and> 0 < set_capacity lk"
    "enum_map lk = enum_map en ++ label_map_of (mux_labels block field array)" "distinct array" by auto
qed

lemma mux_name_selects:
  assumes "mux_kept en (length array)" "add_mux_indices cast en block field array = Some (Inr (), lk)"
    "i < length array" "output_name block field (word_of_nat i) = Some name"
  shows "enum_name_to_index lk name = Some (Some (array ! i))" "enum_index_to_name lk (array ! i) = Some name"
proof -
  note acc = mux_accepted [OF assms(1,2)]
  have "distinct (map fst (map (\<lambda>(s, v). (v, s)) (mux_labels block field array)))"
  proof -
    have "map fst (map (\<lambda>(s, v). (v, s)) (mux_labels block field array)) = array"
      by (rule nth_equalityI) (simp_all add: mux_labels_def)
    with acc(3) show ?thesis by simp
  qed
  moreover have "(array ! i, name) \<in> set (map (\<lambda>(s, v). (v, s)) (mux_labels block field array))"
    using assms(3,4) by (force simp: mux_labels_def)
  ultimately have "label_map_of (mux_labels block field array) (array ! i) = Some name"
    unfolding label_map_of_def by (rule map_of_is_SomeI)
  then have lab: "enum_map lk (array ! i) = Some name" unfolding acc(2) by simp
  from enums.search_label [OF acc(1) this] show "enum_name_to_index lk name = Some (Some (array ! i))" .
  then show "enum_index_to_name lk (array ! i) = Some name" using enum_search_iff acc(1) by blast
qed

text \<open>
  C21: once the configuration file has given an output its entries on a bus, setting a multiplexer to the name
  of one of these outputs writes the index of its entry into the register of the multiplexer, marks only this
  multiplexer as changed, and the name is what reading the multiplexer returns; on the position bus and on
  the bit bus alike.\<close>

theorem mux_selects_output:
  assumes "mux_kept en (length array)" "add_mux_indices cast en block field array = Some (Inr (), lk)"
    and "i < length array" "output_name block field (word_of_nat i) = Some name" "length name < len"
    and "unat number < length (pm_values pm)" "unat number < length (bm_values bm)" "gci < gci + 1"
  shows "(\<exists>pm'. pos_mux_put dev lk pm number name gci s =
        Some (Inr (), pm', gci + 1, hw_write_register dev (pm_block_base pm) number (pm_mux_reg pm) (array ! i) s) \<and>
      pos_mux_get lk pm' number len = Inr name \<and>
      pos_mux_change_set pm' gci = (pos_mux_change_set pm gci)[unat number := True]) \<and>
    (\<exists>bm'. bit_mux_put dev lk bm number name gci s =
        Some (Inr (), bm', gci + 1, hw_write_register dev (bm_block_base bm) number (bm_mux_reg bm) (array ! i) s) \<and>
      bit_mux_get lk bm' number len = Inr name \<and>
      bit_mux_change_set bm' gci = (bit_mux_change_set bm gci)[unat number := True] \<and>
      map bv_delay (bm_values bm') = map bv_delay (bm_values bm))"
proof -
  note sel = mux_name_selects [OF assms(1-4)]
  have get: "format_enumeration lk (array ! i) len = Inr name"
    using assms(5) by (simp add: format_enumeration_def sel(2) format_string_def)
  show ?thesis
    using assms(6-8) get
    by (simp add: pos_mux_put_def bit_mux_put_def sel(1) get_change_index_def pos_mux_get_def bit_mux_get_def
        pos_mux_change_set_def bit_mux_change_set_def map_update Let_def)
      (metis (no_types, lifting) bit_mux_value.select_convs(2) bit_mux_value.surjective bit_mux_value.update_convs(1,3) list_update_id map_update nth_map)
qed

definition single_output :: "unit block" where
  "single_output = sample_block\<lparr>bk_count := 1\<rparr>"

lemma single_output_name: "output_name single_output sample_field i = Some ''TTLIN.TERM''"
  by (simp add: output_name_def format_field_name_def single_output_def sample_block_def sample_field_def MAX_NAME_LENGTH_def)

lemma single_output_mux:
  obtains lk :: "32 enumeration"
  where "add_mux_indices ucast create_dynamic_enumeration single_output sample_field [7] = Some (Inr (), lk)"
proof -
  note kept = create_dynamic_enumeration_kept [where 'w = 32]
  have "enum_room (length [(''TTLIN.TERM'', 7 :: u32)]) (create_dynamic_enumeration :: 32 enumeration)"
    by (rule create_dynamic_enumeration_room) simp
  from enums.add_labels_distinct [OF conjI [OF kept(1,2)] this, of ucast] obtain lk :: "32 enumeration" where
    "add_labels (add_enumeration ucast) [(''TTLIN.TERM'', 7)] create_dynamic_enumeration = Some (Inr (), lk)"
    by (auto simp: kept)
  with that show thesis
    by (simp add: add_mux_indices_def single_output_name split: option.splits sum.splits prod.splits)
qed

theorem mux_selects_output_witness:
  "\<exists>(lk :: 32 enumeration) pm'. add_mux_indices ucast create_dynamic_enumeration single_output sample_field [7] = Some (Inr (), lk) \<and>
    pos_mux_put memory_device lk (pos_mux_init 2) 1 ''TTLIN.TERM'' 5 (\<lambda>_. 0) =
      Some (Inr (), pm', 6, hw_write_register memory_device 0 1 0 7 (\<lambda>_. 0)) \<and>
    pos_mux_get lk pm' 1 256 = Inr ''TTLIN.TERM'' \<and> pos_mux_change_set pm' 5 = [False, True]"
proof -
  obtain lk :: "32 enumeration"
    where lk: "add_mux_indices ucast create_dynamic_enumeration single_output sample_field [7] = Some (Inr (), lk)"
    by (rule single_output_mux)
  have kept: "mux_kept (create_dynamic_enumeration :: 32 enumeration) (length [7 :: u32])"
    using create_dynamic_enumeration_kept [where 'w = 32] create_dynamic_enumeration_room [of 1, where 'w = 32]
    by (simp add: mux_kept_def)
  have "(0 :: nat) < length [7 :: u32]" "output_name single_output sample_field (word_of_nat 0) = Some ''TTLIN.TERM''"
    "length ''TTLIN.TERM'' < 256" "unat (1 :: u32) < length (pm_values (pos_mux_init 2))"
    "unat (1 :: u32) < length (bm_values \<lparr>bm_block_base = 0, bm_mux_reg = 0, bm_delay_reg = 1,
        bm_values = replicate 2 \<lparr>bv_value = 0, bv_delay = 0, bv_update_index = 1\<rparr>\<rparr>)" "(5 :: u64) < 5 + 1"
    by (simp_all add: single_output_name pos_mux_init_def)
  moreover have "(replicate 2 False)[Suc 0 := True] = [False, True]" by (simp add: numeral_2_eq_2)
  ultimately show ?thesis
    using mux_selects_output [OF kept lk, of 0 "''TTLIN.TERM''" 256 1 "pos_mux_init 2" "\<lparr>bm_block_base = 0, bm_mux_reg = 0, bm_delay_reg = 1,
        bm_values = replicate 2 \<lparr>bv_value = 0, bv_delay = 0, bv_update_index = 1\<rparr>\<rparr>" 5 memory_device "\<lambda>_. 0"] lk
    by (auto simp: pos_mux_init_def pos_mux_change_set_def)
qed

end
