(* ===== verification/Panda_Output.thy ===== *)
theory Panda_Output
  imports Panda_Header Panda_Mux
begin

text \<open>
  \<^verbatim>\<open>pos_out.c\<close>, \<^verbatim>\<open>ext_out.c\<close>, \<^verbatim>\<open>output.c\<close> and the last part of \<^verbatim>\<open>prepare.c\<close>: the outputs that can be captured,
  what has been selected of each, and the fields of a capture.
\<close>

section \<open>Capture options\<close>

definition POS_OUT_CAPTURE_MEAN :: nat where "POS_OUT_CAPTURE_MEAN = 5"
definition POS_OUT_CAPTURE_STDDEV :: nat where "POS_OUT_CAPTURE_STDDEV = 6"
definition CAPTURE_MEAN_BIT :: u32 where "CAPTURE_MEAN_BIT = push_bit POS_OUT_CAPTURE_MEAN 1"
definition CAPTURE_STDDEV_BIT :: u32 where "CAPTURE_STDDEV_BIT = push_bit POS_OUT_CAPTURE_STDDEV 1"

record capture_option =
  co_option_name :: string
  co_capture_mode :: capture_mode
  co_capture_index :: "u32 list"

text \<open>The table, in the order of the bits; members that are not given are 0.\<close>

definition capture_option_info :: "capture_option list" where
  "capture_option_info =
     (let info = (\<lambda>name mode index. \<lparr>co_option_name = name, co_capture_mode = mode,
            co_capture_index = index @ replicate (CAPTURE_INDEX_SIZE - length index) 0\<rparr>) in
      [info ''Value'' CAPTURE_MODE_SCALED32 [0],
       info ''Diff'' CAPTURE_MODE_SCALED32 [1],
       info ''Sum'' CAPTURE_MODE_SCALED64 [2, 3],
       info ''Min'' CAPTURE_MODE_SCALED32 [4],
       info ''Max'' CAPTURE_MODE_SCALED32 [5],
       info ''Mean'' CAPTURE_MODE_AVERAGE [2, 3],
       info ''StdDev'' CAPTURE_MODE_STDDEV [2, 3, 6, 7, 8]])"

definition nominal_capture_masks :: "u32 list" where
  "nominal_capture_masks = [0, 1, 2, 4, 32, 8, 16, 24, 56, 64, 96]"

definition mask_bit :: "u32 \<Rightarrow> nat \<Rightarrow> bool" where
  "mask_bit msk i = (msk AND push_bit i 1 \<noteq> 0)"

section \<open>Position outputs\<close>

record 'd pos_out_field =
  pf_scale :: 'd
  pf_offset :: 'd
  pf_units :: "string option"
  pf_capture_index :: u32
  pf_capture_mask :: u32

text \<open>\<open>po_capture_attr\<close> holds the change indices of the \<^verbatim>\<open>CAPTURE\<close> attribute.\<close>

record 'd pos_out =
  po_capture_attr :: "u64 list"
  po_values :: "'d pos_out_field list"

record pos_bus =
  pb_value :: "u32 list"
  pb_update_index :: "u64 list"

definition do_pos_out_refresh :: "'s device \<Rightarrow> reg_header \<Rightarrow> u64 \<Rightarrow> pos_bus \<Rightarrow> 's \<Rightarrow> pos_bus \<times> 's" where
  "do_pos_out_refresh dev hdr change_index bus s =
     (case hw_read_positions dev hdr s of (vals, changes, s) \<Rightarrow>
        (bus\<lparr>pb_value := vals,
             pb_update_index := map (\<lambda>i. if changes ! i \<and> change_index > pb_update_index bus ! i then change_index
               else pb_update_index bus ! i) [0..<POS_BUS_COUNT]\<rparr>, s))"

definition pos_out_refresh :: "'s device \<Rightarrow> reg_header \<Rightarrow> pos_bus \<Rightarrow> u64 \<Rightarrow> 's \<Rightarrow> pos_bus \<times> u64 \<times> 's" where
  "pos_out_refresh dev hdr bus gci s =
     (case get_change_index gci of (ix, gci) \<Rightarrow>
        (case do_pos_out_refresh dev hdr ix bus s of (bus, s) \<Rightarrow> (bus, gci, s)))"

definition read_pos_out_value :: "'d pos_out \<Rightarrow> pos_bus \<Rightarrow> u32 \<Rightarrow> u32" where
  "read_pos_out_value pos_out bus number =
     pb_value bus ! unat (pf_capture_index (po_values pos_out ! unat number))"

definition pos_out_get :: "'d pos_out \<Rightarrow> pos_bus \<Rightarrow> u32 \<Rightarrow> nat \<Rightarrow> string result" where
  "pos_out_get pos_out bus number len = format_string len (show_int (read_pos_out_value pos_out bus number))"

definition pos_out_change_set :: "'d pos_out \<Rightarrow> pos_bus \<Rightarrow> u64 \<Rightarrow> bool list" where
  "pos_out_change_set pos_out bus report_index =
     map (\<lambda>field. pb_update_index bus ! unat (pf_capture_index field) > report_index) (po_values pos_out)"

section \<open>Scaling and units\<close>

definition pos_out_scaled_format :: "'d fp_ops \<Rightarrow> 'd pos_out \<Rightarrow> pos_bus \<Rightarrow> u32 \<Rightarrow> nat \<Rightarrow> string result" where
  "pos_out_scaled_format fp pos_out bus number len =
     (let field = po_values pos_out ! unat number;
          v = fp_of_int fp (sint (read_pos_out_value pos_out bus number)) in
      format_double fp len (fp_add fp (fp_mul fp v (pf_scale field)) (pf_offset field)))"

definition update_pos_out :: "u32 \<Rightarrow> ('d pos_out_field \<Rightarrow> 'd pos_out_field) \<Rightarrow> 'd pos_out \<Rightarrow> 'd pos_out" where
  "update_pos_out number f pos_out =
     pos_out\<lparr>po_values := (po_values pos_out)[unat number := f (po_values pos_out ! unat number)]\<rparr>"

definition pos_out_scale_format :: "'d fp_ops \<Rightarrow> 'd pos_out \<Rightarrow> u32 \<Rightarrow> nat \<Rightarrow> string result" where
  "pos_out_scale_format fp pos_out number len = format_double fp len (pf_scale (po_values pos_out ! unat number))"

definition pos_out_scale_put :: "'d fp_ops \<Rightarrow> 'd pos_out \<Rightarrow> u32 \<Rightarrow> string \<Rightarrow> unit result \<times> 'd pos_out" where
  "pos_out_scale_put fp pos_out number v =
     (case fst (p_then (parse_double fp) (\<lambda>scale. p_then parse_eos (\<lambda>_. p_return scale)) v) of
        Inl e \<Rightarrow> (Inl e, pos_out)
      | Inr scale \<Rightarrow> (Inr (), update_pos_out number (pf_scale_update (\<lambda>_. scale)) pos_out))"

definition pos_out_offset_format :: "'d fp_ops \<Rightarrow> 'd pos_out \<Rightarrow> u32 \<Rightarrow> nat \<Rightarrow> string result" where
  "pos_out_offset_format fp pos_out number len = format_double fp len (pf_offset (po_values pos_out ! unat number))"

definition pos_out_offset_put :: "'d fp_ops \<Rightarrow> 'd pos_out \<Rightarrow> u32 \<Rightarrow> string \<Rightarrow> unit result \<times> 'd pos_out" where
  "pos_out_offset_put fp pos_out number v =
     (case fst (p_then (parse_double fp) (\<lambda>offset. p_then parse_eos (\<lambda>_. p_return offset)) v) of
        Inl e \<Rightarrow> (Inl e, pos_out)
      | Inr offset \<Rightarrow> (Inr (), update_pos_out number (pf_offset_update (\<lambda>_. offset)) pos_out))"

definition pos_out_units_format :: "'d pos_out \<Rightarrow> u32 \<Rightarrow> nat \<Rightarrow> string result" where
  "pos_out_units_format pos_out number len =
     format_string len (case pf_units (po_values pos_out ! unat number) of None \<Rightarrow> [] | Some units \<Rightarrow> units)"

definition pos_out_units_put :: "'d pos_out \<Rightarrow> u32 \<Rightarrow> string \<Rightarrow> unit result \<times> 'd pos_out" where
  "pos_out_units_put pos_out number v =
     (case fst (parse_utf8_string v) of
        Inl e \<Rightarrow> (Inl e, pos_out)
      | Inr units \<Rightarrow> (Inr (), update_pos_out number (pf_units_update (\<lambda>_. Some units)) pos_out))"

section \<open>Capture control\<close>

text \<open>The loop of \<^verbatim>\<open>format_capture_string\<close> over the remaining options; the result is what is left in the buffer.\<close>

fun format_options :: "u32 \<Rightarrow> nat \<Rightarrow> nat \<Rightarrow> capture_option list \<Rightarrow> string \<Rightarrow> unit result \<times> string" where
  "format_options msk len i [] buffer = (Inr (), if buffer = [] then ''No'' else buffer)"
| "format_options msk len i (info # infos) buffer =
     (if mask_bit msk i then
        (let option = co_option_name info in
         if length buffer + (if buffer \<noteq> [] then 1 else 0) + length option + 1 < len then
           format_options msk len (i + 1) infos (buffer @ (if buffer \<noteq> [] then '' '' else []) @ option)
         else (fail ''Unexpected buffer overflow in pos_out format'', take len ''(overflow)''))
      else format_options msk len (i + 1) infos buffer)"

definition format_capture_string :: "u32 \<Rightarrow> nat \<Rightarrow> unit result \<times> string" where
  "format_capture_string capture_mask len = format_options capture_mask len 0 capture_option_info []"

definition pos_out_capture_format :: "'d pos_out \<Rightarrow> u32 \<Rightarrow> nat \<Rightarrow> unit result \<times> string" where
  "pos_out_capture_format pos_out number len =
     format_capture_string (pf_capture_mask (po_values pos_out ! unat number)) len"

lemma parse_name_shorter: "parse_name n v = (Inr option, rest) \<Longrightarrow> length rest < length v"
proof -
  assume "parse_name n v = (Inr option, rest)"
  then obtain name where "copy_filtered valid_name_char n v = (name, rest)" "name \<noteq> []"
    by (auto simp: parse_name_def parse_filtered_name_def Let_def and_then_eq_Inr split: if_splits prod.splits)
  with copy_filtered_spec [OF this(1)] show ?thesis by simp
qed

function parse_capture_options :: "'w::len enumeration \<Rightarrow> u32 \<Rightarrow> string \<Rightarrow> u32 result option" where
  "parse_capture_options lk capture_mask v =
     (if v = [] then Some (Inr capture_mask)
      else
        (case parse_name MAX_NAME_LENGTH v of
           (Inl e, v) \<Rightarrow> Some (Inl e)
         | (Inr option, v) \<Rightarrow>
             (case enum_name_to_index lk option of
                None \<Rightarrow> None
              | Some None \<Rightarrow> Some (fail ''Unknown capture option'')
              | Some (Some capture_index) \<Rightarrow>
                  parse_capture_options lk (capture_mask OR push_bit (unat capture_index) 1) (skip_whitespace v))))"
  by auto

termination
  by (relation "measure (length \<circ> snd \<circ> snd)")
    (auto dest!: parse_name_shorter [OF sym] intro: le_less_trans [OF length_skip_whitespace])

declare parse_capture_options.simps [simp del]

definition pos_out_capture_put ::
    "'w::len enumeration \<Rightarrow> 'd pos_out \<Rightarrow> u32 \<Rightarrow> string \<Rightarrow> (unit result \<times> 'd pos_out) option" where
  "pos_out_capture_put lk pos_out number v =
     map_option (\<lambda>r. case r of
        Inl e \<Rightarrow> (Inl e, pos_out)
      | Inr msk \<Rightarrow> (Inr (), update_pos_out number (pf_capture_mask_update (\<lambda>_. msk)) pos_out))
       (if v \<noteq> ''No'' then parse_capture_options lk 0 v else Some (Inr 0))"

text \<open>The lists of options and of nominal choices, read from the capabilities of the FPGA.\<close>

definition FPGA_CAPABILITY_STDDEV :: u32 where "FPGA_CAPABILITY_STDDEV = 1"

definition available_options :: "bool \<Rightarrow> nat list" where
  "available_options enable_std_dev =
     filter (\<lambda>i. enable_std_dev \<or> i \<noteq> POS_OUT_CAPTURE_STDDEV) [0..<length capture_option_info]"

definition get_capture_options :: "'s device \<Rightarrow> reg_header \<Rightarrow> 's \<Rightarrow> string list \<times> 's" where
  "get_capture_options dev hdr s =
     (case hw_read_fpga_capabilities dev hdr s of (caps, s) \<Rightarrow>
        (map (\<lambda>i. co_option_name (capture_option_info ! i)) (available_options (caps AND FPGA_CAPABILITY_STDDEV \<noteq> 0)), s))"

definition get_capture_enums :: "'w::len enumeration \<Rightarrow> string option list" where
  "get_capture_enums pos_out_capture_enum = write_enum_labels pos_out_capture_enum"

definition initialise_keyword_lookup :: "(u8 \<Rightarrow> 'w::len word) \<Rightarrow> bool \<Rightarrow> (unit result \<times> 'w enumeration) option" where
  "initialise_keyword_lookup cast enable_std_dev =
     add_labels (add_enumeration cast)
       (map (\<lambda>i. (co_option_name (capture_option_info ! i), word_of_nat i)) (available_options enable_std_dev))
       create_dynamic_enumeration"

fun add_nominal_masks ::
    "(u8 \<Rightarrow> 'w::len word) \<Rightarrow> bool \<Rightarrow> nat \<Rightarrow> u32 list \<Rightarrow> 'w enumeration \<Rightarrow> (unit result \<times> 'w enumeration) option" where
  "add_nominal_masks cast enable_std_dev i [] en = Some (Inr (), en)"
| "add_nominal_masks cast enable_std_dev i (capture_mask # masks) en =
     (if enable_std_dev \<or> capture_mask AND CAPTURE_STDDEV_BIT = 0 then
        (case format_capture_string capture_mask 64 of
           (Inl e, _) \<Rightarrow> Some (Inl e, en)
         | (Inr _, capture_string) \<Rightarrow>
             (case add_enumeration cast en capture_string (word_of_nat i) of
                None \<Rightarrow> None
              | Some (Inl e, en) \<Rightarrow> Some (Inl e, en)
              | Some (Inr _, en) \<Rightarrow> add_nominal_masks cast enable_std_dev (i + 1) masks en))
      else add_nominal_masks cast enable_std_dev (i + 1) masks en)"

definition initialise_available_enums :: "(u8 \<Rightarrow> 'w::len word) \<Rightarrow> bool \<Rightarrow> (unit result \<times> 'w enumeration) option" where
  "initialise_available_enums cast enable_std_dev =
     add_nominal_masks cast enable_std_dev 0 nominal_capture_masks create_dynamic_enumeration"

definition initialise_pos_out ::
    "(u8 \<Rightarrow> 'w::len word) \<Rightarrow> 's device \<Rightarrow> reg_header \<Rightarrow> 's \<Rightarrow> ((('w enumeration \<times> 'w enumeration) result) \<times> 's) option" where
  "initialise_pos_out cast dev hdr s =
     (case hw_read_fpga_capabilities dev hdr s of (caps, s) \<Rightarrow>
        (let enable_std_dev = (caps AND FPGA_CAPABILITY_STDDEV \<noteq> 0) in
         case initialise_keyword_lookup cast enable_std_dev of
           None \<Rightarrow> None
         | Some (Inl e, _) \<Rightarrow> Some (Inl e, s)
         | Some (Inr _, lk) \<Rightarrow>
             map_option (\<lambda>(r, en). (and_then r (\<lambda>_. Inr (lk, en)), s)) (initialise_available_enums cast enable_std_dev)))"

section \<open>Capture information of a position output\<close>

definition CAPTURE_POS_BUS :: "u32 \<Rightarrow> u32 \<Rightarrow> u32" where
  "CAPTURE_POS_BUS pos_ix mode = push_bit 4 (pos_ix AND 0x1F) OR (mode AND 0xF)"

definition CAPTURE_EXT_BUS :: "u32 \<Rightarrow> u32" where
  "CAPTURE_EXT_BUS ext_ix = push_bit 9 1 OR push_bit 4 (ext_ix AND 0xF)"

text \<open>
  Units that were never set are a null pointer: \<open>null_text\<close> is what the C library prints for it.  The name of the
  field is filled in later.
\<close>

definition pos_out_info :: "string \<Rightarrow> 'd pos_out_field \<Rightarrow> capture_option \<Rightarrow> 'd capture_info" where
  "pos_out_info null_text field info =
     \<lparr>ci_capture_index = map (CAPTURE_POS_BUS (pf_capture_index field)) (co_capture_index info),
      ci_capture_mode = co_capture_mode info, ci_field_name = [], ci_capture_string = co_option_name info,
      ci_scale = pf_scale field, ci_offset = pf_offset field,
      ci_units = take (MAX_NAME_LENGTH - 1) (case pf_units field of None \<Rightarrow> null_text | Some units \<Rightarrow> units),
      ci_capture_mean = (pf_capture_mask field AND CAPTURE_MEAN_BIT \<noteq> 0)\<rparr>"

definition captured_option :: "u32 \<Rightarrow> nat \<Rightarrow> bool" where
  "captured_option capture_mask i =
     (mask_bit capture_mask i \<and> \<not> (i = POS_OUT_CAPTURE_MEAN \<and> capture_mask AND CAPTURE_STDDEV_BIT \<noteq> 0))"

definition get_pos_out_capture_info :: "string \<Rightarrow> 'd pos_out \<Rightarrow> u32 \<Rightarrow> 'd capture_info list" where
  "get_pos_out_capture_info null_text pos_out number =
     (let field = po_values pos_out ! unat number in
      map (\<lambda>i. pos_out_info null_text field (capture_option_info ! i))
        (filter (captured_option (pf_capture_mask field)) [0..<length capture_option_info]))"

definition reset_pos_out_capture :: "'d pos_out \<Rightarrow> u32 \<Rightarrow> u64 \<Rightarrow> 'd pos_out \<times> u64" where
  "reset_pos_out_capture pos_out number gci =
     (if pf_capture_mask (po_values pos_out ! unat number) \<noteq> 0 then
        (case get_change_index gci of (ix, gci) \<Rightarrow>
           ((update_pos_out number (pf_capture_mask_update (\<lambda>_. 0)) pos_out)
              \<lparr>po_capture_attr := (po_capture_attr pos_out)[unat number := ix]\<rparr>, gci))
      else (pos_out, gci))"

text \<open>The result buffer has \<open>len\<close> bytes; the name goes in first and the options after it.\<close>

definition report_pos_out_capture :: "nat \<Rightarrow> 'd pos_out \<Rightarrow> u32 \<Rightarrow> string \<Rightarrow> string list" where
  "report_pos_out_capture len pos_out number field_name =
     (let capture_mask = pf_capture_mask (po_values pos_out ! unat number);
          name = field_name @ '' '' in
      if capture_mask \<noteq> 0 then [name @ snd (format_capture_string capture_mask (len - length name))] else [])"

section \<open>Creation of position outputs\<close>

definition create_pos_out :: "nat \<Rightarrow> 'd \<Rightarrow> 'd \<Rightarrow> string option \<Rightarrow> 'd pos_out" where
  "create_pos_out n scale offset units =
     \<lparr>po_capture_attr = replicate n 1,
      po_values = replicate n \<lparr>pf_scale = scale, pf_offset = offset, pf_units = units, pf_capture_index = 0, pf_capture_mask = 0\<rparr>\<rparr>"

definition pos_out_init :: "'d fp_ops \<Rightarrow> nat \<Rightarrow> 'd pos_out parser" where
  "pos_out_init fp n line =
     (let scale0 = fp_literal fp ''1.0''; offset0 = fp_literal fp ''0.0'' in
      case read_char (CHR '' '') line of
        (False, line) \<Rightarrow> (Inr (create_pos_out n scale0 offset0 None), line)
      | (True, line) \<Rightarrow>
          p_then (parse_double fp) (\<lambda>scale line. case read_char (CHR '' '') line of
              (False, line) \<Rightarrow> (Inr (create_pos_out n scale offset0 None), line)
            | (True, line) \<Rightarrow>
                p_then (parse_double fp) (\<lambda>offset line. case read_char (CHR '' '') line of
                    (False, line) \<Rightarrow> (Inr (create_pos_out n scale offset None), line)
                  | (True, line) \<Rightarrow> p_then parse_utf8_string (\<lambda>units. p_return (create_pos_out n scale offset (Some units))) line)
                  line) line)"

fun assign_values :: "nat \<Rightarrow> u32 list \<Rightarrow> bool list \<Rightarrow> 'd pos_out \<Rightarrow> unit result \<times> bool list \<times> 'd pos_out" where
  "assign_values i [] busy pos_out = (Inr (), busy, pos_out)"
| "assign_values i (v # vals) busy pos_out =
     (if \<not> v < word_of_nat POS_BUS_COUNT then (fail ''Capture index out of range'', busy, pos_out)
      else if busy ! unat v then (fail ''Capture index already used'', busy, pos_out)
      else assign_values (i + 1) vals (busy[unat v := True])
        (pos_out\<lparr>po_values := (po_values pos_out)[i := (po_values pos_out ! i)\<lparr>pf_capture_index := v\<rparr>]\<rparr>))"

definition assign_capture_values :: "'d pos_out \<Rightarrow> u32 list \<Rightarrow> bool list \<Rightarrow> unit result \<times> bool list \<times> 'd pos_out" where
  "assign_capture_values pos_out vals pos_bus_index_used = assign_values 0 vals pos_bus_index_used pos_out"

section \<open>Extension outputs\<close>

datatype ext_out_type = EXT_OUT_TIMESTAMP | EXT_OUT_SAMPLES | EXT_OUT_BITS

record ext_out =
  eo_ext_type :: ext_out_type
  eo_bit_group :: u32
  eo_registers :: "u32 \<times> u32"
  eo_capture_attr :: u64
  eo_capture :: bool

definition bits_get_many :: "'w::len enumeration \<Rightarrow> ext_out \<Rightarrow> string list" where
  "bits_get_many bit_mux_lookup ext_out = report_capture_bits_group bit_mux_lookup (eo_bit_group ext_out)"

definition ext_out_describe :: "ext_out \<Rightarrow> string" where
  "ext_out_describe ext_out =
     (case eo_ext_type ext_out of EXT_OUT_TIMESTAMP \<Rightarrow> ''timestamp'' | EXT_OUT_SAMPLES \<Rightarrow> ''samples'' | EXT_OUT_BITS \<Rightarrow> ''bits'')"

definition ext_out_capture_enum_set :: enum_set where
  "ext_out_capture_enum_set = [\<lparr>ee_value = 0, ee_name = Some ''No''\<rparr>, \<lparr>ee_value = 1, ee_name = Some ''Value''\<rparr>]"

definition initialise_ext_out :: "(u8 \<Rightarrow> 'w::len word) \<Rightarrow> 'w enumeration option" where
  "initialise_ext_out cast = create_static_enumeration cast ext_out_capture_enum_set"

text \<open>The enumerations of the position bus, of the capture options, of their nominal choices, of the bit bus and of the extension outputs.\<close>

definition initialise_output ::
    "(u8 \<Rightarrow> 'w::len word) \<Rightarrow> 's device \<Rightarrow> reg_header \<Rightarrow> 's
       \<Rightarrow> (('w enumeration \<times> 'w enumeration \<times> 'w enumeration \<times> 'w enumeration \<times> 'w enumeration) result \<times> 's) option" where
  "initialise_output cast dev hdr s =
     (case initialise_pos_mux cast of
        None \<Rightarrow> None
      | Some (Inl e, _) \<Rightarrow> Some (Inl e, s)
      | Some (Inr _, pos_mux_lookup) \<Rightarrow>
          (case initialise_pos_out cast dev hdr s of
             None \<Rightarrow> None
           | Some (Inl e, s) \<Rightarrow> Some (Inl e, s)
           | Some (Inr (lookup_capture_option, pos_out_capture_enum), s) \<Rightarrow>
               (case initialise_bit_out cast of
                  None \<Rightarrow> None
                | Some (Inl e, _) \<Rightarrow> Some (Inl e, s)
                | Some (Inr _, bit_mux_lookup) \<Rightarrow>
                    map_option (\<lambda>ext_out_capture_enum.
                      (Inr (pos_mux_lookup, lookup_capture_option, pos_out_capture_enum, bit_mux_lookup, ext_out_capture_enum), s))
                      (initialise_ext_out cast))))"

definition ext_out_capture_format :: "'w::len enumeration \<Rightarrow> ext_out \<Rightarrow> nat \<Rightarrow> string result option" where
  "ext_out_capture_format ext_out_capture_enum ext_out len =
     map_option (format_string len) (enum_index_to_name ext_out_capture_enum (if eo_capture ext_out then 1 else 0))"

definition ext_out_capture_put :: "'w::len enumeration \<Rightarrow> ext_out \<Rightarrow> string \<Rightarrow> (unit result \<times> ext_out) option" where
  "ext_out_capture_put ext_out_capture_enum ext_out v =
     map_option (\<lambda>r. case r of
        None \<Rightarrow> (fail ''Invalid capture option'', ext_out)
      | Some capture \<Rightarrow> (Inr (), ext_out\<lparr>eo_capture := (capture \<noteq> 0)\<rparr>))
       (enum_name_to_index ext_out_capture_enum v)"

definition reset_ext_out_capture :: "ext_out \<Rightarrow> u64 \<Rightarrow> ext_out \<times> u64" where
  "reset_ext_out_capture ext_out gci =
     (if eo_capture ext_out then
        (case get_change_index gci of (ix, gci) \<Rightarrow> (ext_out\<lparr>eo_capture := False, eo_capture_attr := ix\<rparr>, gci))
      else (ext_out, gci))"

text \<open>\<^verbatim>\<open>format_many_result\<close> cuts the text to the buffer.\<close>

definition report_ext_out_capture :: "nat \<Rightarrow> ext_out \<Rightarrow> string \<Rightarrow> string list" where
  "report_ext_out_capture len ext_out field_name =
     (if eo_capture ext_out then [take (len - 1) (field_name @ '' Value'')] else [])"

definition get_capture_mode :: "ext_out_type \<Rightarrow> capture_mode" where
  "get_capture_mode ext_type =
     (case ext_type of EXT_OUT_TIMESTAMP \<Rightarrow> CAPTURE_MODE_SCALED64 | EXT_OUT_SAMPLES \<Rightarrow> CAPTURE_MODE_SCALED32
      | EXT_OUT_BITS \<Rightarrow> CAPTURE_MODE_UNSCALED)"

definition ext_capture_info :: "'d capture_ops \<Rightarrow> 's device \<Rightarrow> reg_header \<Rightarrow> ext_out \<Rightarrow> 's \<Rightarrow> 'd capture_info \<times> 's" where
  "ext_capture_info ops dev hdr ext_out s =
     (case hw_read_nominal_clock dev hdr s of (clock, s) \<Rightarrow>
        (\<lparr>ci_capture_index = [CAPTURE_EXT_BUS (fst (eo_registers ext_out)), CAPTURE_EXT_BUS (snd (eo_registers ext_out)), 0, 0, 0],
          ci_capture_mode = get_capture_mode (eo_ext_type ext_out), ci_field_name = [], ci_capture_string = ''Value'',
          ci_scale = d_div ops (d_of_int ops 1) (d_of_u32 ops clock), ci_offset = d_of_int ops 0, ci_units = ''s'',
          ci_capture_mean = False\<rparr>, s))"

definition get_ext_out_capture_info ::
    "'d capture_ops \<Rightarrow> 's device \<Rightarrow> reg_header \<Rightarrow> ext_out \<Rightarrow> 's \<Rightarrow> 'd capture_info list \<times> 's" where
  "get_ext_out_capture_info ops dev hdr ext_out s =
     (if eo_capture ext_out then (case ext_capture_info ops dev hdr ext_out s of (info, s) \<Rightarrow> ([info], s)) else ([], s))"

definition parse_ext_out_type :: "nat \<Rightarrow> (ext_out_type \<times> u32) parser" where
  "parse_ext_out_type lw =
     p_then parse_whitespace (\<lambda>_. p_then (parse_name MAX_NAME_LENGTH) (\<lambda>type_name.
       if type_name = ''timestamp'' then p_return (EXT_OUT_TIMESTAMP, 0)
       else if type_name = ''samples'' then p_return (EXT_OUT_SAMPLES, 0)
       else if type_name = ''bits'' then
         p_then parse_whitespace (\<lambda>_. p_then (parse_uint lw) (\<lambda>bit_group. p_return (EXT_OUT_BITS, bit_group)))
       else p_lift (fail ''Unknown ext_out type'')))"

definition create_ext_out :: "ext_out_type \<Rightarrow> u32 \<Rightarrow> ext_out" where
  "create_ext_out ext_type bit_group =
     \<lparr>eo_ext_type = ext_type, eo_bit_group = bit_group, eo_registers = (0, 0), eo_capture_attr = 1, eo_capture = False\<rparr>"

definition ext_out_init :: "nat \<Rightarrow> nat \<Rightarrow> ext_out parser" where
  "ext_out_init lw n =
     p_then (p_lift (test_ok (n = 1) ''Cannot repeat extension field'')) (\<lambda>_.
     p_then (parse_ext_out_type lw) (\<lambda>(ext_type, bit_group). p_return (create_ext_out ext_type bit_group)))"

definition parse_register :: "nat \<Rightarrow> bool list \<Rightarrow> string \<Rightarrow> (u32 result \<times> string) \<times> bool list" where
  "parse_register lw ext_bus_index_used line =
     (case parse_uint lw line of
        (Inl e, line) \<Rightarrow> ((Inl e, line), ext_bus_index_used)
      | (Inr v, line) \<Rightarrow>
          if \<not> v < word_of_nat EXT_BUS_COUNT then ((fail ''Extra index out of range'', line), ext_bus_index_used)
          else if ext_bus_index_used ! unat v then ((fail ''Extra index already used'', line), ext_bus_index_used)
          else ((Inr v, line), ext_bus_index_used[unat v := True]))"

section \<open>The list of outputs\<close>

text \<open>
  Pointers to outputs are positions in the lists of position and extension outputs.  The arrays that mark the
  bus indices in use, and the names for the groups of bits, are part of the state.
\<close>

datatype output_ref = OUTPUT_POS nat | OUTPUT_EXT nat

record output_field =
  of_output :: output_ref
  of_number :: u32
  of_field_name :: string

record ('d, 'w) outputs =
  ou_pos :: "'d pos_out list"
  ou_ext :: "ext_out list"
  ou_fields :: "output_field list"
  ou_samples :: "(nat \<times> string) option"
  ou_pos_index_used :: "bool list"
  ou_ext_index_used :: "bool list"
  ou_group_name :: "string option list"
  ou_pos_mux :: 'w

definition MAX_OUTPUT_COUNT :: nat where "MAX_OUTPUT_COUNT = POS_BUS_COUNT + EXT_BUS_COUNT"

definition register_one_field ::
    "output_ref \<Rightarrow> 'b block \<Rightarrow> 'b field \<Rightarrow> u32 \<Rightarrow> output_field list \<Rightarrow> (unit result \<times> output_field list) option" where
  "register_one_field output block field number output_fields =
     map_option (\<lambda>name.
       if length output_fields < MAX_OUTPUT_COUNT
       then (Inr (), output_fields @ [\<lparr>of_output = output, of_number = number, of_field_name = name\<rparr>])
       else (fail ''Too many capture fields specifed!'', output_fields))
       (output_name block field number)"

fun register_fields ::
    "output_ref \<Rightarrow> 'b block \<Rightarrow> 'b field \<Rightarrow> u32 \<Rightarrow> nat \<Rightarrow> output_field list \<Rightarrow> (unit result \<times> output_field list) option" where
  "register_fields output block field i 0 output_fields = Some (Inr (), output_fields)"
| "register_fields output block field i (Suc n) output_fields =
     (case register_one_field output block field i output_fields of
        None \<Rightarrow> None
      | Some (Inl e, output_fields) \<Rightarrow> Some (Inl e, output_fields)
      | Some (Inr _, output_fields) \<Rightarrow> register_fields output block field (i + 1) n output_fields)"

definition register_output_fields ::
    "output_ref \<Rightarrow> 'b block \<Rightarrow> 'b field \<Rightarrow> nat \<Rightarrow> output_field list \<Rightarrow> (unit result \<times> output_field list) option" where
  "register_output_fields output block field n output_fields = register_fields output block field 0 n output_fields"

definition register_ext_out :: "nat \<Rightarrow> 'b block \<Rightarrow> 'b field \<Rightarrow> output_field list \<Rightarrow> (unit result \<times> output_field list) option" where
  "register_ext_out ref block field = register_output_fields (OUTPUT_EXT ref) block field 1"

definition register_pos_out ::
    "nat \<Rightarrow> 'b block \<Rightarrow> 'b field \<Rightarrow> nat \<Rightarrow> output_field list \<Rightarrow> (unit result \<times> output_field list) option" where
  "register_pos_out ref block field n = register_output_fields (OUTPUT_POS ref) block field n"

definition pos_out_parse_register ::
    "(u8 \<Rightarrow> 'w::len word) \<Rightarrow> nat \<Rightarrow> nat \<Rightarrow> 'b block \<Rightarrow> 'b field \<Rightarrow> string \<Rightarrow> ('d, 'w enumeration) outputs
       \<Rightarrow> ((unit result \<times> string) \<times> ('d, 'w enumeration) outputs) option" where
  "pos_out_parse_register cast lw ref block field line st =
     (let pos_out = ou_pos st ! ref; n = length (po_values pos_out) in
      case parse_uint_array lw n line of
        (Inl e, line) \<Rightarrow> Some ((Inl e, line), st)
      | (Inr registers, line) \<Rightarrow>
          (case assign_capture_values pos_out registers (ou_pos_index_used st) of (r, busy, pos_out) \<Rightarrow>
             (let st = st\<lparr>ou_pos := (ou_pos st)[ref := pos_out], ou_pos_index_used := busy\<rparr> in
              case r of
                Inl e \<Rightarrow> Some ((Inl e, line), st)
              | Inr _ \<Rightarrow>
                  (case add_pos_mux_index cast (ou_pos_mux st) block field registers of
                     None \<Rightarrow> None
                   | Some (Inl e, en) \<Rightarrow> Some ((Inl e, line), st\<lparr>ou_pos_mux := en\<rparr>)
                   | Some (Inr _, en) \<Rightarrow>
                       map_option (\<lambda>(r, flds). ((r, line), st\<lparr>ou_pos_mux := en, ou_fields := flds\<rparr>))
                         (register_pos_out ref block field n (ou_fields st))))))"

text \<open>\<^verbatim>\<open>ext_out_parse_register\<close>: the register that only a timestamp has, and the steps once the registers are known.\<close>

definition parse_second_register :: "nat \<Rightarrow> ext_out \<Rightarrow> string \<Rightarrow> bool list \<Rightarrow> (u32 result \<times> string) \<times> bool list" where
  "parse_second_register lw ext_out line ext_bus_index_used =
     (if eo_ext_type ext_out = EXT_OUT_TIMESTAMP then
        (case parse_whitespace line of
           (Inl e, line) \<Rightarrow> ((Inl e, line), ext_bus_index_used)
         | (Inr _, line) \<Rightarrow> parse_register lw ext_bus_index_used line)
      else ((Inr (snd (eo_registers ext_out)), line), ext_bus_index_used))"

definition register_ext_out_field ::
    "nat \<Rightarrow> 'b block \<Rightarrow> 'b field \<Rightarrow> ('d, 'w) outputs \<Rightarrow> (unit result \<times> ('d, 'w) outputs) option" where
  "register_ext_out_field ref block field st =
     (let ext_out = ou_ext st ! ref in
      case register_ext_out ref block field (ou_fields st) of
        None \<Rightarrow> None
      | Some (Inl e, flds) \<Rightarrow> Some (Inl e, st\<lparr>ou_fields := flds\<rparr>)
      | Some (Inr _, flds) \<Rightarrow>
          (case eo_ext_type ext_out of
             EXT_OUT_SAMPLES \<Rightarrow>
               (if ou_samples st \<noteq> None then Some (fail ''Duplicate samples field assigned'', st\<lparr>ou_fields := flds\<rparr>)
                else map_option (\<lambda>name. (Inr (), st\<lparr>ou_fields := flds, ou_samples := Some (ref, name)\<rparr>)) (output_name block field 0))
           | EXT_OUT_BITS \<Rightarrow>
               Option.bind (output_name block field 0) (\<lambda>name.
                 map_option (\<lambda>names. (Inr (), st\<lparr>ou_fields := flds, ou_group_name := names\<rparr>))
                   (set_bit_group_name (eo_bit_group ext_out) name (ou_group_name st)))
           | EXT_OUT_TIMESTAMP \<Rightarrow> Some (Inr (), st\<lparr>ou_fields := flds\<rparr>)))"

definition ext_out_parse_register ::
    "nat \<Rightarrow> nat \<Rightarrow> 'b block \<Rightarrow> 'b field \<Rightarrow> string \<Rightarrow> ('d, 'w) outputs \<Rightarrow> ((unit result \<times> string) \<times> ('d, 'w) outputs) option" where
  "ext_out_parse_register lw ref block field line st =
     (let ext_out = ou_ext st ! ref;
          put = (\<lambda>registers busy. st\<lparr>ou_ext_index_used := busy, ou_ext := (ou_ext st)[ref := ext_out\<lparr>eo_registers := registers\<rparr>]\<rparr>) in
      case parse_register lw (ou_ext_index_used st) line of
        ((Inl e, line), busy) \<Rightarrow> Some ((Inl e, line), st\<lparr>ou_ext_index_used := busy\<rparr>)
      | ((Inr reg0, line), busy) \<Rightarrow>
          (case parse_second_register lw ext_out line busy of
             ((Inl e, line), busy) \<Rightarrow> Some ((Inl e, line), put (reg0, snd (eo_registers ext_out)) busy)
           | ((Inr reg1, line), busy) \<Rightarrow>
               map_option (\<lambda>(r, st). ((r, line), st)) (register_ext_out_field ref block field (put (reg0, reg1) busy))))"

section \<open>Operations on all outputs\<close>

definition reset_output_capture :: "output_field \<Rightarrow> ('d, 'w) outputs \<times> u64 \<Rightarrow> ('d, 'w) outputs \<times> u64" where
  "reset_output_capture field = (\<lambda>(st, gci).
     case of_output field of
       OUTPUT_POS ref \<Rightarrow>
         (case reset_pos_out_capture (ou_pos st ! ref) (of_number field) gci of (p, gci) \<Rightarrow> (st\<lparr>ou_pos := (ou_pos st)[ref := p]\<rparr>, gci))
     | OUTPUT_EXT ref \<Rightarrow>
         (case reset_ext_out_capture (ou_ext st ! ref) gci of (e, gci) \<Rightarrow> (st\<lparr>ou_ext := (ou_ext st)[ref := e]\<rparr>, gci)))"

definition reset_capture_list :: "('d, 'w) outputs \<Rightarrow> u64 \<Rightarrow> ('d, 'w) outputs \<times> u64" where
  "reset_capture_list st gci = fold reset_output_capture (ou_fields st) (st, gci)"

definition report_capture_list :: "nat \<Rightarrow> ('d, 'w) outputs \<Rightarrow> string list" where
  "report_capture_list len st =
     concat (map (\<lambda>field. case of_output field of
         OUTPUT_POS ref \<Rightarrow> report_pos_out_capture len (ou_pos st ! ref) (of_number field) (of_field_name field)
       | OUTPUT_EXT ref \<Rightarrow> report_ext_out_capture len (ou_ext st ! ref) (of_field_name field)) (ou_fields st))"

definition report_capture_labels :: "('d, 'w) outputs \<Rightarrow> string list" where
  "report_capture_labels st = map of_field_name (ou_fields st)"

definition report_capture_positions :: "('d, 'w) outputs \<Rightarrow> string list" where
  "report_capture_positions st =
     map of_field_name (filter (\<lambda>field. case of_output field of OUTPUT_POS _ \<Rightarrow> True | OUTPUT_EXT _ \<Rightarrow> False) (ou_fields st))"

definition get_capture_info ::
    "'d capture_ops \<Rightarrow> 's device \<Rightarrow> reg_header \<Rightarrow> string \<Rightarrow> ('d, 'w) outputs \<Rightarrow> output_field \<Rightarrow> 's \<Rightarrow> 'd capture_info list \<times> 's" where
  "get_capture_info ops dev hdr null_text st field s =
     (case of_output field of
        OUTPUT_POS ref \<Rightarrow> (get_pos_out_capture_info null_text (ou_pos st ! ref) (of_number field), s)
      | OUTPUT_EXT ref \<Rightarrow> get_ext_out_capture_info ops dev hdr (ou_ext st ! ref) s)"

definition iterate_captured_values ::
    "'d capture_ops \<Rightarrow> 's device \<Rightarrow> reg_header \<Rightarrow> string \<Rightarrow> ('d, 'w) outputs \<Rightarrow> nat \<Rightarrow> 's \<Rightarrow> ('d capture_info list \<times> nat \<times> 's) option" where
  "iterate_captured_values ops dev hdr null_text st ix s =
     (if ix < length (ou_fields st) then
        (let field = ou_fields st ! ix in
         case get_capture_info ops dev hdr null_text st field s of (infos, s) \<Rightarrow>
           Some (map (\<lambda>info. info\<lparr>ci_field_name := of_field_name field\<rparr>) infos, ix + 1, s))
      else None)"

definition check_pcap_valid :: "('d, 'w) outputs \<Rightarrow> bool" where
  "check_pcap_valid st = (ou_samples st \<noteq> None)"

text \<open>\<open>None\<close> is the failing assertion that there is a field of samples.\<close>

definition get_samples_capture_info ::
    "'d capture_ops \<Rightarrow> 's device \<Rightarrow> reg_header \<Rightarrow> ('d, 'w) outputs \<Rightarrow> 's \<Rightarrow> ('d capture_info \<times> 's) option" where
  "get_samples_capture_info ops dev hdr st s =
     map_option (\<lambda>(ref, name).
       case ext_capture_info ops dev hdr (ou_ext st ! ref) s of (info, s) \<Rightarrow> (info\<lparr>ci_field_name := name\<rparr>, s)) (ou_samples st)"

section \<open>The fields of a capture\<close>

definition add_to_group :: "'d capture_info \<Rightarrow> 'd captured_fields \<Rightarrow> 'd captured_fields" where
  "add_to_group info flds =
     (case ci_capture_mode info of
        CAPTURE_MODE_SCALED32 \<Rightarrow> flds\<lparr>cf_scaled32 := cf_scaled32 flds @ [info]\<rparr>
      | CAPTURE_MODE_AVERAGE \<Rightarrow> flds\<lparr>cf_averaged := cf_averaged flds @ [info]\<rparr>
      | CAPTURE_MODE_STDDEV \<Rightarrow> flds\<lparr>cf_std_dev := cf_std_dev flds @ [info]\<rparr>
      | CAPTURE_MODE_SCALED64 \<Rightarrow> flds\<lparr>cf_scaled64 := cf_scaled64 flds @ [info]\<rparr>
      | CAPTURE_MODE_UNSCALED \<Rightarrow> flds\<lparr>cf_unscaled := cf_unscaled flds @ [info]\<rparr>)"

text \<open>
  The loop over the outputs from \<open>ix\<close> on.  \<open>n\<close> entries of \<^verbatim>\<open>capture_info_buffer\<close> have been written; an entry past its
  end has no value.
\<close>

function gather_fields ::
    "'d capture_ops \<Rightarrow> 's device \<Rightarrow> reg_header \<Rightarrow> string \<Rightarrow> ('d, 'w) outputs \<Rightarrow> nat \<Rightarrow> nat \<Rightarrow> 'd captured_fields \<Rightarrow> 's
       \<Rightarrow> ('d captured_fields \<times> 's) option" where
  "gather_fields ops dev hdr null_text st ix n flds s =
     (case iterate_captured_values ops dev hdr null_text st ix s of
        None \<Rightarrow> Some (flds, s)
      | Some (infos, ix', s) \<Rightarrow>
          if n + length infos \<le> MAX_CAPTURE_COUNT then
            gather_fields ops dev hdr null_text st ix' (n + length infos) (fold add_to_group infos flds) s
          else None)"
  by auto

termination
  by (relation "measure (\<lambda>(ops, dev, hdr, null_text, st, ix, n, flds, s). length (ou_fields st) - ix)")
    (auto simp: iterate_captured_values_def Let_def split: if_splits prod.splits)

declare gather_fields.simps [simp del]

definition prepare_captured_fields ::
    "'d capture_ops \<Rightarrow> 's device \<Rightarrow> reg_header \<Rightarrow> string \<Rightarrow> ('d, 'w) outputs \<Rightarrow> 's \<Rightarrow> ('d captured_fields \<times> 's) option" where
  "prepare_captured_fields ops dev hdr null_text st s =
     (case get_samples_capture_info ops dev hdr st s of
        None \<Rightarrow> None
      | Some (samples, s) \<Rightarrow>
          gather_fields ops dev hdr null_text st 0 0
            \<lparr>cf_sample_count = samples, cf_scaled32 = [], cf_averaged = [], cf_std_dev = [], cf_scaled64 = [], cf_unscaled = []\<rparr> s)"

section \<open>The text of a choice of options\<close>

definition add_option :: "string \<Rightarrow> string \<Rightarrow> string" where
  "add_option buffer name = buffer @ (if buffer \<noteq> [] then '' '' else []) @ name"

definition selected :: "u32 \<Rightarrow> nat \<Rightarrow> 'a list \<Rightarrow> (nat \<times> 'a) list" where
  "selected m i xs = filter (\<lambda>(j, x). mask_bit m j) (enumerate i xs)"

lemma selected_Cons: "selected m i (x # xs) = (if mask_bit m i then [(i, x)] else []) @ selected m (Suc i) xs"
  by (simp add: selected_def)

lemma format_options_text:
  "length buffer + sum_list (map (\<lambda>info. Suc (length (co_option_name info))) infos) + 1 < len \<Longrightarrow>
   format_options m len i infos buffer =
     (Inr (), let b = foldl add_option buffer (map (co_option_name \<circ> snd) (selected m i infos)) in if b = [] then ''No'' else b)"
proof (induction infos arbitrary: i buffer)
  case Nil
  then show ?case by (simp add: selected_def)
next
  case (Cons info infos)
  have "length (add_option buffer (co_option_name info)) \<le> length buffer + Suc (length (co_option_name info))"
    by (simp add: add_option_def)
  with Cons.IH [of "add_option buffer (co_option_name info)" "Suc i"] Cons.IH [of buffer "Suc i"] Cons.prems show ?case
    by (auto simp: selected_Cons add_option_def Let_def)
qed

lemma foldl_add_option:
  "buffer \<noteq> [] \<Longrightarrow> foldl add_option buffer names = buffer @ concat (map (\<lambda>name. CHR '' '' # name) names)"
  by (induction names arbitrary: buffer) (simp_all add: add_option_def)

definition options_text :: "string list \<Rightarrow> string" where
  "options_text names = (case names of [] \<Rightarrow> [] | name # names \<Rightarrow> name @ concat (map (\<lambda>name. CHR '' '' # name) names))"

lemma foldl_options_text: "list_all plain_name names \<Longrightarrow> foldl add_option [] names = options_text names"
  by (cases names) (auto simp: options_text_def add_option_def plain_name_def foldl_add_option)

section \<open>Reading it back\<close>

lemma skip_whitespace_name: "plain_name name \<Longrightarrow> skip_whitespace (name @ rest) = name @ rest"
proof -
  assume a: "plain_name name"
  then obtain c cs where "name = c # cs" "valid_name_char c" by (cases name) (auto simp: plain_name_def)
  moreover have "\<not> valid_name_char (CHR '' '')" "\<not> valid_name_char (CHR 0x09)" by code_simp+
  ultimately show ?thesis by auto
qed

lemma parse_capture_options_text:
  assumes "\<And>i name. (i, name) \<in> set ps \<Longrightarrow> plain_name name \<and> i < 32 \<and> enum_name_to_index lk name = Some (Some (word_of_nat i))"
  shows "parse_capture_options lk m (options_text (map snd ps)) = Some (Inr (fold (\<lambda>i m. m OR push_bit i 1) (map fst ps) m))"
  using assms
proof (induction ps arbitrary: m)
  case Nil
  then show ?case by (simp add: options_text_def parse_capture_options.simps)
next
  case (Cons p ps)
  obtain i name where p: "p = (i, name)" by (cases p)
  let ?rest = "concat (map (\<lambda>name. CHR '' '' # name) (map snd ps))"
  have name: "plain_name name" "i < 32" "enum_name_to_index lk name = Some (Some (word_of_nat i))" using Cons.prems [of i name] p by simp_all
  have "\<not> valid_name_char (CHR '' '')" by code_simp
  then have "stops valid_name_char ?rest" by (cases ps) (simp_all add: stops_def)
  from parse_name_stop [OF name(1) this] have q: "parse_name MAX_NAME_LENGTH (name @ ?rest) = (Inr name, ?rest)" .
  have "skip_whitespace ?rest = options_text (map snd ps)"
  proof (cases ps)
    case more: (Cons q qs)
    then have "plain_name (snd q)" using Cons.prems [of "fst q" "snd q"] by simp
    with more show ?thesis by (simp add: options_text_def skip_whitespace_name)
  qed (simp add: options_text_def)
  moreover have "name \<noteq> []" using name(1) by (simp add: plain_name_def)
  moreover have "unat (word_of_nat i :: u32) = i" using name(2) by (simp add: unat_of_nat take_bit_nat_eq_self)
  moreover have "parse_capture_options lk m' (options_text (map snd ps)) = Some (Inr (fold (\<lambda>i m. m OR push_bit i 1) (map fst ps) m'))" for m'
    by (intro Cons.IH Cons.prems) simp
  moreover have "options_text (map snd (p # ps)) = name @ ?rest" by (simp add: options_text_def p)
  ultimately show ?case using p q name(3)
    by (simp only:) (subst parse_capture_options.simps, simp add: name(3))
qed

lemma bit_small_word: "(m :: u32) < 128 \<Longrightarrow> bit m n \<Longrightarrow> n < 7"
proof (rule ccontr)
  assume a: "m < 128" "bit m n" "\<not> n < 7"
  have "unat m < 2 ^ 7" using a(1) by (simp add: word_less_nat_alt)
  also have "(2 :: nat) ^ 7 \<le> 2 ^ n" using a(3) by (intro power_increasing) simp_all
  finally have "\<not> bit (unat m) n" by (simp add: bit_iff_odd)
  with a(2) show False using bit_imp_le_length [OF a(2)] by (simp add: bit_unsigned_iff)
qed

lemma mask_bit_iff: "i < 32 \<Longrightarrow> mask_bit m i = bit m i"
  by (simp add: mask_bit_def bit_iff_and_push_bit_not_eq_0)

lemma fold_or_bits:
  "bit (fold (\<lambda>i m. m OR push_bit i (1 :: u32)) is m) n = (bit m n \<or> (n < 32 \<and> n \<in> set is))"
proof (induction "is" arbitrary: m)
  case (Cons i "is")
  have "bit (push_bit i (1 :: u32)) n = (n < 32 \<and> n = i)" by (auto simp: push_bit_eq_mult bit_exp_iff)
  with Cons.IH show ?case by (simp only: fold_simps bit_or_iff list.set insert_iff) blast
qed simp

lemma capture_options_plain: "list_all (\<lambda>info. plain_name (co_option_name info)) capture_option_info"
  by code_simp

lemma capture_option_count: "length capture_option_info = 7"
  by (simp add: capture_option_info_def Let_def)

lemma capture_options_distinct: "distinct (map co_option_name capture_option_info)"
  by (simp add: capture_option_info_def Let_def)

lemma available_options_lt: "i \<in> set (available_options enable_std_dev) \<Longrightarrow> i < 7"
  by (simp add: available_options_def capture_option_count)

definition keyword_labels_of :: "bool \<Rightarrow> (string \<times> u32) list" where
  "keyword_labels_of enable_std_dev =
     map (\<lambda>i. (co_option_name (capture_option_info ! i), word_of_nat i)) (available_options enable_std_dev)"

lemma keyword_labels_distinct:
  "distinct (map fst (keyword_labels_of enable_std_dev))" "distinct (map snd (keyword_labels_of enable_std_dev))"
proof -
  let ?is = "available_options enable_std_dev"
  have d: "distinct ?is" by (simp add: available_options_def)
  have "inj_on (\<lambda>i. co_option_name (capture_option_info ! i)) (set ?is)"
    using capture_options_distinct available_options_lt
    by (intro inj_onI) (metis capture_option_count length_map nth_eq_iff_index_eq nth_map)
  with d show "distinct (map fst (keyword_labels_of enable_std_dev))" by (simp add: keyword_labels_of_def o_def distinct_map)
  have "inj_on (word_of_nat :: nat \<Rightarrow> u32) (set ?is)"
  proof (rule inj_onI)
    fix i j assume a: "i \<in> set ?is" "j \<in> set ?is" "word_of_nat i = (word_of_nat j :: u32)"
    then have "unat (word_of_nat i :: u32) = unat (word_of_nat j :: u32)" by simp
    with available_options_lt [OF a(1)] available_options_lt [OF a(2)] show "i = j" by (simp add: unat_of_nat take_bit_nat_eq_self)
  qed
  with d show "distinct (map snd (keyword_labels_of enable_std_dev))" by (simp add: keyword_labels_of_def o_def distinct_map)
qed

text \<open>The table of options is always built, and finds every option by its name.\<close>

lemma keyword_lookup:
  fixes cast :: "u8 \<Rightarrow> 'w::len word"
  assumes "144 \<le> (2 :: nat) ^ LENGTH('w)"
  obtains lk where "initialise_keyword_lookup cast enable_std_dev = Some (Inr (), lk)"
    "\<And>i. i \<in> set (available_options enable_std_dev) \<Longrightarrow>
       enum_name_to_index lk (co_option_name (capture_option_info ! i)) = Some (Some (word_of_nat i))"
proof -
  let ?ls = "keyword_labels_of enable_std_dev"
  have "length ?ls \<le> 7"
    using length_filter_le [of _ "[0..<length capture_option_info]"] by (simp add: keyword_labels_of_def available_options_def capture_option_count)
  then have "16 * (length ?ls + 2) \<le> 144" by simp
  with assms have room: "enum_room (length ?ls) (create_dynamic_enumeration :: 'w enumeration)"
    by (intro create_dynamic_enumeration_room) (rule order_trans)
  note kept = create_dynamic_enumeration_kept [where 'w = 'w]
  from enums.add_labels_distinct [OF conjI [OF kept(1,2)] room keyword_labels_distinct, of cast] obtain lk where
    lk: "add_labels (add_enumeration cast) ?ls create_dynamic_enumeration = Some (Inr (), lk)"
      "enum_inv lk \<and> 0 < set_capacity lk" "enum_map lk = label_map_of ?ls"
    by (auto simp: kept(3))
  have "enum_name_to_index lk (co_option_name (capture_option_info ! i)) = Some (Some (word_of_nat i))"
    if i: "i \<in> set (available_options enable_std_dev)" for i
  proof -
    have "distinct (map fst (map (\<lambda>(s, v). (v, s)) ?ls))" using keyword_labels_distinct(2) by (simp add: o_def case_prod_unfold)
    moreover have "(word_of_nat i, co_option_name (capture_option_info ! i)) \<in> set (map (\<lambda>(s, v). (v, s)) ?ls)"
      using i by (force simp: keyword_labels_of_def)
    ultimately have "enum_map lk (word_of_nat i) = Some (co_option_name (capture_option_info ! i))"
      unfolding lk(3) label_map_of_def by (rule map_of_is_SomeI)
    from enums.search_label [OF lk(2) this] show ?thesis .
  qed
  with lk(1) that show thesis by (simp add: initialise_keyword_lookup_def keyword_labels_of_def)
qed

lemma selected_nth: "(j, x) \<in> set (selected m 0 xs) \<longleftrightarrow> j < length xs \<and> x = xs ! j \<and> mask_bit m j"
  by (auto simp: selected_def in_set_enumerate_eq)

lemma selected_indices: "n \<in> set (map fst (selected m 0 xs)) \<longleftrightarrow> n < length xs \<and> mask_bit m n"
proof -
  have "n \<in> set (map fst (selected m 0 xs)) \<longleftrightarrow> (\<exists>x. (n, x) \<in> set (selected m 0 xs))" by force
  then show ?thesis by (simp add: selected_nth)
qed

lemma selected_bits:
  assumes "m < 128"
  shows "fold (\<lambda>i m. m OR push_bit i 1) (map fst (selected m 0 capture_option_info)) 0 = (m :: u32)"
proof (rule bit_word_eqI)
  fix n assume "n < LENGTH(32)"
  then have n: "n < 32" by simp
  have "n \<in> set (map fst (selected m 0 capture_option_info)) \<longleftrightarrow> bit m n"
    using bit_small_word [OF assms, of n] mask_bit_iff [OF n, of m] unfolding selected_indices capture_option_count by blast
  with n show "bit (fold (\<lambda>i m. m OR push_bit i 1) (map fst (selected m 0 capture_option_info)) (0 :: u32)) n = bit m n"
    by (simp only: fold_or_bits) simp
qed

lemma format_capture_string_text:
  assumes "64 \<le> len"
  shows "format_capture_string m len =
    (Inr (), let b = options_text (map (co_option_name \<circ> snd) (selected m 0 capture_option_info)) in if b = [] then ''No'' else b)"
proof -
  have "list_all plain_name (map (co_option_name \<circ> snd) (selected m 0 capture_option_info))"
    using capture_options_plain by (auto simp: list_all_iff selected_nth)
  moreover have "sum_list (map (\<lambda>info. Suc (length (co_option_name info))) capture_option_info) + 1 < len"
    using assms by (simp add: capture_option_info_def Let_def)
  ultimately show ?thesis
    using format_options_text [of "[]" capture_option_info len m 0] by (simp add: format_capture_string_def foldl_options_text)
qed

lemma options_text_not_No:
  assumes "list_all plain_name names" "''No'' \<notin> set names"
  shows "options_text names \<noteq> ''No''"
proof (cases names)
  case (Cons name names')
  show ?thesis
  proof (cases names')
    case (Cons name' names'')
    with \<open>names = _\<close> have "CHR '' '' \<in> set (options_text names)" by (simp add: options_text_def)
    moreover have "CHR '' '' \<notin> set ''No''" by simp
    ultimately show ?thesis by metis
  qed (use Cons assms(2) in \<open>simp add: options_text_def\<close>)
qed (simp add: options_text_def)

lemma options_text_empty: "list_all plain_name names \<Longrightarrow> options_text names = [] \<longleftrightarrow> names = []"
  by (cases names) (auto simp: options_text_def plain_name_def)

text \<open>
  C22: the options a position output captures are what its \<^verbatim>\<open>CAPTURE\<close> attribute reads back: for every choice of
  options the hardware has, formatting the attribute succeeds within 64 bytes, and writing the resulting text to
  any output, the first or the same one, sets exactly this choice.\<close>

theorem pos_out_capture_roundtrip:
  fixes cast :: "u8 \<Rightarrow> 'w::len word"
  assumes "144 \<le> (2 :: nat) ^ LENGTH('w)" "64 \<le> len"
    and "pf_capture_mask (po_values p ! unat number) = m" "m < 128" "enable_std_dev \<or> \<not> mask_bit m POS_OUT_CAPTURE_STDDEV"
  shows "\<exists>lk t. initialise_keyword_lookup cast enable_std_dev = Some (Inr (), lk) \<and>
    pos_out_capture_format p number len = (Inr (), t) \<and>
    (\<forall>(p' :: 'd pos_out) number'. pos_out_capture_put lk p' number' t =
       Some (Inr (), update_pos_out number' (pf_capture_mask_update (\<lambda>_. m)) p'))"
proof -
  obtain lk where lk: "initialise_keyword_lookup cast enable_std_dev = Some (Inr (), lk)"
    "\<And>i. i \<in> set (available_options enable_std_dev) \<Longrightarrow>
       enum_name_to_index lk (co_option_name (capture_option_info ! i)) = Some (Some (word_of_nat i))"
    using keyword_lookup [OF assms(1)] by blast
  let ?ps = "map (\<lambda>(i, info). (i, co_option_name info)) (selected m 0 capture_option_info)"
  let ?names = "map snd ?ps"
  have names: "list_all plain_name ?names" "''No'' \<notin> set ?names"
  proof -
    have "set ?names \<subseteq> co_option_name ` set capture_option_info" by (auto simp: selected_nth)
    moreover have "''No'' \<notin> co_option_name ` set capture_option_info" by (simp add: capture_option_info_def Let_def)
    ultimately show "''No'' \<notin> set ?names" by blast
    show "list_all plain_name ?names" using capture_options_plain by (auto simp: list_all_iff selected_nth)
  qed
  have "plain_name name \<and> i < 32 \<and> enum_name_to_index lk name = Some (Some (word_of_nat i))" if mem: "(i, name) \<in> set ?ps" for i name
  proof -
    from mem have i: "i < 7" "name = co_option_name (capture_option_info ! i)" "mask_bit m i"
      by (auto simp: selected_nth capture_option_count)
    with assms(5) have "i \<in> set (available_options enable_std_dev)" by (auto simp: available_options_def capture_option_count)
    from lk(2) [OF this] i capture_options_plain show ?thesis by (simp add: list_all_length capture_option_count)
  qed
  then have "parse_capture_options lk 0 (options_text ?names) = Some (Inr (fold (\<lambda>i m. m OR push_bit i 1) (map fst ?ps) 0))"
    by (rule parse_capture_options_text)
  moreover have "map fst ?ps = map fst (selected m 0 capture_option_info)" by (simp add: case_prod_unfold)
  ultimately have parse: "parse_capture_options lk 0 (options_text ?names) = Some (Inr m)"
    using selected_bits [OF assms(4)] by (simp only:)
  have t: "pos_out_capture_format p number len = (Inr (), if ?names = [] then ''No'' else options_text ?names)"
    using format_capture_string_text [OF assms(2), of m] options_text_empty [OF names(1)] assms(3)
    by (simp add: pos_out_capture_format_def Let_def o_def case_prod_unfold)
  have "m = 0" if "?names = []" using selected_bits [OF assms(4)] that by simp
  with options_text_not_No [OF names] parse
  have "pos_out_capture_put lk p' number' (if ?names = [] then ''No'' else options_text ?names) =
      Some (Inr (), update_pos_out number' (pf_capture_mask_update (\<lambda>_. m)) p')" for p' :: "'d pos_out" and number'
    by (auto simp: pos_out_capture_put_def)
  with lk(1) t show ?thesis by blast
qed

theorem pos_out_capture_roundtrip_witness:
  "\<exists>(lk :: 32 enumeration) t. initialise_keyword_lookup ucast False = Some (Inr (), lk) \<and>
    pos_out_capture_format (update_pos_out 1 (pf_capture_mask_update (\<lambda>_. 0x38)) (create_pos_out 2 () () None)) 1 256 = (Inr (), t) \<and>
    t = ''Min Max Mean'' \<and>
    (\<forall>(p' :: unit pos_out) number'. pos_out_capture_put lk p' number' t =
       Some (Inr (), update_pos_out number' (pf_capture_mask_update (\<lambda>_. 0x38)) p'))"
proof -
  let ?p = "update_pos_out 1 (pf_capture_mask_update (\<lambda>_. 0x38)) (create_pos_out 2 () () None)"
  have "pos_out_capture_format ?p 1 256 = (Inr (), ''Min Max Mean'')" by code_simp
  moreover have "(144 :: nat) \<le> 2 ^ LENGTH(32)" "(64 :: nat) \<le> 256" "pf_capture_mask (po_values ?p ! unat (1 :: u32)) = 0x38"
    "(0x38 :: u32) < 128" "False \<or> \<not> mask_bit 0x38 POS_OUT_CAPTURE_STDDEV"
    by (simp, simp, code_simp, simp, code_simp)
  ultimately show ?thesis
    using pos_out_capture_roundtrip [where len = 256 and p = ?p and number = 1 and m = "0x38" and enable_std_dev = False and cast = "ucast :: u8 \<Rightarrow> u32" and 'd = unit] by auto
qed

section \<open>Outputs as the configuration leaves them\<close>

text \<open>
  The states of the list of outputs: fields are created and registered by the configuration files, in any order and
  with any errors, \<open>fs\<close> being the fields of the configuration; clients then change the attributes or reset all captures.
\<close>

inductive configured ::
    "(u8 \<Rightarrow> 'w::len word) \<Rightarrow> 'd fp_ops \<Rightarrow> ('b block \<times> 'b field) set \<Rightarrow> ('d, 'w enumeration) outputs \<Rightarrow> bool"
  for cast :: "u8 \<Rightarrow> 'w::len word" and fp :: "'d fp_ops" and fs :: "('b block \<times> 'b field) set" where
  start: "configured cast fp fs \<lparr>ou_pos = [], ou_ext = [], ou_fields = [], ou_samples = None,
      ou_pos_index_used = replicate POS_BUS_COUNT False, ou_ext_index_used = replicate EXT_BUS_COUNT False,
      ou_group_name = names, ou_pos_mux = en\<rparr>"
| new_pos: "configured cast fp fs (st\<lparr>ou_pos := ou_pos st @ [p]\<rparr>)"
    if "configured cast fp fs st" "pos_out_init fp n line = (Inr p, line')"
| new_ext: "configured cast fp fs (st\<lparr>ou_ext := ou_ext st @ [e]\<rparr>)"
    if "configured cast fp fs st" "ext_out_init lw n line = (Inr e, line')"
| pos_register: "configured cast fp fs st'"
    if "configured cast fp fs st" "ref < length (ou_pos st)" "(block, field) \<in> fs"
      "pos_out_parse_register cast lw ref block field line st = Some (r, st')"
| ext_register: "configured cast fp fs st'"
    if "configured cast fp fs st" "ref < length (ou_ext st)" "(block, field) \<in> fs"
      "ext_out_parse_register lw ref block field line st = Some (r, st')"
| pos_attr: "configured cast fp fs (st\<lparr>ou_pos := (ou_pos st)[ref := p]\<rparr>)"
    if "configured cast fp fs st" "ref < length (ou_pos st)"
      "p = snd (pos_out_scale_put fp (ou_pos st ! ref) number v) \<or> p = snd (pos_out_offset_put fp (ou_pos st ! ref) number v) \<or>
       p = snd (pos_out_units_put (ou_pos st ! ref) number v) \<or>
       pos_out_capture_put (lk :: 'w enumeration) (ou_pos st ! ref) number v = Some (result, p)"
| ext_attr: "configured cast fp fs (st\<lparr>ou_ext := (ou_ext st)[ref := e]\<rparr>)"
    if "configured cast fp fs st" "ref < length (ou_ext st)" "ext_out_capture_put (capture_enum :: 'w enumeration) (ou_ext st ! ref) v = Some (result, e)"
| reset: "configured cast fp fs (fst (reset_capture_list st gci))" if "configured cast fp fs st"

subsection \<open>What every output keeps\<close>

text \<open>The entries on the position bus of every position output, and the types of the extension outputs.\<close>

definition pos_shape :: "('d, 'w) outputs \<Rightarrow> u32 list list" where
  "pos_shape st = map (\<lambda>p. map pf_capture_index (po_values p)) (ou_pos st)"

definition ext_shape :: "('d, 'w) outputs \<Rightarrow> ext_out_type list" where
  "ext_shape st = map eo_ext_type (ou_ext st)"

definition is_pos :: "output_field \<Rightarrow> bool" where
  "is_pos field = (case of_output field of OUTPUT_POS _ \<Rightarrow> True | OUTPUT_EXT _ \<Rightarrow> False)"

definition ref_ok :: "('d, 'w) outputs \<Rightarrow> output_field \<Rightarrow> bool" where
  "ref_ok st field =
     (case of_output field of
        OUTPUT_POS ref \<Rightarrow> ref < length (pos_shape st) \<and> unat (of_number field) < length (pos_shape st ! ref)
      | OUTPUT_EXT ref \<Rightarrow> ref < length (ext_shape st))"

definition marked :: "bool list \<Rightarrow> nat" where
  "marked busy = length (filter id busy)"

definition outputs_ok :: "('d, 'w) outputs \<Rightarrow> bool" where
  "outputs_ok st =
     (length (ou_pos_index_used st) = POS_BUS_COUNT \<and> length (ou_ext_index_used st) = EXT_BUS_COUNT \<and>
      length (filter is_pos (ou_fields st)) \<le> marked (ou_pos_index_used st) \<and>
      length (filter (\<lambda>field. \<not> is_pos field) (ou_fields st)) \<le> marked (ou_ext_index_used st) \<and>
      (\<forall>field\<in>set (ou_fields st). ref_ok st field) \<and>
      (\<forall>ixs\<in>set (pos_shape st). \<forall>ix\<in>set ixs. unat ix < POS_BUS_COUNT) \<and>
      (\<forall>ref name. ou_samples st = Some (ref, name) \<longrightarrow> ref < length (ext_shape st) \<and> ext_shape st ! ref = EXT_OUT_SAMPLES))"

lemma outputs_ok_same:
  assumes "outputs_ok st" "pos_shape st' = pos_shape st" "ext_shape st' = ext_shape st" "ou_fields st' = ou_fields st"
    "ou_samples st' = ou_samples st" "ou_pos_index_used st' = ou_pos_index_used st" "ou_ext_index_used st' = ou_ext_index_used st"
  shows "outputs_ok st'"
  using assms(1) unfolding outputs_ok_def ref_ok_def assms(2-7) .

lemma marked_le: "marked busy \<le> length busy"
  by (simp add: marked_def)

lemma marked_update: "i < length busy \<Longrightarrow> \<not> busy ! i \<Longrightarrow> marked (busy[i := True]) = Suc (marked busy)"
proof (induction busy arbitrary: i)
  case (Cons b busy)
  then show ?case by (cases i) (auto simp: marked_def)
qed simp

lemma update_pos_out_indices:
  "(\<And>v. pf_capture_index (f v) = pf_capture_index v) \<Longrightarrow>
   map pf_capture_index (po_values (update_pos_out number f p)) = map pf_capture_index (po_values p)"
  by (cases "unat number < length (po_values p)")
    (simp_all add: update_pos_out_def map_update list_update_same_conv list_update_beyond)

lemma pos_out_put_indices:
  "map pf_capture_index (po_values (snd (pos_out_scale_put fp p number v))) = map pf_capture_index (po_values p)"
  "map pf_capture_index (po_values (snd (pos_out_offset_put fp p number v))) = map pf_capture_index (po_values p)"
  "map pf_capture_index (po_values (snd (pos_out_units_put p number v))) = map pf_capture_index (po_values p)"
  "map pf_capture_index (po_values (fst (reset_pos_out_capture p number gci))) = map pf_capture_index (po_values p)"
  by (auto simp: pos_out_scale_put_def pos_out_offset_put_def pos_out_units_put_def
      reset_pos_out_capture_def update_pos_out_indices split: sum.splits sum.split_asm prod.splits if_splits)

lemma pos_out_capture_put_indices:
  assumes "pos_out_capture_put lk p number v = Some (r, p')"
  shows "map pf_capture_index (po_values p') = map pf_capture_index (po_values p)"
proof -
  obtain res where "(case res of Inl e \<Rightarrow> (Inl e, p)
      | Inr msk \<Rightarrow> (Inr (), update_pos_out number (pf_capture_mask_update (\<lambda>_. msk)) p)) = (r, p')"
    using assms by (auto simp: pos_out_capture_put_def simp del: split_paired_Ex)
  then show ?thesis by (cases res) (auto simp: update_pos_out_indices)
qed

lemma pos_shape_update:
  "map pf_capture_index (po_values p) = map pf_capture_index (po_values (ou_pos st ! ref)) \<Longrightarrow>
   pos_shape (st\<lparr>ou_pos := (ou_pos st)[ref := p]\<rparr>) = pos_shape st"
  by (cases "ref < length (ou_pos st)") (simp_all add: pos_shape_def map_update list_update_same_conv list_update_beyond)

lemma ext_shape_update:
  "eo_ext_type e = eo_ext_type (ou_ext st ! ref) \<Longrightarrow> ext_shape (st\<lparr>ou_ext := (ou_ext st)[ref := e]\<rparr>) = ext_shape st"
  by (cases "ref < length (ou_ext st)") (simp_all add: ext_shape_def map_update list_update_same_conv list_update_beyond)

lemma shapes_of_other [simp]:
  "pos_shape (st\<lparr>ou_ext := es\<rparr>) = pos_shape st" "ext_shape (st\<lparr>ou_pos := ps\<rparr>) = ext_shape st"
  by (simp_all add: pos_shape_def ext_shape_def)

lemma reset_output_ok: "outputs_ok (fst sg) \<Longrightarrow> outputs_ok (fst (reset_output_capture field sg))"
proof -
  assume a: "outputs_ok (fst sg)"
  obtain st gci where sg: "sg = (st, gci)" by (cases sg)
  show ?thesis
  proof (cases "of_output field")
    case (OUTPUT_POS ref)
    let ?p = "fst (reset_pos_out_capture (ou_pos st ! ref) (of_number field) gci)"
    have "fst (reset_output_capture field sg) = st\<lparr>ou_pos := (ou_pos st)[ref := ?p]\<rparr>"
      using OUTPUT_POS sg by (simp add: reset_output_capture_def case_prod_unfold)
    moreover from a have "outputs_ok (st\<lparr>ou_pos := (ou_pos st)[ref := ?p]\<rparr>)"
      by (rule outputs_ok_same) (simp_all add: sg pos_shape_update pos_out_put_indices(4))
    ultimately show ?thesis by simp
  next
    case (OUTPUT_EXT ref)
    let ?e = "fst (reset_ext_out_capture (ou_ext st ! ref) gci)"
    have "fst (reset_output_capture field sg) = st\<lparr>ou_ext := (ou_ext st)[ref := ?e]\<rparr>"
      using OUTPUT_EXT sg by (simp add: reset_output_capture_def case_prod_unfold)
    moreover have "eo_ext_type ?e = eo_ext_type (ou_ext st ! ref)" by (simp add: reset_ext_out_capture_def split: prod.splits)
    with a have "outputs_ok (st\<lparr>ou_ext := (ou_ext st)[ref := ?e]\<rparr>)"
      by (intro outputs_ok_same [OF a]) (simp_all add: sg ext_shape_update)
    ultimately show ?thesis by simp
  qed
qed

lemma reset_capture_list_ok: "outputs_ok st \<Longrightarrow> outputs_ok (fst (reset_capture_list st gci))"
proof -
  have "outputs_ok (fst sg) \<Longrightarrow> outputs_ok (fst (fold reset_output_capture flds sg))" for flds and sg :: "('a, 'b) outputs \<times> u64"
    by (induction flds arbitrary: sg) (simp_all add: reset_output_ok)
  from this [of "(st, gci)"] show "outputs_ok st \<Longrightarrow> ?thesis" by (simp add: reset_capture_list_def)
qed

subsection \<open>Registration\<close>

lemma parse_uint_items_length: "parse_uint_items lw i n s = (Inr xs, s') \<Longrightarrow> length xs = n"
  by (induction lw i n s arbitrary: xs s' rule: parse_uint_items.induct)
    (auto simp: p_then_def p_return_def split: sum.splits sum.split_asm prod.splits)

lemma assign_values_spec:
  assumes "assign_values i vals busy p = (r, busy', p')" "length busy = POS_BUS_COUNT"
    "\<forall>v\<in>set (po_values p). unat (pf_capture_index v) < POS_BUS_COUNT"
  shows "length busy' = POS_BUS_COUNT \<and> marked busy \<le> marked busy' \<and> (is_ok r \<longrightarrow> marked busy' = marked busy + length vals) \<and>
    length (po_values p') = length (po_values p) \<and> (\<forall>v\<in>set (po_values p'). unat (pf_capture_index v) < POS_BUS_COUNT)"
  using assms
proof (induction vals arbitrary: i busy p)
  case (Cons v vals)
  show ?case
  proof (cases "v < word_of_nat POS_BUS_COUNT \<and> \<not> busy ! unat v")
    case True
    have v: "unat v < POS_BUS_COUNT" using True by (simp add: word_less_nat_alt POS_BUS_COUNT_def)
    let ?busy = "busy[unat v := True]" and ?p = "p\<lparr>po_values := (po_values p)[i := (po_values p ! i)\<lparr>pf_capture_index := v\<rparr>]\<rparr>"
    have "\<forall>v\<in>set (po_values ?p). unat (pf_capture_index v) < POS_BUS_COUNT"
      using Cons.prems(3) v set_update_subset_insert [of "po_values p" i] by fastforce
    moreover have "assign_values (i + 1) vals ?busy ?p = (r, busy', p')" using Cons.prems(1) True by simp
    moreover have "marked ?busy = Suc (marked busy)" using marked_update v True Cons.prems(2) by simp
    ultimately show ?thesis using Cons.IH [of "i + 1" ?busy ?p] Cons.prems(2) by simp
  next
    case False
    then have "is_ok r = False" "busy' = busy" "p' = p" using Cons.prems(1) by (auto split: if_splits)
    with Cons.prems(2,3) show ?thesis by simp
  qed
qed auto

text \<open>The fields that a registration adds.\<close>

lemma register_fields_spec:
  assumes "register_fields output block field (word_of_nat i) n flds = Some (r, flds')"
  shows "\<exists>new. flds' = flds @ new \<and> length new \<le> n \<and> (\<forall>f\<in>set new. of_output f = output \<and> unat (of_number f) < i + n)"
  using assms
proof (induction n arbitrary: i flds)
  case (Suc n)
  from Suc.prems obtain name where "output_name block field (word_of_nat i) = Some name"
    by (auto simp: register_one_field_def split: option.splits)
  show ?case
  proof (cases "length flds < MAX_OUTPUT_COUNT")
    case True
    let ?f = "\<lparr>of_output = output, of_number = word_of_nat i, of_field_name = name\<rparr>"
    have "register_fields output block field (word_of_nat (Suc i)) n (flds @ [?f]) = Some (r, flds')"
      using Suc.prems True \<open>output_name _ _ _ = _\<close> by (simp add: register_one_field_def add.commute)
    from Suc.IH [OF this] obtain new where new: "flds' = (flds @ [?f]) @ new" "length new \<le> n"
      "\<forall>f\<in>set new. of_output f = output \<and> unat (of_number f) < Suc i + n" by blast
    have "unat (word_of_nat i :: u32) < i + Suc n"
      using unat_of_nat [of i, where 'a = 32] by (simp add: take_bit_nat_eq_self_iff unsigned_of_nat less_Suc_eq_le take_bit_nat_less_eq_self le_trans [OF _ le_add1])
    with new show ?thesis by (intro exI [of _ "?f # new"]) auto
  next
    case False
    then show ?thesis using Suc.prems \<open>output_name _ _ _ = _\<close> by (auto simp: register_one_field_def fail_def)
  qed
qed simp

lemma filter_all_none: "(\<forall>x\<in>set xs. P x) \<Longrightarrow> filter P xs = xs \<and> filter (\<lambda>x. \<not> P x) xs = []"
  by (simp add: filter_id_conv filter_empty_conv)

lemma is_pos_simps [simp]: "of_output f = OUTPUT_POS ref \<Longrightarrow> is_pos f" "of_output f = OUTPUT_EXT ref \<Longrightarrow> \<not> is_pos f"
  by (simp_all add: is_pos_def)

lemma ref_ok_cong: "pos_shape st' = pos_shape st \<Longrightarrow> ext_shape st' = ext_shape st \<Longrightarrow> ref_ok st' = ref_ok st"
  by (simp add: ref_ok_def fun_eq_iff split: output_ref.split)

text \<open>The entries of an output on the position bus are assigned.\<close>

lemma assigned_ok:
  assumes "outputs_ok st" "ref < length (ou_pos st)" "assign_capture_values (ou_pos st ! ref) vals (ou_pos_index_used st) = (r, busy, p)"
    "st' = st\<lparr>ou_pos := (ou_pos st)[ref := p], ou_pos_index_used := busy\<rparr>"
  shows "outputs_ok st'" "is_ok r \<Longrightarrow> length (filter is_pos (ou_fields st')) + length vals \<le> marked (ou_pos_index_used st')"
    "length (po_values (ou_pos st' ! ref)) = length (po_values (ou_pos st ! ref))"
proof -
  have "\<forall>v\<in>set (po_values (ou_pos st ! ref)). unat (pf_capture_index v) < POS_BUS_COUNT"
    using assms(1,2) by (fastforce simp: outputs_ok_def pos_shape_def)
  from assign_values_spec [OF assms(3) [unfolded assign_capture_values_def] _ this] assms(1)
  have spec: "length busy = POS_BUS_COUNT" "marked (ou_pos_index_used st) \<le> marked busy"
    "is_ok r \<longrightarrow> marked busy = marked (ou_pos_index_used st) + length vals" "length (po_values p) = length (po_values (ou_pos st ! ref))"
    "\<forall>v\<in>set (po_values p). unat (pf_capture_index v) < POS_BUS_COUNT" by (simp_all add: outputs_ok_def)
  have shape: "pos_shape st' = (pos_shape st)[ref := map pf_capture_index (po_values p)]" "ext_shape st' = ext_shape st"
    by (simp_all add: assms(4) pos_shape_def ext_shape_def map_update)
  have "ref_ok st' f = ref_ok st f" for f
    unfolding ref_ok_def shape using spec(4) assms(2) by (auto simp: pos_shape_def nth_list_update split: output_ref.split)
  moreover have "\<forall>ixs\<in>set (pos_shape st'). \<forall>ix\<in>set ixs. unat ix < POS_BUS_COUNT"
    using assms(1) spec(5) set_update_subset_insert [of "pos_shape st" ref "map pf_capture_index (po_values p)"]
    by (fastforce simp: shape outputs_ok_def)
  ultimately show "outputs_ok st'" using assms(1) spec by (simp add: outputs_ok_def shape(2)) (simp add: assms(4))
  show "is_ok r \<Longrightarrow> length (filter is_pos (ou_fields st')) + length vals \<le> marked (ou_pos_index_used st')"
    using assms(1) spec(3) by (simp add: assms(4) outputs_ok_def)
  show "length (po_values (ou_pos st' ! ref)) = length (po_values (ou_pos st ! ref))"
    using assms(2) spec(4) by (simp add: assms(4))
qed

lemma registered_pos_ok:
  assumes "outputs_ok st" "ref < length (ou_pos st)" "length (filter is_pos (ou_fields st)) + n \<le> marked (ou_pos_index_used st)"
    "n = length (po_values (ou_pos st ! ref))" "register_pos_out ref block field n (ou_fields st) = Some (r, flds)"
  shows "outputs_ok (st\<lparr>ou_pos_mux := en, ou_fields := flds\<rparr>)"
proof -
  let ?st = "st\<lparr>ou_pos_mux := en, ou_fields := flds\<rparr>"
  from register_fields_spec [of "OUTPUT_POS ref" block field 0 n "ou_fields st" r flds] assms(5)
  obtain new where new: "flds = ou_fields st @ new" "length new \<le> n" "\<forall>f\<in>set new. of_output f = OUTPUT_POS ref \<and> unat (of_number f) < n"
    by (auto simp: register_pos_out_def register_output_fields_def)
  have shape: "pos_shape ?st = pos_shape st" "ext_shape ?st = ext_shape st" by (simp_all add: pos_shape_def ext_shape_def)
  have "\<forall>f\<in>set new. is_pos f" "\<forall>f\<in>set new. ref_ok st f" using new(3) assms(2,4) by (auto simp: ref_ok_def pos_shape_def)
  with filter_all_none [of new is_pos] new(1,2) assms(1,3) show ?thesis
    unfolding outputs_ok_def shape ref_ok_cong [OF shape] by auto
qed

lemma pos_register_ok:
  assumes "outputs_ok st" "ref < length (ou_pos st)" "pos_out_parse_register cast lw ref block field line st = Some (res, st')"
  shows "outputs_ok st'"
proof -
  let ?n = "length (po_values (ou_pos st ! ref))"
  obtain ra line1 where a: "parse_uint_array lw ?n line = (ra, line1)" by fastforce
  show ?thesis
  proof (cases ra)
    case (Inl e)
    with a assms(1,3) show ?thesis by (simp add: pos_out_parse_register_def Let_def)
  next
    case (Inr vals)
    obtain r busy p where b: "assign_capture_values (ou_pos st ! ref) vals (ou_pos_index_used st) = (r, busy, p)" by (metis prod_cases3)
    define st1 where "st1 = st\<lparr>ou_pos := (ou_pos st)[ref := p], ou_pos_index_used := busy\<rparr>"
    note ok = assigned_ok [OF assms(1,2) b st1_def]
    have len: "length vals = ?n" "ref < length (ou_pos st1)" "ou_fields st1 = ou_fields st" "ou_pos_mux st1 = ou_pos_mux st"
      using parse_uint_items_length a Inr assms(2) by (auto simp: parse_uint_array_def st1_def)
    have mux: "outputs_ok (st1\<lparr>ou_pos_mux := en\<rparr>)" for en
      using ok(1) by (rule outputs_ok_same) (simp_all add: pos_shape_def ext_shape_def)
    show ?thesis
    proof (cases r)
      case (Inl e)
      with a b Inr ok(1) assms(3) show ?thesis by (simp add: pos_out_parse_register_def Let_def st1_def)
    next
      case r: (Inr u)
      with ok(2,3) len have room: "length (filter is_pos (ou_fields st1)) + ?n \<le> marked (ou_pos_index_used st1)"
        "?n = length (po_values (ou_pos st1 ! ref))" by simp_all
      have "(\<exists>en. st' = st1\<lparr>ou_pos_mux := en\<rparr>) \<or>
          (\<exists>en r flds. st' = st1\<lparr>ou_pos_mux := en, ou_fields := flds\<rparr> \<and> register_pos_out ref block field ?n (ou_fields st1) = Some (r, flds))"
        using a b Inr r assms(3) len(3,4)
        by (auto simp: pos_out_parse_register_def Let_def st1_def [symmetric] split: option.splits prod.splits sum.splits)
      with mux registered_pos_ok [OF ok(1) len(2) room] show ?thesis by blast
    qed
  qed
qed

lemma parse_register_spec:
  assumes "parse_register lw busy line = ((r, line'), busy')" "length busy = EXT_BUS_COUNT"
  shows "length busy' = EXT_BUS_COUNT \<and> marked busy \<le> marked busy' \<and> (is_ok r \<longrightarrow> marked busy < marked busy')"
proof -
  obtain rv line1 where p: "parse_uint lw line = (rv, line1)" by fastforce
  show ?thesis
  proof (cases rv)
    case (Inl e)
    with p assms show ?thesis by (auto simp: parse_register_def)
  next
    case (Inr v)
    have "unat v < EXT_BUS_COUNT" if "v < word_of_nat EXT_BUS_COUNT" using that by (simp add: word_less_nat_alt EXT_BUS_COUNT_def)
    with p assms Inr show ?thesis by (auto simp: parse_register_def marked_update split: if_splits)
  qed
qed

lemma registers_parsed_ok:
  assumes "outputs_ok st" "length busy = EXT_BUS_COUNT" "marked (ou_ext_index_used st) \<le> marked busy"
    "eo_ext_type e = eo_ext_type (ou_ext st ! ref)"
  shows "outputs_ok (st\<lparr>ou_ext_index_used := busy, ou_ext := (ou_ext st)[ref := e]\<rparr>)"
proof -
  let ?st = "st\<lparr>ou_ext_index_used := busy, ou_ext := (ou_ext st)[ref := e]\<rparr>"
  have shape: "pos_shape ?st = pos_shape st" "ext_shape ?st = ext_shape st"
    using ext_shape_update [OF assms(4)] by (simp_all add: pos_shape_def ext_shape_def)
  show ?thesis using assms(1-3) unfolding outputs_ok_def shape ref_ok_cong [OF shape] by auto
qed

lemma registered_ext_ok:
  assumes "outputs_ok st" "ref < length (ou_ext st)" "length (filter (\<lambda>f. \<not> is_pos f) (ou_fields st)) < marked (ou_ext_index_used st)"
    "register_ext_out ref block field (ou_fields st) = Some (r, flds)"
  shows "outputs_ok (st\<lparr>ou_fields := flds\<rparr>)"
proof -
  let ?st = "st\<lparr>ou_fields := flds\<rparr>"
  from register_fields_spec [of "OUTPUT_EXT ref" block field 0 1 "ou_fields st" r flds] assms(4)
  obtain new where new: "flds = ou_fields st @ new" "length new \<le> 1" "\<forall>f\<in>set new. of_output f = OUTPUT_EXT ref"
    by (auto simp: register_ext_out_def register_output_fields_def)
  have shape: "pos_shape ?st = pos_shape st" "ext_shape ?st = ext_shape st" by (simp_all add: pos_shape_def ext_shape_def)
  have "\<forall>f\<in>set new. \<not> is_pos f" "\<forall>f\<in>set new. ref_ok st f" using new(3) assms(2) by (auto simp: ref_ok_def ext_shape_def)
  with filter_all_none [of new "\<lambda>f. \<not> is_pos f"] new(1,2) assms(1,3) show ?thesis
    unfolding outputs_ok_def shape ref_ok_cong [OF shape] by auto
qed

lemma samples_assigned_ok:
  assumes "outputs_ok st" "ref < length (ou_ext st)" "eo_ext_type (ou_ext st ! ref) = EXT_OUT_SAMPLES"
  shows "outputs_ok (st\<lparr>ou_samples := Some (ref, name)\<rparr>)"
proof -
  let ?st = "st\<lparr>ou_samples := Some (ref, name)\<rparr>"
  have shape: "pos_shape ?st = pos_shape st" "ext_shape ?st = ext_shape st" by (simp_all add: pos_shape_def ext_shape_def)
  show ?thesis using assms unfolding outputs_ok_def shape ref_ok_cong [OF shape] by (auto simp: ext_shape_def)
qed

lemma parse_second_register_spec:
  assumes "parse_second_register lw e line busy = ((r, line'), busy')" "length busy = EXT_BUS_COUNT"
  shows "length busy' = EXT_BUS_COUNT \<and> marked busy \<le> marked busy'"
  using assms parse_register_spec by (fastforce simp: parse_second_register_def split: if_splits prod.splits sum.splits)

lemma register_ext_out_field_ok:
  assumes "outputs_ok st" "ref < length (ou_ext st)" "length (filter (\<lambda>f. \<not> is_pos f) (ou_fields st)) < marked (ou_ext_index_used st)"
    "register_ext_out_field ref block field st = Some (res, st')"
  shows "outputs_ok st'"
proof -
  from assms(4) obtain r flds where reg: "register_ext_out ref block field (ou_fields st) = Some (r, flds)"
    by (cases "register_ext_out ref block field (ou_fields st)") (auto simp: register_ext_out_field_def)
  note ok = registered_ext_ok [OF assms(1-3) reg]
  have grp: "outputs_ok (st\<lparr>ou_fields := flds, ou_group_name := names\<rparr>)" for names
    using ok by (rule outputs_ok_same) (simp_all add: pos_shape_def ext_shape_def)
  have smp: "outputs_ok (st\<lparr>ou_fields := flds, ou_samples := Some (ref, name)\<rparr>)" if "eo_ext_type (ou_ext st ! ref) = EXT_OUT_SAMPLES" for name
    using samples_assigned_ok [OF ok] assms(2) that by simp
  show ?thesis
    using assms(4) reg ok grp smp
    by (cases r) (auto simp: register_ext_out_field_def Let_def split: ext_out_type.splits if_splits Option.bind_splits)
qed

lemma ext_register_ok:
  assumes "outputs_ok st" "ref < length (ou_ext st)" "ext_out_parse_register lw ref block field line st = Some (res, st')"
  shows "outputs_ok st'"
proof -
  let ?e = "ou_ext st ! ref"
  obtain r0 line0 busy0 where 0: "parse_register lw (ou_ext_index_used st) line = ((r0, line0), busy0)" by (metis prod_cases3 surj_pair)
  have n: "length (ou_ext_index_used st) = EXT_BUS_COUNT" using assms(1) by (simp add: outputs_ok_def)
  note s0 = parse_register_spec [OF 0 n]
  show ?thesis
  proof (cases r0)
    case (Inl err)
    have "st' = st\<lparr>ou_ext_index_used := busy0\<rparr>" using assms(3) 0 Inl by (simp add: ext_out_parse_register_def)
    moreover have "st\<lparr>ou_ext_index_used := busy0\<rparr> = st\<lparr>ou_ext_index_used := busy0, ou_ext := (ou_ext st)[ref := ?e]\<rparr>" by simp
    ultimately show ?thesis using registers_parsed_ok [OF assms(1), of busy0 ?e ref] s0 by simp
  next
    case (Inr reg0)
    obtain r1 line1 busy1 where 1: "parse_second_register lw ?e line0 busy0 = ((r1, line1), busy1)" by (metis prod_cases3 surj_pair)
    note s1 = parse_second_register_spec [OF 1 conjunct1 [OF s0]]
    let ?put = "\<lambda>regs. st\<lparr>ou_ext_index_used := busy1, ou_ext := (ou_ext st)[ref := ?e\<lparr>eo_registers := regs\<rparr>]\<rparr>"
    have parsed: "outputs_ok (?put regs)" for regs
      using s0 s1 by (intro registers_parsed_ok [OF assms(1)]) simp_all
    have room: "length (filter (\<lambda>f. \<not> is_pos f) (ou_fields (?put regs))) < marked (ou_ext_index_used (?put regs))" for regs
      using assms(1) s0 s1 Inr by (simp add: outputs_ok_def)
    show ?thesis
    proof (cases r1)
      case (Inl err)
      with assms(3) 0 Inr 1 parsed show ?thesis by (auto simp: ext_out_parse_register_def Let_def)
    next
      case r1: (Inr reg1)
      with assms(3) 0 Inr 1 obtain r where "register_ext_out_field ref block field (?put (reg0, reg1)) = Some (r, st')"
        by (auto simp: ext_out_parse_register_def Let_def)
      with register_ext_out_field_ok [OF parsed _ room] assms(2) show ?thesis by simp
    qed
  qed
qed

subsection \<open>Every configured state\<close>

lemma pos_out_init_indices: "pos_out_init fp n line = (Inr p, line') \<Longrightarrow> \<forall>v\<in>set (po_values p). pf_capture_index v = 0"
  by (auto simp: pos_out_init_def create_pos_out_def p_then_def p_return_def Let_def split: prod.splits bool.splits sum.split_asm)

lemma new_pos_ok:
  assumes "outputs_ok st" "\<forall>v\<in>set (po_values p). pf_capture_index v = 0"
  shows "outputs_ok (st\<lparr>ou_pos := ou_pos st @ [p]\<rparr>)"
proof -
  let ?st = "st\<lparr>ou_pos := ou_pos st @ [p]\<rparr>"
  have shape: "pos_shape ?st = pos_shape st @ [map pf_capture_index (po_values p)]" "ext_shape ?st = ext_shape st"
    by (simp_all add: pos_shape_def)
  have "ref_ok st f \<Longrightarrow> ref_ok ?st f" for f
    unfolding ref_ok_def shape by (auto simp: nth_append split: output_ref.splits)
  moreover have "\<forall>ixs\<in>set (pos_shape ?st). \<forall>ix\<in>set ixs. unat ix < POS_BUS_COUNT"
    using assms by (auto simp: outputs_ok_def shape POS_BUS_COUNT_def)
  ultimately show ?thesis using assms(1) unfolding outputs_ok_def shape(2) by simp
qed

lemma new_ext_ok:
  assumes "outputs_ok st"
  shows "outputs_ok (st\<lparr>ou_ext := ou_ext st @ [e]\<rparr>)"
proof -
  let ?st = "st\<lparr>ou_ext := ou_ext st @ [e]\<rparr>"
  have shape: "pos_shape ?st = pos_shape st" "ext_shape ?st = ext_shape st @ [eo_ext_type e]"
    by (simp_all add: ext_shape_def)
  have "ref_ok st f \<Longrightarrow> ref_ok ?st f" for f
    unfolding ref_ok_def shape by (auto split: output_ref.splits)
  then show ?thesis using assms unfolding outputs_ok_def shape by (simp add: nth_append less_Suc_eq)
qed

lemma configured_ok: "configured cast fp fs st \<Longrightarrow> outputs_ok st"
proof (induction rule: configured.induct)
  case (start names en)
  show ?case by (simp add: outputs_ok_def pos_shape_def)
next
  case (new_pos st n line p line')
  then show ?case using new_pos_ok pos_out_init_indices by blast
next
  case (new_ext st lw n line e line')
  then show ?case by (intro new_ext_ok)
next
  case (pos_register st ref block field lw line r st')
  then show ?case using pos_register_ok by blast
next
  case (ext_register st ref block field lw line r st')
  then show ?case using ext_register_ok by blast
next
  case (pos_attr st ref p number v lk result)
  then have "map pf_capture_index (po_values p) = map pf_capture_index (po_values (ou_pos st ! ref))"
    using pos_out_put_indices(1-3) pos_out_capture_put_indices by metis
  then show ?case by (intro outputs_ok_same [OF pos_attr.IH]) (simp_all add: pos_shape_update)
next
  case (ext_attr st ref capture_enum v result e)
  then have "eo_ext_type e = eo_ext_type (ou_ext st ! ref)" by (auto simp: ext_out_capture_put_def split: option.splits)
  then show ?case by (intro outputs_ok_same [OF ext_attr.IH]) (simp_all add: ext_shape_update)
next
  case (reset st gci)
  then show ?case by (intro reset_capture_list_ok)
qed

section \<open>The fields of a capture\<close>

text \<open>What identifies a captured field: its name, its option, how it is captured and from which entries of the buses.\<close>

definition info_key :: "'d capture_info \<Rightarrow> string \<times> string \<times> capture_mode \<times> u32 list" where
  "info_key info = (ci_field_name info, ci_capture_string info, ci_capture_mode info, ci_capture_index info)"

definition key_mode :: "string \<times> string \<times> capture_mode \<times> u32 list \<Rightarrow> capture_mode" where
  "key_mode key = fst (snd (snd key))"

text \<open>What the clients have selected of an output; the mean is part of the standard deviation where both are selected.\<close>

definition selection :: "('d, 'w) outputs \<Rightarrow> output_field \<Rightarrow> (string \<times> string \<times> capture_mode \<times> u32 list) list" where
  "selection st field =
     (case of_output field of
        OUTPUT_POS ref \<Rightarrow>
          (let v = po_values (ou_pos st ! ref) ! unat (of_number field) in
           map (\<lambda>i. let info = capture_option_info ! i in
               (of_field_name field, co_option_name info, co_capture_mode info, map (CAPTURE_POS_BUS (pf_capture_index v)) (co_capture_index info)))
             (filter (captured_option (pf_capture_mask v)) [0..<7]))
      | OUTPUT_EXT ref \<Rightarrow>
          (let e = ou_ext st ! ref in
           if eo_capture e then
             [(of_field_name field, ''Value'', get_capture_mode (eo_ext_type e),
               [CAPTURE_EXT_BUS (fst (eo_registers e)), CAPTURE_EXT_BUS (snd (eo_registers e)), 0, 0, 0])]
           else []))"

definition group_of :: "'d captured_fields \<Rightarrow> capture_mode \<Rightarrow> 'd capture_info list" where
  "group_of flds mode =
     (case mode of CAPTURE_MODE_SCALED32 \<Rightarrow> cf_scaled32 flds | CAPTURE_MODE_SCALED64 \<Rightarrow> cf_scaled64 flds
      | CAPTURE_MODE_AVERAGE \<Rightarrow> cf_averaged flds | CAPTURE_MODE_STDDEV \<Rightarrow> cf_std_dev flds | CAPTURE_MODE_UNSCALED \<Rightarrow> cf_unscaled flds)"

lemma group_of_fold:
  "group_of (fold add_to_group infos flds) mode = group_of flds mode @ filter (\<lambda>info. ci_capture_mode info = mode) infos"
proof (induction infos arbitrary: flds)
  case (Cons info infos)
  have "group_of (add_to_group info flds) mode = group_of flds mode @ (if ci_capture_mode info = mode then [info] else [])"
    by (cases mode; cases "ci_capture_mode info") (simp_all add: group_of_def add_to_group_def)
  with Cons.IH show ?case by simp
qed simp

lemma sample_count_fold: "cf_sample_count (fold add_to_group infos flds) = cf_sample_count flds"
proof (induction infos arbitrary: flds)
  case (Cons info infos)
  have "cf_sample_count (add_to_group info flds) = cf_sample_count flds"
    by (cases "ci_capture_mode info") (simp_all add: add_to_group_def)
  with Cons.IH show ?case by simp
qed simp

lemma key_filter: "map info_key (filter (\<lambda>info. ci_capture_mode info = mode) infos) = filter (\<lambda>key. key_mode key = mode) (map info_key infos)"
  by (induction infos) (simp_all add: info_key_def key_mode_def)

lemma get_capture_info_selection:
  assumes "get_capture_info ops dev hdr null_text st field s = (infos, s')"
  shows "map (\<lambda>info. info_key (info\<lparr>ci_field_name := of_field_name field\<rparr>)) infos = selection st field"
  using assms
  by (auto simp: get_capture_info_def selection_def get_pos_out_capture_info_def get_ext_out_capture_info_def ext_capture_info_def
      pos_out_info_def info_key_def Let_def capture_option_count split: output_ref.splits if_splits prod.splits)

lemma capture_option_indices: "\<forall>info\<in>set capture_option_info. length (co_capture_index info) = CAPTURE_INDEX_SIZE"
  by (simp add: capture_option_info_def CAPTURE_INDEX_SIZE_def Let_def)

lemma selection_words: "key \<in> set (selection st field) \<Longrightarrow> length (snd (snd (snd key))) = CAPTURE_INDEX_SIZE"
  using capture_option_indices
  by (auto simp: selection_def Let_def capture_option_count CAPTURE_INDEX_SIZE_def split: output_ref.splits if_splits)

lemma selection_length: "length (selection st field) \<le> (if is_pos field then 7 else 1)"
proof (cases "of_output field")
  case (OUTPUT_POS ref)
  then show ?thesis using length_filter_le [of _ "[0..<7 :: nat]"] by (auto simp: selection_def is_pos_def Let_def simp del: upt_Suc upt_rec_numeral)
qed (simp add: selection_def is_pos_def Let_def)

lemma selections_length:
  "length (concat (map (selection st) flds)) \<le> 7 * length (filter is_pos flds) + length (filter (\<lambda>f. \<not> is_pos f) flds)"
proof (induction flds)
  case (Cons f flds)
  with selection_length [of st f] show ?case by (cases "is_pos f") simp_all
qed simp

lemma gather_fields_selected:
  assumes "n + length (concat (map (selection st) (drop ix (ou_fields st)))) \<le> MAX_CAPTURE_COUNT"
  shows "\<exists>flds' s'. gather_fields ops dev hdr null_text st ix n flds s = Some (flds', s') \<and> cf_sample_count flds' = cf_sample_count flds \<and>
    (\<forall>mode. map info_key (group_of flds' mode) =
       map info_key (group_of flds mode) @ filter (\<lambda>key. key_mode key = mode) (concat (map (selection st) (drop ix (ou_fields st)))))"
  using assms
proof (induction ops dev hdr null_text st ix n flds s rule: gather_fields.induct)
  case (1 ops dev hdr null_text st ix n flds s)
  show ?case
  proof (cases "ix < length (ou_fields st)")
    case False
    then show ?thesis by (subst gather_fields.simps) (simp add: iterate_captured_values_def)
  next
    case True
    let ?f = "ou_fields st ! ix"
    obtain infos0 s1 where g: "get_capture_info ops dev hdr null_text st ?f s = (infos0, s1)" by fastforce
    let ?infos = "map (\<lambda>info. info\<lparr>ci_field_name := of_field_name ?f\<rparr>) infos0"
    have it: "iterate_captured_values ops dev hdr null_text st ix s = Some (?infos, ix + 1, s1)"
      using True g by (simp add: iterate_captured_values_def Let_def)
    have keys: "map info_key ?infos = selection st ?f" using get_capture_info_selection [OF g] by (simp add: o_def)
    have drop: "drop ix (ou_fields st) = ?f # drop (ix + 1) (ou_fields st)" using True by (simp add: Cons_nth_drop_Suc)
    have len: "length ?infos = length (selection st ?f)" using arg_cong [OF keys, of length] by simp
    have fits: "n + length ?infos \<le> MAX_CAPTURE_COUNT"
      "n + length ?infos + length (concat (map (selection st) (drop (ix + 1) (ou_fields st)))) \<le> MAX_CAPTURE_COUNT"
      using "1.prems" drop unfolding len by simp_all
    from "1.IH" [OF it refl refl fits] obtain flds' s' where
      r: "gather_fields ops dev hdr null_text st (ix + 1) (n + length ?infos) (fold add_to_group ?infos flds) s1 = Some (flds', s')"
        "cf_sample_count flds' = cf_sample_count (fold add_to_group ?infos flds)"
        "\<forall>mode. map info_key (group_of flds' mode) = map info_key (group_of (fold add_to_group ?infos flds) mode) @
           filter (\<lambda>key. key_mode key = mode) (concat (map (selection st) (drop (ix + 1) (ou_fields st))))" by blast
    have "gather_fields ops dev hdr null_text st ix n flds s = Some (flds', s')"
      by (subst gather_fields.simps) (simp only: it option.case prod.case fits(1) if_True r(1))
    moreover have "map info_key (group_of (fold add_to_group ?infos flds) mode) =
        map info_key (group_of flds mode) @ filter (\<lambda>key. key_mode key = mode) (selection st ?f)" for mode
      by (simp only: group_of_fold map_append key_filter keys)
    ultimately show ?thesis using r(2,3) unfolding sample_count_fold drop by simp
  qed
qed

lemma selected_groups:
  assumes "\<And>mode. map info_key (group_of flds mode) = filter (\<lambda>key. key_mode key = mode) keys"
    "\<And>key. key \<in> set keys \<Longrightarrow> length (snd (snd (snd key))) = CAPTURE_INDEX_SIZE" "info \<in> set (group_of flds mode)"
  shows "wf_info info \<and> ci_capture_mode info = mode"
proof -
  have "info_key info \<in> set (map info_key (group_of flds mode))" using assms(3) by simp
  then have "info_key info \<in> set keys" "key_mode (info_key info) = mode" unfolding assms(1) by simp_all
  with assms(2) show ?thesis by (auto simp: info_key_def key_mode_def wf_info_def)
qed

lemma configured_prepared:
  assumes "configured cast fp fs st" "check_pcap_valid st"
  shows "list_all (ref_ok st) (ou_fields st) \<and> list_all (list_all (\<lambda>ix. unat ix < POS_BUS_COUNT)) (pos_shape st) \<and>
    (\<exists>flds s'. prepare_captured_fields ops dev hdr null_text st s = Some (flds, s') \<and>
      (\<forall>mode. map info_key (group_of flds mode) =
         filter (\<lambda>key. key_mode key = mode) (concat (map (selection st) (ou_fields st)))) \<and>
      Some (ci_field_name (cf_sample_count flds)) = map_option snd (ou_samples st) \<and>
      wf_fields flds \<and> well_grouped flds)"
proof -
  have ok: "outputs_ok st" using assms(1) by (rule configured_ok)
  obtain ref name where samples: "ou_samples st = Some (ref, name)" using assms(2) by (auto simp: check_pcap_valid_def)
  with ok have ref: "eo_ext_type (ou_ext st ! ref) = EXT_OUT_SAMPLES" by (auto simp: outputs_ok_def ext_shape_def)
  obtain info0 s0 where info0: "ext_capture_info ops dev hdr (ou_ext st ! ref) s = (info0, s0)" by fastforce
  let ?info = "info0\<lparr>ci_field_name := name\<rparr>"
  let ?start = "\<lparr>cf_sample_count = ?info, cf_scaled32 = [], cf_averaged = [], cf_std_dev = [], cf_scaled64 = [], cf_unscaled = []\<rparr>"
  have count: "wf_info ?info" "ci_capture_mode ?info = CAPTURE_MODE_SCALED32"
    using info0 ref by (auto simp: ext_capture_info_def wf_info_def CAPTURE_INDEX_SIZE_def get_capture_mode_def split: prod.splits)
  let ?keys = "concat (map (selection st) (ou_fields st))"
  have "7 * length (filter is_pos (ou_fields st)) + length (filter (\<lambda>f. \<not> is_pos f) (ou_fields st)) \<le> 7 * POS_BUS_COUNT + EXT_BUS_COUNT"
    using ok marked_le [of "ou_pos_index_used st"] marked_le [of "ou_ext_index_used st"] by (simp add: outputs_ok_def)
  then have "0 + length (concat (map (selection st) (drop 0 (ou_fields st)))) \<le> MAX_CAPTURE_COUNT"
    using selections_length [of st "ou_fields st"] by (simp add: MAX_CAPTURE_COUNT_def MAX_POS_OUT_CAPTURE_def MAX_EXT_OUT_CAPTURE_def)
  from gather_fields_selected [OF this, of ops dev hdr null_text ?start s0] obtain flds s' where
    g: "gather_fields ops dev hdr null_text st 0 0 ?start s0 = Some (flds, s')" "cf_sample_count flds = ?info"
      "\<And>mode. map info_key (group_of flds mode) = map info_key (group_of ?start mode) @ filter (\<lambda>key. key_mode key = mode) ?keys" by auto
  have groups: "map info_key (group_of flds mode) = filter (\<lambda>key. key_mode key = mode) ?keys" for mode
    unfolding g(3) by (cases mode) (simp_all add: group_of_def)
  have "length (snd (snd (snd key))) = CAPTURE_INDEX_SIZE" if "key \<in> set ?keys" for key
    using that by (auto dest: selection_words simp del: split_paired_All)
  note form = selected_groups [OF groups this]
  have "wf_fields flds" "well_grouped flds"
    using count g(2) form [of _ CAPTURE_MODE_UNSCALED] form [of _ CAPTURE_MODE_SCALED32] form [of _ CAPTURE_MODE_SCALED64]
      form [of _ CAPTURE_MODE_AVERAGE] form [of _ CAPTURE_MODE_STDDEV]
    by (auto simp: wf_fields_def well_grouped_def scaled_fields_def group_of_def list_all_iff)
  moreover have "prepare_captured_fields ops dev hdr null_text st s = Some (flds, s')"
    using samples info0 g(1) by (simp add: prepare_captured_fields_def get_samples_capture_info_def)
  moreover have "list_all (ref_ok st) (ou_fields st) \<and> list_all (list_all (\<lambda>ix. unat ix < POS_BUS_COUNT)) (pos_shape st)"
    using ok by (simp add: outputs_ok_def list_all_iff)
  ultimately show ?thesis using groups g(2) samples by auto
qed

text \<open>
  C6: whatever the configuration files and the clients have done to the outputs, every registered output refers to an
  existing field and to entries of its bus, and once there is a field for the number of samples the preparation of a
  capture succeeds: what the clients have selected always fits the buffer for it, it is divided into the groups by the
  way it is captured, in the order of registration, each with its names and its words of the capture buses, and
  the result has the form that capturing and the header of the data stream rely on.\<close>

theorem configured_outputs_prepared:
  assumes "configured cast fp fs st" "check_pcap_valid st"
  shows "list_all (ref_ok st) (ou_fields st) \<and> list_all (list_all (\<lambda>ix. unat ix < POS_BUS_COUNT)) (pos_shape st) \<and>
    (\<exists>flds s'. prepare_captured_fields ops dev hdr null_text st s = Some (flds, s') \<and>
      (\<forall>mode. map info_key (group_of flds mode) =
         filter (\<lambda>key. key_mode key = mode) (concat (map (selection st) (ou_fields st)))) \<and>
      Some (ci_field_name (cf_sample_count flds)) = map_option snd (ou_samples st) \<and>
      wf_fields flds \<and> well_grouped flds)"
  using assms by (rule configured_prepared)

text \<open>A system with the count of samples on entry 5 of its bus, and one position on entry 7 whose mean is captured.\<close>

definition example_outputs :: "u32 \<Rightarrow> 'w \<Rightarrow> (int, 'w) outputs" where
  "example_outputs msk en =
     \<lparr>ou_pos = [\<lparr>po_capture_attr = [1], po_values = [\<lparr>pf_scale = fp_literal sample_fp ''1.0'', pf_offset = fp_literal sample_fp ''0.0'',
          pf_units = None, pf_capture_index = 7, pf_capture_mask = msk\<rparr>]\<rparr>],
      ou_ext = [(create_ext_out EXT_OUT_SAMPLES 0)\<lparr>eo_registers := (5, 0)\<rparr>],
      ou_fields = [\<lparr>of_output = OUTPUT_EXT 0, of_number = 0, of_field_name = ''TTLIN.TERM''\<rparr>,
        \<lparr>of_output = OUTPUT_POS 0, of_number = 0, of_field_name = ''TTLIN.TERM''\<rparr>],
      ou_samples = Some (0, ''TTLIN.TERM''), ou_pos_index_used = (replicate POS_BUS_COUNT False)[7 := True],
      ou_ext_index_used = (replicate EXT_BUS_COUNT False)[5 := True], ou_group_name = [], ou_pos_mux = en\<rparr>"

lemma example_lines:
  "parse_register 32 (replicate EXT_BUS_COUNT False) ''5'' = ((Inr 5, []), (replicate EXT_BUS_COUNT False)[5 := True])"
  "parse_uint_array 32 (Suc 0) ''7'' = (Inr [7], [])"
proof -
  have end_: "ends_token []" by code_simp
  have digits: "show_base 10 5 = ''5''" "show_base 10 7 = ''7''" by code_simp+
  have "parse_uint 32 ''5'' = (Inr 5, [])" "parse_uint 32 ''7'' = (Inr 7, [])"
    using parse_uint_show [OF end_, of 5] parse_uint_show [OF end_, of 7] by (simp_all add: digits)
  then show "parse_register 32 (replicate EXT_BUS_COUNT False) ''5'' = ((Inr 5, []), (replicate EXT_BUS_COUNT False)[5 := True])"
    "parse_uint_array 32 (Suc 0) ''7'' = (Inr [7], [])"
    by (simp_all add: parse_register_def EXT_BUS_COUNT_def parse_uint_array_def p_then_def p_return_def p_if_def)
qed

lemma example_option:
  obtains lk :: "32 enumeration" where "parse_capture_options lk 0 ''Mean'' = Some (Inr 32)"
proof -
  obtain lk :: "32 enumeration" where lk: "\<And>i. i \<in> set (available_options False) \<Longrightarrow>
      enum_name_to_index lk (co_option_name (capture_option_info ! i)) = Some (Some (word_of_nat i))"
    using keyword_lookup [where enable_std_dev = False and cast = "ucast :: u8 \<Rightarrow> u32"] by auto
  have "5 \<in> set (available_options False)" "co_option_name (capture_option_info ! 5) = ''Mean''" "plain_name ''Mean''" by code_simp+
  with lk [of 5] have "plain_name name \<and> i < 32 \<and> enum_name_to_index lk name = Some (Some (word_of_nat i))"
    if "(i, name) \<in> set [(5, ''Mean'')]" for i name using that by simp
  from parse_capture_options_text [OF this, of "[(5, ''Mean'')]" 0] that [of lk] show thesis
    by (simp add: options_text_def)
qed

lemma example_configured:
  obtains en :: "32 enumeration" where "configured ucast sample_fp {(single_output, sample_field)} (example_outputs 32 en)"
proof -
  let ?conf = "configured ucast sample_fp {(single_output, sample_field)} :: (int, 32 enumeration) outputs \<Rightarrow> bool"
  obtain en where en: "add_mux_indices ucast create_dynamic_enumeration single_output sample_field [7] = Some (Inr (), en :: 32 enumeration)"
    by (rule single_output_mux)
  obtain lk :: "32 enumeration" where lk: "parse_capture_options lk 0 ''Mean'' = Some (Inr 32)" by (rule example_option)
  let ?st0 = "\<lparr>ou_pos = [], ou_ext = [], ou_fields = [], ou_samples = None,
      ou_pos_index_used = replicate POS_BUS_COUNT False, ou_ext_index_used = replicate EXT_BUS_COUNT False,
      ou_group_name = [], ou_pos_mux = create_dynamic_enumeration\<rparr> :: (int, 32 enumeration) outputs"
  let ?e = "create_ext_out EXT_OUT_SAMPLES 0"
  let ?f = "\<lparr>of_output = OUTPUT_EXT 0, of_number = 0, of_field_name = ''TTLIN.TERM''\<rparr>"
  let ?st2 = "?st0\<lparr>ou_ext := [?e\<lparr>eo_registers := (5, 0)\<rparr>], ou_fields := [?f], ou_samples := Some (0, ''TTLIN.TERM''),
      ou_ext_index_used := (replicate EXT_BUS_COUNT False)[5 := True]\<rparr>"
  let ?p = "create_pos_out 1 (fp_literal sample_fp ''1.0'') (fp_literal sample_fp ''0.0'') None"
  have "ext_out_init 32 1 '' samples'' = (Inr ?e, [])" by code_simp
  from configured.new_ext [OF configured.start this] have c1: "?conf (?st0\<lparr>ou_ext := [?e]\<rparr>)" by simp
  have l1: "ext_out_parse_register 32 0 single_output sample_field ''5'' (?st0\<lparr>ou_ext := [?e]\<rparr>) = Some ((Inr (), []), ?st2)"
    by (simp add: ext_out_parse_register_def example_lines parse_second_register_def register_ext_out_field_def register_ext_out_def
        register_output_fields_def register_one_field_def single_output_name create_ext_out_def MAX_OUTPUT_COUNT_def POS_BUS_COUNT_def)
  have c2: "?conf ?st2" by (rule configured.ext_register [OF c1 _ _ l1]) simp_all
  have "pos_out_init sample_fp 1 [] = (Inr ?p, [])" by (simp add: pos_out_init_def read_char_def Let_def)
  from configured.new_pos [OF c2 this] have c3: "?conf (?st2\<lparr>ou_pos := [?p]\<rparr>)" by simp
  have l3: "pos_out_parse_register ucast 32 0 single_output sample_field ''7'' (?st2\<lparr>ou_pos := [?p]\<rparr>) =
      Some ((Inr (), []), example_outputs 0 en)"
    by (simp add: pos_out_parse_register_def example_lines en add_pos_mux_index_def create_pos_out_def assign_capture_values_def
        register_pos_out_def register_output_fields_def register_one_field_def single_output_name example_outputs_def
        MAX_OUTPUT_COUNT_def POS_BUS_COUNT_def)
  have conf: "?conf (example_outputs 0 en)" by (rule configured.pos_register [OF c3 _ _ l3]) simp_all
  have "pos_out_capture_put lk (ou_pos (example_outputs 0 en) ! 0) 0 ''Mean'' = Some (Inr (), ou_pos (example_outputs 32 en) ! 0)"
    by (simp add: pos_out_capture_put_def lk update_pos_out_def example_outputs_def)
  with conf have "?conf ((example_outputs 0 en)\<lparr>ou_pos := (ou_pos (example_outputs 0 en))[0 := ou_pos (example_outputs 32 en) ! 0]\<rparr>)"
    by (intro configured.pos_attr [where number = 0 and v = "''Mean''" and lk = lk]) (auto simp: example_outputs_def)
  then have "?conf (example_outputs 32 en)" by (simp add: example_outputs_def)
  with that show thesis .
qed

lemma example_keys:
  "concat (map (selection (example_outputs 32 en)) (ou_fields (example_outputs 32 en))) =
     [(''TTLIN.TERM'', ''Mean'', CAPTURE_MODE_AVERAGE, [0x72, 0x73, 0x70, 0x70, 0x70])]"
proof -
  have "filter (captured_option 32) [0..<7] = [5]" by code_simp
  moreover have "map (CAPTURE_POS_BUS 7) (co_capture_index (capture_option_info ! 5)) = [0x72, 0x73, 0x70, 0x70, 0x70]"
    "co_option_name (capture_option_info ! 5) = ''Mean''" "co_capture_mode (capture_option_info ! 5) = CAPTURE_MODE_AVERAGE" by code_simp+
  ultimately show ?thesis by (simp add: selection_def example_outputs_def Let_def create_ext_out_def del: upt_rec_numeral)
qed

theorem configured_outputs_prepared_witness:
  "\<exists>(en :: 32 enumeration) flds s'. configured ucast sample_fp {(single_output, sample_field)} (example_outputs 32 en) \<and>
    prepare_captured_fields int_ops memory_device sample_header ''(null)'' (example_outputs 32 en) (\<lambda>_. 0) = Some (flds, s') \<and>
    map info_key (cf_averaged flds) = [(''TTLIN.TERM'', ''Mean'', CAPTURE_MODE_AVERAGE, [0x72, 0x73, 0x70, 0x70, 0x70])] \<and>
    cf_std_dev flds = [] \<and> wf_fields flds"
proof -
  obtain en :: "32 enumeration" where en: "configured ucast sample_fp {(single_output, sample_field)} (example_outputs 32 en)"
    by (rule example_configured)
  have valid: "check_pcap_valid (example_outputs 32 en)" by (simp add: check_pcap_valid_def example_outputs_def)
  from configured_outputs_prepared [OF en valid, of int_ops memory_device sample_header "''(null)''" "\<lambda>_. 0"] obtain flds s' where
    r: "prepare_captured_fields int_ops memory_device sample_header ''(null)'' (example_outputs 32 en) (\<lambda>_. 0) = Some (flds, s')"
      "\<And>mode. map info_key (group_of flds mode) =
         filter (\<lambda>key. key_mode key = mode) (concat (map (selection (example_outputs 32 en)) (ou_fields (example_outputs 32 en))))"
      "wf_fields flds" by blast
  show ?thesis
    using en r(1,3) r(2) [of CAPTURE_MODE_AVERAGE] r(2) [of CAPTURE_MODE_STDDEV] unfolding example_keys
    by (auto simp: group_of_def key_mode_def)
qed

end
