(* ===== verification/Panda_Data.thy ===== *)
theory Panda_Data
  imports Panda_Output Panda_Buffer Panda_Base64 Panda_Table Panda_Config
begin

text \<open>
  \<^verbatim>\<open>data_server.c\<close>: the thread that captures the data of an experiment into the circular buffer, and the connections
  that read the buffer and send converted samples to their clients.
\<close>

definition DATA_BLOCK_SIZE :: nat where "DATA_BLOCK_SIZE = 2 ^ 21"
definition DATA_BLOCK_COUNT :: nat where "DATA_BLOCK_COUNT = 128"
definition DATA_IN_BUF_SIZE :: nat where "DATA_IN_BUF_SIZE = 4096"
definition DATA_OUT_BUF_SIZE :: nat where "DATA_OUT_BUF_SIZE = 16384"
definition NET_BUF_SIZE :: nat where "NET_BUF_SIZE = 65536"
definition MAX_RAW_SAMPLE_LENGTH :: nat where "MAX_RAW_SAMPLE_LENGTH = 256"
definition BASE64_CONVERT_COUNT :: nat where "BASE64_CONVERT_COUNT = 57"
definition BUFFER_READ_MARGIN :: nat where "BUFFER_READ_MARGIN = DATA_BLOCK_COUNT div 4"

section \<open>The connection\<close>

text \<open>The results of \<^verbatim>\<open>recv\<close>: a number of bytes, \<^verbatim>\<open>EAGAIN\<close> or another error.\<close>

datatype recv_result = Recv nat | Recv_again | Recv_error

definition check_connection :: "recv_result \<Rightarrow> bool" where
  "check_connection rx = (case rx of Recv n \<Rightarrow> n > 0 | Recv_again \<Rightarrow> True | Recv_error \<Rightarrow> False)"

text \<open>The options of the connection, if the request was read, accepted and answered.\<close>

definition process_data_request ::
    "'s socket_ops \<Rightarrow> buffered_file \<Rightarrow> 's \<Rightarrow> (data_options option \<times> buffered_file \<times> 's) option" where
  "process_data_request so file s =
     do { (line, file, s) \<leftarrow> read_line so file MAX_LINE_LENGTH False s;
          (case line of
             None \<Rightarrow> Some (None, file, s)
           | Some line \<Rightarrow>
               (case parse_data_options line of
                  Inr options \<Rightarrow>
                    if do_omit_status options then Some (Some options, file, s)
                    else do { (_, file, s) \<leftarrow> write_string so file (''OK'' @ [newline]) s;
                              (ok, file, s) \<leftarrow> flush_out_buf so file s;
                              Some (if ok then Some options else None, file, s) }
                | Inl e \<Rightarrow>
                    do { (_, file, s) \<leftarrow> write_string so file (''ERR '' @ error_format (Inl e) @ [newline]) s;
                         (_, file, s) \<leftarrow> flush_out_buf so file s;
                         Some (None, file, s) })) }"

text \<open>
  \<^verbatim>\<open>wait_for_capture\<close>: for each pass of the loop the answer of the socket, the buffer and the wake-ups of
  \<^verbatim>\<open>open_reader\<close>.  \<open>None\<close>: still waiting when these are used up.
\<close>

fun wait_for_open ::
    "reader_state \<Rightarrow> (recv_result \<times> capture_buffer \<times> wakeup list) list \<Rightarrow> ((reader_state \<times> u64) option) option" where
  "wait_for_open rdr [] = None"
| "wait_for_open rdr ((rx, b, wakeups) # env) =
     (if check_connection rx then
        (case open_reader rdr b BUFFER_READ_MARGIN wakeups of
           None \<Rightarrow> None
         | Some (None, _) \<Rightarrow> wait_for_open rdr env
         | Some (Some (rdr, lost), _) \<Rightarrow> Some (Some (rdr, lost)))
      else Some None)"

definition lost_and_skip :: "u64 \<Rightarrow> nat \<Rightarrow> u64 \<times> nat" where
  "lost_and_skip lost sample_size =
     (let lost_samples = (lost + word_of_nat sample_size - 1) div word_of_nat sample_size;
          extra_bytes = unat (lost mod word_of_nat sample_size) in
      (lost_samples, if extra_bytes > 0 then sample_size - extra_bytes else 0))"

definition wait_for_capture ::
    "'d data_capture \<Rightarrow> reader_state \<Rightarrow> (recv_result \<times> capture_buffer \<times> wakeup list) list
       \<Rightarrow> ((reader_state \<times> u64 \<times> nat) option) option" where
  "wait_for_capture capture rdr env =
     do { opened \<leftarrow> wait_for_open rdr env;
          (case opened of
             None \<Rightarrow> Some None
           | Some (rdr, lost) \<Rightarrow>
               do { sample_size \<leftarrow> get_raw_sample_length capture;
                    (case lost_and_skip lost sample_size of (lost_samples, skip) \<Rightarrow> Some (Some (rdr, lost_samples, skip))) }) }"

section \<open>Processing of samples\<close>

text \<open>
  \<^verbatim>\<open>sample_buffer\<close> is kept as its contents.  \<^verbatim>\<open>output_buffer\<close> is kept as the items behind the room for the header, or, when
  raw samples are passed through, as the bytes there.  The two lengths are positive: the functions that give them assert it.
\<close>

record 'd data_capture_state =
  ds_raw_sample_length :: nat
  ds_binary_sample_length :: nat
  ds_sample_buffer :: "u8 list"
  ds_output_items :: "'d item list"
  ds_output_bytes :: "u8 list"
  ds_output_buffer_count :: nat

definition process_samples ::
    "'d capture_ops \<Rightarrow> 'd data_capture \<Rightarrow> data_options \<Rightarrow> 'd data_capture_state \<Rightarrow> u8 list
       \<Rightarrow> (nat \<times> 'd data_capture_state \<times> u8 list) option" where
  "process_samples ops capture options st buffer =
     (let free_space = NET_BUF_SIZE - ds_output_buffer_count st;
          sample_count = min (length buffer div ds_raw_sample_length st) (free_space div ds_binary_sample_length st) in
      do { items \<leftarrow> convert_raw_data_to_binary ops capture options sample_count (words_of_bytes buffer);
           Some (sample_count,
             st\<lparr>ds_output_items := ds_output_items st @ items,
                ds_output_buffer_count := ds_output_buffer_count st + sample_count * ds_binary_sample_length st\<rparr>,
             drop (sample_count * ds_raw_sample_length st) buffer) })"

definition process_single_sample ::
    "'d capture_ops \<Rightarrow> 'd data_capture \<Rightarrow> data_options \<Rightarrow> 'd data_capture_state \<Rightarrow> u8 list
       \<Rightarrow> (nat \<times> 'd data_capture_state \<times> u8 list) option" where
  "process_single_sample ops capture options st buffer =
     (if length (ds_sample_buffer st) > 0 then
        (let to_copy = min (length buffer) (ds_raw_sample_length st - length (ds_sample_buffer st));
             sample = ds_sample_buffer st @ take to_copy buffer;
             buffer = drop to_copy buffer in
         if length sample > MAX_RAW_SAMPLE_LENGTH then None
         else if length sample \<ge> ds_raw_sample_length st then
           do { (n, st, sample) \<leftarrow> process_samples ops capture options st sample;
                Some (n, st\<lparr>ds_sample_buffer := sample\<rparr>, buffer) }
         else Some (0, st\<lparr>ds_sample_buffer := sample\<rparr>, buffer))
      else Some (0, st, buffer))"

definition update_single_sample_buffer :: "'d data_capture_state \<Rightarrow> u8 list \<Rightarrow> 'd data_capture_state option" where
  "update_single_sample_buffer st buffer =
     (if length (ds_sample_buffer st) + length buffer \<le> MAX_RAW_SAMPLE_LENGTH
      then Some (st\<lparr>ds_sample_buffer := ds_sample_buffer st @ buffer\<rparr>) else None)"

definition prepare_output_buffer :: "data_options \<Rightarrow> 'd data_capture_state \<Rightarrow> 'd data_capture_state" where
  "prepare_output_buffer options st =
     st\<lparr>ds_output_items := [], ds_output_buffer_count := (if do_data_format options = DATA_FORMAT_FRAMED then 8 else 0)\<rparr>"

text \<open>The line holds the NUL that \<^verbatim>\<open>base64_encode\<close> writes and counts.\<close>

function write_block_base64 :: "'s socket_ops \<Rightarrow> buffered_file \<Rightarrow> u8 list \<Rightarrow> 's \<Rightarrow> (bool \<times> buffered_file \<times> 's) option" where
  "write_block_base64 so file data s =
     (if length data > 0 then
        (let to_encode = min (length data) BASE64_CONVERT_COUNT;
             (encoded_text, encoded) = base64_encode (take to_encode data);
             line = '' '' @ encoded_text @ [nul] @ [newline] in
         do { (ok, file, s) \<leftarrow> write_string so file (take (encoded + 2) line) s;
              (if ok then write_block_base64 so file (drop to_encode data) s else Some (False, file, s)) })
      else Some (True, file, s))"
  by auto

termination
  by (relation "measure (\<lambda>(so, file, data, s). length data)") (auto simp: BASE64_CONVERT_COUNT_def)

declare write_block_base64.simps [simp del]

definition set_frame_header :: "nat \<Rightarrow> u8 list option" where
  "set_frame_header frame_length =
     (if frame_length \<le> 2 ^ 32 - 1 then Some (map byte_of ''BIN '' @ bytes_of_word (word_of_nat frame_length)) else None)"

text \<open>The bytes of an item; \<open>db\<close> gives the eight bytes of a double.\<close>

definition item_data :: "('d \<Rightarrow> u8 list) \<Rightarrow> 'd item \<Rightarrow> u8 list" where
  "item_data db x = (case x of Word32 w \<Rightarrow> bytes_of_word w | Double d \<Rightarrow> db d)"

definition send_output_buffer ::
    "'s socket_ops \<Rightarrow> 'd capture_ops \<Rightarrow> ('d \<Rightarrow> u8 list) \<Rightarrow> 'd data_capture \<Rightarrow> data_options \<Rightarrow> 'd data_capture_state \<Rightarrow> nat
       \<Rightarrow> buffered_file \<Rightarrow> 's \<Rightarrow> (bool \<times> buffered_file \<times> 's) option" where
  "send_output_buffer so ops db capture options st samples file s =
     (let count = ds_output_buffer_count st; data = concat (map (item_data db) (ds_output_items st)) in
      case do_data_format options of
        DATA_FORMAT_ASCII \<Rightarrow> send_binary_as_ascii so ops capture options file samples (ds_output_items st) s
      | DATA_FORMAT_BASE64 \<Rightarrow> write_block_base64 so file (take count data) s
      | DATA_FORMAT_UNFRAMED \<Rightarrow> write_block so file (map char_of_byte (take count data)) s
      | DATA_FORMAT_FRAMED \<Rightarrow>
          do { header \<leftarrow> set_frame_header count;
               write_block so file (map char_of_byte (take count (header @ data))) s })"

section \<open>Blocks\<close>

text \<open>
  What happens to a block: whether the client can still be reached, whether the data is good, and the new states.
  \<open>check\<close> gives the buffer at the calls of \<^verbatim>\<open>check_read_block\<close>, of which there have been \<open>k\<close>.
\<close>

record ('d, 's) block_result =
  br_ok :: bool
  br_data_ok :: bool
  br_reader :: reader_state
  br_state :: "'d data_capture_state"
  br_sent_samples :: u64
  br_file :: buffered_file
  br_world :: 's

text \<open>One pass of the loop: the block is abandoned, or what is left of it and the states.\<close>

definition process_capture_pass ::
    "'s socket_ops \<Rightarrow> 'd capture_ops \<Rightarrow> ('d \<Rightarrow> u8 list) \<Rightarrow> 'd data_capture \<Rightarrow> data_options \<Rightarrow> (nat \<Rightarrow> capture_buffer) \<Rightarrow> nat
       \<Rightarrow> reader_state \<Rightarrow> 'd data_capture_state \<Rightarrow> u8 list \<Rightarrow> nat \<Rightarrow> u64 \<Rightarrow> buffered_file \<Rightarrow> 's
       \<Rightarrow> (('d, 's) block_result + nat \<times> u8 list \<times> ('d, 's) block_result) option" where
  "process_capture_pass so ops db capture options check k rdr st buffer samples sent_samples file s =
     do { (n, st, buffer) \<leftarrow> process_samples ops capture options st buffer;
          (let samples = samples + n;
               res = \<lparr>br_ok = True, br_data_ok = True, br_reader = rdr, br_state = st, br_sent_samples = sent_samples,
                 br_file = file, br_world = s\<rparr> in
           if samples > 0 then
             (let (data_ok, rdr) = check_read_block rdr (check k) in
              if \<not> data_ok then Some (Inl (res\<lparr>br_data_ok := False, br_reader := rdr\<rparr>))
              else
                do { (ok, file, s) \<leftarrow> send_output_buffer so ops db capture options st samples file s;
                     (let res = res\<lparr>br_reader := rdr, br_file := file, br_world := s\<rparr> in
                      if \<not> ok then Some (Inl (res\<lparr>br_ok := False\<rparr>))
                      else Some (Inr (k + 1, buffer, res\<lparr>br_state := prepare_output_buffer options st,
                             br_sent_samples := sent_samples + word_of_nat samples\<rparr>))) })
           else Some (Inr (k, buffer, res))) }"

partial_function (option) process_capture_loop ::
    "'s socket_ops \<Rightarrow> 'd capture_ops \<Rightarrow> ('d \<Rightarrow> u8 list) \<Rightarrow> 'd data_capture \<Rightarrow> data_options \<Rightarrow> (nat \<Rightarrow> capture_buffer) \<Rightarrow> nat
       \<Rightarrow> reader_state \<Rightarrow> 'd data_capture_state \<Rightarrow> u8 list \<Rightarrow> nat \<Rightarrow> u64 \<Rightarrow> buffered_file \<Rightarrow> 's \<Rightarrow> ('d, 's) block_result option" where
  "process_capture_loop so ops db capture options check k rdr st buffer samples sent_samples file s =
     Option.bind (process_capture_pass so ops db capture options check k rdr st buffer samples sent_samples file s) (\<lambda>r.
       case r of
         Inl res \<Rightarrow> Some res
       | Inr (k, buffer, res) \<Rightarrow>
           if length buffer \<ge> ds_raw_sample_length (br_state res) then
             process_capture_loop so ops db capture options check k (br_reader res) (br_state res) buffer 0
               (br_sent_samples res) (br_file res) (br_world res)
           else map_option (\<lambda>st. res\<lparr>br_state := st\<rparr>) (update_single_sample_buffer (br_state res) buffer))"

definition process_capture_block ::
    "'s socket_ops \<Rightarrow> 'd capture_ops \<Rightarrow> ('d \<Rightarrow> u8 list) \<Rightarrow> 'd data_capture \<Rightarrow> data_options \<Rightarrow> (nat \<Rightarrow> capture_buffer)
       \<Rightarrow> reader_state \<Rightarrow> 'd data_capture_state \<Rightarrow> u8 list \<Rightarrow> u64 \<Rightarrow> buffered_file \<Rightarrow> 's \<Rightarrow> ('d, 's) block_result option" where
  "process_capture_block so ops db capture options check rdr st buffer sent_samples file s =
     do { (samples, st, buffer) \<leftarrow> process_single_sample ops capture options (prepare_output_buffer options st) buffer;
          process_capture_loop so ops db capture options check 0 rdr st buffer samples sent_samples file s }"

text \<open>
  Where no sample is complete and bytes are left over from before, \<^verbatim>\<open>buffer_to_send\<close> wraps around and the
  second write leaves the block: no value.
\<close>

definition passthrough_capture_block ::
    "'s socket_ops \<Rightarrow> (nat \<Rightarrow> capture_buffer) \<Rightarrow> reader_state \<Rightarrow> 'd data_capture_state \<Rightarrow> u8 list \<Rightarrow> u64 \<Rightarrow> buffered_file \<Rightarrow> 's
       \<Rightarrow> ('d, 's) block_result option" where
  "passthrough_capture_block so check rdr st buffer sent_samples file s =
     (let count = ds_output_buffer_count st;
          samples = (count + length buffer) div ds_raw_sample_length st;
          residual = 8 + count in
      if samples * ds_raw_sample_length st < count then None
      else
        (let buffer_to_send = samples * ds_raw_sample_length st - count in
         do { header \<leftarrow> set_frame_header (residual + buffer_to_send);
              (ok, file, s) \<leftarrow> write_block so file (map char_of_byte (take residual (header @ ds_output_bytes st))) s;
              (ok, file, s) \<leftarrow> (if ok then write_block so file (map char_of_byte (take buffer_to_send buffer)) s
                else Some (False, file, s));
              (if \<not> ok then
                 Some \<lparr>br_ok = False, br_data_ok = True, br_reader = rdr, br_state = st, br_sent_samples = sent_samples,
                   br_file = file, br_world = s\<rparr>
               else if 8 + (length buffer - buffer_to_send) > NET_BUF_SIZE then None
               else
                 (let (data_ok, rdr) = check_read_block rdr (check 0) in
                  Some \<lparr>br_ok = True, br_data_ok = data_ok, br_reader = rdr,
                    br_state = st\<lparr>ds_output_bytes := drop buffer_to_send buffer,
                      ds_output_buffer_count := length buffer - buffer_to_send\<rparr>,
                    br_sent_samples = sent_samples + word_of_nat samples, br_file = file, br_world = s\<rparr>)) }))"

section \<open>The data stream\<close>

text \<open>
  What a connection meets at one pass of its loop: the buffer states of \<^verbatim>\<open>get_read_block\<close>, the answer of the socket,
  the memory of the block while it is processed, and the buffer at each check of the block.
\<close>

record block_env =
  be_buffer :: capture_buffer
  be_wakeups :: "wakeup list"
  be_buffer1 :: capture_buffer
  be_buffer2 :: capture_buffer
  be_recv :: recv_result
  be_memory :: "u8 list"
  be_checks :: "nat \<Rightarrow> capture_buffer"

definition env_read_block :: "reader_state \<Rightarrow> block_env \<Rightarrow> (read_block \<times> reader_state) option" where
  "env_read_block rdr e = get_read_block rdr (be_buffer e) (be_wakeups e) (be_buffer1 e) (be_buffer2 e)"

definition block_contents :: "block_env \<Rightarrow> read_block \<Rightarrow> u8 list" where
  "block_contents e block = (case block of Block ix len \<Rightarrow> take len (be_memory e) | _ \<Rightarrow> [])"

fun send_blocks ::
    "'s socket_ops \<Rightarrow> 'd capture_ops \<Rightarrow> ('d \<Rightarrow> u8 list) \<Rightarrow> 'd data_capture \<Rightarrow> data_options \<Rightarrow> bool \<Rightarrow> reader_state
       \<Rightarrow> 'd data_capture_state \<Rightarrow> nat \<Rightarrow> u64 \<Rightarrow> buffered_file \<Rightarrow> block_env list \<Rightarrow> 's
       \<Rightarrow> (reader_state \<times> u64 \<times> buffered_file \<times> 's) option" where
  "send_blocks so ops db capture options passthrough rdr st skip_bytes sent_samples file [] s = None"
| "send_blocks so ops db capture options passthrough rdr st skip_bytes sent_samples file (e # env) s =
     (case env_read_block rdr e of
        None \<Rightarrow> None
      | Some (block, rdr) \<Rightarrow>
          if block = NullBlock \<or> \<not> check_connection (be_recv e) then Some (rdr, sent_samples, file, s)
          else
            (let contents = block_contents e block;
                 skipped = min skip_bytes (length contents);
                 buffer = drop skipped contents in
             do { res \<leftarrow> (if buffer \<noteq> [] then
                    (if passthrough
                     then passthrough_capture_block so (be_checks e) rdr st buffer sent_samples file s
                     else process_capture_block so ops db capture options (be_checks e) rdr st buffer sent_samples file s)
                    else Some \<lparr>br_ok = True, br_data_ok = True, br_reader = rdr, br_state = st, br_sent_samples = sent_samples,
                      br_file = file, br_world = s\<rparr>);
                  (ok, file, s) \<leftarrow> (if br_ok res then flush_out_buf so (br_file res) (br_world res)
                    else Some (False, br_file res, br_world res));
                  (if ok \<and> br_data_ok res then
                     send_blocks so ops db capture options passthrough (br_reader res) (br_state res) (skip_bytes - skipped)
                       (br_sent_samples res) file env s
                   else Some (br_reader res, br_sent_samples res, file, s)) }))"

definition send_data_stream ::
    "'s socket_ops \<Rightarrow> 'd capture_ops \<Rightarrow> ('d \<Rightarrow> u8 list) \<Rightarrow> 'd data_capture \<Rightarrow> data_options \<Rightarrow> reader_state \<Rightarrow> nat \<Rightarrow> buffered_file
       \<Rightarrow> block_env list \<Rightarrow> 's \<Rightarrow> (reader_state \<times> u64 \<times> buffered_file \<times> 's) option" where
  "send_data_stream so ops db capture options rdr skip_bytes file env s =
     do { raw_sample_length \<leftarrow> get_raw_sample_length capture;
          binary_sample_length \<leftarrow> get_binary_sample_length capture options;
          send_blocks so ops db capture options
            (do_data_format options = DATA_FORMAT_FRAMED \<and> do_data_process options = DATA_PROCESS_RAW) rdr
            \<lparr>ds_raw_sample_length = raw_sample_length, ds_binary_sample_length = binary_sample_length, ds_sample_buffer = [],
             ds_output_items = [], ds_output_bytes = [], ds_output_buffer_count = 0\<rparr> skip_bytes 0 file env s }"

definition completion_message :: "reader_status \<Rightarrow> u32 \<Rightarrow> string" where
  "completion_message st completion =
     (case st of READER_STATUS_ALL_READ \<Rightarrow> hw_decode_completion completion
      | READER_STATUS_CLOSED \<Rightarrow> ''Early disconnect'' | READER_STATUS_OVERRUN \<Rightarrow> ''Data overrun'')"

definition send_data_completion ::
    "'s socket_ops \<Rightarrow> data_options \<Rightarrow> buffered_file \<Rightarrow> u64 \<Rightarrow> reader_status \<Rightarrow> u32 \<Rightarrow> 's \<Rightarrow> (bool \<times> buffered_file \<times> 's) option" where
  "send_data_completion so options file sent_samples st completion s =
     do { (_, file, s) \<leftarrow>
            (if \<not> do_omit_status options then
               write_formatted_string so file (''END '' @ show_base 10 (unat sent_samples) @ '' '' @ completion_message st completion @ [newline]) s
             else Some (True, file, s));
          flush_out_buf so file s }"

text \<open>
  What a connection meets during one experiment: the passes of the wait, the data of the capture as the server has
  them then, the passes of the stream, the completion code and the buffer when the reader is closed.
\<close>

record 'd capture_env =
  ce_wait :: "(recv_result \<times> capture_buffer \<times> wakeup list) list"
  ce_fields :: "'d captured_fields"
  ce_capture :: "'d data_capture"
  ce_arm_ts :: timespec
  ce_start_ts :: timespec
  ce_hw_offset :: "int option"
  ce_blocks :: "block_env list"
  ce_completion :: u32
  ce_close :: capture_buffer

text \<open>The buffers in the result are those that the calls of \<^verbatim>\<open>buffer.c\<close> leave behind.\<close>

fun data_captures ::
    "'s socket_ops \<Rightarrow> 'd capture_ops \<Rightarrow> ('d \<Rightarrow> u8 list) \<Rightarrow> data_options \<Rightarrow> reader_state \<Rightarrow> buffered_file \<Rightarrow> 'd capture_env list \<Rightarrow> 's
       \<Rightarrow> (reader_state \<times> capture_buffer list \<times> buffered_file \<times> 's) option" where
  "data_captures so ops db options rdr file [] s = None"
| "data_captures so ops db options rdr file (e # env) s =
     do { opened \<leftarrow> wait_for_capture (ce_capture e) rdr (ce_wait e);
          (case opened of
             None \<Rightarrow> Some (rdr, [], file, s)
           | Some (rdr, lost_samples, skip_bytes) \<Rightarrow>
               do { (ok, file, s) \<leftarrow>
                      (if \<not> do_omit_header options then
                         send_data_header so ops (ce_fields e) (ce_capture e) options file
                           \<lparr>ct_missed_samples = lost_samples, ct_pcap_arm_tsp = ce_arm_ts e, ct_pcap_start_tsp = ce_start_ts e,
                            ct_hw_ts_offset_ns = ce_hw_offset e\<rparr> s
                       else Some (True, file, s));
                    (rdr, sent_samples, file, s) \<leftarrow>
                      (if ok then send_data_stream so ops db (ce_capture e) options rdr skip_bytes file (ce_blocks e) s
                       else Some (rdr, 0, file, s));
                    (case close_reader rdr (ce_close e) of (st, rdr, b) \<Rightarrow>
                       do { (ok, file, s) \<leftarrow> send_data_completion so options file sent_samples st (ce_completion e) s;
                            (if do_one_shot options \<or> \<not> ok then Some (rdr, [b], file, s)
                             else
                               do { (rdr, bufs, file, s) \<leftarrow> data_captures so ops db options rdr file env s;
                                    Some (rdr, b # bufs, file, s) }) }) }) }"

definition process_data_socket ::
    "'s socket_ops \<Rightarrow> 'd capture_ops \<Rightarrow> ('d \<Rightarrow> u8 list) \<Rightarrow> bool \<Rightarrow> capture_buffer \<Rightarrow> 'd capture_env list \<Rightarrow> capture_buffer \<Rightarrow> 's
       \<Rightarrow> (unit result \<times> capture_buffer list \<times> 's) option" where
  "process_data_socket so ops db data_capture_available b0 env b1 s =
     (if \<not> data_capture_available then Some (fail ''Data capture disabled (server started with -N)'', [], s)
      else
        do { (options, file, s) \<leftarrow> process_data_request so (create_buffered_file DATA_IN_BUF_SIZE DATA_OUT_BUF_SIZE) s;
             (case options of
                None \<Rightarrow> Some (destroy_buffered_file file, [], s)
              | Some options \<Rightarrow>
                  (case create_reader b0 of (rdr, b) \<Rightarrow>
                     do { (rdr, bufs, file, s) \<leftarrow> data_captures so ops db options rdr file env s;
                          Some (destroy_buffered_file file, b # bufs @ [destroy_reader rdr b1], s) })) })"

section \<open>Capturing\<close>

record 'd data_server =
  dv_enabled :: bool
  dv_buffer :: capture_buffer
  dv_fields :: "'d captured_fields"
  dv_capture :: "'d data_capture"
  dv_arm_ts :: timespec
  dv_start_ts :: timespec
  dv_hw_offset_valid :: bool
  dv_hw_offset :: int
  dv_completion_code :: u32
  dv_sample_count :: u64

definition update_start_timestamp ::
    "'s device \<Rightarrow> reg_header \<Rightarrow> nat \<Rightarrow> nat \<Rightarrow> 'd data_server \<Rightarrow> 's \<Rightarrow> bool \<times> 'd data_server \<times> 's" where
  "update_start_timestamp dev hdr tw lw srv s =
     (case hw_get_start_ts dev tw lw \<lparr>tv_sec = 0, tv_nsec = 0\<rparr> s of
        (False, _, s) \<Rightarrow> (False, srv, s)
      | (True, drv_ts, s) \<Rightarrow>
          (case hw_get_hw_start_ts dev hdr tw lw s of (_, hw_ts, s) \<Rightarrow>
             (True,
              if tv_sec hw_ts = 0 \<and> tv_nsec hw_ts = 0
              then srv\<lparr>dv_start_ts := drv_ts, dv_hw_offset_valid := False\<rparr>
              else srv\<lparr>dv_start_ts := hw_ts,
                     dv_hw_offset := to_signed 64 ((tv_sec drv_ts * int NSECS + tv_nsec drv_ts) - (tv_sec hw_ts * int NSECS + tv_nsec hw_ts)),
                     dv_hw_offset_valid := True\<rparr>, s)))"

text \<open>
  The other threads: the value of \<^verbatim>\<open>data_thread_running\<close> when it is read, and what the connections have done to
  the buffer before an access to it.
\<close>

record 's thread_env =
  te_running :: "'s \<Rightarrow> bool \<times> 's"
  te_others :: "'s \<Rightarrow> capture_buffer \<Rightarrow> capture_buffer"

text \<open>The inner loop of \<^verbatim>\<open>capture_experiment\<close>: the data, the flags \<^verbatim>\<open>at_eof\<close> and \<^verbatim>\<open>ts_captured\<close>.\<close>

partial_function (option) read_write_block ::
    "'s thread_env \<Rightarrow> 's device \<Rightarrow> reg_header \<Rightarrow> nat \<Rightarrow> nat \<Rightarrow> bool \<Rightarrow> 'd data_server \<Rightarrow> 's
       \<Rightarrow> (u8 list \<times> bool \<times> bool \<times> 'd data_server \<times> 's) option" where
  "read_write_block env dev hdr tw lw ts_captured srv s =
     (case hw_read_streamed_data dev DATA_BLOCK_SIZE s of (data, at_eof, s) \<Rightarrow>
        (case (if ts_captured then (False, srv, s) else update_start_timestamp dev hdr tw lw srv s) of (stamped, srv, s) \<Rightarrow>
           if stamped then Some (data, at_eof, True, srv, s)
           else
             (case te_running env s of (running, s) \<Rightarrow>
                if running \<and> data = [] \<and> \<not> at_eof then read_write_block env dev hdr tw lw ts_captured srv s
                else Some (data, at_eof, ts_captured, srv, s))))"

partial_function (option) capture_blocks ::
    "'s thread_env \<Rightarrow> 's device \<Rightarrow> reg_header \<Rightarrow> nat \<Rightarrow> nat \<Rightarrow> nat \<Rightarrow> u64 \<Rightarrow> bool \<Rightarrow> bool \<Rightarrow> 'd data_server \<Rightarrow> 's
       \<Rightarrow> ('d data_server \<times> 's) option" where
  "capture_blocks env dev hdr tw lw sample_length total_bytes at_eof ts_captured srv s =
     (case te_running env s of (running, s) \<Rightarrow>
        if running \<and> \<not> at_eof then
          Option.bind (read_write_block env dev hdr tw lw ts_captured srv s) (\<lambda>(data, at_eof, ts_captured, srv, s).
            let b = fill_block (te_others env s (dv_buffer srv)) data;
                total_bytes = total_bytes + word_of_nat (length data) in
            capture_blocks env dev hdr tw lw sample_length total_bytes at_eof ts_captured
              (srv\<lparr>dv_buffer := release_write_block b (length data),
                   dv_sample_count := total_bytes div word_of_nat sample_length\<rparr>) s)
        else Some (srv, s))"

definition capture_experiment ::
    "'s thread_env \<Rightarrow> 's device \<Rightarrow> reg_header \<Rightarrow> nat \<Rightarrow> nat \<Rightarrow> 'd data_server \<Rightarrow> 's \<Rightarrow> ('d data_server \<times> 's) option" where
  "capture_experiment env dev hdr tw lw srv s =
     do { sample_length \<leftarrow> get_raw_sample_length (dv_capture srv);
          (srv, s) \<leftarrow> capture_blocks env dev hdr tw lw sample_length 0 False False
            (srv\<lparr>dv_buffer := start_write (te_others env s (dv_buffer srv)), dv_sample_count := 0, dv_completion_code := 0\<rparr>) s;
          (case hw_read_streamed_completion dev s of (completion, s) \<Rightarrow>
             Some (srv\<lparr>dv_completion_code := completion, dv_buffer := end_write (te_others env s (dv_buffer srv))\<rparr>, s)) }"

text \<open>The data thread from the moment that its wait is over.\<close>

definition data_thread_pass ::
    "'s thread_env \<Rightarrow> 's device \<Rightarrow> reg_header \<Rightarrow> nat \<Rightarrow> nat \<Rightarrow> 'd data_server \<Rightarrow> 's \<Rightarrow> ('d data_server \<times> 's) option" where
  "data_thread_pass env dev hdr tw lw srv s =
     (case te_running env s of (running, s) \<Rightarrow>
        do { (srv, s) \<leftarrow> (if running then capture_experiment env dev hdr tw lw srv s else Some (srv, s));
             Some (srv\<lparr>dv_enabled := False\<rparr>, s) })"

section \<open>Control\<close>

definition start_data_capture ::
    "'d capture_ops \<Rightarrow> 's device \<Rightarrow> reg_header \<Rightarrow> string \<Rightarrow> u32 list \<Rightarrow> ('d, 'w) outputs \<Rightarrow> 'd data_server \<Rightarrow> 's
       \<Rightarrow> (unit result \<times> 'd data_server \<times> 's) option" where
  "start_data_capture ops dev hdr null_text stack outs srv s =
     do { (flds, s) \<leftarrow> prepare_captured_fields ops dev hdr null_text outs s;
          (error, capture, s) \<leftarrow> prepare_data_capture dev hdr flds stack (dv_capture srv) s;
          (let srv = srv\<lparr>dv_fields := flds, dv_capture := capture\<rparr> in
           Some (case error of
               Inl e \<Rightarrow> (Inl e, srv, s)
             | Inr _ \<Rightarrow> (Inr (), srv\<lparr>dv_enabled := True\<rparr>, hw_write_arm dev hdr True (hw_write_arm_streamed_data dev s)))) }"

text \<open>\<open>clock\<close> is \<^verbatim>\<open>clock_gettime\<close>.\<close>

definition arm_capture ::
    "'d capture_ops \<Rightarrow> 's device \<Rightarrow> reg_header \<Rightarrow> string \<Rightarrow> u32 list \<Rightarrow> ('s \<Rightarrow> timespec result \<times> 's) \<Rightarrow> ('d, 'w) outputs \<Rightarrow> 'd data_server \<Rightarrow> 's
       \<Rightarrow> (unit result \<times> 'd data_server \<times> 's) option" where
  "arm_capture ops dev hdr null_text stack clock outs srv s =
     (if \<not> check_pcap_valid outs then Some (fail ''PCAP not supported with this configuration'', srv, s)
      else if dv_enabled srv then Some (fail ''Data capture already in progress'', srv, s)
      else
        (case read_buffer_status (dv_buffer srv) of (busy, readers, active) \<Rightarrow>
           if busy then Some (fail ''Unexpected error'', srv, s)
           else if active \<noteq> 0 then Some (fail ''Data clients still taking data'', srv, s)
           else
             (case clock s of
                (Inl e, s) \<Rightarrow> Some (fail ''Unexpected error'', srv, s)
              | (Inr ts, s) \<Rightarrow> start_data_capture ops dev hdr null_text stack outs (srv\<lparr>dv_arm_ts := ts\<rparr>) s)))"

definition disarm_capture :: "'s device \<Rightarrow> reg_header \<Rightarrow> 's \<Rightarrow> unit result \<times> 's" where
  "disarm_capture dev hdr s = (Inr (), hw_write_arm dev hdr False s)"

definition get_capture_status :: "nat \<Rightarrow> 'd data_server \<Rightarrow> string result" where
  "get_capture_status len srv =
     (case read_buffer_status (dv_buffer srv) of (busy, readers, active) \<Rightarrow>
        format_string len ((if busy then ''Busy '' else ''Idle '') @ show_base 10 (unat readers) @ '' '' @ show_base 10 (unat active)))"

definition get_capture_count :: "nat \<Rightarrow> 'd data_server \<Rightarrow> string result" where
  "get_capture_count len srv = format_string len (show_base 10 (unat (dv_sample_count srv)))"

definition get_capture_completion :: "nat \<Rightarrow> 'd data_server \<Rightarrow> string result" where
  "get_capture_completion len srv =
     format_string len (if dv_enabled srv then ''Busy'' else hw_decode_completion (dv_completion_code srv))"

definition initialise_data_server :: "u8 list list \<Rightarrow> nat list \<Rightarrow> capture_buffer" where
  "initialise_data_server memory garbage = create_buffer DATA_BLOCK_SIZE DATA_BLOCK_COUNT memory garbage"

section \<open>Samples as bytes\<close>

definition sample_bytes :: "'d captured_fields \<Rightarrow> (u32 \<Rightarrow> u32) \<Rightarrow> u8 list" where
  "sample_bytes flds bus = bytes_of_words (map bus (sample_layout flds))"

abbreviation stream_bytes :: "'d captured_fields \<Rightarrow> (u32 \<Rightarrow> u32) list \<Rightarrow> u8 list" where
  "stream_bytes flds buses \<equiv> concat (map (sample_bytes flds) buses)"

lemma length_sample_bytes [simp]: "length (sample_bytes flds bus) = 4 * length (sample_layout flds)"
  unfolding sample_bytes_def length_bytes_of_words by simp

lemma length_stream_bytes: "length (stream_bytes flds buses) = length buses * (4 * length (sample_layout flds))"
  by (induction buses) simp_all

lemma words_of_bytes_append: "words_of_bytes (bytes_of_words ws @ rest) = ws @ words_of_bytes rest"
  by (induction ws) (simp_all add: bytes_of_word_def word_of_bytes_of_word)

lemma stream_bytes_words: "stream_bytes flds buses = bytes_of_words (concat (map (\<lambda>bus. map bus (sample_layout flds)) buses))"
  by (induction buses) (simp_all add: sample_bytes_def)

text \<open>A cut through a stream of samples.\<close>

lemma stream_bytes_cut:
  assumes "xs @ ys = stream_bytes flds buses @ part" "length part < 4 * length (sample_layout flds)"
  obtains bs1 bs2 cut where "buses = bs1 @ bs2" "xs = stream_bytes flds bs1 @ cut" "cut @ ys = stream_bytes flds bs2 @ part"
    "length cut < 4 * length (sample_layout flds)"
proof -
  have "\<exists>bs1 bs2 cut. buses = bs1 @ bs2 \<and> xs = stream_bytes flds bs1 @ cut \<and> cut @ ys = stream_bytes flds bs2 @ part \<and>
      length cut < 4 * length (sample_layout flds)"
    using assms(1)
  proof (induction buses arbitrary: xs)
    case Nil
    then have "length xs \<le> length part" by (metis append_Nil concat.simps(1) le_add1 length_append list.map(1))
    with Nil assms(2) show ?case by (intro exI [of _ "[]"] exI [of _ xs]) simp
  next
    case (Cons bus buses)
    show ?case
    proof (cases "length xs < 4 * length (sample_layout flds)")
      case True
      with Cons.prems show ?thesis by (intro exI [of _ "[]"] exI [of _ "bus # buses"] exI [of _ xs]) simp
    next
      case False
      from Cons.prems have "xs @ ys = sample_bytes flds bus @ (stream_bytes flds buses @ part)" by simp
      then have "take (length (sample_bytes flds bus)) (xs @ ys) = sample_bytes flds bus" by simp
      with False have "take (length (sample_bytes flds bus)) xs = sample_bytes flds bus" by simp
      then obtain zs where xs: "xs = sample_bytes flds bus @ zs" by (metis append_take_drop_id)
      with Cons.prems have "zs @ ys = stream_bytes flds buses @ part" by simp
      from Cons.IH [OF this] obtain bs1 bs2 cut where "buses = bs1 @ bs2" "zs = stream_bytes flds bs1 @ cut"
        "cut @ ys = stream_bytes flds bs2 @ part" "length cut < 4 * length (sample_layout flds)" by blast
      with xs show ?thesis by (intro exI [of _ "bus # bs1"] exI [of _ bs2] exI [of _ cut]) simp
    qed
  qed
  with that show thesis by blast
qed

section \<open>What is sent for a group of samples\<close>

function base64_text :: "u8 list \<Rightarrow> string" where
  "base64_text bytes =
     (if bytes = [] then []
      else '' '' @ fst (base64_encode (take BASE64_CONVERT_COUNT bytes)) @ [nul, newline] @ base64_text (drop BASE64_CONVERT_COUNT bytes))"
  by auto

termination
  by (relation "measure length") (auto simp: BASE64_CONVERT_COUNT_def)

declare base64_text.simps [simp del]

definition rows_bytes :: "('d \<Rightarrow> u8 list) \<Rightarrow> 'd item list list \<Rightarrow> u8 list" where
  "rows_bytes db rows = concat (map (item_data db) (concat rows))"

definition frame :: "u8 list \<Rightarrow> u8 list" where
  "frame bytes = map byte_of ''BIN '' @ bytes_of_word (word_of_nat (8 + length bytes)) @ bytes"

definition packet ::
    "'d capture_ops \<Rightarrow> ('d \<Rightarrow> u8 list) \<Rightarrow> data_options \<Rightarrow> 'd captured_fields \<Rightarrow> (u32 \<Rightarrow> u32) list \<Rightarrow> string" where
  "packet ops db options flds grp =
     (let rows = expected_rows ops (do_data_process options) flds grp in
      case do_data_format options of
        DATA_FORMAT_UNFRAMED \<Rightarrow> map char_of_byte (rows_bytes db rows)
      | DATA_FORMAT_FRAMED \<Rightarrow> map char_of_byte (frame (rows_bytes db rows))
      | DATA_FORMAT_BASE64 \<Rightarrow> base64_text (rows_bytes db rows)
      | DATA_FORMAT_ASCII \<Rightarrow> concat (map (row_ascii ops (do_data_process options)) rows))"

text \<open>What the theorems assume of a prepared capture and of the operations on doubles.\<close>

definition streamable ::
    "'d capture_ops \<Rightarrow> ('d \<Rightarrow> u8 list) \<Rightarrow> data_options \<Rightarrow> 'd captured_fields \<Rightarrow> 'd data_capture \<Rightarrow> 'd data_capture \<Rightarrow> nat \<Rightarrow> bool" where
  "streamable ops db options flds old c bin =
     (wf_fields flds \<and> 0 < length (sample_layout flds) \<and> length (sample_layout flds) < MAX_PCAP_WRITE_COUNT \<and> captures flds old c \<and>
      count_readable flds old [] \<and> get_binary_sample_length c options = Some bin \<and>
      (\<forall>d. length (db d) = 8) \<and> (\<forall>d. length (d_show ops d) < 32))"

lemma streamable_raw: "streamable ops db options flds old c bin \<Longrightarrow> get_raw_sample_length c = Some (4 * length (sample_layout flds))"
  by (auto simp: streamable_def get_raw_sample_length_def captures_def)

lemma streamable_convert:
  assumes "streamable ops db options flds old c bin"
  shows "convert_raw_data_to_binary ops c options (length buses) (concat (map (\<lambda>bus. map bus (sample_layout flds)) buses) @ rest) =
      Some (concat (expected_rows ops (do_data_process options) flds buses))"
    "sum_list (map item_bytes (concat (expected_rows ops (do_data_process options) flds buses))) = length buses * bin"
proof -
  have "count_readable flds old rest" using assms by (auto simp: streamable_def count_readable_def)
  with assms convert_captured [of flds old c rest ops options buses]
  obtain out where out: "convert_raw_data_to_binary ops c options (length buses) (concat (map (\<lambda>bus. map bus (sample_layout flds)) buses) @ rest) = Some out"
    "out = (case do_data_process options of
              DATA_PROCESS_RAW \<Rightarrow> map Word32 (concat (map (\<lambda>bus. map bus (sample_layout flds)) buses))
            | DATA_PROCESS_SCALED \<Rightarrow> concat (map (expected_row ops flds) buses))"
    "sum_list (map item_bytes out) = length buses * bin" by (auto simp: streamable_def)
  have "out = concat (expected_rows ops (do_data_process options) flds buses)"
    unfolding out(2) by (cases "do_data_process options") (simp_all add: expected_rows_def map_concat o_def)
  with out(1,3) show "convert_raw_data_to_binary ops c options (length buses) (concat (map (\<lambda>bus. map bus (sample_layout flds)) buses) @ rest) =
      Some (concat (expected_rows ops (do_data_process options) flds buses))"
    "sum_list (map item_bytes (concat (expected_rows ops (do_data_process options) flds buses))) = length buses * bin" by simp_all
qed

lemma expected_rows_append: "expected_rows ops process flds (a @ b) = expected_rows ops process flds a @ expected_rows ops process flds b"
  by (cases process) (simp_all add: expected_rows_def)

lemma length_expected_rows [simp]: "length (expected_rows ops process flds buses) = length buses"
  by (cases process) (simp_all add: expected_rows_def)

lemma process_samples_stream:
  assumes "streamable ops db options flds old c bin" "ds_raw_sample_length st = 4 * length (sample_layout flds)"
    "ds_binary_sample_length st = bin" "length part < 4 * length (sample_layout flds)"
    "n = min (length buses) ((NET_BUF_SIZE - ds_output_buffer_count st) div bin)"
  shows "process_samples ops c options st (stream_bytes flds buses @ part) =
    Some (n, st\<lparr>ds_output_items := ds_output_items st @ concat (expected_rows ops (do_data_process options) flds (take n buses)),
        ds_output_buffer_count := ds_output_buffer_count st + n * bin\<rparr>, stream_bytes flds (drop n buses) @ part)"
proof -
  let ?L = "4 * length (sample_layout flds)"
  have L: "0 < ?L" using assms(1) by (simp add: streamable_def)
  have "(length buses * ?L + length part) div ?L = length buses"
    using assms(4) L by (metis add.right_neutral div_less div_mult_self3 not_gr_zero)
  then have cnt: "length (stream_bytes flds buses @ part) div ?L = length buses" by (simp add: length_stream_bytes)
  have n: "n \<le> length buses" using assms(5) by simp
  have split: "stream_bytes flds buses = stream_bytes flds (take n buses) @ stream_bytes flds (drop n buses)"
    by (simp flip: map_append concat_append)
  have "words_of_bytes (stream_bytes flds buses @ part) =
      concat (map (\<lambda>bus. map bus (sample_layout flds)) (take n buses)) @ words_of_bytes (stream_bytes flds (drop n buses) @ part)"
    unfolding split append_assoc stream_bytes_words [of flds "take n buses"] by (rule words_of_bytes_append)
  with streamable_convert(1) [OF assms(1), of "take n buses"] n
  have conv: "convert_raw_data_to_binary ops c options n (words_of_bytes (stream_bytes flds buses @ part)) =
      Some (concat (expected_rows ops (do_data_process options) flds (take n buses)))" by simp
  have "drop (n * ?L) (stream_bytes flds buses @ part) = stream_bytes flds (drop n buses) @ part"
  proof -
    have "length (stream_bytes flds (take n buses)) = n * ?L" using n by (simp add: length_stream_bytes)
    then show ?thesis unfolding split append_assoc by (metis append_eq_conv_conj)
  qed
  then show ?thesis
    unfolding process_samples_def Let_def assms(2,3) cnt assms(5) [symmetric] conv by simp
qed

section \<open>Sending\<close>

definition sound :: "buffered_file \<Rightarrow> bool" where
  "sound f = (is_ok (bf_error f) \<and> file_inv f \<and> 40 \<le> bf_out_buf_size f)"

lemma wrote_sound: "wrote sent incoming f s t f' s' \<Longrightarrow> sound f \<Longrightarrow> is_ok (bf_error f') \<Longrightarrow> sound f'"
  using wrote_inv by (fastforce simp: sound_def wrote_def same_input_def)

lemma wrote_stuck: "\<not> is_ok (bf_error f) \<Longrightarrow> wrote sent incoming f s t f s"
  by (simp add: wrote_def same_input_def)

lemma write_block_base64_wrote:
  assumes "socket_laws so sent incoming" "sound f"
  shows "\<exists>f' s'. write_block_base64 so f data s = Some (is_ok (bf_error f'), f', s') \<and> wrote sent incoming f s (base64_text data) f' s'"
  using assms(2)
proof (induction "length data" arbitrary: data f s rule: less_induct)
  case less
  show ?case
  proof (cases "data = []")
    case True
    with less.prems show ?thesis by (simp add: write_block_base64.simps base64_text.simps sound_def)
  next
    case False
    let ?n = "min (length data) BASE64_CONVERT_COUNT"
    have take: "take ?n data = take BASE64_CONVERT_COUNT data" "drop ?n data = drop BASE64_CONVERT_COUNT data"
      by (simp_all add: min_def)
    let ?line = "'' '' @ fst (base64_encode (take BASE64_CONVERT_COUNT data)) @ [nul, newline]"
    have line: "take (snd (base64_encode (take BASE64_CONVERT_COUNT data)) + 2) ('' '' @ fst (base64_encode (take BASE64_CONVERT_COUNT data)) @ [nul] @ [newline]) = ?line"
      by (simp add: base64_encode_def)
    from write_string_wrote [OF assms(1), of f ?line s] less.prems obtain f1 s1 where
      1: "write_string so f ?line s = Some (is_ok (bf_error f1), f1, s1)" "wrote sent incoming f s ?line f1 s1"
      by (auto simp: sound_def)
    have body: "write_block_base64 so f data s =
        (if is_ok (bf_error f1) then write_block_base64 so f1 (drop BASE64_CONVERT_COUNT data) s1 else Some (False, f1, s1))"
      using False 1(1) line unfolding write_block_base64.simps [of so f] Let_def take by (simp add: case_prod_unfold)
    have split: "base64_text data = ?line @ base64_text (drop BASE64_CONVERT_COUNT data)"
      using False by (subst base64_text.simps) simp
    show ?thesis
    proof (cases "is_ok (bf_error f1)")
      case True
      have "length (drop BASE64_CONVERT_COUNT data) < length data" using False by (simp add: BASE64_CONVERT_COUNT_def)
      from less.hyps [OF this wrote_sound [OF 1(2) less.prems True], of s1] obtain f' s' where
        "write_block_base64 so f1 (drop BASE64_CONVERT_COUNT data) s1 = Some (is_ok (bf_error f'), f', s')"
        "wrote sent incoming f1 s1 (base64_text (drop BASE64_CONVERT_COUNT data)) f' s'" by blast
      with body True wrote_append [OF 1(2)] show ?thesis unfolding split by (intro exI [of _ f'] exI [of _ s']) simp
    next
      case False
      with body wrote_append [OF 1(2) wrote_stuck [OF False]] show ?thesis unfolding split by (intro exI [of _ f1] exI [of _ s1]) simp
    qed
  qed
qed

lemma send_rows_ascii:
  assumes "streamable ops db options flds old c bin" "socket_laws so sent incoming" "sound f"
  shows "\<exists>f' s'. send_binary_as_ascii so ops c options f (length grp) (concat (expected_rows ops (do_data_process options) flds grp)) s =
      Some (is_ok (bf_error f'), f', s') \<and>
    wrote sent incoming f s (concat (map (row_ascii ops (do_data_process options)) (expected_rows ops (do_data_process options) flds grp))) f' s'"
proof -
  let ?p = "do_data_process options"
  let ?rows = "expected_rows ops ?p flds grp"
  have caps: "captures flds old c" using assms(1) by (simp add: streamable_def)
  have f: "in_order f" "40 \<le> bf_out_buf_size f" using assms(3) by (auto simp: sound_def in_order_def)
  have "\<And>d. length (d_show ops d) < 32" using assms(1) by (simp add: streamable_def)
  from run_ops_wrote [OF assms(2) f(1) rows_fit [OF this f(2)], of ?p ?rows s] obtain rs f' s' where
    "run_ops so (concat (map (row_calls ops ?p) ?rows)) f s = Some (rs, f', s')"
    "wrote sent incoming f s (concat (map (row_ascii ops ?p) ?rows)) f' s'"
    unfolding calls_text_rows by blast
  then show ?thesis using ascii_rows_expected [OF caps, of ops options grp]
    by (intro exI [of _ f'] exI [of _ s']) (simp add: send_binary_as_ascii_def check_buffered_file_def)
qed

lemma length_item_data: "(\<And>d. length (db d) = 8) \<Longrightarrow> length (concat (map (item_data db) items)) = sum_list (map item_bytes items)"
  by (induction items) (auto simp: item_data_def length_bytes_of_word split: item.splits)

definition header_room :: "data_options \<Rightarrow> nat" where
  "header_room options = (if do_data_format options = DATA_FORMAT_FRAMED then 8 else 0)"

lemma send_output_buffer_wrote:
  assumes "streamable ops db options flds old c bin" "socket_laws so sent incoming" "sound f"
    "ds_output_items st = concat (expected_rows ops (do_data_process options) flds grp)"
    "ds_output_buffer_count st = header_room options + length grp * bin" "header_room options + length grp * bin \<le> NET_BUF_SIZE"
  shows "\<exists>f' s'. send_output_buffer so ops db c options st (length grp) f s = Some (is_ok (bf_error f'), f', s') \<and>
    wrote sent incoming f s (packet ops db options flds grp) f' s'"
proof -
  let ?data = "rows_bytes db (expected_rows ops (do_data_process options) flds grp)"
  have inv: "file_inv f" using assms(3) by (simp add: sound_def)
  have len: "length ?data = length grp * bin"
    using assms(1) streamable_convert(2) [OF assms(1), of grp] unfolding rows_bytes_def by (subst length_item_data) (simp_all add: streamable_def)
  have data: "concat (map (item_data db) (ds_output_items st)) = ?data" by (simp add: assms(4) rows_bytes_def)
  show ?thesis
  proof (cases "do_data_format options")
    case DATA_FORMAT_UNFRAMED
    with write_block_wrote [OF assms(2) inv, of "map char_of_byte ?data" s] len show ?thesis
      by (simp add: send_output_buffer_def data assms(5) header_room_def packet_def Let_def)
  next
    case DATA_FORMAT_FRAMED
    then have count: "ds_output_buffer_count st = 8 + length ?data" using assms(5) len by (simp add: header_room_def)
    have "8 + length ?data \<le> 2 ^ 32 - 1" using assms(5,6) count by (simp add: NET_BUF_SIZE_def)
    then have hdr: "set_frame_header (8 + length ?data) = Some (map byte_of ''BIN '' @ bytes_of_word (word_of_nat (8 + length ?data)))"
      by (simp add: set_frame_header_def)
    have "take (8 + length ?data) ((map byte_of ''BIN '' @ bytes_of_word (word_of_nat (8 + length ?data))) @ ?data) = frame ?data"
      by (simp add: frame_def bytes_of_word_def)
    then have "send_output_buffer so ops db c options st (length grp) f s = write_block so f (map char_of_byte (frame ?data)) s"
      unfolding send_output_buffer_def Let_def data count hdr DATA_FORMAT_FRAMED data_format.case bind.bind_lunit by (simp only:)
    with write_block_wrote [OF assms(2) inv, of "map char_of_byte (frame ?data)" s] DATA_FORMAT_FRAMED show ?thesis
      by (simp add: packet_def Let_def)
  next
    case DATA_FORMAT_BASE64
    with write_block_base64_wrote [OF assms(2,3), of ?data s] len show ?thesis
      by (simp add: send_output_buffer_def data assms(5) header_room_def packet_def Let_def)
  next
    case DATA_FORMAT_ASCII
    with send_rows_ascii [OF assms(1-3), of grp s] show ?thesis
      by (simp add: send_output_buffer_def assms(4) packet_def Let_def)
  qed
qed

lemma check_read_block_same: "check_read_block rdr b = (True, rdr') \<Longrightarrow> rdr' = rdr"
  by (auto simp: check_read_block_def check_block_status_def Let_def split: if_splits)

lemma row_bytes_bound:
  "m \<le> d \<Longrightarrow> u + a + 2 * b + 2 * c + 5 * d \<le> n \<Longrightarrow> n < 64 \<Longrightarrow> 4 * u + 8 * (a + (b + (c + d)) + m) \<le> (512 :: nat)"
proof -
  assume a: "m \<le> d" "u + a + 2 * b + 2 * c + 5 * d \<le> n" "n < 64"
  have "4 * u + 8 * (a + (b + (c + d)) + m) \<le> 8 * (u + a + 2 * b + 2 * c + 5 * d)" using a(1) by simp
  also have "\<dots> \<le> 8 * n" using a(2) by simp
  finally show ?thesis using a(3) by simp
qed

lemma streamable_room:
  assumes "streamable ops db options flds old c bin"
  shows "0 < bin" "header_room options + bin \<le> NET_BUF_SIZE" "4 * length (sample_layout flds) \<le> MAX_RAW_SAMPLE_LENGTH"
proof -
  have s: "captures flds old c" "wf_fields flds" "0 < length (sample_layout flds)" "length (sample_layout flds) < 64"
    "get_binary_sample_length c options = Some bin" using assms by (simp_all add: streamable_def MAX_PCAP_WRITE_COUNT_def)
  show "4 * length (sample_layout flds) \<le> MAX_RAW_SAMPLE_LENGTH" using s(4) by (simp add: MAX_RAW_SAMPLE_LENGTH_def)
  show "0 < bin" using s(5) by (auto simp: get_binary_sample_length_def get_raw_sample_length_def Let_def split: data_process.splits if_splits)
  have "length (filter ci_capture_mean (cf_std_dev flds)) \<le> length (cf_std_dev flds)" by simp
  moreover have "length (cf_unscaled flds) + length (cf_scaled32 flds) + 2 * length (cf_scaled64 flds) + 2 * length (cf_averaged flds) +
      5 * length (cf_std_dev flds) \<le> length (sample_layout flds)"
    using wf_fields_groups [OF s(2)] by (simp add: sample_layout_def length_words_of)
  ultimately have "4 * length (cf_unscaled flds) + 8 * (length (scaled_fields flds) + length (filter ci_capture_mean (cf_std_dev flds))) \<le> 512"
    using s(4) unfolding scaled_fields_def length_append by (rule row_bytes_bound)
  then have "bin \<le> 512"
    using s(1,4,5) captures_groups [OF s(1)]
    by (auto simp: get_binary_sample_length_def get_raw_sample_length_def Let_def captures_def place_def scaled_fields_def
        split: data_process.splits if_splits)
  then show "header_room options + bin \<le> NET_BUF_SIZE" by (simp add: header_room_def NET_BUF_SIZE_def)
qed

section \<open>Processing a block\<close>

text \<open>The result of sending \<open>buses\<close>: some groups of them have been sent, all of them unless there is an error or an overrun.\<close>

definition block_sent ::
    "('s \<Rightarrow> string) \<Rightarrow> ('s \<Rightarrow> string) \<Rightarrow> 'd capture_ops \<Rightarrow> ('d \<Rightarrow> u8 list) \<Rightarrow> data_options \<Rightarrow> 'd captured_fields \<Rightarrow> (nat \<Rightarrow> capture_buffer)
       \<Rightarrow> reader_state \<Rightarrow> nat \<Rightarrow> u8 list \<Rightarrow> (u32 \<Rightarrow> u32) list \<Rightarrow> u64 \<Rightarrow> buffered_file \<Rightarrow> 's \<Rightarrow> ('d, 's) block_result \<Rightarrow> bool" where
  "block_sent sent incoming ops db options flds check rdr bin sample buses n f s res =
     (\<exists>groups. prefix (concat groups) buses \<and>
        wrote sent incoming f s (concat (map (packet ops db options flds) groups)) (br_file res) (br_world res) \<and>
        br_ok res = is_ok (bf_error (br_file res)) \<and>
        (br_ok res \<longrightarrow> br_sent_samples res = n + word_of_nat (length (concat groups))) \<and>
        (br_ok res \<and> br_data_ok res \<longrightarrow> concat groups = buses \<and> br_reader res = rdr \<and>
          ds_raw_sample_length (br_state res) = 4 * length (sample_layout flds) \<and> ds_binary_sample_length (br_state res) = bin \<and>
          ds_sample_buffer (br_state res) = sample) \<and>
        ((\<forall>k. fst (check_read_block rdr (check k))) \<longrightarrow> br_data_ok res))"

lemma block_sent_more:
  assumes "block_sent sent incoming ops db options flds check rdr bin sample buses (n + word_of_nat (length grp)) f1 s1 res"
    "wrote sent incoming f s (packet ops db options flds grp) f1 s1"
  shows "block_sent sent incoming ops db options flds check rdr bin sample (grp @ buses) n f s res"
proof -
  from assms(1) obtain groups where g: "prefix (concat groups) buses"
    "wrote sent incoming f1 s1 (concat (map (packet ops db options flds) groups)) (br_file res) (br_world res)"
    "br_ok res = is_ok (bf_error (br_file res))"
    "br_ok res \<longrightarrow> br_sent_samples res = n + word_of_nat (length grp) + word_of_nat (length (concat groups))"
    "br_ok res \<and> br_data_ok res \<longrightarrow> concat groups = buses \<and> br_reader res = rdr \<and>
       ds_raw_sample_length (br_state res) = 4 * length (sample_layout flds) \<and> ds_binary_sample_length (br_state res) = bin \<and>
       ds_sample_buffer (br_state res) = sample"
    "(\<forall>k. fst (check_read_block rdr (check k))) \<longrightarrow> br_data_ok res" unfolding block_sent_def by blast
  have "n + word_of_nat (length grp) + word_of_nat (length (concat groups)) = n + word_of_nat (length (concat (grp # groups)))"
    by (simp add: add.assoc)
  with g wrote_append [OF assms(2) g(2)] show ?thesis
    unfolding block_sent_def by (intro exI [of _ "grp # groups"]) simp
qed

text \<open>As many samples as fit behind those in the output buffer; at least one if it is empty.\<close>

lemma samples_fit:
  assumes "0 < bin" "h + bin \<le> NET_BUF_SIZE" "h + length pre * bin \<le> NET_BUF_SIZE" "pre \<noteq> [] \<or> buses \<noteq> []"
    and "m = min (length buses) ((NET_BUF_SIZE - (h + length pre * bin)) div bin)"
  shows "m \<le> length buses" "h + (length pre + m) * bin \<le> NET_BUF_SIZE" "pre @ take m buses \<noteq> []"
proof -
  show "m \<le> length buses" using assms(5) by simp
  have "m * bin \<le> (NET_BUF_SIZE - (h + length pre * bin)) div bin * bin" using assms(5) by (intro mult_right_mono) simp_all
  also have "\<dots> \<le> NET_BUF_SIZE - (h + length pre * bin)" by simp
  finally show "h + (length pre + m) * bin \<le> NET_BUF_SIZE" using assms(3) by (simp add: algebra_simps)
  show "pre @ take m buses \<noteq> []"
  proof (cases "pre = []")
    case True
    with assms(1,2,4) have "1 \<le> (NET_BUF_SIZE - (h + length pre * bin)) div bin" "buses \<noteq> []"
      by (simp_all add: div_greater_zero_iff Suc_le_eq)
    then show ?thesis using assms(5) by (cases buses) simp_all
  qed simp
qed

lemma process_capture_pass_stream:
  assumes "streamable ops db options flds old c bin" "socket_laws so sent incoming" "sound f"
    "ds_raw_sample_length st = 4 * length (sample_layout flds)" "ds_binary_sample_length st = bin"
    "ds_output_items st = concat (expected_rows ops (do_data_process options) flds pre)"
    "ds_output_buffer_count st = header_room options + length pre * bin" "header_room options + length pre * bin \<le> NET_BUF_SIZE"
    "length part < 4 * length (sample_layout flds)" "pre \<noteq> [] \<or> buses \<noteq> []"
  obtains (stopped) res where
      "process_capture_pass so ops db c options check k rdr st (stream_bytes flds buses @ part) (length pre) n f s = Some (Inl res)"
      "block_sent sent incoming ops db options flds check rdr bin sample (pre @ buses) n f s res"
  | (sent) grp rest st' f1 s1 where "grp \<noteq> []" "pre @ buses = grp @ rest" "sound f1"
      "wrote sent incoming f s (packet ops db options flds grp) f1 s1"
      "process_capture_pass so ops db c options check k rdr st (stream_bytes flds buses @ part) (length pre) n f s =
         Some (Inr (k + 1, stream_bytes flds rest @ part,
           \<lparr>br_ok = True, br_data_ok = True, br_reader = rdr, br_state = st', br_sent_samples = n + word_of_nat (length grp),
            br_file = f1, br_world = s1\<rparr>))"
      "ds_raw_sample_length st' = 4 * length (sample_layout flds)" "ds_binary_sample_length st' = bin"
      "ds_output_items st' = []" "ds_output_buffer_count st' = header_room options" "ds_sample_buffer st' = ds_sample_buffer st"
proof -
  note room = streamable_room [OF assms(1)]
  define m where "m = min (length buses) ((NET_BUF_SIZE - ds_output_buffer_count st) div bin)"
  define grp where "grp = pre @ take m buses"
  define st1 where "st1 = st\<lparr>ds_output_items := ds_output_items st @ concat (expected_rows ops (do_data_process options) flds (take m buses)),
      ds_output_buffer_count := ds_output_buffer_count st + m * bin\<rparr>"
  have ps: "process_samples ops c options st (stream_bytes flds buses @ part) = Some (m, st1, stream_bytes flds (drop m buses) @ part)"
    using process_samples_stream [OF assms(1,4,5,9) m_def] by (simp add: st1_def)
  note fit = samples_fit [OF room(1,2) assms(8,10) m_def [unfolded assms(7)], folded grp_def]
  have len: "length pre + m = length grp" using fit(1) by (simp add: grp_def)
  have pos: "0 < length pre + m" and first: "pre = [] \<longrightarrow> 0 < m" using fit(3) unfolding len by (auto simp: grp_def)
  have count: "ds_output_buffer_count st1 = header_room options + length grp * bin"
    "header_room options + length grp * bin \<le> NET_BUF_SIZE"
    using fit(2) by (simp_all add: st1_def assms(7) add_mult_distrib flip: len)
  have items: "ds_output_items st1 = concat (expected_rows ops (do_data_process options) flds grp)"
    by (simp add: st1_def assms(6) grp_def expected_rows_append)
  have split: "pre @ buses = grp @ drop m buses" by (simp add: grp_def)
  obtain ok rdr1 where chk: "check_read_block rdr (check k) = (ok, rdr1)" by fastforce
  show thesis
  proof (cases ok)
    case False
    let ?res = "\<lparr>br_ok = True, br_data_ok = False, br_reader = rdr1, br_state = st1, br_sent_samples = n, br_file = f, br_world = s\<rparr>"
    have "process_capture_pass so ops db c options check k rdr st (stream_bytes flds buses @ part) (length pre) n f s = Some (Inl ?res)"
      using False pos by (simp add: process_capture_pass_def ps chk Let_def)
    moreover have "\<not> fst (check_read_block rdr (check k))" using chk False by simp
    with assms(3) have "block_sent sent incoming ops db options flds check rdr bin sample (pre @ buses) n f s ?res"
      unfolding block_sent_def by (intro exI [of _ "[]"]) (auto simp: sound_def)
    ultimately show ?thesis by (rule stopped)
  next
    case True
    then have rdr1: "rdr1 = rdr" using chk by (auto intro: check_read_block_same)
    from send_output_buffer_wrote [OF assms(1-3) items count, of s] obtain f1 s1 where
      w: "send_output_buffer so ops db c options st1 (length grp) f s = Some (is_ok (bf_error f1), f1, s1)"
        "wrote sent incoming f s (packet ops db options flds grp) f1 s1" by blast
    show ?thesis
    proof (cases "is_ok (bf_error f1)")
      case ok1: True
      show ?thesis
        by (rule sent [OF fit(3) split wrote_sound [OF w(2) assms(3) ok1] w(2), of "prepare_output_buffer options st1"])
          (use True first ok1 w(1) chk rdr1 assms(4,5) in
            \<open>simp_all add: process_capture_pass_def ps Let_def len prepare_output_buffer_def st1_def header_room_def\<close>)
    next
      case no: False
      let ?res = "\<lparr>br_ok = False, br_data_ok = True, br_reader = rdr, br_state = st1, br_sent_samples = n, br_file = f1, br_world = s1\<rparr>"
      have "process_capture_pass so ops db c options check k rdr st (stream_bytes flds buses @ part) (length pre) n f s = Some (Inl ?res)"
        using True first no w(1) chk rdr1 by (simp add: process_capture_pass_def ps Let_def len)
      moreover have "block_sent sent incoming ops db options flds check rdr bin sample (pre @ buses) n f s ?res"
        using no w(2) unfolding block_sent_def split by (intro exI [of _ "[grp]"]) simp
      ultimately show ?thesis by (rule stopped)
    qed
  qed
qed

lemma process_capture_loop_stream:
  assumes "streamable ops db options flds old c bin" "socket_laws so sent incoming" "sound f"
    "ds_raw_sample_length st = 4 * length (sample_layout flds)" "ds_binary_sample_length st = bin"
    "ds_output_items st = concat (expected_rows ops (do_data_process options) flds pre)"
    "ds_output_buffer_count st = header_room options + length pre * bin" "header_room options + length pre * bin \<le> NET_BUF_SIZE"
    "length part < 4 * length (sample_layout flds)" "length (ds_sample_buffer st) + length part \<le> MAX_RAW_SAMPLE_LENGTH"
  shows "\<exists>res. process_capture_loop so ops db c options check k rdr st (stream_bytes flds buses @ part) (length pre) n f s = Some res \<and>
    block_sent sent incoming ops db options flds check rdr bin (ds_sample_buffer st @ part) (pre @ buses) n f s res"
  using assms(3-8,10)
proof (induction "length (pre @ buses)" arbitrary: pre buses st k n f s rule: less_induct)
  case less
  let ?raw = "4 * length (sample_layout flds)"
  note prems = less.prems
  let ?pass = "process_capture_pass so ops db c options check k rdr st (stream_bytes flds buses @ part) (length pre) n f s"
  show ?case
  proof (cases "pre = [] \<and> buses = []")
    case True
    let ?res = "\<lparr>br_ok = True, br_data_ok = True, br_reader = rdr, br_state = st\<lparr>ds_sample_buffer := ds_sample_buffer st @ part\<rparr>,
        br_sent_samples = n, br_file = f, br_world = s\<rparr>"
    have "process_samples ops c options st part = Some (0, st, part)"
      using process_samples_stream [OF assms(1) prems(2,3) assms(9) refl, of "[]"] by (simp add: expected_rows_def split: data_process.split)
    then have "?pass = Some (Inr (k, part, \<lparr>br_ok = True, br_data_ok = True, br_reader = rdr, br_state = st, br_sent_samples = n,
        br_file = f, br_world = s\<rparr>))" using True by (simp add: process_capture_pass_def Let_def)
    moreover have "\<not> ?raw \<le> length part" using assms(9) by simp
    ultimately have "process_capture_loop so ops db c options check k rdr st (stream_bytes flds buses @ part) (length pre) n f s = Some ?res"
      using True prems(2,7) by (subst process_capture_loop.simps) (simp add: update_single_sample_buffer_def)
    moreover have "block_sent sent incoming ops db options flds check rdr bin (ds_sample_buffer st @ part) (pre @ buses) n f s ?res"
      using True prems(1-3) unfolding block_sent_def by (intro exI [of _ "[]"]) (simp add: sound_def)
    ultimately show ?thesis by blast
  next
    case False
    then have "pre \<noteq> [] \<or> buses \<noteq> []" by simp
    from assms(1,2) prems(1-6) assms(9) this show ?thesis
    proof (cases rule: process_capture_pass_stream [where check = check and k = k and rdr = rdr and n = n and s = s
          and sample = "ds_sample_buffer st @ part"])
      case (stopped res)
      then show ?thesis by (subst process_capture_loop.simps) simp
    next
      case (sent grp rest st' f1 s1)
      have len: "length ([] @ rest) < length (pre @ buses)" using sent(1,2) by simp
      show ?thesis
      proof (cases "rest = []")
        case True
        let ?res = "\<lparr>br_ok = True, br_data_ok = True, br_reader = rdr, br_state = st'\<lparr>ds_sample_buffer := ds_sample_buffer st @ part\<rparr>,
            br_sent_samples = n + word_of_nat (length grp), br_file = f1, br_world = s1\<rparr>"
        have "process_capture_loop so ops db c options check k rdr st (stream_bytes flds buses @ part) (length pre) n f s = Some ?res"
          using True sent(5,6,10) assms(9) prems(7) by (subst process_capture_loop.simps) (simp add: update_single_sample_buffer_def)
        moreover have "block_sent sent incoming ops db options flds check rdr bin (ds_sample_buffer st @ part) (pre @ buses) n f s ?res"
          using True sent(1-4,6,7) unfolding block_sent_def sent(2) by (intro exI [of _ "[grp]"]) (simp add: sound_def)
        ultimately show ?thesis by blast
      next
        case more: False
        then have big: "?raw \<le> length (stream_bytes flds rest @ part)" by (cases rest) (simp_all add: length_stream_bytes)
        have "\<exists>res. process_capture_loop so ops db c options check (k + 1) rdr st' (stream_bytes flds rest @ part) (length ([] :: (u32 \<Rightarrow> u32) list)) (n + word_of_nat (length grp)) f1 s1 = Some res \<and>
            block_sent sent incoming ops db options flds check rdr bin (ds_sample_buffer st' @ part) ([] @ rest) (n + word_of_nat (length grp)) f1 s1 res"
          by (rule less.hyps [OF len sent(3,6,7)])
            (use sent(8-10) streamable_room(2) [OF assms(1)] prems(7) in \<open>simp_all add: expected_rows_def split: data_process.split\<close>)
        then obtain res where r: "process_capture_loop so ops db c options check (k + 1) rdr st' (stream_bytes flds rest @ part) 0 (n + word_of_nat (length grp)) f1 s1 = Some res"
          "block_sent sent incoming ops db options flds check rdr bin (ds_sample_buffer st @ part) rest (n + word_of_nat (length grp)) f1 s1 res"
          using sent(10) by auto
        from sent(5,6) big r(1) have "process_capture_loop so ops db c options check k rdr st (stream_bytes flds buses @ part) (length pre) n f s = Some res"
          by (subst process_capture_loop.simps) simp
        with block_sent_more [OF r(2) sent(4)] show ?thesis unfolding sent(2) by blast
      qed
    qed
  qed
qed

lemma expected_rows_Nil [simp]: "expected_rows ops process flds [] = []"
  by (cases process) (simp_all add: expected_rows_def)

text \<open>The bytes of an incomplete sample are completed from the block, or grow by all of it.\<close>

lemma process_single_sample_part:
  assumes "ds_sample_buffer st \<noteq> []" "length (ds_sample_buffer st @ buffer) < ds_raw_sample_length st" "ds_raw_sample_length st \<le> MAX_RAW_SAMPLE_LENGTH"
  shows "process_single_sample ops c options st buffer = Some (0, st\<lparr>ds_sample_buffer := ds_sample_buffer st @ buffer\<rparr>, [])"
  using assms by (simp add: process_single_sample_def Let_def min_def)

lemma process_single_sample_whole:
  assumes "streamable ops db options flds old c bin" "ds_raw_sample_length st = 4 * length (sample_layout flds)"
    "ds_binary_sample_length st = bin" "ds_output_items st = []" "ds_output_buffer_count st = header_room options"
    "ds_sample_buffer st @ buffer = sample_bytes flds bus @ rest" "ds_sample_buffer st \<noteq> []"
    "length (ds_sample_buffer st) < 4 * length (sample_layout flds)"
  shows "process_single_sample ops c options st buffer =
    Some (1, st\<lparr>ds_output_items := concat (expected_rows ops (do_data_process options) flds [bus]),
      ds_output_buffer_count := header_room options + bin, ds_sample_buffer := []\<rparr>, rest)"
proof -
  let ?raw = "4 * length (sample_layout flds)"
  note room = streamable_room [OF assms(1)]
  have "?raw \<le> length (ds_sample_buffer st @ buffer)" unfolding assms(6) by simp
  then have n: "min (length buffer) (?raw - length (ds_sample_buffer st)) = ?raw - length (ds_sample_buffer st)" by simp
  have "take ?raw (ds_sample_buffer st @ buffer) = sample_bytes flds bus" "drop ?raw (ds_sample_buffer st @ buffer) = rest"
    unfolding assms(6) by simp_all
  then have cut: "ds_sample_buffer st @ take (?raw - length (ds_sample_buffer st)) buffer = sample_bytes flds bus"
    "drop (?raw - length (ds_sample_buffer st)) buffer = rest" using assms(8) by simp_all
  have one: "1 = min (length [bus]) ((NET_BUF_SIZE - ds_output_buffer_count st) div bin)"
    using room assms(5) by (simp add: Suc_le_eq div_greater_zero_iff)
  have "process_samples ops c options st (stream_bytes flds [bus] @ []) =
      Some (1, st\<lparr>ds_output_items := concat (expected_rows ops (do_data_process options) flds [bus]),
        ds_output_buffer_count := header_room options + bin\<rparr>, [])"
    using process_samples_stream [OF assms(1-3) _ one, of "[]"] assms(1,4,5) by (simp add: streamable_def)
  then show ?thesis using assms(7) room(3) unfolding process_single_sample_def Let_def assms(2) n cut by simp
qed

lemma process_capture_block_stream:
  assumes "streamable ops db options flds old c bin" "socket_laws so sent incoming" "sound f"
    "ds_raw_sample_length st = 4 * length (sample_layout flds)" "ds_binary_sample_length st = bin"
    "ds_sample_buffer st @ buffer = stream_bytes flds buses @ part" "length part < 4 * length (sample_layout flds)"
    "length (ds_sample_buffer st) < 4 * length (sample_layout flds)"
  shows "\<exists>res. process_capture_block so ops db c options check rdr st buffer n f s = Some res \<and>
    block_sent sent incoming ops db options flds check rdr bin part buses n f s res"
proof -
  let ?raw = "4 * length (sample_layout flds)"
  note room = streamable_room [OF assms(1)]
  let ?st = "prepare_output_buffer options st"
  have st: "ds_raw_sample_length ?st = ?raw" "ds_binary_sample_length ?st = bin" "ds_output_items ?st = []"
    "ds_output_buffer_count ?st = header_room options" "ds_sample_buffer ?st = ds_sample_buffer st"
    using assms(4,5) by (simp_all add: prepare_output_buffer_def header_room_def)
  show ?thesis
  proof (cases "ds_sample_buffer st = []")
    case True
    have "\<exists>res. process_capture_loop so ops db c options check 0 rdr ?st (stream_bytes flds buses @ part) (length ([] :: (u32 \<Rightarrow> u32) list)) n f s = Some res \<and>
        block_sent sent incoming ops db options flds check rdr bin (ds_sample_buffer ?st @ part) ([] @ buses) n f s res"
      by (rule process_capture_loop_stream [OF assms(1-3) st(1,2)]) (use st room True assms(7) in simp_all)
    with True assms(6) st(5) show ?thesis by (simp add: process_capture_block_def process_single_sample_def)
  next
    case False
    show ?thesis
    proof (cases buses)
      case Nil
      with assms(6) have part: "ds_sample_buffer st @ buffer = part" by simp
      let ?st1 = "?st\<lparr>ds_sample_buffer := part\<rparr>"
      have "process_single_sample ops c options ?st buffer = Some (0, ?st1, [])"
        using process_single_sample_part [of ?st buffer ops c options] False part assms(7) room(3) st(1,5) by simp
      moreover have "\<exists>res. process_capture_loop so ops db c options check 0 rdr ?st1 (stream_bytes flds [] @ []) (length ([] :: (u32 \<Rightarrow> u32) list)) n f s = Some res \<and>
          block_sent sent incoming ops db options flds check rdr bin (ds_sample_buffer ?st1 @ []) ([] @ []) n f s res"
        by (rule process_capture_loop_stream [OF assms(1-3)]) (use st room assms(7) in \<open>auto\<close>)
      ultimately show ?thesis using Nil by (simp add: process_capture_block_def)
    next
      case (Cons bus rest)
      let ?st1 = "?st\<lparr>ds_output_items := concat (expected_rows ops (do_data_process options) flds [bus]),
          ds_output_buffer_count := header_room options + bin, ds_sample_buffer := []\<rparr>"
      have "ds_sample_buffer st @ buffer = sample_bytes flds bus @ (stream_bytes flds rest @ part)" using assms(6) Cons by simp
      from process_single_sample_whole [OF assms(1) st(1-4) this [folded st(5)]] False assms(8) st(5)
      have "process_single_sample ops c options ?st buffer = Some (1, ?st1, stream_bytes flds rest @ part)" by simp
      moreover have "\<exists>res. process_capture_loop so ops db c options check 0 rdr ?st1 (stream_bytes flds rest @ part) (length [bus]) n f s = Some res \<and>
          block_sent sent incoming ops db options flds check rdr bin (ds_sample_buffer ?st1 @ part) ([bus] @ rest) n f s res"
        by (rule process_capture_loop_stream [OF assms(1-3)]) (use st room assms(7) in simp_all)
      ultimately show ?thesis using Cons by (simp add: process_capture_block_def)
    qed
  qed
qed

section \<open>The stream of a connection\<close>

text \<open>The contents of the blocks that a connection reads until its stream ends.\<close>

fun stream_blocks :: "reader_state \<Rightarrow> block_env list \<Rightarrow> u8 list list option" where
  "stream_blocks rdr [] = None"
| "stream_blocks rdr (e # env) =
     (case env_read_block rdr e of
        None \<Rightarrow> None
      | Some (block, rdr) \<Rightarrow>
          if block = NullBlock \<or> \<not> check_connection (be_recv e) then Some []
          else map_option ((#) (block_contents e block)) (stream_blocks rdr env))"

text \<open>No block is overwritten while it is processed.\<close>

fun never_overrun :: "reader_state \<Rightarrow> block_env list \<Rightarrow> bool" where
  "never_overrun rdr [] = True"
| "never_overrun rdr (e # env) =
     (case env_read_block rdr e of
        None \<Rightarrow> True
      | Some (block, rdr) \<Rightarrow> (\<forall>k. fst (check_read_block rdr (be_checks e k))) \<and> never_overrun rdr env)"

text \<open>What is done to the rest of a block behind the skipped bytes, and the way on from there.\<close>

definition block_step ::
    "'s socket_ops \<Rightarrow> 'd capture_ops \<Rightarrow> ('d \<Rightarrow> u8 list) \<Rightarrow> 'd data_capture \<Rightarrow> data_options \<Rightarrow> block_env \<Rightarrow> reader_state
       \<Rightarrow> 'd data_capture_state \<Rightarrow> u8 list \<Rightarrow> u64 \<Rightarrow> buffered_file \<Rightarrow> 's \<Rightarrow> ('d, 's) block_result option" where
  "block_step so ops db c options e rdr st buffer n f s =
     (if buffer \<noteq> [] then process_capture_block so ops db c options (be_checks e) rdr st buffer n f s
      else Some \<lparr>br_ok = True, br_data_ok = True, br_reader = rdr, br_state = st, br_sent_samples = n, br_file = f, br_world = s\<rparr>)"

lemma block_step_stream:
  assumes "streamable ops db options flds old c bin" "socket_laws so sent incoming" "sound f"
    "ds_raw_sample_length st = 4 * length (sample_layout flds)" "ds_binary_sample_length st = bin"
    "ds_sample_buffer st @ buffer = stream_bytes flds buses @ part" "length part < 4 * length (sample_layout flds)"
    "length (ds_sample_buffer st) < 4 * length (sample_layout flds)"
  shows "\<exists>res. block_step so ops db c options e rdr st buffer n f s = Some res \<and>
    block_sent sent incoming ops db options flds (be_checks e) rdr bin part buses n f s res"
proof (cases "buffer = []")
  case True
  with assms(6,8) have "buses = []" "ds_sample_buffer st = part" by (cases buses; auto dest: arg_cong [where f = length])+
  with True assms(3-5) show ?thesis unfolding block_step_def block_sent_def by (auto intro!: exI [of _ "[]"] simp: sound_def)
next
  case False
  with process_capture_block_stream [OF assms] show ?thesis unfolding block_step_def by simp
qed

lemma send_blocks_step:
  assumes "env_read_block rdr e = Some (block, rdr1)" "\<not> (block = NullBlock \<or> \<not> check_connection (be_recv e))"
    and "skipped = min skip (length (block_contents e block))"
    and "block_step so ops db c options e rdr1 st (drop skipped (block_contents e block)) n f s = Some res"
  shows "send_blocks so ops db c options False rdr st skip n f (e # env) s =
    Option.bind (if br_ok res then flush_out_buf so (br_file res) (br_world res) else Some (False, br_file res, br_world res)) (\<lambda>(ok, file, s).
      if ok \<and> br_data_ok res then
        send_blocks so ops db c options False (br_reader res) (br_state res) (skip - skipped) (br_sent_samples res) file env s
      else Some (br_reader res, br_sent_samples res, file, s))"
proof -
  have go_on: "(block = NullBlock \<or> \<not> check_connection (be_recv e)) = False" using assms(2) by simp
  show ?thesis
    using assms(4) unfolding block_step_def assms(3)
    by (simp only: send_blocks.simps assms(1) option.case prod.case Let_def go_on if_False bind.bind_lunit)
qed

lemma send_blocks_stream:
  assumes "streamable ops db options flds old c bin" "socket_laws so sent incoming" "sound f"
    "stream_blocks rdr env = Some bs" "ds_raw_sample_length st = 4 * length (sample_layout flds)" "ds_binary_sample_length st = bin"
    "ds_sample_buffer st @ drop skip (concat bs) = stream_bytes flds buses @ part" "length part < 4 * length (sample_layout flds)"
    "length (ds_sample_buffer st) < 4 * length (sample_layout flds)"
  shows "\<exists>groups rdr' m f' s'. send_blocks so ops db c options False rdr st skip n f env s = Some (rdr', m, f', s') \<and>
    prefix (concat groups) buses \<and> wrote sent incoming f s (concat (map (packet ops db options flds) groups)) f' s' \<and>
    (is_ok (bf_error f') \<longrightarrow> m = n + word_of_nat (length (concat groups)) \<and> (never_overrun rdr env \<longrightarrow> concat groups = buses))"
  using assms(3-7,9)
proof (induction env arbitrary: rdr bs st skip buses n f s)
  case (Cons e env)
  let ?raw = "4 * length (sample_layout flds)"
  from Cons.prems(2) obtain block rdr1 where rb: "env_read_block rdr e = Some (block, rdr1)" by (auto split: option.splits)
  show ?case
  proof (cases "block = NullBlock \<or> \<not> check_connection (be_recv e)")
    case True
    with Cons.prems(2) rb have "bs = []" by simp
    with Cons.prems(5,6) have "ds_sample_buffer st = stream_bytes flds buses @ part" by simp
    then have "buses = []" using Cons.prems(6) by (cases buses) (auto dest: arg_cong [where f = length])
    with True rb show ?thesis by (intro exI [of _ "[]"] exI [of _ rdr1] exI [of _ n] exI [of _ f] exI [of _ s]) simp
  next
    case False
    from False Cons.prems(2) rb obtain bs' where bs: "bs = block_contents e block # bs'" "stream_blocks rdr1 env = Some bs'" by auto
    define skipped where "skipped = min skip (length (block_contents e block))"
    define buffer where "buffer = drop skipped (block_contents e block)"
    define skip' where "skip' = skip - skipped"
    have "drop skip (concat bs) = buffer @ drop skip' (concat bs')"
      by (auto simp: bs(1) buffer_def skip'_def skipped_def min_def)
    with Cons.prems(5) have "(ds_sample_buffer st @ buffer) @ drop skip' (concat bs') = stream_bytes flds buses @ part" by simp
    from stream_bytes_cut [OF this assms(8)] obtain bs1 bs2 cut where
      cut: "buses = bs1 @ bs2" "ds_sample_buffer st @ buffer = stream_bytes flds bs1 @ cut"
        "cut @ drop skip' (concat bs') = stream_bytes flds bs2 @ part" "length cut < ?raw" by blast
    from block_step_stream [OF assms(1,2) Cons.prems(1,3,4) cut(2,4) Cons.prems(6), of e rdr1 n s]
    obtain res groups where step: "block_step so ops db c options e rdr1 st buffer n f s = Some res" and g: "prefix (concat groups) bs1"
      "wrote sent incoming f s (concat (map (packet ops db options flds) groups)) (br_file res) (br_world res)"
      "br_ok res = is_ok (bf_error (br_file res))" "br_ok res \<longrightarrow> br_sent_samples res = n + word_of_nat (length (concat groups))"
      "br_ok res \<and> br_data_ok res \<longrightarrow> concat groups = bs1 \<and> br_reader res = rdr1 \<and>
         ds_raw_sample_length (br_state res) = ?raw \<and> ds_binary_sample_length (br_state res) = bin \<and> ds_sample_buffer (br_state res) = cut"
      "(\<forall>k. fst (check_read_block rdr1 (be_checks e k))) \<longrightarrow> br_data_ok res" unfolding block_sent_def by blast
    have size: "0 < bf_out_buf_size (br_file res)" using g(2) Cons.prems(1) by (auto simp: wrote_def same_input_def sound_def)
    note body = send_blocks_step [OF rb False skipped_def step [unfolded buffer_def], of env, folded skip'_def]
    have pre: "prefix (concat groups) buses" using g(1) by (simp add: cut(1) prefix_prefix)
    show ?thesis
    proof (cases "br_ok res")
      case bad: False
      with body g pre show ?thesis
        by (intro exI [of _ groups] exI [of _ "br_reader res"] exI [of _ "br_sent_samples res"] exI [of _ "br_file res"] exI [of _ "br_world res"]) simp
    next
      case ok: True
      from flush_out_buf_wrote [OF assms(2) size, of "br_world res"] obtain f2 s2 where
        fl: "flush_out_buf so (br_file res) (br_world res) = Some (is_ok (bf_error f2), f2, s2)" "wrote sent incoming (br_file res) (br_world res) [] f2 s2" by blast
      have w: "wrote sent incoming f s (concat (map (packet ops db options flds) groups)) f2 s2" using wrote_append [OF g(2) fl(2)] by simp
      show ?thesis
      proof (cases "is_ok (bf_error f2) \<and> br_data_ok res")
        case stop: False
        with rb g(6) have "is_ok (bf_error f2) \<longrightarrow> \<not> never_overrun rdr (e # env)" by auto
        with body ok fl(1) stop w pre g(4) show ?thesis
          by (intro exI [of _ groups] exI [of _ "br_reader res"] exI [of _ "br_sent_samples res"] exI [of _ f2] exI [of _ s2]) auto
      next
        case go: True
        with ok g(5) have st: "concat groups = bs1" "br_reader res = rdr1" "ds_raw_sample_length (br_state res) = ?raw"
          "ds_binary_sample_length (br_state res) = bin" "ds_sample_buffer (br_state res) = cut" by simp_all
        have "sound f2" using wrote_sound [OF w Cons.prems(1)] go by simp
        note IH = Cons.IH [OF this bs(2) st(3,4) cut(3) [folded st(5)] cut(4) [folded st(5)], of "br_sent_samples res" s2]
        from IH obtain groups2 rdr' m f' s' where
          r: "send_blocks so ops db c options False rdr1 (br_state res) skip' (br_sent_samples res) f2 env s2 = Some (rdr', m, f', s')"
            "prefix (concat groups2) bs2" "wrote sent incoming f2 s2 (concat (map (packet ops db options flds) groups2)) f' s'"
            "is_ok (bf_error f') \<longrightarrow> m = br_sent_samples res + word_of_nat (length (concat groups2)) \<and> (never_overrun rdr1 env \<longrightarrow> concat groups2 = bs2)"
          by (elim exE conjE) (rule that)
        have "wrote sent incoming f s (concat (map (packet ops db options flds) (groups @ groups2))) f' s'" using wrote_append [OF w r(3)] by simp
        with body ok fl(1) go r st(1,2) g(4) rb cut(1) show ?thesis
          by (intro exI [of _ "groups @ groups2"] exI [of _ rdr'] exI [of _ m] exI [of _ f'] exI [of _ s']) (simp add: add.assoc)
      qed
    qed
  qed
qed simp

lemma prepared_streamable:
  assumes "prepare_data_capture dev hdr flds stack old s0 = Some (Inr (), c, s1)" "wf_fields flds"
    "length stack = MAX_CAPTURE_COUNT" "length (dc_scaling old) = MAX_CAPTURE_COUNT" "length (dc_std_dev_mean old) = MAX_CAPTURE_COUNT"
    "count_readable flds old []" "\<And>d. length (db d) = 8" "\<And>d. length (d_show ops d) < 32"
  obtains bin where "streamable ops db options flds old c bin"
proof -
  note caps = prepared_captures [OF assms(1-5)]
  have "length (sample_layout flds) < MAX_PCAP_WRITE_COUNT"
  proof -
    from assms(1) obtain n arr where g: "gather_data_capture flds old stack = Some (c, n, arr)" "n < MAX_PCAP_WRITE_COUNT"
      by (auto simp: prepare_data_capture_def hw_write_capture_set_def split: bind_splits if_splits)
    have le: "length (sample_layout flds) \<le> MAX_CAPTURE_COUNT" by (rule gather_in_array [OF g(1) assms(2,3)])
    from gather_data_capture_layout [OF assms(2) le _ assms(3-5)] length_scaled_fields(1) [OF assms(2)] le g show ?thesis by auto
  qed
  moreover obtain bin where "get_binary_sample_length c options = Some bin"
    using convert_captured [OF assms(2) caps(2,1) assms(6), of ops options "[]"] by auto
  ultimately show thesis using that caps assms(2,6-8) by (simp add: streamable_def)
qed


section \<open>Passing raw samples through\<close>

lemma passthrough_capture_block_stream:
  assumes "socket_laws so sent incoming" "sound f" "0 < length (sample_layout flds)" "length (sample_layout flds) < MAX_PCAP_WRITE_COUNT"
    "ds_raw_sample_length st = 4 * length (sample_layout flds)" "ds_output_buffer_count st = length (ds_output_bytes st)"
    "ds_output_bytes st @ buffer = stream_bytes flds buses @ part" "length part < 4 * length (sample_layout flds)"
    "length (ds_output_bytes st) \<le> length (stream_bytes flds buses)" "8 + length (stream_bytes flds buses) < 2 ^ 32"
  shows "\<exists>res. passthrough_capture_block so check rdr st buffer n f s = Some res \<and>
    wrote sent incoming f s (map char_of_byte (frame (stream_bytes flds buses))) (br_file res) (br_world res) \<and>
    br_ok res = is_ok (bf_error (br_file res)) \<and>
    (br_ok res \<longrightarrow> br_sent_samples res = n + word_of_nat (length buses) \<and> br_data_ok res = fst (check_read_block rdr (check 0)) \<and>
       ds_output_bytes (br_state res) = part \<and> ds_output_buffer_count (br_state res) = length part)"
proof -
  let ?raw = "4 * length (sample_layout flds)" and ?old = "ds_output_bytes st" and ?data = "stream_bytes flds buses"
  have len: "length ?old + length buffer = length buses * ?raw + length part"
    using arg_cong [OF assms(7), of length] by (simp add: length_stream_bytes)
  then have cnt: "(length ?old + length buffer) div ?raw = length buses" using assms(3,8) by simp
  have le: "length ?old \<le> length buses * ?raw" using assms(9) by (simp add: length_stream_bytes)
  let ?send = "length buses * ?raw - length ?old"
  have "?old @ take ?send buffer = take (length ?data) (?old @ buffer)" using assms(9) by (simp add: length_stream_bytes)
  then have data: "?old @ take ?send buffer = ?data" unfolding assms(7) by simp
  have "drop ?send buffer = drop (length ?data) (?old @ buffer)" using assms(9) by (simp add: length_stream_bytes)
  then have rest: "drop ?send buffer = part" unfolding assms(7) by simp
  have total: "8 + length ?old + ?send = 8 + length ?data" using le by (simp add: length_stream_bytes)
  let ?hdr = "map byte_of ''BIN '' @ bytes_of_word (word_of_nat (8 + length ?data))"
  have hdr: "set_frame_header (8 + length ?old + ?send) = Some ?hdr" using assms(10) unfolding total by (simp add: set_frame_header_def)
  have front: "take (8 + length ?old) (?hdr @ ?old) = ?hdr @ ?old" by (simp add: bytes_of_word_def)
  have inv: "file_inv f" using assms(2) by (simp add: sound_def)
  from write_block_wrote [OF assms(1) inv, of "map char_of_byte (?hdr @ ?old)" s] obtain f1 s1 where
    1: "write_block so f (map char_of_byte (?hdr @ ?old)) s = Some (is_ok (bf_error f1), f1, s1)"
      "wrote sent incoming f s (map char_of_byte (?hdr @ ?old)) f1 s1" by blast
  have "\<exists>f2 s2. (if is_ok (bf_error f1) then write_block so f1 (map char_of_byte (take ?send buffer)) s1 else Some (False, f1, s1)) =
      Some (is_ok (bf_error f2), f2, s2) \<and> wrote sent incoming f1 s1 (map char_of_byte (take ?send buffer)) f2 s2"
  proof (cases "is_ok (bf_error f1)")
    case True
    with wrote_sound [OF 1(2) assms(2)] have "file_inv f1" by (simp add: sound_def)
    with write_block_wrote [OF assms(1)] True show ?thesis by simp
  next
    case False
    with wrote_stuck [OF False] show ?thesis by auto
  qed
  then obtain f2 s2 where
    2: "(if is_ok (bf_error f1) then write_block so f1 (map char_of_byte (take ?send buffer)) s1 else Some (False, f1, s1)) = Some (is_ok (bf_error f2), f2, s2)"
      "wrote sent incoming f1 s1 (map char_of_byte (take ?send buffer)) f2 s2" by blast
  have "map char_of_byte (frame ?data) = map char_of_byte (?hdr @ ?old) @ map char_of_byte (take ?send buffer)"
    by (simp add: frame_def flip: data)
  with wrote_append [OF 1(2) 2(2)] have w: "wrote sent incoming f s (map char_of_byte (frame ?data)) f2 s2" by simp
  have "length (drop ?send buffer) = length part" unfolding rest by simp
  then have room: "length buffer - ?send = length part" "\<not> 8 + length part > NET_BUF_SIZE"
    using assms(4,8) by (simp_all add: NET_BUF_SIZE_def MAX_PCAP_WRITE_COUNT_def)
  obtain ok rdr1 where chk: "check_read_block rdr (check 0) = (ok, rdr1)" by fastforce
  have "passthrough_capture_block so check rdr st buffer n f s =
      (if is_ok (bf_error f2) then
         Some \<lparr>br_ok = True, br_data_ok = ok, br_reader = rdr1, br_state = st\<lparr>ds_output_bytes := part, ds_output_buffer_count := length part\<rparr>,
           br_sent_samples = n + word_of_nat (length buses), br_file = f2, br_world = s2\<rparr>
       else Some \<lparr>br_ok = False, br_data_ok = True, br_reader = rdr, br_state = st, br_sent_samples = n, br_file = f2, br_world = s2\<rparr>)"
    unfolding passthrough_capture_block_def Let_def assms(5,6) cnt hdr bind.bind_lunit front 1(1) prod.case 2(1) room rest chk
    using le room(2) by simp
  with w chk show ?thesis by auto
qed

text \<open>
  C25: raw samples in frames: each block is sent as one frame with the bytes left from before and the whole samples of
  the block, and the bytes of an incomplete sample are kept for the next frame.  If bytes were left and the block does not
  complete a sample the write runs out of the block.\<close>

theorem passthrough_frames:
  assumes "socket_laws so sent incoming" "sound f" "0 < length (sample_layout flds)" "length (sample_layout flds) < MAX_PCAP_WRITE_COUNT"
    and "ds_raw_sample_length st = 4 * length (sample_layout flds)" "ds_output_buffer_count st = length (ds_output_bytes st)"
    and "ds_output_bytes st @ buffer = stream_bytes flds buses @ part" "length part < 4 * length (sample_layout flds)"
    and "length (ds_output_bytes st) < 4 * length (sample_layout flds)" "8 + length (stream_bytes flds buses) < 2 ^ 32"
  shows "if buses \<noteq> [] \<or> ds_output_bytes st = [] then
      \<exists>res. passthrough_capture_block so check rdr st buffer n f s = Some res \<and>
        wrote sent incoming f s (map char_of_byte (frame (stream_bytes flds buses))) (br_file res) (br_world res) \<and>
        br_ok res = is_ok (bf_error (br_file res)) \<and>
        (br_ok res \<longrightarrow> br_sent_samples res = n + word_of_nat (length buses) \<and> br_data_ok res = fst (check_read_block rdr (check 0)) \<and>
           ds_output_bytes (br_state res) = part \<and> ds_output_buffer_count (br_state res) = length part)
    else passthrough_capture_block so check rdr st buffer n f s = None"
proof (cases "buses \<noteq> [] \<or> ds_output_bytes st = []")
  case True
  have "length (ds_output_bytes st) \<le> length (stream_bytes flds buses)"
    using True assms(9) by (cases buses) (auto simp: length_stream_bytes)
  from passthrough_capture_block_stream [OF assms(1-8) this assms(10)] True show ?thesis by simp
next
  case False
  then have "length (ds_output_bytes st) + length buffer < 4 * length (sample_layout flds)" "ds_output_bytes st \<noteq> []"
    using arg_cong [OF assms(7), of length] assms(8) by simp_all
  with False show ?thesis by (simp add: passthrough_capture_block_def assms(5,6) Let_def)
qed

text \<open>In the formats without frames or lines of fixed size the grouping cannot be seen.\<close>

lemma packets_concat:
  assumes "do_data_format options = DATA_FORMAT_UNFRAMED \<or> do_data_format options = DATA_FORMAT_ASCII"
  shows "concat (map (packet ops db options flds) groups) = packet ops db options flds (concat groups)"
  using assms
proof (induction groups)
  case (Cons grp groups)
  then show ?case by (auto simp: packet_def Let_def expected_rows_append rows_bytes_def)
qed (auto simp: packet_def Let_def rows_bytes_def)

section \<open>An example\<close>

definition example_buffer :: "buffer_state \<Rightarrow> capture_buffer" where
  "example_buffer st = (create_buffer 32 4 [] [7, 15, 0, 0])\<lparr>in_ptr := 2, state := st\<rparr>"

definition example_env :: "buffer_state \<Rightarrow> u8 list \<Rightarrow> block_env" where
  "example_env st memory =
     \<lparr>be_buffer = example_buffer st, be_wakeups = [], be_buffer1 = example_buffer st, be_buffer2 = example_buffer st,
      be_recv = Recv_again, be_memory = memory, be_checks = (\<lambda>_. example_buffer st)\<rparr>"

definition example_reader :: "nat \<Rightarrow> reader_state" where
  "example_reader n = \<lparr>rs_capture_cycle = 0, rs_buffer_cycle = 0, out_ptr = n, status = READER_STATUS_CLOSED\<rparr>"

definition example_bytes :: "u8 list" where
  "example_bytes = [4, 0, 0, 0, 7, 0, 0, 0, 3, 0, 0, 0, 20, 0, 0, 0, 0, 0, 0, 0]"

text \<open>One sample and two bytes of the next, in two blocks.\<close>

definition example_stream :: "block_env list" where
  "example_stream = [example_env STATE_ACTIVE (take 7 example_bytes), example_env STATE_ACTIVE (drop 7 example_bytes @ [1, 2]),
     example_env STATE_CLEARING []]"

lemma example_stream_blocks:
  "stream_blocks (example_reader 0) example_stream = Some [take 7 example_bytes, drop 7 example_bytes @ [1, 2]]"
  by code_simp

lemma example_stream_bytes: "stream_bytes sample_captured [sample_bus] = example_bytes"
  by code_simp


definition example_state :: "u8 list \<Rightarrow> int data_capture_state" where
  "example_state left = \<lparr>ds_raw_sample_length = 20, ds_binary_sample_length = 20, ds_sample_buffer = [], ds_output_items = [],
     ds_output_bytes = left, ds_output_buffer_count = length left\<rparr>"

theorem passthrough_frames_witness:
  "(\<exists>res. passthrough_capture_block slow_socket (\<lambda>_. example_buffer STATE_ACTIVE) (example_reader 1) (example_state (take 7 example_bytes))
       (drop 7 example_bytes @ [1, 2]) 5 (create_buffered_file 4 64) ([], []) = Some res \<and>
     wrote snd fst (create_buffered_file 4 64) ([], []) (map char_of_byte (frame example_bytes)) (br_file res) (br_world res)) \<and>
   passthrough_capture_block slow_socket (\<lambda>_. example_buffer STATE_ACTIVE) (example_reader 1) (example_state (take 7 example_bytes))
       [1, 2] 5 (create_buffered_file 4 64) ([], []) = None"
proof -
  have f: "sound (create_buffered_file 4 64)" "0 < length (sample_layout sample_captured)" "length (sample_layout sample_captured) < MAX_PCAP_WRITE_COUNT"
    by (simp_all add: sound_def create_buffered_file_def file_inv_def sample_captured_layout MAX_PCAP_WRITE_COUNT_def)
  have st: "ds_raw_sample_length (example_state left) = 4 * length (sample_layout sample_captured)"
    "ds_output_buffer_count (example_state left) = length (ds_output_bytes (example_state left))" "ds_output_bytes (example_state left) = left" for left
    by (simp_all add: example_state_def sample_captured_layout)
  note frames = passthrough_frames [OF slow_socket_laws f st(1,2), unfolded st(3)]
  have 1: "take 7 example_bytes @ (drop 7 example_bytes @ [1, 2]) = stream_bytes sample_captured [sample_bus] @ [1, 2]"
    unfolding example_stream_bytes by code_simp
  have 2: "take 7 example_bytes @ [1, 2] = stream_bytes sample_captured [] @ (take 7 example_bytes @ [1, 2])" by simp
  have n: "length [1, 2 :: u8] < 4 * length (sample_layout sample_captured)" "length (take 7 example_bytes @ [1, 2]) < 4 * length (sample_layout sample_captured)"
    "length (take 7 example_bytes) < 4 * length (sample_layout sample_captured)"
    "8 + length (stream_bytes sample_captured [sample_bus]) < 2 ^ 32" "8 + length (stream_bytes sample_captured []) < 2 ^ 32"
    by (simp_all add: sample_captured_layout)
  have "take 7 example_bytes \<noteq> []" by (simp add: example_bytes_def)
  then show ?thesis
    using frames [OF 1 n(1,3,4), of "\<lambda>_. example_buffer STATE_ACTIVE" "example_reader 1" 5 "([], [])"]
      frames [OF 2 n(2,3,5), of "\<lambda>_. example_buffer STATE_ACTIVE" "example_reader 1" 5 "([], [])"]
    unfolding example_stream_bytes by auto
qed

text \<open>What a client that came late is told: the lost bytes with the skipped ones are the lost samples.\<close>

lemma lost_and_skip_aligned:
  assumes "lost_and_skip lost len = (lost_samples, skip)" "0 < len" "unat lost + len < 2 ^ 64"
  shows "unat lost_samples * len = unat lost + skip" "skip < len"
proof -
  have sz: "unat (word_of_nat len :: u64) = len" using assms(3) by (simp add: unat_of_nat take_bit_nat_eq_self)
  have "unat (lost + word_of_nat len - 1) = unat lost + len - 1"
  proof -
    have "unat (lost + word_of_nat len) = unat lost + len" using assms(3) sz by (subst unat_add_lem [THEN iffD1]) simp_all
    moreover have "(1 :: u64) \<le> lost + word_of_nat len" using calculation assms(2) by (simp add: word_le_nat_alt)
    ultimately show ?thesis by (simp add: unat_sub)
  qed
  then have l: "unat lost_samples = (unat lost + len - 1) div len"
    using assms(1) sz by (auto simp: lost_and_skip_def Let_def unat_div)
  have k: "skip = (if unat lost mod len > 0 then len - unat lost mod len else 0)"
    using assms(1) sz by (auto simp: lost_and_skip_def Let_def unat_mod)
  show "skip < len" using k assms(2) by auto
  obtain q r where qr: "unat lost = q * len + r" "r < len" using assms(2) by (metis div_mult_mod_eq mod_less_divisor)
  show "unat lost_samples * len = unat lost + skip"
  proof (cases "r = 0")
    case True
    then have "(unat lost + len - 1) div len = q" using qr assms(2) by (intro div_nat_eqI) (auto simp: mult.commute [of len] intro: le_less_trans [of _ "len * q + (len - 1)"])
    with True k l qr show ?thesis by simp
  next
    case False
    then have "(unat lost + len - 1) div len = Suc q" using qr assms(2) by (intro div_nat_eqI) (simp_all add: mult.commute [of q])
    with False k l qr show ?thesis by simp
  qed
qed

section \<open>The captured data\<close>

text \<open>The fields of the buffer that the readers leave alone.\<close>

definition same_data :: "capture_buffer \<Rightarrow> capture_buffer \<Rightarrow> bool" where
  "same_data b b' =
     (block_count b' = block_count b \<and> blocks b' = blocks b \<and> written b' = written b \<and> in_ptr b' = in_ptr b \<and>
      cb_buffer_cycle b' = cb_buffer_cycle b \<and> released_once b' = released_once b \<and> lost_bytes b' = lost_bytes b)"

lemma same_data_inv: "same_data b b' \<Longrightarrow> data_inv b hs \<Longrightarrow> data_inv b' hs"
  by (simp add: same_data_def data_inv_def)

lemma readers_same_data:
  "same_data b (snd (create_reader b))" "same_data b (destroy_reader rdr b)" "same_data b (snd (snd (close_reader rdr b)))"
  "same_data b (end_write b)" "same_data b (shutdown_buffer b)"
  by (simp_all add: same_data_def create_reader_def add_reader_def destroy_reader_def remove_reader_def complete_capture_def
      advance_capture_def close_reader_def end_write_def shutdown_buffer_def Let_def)

text \<open>
  What the driver promises: \<open>log\<close> is what has been read from it so far, and \<open>todo\<close> bounds the reads, with data or timed
  out, until it reports the end of the capture.  The other threads leave the data of the buffer alone.
\<close>

definition driver_laws :: "'s device \<Rightarrow> 's thread_env \<Rightarrow> ('s \<Rightarrow> u8 list) \<Rightarrow> ('s \<Rightarrow> nat) \<Rightarrow> bool" where
  "driver_laws dev env log todo =
     ((\<forall>n s. case stream_read dev n s of
         (Inr data, s') \<Rightarrow> length data \<le> n \<and> log s' = log s @ data \<and> todo s' \<le> todo s \<and> (data \<noteq> [] \<longrightarrow> todo s' < todo s)
       | (Inl e, s') \<Rightarrow> log s' = log s \<and> todo s' \<le> todo s \<and> (e = EAGAIN \<longrightarrow> todo s' < todo s)) \<and>
      (\<forall>s. log (snd (stream_start_ts dev s)) = log s \<and> todo (snd (stream_start_ts dev s)) \<le> todo s) \<and>
      (\<forall>s. log (snd (stream_completion dev s)) = log s) \<and>
      (\<forall>r s. log (snd (dev_read dev r s)) = log s \<and> todo (snd (dev_read dev r s)) \<le> todo s) \<and>
      (\<forall>s. log (snd (te_running env s)) = log s \<and> todo (snd (te_running env s)) \<le> todo s) \<and>
      (\<forall>s b. same_data b (te_others env s b)))"

lemma driver_read:
  assumes "driver_laws dev env log todo" "hw_read_streamed_data dev n s = (data, at_eof, s')"
  shows "log s' = log s @ data" "length data \<le> n" "todo s' \<le> todo s" "\<not> at_eof \<Longrightarrow> todo s' < todo s"
proof -
  obtain r s1 where r: "stream_read dev n s = (r, s1)" by fastforce
  have "case stream_read dev n s of
         (Inr data, s') \<Rightarrow> length data \<le> n \<and> log s' = log s @ data \<and> todo s' \<le> todo s \<and> (data \<noteq> [] \<longrightarrow> todo s' < todo s)
       | (Inl e, s') \<Rightarrow> log s' = log s \<and> todo s' \<le> todo s \<and> (e = EAGAIN \<longrightarrow> todo s' < todo s)"
    by (rule conjunct1 [OF assms(1) [unfolded driver_laws_def], rule_format])
  with r assms(2) show "log s' = log s @ data" "length data \<le> n" "todo s' \<le> todo s" "\<not> at_eof \<Longrightarrow> todo s' < todo s"
    by (cases r; auto simp: hw_read_streamed_data_def split: io_error.splits if_splits)+
qed

lemma driver_register:
  assumes "driver_laws dev env log todo" "read_named_register dev hdr reg s = (v, s')"
  shows "log s' = log s" "todo s' \<le> todo s"
proof -
  have "s' = snd (dev_read dev (make_offset (REG_BLOCK_BASE hdr) 0 reg) s)" using assms(2) by (simp add: read_named_register_def hw_read_register_def)
  then show "log s' = log s" "todo s' \<le> todo s" using assms(1) by (auto simp: driver_laws_def)
qed

definition same_capture :: "'d data_server \<Rightarrow> 'd data_server \<Rightarrow> bool" where
  "same_capture srv srv' =
     (dv_enabled srv' = dv_enabled srv \<and> dv_fields srv' = dv_fields srv \<and> dv_capture srv' = dv_capture srv \<and> dv_arm_ts srv' = dv_arm_ts srv)"

lemma same_capture_trans: "same_capture a b \<Longrightarrow> same_capture b c \<Longrightarrow> same_capture a c"
  by (simp add: same_capture_def)

lemma update_start_timestamp_keeps:
  assumes "driver_laws dev env log todo" "update_start_timestamp dev hdr tw lw srv s = (stamped, srv', s')"
  shows "log s' = log s" "todo s' \<le> todo s" "same_capture srv srv'" "dv_buffer srv' = dv_buffer srv" "dv_sample_count srv' = dv_sample_count srv"
proof -
  obtain v ts s1 where 1: "hw_get_start_ts dev tw lw \<lparr>tv_sec = 0, tv_nsec = 0\<rparr> s = (v, ts, s1)" by (metis prod_cases3)
  have "s1 = snd (stream_start_ts dev s)" using 1 by (auto simp: hw_get_start_ts_def split: prod.splits sum.splits)
  with assms(1) have k1: "log s1 = log s" "todo s1 \<le> todo s" by (auto simp: driver_laws_def)
  obtain v2 hts s2 where 2: "hw_get_hw_start_ts dev hdr tw lw s1 = (v2, hts, s2)" by (metis prod_cases3)
  obtain a sa where a: "read_named_register dev hdr (PCAP_TS_SEC hdr) s1 = (a, sa)" by fastforce
  obtain b sb where b: "read_named_register dev hdr (PCAP_TS_TICKS hdr) sa = (b, sb)" by fastforce
  obtain c sc where c: "read_named_register dev hdr (NOMINAL_CLOCK hdr) sb = (c, sc)" by fastforce
  have "s2 = sc" using 2 a b c by (simp add: hw_get_hw_start_ts_def hw_read_nominal_clock_def Let_def)
  with driver_register [OF assms(1) a] driver_register [OF assms(1) b] driver_register [OF assms(1) c] k1
  have k2: "log s2 = log s" "todo s2 \<le> todo s" by simp_all
  show "log s' = log s" "todo s' \<le> todo s" "same_capture srv srv'" "dv_buffer srv' = dv_buffer srv" "dv_sample_count srv' = dv_sample_count srv"
    using assms(2) 1 2 k1 k2 by (auto simp: update_start_timestamp_def same_capture_def split: bool.splits if_splits)
qed

lemma read_write_block_reads:
  assumes "driver_laws dev env log todo"
  shows "\<exists>data at_eof ts' srv' s'. read_write_block env dev hdr tw lw ts srv s = Some (data, at_eof, ts', srv', s') \<and>
    log s' = log s @ data \<and> length data \<le> DATA_BLOCK_SIZE \<and> (at_eof \<or> todo s' < todo s) \<and>
    same_capture srv srv' \<and> dv_buffer srv' = dv_buffer srv \<and> dv_sample_count srv' = dv_sample_count srv"
proof (induction "todo s" arbitrary: srv s rule: less_induct)
  case less
  obtain data at_eof s1 where 1: "hw_read_streamed_data dev DATA_BLOCK_SIZE s = (data, at_eof, s1)" by (metis prod_cases3)
  note d = driver_read [OF assms 1]
  obtain stamped srv1 s2 where 2: "(if ts then (False, srv, s1) else update_start_timestamp dev hdr tw lw srv s1) = (stamped, srv1, s2)" by (metis prod_cases3)
  have k: "log s2 = log s1" "todo s2 \<le> todo s1" "same_capture srv srv1" "dv_buffer srv1 = dv_buffer srv" "dv_sample_count srv1 = dv_sample_count srv"
    using 2 update_start_timestamp_keeps [OF assms, of hdr tw lw srv s1 stamped srv1 s2] by (auto simp: same_capture_def split: if_splits)
  obtain running s3 where 3: "te_running env s2 = (running, s3)" by fastforce
  have r: "log s3 = log s2" "todo s3 \<le> todo s2" using assms 3 unfolding driver_laws_def by (metis snd_conv)+
  have unf: "read_write_block env dev hdr tw lw ts srv s =
      (if stamped then Some (data, at_eof, True, srv1, s2)
       else if running \<and> data = [] \<and> \<not> at_eof then read_write_block env dev hdr tw lw ts srv1 s3
       else Some (data, at_eof, ts, srv1, s3))"
    by (subst read_write_block.simps) (simp only: 1 2 3 prod.case)
  show ?case
  proof (cases "\<not> stamped \<and> running \<and> data = [] \<and> \<not> at_eof")
    case True
    then have lt: "todo s3 < todo s" using d(4) k(2) r(2) by simp
    from less.hyps [OF this, of srv1] obtain data' at_eof' ts' srv' s' where
      "read_write_block env dev hdr tw lw ts srv1 s3 = Some (data', at_eof', ts', srv', s')" "log s' = log s3 @ data'" "length data' \<le> DATA_BLOCK_SIZE"
      "at_eof' \<or> todo s' < todo s3" "same_capture srv1 srv'" "dv_buffer srv' = dv_buffer srv1" "dv_sample_count srv' = dv_sample_count srv1" by blast
    with True lt unf d(1) k r(1) show ?thesis
      by (intro exI [of _ data'] exI [of _ at_eof'] exI [of _ ts'] exI [of _ srv'] exI [of _ s']) (auto intro: same_capture_trans)
  next
    case False
    have e: "at_eof \<or> todo s2 < todo s" "at_eof \<or> todo s3 < todo s" using d(4) k(2) r(2) by (cases at_eof; simp)+
    show ?thesis
    proof (cases stamped)
      case True
      with e unf d(1,2) k show ?thesis by auto
    next
      case no: False
      with False e unf d(1,2) k r(1) show ?thesis by auto
    qed
  qed
qed

lemma driver_others: "driver_laws dev env log todo \<Longrightarrow> same_data b (te_others env s b)"
  by (simp add: driver_laws_def)

lemma fill_release_data:
  assumes "data_inv b hs"
  shows "data_inv (release_write_block (fill_block b data) (length data)) (hs @ [data])"
proof -
  have "get_write_block b < length (blocks b)" using assms by (auto simp: data_inv_def get_write_block_def Let_def)
  then have "blocks (fill_block b data) ! get_write_block (fill_block b data) = data"
    by (simp add: fill_block_def get_write_block_def)
  with release_write_block_data [OF fill_block_data [OF assms], of "length data" data] show ?thesis by simp
qed

lemma capture_blocks_records:
  assumes "driver_laws dev env log todo"
    "data_inv (dv_buffer srv) hs" "tot = word_of_nat (length (concat hs))" "dv_sample_count srv = tot div word_of_nat len"
    "\<forall>data\<in>set hs. length data \<le> DATA_BLOCK_SIZE"
  shows "\<exists>new srv' s'. capture_blocks env dev hdr tw lw len tot at_eof ts srv s = Some (srv', s') \<and>
    log s' = log s @ concat new \<and> data_inv (dv_buffer srv') (hs @ new) \<and>
    dv_sample_count srv' = word_of_nat (length (concat (hs @ new))) div word_of_nat len \<and>
    (\<forall>data\<in>set (hs @ new). length data \<le> DATA_BLOCK_SIZE) \<and> same_capture srv srv'"
proof -
  have stop: "\<exists>new srv' s'. capture_blocks env dev hdr tw lw len tot at_eof ts srv s = Some (srv', s') \<and>
      log s' = log s @ concat new \<and> data_inv (dv_buffer srv') (hs @ new) \<and>
      dv_sample_count srv' = word_of_nat (length (concat (hs @ new))) div word_of_nat len \<and>
      (\<forall>data\<in>set (hs @ new). length data \<le> DATA_BLOCK_SIZE) \<and> same_capture srv srv'"
    if "te_running env s = (running, s1)" "\<not> running \<or> at_eof" "data_inv (dv_buffer srv) hs" "tot = word_of_nat (length (concat hs))"
      "dv_sample_count srv = tot div word_of_nat len" "\<forall>data\<in>set hs. length data \<le> DATA_BLOCK_SIZE"
    for at_eof running s1 tot ts srv s hs
  proof -
    have "log s1 = log s" using assms(1) that(1) unfolding driver_laws_def by (metis snd_conv)
    moreover have "capture_blocks env dev hdr tw lw len tot at_eof ts srv s = Some (srv, s1)"
      using that(1,2) by (subst capture_blocks.simps) auto
    ultimately show ?thesis using that(3-6) by (intro exI [of _ "[]"] exI [of _ srv] exI [of _ s1]) (simp add: same_capture_def)
  qed
  show ?thesis
    using assms(2-5)
  proof (induction "todo s" arbitrary: at_eof tot ts srv s hs rule: less_induct)
    case less
    obtain running s1 where 1: "te_running env s = (running, s1)" by fastforce
    have k1: "log s1 = log s" "todo s1 \<le> todo s" using assms(1) 1 unfolding driver_laws_def by (metis snd_conv)+
    show ?case
    proof (cases "running \<and> \<not> at_eof")
      case False
      then show ?thesis by (intro stop [OF 1 _ less.prems]) simp
    next
      case True
      from read_write_block_reads [OF assms(1), of hdr tw lw ts srv s1] obtain data eof ts1 srv1 s2 where
        r: "read_write_block env dev hdr tw lw ts srv s1 = Some (data, eof, ts1, srv1, s2)" "log s2 = log s1 @ data" "length data \<le> DATA_BLOCK_SIZE"
          "eof \<or> todo s2 < todo s1" "same_capture srv srv1" "dv_buffer srv1 = dv_buffer srv" by blast
      let ?b = "release_write_block (fill_block (te_others env s2 (dv_buffer srv1)) data) (length data)"
      let ?tot = "tot + word_of_nat (length data)"
      let ?srv = "srv1\<lparr>dv_buffer := ?b, dv_sample_count := ?tot div word_of_nat len\<rparr>"
      have step: "capture_blocks env dev hdr tw lw len tot at_eof ts srv s = capture_blocks env dev hdr tw lw len ?tot eof ts1 ?srv s2"
        using True 1 r(1) by (subst capture_blocks.simps) (simp add: Let_def)
      have inv: "data_inv (dv_buffer ?srv) (hs @ [data])"
        using fill_release_data [OF same_data_inv [OF driver_others [OF assms(1)] less.prems(1)], of s2] r(6) by simp
      have sum: "?tot = word_of_nat (length (concat (hs @ [data])))" using less.prems(2) by simp
      have all: "\<forall>d\<in>set (hs @ [data]). length d \<le> DATA_BLOCK_SIZE" using less.prems(4) r(3) by auto
      have cap: "same_capture srv ?srv" using r(5) by (simp add: same_capture_def)
      have "\<exists>new srv' s'. capture_blocks env dev hdr tw lw len ?tot eof ts1 ?srv s2 = Some (srv', s') \<and>
          log s' = log s2 @ concat new \<and> data_inv (dv_buffer srv') ((hs @ [data]) @ new) \<and>
          dv_sample_count srv' = word_of_nat (length (concat ((hs @ [data]) @ new))) div word_of_nat len \<and>
          (\<forall>d\<in>set ((hs @ [data]) @ new). length d \<le> DATA_BLOCK_SIZE) \<and> same_capture ?srv srv'"
      proof (cases eof)
        case True
        obtain running2 s3 where "te_running env s2 = (running2, s3)" by fastforce
        from stop [OF this _ inv sum _ all] True show ?thesis by simp
      next
        case False
        with r(4) k1(2) have "todo s2 < todo s" by simp
        from less.hyps [OF this inv sum _ all] show ?thesis by simp
      qed
      then obtain new srv' s' where n: "capture_blocks env dev hdr tw lw len ?tot eof ts1 ?srv s2 = Some (srv', s')"
        "log s' = log s2 @ concat new" "data_inv (dv_buffer srv') (hs @ data # new)"
        "dv_sample_count srv' = word_of_nat (length (concat (hs @ data # new))) div word_of_nat len"
        "\<forall>d\<in>set (hs @ data # new). length d \<le> DATA_BLOCK_SIZE" "same_capture ?srv srv'" by auto
      with step r(2) k1(1) same_capture_trans [OF cap n(6)] show ?thesis
        by (intro exI [of _ "data # new"] exI [of _ srv'] exI [of _ s']) simp
    qed
  qed
qed

text \<open>
  C8: an experiment is captured completely: whatever the driver delivers, in pieces of any size and with any number of
  time-outs, and whatever the connections do to the buffer meanwhile, the capture ends when the driver reports the end,
  the blocks in the buffer are what the driver delivered, in order and with nothing lost or added, none is larger than a block, and
  the reported number of samples is the number of whole samples in it.\<close>

theorem capture_experiment_records:
  assumes "driver_laws dev env log todo" "get_raw_sample_length (dv_capture srv) = Some len"
    and "0 < block_count (dv_buffer srv)" "length (blocks (dv_buffer srv)) = block_count (dv_buffer srv)"
  shows "\<exists>hs srv' s'. capture_experiment env dev hdr tw lw srv s = Some (srv', s') \<and>
    log s' = log s @ concat hs \<and> data_inv (dv_buffer srv') hs \<and>
    dv_sample_count srv' = word_of_nat (length (concat hs)) div word_of_nat len \<and>
    list_all (\<lambda>data. length data \<le> DATA_BLOCK_SIZE) hs \<and> dv_capture srv' = dv_capture srv"
proof -
  let ?b = "start_write (te_others env s (dv_buffer srv))"
  let ?srv = "srv\<lparr>dv_buffer := ?b, dv_sample_count := 0, dv_completion_code := 0\<rparr>"
  have "same_data (dv_buffer srv) (te_others env s (dv_buffer srv))" by (rule driver_others [OF assms(1)])
  with assms(3,4) have "data_inv (dv_buffer ?srv) []" using start_write_data [of "te_others env s (dv_buffer srv)"] by (simp add: same_data_def)
  from capture_blocks_records [OF assms(1) this, of 0 len hdr tw lw False False s] obtain new srv1 s1 where
    1: "capture_blocks env dev hdr tw lw len 0 False False ?srv s = Some (srv1, s1)" "log s1 = log s @ concat new"
      "data_inv (dv_buffer srv1) new" "dv_sample_count srv1 = word_of_nat (length (concat new)) div word_of_nat len"
      "\<forall>data\<in>set new. length data \<le> DATA_BLOCK_SIZE" "same_capture ?srv srv1" by auto
  obtain completion s2 where 2: "hw_read_streamed_completion dev s1 = (completion, s2)" by fastforce
  have "s2 = snd (stream_completion dev s1)" using 2 by (auto simp: hw_read_streamed_completion_def split: prod.splits sum.splits)
  then have "log s2 = log s1" using assms(1) by (simp add: driver_laws_def)
  moreover have "data_inv (end_write (te_others env s2 (dv_buffer srv1))) new"
    using same_data_inv [OF readers_same_data(4)] same_data_inv [OF driver_others [OF assms(1)] 1(3)] by blast
  ultimately show ?thesis using 1 2 assms(2)
    by (intro exI [of _ new] exI [of _ "srv1\<lparr>dv_completion_code := completion, dv_buffer := end_write (te_others env s2 (dv_buffer srv1))\<rparr>"]
        exI [of _ s2]) (simp add: capture_experiment_def same_capture_def list_all_iff)
qed

text \<open>A driver with two pieces of data, the second after a time-out, and connections that come and go.\<close>

definition example_driver :: "(u8 list option list \<times> u8 list) device" where
  "example_driver = (plain_device (\<lambda>_ _ s. s) (\<lambda>_ s. (0, s)))
     \<lparr>stream_read := (\<lambda>n (pieces, got). case pieces of
          [] \<Rightarrow> (Inr [], [], got)
        | None # pieces \<Rightarrow> (Inl EAGAIN, pieces, got)
        | Some data # pieces \<Rightarrow> if length data \<le> n then (Inr data, pieces, got @ data) else (Inl OTHER_ERRNO, pieces, got))\<rparr>"

definition example_threads :: "'s thread_env" where
  "example_threads = \<lparr>te_running = (\<lambda>s. (True, s)), te_others = (\<lambda>_ b. snd (create_reader b))\<rparr>"

lemma example_driver_laws: "driver_laws example_driver example_threads snd (length \<circ> fst)"
  by (auto simp: driver_laws_def example_driver_def example_threads_def plain_device_def readers_same_data split: list.splits option.splits)

definition example_server :: "int data_server" where
  "example_server =
     \<lparr>dv_enabled = True, dv_buffer = create_buffer 32 4 (replicate 4 []) [], dv_fields = sample_captured,
      dv_capture = idle_capture\<lparr>dc_raw_sample_words := 1\<rparr>, dv_arm_ts = \<lparr>tv_sec = 0, tv_nsec = 0\<rparr>, dv_start_ts = \<lparr>tv_sec = 0, tv_nsec = 0\<rparr>,
      dv_hw_offset_valid = False, dv_hw_offset = 0, dv_completion_code = 0, dv_sample_count = 0\<rparr>"

theorem capture_experiment_records_witness:
  "\<exists>hs srv' s'. capture_experiment example_threads example_driver sample_header 64 64 example_server
      ([Some [1, 2, 3], None, Some [4, 5]], []) = Some (srv', s') \<and> snd s' = concat hs \<and> data_inv (dv_buffer srv') hs"
proof -
  have "get_raw_sample_length (dv_capture example_server) = Some 4" "0 < block_count (dv_buffer example_server)"
    "length (blocks (dv_buffer example_server)) = block_count (dv_buffer example_server)"
    by (simp_all add: example_server_def get_raw_sample_length_def create_buffer_def)
  from capture_experiment_records [OF example_driver_laws this, of sample_header 64 64 "([Some [1, 2, 3], None, Some [4, 5]], [])"]
  show ?thesis by auto
qed

section \<open>Arming\<close>

lemma prepare_data_capture_cases:
  assumes "wf_fields flds" "length (sample_layout flds) \<le> MAX_CAPTURE_COUNT" "length stack = MAX_CAPTURE_COUNT"
    "length (dc_scaling old) = MAX_CAPTURE_COUNT" "length (dc_std_dev_mean old) = MAX_CAPTURE_COUNT"
  shows "\<exists>r c s'. prepare_data_capture dev hdr flds stack old s = Some (r, c, s') \<and> captures flds old c \<and>
    is_ok r = (0 < length (sample_layout flds) \<and> length (sample_layout flds) < MAX_PCAP_WRITE_COUNT)"
proof -
  have "length (scaled_fields flds) \<le> MAX_CAPTURE_COUNT" using length_scaled_fields(1) [OF assms(1)] assms(2) by simp
  from gather_data_capture_layout [OF assms(1,2) this assms(3-5)] obtain c arr where
    "gather_data_capture flds old stack = Some (c, length (sample_layout flds), arr)" "captures flds old c"
    "take (length (sample_layout flds)) arr = sample_layout flds" by blast
  then show ?thesis by (auto simp: prepare_data_capture_def hw_write_capture_set_def)
qed

text \<open>
  C9: arming succeeds exactly when there is a field for the number of samples, no capture is in progress, the buffer is
  idle and no client is still taking data, and what has been selected is neither nothing nor too much for the hardware; the
  capture is then enabled with a layout that fits the selected fields.  Otherwise it fails with an error and no capture is
  enabled.  This holds in every state that the configuration and the clients can reach, as long as the selection fits the array
  it is collected in.\<close>

theorem arm_capture_decides:
  assumes "configured cast fp fs outs" "length stack = MAX_CAPTURE_COUNT" "length (dc_scaling (dv_capture srv)) = MAX_CAPTURE_COUNT"
    and "length (dc_std_dev_mean (dv_capture srv)) = MAX_CAPTURE_COUNT" "clock s = (Inr ts, s0)"
    and "\<forall>flds s1. prepare_captured_fields ops dev hdr null_text outs s0 = Some (flds, s1) \<longrightarrow> length (sample_layout flds) \<le> MAX_CAPTURE_COUNT"
  shows "\<exists>r srv' s'. arm_capture ops dev hdr null_text stack clock outs srv s = Some (r, srv', s') \<and>
    dv_buffer srv' = dv_buffer srv \<and> dv_enabled srv' = (dv_enabled srv \<or> is_ok r) \<and>
    is_ok r = (check_pcap_valid outs \<and> \<not> dv_enabled srv \<and> state (dv_buffer srv) = STATE_IDLE \<and> active_count (dv_buffer srv) = 0 \<and>
      (\<exists>flds s1. prepare_captured_fields ops dev hdr null_text outs s0 = Some (flds, s1) \<and>
         0 < length (sample_layout flds) \<and> length (sample_layout flds) < MAX_PCAP_WRITE_COUNT)) \<and>
    (is_ok r \<longrightarrow> wf_fields (dv_fields srv') \<and> well_grouped (dv_fields srv') \<and> captures (dv_fields srv') (dv_capture srv) (dv_capture srv'))"
proof (cases "check_pcap_valid outs \<and> \<not> dv_enabled srv \<and> state (dv_buffer srv) = STATE_IDLE \<and> active_count (dv_buffer srv) = 0")
  case False
  then show ?thesis using assms(5) by (auto simp: arm_capture_def read_buffer_status_def)
next
  case True
  from configured_prepared [OF assms(1) conjunct1 [OF True], of ops dev hdr null_text s0] obtain flds s1 where
    f: "prepare_captured_fields ops dev hdr null_text outs s0 = Some (flds, s1)" "wf_fields flds" "well_grouped flds" by blast
  from prepare_data_capture_cases [OF f(2) assms(6) [rule_format, OF f(1)] assms(2-4), of dev hdr s1] obtain r c s2 where
    p: "prepare_data_capture dev hdr flds stack (dv_capture srv) s1 = Some (r, c, s2)" "captures flds (dv_capture srv) c"
      "is_ok r = (0 < length (sample_layout flds) \<and> length (sample_layout flds) < MAX_PCAP_WRITE_COUNT)" by blast
  let ?srv = "srv\<lparr>dv_arm_ts := ts, dv_fields := flds, dv_capture := c\<rparr>"
  have "arm_capture ops dev hdr null_text stack clock outs srv s =
      Some (if is_ok r then (Inr (), ?srv\<lparr>dv_enabled := True\<rparr>, hw_write_arm dev hdr True (hw_write_arm_streamed_data dev s2)) else (r, ?srv, s2))"
    using True assms(5) f(1) p(1) by (cases r) (simp_all add: arm_capture_def start_data_capture_def read_buffer_status_def Let_def)
  with True f p(2,3) show ?thesis by (cases "is_ok r") simp_all
qed

lemma example_layout:
  assumes "configured ucast sample_fp {(single_output, sample_field)} (example_outputs 32 (en :: 32 enumeration))"
  shows "\<exists>flds s1. prepare_captured_fields int_ops memory_device sample_header ''(null)'' (example_outputs 32 en) s = Some (flds, s1) \<and>
    0 < length (sample_layout flds) \<and> length (sample_layout flds) \<le> 3"
proof -
  have "check_pcap_valid (example_outputs 32 en)" by (simp add: check_pcap_valid_def example_outputs_def)
  from configured_prepared [OF assms this, of int_ops memory_device sample_header "''(null)''" s] obtain flds s1 where
    r: "prepare_captured_fields int_ops memory_device sample_header ''(null)'' (example_outputs 32 en) s = Some (flds, s1)"
      "\<And>mode. map info_key (group_of flds mode) =
         filter (\<lambda>key. key_mode key = mode) (concat (map (selection (example_outputs 32 en)) (ou_fields (example_outputs 32 en))))"
      "wf_fields flds" by blast
  have n: "length (group_of flds mode) = (if mode = CAPTURE_MODE_AVERAGE then 1 else 0)" for mode
    using arg_cong [OF r(2) [of mode], of length] unfolding example_keys by (auto simp: key_mode_def)
  have wf: "wf_info (cf_sample_count flds)" "list_all wf_info (cf_averaged flds)"
    using r(3) by (simp_all add: wf_fields_def scaled_fields_def)
  have "sample_layout flds = hidden_words flds @ words_of 2 (cf_averaged flds)"
    using n [of CAPTURE_MODE_UNSCALED] n [of CAPTURE_MODE_SCALED32] n [of CAPTURE_MODE_SCALED64] n [of CAPTURE_MODE_STDDEV]
    by (simp add: group_of_def sample_layout_def words_of_def)
  moreover have "length (words_of 2 (cf_averaged flds)) = 2"
    using n [of CAPTURE_MODE_AVERAGE] length_words_of [OF wf(2), of 2] by (simp add: group_of_def)
  moreover have "length (hidden_words flds) \<le> 1" using length_index_words [OF wf(1), of 1] by (simp add: hidden_words_def)
  ultimately show ?thesis using r(1) by (intro exI [of _ flds] exI [of _ s1]) simp
qed

theorem arm_capture_decides_witness:
  "\<exists>(en :: 32 enumeration) srv' s'.
    arm_capture int_ops memory_device sample_header ''(null)'' (replicate MAX_CAPTURE_COUNT 0) (\<lambda>s. (Inr \<lparr>tv_sec = 1, tv_nsec = 2\<rparr>, s))
      (example_outputs 32 en) (example_server\<lparr>dv_enabled := False\<rparr>) (\<lambda>_. 0) = Some (Inr (), srv', s') \<and> dv_enabled srv'"
proof -
  let ?srv = "example_server\<lparr>dv_enabled := False\<rparr>" and ?clock = "\<lambda>s :: u32 \<Rightarrow> u32. (Inr \<lparr>tv_sec = 1, tv_nsec = 2\<rparr>, s)"
  obtain en :: "32 enumeration" where en: "configured ucast sample_fp {(single_output, sample_field)} (example_outputs 32 en)"
    by (rule example_configured)
  from example_layout [OF en, of "\<lambda>_. 0"] obtain flds s1 where
    f: "prepare_captured_fields int_ops memory_device sample_header ''(null)'' (example_outputs 32 en) (\<lambda>_. 0) = Some (flds, s1)"
      "0 < length (sample_layout flds)" "length (sample_layout flds) \<le> 3" by blast
  have valid: "check_pcap_valid (example_outputs 32 en)" by (simp add: check_pcap_valid_def example_outputs_def)
  have idle: "state (dv_buffer ?srv) = STATE_IDLE" "active_count (dv_buffer ?srv) = 0" "length (dc_scaling (dv_capture ?srv)) = MAX_CAPTURE_COUNT"
    "length (dc_std_dev_mean (dv_capture ?srv)) = MAX_CAPTURE_COUNT"
    by (simp_all add: example_server_def create_buffer_def idle_capture_arrays)
  have fits: "\<forall>flds' s2. prepare_captured_fields int_ops memory_device sample_header ''(null)'' (example_outputs 32 en) (\<lambda>_. 0) = Some (flds', s2) \<longrightarrow>
      length (sample_layout flds') \<le> MAX_CAPTURE_COUNT"
    using f by (simp add: MAX_CAPTURE_COUNT_def MAX_POS_OUT_CAPTURE_def POS_BUS_COUNT_def)
  note decides = arm_capture_decides [OF en _ idle(3,4), where clock = ?clock and ops = int_ops and dev = memory_device
      and hdr = sample_header and null_text = "''(null)''" and s = "\<lambda>_. 0" and stack = "replicate MAX_CAPTURE_COUNT 0", OF length_replicate refl fits]
  from decides obtain r srv' s' where
    a: "arm_capture int_ops memory_device sample_header ''(null)'' (replicate MAX_CAPTURE_COUNT 0) ?clock (example_outputs 32 en) ?srv (\<lambda>_. 0) = Some (r, srv', s')"
      "dv_enabled srv' = (dv_enabled ?srv \<or> is_ok r)" "is_ok r"
    using f idle(1,2) valid by (auto simp: MAX_PCAP_WRITE_COUNT_def)
  then show ?thesis by (intro exI [of _ en] exI [of _ srv'] exI [of _ s']) (cases r; simp)
qed

end
