(* ===== verification/Panda_Metadata.thy ===== *)
theory Panda_Metadata
  imports Panda_Config "HOL-Library.Monad_Syntax"
begin

text \<open>
  \<^verbatim>\<open>metadata.c\<close>: strings that clients attach to the configuration.  A value is kept as the memory behind its
  pointer, with the NULs in it; \<open>None\<close> is the null pointer.
\<close>

datatype metadata_type = METADATA_STRING | METADATA_MULTILINE | METADATA_CONSTANT

record metadata_value =
  mv_type :: metadata_type
  mv_value :: "string option"
  mv_update_index :: u64

text \<open>The context of a table write: the value it is for, what has been written to \<^verbatim>\<open>text\<close>, and the room there.\<close>

record multiline_writer =
  mw_key :: string
  mw_text :: string
  mw_max_length :: nat

text \<open>
  \<^verbatim>\<open>metadata_map\<close> in the order in which it is walked (here that of insertion), the global change index, and the contexts
  of table writes by the number of their allocation.  A context that has been released is not used again.
\<close>

record metadata =
  mt_map :: "(string \<times> metadata_value) list"
  mt_change_index :: u64
  mt_writers :: "nat \<Rightarrow> multiline_writer"
  mt_next :: nat

definition MIN_LENGTH :: nat where "MIN_LENGTH = 1024"

definition strdup :: "string \<Rightarrow> string" where
  "strdup s = cstring s @ [nul]"

definition set_value :: "string \<Rightarrow> (metadata_value \<Rightarrow> metadata_value) \<Rightarrow> (string \<times> metadata_value) list \<Rightarrow> (string \<times> metadata_value) list" where
  "set_value key f m = map (\<lambda>(k, v). if k = key then (k, f v) else (k, v)) m"

section \<open>Keys\<close>

definition initialise_metadata :: "u64 \<Rightarrow> (nat \<Rightarrow> multiline_writer) \<Rightarrow> metadata" where
  "initialise_metadata change_index memory = \<lparr>mt_map = [], mt_change_index = change_index, mt_writers = memory, mt_next = 0\<rparr>"

definition lookup_type :: "string \<Rightarrow> metadata_type result" where
  "lookup_type type_name =
     (if type_name = ''string'' then Inr METADATA_STRING
      else if type_name = ''multiline'' then Inr METADATA_MULTILINE
      else if type_name = ''constant'' then Inr METADATA_CONSTANT
      else fail ''Invalid metadata type'')"

definition parse_metadata_constant :: "metadata_value \<Rightarrow> metadata_value parser" where
  "parse_metadata_constant v =
     p_then parse_whitespace (\<lambda>_. p_then (parse_char (CHR ''='')) (\<lambda>_. p_then parse_utf8_string (\<lambda>string.
       p_return (v\<lparr>mv_value := Some (strdup string), mv_update_index := 0\<rparr>))))"

text \<open>A repeated key is an error, but the new value takes the place of the old one.\<close>

definition add_metadata_key :: "string \<Rightarrow> string \<Rightarrow> metadata \<Rightarrow> (unit result \<times> string) \<times> metadata" where
  "add_metadata_key key line st =
     (case p_then (parse_name MAX_NAME_LENGTH) (\<lambda>type_name. p_then (p_lift (lookup_type type_name)) (\<lambda>type.
             let v = \<lparr>mv_type = type, mv_value = None, mv_update_index = 1\<rparr> in
             p_if (type = METADATA_CONSTANT) (parse_metadata_constant v) v)) line of
        (Inl e, line) \<Rightarrow> ((Inl e, line), st)
      | (Inr v, line) \<Rightarrow>
          (case map_of (mt_map st) key of
             None \<Rightarrow> ((Inr (), line), st\<lparr>mt_map := mt_map st @ [(key, v)]\<rparr>)
           | Some _ \<Rightarrow> ((fail (''Metadata key '' @ key @ '' repeated''), line), st\<lparr>mt_map := set_value key (\<lambda>_. v) (mt_map st)\<rparr>)))"

section \<open>Values\<close>

definition get_metadata_keys :: "metadata \<Rightarrow> unit result \<times> string list \<times> get_response" where
  "get_metadata_keys st = (Inr (), map (\<lambda>(key, _). take (MAX_RESULT_LENGTH - 1) key) (mt_map st), RESPONSE_MANY)"

text \<open>The strings up to the empty one; no value when the memory ends before it.\<close>

function multiline_strings :: "string \<Rightarrow> string list option" where
  "multiline_strings mem =
     (if mem = [] then None
      else if hd mem = nul then Some []
      else if nul \<in> set mem then map_option ((#) (cstring mem)) (multiline_strings (drop (length (cstring mem) + 1) mem))
      else None)"
  by auto

termination
  by (relation "measure length") (auto simp: length_greater_0_conv)

declare multiline_strings.simps [simp del]

definition one_result :: "string \<Rightarrow> unit result \<times> string list \<times> get_response" where
  "one_result s =
     (case format_string MAX_RESULT_LENGTH s of Inl e \<Rightarrow> (Inl e, [], RESPONSE_ERROR) | Inr s \<Rightarrow> (Inr (), [], RESPONSE_ONE s))"

definition format_value :: "metadata_value \<Rightarrow> (unit result \<times> string list \<times> get_response) option" where
  "format_value v =
     (case mv_type v of
        METADATA_MULTILINE \<Rightarrow>
          map_option (\<lambda>strings. (Inr (), strings, RESPONSE_MANY)) (case mv_value v of None \<Rightarrow> Some [] | Some mem \<Rightarrow> multiline_strings mem)
      | _ \<Rightarrow>
          (case mv_value v of
             None \<Rightarrow> Some (one_result [])
           | Some mem \<Rightarrow> if nul \<in> set mem then Some (one_result (cstring mem)) else None))"

definition get_metadata_value :: "string \<Rightarrow> metadata \<Rightarrow> (unit result \<times> string list \<times> get_response) option" where
  "get_metadata_value key st =
     (case map_of (mt_map st) key of
        None \<Rightarrow> Some (fail (''Metadata key '' @ key @ '' not found''), [], RESPONSE_ERROR)
      | Some v \<Rightarrow> format_value v)"

definition put_metadata_value :: "string \<Rightarrow> string \<Rightarrow> metadata \<Rightarrow> unit result \<times> metadata" where
  "put_metadata_value key string st =
     (case map_of (mt_map st) key of
        None \<Rightarrow> (fail (''Metadata key '' @ key @ '' not found''), st)
      | Some v \<Rightarrow>
          if mv_type v \<noteq> METADATA_STRING then (fail ''Cannot write to this field'', st)
          else
            (case get_change_index (mt_change_index st) of (index, global_change_index) \<Rightarrow>
               (Inr (), st\<lparr>mt_map := set_value key (\<lambda>v. v\<lparr>mv_value := Some (strdup string), mv_update_index := index\<rparr>) (mt_map st),
                  mt_change_index := global_change_index\<rparr>)))"

section \<open>Writing of several lines\<close>

definition append_string :: "multiline_writer \<Rightarrow> string \<Rightarrow> multiline_writer option" where
  "append_string writer string =
     (let line_length = length (cstring string) + 1;
          max_length = (if length (mw_text writer) + line_length > mw_max_length writer then max MIN_LENGTH (2 * mw_max_length writer)
            else mw_max_length writer) in
      if length (mw_text writer) + line_length \<le> max_length
      then Some (writer\<lparr>mw_text := mw_text writer @ strdup string, mw_max_length := max_length\<rparr>) else None)"

definition write_multiline_put :: "nat \<Rightarrow> string \<Rightarrow> metadata \<Rightarrow> (unit result \<times> metadata) option" where
  "write_multiline_put handle line st =
     (case fst (parse_utf8_string line) of
        Inl e \<Rightarrow> Some (Inl e, st)
      | Inr string \<Rightarrow>
          map_option (\<lambda>writer. (Inr (), st\<lparr>mt_writers := (mt_writers st)(handle := writer)\<rparr>)) (append_string (mt_writers st handle) string))"

definition close_multiline_put :: "nat \<Rightarrow> bool \<Rightarrow> metadata \<Rightarrow> (unit result \<times> metadata) option" where
  "close_multiline_put handle write_ok st =
     (if write_ok then
        map_option (\<lambda>writer.
          case get_change_index (mt_change_index st) of (index, global_change_index) \<Rightarrow>
            (Inr (),
             st\<lparr>mt_map := set_value (mw_key writer) (\<lambda>v. v\<lparr>mv_value := Some (mw_text writer), mv_update_index := index\<rparr>) (mt_map st),
                mt_change_index := global_change_index\<rparr>))
          (append_string (mt_writers st handle) [])
      else Some (Inr (), st))"

definition put_metadata_table :: "string \<Rightarrow> metadata \<Rightarrow> metadata put_table_writer result \<times> metadata" where
  "put_metadata_table key st =
     (case map_of (mt_map st) key of
        None \<Rightarrow> (fail (''Metadata key '' @ key @ '' not found''), st)
      | Some v \<Rightarrow>
          if mv_type v \<noteq> METADATA_MULTILINE then (fail ''Not a multi-line field'', st)
          else
            (Inr \<lparr>pw_write = write_multiline_put (mt_next st), pw_close = close_multiline_put (mt_next st)\<rparr>,
             st\<lparr>mt_writers := (mt_writers st)(mt_next st := \<lparr>mw_key = key, mw_text = [], mw_max_length = 0\<rparr>), mt_next := mt_next st + 1\<rparr>))"

section \<open>Changes\<close>

definition check_metadata_change_set :: "u64 \<Rightarrow> metadata \<Rightarrow> bool" where
  "check_metadata_change_set report_index st = list_ex (\<lambda>(_, v). mv_update_index v > report_index) (mt_map st)"

definition report_metadata :: "bool \<Rightarrow> metadata \<Rightarrow> string \<Rightarrow> metadata_value \<Rightarrow> string list option" where
  "report_metadata print_table st key v =
     (case mv_type v of
        METADATA_MULTILINE \<Rightarrow>
          map_option (\<lambda>lines. take (MAX_RESULT_LENGTH - 1) (''*METADATA.'' @ key @ ''<'') # lines)
            (if print_table then map_option (\<lambda>(_, many, _). many @ [[]]) (get_metadata_value key st) else Some [])
      | METADATA_STRING \<Rightarrow>
          map_option (\<lambda>s. [take (MAX_RESULT_LENGTH - 1) (''*METADATA.'' @ key @ ''='' @ s)])
            (case mv_value v of None \<Rightarrow> Some [] | Some mem \<Rightarrow> if nul \<in> set mem then Some (cstring mem) else None)
      | METADATA_CONSTANT \<Rightarrow> Some [])"

fun report_all :: "bool \<Rightarrow> u64 \<Rightarrow> metadata \<Rightarrow> (string \<times> metadata_value) list \<Rightarrow> string list option" where
  "report_all print_table report_index st [] = Some []"
| "report_all print_table report_index st ((key, v) # m) =
     do { lines \<leftarrow> (if mv_update_index v > report_index then report_metadata print_table st key v else Some []);
          more \<leftarrow> report_all print_table report_index st m;
          Some (lines @ more) }"

definition generate_metadata_change_set :: "u64 \<Rightarrow> bool \<Rightarrow> metadata \<Rightarrow> string list option" where
  "generate_metadata_change_set report_index print_table st = report_all print_table report_index st (mt_map st)"

section \<open>The memory of a value\<close>

text \<open>Lines one after the other, each with its NUL.\<close>

definition lines_memory :: "string list \<Rightarrow> string" where
  "lines_memory ls = concat (map strdup ls)"

definition plain_line :: "string \<Rightarrow> bool" where
  "plain_line l = (l \<noteq> [] \<and> nul \<notin> set l)"

lemma cstring_plain [simp]: "nul \<notin> set s \<Longrightarrow> cstring s = s" "cstring (cstring s) = cstring s" "nul \<notin> set (cstring s)"
  by (auto simp: cstring_def takeWhile_eq_all_conv dest: set_takeWhileD)

lemma cstring_strdup [simp]: "cstring (strdup s @ rest) = cstring s" "cstring (strdup s) = cstring s"
  unfolding strdup_def cstring_def by (auto simp: takeWhile_append dest: set_takeWhileD)

lemma length_cstring: "length (cstring s) \<le> length s"
  by (simp add: cstring_def length_takeWhile_le)

lemma nul_strdup [simp]: "nul \<in> set (strdup s)"
  by (simp add: strdup_def)

lemma multiline_strings_lines: "list_all plain_line ls \<Longrightarrow> multiline_strings (lines_memory ls @ [nul]) = Some ls"
proof (induction ls)
  case Nil
  then show ?case by (subst multiline_strings.simps) (simp add: lines_memory_def)
next
  case (Cons l ls)
  let ?rest = "lines_memory ls @ [nul]"
  have l: "l \<noteq> []" "nul \<notin> set l" using Cons.prems by (simp_all add: plain_line_def)
  have mem: "lines_memory (l # ls) @ [nul] = strdup l @ ?rest" by (simp add: lines_memory_def)
  have "hd (strdup l @ ?rest) \<noteq> nul" using l by (cases l) (auto simp: strdup_def)
  moreover have "drop (length (cstring l) + 1) (strdup l @ ?rest) = ?rest" by (simp add: strdup_def)
  ultimately show ?case unfolding mem using Cons l by (subst multiline_strings.simps) simp
qed

definition value_ok :: "metadata_value \<Rightarrow> bool" where
  "value_ok v =
     ((mv_type v = METADATA_CONSTANT \<longrightarrow> mv_update_index v = 0) \<and>
      (case mv_value v of
         None \<Rightarrow> True
       | Some mem \<Rightarrow> if mv_type v = METADATA_MULTILINE then (\<exists>ls. list_all plain_line ls \<and> mem = lines_memory ls @ [nul]) else nul \<in> set mem))"

definition writer_ok :: "multiline_writer \<Rightarrow> bool" where
  "writer_ok w =
     ((\<exists>ls. list_all plain_line ls \<and> mw_text w = lines_memory ls) \<and> length (mw_text w) \<le> mw_max_length w \<and>
      (mw_max_length w = 0 \<or> MIN_LENGTH \<le> mw_max_length w))"

text \<open>A context in use belongs to a value of several lines.\<close>

definition metadata_ok :: "metadata \<Rightarrow> bool" where
  "metadata_ok st =
     ((\<forall>k v. map_of (mt_map st) k = Some v \<longrightarrow>
         value_ok v \<and> (\<forall>a. mw_key (mt_writers st a) = k \<longrightarrow> mv_type v = METADATA_MULTILINE)) \<and>
      (\<forall>a. writer_ok (mt_writers st a)))"

lemma value_ok_format: "value_ok v \<Longrightarrow> \<exists>r. format_value v = Some r \<and> (is_ok (fst r) \<longrightarrow> snd (snd r) \<noteq> RESPONSE_ERROR)"
  by (auto simp: value_ok_def format_value_def one_result_def multiline_strings_lines split: metadata_type.splits option.splits if_splits sum.splits)

lemma metadata_ok_value: "metadata_ok st \<Longrightarrow> map_of (mt_map st) key = Some v \<Longrightarrow> value_ok v"
  by (simp add: metadata_ok_def)

lemma metadata_ok_writer:
  "metadata_ok st \<Longrightarrow> map_of (mt_map st) (mw_key (mt_writers st a)) = Some v \<Longrightarrow> mv_type v = METADATA_MULTILINE"
  unfolding metadata_ok_def by blast

lemma get_metadata_value_total:
  "metadata_ok st \<Longrightarrow> \<exists>r. get_metadata_value key st = Some r \<and> (is_ok (fst r) \<longrightarrow> snd (snd r) \<noteq> RESPONSE_ERROR)"
  using value_ok_format [OF metadata_ok_value] by (cases "map_of (mt_map st) key") (auto simp: get_metadata_value_def)

section \<open>Appending\<close>

text \<open>A line that the connection accepts always fits after one reallocation.\<close>

lemma append_string_fits:
  assumes "writer_ok w" "length (cstring s) < MIN_LENGTH"
  shows "\<exists>n. append_string w s = Some (w\<lparr>mw_text := mw_text w @ strdup s, mw_max_length := n\<rparr>) \<and>
    length (mw_text w @ strdup s) \<le> n \<and> MIN_LENGTH \<le> n"
proof -
  let ?n = "if length (mw_text w) + (length (cstring s) + 1) > mw_max_length w then max MIN_LENGTH (2 * mw_max_length w) else mw_max_length w"
  have "length (mw_text w) \<le> mw_max_length w" "mw_max_length w = 0 \<or> MIN_LENGTH \<le> mw_max_length w"
    using assms(1) by (simp_all add: writer_ok_def)
  then have "length (mw_text w) + (length (cstring s) + 1) \<le> ?n" "MIN_LENGTH \<le> ?n" using assms(2) by (auto simp: max_def)
  then show ?thesis by (intro exI [of _ ?n]) (simp add: append_string_def Let_def strdup_def)
qed

lemma append_line_ok:
  assumes "writer_ok w" "table_line l"
  shows "\<exists>n. append_string w l = Some (w\<lparr>mw_text := mw_text w @ strdup l, mw_max_length := n\<rparr>) \<and>
    writer_ok (w\<lparr>mw_text := mw_text w @ strdup l, mw_max_length := n\<rparr>)"
proof -
  have l: "length (cstring l) < MIN_LENGTH" "plain_line l"
    using assms(2) length_cstring [of l] by (auto simp: table_line_def MIN_LENGTH_def MAX_LINE_LENGTH_def plain_line_def)
  from assms(1) obtain ls where "list_all plain_line ls" "mw_text w = lines_memory ls" by (auto simp: writer_ok_def)
  with l(2) have "list_all plain_line (ls @ [l]) \<and> mw_text w @ strdup l = lines_memory (ls @ [l])" by (simp add: lines_memory_def)
  with append_string_fits [OF assms(1) l(1)] show ?thesis unfolding writer_ok_def by fastforce
qed

lemma append_end:
  assumes "writer_ok w"
  shows "\<exists>w'. append_string w [] = Some w' \<and> mw_key w' = mw_key w \<and> mw_text w' = mw_text w @ [nul]"
  using append_string_fits [OF assms, of "[]"] by (auto simp: cstring_def MIN_LENGTH_def strdup_def)

section \<open>The operations keep the invariant\<close>

lemma map_of_set_value [simp]: "map_of (set_value key f m) k = (if k = key then map_option f (map_of m k) else map_of m k)"
  by (induction m) (auto simp: set_value_def)

lemma set_value_ok:
  assumes "metadata_ok st" "\<And>v. map_of (mt_map st) key = Some v \<Longrightarrow> value_ok (f v) \<and> mv_type (f v) = mv_type v"
  shows "metadata_ok (st\<lparr>mt_map := set_value key f (mt_map st), mt_change_index := g\<rparr>)"
proof -
  have "writer_ok (mt_writers st a)" for a using assms(1) by (simp add: metadata_ok_def)
  then show ?thesis
    unfolding metadata_ok_def by (auto simp: assms(2) metadata_ok_value [OF assms(1)] dest: metadata_ok_writer [OF assms(1)] split: if_splits)
qed

lemma put_metadata_value_ok: "metadata_ok st \<Longrightarrow> metadata_ok (snd (put_metadata_value key s st))"
  by (auto simp: put_metadata_value_def get_change_index_def value_ok_def intro!: set_value_ok split: option.splits)

lemma put_metadata_table_ok:
  assumes "metadata_ok st"
  shows "metadata_ok (snd (put_metadata_table key st))"
proof -
  have "writer_ok \<lparr>mw_key = key, mw_text = [], mw_max_length = 0\<rparr>"
    by (auto simp: writer_ok_def lines_memory_def intro!: exI [of _ "[]"])
  with assms show ?thesis by (auto simp: metadata_ok_def put_metadata_table_def split: option.splits)
qed

lemma write_multiline_put_ok:
  assumes "metadata_ok st" "table_line l"
  shows "\<exists>e st'. write_multiline_put a l st = Some (e, st') \<and> metadata_ok st' \<and> mt_map st' = mt_map st \<and> mt_next st' = mt_next st"
proof (cases "fst (parse_utf8_string l)")
  case (Inl e)
  with assms(1) show ?thesis by (simp add: write_multiline_put_def)
next
  case (Inr s)
  then have s: "s = l" by (auto simp: parse_utf8_string_def Let_def and_then_eq_Inr)
  have "writer_ok (mt_writers st a)" using assms(1) by (simp add: metadata_ok_def)
  from append_line_ok [OF this assms(2)] obtain n where
    "append_string (mt_writers st a) l = Some ((mt_writers st a)\<lparr>mw_text := mw_text (mt_writers st a) @ strdup l, mw_max_length := n\<rparr>)"
    "writer_ok ((mt_writers st a)\<lparr>mw_text := mw_text (mt_writers st a) @ strdup l, mw_max_length := n\<rparr>)" by blast
  with Inr s assms(1) show ?thesis by (auto simp: write_multiline_put_def metadata_ok_def)
qed

lemma close_multiline_put_ok:
  assumes "metadata_ok st"
  shows "\<exists>e st'. close_multiline_put a ok st = Some (e, st') \<and> metadata_ok st'"
proof (cases ok)
  case True
  have w: "writer_ok (mt_writers st a)" using assms by (simp add: metadata_ok_def)
  from append_end [OF w] obtain w' where w': "append_string (mt_writers st a) [] = Some w'" "mw_key w' = mw_key (mt_writers st a)"
    "mw_text w' = mw_text (mt_writers st a) @ [nul]" by blast
  from w obtain ls where ls: "list_all plain_line ls" "mw_text w' = lines_memory ls @ [nul]" by (auto simp: writer_ok_def w'(3))
  have "mv_type v = METADATA_MULTILINE" if "map_of (mt_map st) (mw_key w') = Some v" for v
    using metadata_ok_writer [OF assms] that by (simp add: w'(2))
  with ls have "metadata_ok (st\<lparr>mt_map := set_value (mw_key w') (\<lambda>v. v\<lparr>mv_value := Some (mw_text w'), mv_update_index := mt_change_index st + 1\<rparr>) (mt_map st),
      mt_change_index := mt_change_index st + 1\<rparr>)"
    by (intro set_value_ok [OF assms]) (auto simp: value_ok_def)
  with True w'(1) show ?thesis by (simp add: close_multiline_put_def get_change_index_def)
qed (use assms in \<open>simp add: close_multiline_put_def\<close>)

lemma add_metadata_key_ok:
  assumes "metadata_ok st" "\<And>a. mw_key (mt_writers st a) \<noteq> key"
  shows "metadata_ok (snd (add_metadata_key key line st))"
proof -
  have new: "value_ok v" if "p_then (parse_name MAX_NAME_LENGTH) (\<lambda>type_name. p_then (p_lift (lookup_type type_name)) (\<lambda>type.
      let v = \<lparr>mv_type = type, mv_value = None, mv_update_index = 1\<rparr> in
      p_if (type = METADATA_CONSTANT) (parse_metadata_constant v) v)) line = (Inr v, rest)" for v rest
    using that
    by (auto simp: p_then_def p_lift_def p_if_def parse_metadata_constant_def value_ok_def Let_def split: prod.splits sum.splits if_splits)
  have "writer_ok (mt_writers st a)" for a using assms(1) by (simp add: metadata_ok_def)
  then show ?thesis
    using assms(2) unfolding add_metadata_key_def metadata_ok_def
    by (auto simp: map_add_Some_iff new metadata_ok_value [OF assms(1)] dest: metadata_ok_writer [OF assms(1)]
        split: prod.splits sum.splits option.splits if_splits)
qed

section \<open>Interleaved clients\<close>

text \<open>
  The calls that connections make, in any order: each runs under the lock of its value.  Lines come from the connection.
\<close>

datatype metadata_call = Put_value string string | Open_table string | Write_line nat string | Close_table nat bool

fun metadata_step :: "metadata_call \<Rightarrow> metadata \<Rightarrow> metadata option" where
  "metadata_step (Put_value key s) st = Some (snd (put_metadata_value key s st))"
| "metadata_step (Open_table key) st = Some (snd (put_metadata_table key st))"
| "metadata_step (Write_line a l) st = map_option snd (write_multiline_put a l st)"
| "metadata_step (Close_table a ok) st = map_option snd (close_multiline_put a ok st)"

fun metadata_run :: "metadata_call list \<Rightarrow> metadata \<Rightarrow> metadata option" where
  "metadata_run [] st = Some st"
| "metadata_run (c # cs) st = Option.bind (metadata_step c st) (metadata_run cs)"

fun call_ok :: "metadata_call \<Rightarrow> bool" where
  "call_ok (Write_line a l) = table_line l"
| "call_ok _ = True"

definition utf8_line :: "string \<Rightarrow> bool" where
  "utf8_line l = is_ok (fst (parse_utf8_string l))"

text \<open>The lines that are accepted for one table.\<close>

fun lines_for :: "nat \<Rightarrow> metadata_call list \<Rightarrow> string list" where
  "lines_for a [] = []"
| "lines_for a (c # cs) =
     (case c of Write_line b l \<Rightarrow> if b = a \<and> utf8_line l then [l] else [] | _ \<Rightarrow> []) @ lines_for a cs"

fun closes_table :: "nat \<Rightarrow> metadata_call \<Rightarrow> bool" where
  "closes_table a (Close_table b ok) = (b = a)"
| "closes_table a _ = False"

lemma metadata_step_ok: "metadata_ok st \<Longrightarrow> call_ok c \<Longrightarrow> \<exists>st'. metadata_step c st = Some st' \<and> metadata_ok st'"
  using write_multiline_put_ok [of st] close_multiline_put_ok [of st]
  by (cases c) (fastforce intro: put_metadata_value_ok put_metadata_table_ok)+

text \<open>A value keeps its type, and a constant its value.\<close>

definition same_kind :: "metadata_value \<Rightarrow> metadata_value \<Rightarrow> bool" where
  "same_kind v v' = (mv_type v' = mv_type v \<and> (mv_type v = METADATA_CONSTANT \<longrightarrow> v' = v))"

lemma metadata_step_kinds:
  assumes "metadata_ok st" "metadata_step c st = Some st'" "map_of (mt_map st) k = Some v"
  shows "\<exists>v'. map_of (mt_map st') k = Some v' \<and> same_kind v v'"
proof (cases c)
  case (Close_table a ok)
  show ?thesis
  proof (cases ok)
    case True
    with Close_table assms(2) obtain w where w: "append_string (mt_writers st a) [] = Some w"
      "mt_map st' = set_value (mw_key w) (\<lambda>v. v\<lparr>mv_value := Some (mw_text w), mv_update_index := mt_change_index st + 1\<rparr>) (mt_map st)"
      by (auto simp: close_multiline_put_def get_change_index_def)
    have "mw_key w = mw_key (mt_writers st a)" using w(1) by (auto simp: append_string_def Let_def split: if_splits)
    with metadata_ok_writer [OF assms(1)] w(2) assms(3) show ?thesis by (auto simp: same_kind_def)
  qed (use Close_table assms in \<open>auto simp: close_multiline_put_def same_kind_def\<close>)
qed (use assms in \<open>auto simp: put_metadata_value_def put_metadata_table_def write_multiline_put_def get_change_index_def same_kind_def
  split: option.splits sum.splits\<close>)

text \<open>The table that is being written is not disturbed by the others.\<close>

lemma metadata_step_table:
  assumes "metadata_ok st" "metadata_step c st = Some st'" "a < mt_next st" "\<not> closes_table a c" "call_ok c"
  shows "mw_key (mt_writers st' a) = mw_key (mt_writers st a)" "a < mt_next st'"
    "mw_text (mt_writers st' a) = mw_text (mt_writers st a) @ lines_memory (lines_for a [c])"
proof -
  have "mw_key (mt_writers st' a) = mw_key (mt_writers st a) \<and> a < mt_next st' \<and>
      mw_text (mt_writers st' a) = mw_text (mt_writers st a) @ lines_memory (lines_for a [c])"
  proof (cases c)
    case (Write_line b l)
    have l: "s = l" if "fst (parse_utf8_string l) = Inr s" for s using that by (auto simp: parse_utf8_string_def Let_def and_then_eq_Inr)
    from Write_line assms(2,3) show ?thesis
      by (auto simp: write_multiline_put_def append_string_def Let_def lines_memory_def utf8_line_def dest: l split: sum.splits if_splits)
  qed (use assms in \<open>auto simp: put_metadata_value_def put_metadata_table_def close_multiline_put_def get_change_index_def lines_memory_def
    split: option.splits if_splits\<close>)
  then show "mw_key (mt_writers st' a) = mw_key (mt_writers st a)" "a < mt_next st'"
    "mw_text (mt_writers st' a) = mw_text (mt_writers st a) @ lines_memory (lines_for a [c])" by simp_all
qed

lemma lines_memory_append [simp]: "lines_memory (xs @ ys) = lines_memory xs @ lines_memory ys"
  by (simp add: lines_memory_def)

lemma metadata_run_ok:
  assumes "metadata_ok st" "list_all call_ok cs" "a < mt_next st" "\<not> list_ex (closes_table a) cs"
  shows "\<exists>st'. metadata_run cs st = Some st' \<and> metadata_ok st' \<and> mw_key (mt_writers st' a) = mw_key (mt_writers st a) \<and>
    mw_text (mt_writers st' a) = mw_text (mt_writers st a) @ lines_memory (lines_for a cs) \<and>
    (\<forall>k v. map_of (mt_map st) k = Some v \<longrightarrow> (\<exists>v'. map_of (mt_map st') k = Some v' \<and> same_kind v v'))"
  using assms
proof (induction cs arbitrary: st)
  case Nil
  then show ?case by (simp add: lines_memory_def same_kind_def)
next
  case (Cons c cs)
  then obtain st1 where 1: "metadata_step c st = Some st1" "metadata_ok st1" using metadata_step_ok [of st c] by auto
  have c: "\<not> closes_table a c" "call_ok c" using Cons.prems(2,4) by simp_all
  note tab = metadata_step_table [OF Cons.prems(1) 1(1) Cons.prems(3) c]
  from Cons.IH [OF 1(2) _ tab(2)] Cons.prems(2,4) obtain st' where
    2: "metadata_run cs st1 = Some st'" "metadata_ok st'" "mw_key (mt_writers st' a) = mw_key (mt_writers st1 a)"
      "mw_text (mt_writers st' a) = mw_text (mt_writers st1 a) @ lines_memory (lines_for a cs)"
      "\<forall>k v. map_of (mt_map st1) k = Some v \<longrightarrow> (\<exists>v'. map_of (mt_map st') k = Some v' \<and> same_kind v v')" by auto
  have "lines_for a (c # cs) = lines_for a [c] @ lines_for a cs" by simp
  then have "mw_text (mt_writers st' a) = mw_text (mt_writers st a) @ lines_memory (lines_for a (c # cs))"
    unfolding 2(4) tab(3) by (simp only: lines_memory_append append_assoc)
  moreover have "\<exists>v'. map_of (mt_map st') k = Some v' \<and> same_kind v v'" if "map_of (mt_map st) k = Some v" for k v
    using metadata_step_kinds [OF Cons.prems(1) 1(1) that] 2(5) by (fastforce simp: same_kind_def)
  ultimately show ?case using 1(1) 2(1-3) tab(1) by auto
qed

lemma lines_for_plain: "list_all call_ok cs \<Longrightarrow> list_all plain_line (lines_for a cs)"
  by (induction cs) (auto simp: plain_line_def table_line_def split: metadata_call.split)

lemma close_multiline_put_value:
  assumes "metadata_ok st" "map_of (mt_map st) (mw_key (mt_writers st a)) = Some v"
  shows "\<exists>st'. close_multiline_put a True st = Some (Inr (), st') \<and> metadata_ok st' \<and> mt_change_index st' = mt_change_index st + 1 \<and>
    (\<forall>k. map_of (mt_map st') k = (if k = mw_key (mt_writers st a)
       then Some (v\<lparr>mv_value := Some (mw_text (mt_writers st a) @ [nul]), mv_update_index := mt_change_index st + 1\<rparr>) else map_of (mt_map st) k))"
proof -
  have w: "writer_ok (mt_writers st a)" using assms by (simp add: metadata_ok_def)
  from append_end [OF w] obtain w' where "append_string (mt_writers st a) [] = Some w'" "mw_key w' = mw_key (mt_writers st a)"
    "mw_text w' = mw_text (mt_writers st a) @ [nul]" by blast
  with assms close_multiline_put_ok [OF assms(1), of a True] show ?thesis
    by (auto simp: close_multiline_put_def get_change_index_def)
qed

lemma close_multiline_put_read:
  assumes "metadata_ok st" "map_of (mt_map st) (mw_key (mt_writers st a)) = Some v" "list_all plain_line ls"
    and "mw_text (mt_writers st a) = lines_memory ls"
  shows "\<exists>st'. close_multiline_put a True st = Some (Inr (), st') \<and> metadata_ok st' \<and>
    get_metadata_value (mw_key (mt_writers st a)) st' = Some (Inr (), ls, RESPONSE_MANY) \<and>
    (\<forall>k. k \<noteq> mw_key (mt_writers st a) \<longrightarrow> map_of (mt_map st') k = map_of (mt_map st) k) \<and>
    (\<forall>r < mt_change_index st'. check_metadata_change_set r st')"
proof -
  let ?key = "mw_key (mt_writers st a)"
  from close_multiline_put_value [OF assms(1,2)] obtain st' where
    c: "close_multiline_put a True st = Some (Inr (), st')" "metadata_ok st'" "mt_change_index st' = mt_change_index st + 1"
      "\<And>k. map_of (mt_map st') k = (if k = ?key then Some (v\<lparr>mv_value := Some (lines_memory ls @ [nul]),
          mv_update_index := mt_change_index st + 1\<rparr>) else map_of (mt_map st) k)" by (auto simp: assms(4))
  have "mv_type v = METADATA_MULTILINE" using metadata_ok_writer [OF assms(1,2)] .
  then have "get_metadata_value ?key st' = Some (Inr (), ls, RESPONSE_MANY)"
    using multiline_strings_lines [OF assms(3)] by (simp add: get_metadata_value_def c(4) format_value_def)
  moreover have "check_metadata_change_set r st'" if "r < mt_change_index st'" for r
    using c(4) [of ?key] that by (auto simp: check_metadata_change_set_def list_ex_iff c(3) intro: rev_bexI dest!: map_of_SomeD)
  ultimately show ?thesis using c by simp
qed

text \<open>
  C26: writing metadata of several lines.  Whatever other connections do between the lines, to the same value or to others, the
  memory of the lines grows so that each line fits, and when the writer is closed the value is exactly the lines sent to
  this writer, in order, as a client reads it back; the change is reported to every client that has not seen it, and
  constants are what they were.\<close>

theorem metadata_lines_roundtrip:
  assumes "metadata_ok st" "map_of (mt_map st) key = Some v" "mv_type v = METADATA_MULTILINE"
    and "list_all call_ok cs" "\<not> list_ex (closes_table (mt_next st)) cs"
  shows "\<exists>wr st1 st2 st3. put_metadata_table key st = (Inr wr, st1) \<and> metadata_run cs st1 = Some st2 \<and>
    pw_close wr True st2 = Some (Inr (), st3) \<and> metadata_ok st3 \<and>
    get_metadata_value key st3 = Some (Inr (), lines_for (mt_next st) cs, RESPONSE_MANY) \<and>
    (\<forall>r < mt_change_index st3. check_metadata_change_set r st3) \<and>
    (\<forall>k c. map_of (mt_map st) k = Some c \<longrightarrow> mv_type c = METADATA_CONSTANT \<longrightarrow> map_of (mt_map st3) k = Some c)"
proof -
  let ?a = "mt_next st" and ?st1 = "snd (put_metadata_table key st)"
  have 1: "put_metadata_table key st = (Inr \<lparr>pw_write = write_multiline_put ?a, pw_close = close_multiline_put ?a\<rparr>, ?st1)"
    "mw_key (mt_writers ?st1 ?a) = key" "mw_text (mt_writers ?st1 ?a) = []" "mt_map ?st1 = mt_map st" "?a < mt_next ?st1"
    using assms(2,3) by (simp_all add: put_metadata_table_def)
  from metadata_run_ok [OF put_metadata_table_ok [OF assms(1)] assms(4) 1(5) assms(5)] obtain st2 where
    2: "metadata_run cs ?st1 = Some st2" "metadata_ok st2" "mw_key (mt_writers st2 ?a) = key"
      "mw_text (mt_writers st2 ?a) = lines_memory (lines_for ?a cs)"
      "\<And>k v. map_of (mt_map st) k = Some v \<Longrightarrow> \<exists>v'. map_of (mt_map st2) k = Some v' \<and> same_kind v v'" unfolding 1(2-4) append_Nil by blast
  from 2(5) [OF assms(2)] obtain v2 where "map_of (mt_map st2) (mw_key (mt_writers st2 ?a)) = Some v2" by (auto simp: 2(3))
  from close_multiline_put_read [OF 2(2) this lines_for_plain [OF assms(4)] 2(4)] obtain st3 where
    3: "close_multiline_put ?a True st2 = Some (Inr (), st3)" "metadata_ok st3"
      "get_metadata_value key st3 = Some (Inr (), lines_for ?a cs, RESPONSE_MANY)"
      "\<And>k. k \<noteq> key \<Longrightarrow> map_of (mt_map st3) k = map_of (mt_map st2) k" "\<forall>r < mt_change_index st3. check_metadata_change_set r st3"
    unfolding 2(3) by blast
  have "map_of (mt_map st3) k = Some c" if "map_of (mt_map st) k = Some c" "mv_type c = METADATA_CONSTANT" for k c
  proof -
    have "k \<noteq> key" using that assms(2,3) by auto
    with 3(4) 2(5) [OF that(1)] that(2) show ?thesis by (auto simp: same_kind_def)
  qed
  then show ?thesis using 1(1) 2(1) 3(1-3,5)
    by (intro exI [of _ "\<lparr>pw_write = write_multiline_put ?a, pw_close = close_multiline_put ?a\<rparr>"] exI [of _ ?st1] exI [of _ st2] exI [of _ st3]) simp
qed

definition example_metadata :: metadata where
  "example_metadata =
     \<lparr>mt_map = [(''NOTES'', \<lparr>mv_type = METADATA_MULTILINE, mv_value = None, mv_update_index = 1\<rparr>),
                (''LABEL'', \<lparr>mv_type = METADATA_STRING, mv_value = None, mv_update_index = 1\<rparr>)],
      mt_change_index = 1, mt_writers = (\<lambda>_. \<lparr>mw_key = [], mw_text = [], mw_max_length = 0\<rparr>), mt_next = 0\<rparr>"

lemma example_metadata_ok: "metadata_ok example_metadata"
  by (auto simp: example_metadata_def metadata_ok_def value_ok_def writer_ok_def lines_memory_def intro: exI [of _ "[]"])

text \<open>Two clients write the same value and one a string meanwhile.\<close>

theorem metadata_lines_roundtrip_witness:
  "\<exists>wr st1 st2 st3. put_metadata_table ''NOTES'' example_metadata = (Inr wr, st1) \<and>
    metadata_run [Open_table ''NOTES'', Write_line 0 ''ab'', Write_line 1 ''x'', Put_value ''LABEL'' ''v'', Close_table 1 True, Write_line 0 ''c''] st1 =
      Some st2 \<and> pw_close wr True st2 = Some (Inr (), st3) \<and>
    get_metadata_value ''NOTES'' st3 = Some (Inr (), [''ab'', ''c''], RESPONSE_MANY)"
proof -
  let ?cs = "[Open_table ''NOTES'', Write_line 0 ''ab'', Write_line 1 ''x'', Put_value ''LABEL'' ''v'', Close_table 1 True, Write_line 0 ''c'']"
  have "utf8_line ''ab''" "utf8_line ''c''" by code_simp+
  then have lines: "lines_for (mt_next example_metadata) ?cs = [''ab'', ''c'']" by (simp add: example_metadata_def)
  have "map_of (mt_map example_metadata) ''NOTES'' = Some \<lparr>mv_type = METADATA_MULTILINE, mv_value = None, mv_update_index = 1\<rparr>"
    "list_all call_ok ?cs" "\<not> list_ex (closes_table (mt_next example_metadata)) ?cs"
    by (simp_all add: example_metadata_def table_line_def newline_def nul_def MAX_LINE_LENGTH_def)
  from metadata_lines_roundtrip [OF example_metadata_ok this(1) _ this(2,3)] show ?thesis unfolding lines by auto
qed

end
