(* ===== verification/Panda_System.thy ===== *)
theory Panda_System
  imports Panda_Metadata Panda_Data Panda_Mux
begin

text \<open>
  \<^verbatim>\<open>system_command.c\<close>: the commands that start with a star.  The state has the metadata and the verbosity of the
  configuration server; \<open>'x\<close> is that of the other components.
\<close>

record 'x server =
  sv_meta :: metadata
  sv_verbose :: bool
  sv_rest :: 'x

type_synonym 'w get_command = "string \<Rightarrow> 'w \<Rightarrow> ((unit result \<times> string list \<times> get_response) \<times> 'w) option"
type_synonym 'w put_command = "string \<Rightarrow> string \<Rightarrow> 'w \<Rightarrow> (unit result \<times> 'w) option"
type_synonym 'w put_table_command = "string \<Rightarrow> 'w \<Rightarrow> ('w put_table_writer result \<times> 'w) option"

definition get_error :: "error \<Rightarrow> 'w \<Rightarrow> ((unit result \<times> string list \<times> get_response) \<times> 'w) option" where
  "get_error e w = Some ((Inl e, [], RESPONSE_ERROR), w)"

section \<open>Metadata\<close>

text \<open>The name of a value: a dot, the key and the end of the command.\<close>

definition metadata_key :: "string parser" where
  "metadata_key = p_then (parse_alphanum_name MAX_NAME_LENGTH) (\<lambda>key. p_then parse_eos (\<lambda>_. p_return key))"

definition get_metadata :: "'x server get_command" where
  "get_metadata command w =
     (case parse_char (CHR ''.'') command of
        (Inl e, _) \<Rightarrow> get_error e w
      | (Inr _, command) \<Rightarrow>
          (case read_char (CHR ''*'') command of
             (True, command) \<Rightarrow>
               (case fst (parse_eos command) of Inl e \<Rightarrow> get_error e w | Inr _ \<Rightarrow> Some (get_metadata_keys (sv_meta w), w))
           | (False, command) \<Rightarrow>
               (case fst (metadata_key command) of
                  Inl e \<Rightarrow> get_error e w
                | Inr key \<Rightarrow> map_option (\<lambda>r. (r, w)) (get_metadata_value key (sv_meta w)))))"

definition put_metadata :: "'x server put_command" where
  "put_metadata command val w =
     (case fst (p_then (parse_char (CHR ''.'')) (\<lambda>_. metadata_key) command) of
        Inl e \<Rightarrow> Some (Inl e, w)
      | Inr key \<Rightarrow>
          (case fst (parse_utf8_string val) of
             Inl e \<Rightarrow> Some (Inl e, w)
           | Inr string \<Rightarrow>
               (case put_metadata_value key string (sv_meta w) of (e, m) \<Rightarrow> Some (e, w\<lparr>sv_meta := m\<rparr>))))"

definition server_writer :: "metadata put_table_writer \<Rightarrow> 'x server put_table_writer" where
  "server_writer wr =
     \<lparr>pw_write = (\<lambda>line w. map_option (\<lambda>(e, m). (e, w\<lparr>sv_meta := m\<rparr>)) (pw_write wr line (sv_meta w))),
      pw_close = (\<lambda>ok w. map_option (\<lambda>(e, m). (e, w\<lparr>sv_meta := m\<rparr>)) (pw_close wr ok (sv_meta w)))\<rparr>"

definition put_table_metadata :: "'x server put_table_command" where
  "put_table_metadata command w =
     (case fst (p_then (parse_char (CHR ''.'')) (\<lambda>_. metadata_key) command) of
        Inl e \<Rightarrow> Some (Inl e, w)
      | Inr key \<Rightarrow>
          (case put_metadata_table key (sv_meta w) of
             (Inl e, m) \<Rightarrow> Some (Inl e, w\<lparr>sv_meta := m\<rparr>)
           | (Inr wr, m) \<Rightarrow> Some (Inr (server_writer wr), w\<lparr>sv_meta := m\<rparr>)))"

section \<open>Simple commands\<close>

text \<open>The blocks and their numbers of instances do not change after the configuration.\<close>

definition get_blocks :: "'d block_map \<Rightarrow> 'w get_command" where
  "get_blocks bmap command w = Some ((Inr (), block_list_get bmap MAX_RESULT_LENGTH, RESPONSE_MANY), w)"

definition get_echo :: "'w get_command" where
  "get_echo command w =
     (case parse_char (CHR '' '') command of (Inl e, _) \<Rightarrow> get_error e w | (Inr _, command) \<Rightarrow> Some (one_result command, w))"

definition put_verbose :: "nat \<Rightarrow> 'x server put_command" where
  "put_verbose lw command val w =
     (case fst (p_then (parse_uint lw) (\<lambda>verbose. p_then parse_eos (\<lambda>_. p_return verbose)) val) of
        Inl e \<Rightarrow> Some (Inl e, w)
      | Inr verbose \<Rightarrow> Some (Inr (), w\<lparr>sv_verbose := verbose \<noteq> 0\<rparr>))"

section \<open>Change sets\<close>

definition lookup_change_set :: "string \<Rightarrow> u32 result" where
  "lookup_change_set action =
     (if action = ''CONFIG'' then Inr 1
      else if action = ''BITS'' then Inr 2
      else if action = ''POSN'' then Inr 4
      else if action = ''READ'' then Inr 8
      else if action = ''ATTR'' then Inr 16
      else if action = ''TABLE'' then Inr 32
      else if action = ''METADATA'' then Inr 64
      else fail ''Unknown changes selection'')"

definition parse_change_set :: "u32 parser" where
  "parse_change_set command =
     (case read_char (CHR ''.'') command of
        (True, command) \<Rightarrow>
          p_then (parse_name MAX_NAME_LENGTH) (\<lambda>action. p_then (p_lift (lookup_change_set action)) (\<lambda>change_set.
            p_then parse_eos (\<lambda>_. p_return change_set))) command
      | (False, command) \<Rightarrow> p_then parse_eos (\<lambda>_. p_return CHANGES_ALL) command)"

datatype reset_change_set_action = RESET_START | RESET_END

definition parse_change_set_reset :: "reset_change_set_action parser" where
  "parse_change_set_reset string =
     (case read_char (CHR ''E'') string of
        (True, string) \<Rightarrow> (Inr RESET_END, string)
      | (False, string) \<Rightarrow>
          (case read_char (CHR ''S'') string of
             (True, string) \<Rightarrow> (Inr RESET_START, string)
           | (False, string) \<Rightarrow> (and_then (test_ok (string = []) ''Invalid reset option'') (\<lambda>_. Inr RESET_END), string)))"

text \<open>\<open>generate\<close> is \<^verbatim>\<open>generate_change_sets\<close>, \<open>reset\<close> is \<^verbatim>\<open>reset_change_set\<close> for the connection.\<close>

definition get_changes :: "(u32 \<Rightarrow> 'w \<Rightarrow> (string list \<times> 'w) option) \<Rightarrow> 'w get_command" where
  "get_changes generate command w =
     (case fst (parse_change_set command) of
        Inl e \<Rightarrow> Some ((Inl e, [], RESPONSE_MANY), w)
      | Inr change_set \<Rightarrow> map_option (\<lambda>(many, w). ((Inr (), many, RESPONSE_MANY), w)) (generate change_set w))"

definition put_changes :: "(u32 \<Rightarrow> reset_change_set_action \<Rightarrow> 'w \<Rightarrow> 'w option) \<Rightarrow> 'w put_command" where
  "put_changes reset command val w =
     (case fst (parse_change_set command) of
        Inl e \<Rightarrow> Some (Inl e, w)
      | Inr change_set \<Rightarrow>
          (case fst (p_then parse_change_set_reset (\<lambda>action. p_then parse_eos (\<lambda>_. p_return action)) val) of
             Inl e \<Rightarrow> Some (Inl e, w)
           | Inr action \<Rightarrow> map_option (\<lambda>w. (Inr (), w)) (reset change_set action w)))"

unbundle bit_operations_syntax

section \<open>Capture\<close>

text \<open>These commands act on the outputs, the data server and the registers.\<close>

definition many_result :: "string list \<Rightarrow> unit result \<times> string list \<times> get_response" where
  "many_result lines = (Inr (), lines, RESPONSE_MANY)"

definition get_capture :: "'s device \<Rightarrow> reg_header \<Rightarrow> 'v::len enumeration \<Rightarrow> ('d, 'w) outputs \<Rightarrow> 's get_command" where
  "get_capture dev hdr pos_out_capture_enum outs command s =
     (let many_error = (\<lambda>e. Some ((Inl e, [], RESPONSE_MANY), s)) in
      case read_char (CHR ''.'') command of
        (True, command) \<Rightarrow>
          (case read_char (CHR ''*'') command of
             (True, command) \<Rightarrow>
               (case fst (parse_eos command) of Inl e \<Rightarrow> many_error e | Inr _ \<Rightarrow> Some (many_result (report_capture_labels outs), s))
           | (False, command) \<Rightarrow>
               (case fst (p_then (parse_name MAX_NAME_LENGTH) (\<lambda>name. p_then parse_eos (\<lambda>_. p_return name)) command) of
                  Inl e \<Rightarrow> many_error e
                | Inr name \<Rightarrow>
                    if name = ''OPTIONS'' then (case get_capture_options dev hdr s of (lines, s) \<Rightarrow> Some (many_result lines, s))
                    else if name = ''ENUMS'' then map_option (\<lambda>lines. (many_result lines, s)) (those (get_capture_enums pos_out_capture_enum))
                    else Some ((fail ''Invalid *CAPTURE option'', [], RESPONSE_MANY), s)))
      | (False, command) \<Rightarrow>
          (case fst (parse_eos command) of
             Inl e \<Rightarrow> many_error e
           | Inr _ \<Rightarrow> Some (many_result (report_capture_list MAX_RESULT_LENGTH outs), s)))"

definition put_capture :: "(('d, 'w) outputs \<times> u64) put_command" where
  "put_capture command val st =
     (case and_then (fst (parse_eos command)) (\<lambda>_. fst (parse_eos val)) of
        Inl e \<Rightarrow> Some (Inl e, st)
      | Inr _ \<Rightarrow> Some (Inr (), reset_capture_list (fst st) (snd st)))"

definition get_positions :: "('d, 'w) outputs get_command" where
  "get_positions command outs = Some (many_result (report_capture_positions outs), outs)"

definition get_bits :: "'v::len enumeration get_command" where
  "get_bits command bit_mux_lookup = Some (many_result (report_capture_bits bit_mux_lookup), bit_mux_lookup)"

definition lookup_pcap_put_action ::
    "'d capture_ops \<Rightarrow> 's device \<Rightarrow> reg_header \<Rightarrow> string \<Rightarrow> u32 list \<Rightarrow> ('s \<Rightarrow> timespec result \<times> 's) \<Rightarrow> ('d, 'w) outputs \<Rightarrow> string
       \<Rightarrow> 'd data_server \<times> 's \<Rightarrow> (unit result \<times> 'd data_server \<times> 's) option" where
  "lookup_pcap_put_action ops dev hdr null_text stack clock outs name st =
     (case st of (srv, s) \<Rightarrow>
        if name = ''ARM'' then arm_capture ops dev hdr null_text stack clock outs srv s
        else if name = ''DISARM'' then (case disarm_capture dev hdr s of (e, s) \<Rightarrow> Some (e, srv, s))
        else Some (fail ''Invalid *PCAP field'', srv, s))"

definition put_pcap ::
    "'d capture_ops \<Rightarrow> 's device \<Rightarrow> reg_header \<Rightarrow> string \<Rightarrow> u32 list \<Rightarrow> ('s \<Rightarrow> timespec result \<times> 's) \<Rightarrow> ('d, 'w) outputs \<Rightarrow> bool
       \<Rightarrow> ('d data_server \<times> 's) put_command" where
  "put_pcap ops dev hdr null_text stack clock outs data_capture_available command val st =
     (if \<not> data_capture_available then Some (fail ''Data capture disabled (server started with -N)'', st)
      else
        (case fst (p_then (parse_char (CHR ''.'')) (\<lambda>_. parse_name MAX_NAME_LENGTH) command) of
           Inl e \<Rightarrow> Some (Inl e, st)
         | Inr action_name \<Rightarrow>
             (case fst (parse_eos val) of
                Inl e \<Rightarrow> Some (Inl e, st)
              | Inr _ \<Rightarrow> lookup_pcap_put_action ops dev hdr null_text stack clock outs action_name st)))"

definition lookup_pcap_get_action :: "string \<Rightarrow> 'd data_server \<Rightarrow> string result" where
  "lookup_pcap_get_action name srv =
     (if name = ''STATUS'' then get_capture_status MAX_RESULT_LENGTH srv
      else if name = ''CAPTURED'' then get_capture_count MAX_RESULT_LENGTH srv
      else if name = ''COMPLETION'' then get_capture_completion MAX_RESULT_LENGTH srv
      else fail ''Invalid *PCAP field'')"

definition get_pcap :: "bool \<Rightarrow> 'd data_server get_command" where
  "get_pcap data_capture_available command srv =
     (if \<not> data_capture_available then Some ((fail ''Data capture disabled (server started with -N)'', [], RESPONSE_ERROR), srv)
      else
        (case fst (p_then (parse_char (CHR ''.'')) (\<lambda>_. parse_name MAX_NAME_LENGTH) command) of
           Inl e \<Rightarrow> get_error e srv
         | Inr action_name \<Rightarrow>
             (case lookup_pcap_get_action action_name srv of
                Inl e \<Rightarrow> get_error e srv
              | Inr string \<Rightarrow> Some ((Inr (), [], RESPONSE_ONE string), srv))))"

section \<open>Identification\<close>

definition show_hex8 :: "u32 \<Rightarrow> string" where
  "show_hex8 n = (let digits = show_base 16 (unat n) in replicate (8 - length digits) (CHR ''0'') @ digits)"

definition fpga_string :: "u32 \<Rightarrow> string" where
  "fpga_string fpga_version =
     show_u32 (drop_bit 16 fpga_version AND 0xFF) @ ''.'' @ show_u32 (drop_bit 8 fpga_version AND 0xFF) @ ''.'' @ show_u32 (fpga_version AND 0xFF) @
     (if drop_bit 24 fpga_version \<noteq> 0 then ''C'' @ show_u32 (drop_bit 24 fpga_version) else [])"

definition get_idn :: "'s device \<Rightarrow> reg_header \<Rightarrow> string \<Rightarrow> string \<Rightarrow> string \<Rightarrow> 's get_command" where
  "get_idn dev hdr server_name server_version rootfs_version command s =
     (case hw_read_versions dev hdr s of ((fpga_version, fpga_build, user_version), s) \<Rightarrow>
        Some (one_result (server_name @ '' SW: '' @ server_version @ '' FPGA: '' @ fpga_string fpga_version @ '' '' @
          show_hex8 fpga_build @ '' '' @ show_hex8 user_version @ '' rootfs: '' @ rootfs_version), s))"

definition get_clock_freq :: "'s device \<Rightarrow> reg_header \<Rightarrow> 's get_command" where
  "get_clock_freq dev hdr command s = (case hw_read_nominal_clock dev hdr s of (clock, s) \<Rightarrow> Some (one_result (show_int clock), s))"

section \<open>Dispatch\<close>

record 'w command_table_entry =
  ct_name :: string
  ct_allow_arg :: bool
  ct_get :: "'w get_command option"
  ct_put :: "'w put_command option"
  ct_put_table :: "'w put_table_command option"

text \<open>
  The commands that act on other components, over the whole state.
\<close>

record 'w other_commands =
  oc_get_idn :: "'w get_command"
  oc_get_who :: "'w get_command"
  oc_generate_change_sets :: "u32 \<Rightarrow> 'w \<Rightarrow> (string list \<times> 'w) option"
  oc_reset_change_set :: "u32 \<Rightarrow> reset_change_set_action \<Rightarrow> 'w \<Rightarrow> 'w option"
  oc_get_desc :: "'w get_command"
  oc_get_capture :: "'w get_command"
  oc_put_capture :: "'w put_command"
  oc_get_positions :: "'w get_command"
  oc_get_bits :: "'w get_command"
  oc_get_enums :: "'w get_command"
  oc_get_pcap :: "'w get_command"
  oc_put_pcap :: "'w put_command"
  oc_put_savestate :: "'w put_command"
  oc_get_clock_freq :: "'w get_command"

definition entry :: "string \<Rightarrow> bool \<Rightarrow> 'w get_command option \<Rightarrow> 'w put_command option \<Rightarrow> 'w command_table_entry" where
  "entry name allow_arg g p = \<lparr>ct_name = name, ct_allow_arg = allow_arg, ct_get = g, ct_put = p, ct_put_table = None\<rparr>"

definition command_table_list :: "nat \<Rightarrow> 'd block_map \<Rightarrow> 'x server other_commands \<Rightarrow> 'x server command_table_entry list" where
  "command_table_list lw bmap oc =
     [entry ''IDN'' False (Some (oc_get_idn oc)) None,
      (entry ''METADATA'' True (Some get_metadata) (Some put_metadata))\<lparr>ct_put_table := Some put_table_metadata\<rparr>,
      entry ''BLOCKS'' False (Some (get_blocks bmap)) None,
      entry ''ECHO'' True (Some get_echo) None,
      entry ''WHO'' False (Some (oc_get_who oc)) None,
      entry ''CHANGES'' True (Some (get_changes (oc_generate_change_sets oc))) (Some (put_changes (oc_reset_change_set oc))),
      entry ''DESC'' True (Some (oc_get_desc oc)) None,
      entry ''CAPTURE'' True (Some (oc_get_capture oc)) (Some (oc_put_capture oc)),
      entry ''POSITIONS'' False (Some (oc_get_positions oc)) None,
      entry ''BITS'' False (Some (oc_get_bits oc)) None,
      entry ''VERBOSE'' False None (Some (put_verbose lw)),
      entry ''ENUMS'' True (Some (oc_get_enums oc)) None,
      entry ''PCAP'' True (Some (oc_get_pcap oc)) (Some (oc_put_pcap oc)),
      entry ''SAVESTATE'' False None (Some (oc_put_savestate oc)),
      entry ''CLOCK_FREQ'' False (Some (oc_get_clock_freq oc)) None]"

definition parse_system_command :: "'w command_table_entry list \<Rightarrow> 'w command_table_entry parser" where
  "parse_system_command command_table =
     p_then (parse_name MAX_NAME_LENGTH) (\<lambda>name.
       case map_of (map (\<lambda>e. (ct_name e, e)) command_table) name of
         None \<Rightarrow> p_lift (fail ''Unknown command'')
       | Some cmd \<Rightarrow> p_then (p_if (\<not> ct_allow_arg cmd) parse_eos ()) (\<lambda>_. p_return cmd))"

definition process_system_get :: "'w command_table_entry list \<Rightarrow> 'w get_command" where
  "process_system_get command_table command w =
     (case parse_system_command command_table command of
        (Inl e, _) \<Rightarrow> get_error e w
      | (Inr cmd, command) \<Rightarrow>
          (case ct_get cmd of
             None \<Rightarrow> Some ((fail ''Command not readable'', [], RESPONSE_ERROR), w)
           | Some g \<Rightarrow> g command w))"

definition process_system_put :: "'w command_table_entry list \<Rightarrow> 'w put_command" where
  "process_system_put command_table command val w =
     (case parse_system_command command_table command of
        (Inl e, _) \<Rightarrow> Some (Inl e, w)
      | (Inr cmd, command) \<Rightarrow>
          (case ct_put cmd of None \<Rightarrow> Some (fail ''Command not writeable'', w) | Some p \<Rightarrow> p command val w))"

definition process_system_put_table ::
    "'w command_table_entry list \<Rightarrow> string \<Rightarrow> bool \<Rightarrow> bool \<Rightarrow> bool \<Rightarrow> 'w \<Rightarrow> ('w put_table_writer result \<times> 'w) option" where
  "process_system_put_table command_table command streaming_mode last_table binary w =
     (case parse_system_command command_table command of
        (Inl e, _) \<Rightarrow> Some (Inl e, w)
      | (Inr cmd, command) \<Rightarrow>
          (case ct_put_table cmd of
             None \<Rightarrow> Some (fail ''Not a table'', w)
           | Some p \<Rightarrow>
               if streaming_mode then Some (fail ''Streaming mode not supported'', w)
               else if binary then Some (fail ''Binary writes not supported'', w)
               else p command w))"

definition system_commands :: "nat \<Rightarrow> 'd block_map \<Rightarrow> 'x server other_commands \<Rightarrow> 'x server config_command_set" where
  "system_commands lw bmap oc =
     (let command_table = command_table_list lw bmap oc in
      \<lparr>cs_get = process_system_get command_table, cs_put = process_system_put command_table,
       cs_put_table = process_system_put_table command_table\<rparr>)"

section \<open>Every command returns\<close>

definition total_get :: "('w \<Rightarrow> bool) \<Rightarrow> 'w get_command \<Rightarrow> bool" where
  "total_get kept g =
     (\<forall>command w. kept w \<longrightarrow> (\<exists>e many r w'. g command w = Some ((e, many, r), w') \<and> kept w' \<and> (is_ok e \<longrightarrow> r \<noteq> RESPONSE_ERROR)))"

definition total_put :: "('w \<Rightarrow> bool) \<Rightarrow> 'w put_command \<Rightarrow> bool" where
  "total_put kept p = (\<forall>command val w. kept w \<longrightarrow> (\<exists>e w'. p command val w = Some (e, w') \<and> kept w'))"

definition total_put_table :: "('w \<Rightarrow> bool) \<Rightarrow> 'w put_table_command \<Rightarrow> bool" where
  "total_put_table kept p =
     (\<forall>command w. kept w \<longrightarrow> (\<exists>res w'. p command w = Some (res, w') \<and> kept w' \<and> (\<forall>wr. res = Inr wr \<longrightarrow> total_writer kept wr)))"

text \<open>What the dispatch relies on from the commands of the other components.\<close>

definition total_others :: "('w \<Rightarrow> bool) \<Rightarrow> 'w other_commands \<Rightarrow> bool" where
  "total_others kept oc =
     (list_all (total_get kept) [oc_get_idn oc, oc_get_who oc, oc_get_desc oc, oc_get_capture oc, oc_get_positions oc, oc_get_bits oc,
        oc_get_enums oc, oc_get_pcap oc, oc_get_clock_freq oc] \<and>
      list_all (total_put kept) [oc_put_capture oc, oc_put_pcap oc, oc_put_savestate oc] \<and>
      (\<forall>set w. kept w \<longrightarrow> (\<exists>many w'. oc_generate_change_sets oc set w = Some (many, w') \<and> kept w')) \<and>
      (\<forall>set action w. kept w \<longrightarrow> (\<exists>w'. oc_reset_change_set oc set action w = Some w' \<and> kept w')))"

text \<open>The metadata is in order, and \<open>rest\<close> holds of the other components.\<close>

definition server_kept :: "('x \<Rightarrow> bool) \<Rightarrow> 'x server \<Rightarrow> bool" where
  "server_kept rest w = (metadata_ok (sv_meta w) \<and> rest (sv_rest w))"

lemma get_metadata_total: "total_get (server_kept rest) get_metadata"
  unfolding total_get_def
proof (intro allI impI)
  fix command and w :: "'a server"
  assume k: "server_kept rest w"
  have v: "\<exists>e many r. get_metadata_value key (sv_meta w) = Some (e, many, r) \<and> (is_ok e \<longrightarrow> r \<noteq> RESPONSE_ERROR)" for key
    using get_metadata_value_total [of "sv_meta w" key] k by (auto simp: server_kept_def)
  show "\<exists>e many r w'. get_metadata command w = Some ((e, many, r), w') \<and> server_kept rest w' \<and> (is_ok e \<longrightarrow> r \<noteq> RESPONSE_ERROR)"
    using k v by (fastforce simp: get_metadata_def get_error_def get_metadata_keys_def split: prod.splits sum.splits bool.splits)
qed

lemma put_metadata_total: "total_put (server_kept rest) put_metadata"
  unfolding total_put_def put_metadata_def server_kept_def
  by (auto simp: put_metadata_value_ok dest: arg_cong [where f = snd] split: sum.splits prod.splits)
    (metis put_metadata_value_ok snd_conv)

lemma server_writer_total:
  "total_writer (server_kept rest) (server_writer \<lparr>pw_write = write_multiline_put a, pw_close = close_multiline_put a\<rparr>)"
  using write_multiline_put_ok close_multiline_put_ok unfolding total_writer_def server_writer_def server_kept_def by fastforce

lemma put_table_metadata_total: "total_put_table (server_kept rest) put_table_metadata"
  unfolding total_put_table_def
proof (intro allI impI)
  fix command and w :: "'a server"
  assume k: "server_kept rest w"
  show "\<exists>res w'. put_table_metadata command w = Some (res, w') \<and> server_kept rest w' \<and>
      (\<forall>wr. res = Inr wr \<longrightarrow> total_writer (server_kept rest) wr)"
  proof (cases "fst (p_then (parse_char (CHR ''.'')) (\<lambda>_. metadata_key) command)")
    case (Inr key)
    have "server_kept rest (w\<lparr>sv_meta := snd (put_metadata_table key (sv_meta w))\<rparr>)"
      using k put_metadata_table_ok by (simp add: server_kept_def)
    moreover have "wr = \<lparr>pw_write = write_multiline_put (mt_next (sv_meta w)), pw_close = close_multiline_put (mt_next (sv_meta w))\<rparr>"
      if "fst (put_metadata_table key (sv_meta w)) = Inr wr" for wr
      using that by (auto simp: put_metadata_table_def split: option.splits if_splits)
    ultimately show ?thesis using Inr server_writer_total by (fastforce simp: put_table_metadata_def split: prod.splits sum.splits)
  qed (use k in \<open>simp add: put_table_metadata_def\<close>)
qed

lemma one_result_answers: "one_result s = (e, many, r) \<Longrightarrow> is_ok e \<Longrightarrow> r \<noteq> RESPONSE_ERROR"
  by (auto simp: one_result_def split: sum.splits)

lemma simple_commands_total:
  "total_get kept (get_blocks bmap)" "total_get kept get_echo" "total_put (server_kept rest) (put_verbose lw)"
  unfolding total_get_def total_put_def get_blocks_def get_echo_def put_verbose_def get_error_def server_kept_def
  by (auto split: prod.splits sum.splits dest: one_result_answers) (metis one_result_answers prod_cases3)

lemma changes_total:
  assumes "total_others kept oc"
  shows "total_get kept (get_changes (oc_generate_change_sets oc))" "total_put kept (put_changes (oc_reset_change_set oc))"
  using assms unfolding total_others_def total_get_def total_put_def get_changes_def put_changes_def
  by (fastforce split: sum.splits)+

definition total_entry :: "('w \<Rightarrow> bool) \<Rightarrow> 'w command_table_entry \<Rightarrow> bool" where
  "total_entry kept e =
     ((\<forall>g. ct_get e = Some g \<longrightarrow> total_get kept g) \<and> (\<forall>p. ct_put e = Some p \<longrightarrow> total_put kept p) \<and>
      (\<forall>p. ct_put_table e = Some p \<longrightarrow> total_put_table kept p))"

lemma command_table_total:
  assumes "total_others (server_kept rest) oc"
  shows "list_all (total_entry (server_kept rest)) (command_table_list lw bmap oc)"
  using assms changes_total [OF assms]
  by (simp add: command_table_list_def entry_def total_entry_def total_others_def get_metadata_total put_metadata_total
      put_table_metadata_total simple_commands_total)

lemma parse_system_command_entry:
  "parse_system_command table0 command = (Inr e, rest) \<Longrightarrow> e \<in> set table0"
  by (auto simp: parse_system_command_def p_then_def p_lift_def p_if_def dest!: map_of_SomeD split: prod.splits sum.splits option.splits if_splits)

lemma system_command_set:
  assumes "total_others (server_kept rest) oc"
  shows "command_set (system_commands lw bmap oc) (server_kept rest)"
proof
  fix w name v streaming lst binary
  assume k: "server_kept rest w"
  let ?table = "command_table_list lw bmap oc"
  have total: "total_entry (server_kept rest) e" if "parse_system_command ?table name = (Inr e, c)" for e c
    using command_table_total [OF assms, of lw bmap] parse_system_command_entry [OF that] by (simp add: list_all_iff)
  show "\<exists>e many r w'. cs_get (system_commands lw bmap oc) name w = Some ((e, many, r), w') \<and> server_kept rest w' \<and> (is_ok e \<longrightarrow> r \<noteq> RESPONSE_ERROR)"
    using k total by (fastforce simp: system_commands_def process_system_get_def get_error_def total_entry_def total_get_def Let_def
        split: prod.splits sum.splits option.splits)
  show "\<exists>e w'. cs_put (system_commands lw bmap oc) name v w = Some (e, w') \<and> server_kept rest w'"
    using k total by (fastforce simp: system_commands_def process_system_put_def total_entry_def total_put_def Let_def
        split: prod.splits sum.splits option.splits)
  show "\<exists>res w'. cs_put_table (system_commands lw bmap oc) name streaming lst binary w = Some (res, w') \<and> server_kept rest w' \<and>
      (\<forall>wr. res = Inr wr \<longrightarrow> total_writer (server_kept rest) wr)"
    using k total by (fastforce simp: system_commands_def process_system_put_table_def total_entry_def total_put_table_def Let_def
        split: prod.splits sum.splits option.splits)
qed

section \<open>A session\<close>

text \<open>The writer of the command puts the lines where the metadata operations put them.\<close>

lemma feed_lines:
  assumes "\<forall>l \<in> set ls. utf8_line l"
  shows "feed (server_writer \<lparr>pw_write = write_multiline_put a, pw_close = close_multiline_put a\<rparr>) (Inr ()) ls w =
    map_option (\<lambda>m. (Inr (), w\<lparr>sv_meta := m\<rparr>)) (metadata_run (map (Write_line a) ls) (sv_meta w))"
  using assms
proof (induction ls arbitrary: w)
  case (Cons l ls)
  show ?case
  proof (cases "write_multiline_put a l (sv_meta w)")
    case None
    then show ?thesis by (simp add: server_writer_def)
  next
    case (Some r)
    obtain e m where r: "r = (e, m)" by fastforce
    have "e = Inr ()" using Some r Cons.prems by (auto simp: write_multiline_put_def utf8_line_def split: sum.splits)
    with Some r Cons.IH [of "w\<lparr>sv_meta := m\<rparr>"] Cons.prems show ?thesis by (simp add: server_writer_def)
  qed
qed simp

lemma lines_for_writes: "\<forall>l \<in> set ls. utf8_line l \<Longrightarrow> lines_for a (map (Write_line a) ls) = ls"
  by (induction ls) simp_all

lemma parse_metadata_command:
  assumes "alphanum_name key"
  shows "parse_system_command (command_table_list lw bmap oc) (''METADATA.'' @ key) =
      (Inr ((entry ''METADATA'' True (Some get_metadata) (Some put_metadata))\<lparr>ct_put_table := Some put_table_metadata\<rparr>), ''.'' @ key)"
    "p_then (parse_char (CHR ''.'')) (\<lambda>_. metadata_key) (''.'' @ key) = (Inr key, [])"
proof -
  have "plain_name ''METADATA''" "stops valid_name_char (''.'' @ key)" by (code_simp, simp add: stops_def, code_simp)
  from parse_name_stop [OF this]
  show "parse_system_command (command_table_list lw bmap oc) (''METADATA.'' @ key) =
      (Inr ((entry ''METADATA'' True (Some get_metadata) (Some put_metadata))\<lparr>ct_put_table := Some put_table_metadata\<rparr>), ''.'' @ key)"
    by (simp add: parse_system_command_def p_then_def p_if_def command_table_list_def entry_def)
  have "parse_alphanum_name MAX_NAME_LENGTH (key @ []) = (Inr key, [])" by (rule parse_alphanum_name_stop [OF assms]) (simp add: stops_def)
  then show "p_then (parse_char (CHR ''.'')) (\<lambda>_. metadata_key) (''.'' @ key) = (Inr key, [])"
    by (simp add: p_then_def metadata_key_def parse_char_def read_char_def parse_eos_def)
qed

lemma metadata_table_command:
  assumes "alphanum_name key" "metadata_ok (sv_meta w)" "map_of (mt_map (sv_meta w)) key = Some v" "mv_type v = METADATA_MULTILINE"
    and "\<forall>l \<in> set ls. table_line l \<and> utf8_line l"
  shows "\<exists>w'. put_table_result (system_commands lw bmap oc) (''METADATA.'' @ key) [] ls w = Some (Inr (), w') \<and>
    get_metadata_value key (sv_meta w') = Some (Inr (), ls, RESPONSE_MANY)"
proof -
  let ?a = "mt_next (sv_meta w)"
  let ?wr = "\<lparr>pw_write = write_multiline_put ?a, pw_close = close_multiline_put ?a\<rparr>" and ?cs = "map (Write_line ?a) ls"
  obtain m1 where 1: "put_metadata_table key (sv_meta w) = (Inr ?wr, m1)" "?a < mt_next m1" "mw_key (mt_writers m1 ?a) = key"
    "mw_text (mt_writers m1 ?a) = []" "mt_map m1 = mt_map (sv_meta w)" using assms(3,4) by (simp_all add: put_metadata_table_def)
  have cs: "list_all call_ok ?cs" "\<not> list_ex (closes_table ?a) ?cs" using assms(5) by (auto simp: list_all_iff list_ex_iff)
  have lines: "lines_for ?a ?cs = ls" using assms(5) by (simp add: lines_for_writes)
  from metadata_run_ok [OF put_metadata_table_ok [OF assms(2), of key, unfolded 1(1) snd_conv] cs(1) 1(2) cs(2)] obtain m2 where
    2: "metadata_run ?cs m1 = Some m2" "metadata_ok m2" "mw_key (mt_writers m2 ?a) = key" "mw_text (mt_writers m2 ?a) = lines_memory ls"
      "\<exists>v'. map_of (mt_map m2) key = Some v'" using assms(3) unfolding 1(3-5) append_Nil lines by blast
  then obtain v2 where "map_of (mt_map m2) (mw_key (mt_writers m2 ?a)) = Some v2" by auto
  from close_multiline_put_read [OF 2(2) this _ 2(4)] lines_for_plain [OF cs(1), of ?a] obtain m3 where
    3: "close_multiline_put ?a True m2 = Some (Inr (), m3)" "get_metadata_value key m3 = Some (Inr (), ls, RESPONSE_MANY)"
    unfolding 2(3) lines by blast
  have "parse_table_command (system_commands lw bmap oc) (''METADATA.'' @ key) [] w = Some (Inr (), server_writer ?wr, w\<lparr>sv_meta := m1\<rparr>)"
    using parse_metadata_command(1) [OF assms(1), of lw bmap oc] parse_metadata_command(2) [OF assms(1)] 1(1)
    by (simp add: parse_table_command_def Let_def entry_def read_char_def parse_eos_def system_commands_def process_system_put_table_def put_table_metadata_def)
  moreover have "feed (server_writer ?wr) (Inr ()) ls (w\<lparr>sv_meta := m1\<rparr>) = Some (Inr (), w\<lparr>sv_meta := m2\<rparr>)"
    using feed_lines [of ls ?a "w\<lparr>sv_meta := m1\<rparr>"] assms(5) 2(1) by simp
  moreover have "pw_close (server_writer ?wr) True (w\<lparr>sv_meta := m2\<rparr>) = Some (Inr (), w\<lparr>sv_meta := m3\<rparr>)"
    using 3(1) by (simp add: server_writer_def)
  ultimately show ?thesis using 3(2) by (simp add: put_table_result_def)
qed

lemma metadata_get_command:
  assumes "alphanum_name key" "get_metadata_value key (sv_meta w) = Some r"
  shows "cs_get (system_commands lw bmap oc) (''METADATA.'' @ key) w = Some (r, w)"
proof -
  have "\<not> valid_name_char (CHR ''*'')" by code_simp
  then have "hd key \<noteq> CHR ''*''" "key \<noteq> []" using assms(1) by (auto simp: alphanum_name_def)
  moreover have "parse_char (CHR ''.'') (''.'' @ key) = (Inr (), key)" by (simp add: parse_char_def read_char_def)
  moreover have "metadata_key key = (Inr key, [])" using parse_metadata_command(2) [OF assms(1)] by (simp add: p_then_def parse_char_def read_char_def)
  ultimately show ?thesis using parse_metadata_command(1) [OF assms(1), of lw bmap oc] assms(2)
    by (simp add: system_commands_def Let_def process_system_get_def get_metadata_def read_char_def entry_def)
qed

lemma metadata_command_parts:
  assumes "alphanum_name key" "separator c"
  shows "command_parts sys ents (''*METADATA.'' @ key @ [c]) = (sys, ''METADATA.'' @ key, [c])"
    "dropWhile (\<lambda>c. \<not> separator c) (''*METADATA.'' @ key @ [c]) = [c]"
proof -
  have "\<not> valid_alphanum_char (CHR ''?'')" "\<not> valid_alphanum_char (CHR ''='')" "\<not> valid_alphanum_char (CHR ''<'')" by code_simp+
  then have "\<not> separator d" if "d \<in> set key" for d using assms(1) that by (auto simp: alphanum_name_def separator_def list_all_iff)
  then have "list_all (\<lambda>c. \<not> separator c) (''METADATA.'' @ key)" by (simp add: separator_def list_all_iff)
  then have *: "takeWhile (\<lambda>c. \<not> separator c) ((''METADATA.'' @ key) @ [c]) = ''METADATA.'' @ key"
    "dropWhile (\<lambda>c. \<not> separator c) ((''METADATA.'' @ key) @ [c]) = [c]"
    using assms(2) by (auto simp: list_all_iff takeWhile_append2 dropWhile_append2)
  then show "command_parts sys ents (''*METADATA.'' @ key @ [c]) = (sys, ''METADATA.'' @ key, [c])" by (simp add: command_parts_def Let_def)
  show "dropWhile (\<lambda>c. \<not> separator c) (''*METADATA.'' @ key @ [c]) = [c]" using * by (simp add: separator_def)
qed

lemma total_command_set: "total_set kept cs \<Longrightarrow> command_set cs kept"
  by unfold_locales (auto simp: total_set_def total_tables_def)

lemma metadata_replies:
  assumes "alphanum_name key" "metadata_ok (sv_meta w)" "map_of (mt_map (sv_meta w)) key = Some v" "mv_type v = METADATA_MULTILINE"
    and "\<forall>l \<in> set ls. table_line l \<and> utf8_line l"
  shows "\<exists>w'. replies (system_commands lw bmap oc) ents [(''*METADATA.'' @ key @ ''<'', ls), (''*METADATA.'' @ key @ ''?'', [])] w =
    Some (''OK'' @ [newline] @ concat (map (\<lambda>l. ''!'' @ l @ [newline]) ls) @ ''.'' @ [newline], w')"
proof -
  let ?sys = "system_commands lw bmap oc"
  from metadata_table_command [OF assms, of lw bmap oc] obtain w1 where
    1: "put_table_result ?sys (''METADATA.'' @ key) [] ls w = Some (Inr (), w1)" "get_metadata_value key (sv_meta w1) = Some (Inr (), ls, RESPONSE_MANY)"
    by blast
  have sep: "separator (CHR ''<'')" "separator (CHR ''?'')" by (simp_all add: separator_def)
  have "reply ?sys ents (''*METADATA.'' @ key @ ''<'', ls) w = Some (''OK'' @ [newline], w1)"
    unfolding reply_def fst_conv snd_conv metadata_command_parts(1) [OF assms(1) sep(1)] using 1(1) by (simp add: status_text_def)
  moreover have "reply ?sys ents (''*METADATA.'' @ key @ ''?'', []) w1 = Some (concat (map (\<lambda>l. ''!'' @ l @ [newline]) ls) @ ''.'' @ [newline], w1)"
    unfolding reply_def fst_conv snd_conv metadata_command_parts(1) [OF assms(1) sep(2)]
    using metadata_get_command [OF assms(1) 1(2), of lw bmap oc] by (simp add: read_text_def)
  ultimately show ?thesis by simp
qed


definition no_get :: "'w get_command" where "no_get command w = Some ((fail ''Not available'', [], RESPONSE_ERROR), w)"
definition no_put :: "'w put_command" where "no_put command val w = Some (fail ''Not available'', w)"

definition example_others :: "unit server other_commands" where
  "example_others =
     \<lparr>oc_get_idn = no_get, oc_get_who = no_get, oc_generate_change_sets = (\<lambda>set w. Some ([], w)),
      oc_reset_change_set = (\<lambda>set action w. Some w), oc_get_desc = no_get, oc_get_capture = no_get, oc_put_capture = no_put,
      oc_get_positions = no_get, oc_get_bits = no_get, oc_get_enums = no_get, oc_get_pcap = no_get, oc_put_pcap = no_put,
      oc_put_savestate = no_put, oc_get_clock_freq = no_get\<rparr>"

lemma example_others_total: "total_others kept example_others"
  by (simp add: total_others_def example_others_def total_get_def total_put_def no_get_def no_put_def)


end
