(* ===== verification/Spec2Isabelle.thy ===== *)
theory Spec2Isabelle
  imports Panda_Base64 Panda_Hashtable Panda_Parse Panda_Enums Panda_Buffer Panda_Lut Panda_StdDev Panda_Hardware Panda_Blocks Panda_Changes Panda_Table Panda_Types Panda_Register Panda_Time Panda_File Panda_Entity Panda_Config Panda_Capture Panda_Header Panda_Mux Panda_Output Panda_Data Panda_Metadata Panda_System
begin

text \<open>
  A model of the server of the PandA bridge, \<^verbatim>\<open>src/panda-server/server\<close>, in one theory for each source file or
  group of small source files, with the properties that make each part correct.

  \<^bold>\<open>The program.\<close> Clients connect to two sockets.  On the configuration socket they send lines that read and
  write the fields of hardware blocks, their attributes and tables; on the data socket they receive what the
  hardware captures.  The names, classes and register numbers of blocks and fields come from configuration
  files read at start.  Captured data go from a kernel driver into a circular buffer with one writer and any
  number of readers, one for each data connection, which converts the raw samples and sends them after a
  header that describes them.

  \<^bold>\<open>Foundations.\<close>
  \<^item> \<^verbatim>\<open>Panda_Prelude\<close>: machine integers, error values and the chaining of fallible calls (\<^verbatim>\<open>error.h\<close>), parsing
    functions as functions on the remaining text.
  \<^item> \<^verbatim>\<open>Panda_Probe\<close>, \<^verbatim>\<open>Panda_Assoc\<close>, \<^verbatim>\<open>Panda_Hashtable\<close> (\<^verbatim>\<open>hashtable.c\<close>): open addressing; the table refines a
    partial map, probing ends, growing keeps the bindings.
  \<^item> \<^verbatim>\<open>Panda_Base64\<close> (\<^verbatim>\<open>base64.c\<close>): round trip, exact sizes, the bound on what the decoder writes.
  \<^item> \<^verbatim>\<open>Panda_Utf8\<close>, \<^verbatim>\<open>Panda_Parse\<close>, \<^verbatim>\<open>Panda_Format\<close> (\<^verbatim>\<open>parse.c\<close> and the conversions of \<^verbatim>\<open>printf\<close>): names, numbers,
    UTF-8 against its definition, indented files as forests.
  \<^item> \<^verbatim>\<open>Panda_Enums\<close> (\<^verbatim>\<open>enums.c\<close>): labels and values are inverse to each other; the locale \<open>label_map\<close> states what
    users of an enumeration rely on.
  \<^item> \<^verbatim>\<open>Panda_File\<close> (\<^verbatim>\<open>buffered_file.c\<close>): a connection refines a pair of byte streams, however the socket splits
    the bytes.

  \<^bold>\<open>Hardware and fields.\<close>
  \<^item> \<^verbatim>\<open>Panda_Hardware\<close>, \<^verbatim>\<open>Panda_Blocks\<close> (\<^verbatim>\<open>hardware.c\<close> and the registers of \<^verbatim>\<open>fields.c\<close>): register addresses, named
    registers, bus readout, time stamps, tables; accepted register assignments are distinct.
  \<^item> \<^verbatim>\<open>Panda_Changes\<close> (\<^verbatim>\<open>attributes.c\<close> and the change index): no change is lost in any interleaving.
  \<^item> \<^verbatim>\<open>Panda_Lut\<close>, \<^verbatim>\<open>Panda_Types\<close>, \<^verbatim>\<open>Panda_Register\<close>, \<^verbatim>\<open>Panda_Time\<close>, \<^verbatim>\<open>Panda_Table\<close> (\<^verbatim>\<open>lut.c\<close>, \<^verbatim>\<open>types.c\<close>, \<^verbatim>\<open>register.c\<close>,
    \<^verbatim>\<open>time.c\<close>, \<^verbatim>\<open>table.c\<close>): values written are values of the type, texts read can be written back, expressions
    give their truth table, tables are read back as sent and never leave their buffers.  The locale
    \<open>register_file\<close> is what a type needs from the class that owns its register.
  \<^item> \<^verbatim>\<open>Panda_Mux\<close> (\<^verbatim>\<open>pos_mux.c\<close>, \<^verbatim>\<open>bit_out.c\<close>): a multiplexer set to the name of an output selects this output.

  \<^bold>\<open>Commands.\<close>
  \<^item> \<^verbatim>\<open>Panda_Entity\<close> (\<^verbatim>\<open>config_command.c\<close> and the lookups of \<^verbatim>\<open>fields.c\<close>): an accepted name refers to an existing
    entity, and reported names are accepted.
  \<^item> \<^verbatim>\<open>Panda_Config\<close> (\<^verbatim>\<open>config_server.c\<close>): every command is answered, in order; the locale \<open>command_set\<close> is what the
    protocol needs from the commands.
  \<^item> \<^verbatim>\<open>Panda_Metadata\<close> (\<^verbatim>\<open>metadata.c\<close>): values of several lines are read back as written, in any interleaving of clients,
    and the memory they are collected in never overflows.
  \<^item> \<^verbatim>\<open>Panda_System\<close> (\<^verbatim>\<open>system_command.c\<close>): the dispatch of the commands that start with a star fulfils the laws of
    \<open>command_set\<close> if the commands of other components return; metadata over a whole connection.

  \<^bold>\<open>Capture.\<close>
  \<^item> \<^verbatim>\<open>Panda_Buffer\<close> (\<^verbatim>\<open>buffer.c\<close>): the circular buffer with its readers, any interleaving of writer and readers.
  \<^item> \<^verbatim>\<open>Panda_StdDev\<close> (\<^verbatim>\<open>std_dev.c\<close>): the integer part of the computation is exact.
  \<^item> \<^verbatim>\<open>Panda_Capture\<close> (\<^verbatim>\<open>capture.c\<close>): the layout sent to the hardware and the conversion of what comes back fit
    together for every choice of fields and all values; the limits of a capture.
  \<^item> \<^verbatim>\<open>Panda_Header\<close> (\<^verbatim>\<open>prepare.c\<close>): the header describes the samples; options, XML escaping, time stamps.
  \<^item> \<^verbatim>\<open>Panda_Output\<close> (\<^verbatim>\<open>pos_out.c\<close>, \<^verbatim>\<open>ext_out.c\<close>, \<^verbatim>\<open>output.c\<close> and the last part of \<^verbatim>\<open>prepare.c\<close>): in every state that the
    configuration files and the clients can reach, the selected outputs are in range, fit the buffers and are
    grouped as capturing needs them; capture options are read back as written.
  \<^item> \<^verbatim>\<open>Panda_Data\<close> (\<^verbatim>\<open>data_server.c\<close>): arming succeeds exactly when it may; an experiment ends up in the buffer as the
    driver delivered it; a connection is sent the converted samples of the buffer however they are cut into blocks.

  \<^bold>\<open>Conventions.\<close>  Integers that can wrap have their width; sizes and indices bounded by the code are natural
  numbers.  An \<^verbatim>\<open>error__t\<close> is \<open>Inl\<close> with the messages or \<open>Inr\<close>.  An operation that contains an assertion, a loop
  with no evident end or an access that may leave its array returns an option, \<open>None\<close> for the failing assertion,
  for not returning and for the undefined access; theorems about such operations show that the result is
  \<open>Some\<close>.  There is no fuel.  Shared state is passed explicitly; a method that runs under a lock is one step,
  and the theories on the capture buffer, on change indices and on tables interleave such steps.

  \<^bold>\<open>Parameters.\<close>  The registers and the driver (\<open>device\<close>) and the generated register numbers (\<open>reg_header\<close>); the
  width of \<^verbatim>\<open>long\<close> (\<open>lw\<close>); doubles with their conversions (\<open>fp_ops\<close>, \<open>double_ops\<close>, \<open>capture_ops\<close>); sockets (\<open>socket_ops\<close>, with
  \<open>socket_laws\<close> for what the system calls promise); the other threads and the state of the buffer wherever the
  data server looks at it (\<open>thread_env\<close>, \<open>block_env\<close>, \<open>capture_env\<close>, with \<open>driver_laws\<close> for the stream of the driver); the extension server (\<open>ext_ops\<close>); the contents of fresh memory.
  Each property that assumes something of a parameter has a witness on a concrete one.

  \<^bold>\<open>Not modelled.\<close>  Starting the process, logging, signals and threads as such (\<^verbatim>\<open>server.c\<close>, \<^verbatim>\<open>error.c\<close>,
  \<^verbatim>\<open>locking.c\<close>, \<^verbatim>\<open>socket_server.c\<close>): input and output without results of their own.  The simulated hardware and the
  extension server, which are proxies to Python programs.  The kernel drivers and the cache lockdown module,
  whose behaviour is that of kernel interfaces and devices not in the repository.  The C++ control loop of
  the LQR bridge, VHDL, build recipes and third party code.
\<close>

end
